(* ===== verification/VMW_Prelude.thy ===== *)
theory VMW_Prelude
  imports Main "HOL-Library.Word" "HOL-Library.Monad_Syntax"
begin

text \<open>
  The conventions every theory of this development shares.

  \<^item> Machine bytes are \<open>8 word\<close>; a \<open>char\<close> buffer is a list of them.  On the ARM
    targets of the kernel plain \<open>char\<close> is unsigned, so a byte read into an integer is
    \<open>unat\<close>.
  \<^item> A function that may read or write outside an object, dereference a null pointer or
    loop for ever is a value of an \<open>option\<close> type: \<open>None\<close> stands for undefined behaviour
    and for a loop that has used up its fuel, never for an error code of the program.
    Error codes are the negative integers the C code returns.
  \<^item> An uninitialised \<open>char\<close> array is the empty list: every read of it is \<open>None\<close>.
  \<^item> State is passed explicitly; a pointer into a static table is an index into the list
    that models the table, and a null pointer is \<open>None\<close>.
\<close>

unbundle bit_operations_syntax

type_synonym byte = "8 word"
type_synonym u32 = "32 word"
type_synonym u64 = "64 word"
type_synonym bytes = "byte list"

named_theorems buf_simps \<open>accesses to buffers\<close>
named_theorems st_simps \<open>projections of updated states\<close>

section \<open>Bounded buffers\<close>

definition rd :: "'a list \<Rightarrow> nat \<Rightarrow> 'a option" where
  "rd b i = (if i < length b then Some (b ! i) else None)"

definition wr :: "'a list \<Rightarrow> nat \<Rightarrow> 'a \<Rightarrow> 'a list option" where
  "wr b i v = (if i < length b then Some (b[i := v]) else None)"

definition slice :: "'a list \<Rightarrow> nat \<Rightarrow> nat \<Rightarrow> 'a list option" where
  "slice b off n = (if off + n \<le> length b then Some (take n (drop off b)) else None)"

definition splice :: "'a list \<Rightarrow> nat \<Rightarrow> 'a list \<Rightarrow> 'a list option" where
  "splice b off src =
     (if off + length src \<le> length b
      then Some (take off b @ src @ drop (off + length src) b) else None)"

lemma rd_Some_iff [buf_simps]: "rd b i = Some v \<longleftrightarrow> i < length b \<and> v = b ! i"
  by (auto simp: rd_def)

lemma rd_eq [simp]: "i < length b \<Longrightarrow> rd b i = Some (b ! i)"
  by (simp add: rd_def)

lemma rd_None_iff: "rd b i = None \<longleftrightarrow> length b \<le> i"
  by (simp add: rd_def)

lemma wr_Some_iff [buf_simps]: "wr b i v = Some b' \<longleftrightarrow> i < length b \<and> b' = b[i := v]"
  by (auto simp: wr_def)

lemma wr_eq [simp]: "i < length b \<Longrightarrow> wr b i v = Some (b[i := v])"
  by (simp add: wr_def)

lemma slice_Some_iff [buf_simps]:
  "slice b off n = Some d \<longleftrightarrow> off + n \<le> length b \<and> d = take n (drop off b)"
  by (auto simp: slice_def)

lemma slice_eq: "off + n \<le> length b \<Longrightarrow> slice b off n = Some (take n (drop off b))"
  by (simp add: slice_def)

lemma splice_Some_iff [buf_simps]:
  "splice b off src = Some d \<longleftrightarrow>
     off + length src \<le> length b \<and> d = take off b @ src @ drop (off + length src) b"
  by (auto simp: splice_def)

lemma splice_eq:
  "off + length src \<le> length b \<Longrightarrow>
     splice b off src = Some (take off b @ src @ drop (off + length src) b)"
  by (simp add: splice_def)

lemma length_spliced:
  "off + length src \<le> length b \<Longrightarrow>
     length (take off b @ src @ drop (off + length src) b) = length b"
  by simp

lemma nth_spliced:
  "off + length src \<le> length b \<Longrightarrow> i < length b \<Longrightarrow>
     (take off b @ src @ drop (off + length src) b) ! i =
       (if off \<le> i \<and> i < off + length src then src ! (i - off) else b ! i)"
  by (auto simp: nth_append min_def)

lemma take_drop_spliced_same:
  "off + length src \<le> length b \<Longrightarrow>
     take (length src) (drop off (take off b @ src @ drop (off + length src) b)) = src"
  by simp

lemma take_drop_spliced_other:
  assumes "off + length src \<le> length b" "o2 + n \<le> length b"
    and "o2 + n \<le> off \<or> off + length src \<le> o2"
  shows "take n (drop o2 (take off b @ src @ drop (off + length src) b)) = take n (drop o2 b)"
proof -
  define c where "c = take off b @ src @ drop (off + length src) b"
  have len: "length c = length b" using assms(1) by (simp add: c_def)
  have "c ! (o2 + i) = b ! (o2 + i)" if "i < n" for i
    unfolding c_def using assms that by (subst nth_spliced) auto
  with assms(2) len have "take n (drop o2 c) = take n (drop o2 b)"
    by (auto intro: nth_equalityI)
  then show ?thesis unfolding c_def .
qed

section \<open>The C loop\<close>

text \<open>
  A \<open>while (1)\<close> loop whose exits are \<open>break\<close> and \<open>return\<close> is a body that yields the next
  state (\<open>Inl\<close>) or the result (\<open>Inr\<close>).  The fuel bounds the number of iterations.
\<close>

fun c_loop :: "nat \<Rightarrow> ('s \<Rightarrow> ('s + 'r) option) \<Rightarrow> 's \<Rightarrow> 'r option" where
  "c_loop 0 body s = None"
| "c_loop (Suc n) body s =
     (case body s of None \<Rightarrow> None
      | Some (Inl s') \<Rightarrow> c_loop n body s'
      | Some (Inr r) \<Rightarrow> Some r)"

text \<open>Total correctness: an invariant, a measure below the fuel, and what an exit gives.\<close>

lemma c_loop_total:
  assumes "I s" and "m s < n"
    and step: "\<And>s. I s \<Longrightarrow>
      (\<exists>s'. body s = Some (Inl s') \<and> I s' \<and> m s' < m s) \<or> (\<exists>r. body s = Some (Inr r) \<and> Q r)"
  shows "\<exists>r. c_loop n body s = Some r \<and> Q r"
  using assms(1,2)
proof (induction n arbitrary: s)
  case (Suc n)
  from step[OF Suc.prems(1)] show ?case
  proof
    assume "\<exists>s'. body s = Some (Inl s') \<and> I s' \<and> m s' < m s"
    then obtain s' where s': "body s = Some (Inl s')" "I s'" "m s' < m s" by blast
    with Suc.prems(2) have "m s' < n" by simp
    from Suc.IH[OF s'(2) this] s'(1) show ?thesis by simp
  next
    assume "\<exists>r. body s = Some (Inr r) \<and> Q r"
    then show ?thesis by auto
  qed
qed simp

text \<open>Partial correctness.\<close>

lemma c_loop_partial:
  assumes "c_loop n body s = Some r" and "I s"
    and "\<And>s s'. I s \<Longrightarrow> body s = Some (Inl s') \<Longrightarrow> I s'"
    and "\<And>s r. I s \<Longrightarrow> body s = Some (Inr r) \<Longrightarrow> Q r"
  shows "Q r"
  using assms(1,2)
proof (induction n arbitrary: s)
  case (Suc n)
  then show ?case
    by (cases "body s") (auto split: sum.splits intro: assms(3) Suc.IH dest: assms(4))
qed simp

text \<open>Divergence: a set of states the body never leaves.\<close>

lemma c_loop_diverges:
  assumes "I s" and "\<And>s. I s \<Longrightarrow> \<exists>s'. body s = Some (Inl s') \<and> I s'"
  shows "c_loop n body s = None"
  using assms(1)
proof (induction n arbitrary: s)
  case (Suc n)
  from assms(2)[OF Suc.prems] obtain s' where "body s = Some (Inl s')" "I s'" by blast
  then show ?case using Suc.IH by simp
qed simp

lemma c_loop_Suc: "c_loop n body s = Some r \<Longrightarrow> c_loop (Suc n) body s = Some r"
proof (induction n arbitrary: s)
  case (Suc n)
  then show ?case
    by (cases "body s") (auto split: sum.splits)
qed simp

lemma c_loop_mono:
  assumes "c_loop n body s = Some r" and "n \<le> m"
  shows "c_loop m body s = Some r"
  using assms(2,1)
  by (induction m rule: dec_induct) (simp_all add: c_loop_Suc del: c_loop.simps)

lemma c_loop_numeral [simp]:
  "c_loop (numeral k) body s =
     (case body s of None \<Rightarrow> None
      | Some (Inl s') \<Rightarrow> c_loop (pred_numeral k) body s'
      | Some (Inr r) \<Rightarrow> Some r)"
  by (simp add: numeral_eq_Suc)

section \<open>The counted loop\<close>

text \<open>\<open>for (i = lo; i < lo + n; i++) s = f(i, s)\<close>, the body possibly undefined.\<close>

fun c_for :: "nat \<Rightarrow> nat \<Rightarrow> (nat \<Rightarrow> 's \<Rightarrow> 's option) \<Rightarrow> 's \<Rightarrow> 's option" where
  "c_for 0 i f s = Some s"
| "c_for (Suc n) i f s = Option.bind (f i s) (c_for n (Suc i) f)"

lemma c_for_inv:
  assumes "I i s"
    and "\<And>j s. i \<le> j \<Longrightarrow> j < i + n \<Longrightarrow> I j s \<Longrightarrow> \<exists>s'. f j s = Some s' \<and> I (Suc j) s'"
  shows "\<exists>s'. c_for n i f s = Some s' \<and> I (i + n) s'"
  using assms
proof (induction n arbitrary: i s)
  case (Suc n)
  from Suc.prems(2)[of i s] Suc.prems(1) obtain s1 where s1: "f i s = Some s1" "I (Suc i) s1"
    by auto
  have "\<exists>s'. c_for n (Suc i) f s1 = Some s' \<and> I (Suc i + n) s'"
    using s1(2) by (rule Suc.IH) (rule Suc.prems(2); simp)
  with s1(1) show ?case by simp
qed simp

lemma c_for_cong:
  "(\<And>j s. i \<le> j \<Longrightarrow> j < i + n \<Longrightarrow> f j s = g j s) \<Longrightarrow> c_for n i f s = c_for n i g s"
proof (induction n arbitrary: i s)
  case (Suc n)
  have "c_for n (Suc i) f = c_for n (Suc i) g" by (rule ext) (rule Suc.IH, simp add: Suc.prems)
  then show ?case using Suc.prems by simp
qed simp

lemma c_for_numeral [simp]:
  "c_for (numeral k) i f s = Option.bind (f i s) (c_for (pred_numeral k) (Suc i) f)"
  by (simp add: numeral_eq_Suc)

section \<open>Partial correctness of option-valued code\<close>

text \<open>\<open>yields P x\<close>: if \<open>x\<close> is defined, its value satisfies \<open>P\<close>.  The rules follow the code.\<close>

named_theorems yields_intros \<open>rules for yields\<close>

definition yields :: "('a \<Rightarrow> bool) \<Rightarrow> 'a option \<Rightarrow> bool" where
  "yields P x \<longleftrightarrow> (\<forall>y. x = Some y \<longrightarrow> P y)"

lemma yieldsI: "(\<And>y. x = Some y \<Longrightarrow> P y) \<Longrightarrow> yields P x"
  by (simp add: yields_def)

lemma yieldsD: "yields P x \<Longrightarrow> x = Some y \<Longrightarrow> P y"
  by (simp add: yields_def)

lemma yields_None [simp, yields_intros]: "yields P None"
  by (simp add: yields_def)

lemma yields_Some [simp]: "yields P (Some y) = P y"
  by (simp add: yields_def)

lemma yields_SomeI [yields_intros]: "P y \<Longrightarrow> yields P (Some y)"
  by simp

lemma yields_bind: "yields Q x \<Longrightarrow> (\<And>a. Q a \<Longrightarrow> yields P (f a)) \<Longrightarrow> yields P (Option.bind x f)"
  by (cases x) (simp_all add: yields_def)

lemma yields_bindI [yields_intros]: "(\<And>a. x = Some a \<Longrightarrow> yields P (f a)) \<Longrightarrow> yields P (Option.bind x f)"
  by (cases x) (simp_all add: yields_def)

lemma yields_if [yields_intros]: "(c \<Longrightarrow> yields P x) \<Longrightarrow> (\<not> c \<Longrightarrow> yields P y) \<Longrightarrow> yields P (if c then x else y)"
  by simp

lemma yields_Let [yields_intros]: "yields P (f a) \<Longrightarrow> yields P (Let a f)"
  by simp

lemma yields_prod [yields_intros]: "(\<And>a b. p = (a, b) \<Longrightarrow> yields P (f a b)) \<Longrightarrow> yields P (case p of (a, b) \<Rightarrow> f a b)"
  by (cases p) simp

lemma yields_option [yields_intros]:
  "(x = None \<Longrightarrow> yields P a) \<Longrightarrow> (\<And>y. x = Some y \<Longrightarrow> yields P (f y)) \<Longrightarrow> yields P (case x of None \<Rightarrow> a | Some y \<Rightarrow> f y)"
  by (cases x) simp_all

lemma yields_sum [yields_intros]:
  "(\<And>y. x = Inl y \<Longrightarrow> yields P (f y)) \<Longrightarrow> (\<And>y. x = Inr y \<Longrightarrow> yields P (g y)) \<Longrightarrow> yields P (case x of Inl y \<Rightarrow> f y | Inr y \<Rightarrow> g y)"
  by (cases x) simp_all

lemma yields_mono: "yields Q x \<Longrightarrow> (\<And>y. Q y \<Longrightarrow> P y) \<Longrightarrow> yields P x"
  by (simp add: yields_def)

lemma yields_c_loop:
  assumes "I s" "\<And>s. I s \<Longrightarrow> yields (case_sum I Q) (body s)"
  shows "yields Q (c_loop n body s)"
proof (rule yieldsI)
  fix y assume "c_loop n body s = Some y"
  then show "Q y"
    by (rule c_loop_partial[where I = I]) (use assms(1) yieldsD[OF assms(2)] in force)+
qed

section \<open>Words\<close>

lemma unat32_lt: "unat (x :: u32) < 4294967296"
  using unsigned_less[of x] by simp

lemma unat8_lt: "unat (b :: byte) < 256"
  using unsigned_less[of b] by simp

lemma unat64_lt: "unat (x :: u64) < 18446744073709551616"
  using unsigned_less[of x] by simp

section \<open>Integer conversions\<close>

text \<open>Conversions between \<open>int\<close> and \<open>uint32_t\<close>.\<close>

definition to_u32 :: "int \<Rightarrow> nat" where
  "to_u32 x = nat (x mod 2 ^ 32)"

definition to_i32 :: "int \<Rightarrow> int" where
  "to_i32 x = (x + 2 ^ 31) mod 2 ^ 32 - 2 ^ 31"

text \<open>Signed division of C rounds towards zero.\<close>

definition c_div :: "int \<Rightarrow> int \<Rightarrow> int" where
  "c_div a b = sgn a * sgn b * (\<bar>a\<bar> div \<bar>b\<bar>)"

lemma to_u32_id [simp]: "0 \<le> x \<Longrightarrow> x < 4294967296 \<Longrightarrow> to_u32 x = nat x"
  by (simp add: to_u32_def)

lemma to_i32_id [simp]: "- 2147483648 \<le> x \<Longrightarrow> x < 2147483648 \<Longrightarrow> to_i32 x = x"
  by (simp add: to_i32_def)

lemma c_div_nonneg [simp]: "0 \<le> a \<Longrightarrow> 0 < b \<Longrightarrow> c_div a b = a div b"
  by (auto simp: c_div_def sgn_if)

section \<open>Error codes\<close>

text \<open>\<open>kernel/include/lib/errors.h\<close>.\<close>

abbreviation (input) "ENOENT \<equiv> 2 :: int"
abbreviation (input) "EIO \<equiv> 5 :: int"
abbreviation (input) "E2BIG \<equiv> 7 :: int"
abbreviation (input) "EBADF \<equiv> 9 :: int"
abbreviation (input) "ECHILD \<equiv> 10 :: int"
abbreviation (input) "ENOMEM \<equiv> 12 :: int"
abbreviation (input) "EBUSY \<equiv> 16 :: int"
abbreviation (input) "ENODEV \<equiv> 19 :: int"
abbreviation (input) "ENOTDIR \<equiv> 20 :: int"
abbreviation (input) "EISDIR \<equiv> 21 :: int"
abbreviation (input) "EINVAL \<equiv> 22 :: int"
abbreviation (input) "ENFILE \<equiv> 23 :: int"
abbreviation (input) "ENOTTY \<equiv> 25 :: int"
abbreviation (input) "ENOSPC \<equiv> 28 :: int"
abbreviation (input) "EROFS \<equiv> 30 :: int"
abbreviation (input) "ERANGE \<equiv> 34 :: int"
abbreviation (input) "ENOSYS \<equiv> 38 :: int"

end
