(* ===== verification/Cstring.thy ===== *)
theory Cstring
  imports VMW_Prelude "HOL-Library.Sublist"
begin

text \<open>
  The kernel's string and memory routines: \<open>kernel/lib/string.c\<close>, \<open>kernel/lib/memcpy.c\<close>,
  the byte order helper of \<open>kernel/include/lib/endian.h\<close> and the software division of
  \<open>kernel/lib/div.arm1176.c\<close>.

  A C string is the list of the bytes from the pointer on; the byte after the last one is the
  terminating NUL (\<open>str_at\<close>), and an earlier zero byte ends the string just the same.
  Routines that write through a pointer take the destination buffer and return it changed, or
  \<open>None\<close> where they leave it.  Routines whose source and destination may overlap work on one
  list, the memory, with two offsets.
\<close>

section \<open>Reading strings\<close>

definition str_at :: "bytes \<Rightarrow> nat \<Rightarrow> byte" where
  "str_at s i = (if i < length s then s ! i else 0)"

text \<open>What a C program sees of a string: the bytes before the first NUL.\<close>

definition cstr :: "bytes \<Rightarrow> bytes" where
  "cstr s = takeWhile (\<lambda>c. c \<noteq> 0) s"

fun strlen :: "bytes \<Rightarrow> nat" where
  "strlen [] = 0"
| "strlen (c # cs) = (if c = 0 then 0 else Suc (strlen cs))"

fun strncmp :: "bytes \<Rightarrow> bytes \<Rightarrow> nat \<Rightarrow> int" where
  "strncmp s1 s2 0 = 0"
| "strncmp s1 s2 (Suc n) =
     (let r = uint (str_at s1 0) - uint (str_at s2 0) in
      if r \<noteq> 0 then r
      else if str_at s1 0 = 0 then 0
      else strncmp (tl s1) (tl s2) n)"

text \<open>\<open>memcmp\<close> compares two objects of at least \<open>n\<close> bytes.\<close>

fun memcmp :: "bytes \<Rightarrow> bytes \<Rightarrow> nat \<Rightarrow> int option" where
  "memcmp s1 s2 0 = Some 0"
| "memcmp (a # s1) (b # s2) (Suc n) =
     (let r = uint a - uint b in if r \<noteq> 0 then Some r else memcmp s1 s2 n)"
| "memcmp _ _ (Suc n) = None"

section \<open>Copying strings\<close>

text \<open>The \<open>n\<close> bytes \<open>strncpy\<close> stores: the first loop up to the NUL, the second one pads.\<close>

fun strncpy_out :: "bytes \<Rightarrow> nat \<Rightarrow> bytes" where
  "strncpy_out src 0 = []"
| "strncpy_out [] (Suc n) = replicate (Suc n) 0"
| "strncpy_out (c # cs) (Suc n) =
     (if c = 0 then replicate (Suc n) 0 else c # strncpy_out cs n)"

definition strncpy :: "bytes \<Rightarrow> bytes \<Rightarrow> nat \<Rightarrow> bytes option" where
  "strncpy dest src n = splice dest 0 (strncpy_out src n)"

text \<open>
  The bytes \<open>strlcpy\<close> stores with \<open>m = n - 1\<close> (an unsigned subtraction: \<open>n = 0\<close> is
  \<open>2 ^ 32 - 1\<close>), and the length it returns.
\<close>

fun strlcpy_out :: "bytes \<Rightarrow> nat \<Rightarrow> bytes" where
  "strlcpy_out src 0 = [0]"
| "strlcpy_out [] (Suc m) = [0]"
| "strlcpy_out (c # cs) (Suc m) = (if c = 0 then [0] else c # strlcpy_out cs m)"

definition strlcpy :: "bytes \<Rightarrow> bytes \<Rightarrow> nat \<Rightarrow> (nat \<times> bytes) option" where
  "strlcpy dest src n =
     (let out = strlcpy_out src (nat ((int n - 1) mod 2 ^ 32)) in
      do { dest' \<leftarrow> splice dest 0 out; Some (length out - 1, dest') })"

definition strncat :: "bytes \<Rightarrow> bytes \<Rightarrow> nat \<Rightarrow> bytes option" where
  "strncat dest src n = splice dest (strlen dest) (strlcpy_out src n)"

section \<open>Moving memory\<close>

definition memcpy :: "nat \<Rightarrow> nat \<Rightarrow> nat \<Rightarrow> bytes \<Rightarrow> bytes option" where
  "memcpy d s n m = c_for n 0 (\<lambda>i m. Option.bind (rd m (s + i)) (wr m (d + i))) m"

fun move_backward :: "nat \<Rightarrow> nat \<Rightarrow> nat \<Rightarrow> bytes \<Rightarrow> bytes option" where
  "move_backward d s 0 m = Some m"
| "move_backward d s (Suc i) m =
     do { v \<leftarrow> rd m (s + i); m' \<leftarrow> wr m (d + i) v; move_backward d s i m' }"

text \<open>
  The overlap test \<open>(uintptr_t)s-(uintptr_t)d-n <= -2*n\<close> is in unsigned 32-bit arithmetic.
\<close>

definition memmove :: "nat \<Rightarrow> nat \<Rightarrow> nat \<Rightarrow> bytes \<Rightarrow> bytes option" where
  "memmove d s n m =
     (if d = s then Some m
      else if (of_nat s :: u32) - of_nat d - of_nat n \<le> - (2 * of_nat n)
      then memcpy d s n m
      else if d < s then memcpy d s n m
      else move_backward d s n m)"

section \<open>Byte order\<close>

definition ntohl :: "u32 \<Rightarrow> u32" where
  "ntohl x = (push_bit 24 x AND 0xFF000000) OR (push_bit 8 x AND 0x00FF0000)
       OR (drop_bit 8 x AND 0x0000FF00) OR (drop_bit 24 x AND 0x000000FF)"

section \<open>Software division\<close>

definition uidiv_step :: "u32 \<Rightarrow> u32 \<Rightarrow> u32 \<times> u32 \<Rightarrow> (u32 \<times> u32 + u32) option" where
  "uidiv_step dividend divisor = (\<lambda>(q, new_d).
     if dividend < new_d then Some (Inr q) else Some (Inl (q + 1, new_d + divisor)))"

definition aeabi_uidiv :: "nat \<Rightarrow> u32 \<Rightarrow> u32 \<Rightarrow> u32 option" where
  "aeabi_uidiv fuel dividend divisor =
     (if divisor = 0 then Some 0
      else c_loop fuel (uidiv_step dividend divisor) (0, divisor))"

section \<open>Lemmas\<close>

lemma uint_eq_iff [simp]: "uint (a :: 'a::len word) = uint b \<longleftrightarrow> a = b"
  by (simp add: word_uint_eq_iff)

lemma cstr_Nil [simp]: "cstr [] = []"
  by (simp add: cstr_def)

lemma cstr_Cons: "cstr (c # s) = (if c = 0 then [] else c # cstr s)"
  by (simp add: cstr_def)

lemma strlen_cstr: "strlen s = length (cstr s)"
  by (induction s) (auto simp: cstr_Cons)

lemma cstr_id: "0 \<notin> set s \<Longrightarrow> cstr s = s"
  by (simp add: cstr_def takeWhile_eq_all_conv) metis

lemma cstr_no_nul: "0 \<notin> set (cstr s)"
  by (auto simp: cstr_def dest: set_takeWhileD)

lemma cstr_append_nul: "0 \<notin> set s \<Longrightarrow> cstr (s @ 0 # t) = s"
  by (induction s) (auto simp: cstr_Cons)

lemma cstr_replicate_nul [simp]: "cstr (replicate n 0) = []"
  by (cases n) (auto simp: cstr_Cons)

lemma cstr_append_replicate: "0 \<notin> set s \<Longrightarrow> cstr (s @ replicate n 0) = s"
  by (induction s) (auto simp: cstr_Cons)

lemma str_at_0: "str_at s 0 = (case s of [] \<Rightarrow> 0 | c # _ \<Rightarrow> c)"
  by (cases s) (auto simp: str_at_def)

text \<open>The test \<open>!strncmp(s1,s2,n)\<close> compares the first \<open>n\<close> characters.\<close>

lemma strncmp_eq_0_iff:
  "strncmp s1 s2 n = 0 \<longleftrightarrow> take n (cstr s1) = take n (cstr s2)"
proof (induction n arbitrary: s1 s2)
  case (Suc n)
  show ?case
    by (cases s1; cases s2) (auto simp: Suc.IH str_at_0 cstr_Cons Let_def uint_0_iff)
qed simp

text \<open>The test \<open>!strncmp(s,t,strlen(s))\<close>, which the kernel uses for names, is a prefix test.\<close>

lemma strncmp_strlen_prefix:
  "strncmp s t (strlen s) = 0 \<longleftrightarrow> prefix (cstr s) (cstr t)"
  by (auto simp: strncmp_eq_0_iff strlen_cstr prefix_def)
    (metis append_take_drop_id take_all_iff order_refl append_eq_conv_conj)+

lemma memcmp_eq_0_iff:
  "memcmp s1 s2 n = Some 0 \<longleftrightarrow> n \<le> length s1 \<and> n \<le> length s2 \<and> take n s1 = take n s2"
  by (induction s1 s2 n rule: memcmp.induct) (auto simp: Let_def)

lemma length_strncpy_out [simp]: "length (strncpy_out src n) = n"
  by (induction src n rule: strncpy_out.induct) auto

lemma strncpy_out_eq:
  "strncpy_out src n = take n (cstr src) @ replicate (n - length (cstr src)) 0"
  by (induction src n rule: strncpy_out.induct) (auto simp: cstr_Cons)

lemma cstr_strncpy_out: "cstr (strncpy_out src n) = take n (cstr src)"
proof -
  have "0 \<notin> set (take n (cstr src))"
    using cstr_no_nul[of src] by (meson in_set_takeD)
  then show ?thesis
    unfolding strncpy_out_eq
    by (cases "n - length (cstr src)") (simp_all add: cstr_id cstr_append_nul)
qed

lemma strlcpy_out_eq: "strlcpy_out src m = take m (cstr src) @ [0]"
  by (induction src m rule: strlcpy_out.induct) (auto simp: cstr_Cons)

section \<open>Overlapping moves\<close>

text \<open>The first \<open>i\<close> bytes of a forward copy.\<close>

definition copied :: "nat \<Rightarrow> nat \<Rightarrow> nat \<Rightarrow> bytes \<Rightarrow> bytes \<Rightarrow> bool" where
  "copied d s i m0 m \<longleftrightarrow> length m = length m0 \<and>
     (\<forall>j < length m0. m ! j = (if d \<le> j \<and> j < d + i then m0 ! (s + (j - d)) else m0 ! j))"

lemma copied_spliced:
  assumes "copied d s n m0 m" "d + n \<le> length m0" "s + n \<le> length m0"
  shows "m = take d m0 @ take n (drop s m0) @ drop (d + n) m0"
proof -
  define c where "c = take n (drop s m0)"
  have len: "length c = n" using assms(3) by (simp add: c_def)
  have nth: "c ! i = m0 ! (s + i)" if "i < n" for i
    using that assms(3) by (simp add: c_def)
  have "(take d m0 @ c @ drop (d + n) m0) ! j = m ! j" if "j < length m0" for j
  proof -
    have "(take d m0 @ c @ drop (d + n) m0) ! j = (if d \<le> j \<and> j < d + n then c ! (j - d) else m0 ! j)"
      using nth_spliced[of d c m0 j] assms(2) that unfolding len by simp
    also have "\<dots> = m ! j"
      using assms(1) that nth[of "j - d"] by (auto simp: copied_def)
    finally show ?thesis .
  qed
  moreover have "length (take d m0 @ c @ drop (d + n) m0) = length m"
    using assms(1,2) len by (simp add: copied_def)
  ultimately show ?thesis
    using assms(1) unfolding c_def copied_def by (metis nth_equalityI)
qed

lemma memcpy_eq:
  assumes "d + n \<le> length m" "s + n \<le> length m" "d < s \<or> s + n \<le> d"
  shows "memcpy d s n m = Some (take d m @ take n (drop s m) @ drop (d + n) m)"
proof -
  have "\<exists>m'. memcpy d s n m = Some m' \<and> copied d s (0 + n) m m'"
    unfolding memcpy_def
  proof (rule c_for_inv)
    show "copied d s 0 m m" by (auto simp: copied_def)
    fix j m1 assume "0 \<le> j" "j < 0 + n" "copied d s j m m1"
    then show "\<exists>s'. Option.bind (rd m1 (s + j)) (wr m1 (d + j)) = Some s' \<and> copied d s (Suc j) m s'"
      using assms by (auto simp: copied_def nth_list_update less_Suc_eq)
  qed
  then show ?thesis using copied_spliced[of d s n m] assms by auto
qed

text \<open>A backward copy that has the \<open>i\<close> first bytes still to do.\<close>

lemma move_backward_eq:
  assumes "d + n \<le> length m0" "s + n \<le> length m0" "s < d" "i \<le> n" "length m = length m0"
    and "\<forall>j < length m0. m ! j =
           (if d + i \<le> j \<and> j < d + n then m0 ! (s + (j - d)) else m0 ! j)"
  shows "\<exists>m'. move_backward d s i m = Some m' \<and> copied d s n m0 m'"
  using assms(4-)
proof (induction i arbitrary: m)
  case 0
  then show ?case by (auto simp: copied_def)
next
  case (Suc i)
  have "\<exists>m'. move_backward d s i (m[d + i := m ! (s + i)]) = Some m' \<and> copied d s n m0 m'"
    by (rule Suc.IH) (use Suc.prems assms(1-3) in \<open>auto simp: nth_list_update\<close>)
  then show ?case using Suc.prems assms(1-3) by auto
qed

lemma memmove_test_disjoint:
  assumes "s < d" "d + n \<le> 2 ^ 32" "0 < n" "n < 2 ^ 31"
    and le: "(of_nat s :: u32) - of_nat d - of_nat n \<le> - (2 * of_nat n)"
  shows "s + n \<le> d"
proof -
  have l: "(of_nat s :: u32) - of_nat d - of_nat n = word_of_int (int s - int d - int n)"
    and r: "- (2 * of_nat n :: u32) = word_of_int (- (2 * int n))"
    by simp_all
  have "(int s - int d - int n) mod 2 ^ 32 = int s - int d - int n + 2 ^ 32"
    using assms(1,2) by (intro mod_pos_pos_trivial[of "int s - int d - int n + 2 ^ 32" "2 ^ 32",
      unfolded mod_add_self2]) auto
  moreover have "(- (2 * int n)) mod 2 ^ 32 = 2 ^ 32 - 2 * int n"
    using assms(3,4) by (intro mod_pos_pos_trivial[of "- (2 * int n) + 2 ^ 32" "2 ^ 32",
      unfolded mod_add_self2, THEN trans]) auto
  ultimately have "int s - int d - int n + 2 ^ 32 \<le> 2 ^ 32 - 2 * int n"
    using le unfolding l r word_le_def uint_word_of_int by simp
  then show ?thesis by simp
qed

lemma take_splice_id: "d + n \<le> length m \<Longrightarrow> take d m @ take n (drop d m) @ drop (d + n) m = m"
  by (metis append_take_drop_id drop_drop add.commute)

text \<open>
  C31: \<open>memmove\<close> leaves in the destination the bytes the source region held before the call,
  and every other byte unchanged, however the two regions overlap.
\<close>

theorem memmove_correct:
  assumes "d + n \<le> length m" and "s + n \<le> length m" and "length m \<le> 2 ^ 32" and "n < 2 ^ 31"
  shows "memmove d s n m = Some (take d m @ take n (drop s m) @ drop (d + n) m)"
proof (cases "n = 0 \<or> d = s")
  case True
  then show ?thesis
    using assms by (auto simp: memmove_def memcpy_def take_splice_id)
next
  case False
  show ?thesis
  proof (cases "d < s")
    case True
    then show ?thesis using False assms by (simp add: memmove_def memcpy_eq)
  next
    case dge: False
    with False have sd: "s < d" by simp
    have bwd: "move_backward d s n m = Some (take d m @ take n (drop s m) @ drop (d + n) m)"
    proof -
      have "\<exists>m'. move_backward d s n m = Some m' \<and> copied d s n m m'"
        by (rule move_backward_eq) (use assms(1,2) sd in auto)
      then show ?thesis using copied_spliced[of d s n m] assms(1,2) by auto
    qed
    have fwd: "memcpy d s n m = Some (take d m @ take n (drop s m) @ drop (d + n) m)"
      if "s + n \<le> d" using that assms(1,2) by (simp add: memcpy_eq)
    show ?thesis
      using bwd fwd memmove_test_disjoint[of s d n] False dge sd assms unfolding memmove_def by auto
  qed
qed

theorem memmove_correct_witness:
  "memmove 1 0 3 [10, 20, 30, 40, 50] = Some [10, 10, 20, 30, 50]"
  using memmove_correct[of 1 3 "[10, 20, 30, 40, 50]" 0] by simp

section \<open>Division\<close>

lemma unat_plus_small: "unat a + unat b < 2 ^ 32 \<Longrightarrow> unat (a + b :: u32) = unat a + unat b"
  by (subst unat_add_lem[symmetric]) simp

text \<open>The state of the division loop after \<open>k\<close> rounds, before any product wraps around.\<close>

definition uidiv_at :: "u32 \<Rightarrow> u32 \<Rightarrow> nat \<Rightarrow> u32 \<times> u32 \<Rightarrow> bool" where
  "uidiv_at dividend divisor k = (\<lambda>(q, new_d). unat q = k \<and>
     unat new_d = (k + 1) * unat divisor \<and> k \<le> unat dividend div unat divisor)"

lemma uidiv_step_cases:
  assumes "0 < divisor" "unat dividend + unat divisor < 2 ^ 32" "uidiv_at dividend divisor k s"
  shows "(\<exists>s'. uidiv_step dividend divisor s = Some (Inl s') \<and> uidiv_at dividend divisor (Suc k) s')
    \<or> uidiv_step dividend divisor s = Some (Inr (dividend div divisor))"
proof (cases s)
  case (Pair q new_d)
  let ?a = "unat dividend" and ?b = "unat divisor"
  have b: "0 < ?b" using assms(1) by (simp add: unat_gt_0 word_neq_0_conv)
  have st: "unat q = k" "unat new_d = (k + 1) * ?b" "k \<le> ?a div ?b"
    using assms(3) Pair by (auto simp: uidiv_at_def)
  show ?thesis
  proof (cases "dividend < new_d")
    case True
    then have "?a < (k + 1) * ?b" using st(2) by (simp add: word_less_nat_alt)
    then have "?a div ?b < k + 1" using b by (simp add: less_mult_imp_div_less)
    with st have "unat q = unat (dividend div divisor)" by (simp add: unat_div_distrib)
    then have "q = dividend div divisor" by (rule unsigned_word_eqI)
    with True Pair show ?thesis by (simp add: uidiv_step_def)
  next
    case False
    then have le: "(k + 1) * ?b \<le> ?a" using st(2) by (simp add: word_less_nat_alt)
    then have k: "k + 1 \<le> ?a div ?b" using b by (simp add: less_eq_div_iff_mult_less_eq)
    have "unat new_d + ?b < 2 ^ 32" using le st(2) assms(2) by simp
    then have d: "unat (new_d + divisor) = (Suc k + 1) * ?b"
      using st(2) by (simp add: unat_plus_small)
    have "k + 1 \<le> ?a" using k div_le_dividend order_trans by blast
    then have "unat q + unat (1 :: u32) < 2 ^ 32" using st(1) unat32_lt[of dividend] by simp
    then have "unat (q + 1) = Suc k" using st(1) by (simp add: unat_plus_small)
    with d k False Pair show ?thesis by (simp add: uidiv_step_def uidiv_at_def)
  qed
qed

text \<open>
  the software division returns the quotient when dividend plus divisor fits in 32 bits,
  after one round per unit of the quotient and one more.
\<close>

theorem aeabi_uidiv_correct:
  assumes "0 < divisor" and "unat dividend + unat divisor < 2 ^ 32"
    and "unat dividend div unat divisor < fuel"
  shows "aeabi_uidiv fuel dividend divisor = Some (dividend div divisor)"
proof -
  let ?q = "unat dividend div unat divisor"
  have "\<exists>r. c_loop fuel (uidiv_step dividend divisor) (0, divisor) = Some r \<and> r = dividend div divisor"
  proof (rule c_loop_total[where I = "\<lambda>s. \<exists>k. uidiv_at dividend divisor k s"
        and m = "\<lambda>s. ?q - unat (fst s)"])
    show "\<exists>k. uidiv_at dividend divisor k (0, divisor)"
      by (rule exI[of _ 0]) (simp add: uidiv_at_def)
    show "?q - unat (fst (0, divisor)) < fuel" using assms(3) by simp
    fix s assume "\<exists>k. uidiv_at dividend divisor k s"
    then obtain k where k: "uidiv_at dividend divisor k s" by blast
    from uidiv_step_cases[OF assms(1,2) k]
    show "(\<exists>s'. uidiv_step dividend divisor s = Some (Inl s') \<and>
        (\<exists>k. uidiv_at dividend divisor k s') \<and> ?q - unat (fst s') < ?q - unat (fst s)) \<or>
      (\<exists>r. uidiv_step dividend divisor s = Some (Inr r) \<and> r = dividend div divisor)"
      using k by (fastforce simp: uidiv_at_def)
  qed
  then show ?thesis using assms(1) by (auto simp: aeabi_uidiv_def)
qed

theorem aeabi_uidiv_correct_witness: "aeabi_uidiv 4 100 30 = Some 3"
  using aeabi_uidiv_correct[of 30 100 4] by simp

text \<open>
  the division loop never stops for a dividend within \<open>2 ^ k\<close> of \<open>2 ^ 32\<close> when \<open>2 ^ k\<close>
  divides the divisor: the running multiple wraps around and never exceeds the dividend.  With
  \<open>k = 0\<close> this is every division of \<open>0xffffffff\<close>.
\<close>

theorem aeabi_uidiv_diverges:
  assumes "divisor \<noteq> 0" and "k < 32" and "2 ^ k dvd unat divisor" and "2 ^ 32 - 2 ^ k \<le> unat dividend"
  shows "aeabi_uidiv fuel dividend divisor = None"
proof -
  have bound: "unat x \<le> 2 ^ 32 - 2 ^ k" if "2 ^ k dvd unat x" for x :: u32
  proof -
    have "2 ^ k dvd (2 ^ 32 :: nat)" using assms(2) by (intro le_imp_power_dvd) simp
    with that have "2 ^ k dvd 2 ^ 32 - unat x" by (rule dvd_diff_nat[rotated])
    moreover have "0 < 2 ^ 32 - unat x" using unat32_lt[of x] by simp
    ultimately have "2 ^ k \<le> 2 ^ 32 - unat x" by (rule dvd_imp_le)
    then show ?thesis using unat32_lt[of x] by simp
  qed
  have "c_loop fuel (uidiv_step dividend divisor) (0, divisor) = None"
  proof (rule c_loop_diverges[where I = "\<lambda>s. 2 ^ k dvd unat (snd s)"])
    fix s :: "u32 \<times> u32" assume dvd: "2 ^ k dvd unat (snd s)"
    then have "\<not> dividend < snd s"
      using bound[OF dvd] assms(4) by (simp add: word_less_nat_alt)
    moreover have "2 ^ k dvd unat (snd s + divisor)"
    proof -
      have "2 ^ k dvd (2 ^ 32 :: nat)" using assms(2) by (intro le_imp_power_dvd) simp
      with dvd assms(3) have "2 ^ k dvd (unat (snd s) + unat divisor) mod 2 ^ 32"
        by (simp only: dvd_mod dvd_add)
      then show ?thesis by (simp add: unat_word_ariths)
    qed
    ultimately show "\<exists>s'. uidiv_step dividend divisor s = Some (Inl s') \<and> 2 ^ k dvd unat (snd s')"
      by (auto simp: uidiv_step_def split: prod.splits)
  qed (use assms(3) in simp)
  then show ?thesis using assms(1) by (simp add: aeabi_uidiv_def)
qed

theorem aeabi_uidiv_diverges_witness: "\<forall>fuel. aeabi_uidiv fuel 0xFFFFFFFF 10 = None"
  using aeabi_uidiv_diverges[of 10 0 "0xFFFFFFFF"] by simp

end
