(* ===== verification/Bitmap.thy ===== *)
theory Bitmap
  imports VMW_Prelude
begin

text \<open>
  The contract of a bitmap, which two components rely on: the map of used memory chunks of
  \<open>kernel/memory/memory.c\<close> and the map of free sectors in the volume table of contents of
  \<open>kernel/fs/dos33fs/dos33fs.c\<close>.  A provider says which indices a map has and supplies a test,
  a set and a clear operation; what follows is the set a map represents and how runs of
  operations act on it.
\<close>

locale bitmap =
  fixes valid :: "'m \<Rightarrow> 'i \<Rightarrow> bool"
    and test :: "'m \<Rightarrow> 'i \<Rightarrow> bool"
    and mark :: "'i \<Rightarrow> 'm \<Rightarrow> 'm"
    and clear :: "'i \<Rightarrow> 'm \<Rightarrow> 'm"
  assumes valid_mark: "valid m i \<Longrightarrow> valid (mark i m) j \<longleftrightarrow> valid m j"
    and valid_clear: "valid m i \<Longrightarrow> valid (clear i m) j \<longleftrightarrow> valid m j"
    and test_mark: "valid m i \<Longrightarrow> valid m j \<Longrightarrow> test (mark i m) j \<longleftrightarrow> i = j \<or> test m j"
    and test_clear: "valid m i \<Longrightarrow> valid m j \<Longrightarrow> test (clear i m) j \<longleftrightarrow> i \<noteq> j \<and> test m j"
begin

definition members :: "'m \<Rightarrow> 'i set" where
  "members m = {i. valid m i \<and> test m i}"

lemma members_mark: "valid m i \<Longrightarrow> members (mark i m) = insert i (members m)"
  by (auto simp: members_def valid_mark test_mark)

lemma members_clear: "valid m i \<Longrightarrow> members (clear i m) = members m - {i}"
  by (auto simp: members_def valid_clear test_clear)

lemma valid_mark_list: "list_all (valid m) is \<Longrightarrow> valid (fold mark is m) j \<longleftrightarrow> valid m j"
  by (induction "is" arbitrary: m) (auto simp: valid_mark list_all_iff)

lemma valid_clear_list: "list_all (valid m) is \<Longrightarrow> valid (fold clear is m) j \<longleftrightarrow> valid m j"
  by (induction "is" arbitrary: m) (auto simp: valid_clear list_all_iff)

lemma members_mark_list:
  "list_all (valid m) is \<Longrightarrow> members (fold mark is m) = members m \<union> set is"
proof (induction "is" arbitrary: m)
  case (Cons i "is")
  then have "list_all (valid (mark i m)) is" by (simp add: list_all_iff valid_mark)
  with Cons show ?case by (auto simp: members_mark)
qed simp

lemma members_clear_list:
  "list_all (valid m) is \<Longrightarrow> members (fold clear is m) = members m - set is"
proof (induction "is" arbitrary: m)
  case (Cons i "is")
  then have "list_all (valid (clear i m)) is" by (simp add: list_all_iff valid_clear)
  with Cons show ?case by (auto simp: members_clear)
qed simp

text \<open>Releasing a run that was free before it was taken gives the old set back.\<close>

lemma members_mark_clear_list:
  assumes "list_all (valid m) is" and "set is \<inter> members m = {}"
  shows "members (fold clear is (fold mark is m)) = members m"
proof -
  have "list_all (valid (fold mark is m)) is"
    using assms(1) by (simp add: list_all_iff valid_mark_list)
  then show ?thesis
    using assms by (simp add: members_clear_list members_mark_list) blast
qed

end

text \<open>Bits of a machine word, as both providers use them.\<close>

lemma and_push_bit_1_iff: "w AND push_bit n 1 \<noteq> 0 \<longleftrightarrow> bit (w :: 'a::len word) n"
proof
  assume "w AND push_bit n 1 \<noteq> 0"
  then obtain k where "bit (w AND push_bit n 1) k" by (metis bit_eqI bit_0_eq bot_apply bot_bool_def)
  then show "bit w n" by (auto simp: bit_simps)
next
  assume b: "bit w n"
  then have "n < LENGTH('a)" by (rule bit_imp_le_length)
  with b have "bit (w AND push_bit n 1) n" by (simp add: bit_simps)
  then show "w AND push_bit n 1 \<noteq> 0" by auto
qed

lemma bit_or_push_bit:
  "n < LENGTH('a::len) \<Longrightarrow> bit ((w :: 'a word) OR push_bit n 1) k \<longleftrightarrow> k = n \<or> bit w k"
  by (auto simp: bit_simps)

lemma bit_and_not_push_bit:
  "bit ((w :: 'a::len word) AND NOT (push_bit n 1)) k \<longleftrightarrow> k \<noteq> n \<and> bit w k"
  by (auto simp: bit_simps dest: bit_imp_le_length)

text \<open>The simplifier writes \<open>push_bit n 1\<close> as a power of two.\<close>

lemmas word_bit_simps = and_push_bit_1_iff bit_or_push_bit bit_and_not_push_bit
  and_push_bit_1_iff [simplified push_bit_of_1] bit_or_push_bit [simplified push_bit_of_1]
  bit_and_not_push_bit [simplified push_bit_of_1]

end
