(* ===== verification/Memory.thy ===== *)
theory Memory
  imports Bitmap
begin

text \<open>
  The physical memory allocator, \<open>kernel/memory/memory.c\<close>: a bitmap of 4 kB chunks, one bit
  per chunk, with the first 16 MB reserved for the kernel.

  \<open>mem_state\<close> holds the static variables of the file and the contents of RAM, which allocation
  clears and release poisons.  A chunk number is a C \<open>int\<close>: a negative one, or one past the map,
  is undefined behaviour (a shift by a negative amount or an access outside the array).
\<close>

abbreviation (input) "MAX_MEMORY \<equiv> 1073741824 :: nat"
abbreviation (input) "RESERVED_KERNEL \<equiv> 16777216 :: nat"
abbreviation (input) "CHUNK_SIZE \<equiv> 4096 :: nat"
abbreviation (input) "MEMORY_KERNEL \<equiv> 0 :: nat"
abbreviation (input) "MEMORY_USER \<equiv> 1 :: nat"

record mem_state =
  memory_mutex :: bool
  memory_total :: nat
  memory_map :: "u32 list"
  max_chunk :: nat
  ram :: "nat \<Rightarrow> byte"

section \<open>The bitmap\<close>

definition chunk_ok :: "mem_state \<Rightarrow> int \<Rightarrow> bool" where
  "chunk_ok m chunk \<longleftrightarrow> 0 \<le> chunk \<and> nat chunk div 32 < length (memory_map m)"

definition memory_mark_used :: "int \<Rightarrow> mem_state \<Rightarrow> mem_state option" where
  "memory_mark_used chunk m =
     (if chunk_ok m chunk then
        let element = nat chunk div 32; b = nat chunk mod 32 in
        Some (m\<lparr>memory_map := (memory_map m)[element := (memory_map m ! element) OR push_bit b 1]\<rparr>)
      else None)"

definition memory_mark_free :: "int \<Rightarrow> mem_state \<Rightarrow> mem_state option" where
  "memory_mark_free chunk m =
     (if chunk_ok m chunk then
        let element = nat chunk div 32; b = nat chunk mod 32 in
        Some (m\<lparr>memory_map := (memory_map m)[element := (memory_map m ! element) AND NOT (push_bit b 1)]\<rparr>)
      else None)"

definition memory_test_used :: "mem_state \<Rightarrow> int \<Rightarrow> bool option" where
  "memory_test_used m chunk =
     (if chunk_ok m chunk
      then Some ((memory_map m ! (nat chunk div 32)) AND push_bit (nat chunk mod 32) 1 \<noteq> 0)
      else None)"

section \<open>Initialisation\<close>

definition memory_init :: "nat \<Rightarrow> nat \<Rightarrow> mem_state \<Rightarrow> (int \<times> mem_state) option" where
  "memory_init mem_total mem_kernel m =
     (if MAX_MEMORY < mem_total then Some (- ENOMEM, m)
      else if RESERVED_KERNEL < mem_kernel then Some (- ENOMEM, m)
      else if mem_total mod CHUNK_SIZE \<noteq> 0 then Some (- ENOMEM, m)
      else do {
        let m1 = m\<lparr>max_chunk := mem_total div CHUNK_SIZE\<rparr>;
        map' \<leftarrow> c_for (max_chunk m1 div 32) 0 (\<lambda>i b. wr b i 0) (memory_map m1);
        let m2 = m1\<lparr>memory_map := map'\<rparr>;
        if mem_kernel mod CHUNK_SIZE \<noteq> 0 then Some (- ENOMEM, m2)
        else do {
          m3 \<leftarrow> c_for (mem_kernel div CHUNK_SIZE) 0 (\<lambda>i. memory_mark_used (int i)) m2;
          Some (0, m3) } })"

section \<open>Searching\<close>

text \<open>
  The inner loop: \<open>j\<close> counts the free chunks from \<open>i\<close> on and stops at \<open>num\<close> of them; the first
  argument is the number of rounds left.
\<close>

fun count_free :: "nat \<Rightarrow> mem_state \<Rightarrow> nat \<Rightarrow> nat \<Rightarrow> nat option" where
  "count_free 0 m i j = Some j"
| "count_free (Suc r) m i j =
     do { u \<leftarrow> memory_test_used m (int (i + j));
          if u then Some j else count_free r m i (Suc j) }"

fun find_free_from :: "nat \<Rightarrow> mem_state \<Rightarrow> nat \<Rightarrow> nat \<Rightarrow> nat \<Rightarrow> int option" where
  "find_free_from 0 m num i end = Some (- ENOMEM)"
| "find_free_from (Suc r) m num i end =
     do { u \<leftarrow> memory_test_used m (int i);
          if u then find_free_from r m num (Suc i) end
          else do {
            j \<leftarrow> count_free num m i 0;
            if j = num \<and> i + j < end then Some (int i)
            else find_free_from r m num (Suc i) end } }"

definition find_free :: "mem_state \<Rightarrow> nat \<Rightarrow> nat \<Rightarrow> nat \<Rightarrow> int option" where
  "find_free m num start end = find_free_from (end - start) m num start end"

definition memory_total_free :: "mem_state \<Rightarrow> int option" where
  "memory_total_free m =
     do { n \<leftarrow> c_for (max_chunk m) 0
            (\<lambda>i n. do { u \<leftarrow> memory_test_used m (int i); Some (if u then n else n + 1) }) 0;
          Some (n * 4096) }"

section \<open>Allocation and release\<close>

definition ram_set :: "nat \<Rightarrow> byte \<Rightarrow> nat \<Rightarrow> mem_state \<Rightarrow> mem_state" where
  "ram_set p v n m = m\<lparr>ram := (\<lambda>a. if p \<le> a \<and> a < p + n then v else ram m a)\<rparr>"

definition mutex_lock :: "mem_state \<Rightarrow> mem_state option" where
  "mutex_lock m = (if memory_mutex m then None else Some (m\<lparr>memory_mutex := True\<rparr>))"

definition mutex_unlock :: "mem_state \<Rightarrow> mem_state" where
  "mutex_unlock m = m\<lparr>memory_mutex := False\<rparr>"

definition num_chunks :: "nat \<Rightarrow> nat" where
  "num_chunks sz = to_u32 (int sz - 1) div CHUNK_SIZE + 1"

text \<open>The area a request of the given type is served from.\<close>

definition alloc_area :: "nat \<Rightarrow> mem_state \<Rightarrow> (nat \<times> nat) option" where
  "alloc_area type m =
     (if type = MEMORY_KERNEL then Some (0, RESERVED_KERNEL div CHUNK_SIZE)
      else if type = MEMORY_USER then Some (RESERVED_KERNEL div CHUNK_SIZE, max_chunk m)
      else None)"

text \<open>
  \<open>first_chunk\<close> is a \<open>uint32_t\<close>, so the test \<open>first_chunk<0\<close> for a failed search is never
  true; the failure code goes on as a chunk number.
\<close>

definition memory_allocate :: "nat \<Rightarrow> nat \<Rightarrow> mem_state \<Rightarrow> (nat \<times> mem_state) option" where
  "memory_allocate sz0 type m =
     (let sz = (if sz0 = 0 then 1 else sz0); num = num_chunks sz in
      case alloc_area type m of None \<Rightarrow> Some (0, m)
      | Some (start, end) \<Rightarrow> do {
          m1 \<leftarrow> mutex_lock m;
          r \<leftarrow> find_free m1 num start end;
          let first_chunk = to_u32 r;
          if int first_chunk < 0 then Some (0, mutex_unlock m1)
          else do {
            m2 \<leftarrow> c_for num 0 (\<lambda>i. memory_mark_used (to_i32 (int (first_chunk + i)))) m1;
            let m3 = mutex_unlock m2;
            let p = to_u32 (int first_chunk * 4096);
            Some (p, ram_set p 0 (to_u32 (int num * 4096)) m3) } })"

definition memory_free :: "nat \<Rightarrow> nat \<Rightarrow> mem_state \<Rightarrow> (int \<times> mem_state) option" where
  "memory_free location sz m =
     (let num = num_chunks sz; first_chunk = c_div (to_i32 (int location)) 4096 in
      do {
        let m1 = ram_set location 86 sz m;
        m2 \<leftarrow> c_for num 0 (\<lambda>i. memory_mark_free (first_chunk + int i)) m1;
        Some (0, m2) })"

definition memory_get_total :: "mem_state \<Rightarrow> nat" where
  "memory_get_total m = memory_total m"

section \<open>The bitmap contract\<close>

definition chunk_valid :: "mem_state \<Rightarrow> nat \<Rightarrow> bool" where
  "chunk_valid m i \<longleftrightarrow> i div 32 < length (memory_map m)"

definition chunk_used :: "mem_state \<Rightarrow> nat \<Rightarrow> bool" where
  "chunk_used m i \<longleftrightarrow> bit (memory_map m ! (i div 32)) (i mod 32)"

definition set_chunk :: "nat \<Rightarrow> mem_state \<Rightarrow> mem_state" where
  "set_chunk i m = m\<lparr>memory_map := (memory_map m)[i div 32 :=
     (memory_map m ! (i div 32)) OR push_bit (i mod 32) 1]\<rparr>"

definition clear_chunk :: "nat \<Rightarrow> mem_state \<Rightarrow> mem_state" where
  "clear_chunk i m = m\<lparr>memory_map := (memory_map m)[i div 32 :=
     (memory_map m ! (i div 32)) AND NOT (push_bit (i mod 32) 1)]\<rparr>"

lemma same_chunk_iff: "i div 32 = j div 32 \<Longrightarrow> i mod 32 = j mod 32 \<longleftrightarrow> i = (j :: nat)"
  by (metis div_mult_mod_eq)

lemma chunk_used_set:
  assumes "chunk_valid m j"
  shows "chunk_used (set_chunk i m) j \<longleftrightarrow> i = j \<or> chunk_used m j"
proof (cases "i div 32 = j div 32")
  case True
  then have "i mod 32 = j mod 32 \<longleftrightarrow> i = j" by (rule same_chunk_iff)
  with True assms show ?thesis
    by (auto simp: chunk_valid_def chunk_used_def set_chunk_def word_bit_simps)
qed (auto simp: chunk_used_def set_chunk_def)

lemma chunk_used_clear:
  assumes "chunk_valid m j"
  shows "chunk_used (clear_chunk i m) j \<longleftrightarrow> i \<noteq> j \<and> chunk_used m j"
proof (cases "i div 32 = j div 32")
  case True
  then have "i mod 32 = j mod 32 \<longleftrightarrow> i = j" by (rule same_chunk_iff)
  with True assms show ?thesis
    by (auto simp: chunk_valid_def chunk_used_def clear_chunk_def word_bit_simps)
qed (auto simp: chunk_used_def clear_chunk_def)

interpretation chunks: bitmap chunk_valid chunk_used set_chunk clear_chunk
  by unfold_locales
    (simp_all add: chunk_used_set chunk_used_clear, simp_all add: chunk_valid_def set_chunk_def clear_chunk_def)

text \<open>The chunks in use.\<close>

definition used_chunks :: "mem_state \<Rightarrow> nat set" where
  "used_chunks m = {i. chunk_valid m i \<and> chunk_used m i}"

lemma used_chunks_members: "used_chunks m = chunks.members m"
  by (simp add: used_chunks_def chunks.members_def)

lemma memory_mark_used_eq:
  "memory_mark_used (int i) m = (if chunk_valid m i then Some (set_chunk i m) else None)"
  by (simp add: memory_mark_used_def chunk_ok_def chunk_valid_def set_chunk_def Let_def)

lemma memory_mark_free_eq:
  "memory_mark_free (int i) m = (if chunk_valid m i then Some (clear_chunk i m) else None)"
  by (simp add: memory_mark_free_def chunk_ok_def chunk_valid_def clear_chunk_def Let_def)

lemma memory_test_used_eq:
  "memory_test_used m (int i) = (if chunk_valid m i then Some (i \<in> used_chunks m) else None)"
  by (simp add: memory_test_used_def chunk_ok_def chunk_valid_def used_chunks_def chunk_used_def
      word_bit_simps)

lemma chunk_op_sum_eqs:
  "memory_mark_used (int c + int i) m = (if chunk_valid m (c + i) then Some (set_chunk (c + i) m) else None)"
  "memory_mark_free (int c + int i) m = (if chunk_valid m (c + i) then Some (clear_chunk (c + i) m) else None)"
  "memory_test_used m (int c + int i) = (if chunk_valid m (c + i) then Some (c + i \<in> used_chunks m) else None)"
  by (simp_all only: of_nat_add [symmetric] memory_mark_used_eq memory_mark_free_eq memory_test_used_eq)

lemmas chunk_op_eqs = memory_mark_used_eq memory_mark_free_eq memory_test_used_eq chunk_op_sum_eqs

lemma c_for_fold:
  assumes "\<And>j m. i \<le> j \<Longrightarrow> j < i + n \<Longrightarrow> P m \<Longrightarrow> f j m = Some (g (a + j) m) \<and> P (g (a + j) m)" and "P m"
  shows "c_for n i f m = Some (fold g [a + i..<a + i + n] m) \<and> P (fold g [a + i..<a + i + n] m)"
  using assms
proof (induction n arbitrary: i m)
  case (Suc n)
  have "[a + i..<a + i + Suc n] = (a + i) # [a + Suc i..<a + Suc i + n]"
    by (simp add: upt_conv_Cons)
  then show ?case using Suc.prems Suc.IH[of "Suc i" "g (a + i) m"] by simp
qed simp

text \<open>The other components of the state that a run of bitmap updates leaves alone.\<close>

definition same_frame :: "mem_state \<Rightarrow> mem_state \<Rightarrow> bool" where
  "same_frame m m' \<longleftrightarrow> length (memory_map m') = length (memory_map m) \<and> max_chunk m' = max_chunk m
     \<and> ram m' = ram m \<and> memory_mutex m' = memory_mutex m \<and> memory_total m' = memory_total m"

lemma same_frame_refl [simp]: "same_frame m m"
  by (simp add: same_frame_def)

lemma same_frame_set [simp]: "same_frame m0 (set_chunk i m) \<longleftrightarrow> same_frame m0 m"
  by (simp add: same_frame_def set_chunk_def)

lemma same_frame_clear [simp]: "same_frame m0 (clear_chunk i m) \<longleftrightarrow> same_frame m0 m"
  by (simp add: same_frame_def clear_chunk_def)

lemma chunk_valid_frame: "same_frame m m' \<Longrightarrow> chunk_valid m' i \<longleftrightarrow> chunk_valid m i"
  by (simp add: same_frame_def chunk_valid_def)

lemma list_all_chunks:
  "c + n \<le> 32 * length (memory_map m) \<Longrightarrow> list_all (chunk_valid m) [c..<c + n]"
  by (auto simp: list_all_iff chunk_valid_def)

text \<open>A run of updates inside the map.\<close>

lemma mark_run:
  assumes "c + n \<le> 32 * length (memory_map m)"
  shows "\<exists>m'. c_for n 0 (\<lambda>i. memory_mark_used (int (c + i))) m = Some m' \<and> same_frame m m' \<and>
           used_chunks m' = used_chunks m \<union> {c..<c + n}"
proof -
  have step: "memory_mark_used (int (c + j)) m1 = Some (set_chunk (c + j) m1) \<and> same_frame m (set_chunk (c + j) m1)"
    if "j < n" "same_frame m m1" for j m1
    using that assms by (simp add: memory_mark_used_eq chunk_valid_frame del: of_nat_add) (simp add: chunk_valid_def)
  have "c_for n 0 (\<lambda>i. memory_mark_used (int (c + i))) m = Some (fold set_chunk [c + 0..<c + 0 + n] m)
      \<and> same_frame m (fold set_chunk [c + 0..<c + 0 + n] m)"
    by (rule c_for_fold) (use step in auto)
  then show ?thesis
    using chunks.members_mark_list[OF list_all_chunks[OF assms]] by (simp add: used_chunks_members)
qed

lemma clear_run:
  assumes "c + n \<le> 32 * length (memory_map m)"
  shows "\<exists>m'. c_for n 0 (\<lambda>i. memory_mark_free (int (c + i))) m = Some m' \<and> same_frame m m' \<and>
           used_chunks m' = used_chunks m - {c..<c + n}"
proof -
  have step: "memory_mark_free (int (c + j)) m1 = Some (clear_chunk (c + j) m1) \<and> same_frame m (clear_chunk (c + j) m1)"
    if "j < n" "same_frame m m1" for j m1
    using that assms by (simp add: memory_mark_free_eq chunk_valid_frame del: of_nat_add) (simp add: chunk_valid_def)
  have "c_for n 0 (\<lambda>i. memory_mark_free (int (c + i))) m = Some (fold clear_chunk [c + 0..<c + 0 + n] m)
      \<and> same_frame m (fold clear_chunk [c + 0..<c + 0 + n] m)"
    by (rule c_for_fold) (use step in auto)
  then show ?thesis
    using chunks.members_clear_list[OF list_all_chunks[OF assms]] by (simp add: used_chunks_members)
qed

section \<open>The search\<close>

lemma count_free_spec:
  "count_free r m i j = Some j' \<Longrightarrow> j \<le> j' \<and> j' \<le> j + r \<and> {i + j..<i + j'} \<inter> used_chunks m = {}
     \<and> (j' < j + r \<longrightarrow> i + j' \<in> used_chunks m)"
proof (induction r arbitrary: j)
  case (Suc r)
  show ?case
  proof (cases "i + j \<in> used_chunks m")
    case True
    with Suc.prems show ?thesis
      by (auto simp: chunk_op_eqs bind_eq_Some_conv split: if_splits)
  next
    case False
    with Suc.prems have "count_free r m i (Suc j) = Some j'"
      by (auto simp: chunk_op_eqs bind_eq_Some_conv split: if_splits)
    from Suc.IH[OF this] False show ?thesis
      by (auto simp: disjoint_iff) (metis Suc_leI le_neq_implies_less)+
  qed
qed auto

lemma count_free_total:
  "i + j + r \<le> 32 * length (memory_map m) \<Longrightarrow> \<exists>j'. count_free r m i j = Some j'"
proof (induction r arbitrary: j)
  case (Suc r)
  then have "chunk_valid m (i + j)" by (auto simp: chunk_valid_def)
  then show ?case using Suc.IH[of "Suc j"] Suc.prems
    by (auto simp: chunk_op_eqs)
qed simp

text \<open>A run of \<open>num\<close> free chunks at \<open>c\<close> that the search of \<open>[start, end)\<close> accepts.\<close>

definition free_run :: "mem_state \<Rightarrow> nat \<Rightarrow> nat \<Rightarrow> nat \<Rightarrow> nat \<Rightarrow> bool" where
  "free_run m num start end c \<longleftrightarrow>
     start \<le> c \<and> c + num < end \<and> c \<notin> used_chunks m \<and> {c..<c + num} \<inter> used_chunks m = {}"

lemma find_free_from_spec:
  "find_free_from r m num i end = Some x \<Longrightarrow>
     (x = - ENOMEM \<or> (\<exists>c. x = int c \<and> free_run m num i end c))"
proof (induction r arbitrary: i)
  case (Suc r)
  have step: "find_free_from r m num (Suc i) end = Some x \<Longrightarrow> ?case"
    using Suc.IH[of "Suc i"] by (auto simp: free_run_def intro: Suc_leD)
  show ?case
  proof (cases "i \<in> used_chunks m")
    case True
    with Suc.prems step show ?thesis
      by (auto simp: chunk_op_eqs bind_eq_Some_conv split: if_splits)
  next
    case False
    with Suc.prems obtain j where j: "count_free num m i 0 = Some j"
      "(if j = num \<and> i + j < end then Some (int i) else find_free_from r m num (Suc i) end) = Some x"
      by (auto simp: chunk_op_eqs bind_eq_Some_conv split: if_splits)
    with count_free_spec[OF j(1)] step False show ?thesis
      by (auto simp: free_run_def split: if_splits)
  qed
qed simp

lemma free_run_Suc: "free_run m num (Suc i) end c \<Longrightarrow> free_run m num i end c"
  by (auto simp: free_run_def)

lemma free_run_mono: "free_run m num i end c \<Longrightarrow> i < c \<Longrightarrow> free_run m num (Suc i) end c"
  by (auto simp: free_run_def)

lemma find_free_from_first:
  assumes "free_run m num i end c" and "end \<le> 32 * length (memory_map m)" and "r = end - i"
  shows "\<exists>c'. find_free_from r m num i end = Some (int c') \<and> free_run m num i end c'
           \<and> (\<forall>d < c'. \<not> free_run m num i end d)"
  using assms
proof (induction r arbitrary: i)
  case (Suc r)
  have v: "chunk_valid m i" using Suc.prems by (auto simp: free_run_def chunk_valid_def)
  have r: "r = end - Suc i" using Suc.prems by simp
  show ?case
  proof (cases "free_run m num i end i")
    case True
    have "i + 0 + num \<le> 32 * length (memory_map m)" using True Suc.prems by (auto simp: free_run_def)
    from count_free_total[OF this] obtain j where j: "count_free num m i 0 = Some j" by blast
    have "i \<notin> used_chunks m" using True by (simp add: free_run_def)
    then have "find_free_from (Suc r) m num i end = Some (int i)"
      using count_free_spec[OF j] True v j by (auto simp: free_run_def chunk_op_eqs disjoint_iff)
    with True show ?thesis by (auto simp: free_run_def)
  next
    case False
    with Suc.prems have ic: "i < c" by (metis free_run_def le_neq_implies_less)
    have "free_run m num (Suc i) end c" using Suc.prems(1) ic by (rule free_run_mono)
    from Suc.IH[OF this Suc.prems(2) r] obtain c' where
      c': "find_free_from r m num (Suc i) end = Some (int c')" "free_run m num (Suc i) end c'"
        "\<forall>d<c'. \<not> free_run m num (Suc i) end d" by blast
    have "i + 0 + num \<le> 32 * length (memory_map m)"
      using ic Suc.prems by (auto simp: free_run_def)
    from count_free_total[OF this] obtain j where j: "count_free num m i 0 = Some j" by blast
    have nj: "i \<notin> used_chunks m \<Longrightarrow> \<not> (j = num \<and> i + j < end)"
      using count_free_spec[OF j] False by (auto simp: free_run_def)
    have "find_free_from (Suc r) m num i end = Some (int c')"
      using v j nj c'(1) by (auto simp: chunk_op_eqs)
    moreover have "\<not> free_run m num i end d" if "d < c'" for d
      using that c'(3) False free_run_mono by (metis free_run_def le_neq_implies_less)
    ultimately show ?thesis using c'(2) free_run_Suc by blast
  qed
qed (auto simp: free_run_def)

lemma find_free_from_none:
  assumes "\<And>c. \<not> free_run m num i end c" and "end + num \<le> 32 * length (memory_map m)" and "r = end - i"
  shows "find_free_from r m num i end = Some (- ENOMEM)"
  using assms
proof (induction r arbitrary: i)
  case (Suc r)
  have v: "chunk_valid m i" using Suc.prems by (auto simp: chunk_valid_def)
  have "find_free_from r m num (Suc i) end = Some (- ENOMEM)"
    by (rule Suc.IH) (use Suc.prems in \<open>auto dest: free_run_Suc\<close>)
  moreover have "i + 0 + num \<le> 32 * length (memory_map m)" using Suc.prems by simp
  from count_free_total[OF this] obtain j where j: "count_free num m i 0 = Some j" by blast
  moreover have "\<not> (j = num \<and> i + j < end)" if "i \<notin> used_chunks m"
    using count_free_spec[OF j] Suc.prems(1)[of i] that by (auto simp: free_run_def)
  ultimately show ?case using v by (auto simp: chunk_op_eqs)
qed simp

section \<open>Allocation\<close>

text \<open>The state the allocator works on: the whole map, and no more memory than it covers.\<close>

definition mem_wf :: "mem_state \<Rightarrow> bool" where
  "mem_wf m \<longleftrightarrow> length (memory_map m) = 8192 \<and> max_chunk m \<le> 262144 \<and> \<not> memory_mutex m"

text \<open>The memory cells of a block, and its chunks.\<close>

definition block_chunks :: "nat \<Rightarrow> nat \<Rightarrow> nat set" where
  "block_chunks p sz = {p div 4096..<p div 4096 + num_chunks sz}"

lemma num_chunks_eq: "0 < sz \<Longrightarrow> sz < 4294967296 \<Longrightarrow> num_chunks sz = (sz - 1) div 4096 + 1"
  by (simp add: num_chunks_def nat_diff_distrib)

lemma num_chunks_pos [simp]: "0 < num_chunks sz"
  by (simp add: num_chunks_def)

lemma num_chunks_covers: "0 < sz \<Longrightarrow> sz < 4294967296 \<Longrightarrow> sz \<le> 4096 * num_chunks sz"
  by (simp add: num_chunks_eq)

lemma alloc_area_bounds:
  "alloc_area type m = Some (start, end) \<Longrightarrow> mem_wf m \<Longrightarrow> end \<le> 262144"
  by (auto simp: alloc_area_def mem_wf_def split: if_splits)

lemma alloc_area_lock [simp]: "alloc_area type (m\<lparr>memory_mutex := b\<rparr>) = alloc_area type m"
  by (simp add: alloc_area_def)

lemma used_chunks_lock [simp]: "used_chunks (m\<lparr>memory_mutex := b\<rparr>) = used_chunks m"
  by (simp add: used_chunks_def chunk_valid_def chunk_used_def)

lemma used_chunks_ram [simp]: "used_chunks (m\<lparr>ram := f\<rparr>) = used_chunks m"
  by (simp add: used_chunks_def chunk_valid_def chunk_used_def)

lemma memory_test_used_lock: "memory_test_used (m\<lparr>memory_mutex := b\<rparr>) i = memory_test_used m i"
  by (simp add: memory_test_used_def chunk_ok_def)

lemma count_free_lock: "count_free r (m\<lparr>memory_mutex := b\<rparr>) i j = count_free r m i j"
  by (induction r arbitrary: j) (simp_all add: memory_test_used_lock cong: if_cong)

lemma find_free_lock: "find_free (m\<lparr>memory_mutex := b\<rparr>) n s e = find_free m n s e"
proof -
  have "find_free_from r (m\<lparr>memory_mutex := b\<rparr>) n i e = find_free_from r m n i e" for r i
    by (induction r arbitrary: i) (simp_all add: memory_test_used_lock count_free_lock cong: if_cong)
  then show ?thesis by (simp add: find_free_def)
qed

lemma free_run_lock [simp]: "free_run (m\<lparr>memory_mutex := b\<rparr>) n s e c = free_run m n s e c"
  by (simp add: free_run_def)

text \<open>What an allocation of \<open>sz\<close> bytes at \<open>c\<close> does.\<close>

definition allocated :: "mem_state \<Rightarrow> nat \<Rightarrow> nat \<Rightarrow> mem_state \<Rightarrow> bool" where
  "allocated m c n m' \<longleftrightarrow> mem_wf m' \<and> max_chunk m' = max_chunk m \<and> memory_total m' = memory_total m
     \<and> used_chunks m' = used_chunks m \<union> {c..<c + n}
     \<and> ram m' = (\<lambda>a. if 4096 * c \<le> a \<and> a < 4096 * (c + n) then 0 else ram m a)"

lemma allocate_at:
  assumes "mem_wf m" and "c + n \<le> 262144"
  shows "\<exists>m2. c_for n 0 (\<lambda>i. memory_mark_used (to_i32 (int (to_u32 (int c) + i)))) (m\<lparr>memory_mutex := True\<rparr>)
           = Some m2 \<and> allocated m c n (ram_set (to_u32 (int (to_u32 (int c)) * 4096)) 0 (to_u32 (int n * 4096)) (mutex_unlock m2))"
proof -
  have "c_for n 0 (\<lambda>i. memory_mark_used (to_i32 (int (to_u32 (int c) + i)))) (m\<lparr>memory_mutex := True\<rparr>)
      = c_for n 0 (\<lambda>i. memory_mark_used (int (c + i))) (m\<lparr>memory_mutex := True\<rparr>)"
    by (rule c_for_cong) (use assms(2) in simp)
  moreover obtain m2 where "c_for n 0 (\<lambda>i. memory_mark_used (int (c + i))) (m\<lparr>memory_mutex := True\<rparr>) = Some m2"
    "same_frame (m\<lparr>memory_mutex := True\<rparr>) m2" "used_chunks m2 = used_chunks m \<union> {c..<c + n}"
    using mark_run[of c n "m\<lparr>memory_mutex := True\<rparr>"] assms by (auto simp: mem_wf_def)
  moreover have "to_u32 (int (to_u32 (int c)) * 4096) = 4096 * c" "to_u32 (int n * 4096) = 4096 * n"
    using assms(2) by (simp_all add: nat_mult_distrib)
  ultimately show ?thesis using assms(1)
    by (auto simp: allocated_def mem_wf_def same_frame_def ram_set_def mutex_unlock_def fun_eq_iff)
qed

definition alloc_size :: "nat \<Rightarrow> nat" where
  "alloc_size sz = num_chunks (if sz = 0 then 1 else sz)"

lemma memory_allocate_found:
  assumes "mem_wf m" "alloc_area type m = Some (start, end)"
    and "find_free m (alloc_size sz) start end = Some (int c)" and "c + alloc_size sz < end"
  shows "\<exists>m'. memory_allocate sz type m = Some (4096 * c, m') \<and> allocated m c (alloc_size sz) m'"
proof -
  have e: "end \<le> 262144" using alloc_area_bounds assms by blast
  have "find_free (m\<lparr>memory_mutex := True\<rparr>) n s e' = find_free m n s e'" for n s e'
    by (rule find_free_lock)
  then show ?thesis
    using allocate_at[of m c "alloc_size sz"] assms e
    by (auto simp: memory_allocate_def Let_def mutex_lock_def mem_wf_def alloc_size_def nat_mult_distrib)
qed

lemma memory_allocate_failed:
  assumes "mem_wf m" "alloc_area type m = Some (start, end)"
    and "find_free m (alloc_size sz) start end = Some (- ENOMEM)"
  shows "memory_allocate sz type m = None"
proof -
  have "memory_mark_used (to_i32 (int (to_u32 (- ENOMEM) + 0))) m' = None" for m'
    by (simp add: memory_mark_used_def chunk_ok_def to_u32_def to_i32_def)
  moreover obtain k where "alloc_size sz = Suc k"
    using num_chunks_pos[of "if sz = 0 then 1 else sz"] unfolding alloc_size_def by (metis Suc_pred)
  ultimately show ?thesis
    using assms find_free_lock[where m = m and b = True]
    by (auto simp: memory_allocate_def Let_def mutex_lock_def mem_wf_def alloc_size_def)
qed

lemma memory_allocate_some:
  assumes "mem_wf m" and "alloc_area type m = Some (start, end)"
    and "free_run m (alloc_size sz) start end c0"
  shows "\<exists>c m'. memory_allocate sz type m = Some (4096 * c, m')
    \<and> free_run m (alloc_size sz) start end c \<and> (\<forall>d < c. \<not> free_run m (alloc_size sz) start end d)
    \<and> allocated m c (alloc_size sz) m'"
proof -
  have "end \<le> 32 * length (memory_map m)" using assms alloc_area_bounds by (auto simp: mem_wf_def)
  from find_free_from_first[OF assms(3) this refl] obtain c where
    c: "find_free m (alloc_size sz) start end = Some (int c)" "free_run m (alloc_size sz) start end c"
      "\<forall>d < c. \<not> free_run m (alloc_size sz) start end d" by (auto simp: find_free_def)
  then have "c + alloc_size sz < end" by (simp add: free_run_def)
  from memory_allocate_found[OF assms(1,2) c(1) this] c(2,3) show ?thesis by blast
qed

lemma memory_allocate_least:
  assumes "mem_wf m" and "alloc_area type m = Some (start, end)"
    and "free_run m (alloc_size sz) start end start"
  shows "\<exists>m'. memory_allocate sz type m = Some (4096 * start, m') \<and> allocated m start (alloc_size sz) m'"
proof -
  from memory_allocate_some[OF assms] obtain c m' where
    c: "memory_allocate sz type m = Some (4096 * c, m')" "free_run m (alloc_size sz) start end c"
      "\<forall>d < c. \<not> free_run m (alloc_size sz) start end d" "allocated m c (alloc_size sz) m'" by blast
  then have "c = start" using assms(3) by (metis free_run_def le_neq_implies_less)
  with c show ?thesis by blast
qed

text \<open>
  C8: Allocation, \<open>memory_allocate\<close>.  When the area of the request (the first 16 MB for the
  kernel, the rest for processes) has a run of enough free chunks that ends before the area's
  last chunk, the call returns the address of the first such run: it took only chunks that
  were free, exactly those are now marked used, the whole run of memory is cleared, no other byte
  of memory changed and the mutex is released.
\<close>

theorem memory_allocate_first_fit:
  assumes "mem_wf m" and "alloc_area type m = Some (start, end)"
    and "free_run m (alloc_size sz) start end c0"
  shows "\<exists>c m'. memory_allocate sz type m = Some (4096 * c, m')
    \<and> free_run m (alloc_size sz) start end c \<and> (\<forall>d < c. \<not> free_run m (alloc_size sz) start end d)
    \<and> allocated m c (alloc_size sz) m'"
  using assms by (rule memory_allocate_some)

text \<open>
  C30: When the area has no such run, \<open>memory_allocate\<close> does not report it: it never returns a
  null pointer, since the failure code \<open>-ENOMEM\<close> is kept in an unsigned variable and the test for a
  negative value is never true.  The call goes on to mark chunk \<open>-12\<close>, an access outside the
  map.
\<close>

theorem memory_allocate_exhausted:
  assumes "mem_wf m" and "alloc_area type m = Some (start, end)"
    and "\<And>c. \<not> free_run m (alloc_size sz) start end c" and "end + alloc_size sz \<le> 262144"
  shows "find_free m (alloc_size sz) start end = Some (- ENOMEM) \<and> memory_allocate sz type m = None"
proof -
  have "find_free m (alloc_size sz) start end = Some (- ENOMEM)" unfolding find_free_def
    by (rule find_free_from_none) (use assms in \<open>auto simp: mem_wf_def\<close>)
  with memory_allocate_failed[OF assms(1,2)] show ?thesis by blast
qed

text \<open>Every result of an allocation of the two kinds is of this form.\<close>

lemma memory_allocate_result:
  assumes "mem_wf m" "type < 2" and "memory_allocate sz type m = Some (p, m')"
  shows "\<exists>start end c. alloc_area type m = Some (start, end) \<and> p = 4096 * c
    \<and> free_run m (alloc_size sz) start end c \<and> allocated m c (alloc_size sz) m'"
proof -
  obtain start "end" where a: "alloc_area type m = Some (start, end)"
    using assms(2) by (cases "type = 0") (auto simp: alloc_area_def)
  have "find_free m (alloc_size sz) start end \<noteq> None"
  proof
    assume "find_free m (alloc_size sz) start end = None"
    then have "memory_allocate sz type m = None"
      using a find_free_lock[where m = m and b = True] assms(1)
      by (simp add: memory_allocate_def Let_def mutex_lock_def mem_wf_def alloc_size_def)
    with assms(3) show False by simp
  qed
  then obtain x where x: "find_free m (alloc_size sz) start end = Some x" by blast
  with memory_allocate_failed[OF assms(1) a] assms(3) have "x \<noteq> - ENOMEM" by auto
  with x find_free_from_spec obtain c where c: "x = int c" "free_run m (alloc_size sz) start end c"
    unfolding find_free_def by blast
  then have "c + alloc_size sz < end" by (simp add: free_run_def)
  with x c(1) memory_allocate_found[OF assms(1) a] assms(3) have "p = 4096 * c" "allocated m c (alloc_size sz) m'"
    by fastforce+
  with a c(2) show ?thesis by blast
qed

definition mem0 :: mem_state where
  "mem0 = \<lparr>memory_mutex = False, memory_total = 268435456, memory_map = replicate 8192 0,
     max_chunk = 65536, ram = (\<lambda>_. 7)\<rparr>"

lemma mem0_wf [simp]: "mem_wf mem0"
  by (simp add: mem_wf_def mem0_def)

lemma mem0_unused [simp]: "used_chunks mem0 = {}"
  by (auto simp: used_chunks_def chunk_valid_def chunk_used_def mem0_def)

lemma memory_allocate_first_fit_witness:
  "\<exists>c m'. memory_allocate 10000 MEMORY_USER mem0 = Some (4096 * c, m')
    \<and> free_run mem0 3 4096 65536 c \<and> (\<forall>d < c. \<not> free_run mem0 3 4096 65536 d) \<and> allocated mem0 c 3 m'"
  using memory_allocate_first_fit[of mem0 MEMORY_USER 4096 65536 10000 5000]
  by (simp add: alloc_area_def alloc_size_def num_chunks_def free_run_def) (simp add: mem0_def)

definition mem_full :: mem_state where
  "mem_full = mem0\<lparr>memory_map := replicate 8192 (- 1)\<rparr>"

lemma memory_allocate_exhausted_witness:
  "memory_allocate 1 MEMORY_USER mem_full = None"
proof -
  have "c \<in> used_chunks mem_full" if "c < 262144" for c
    using that by (simp add: used_chunks_def chunk_valid_def chunk_used_def mem_full_def mem0_def)
  then have "\<not> free_run mem_full 1 4096 65536 c" for c by (auto simp: free_run_def)
  then show ?thesis
    using memory_allocate_exhausted[of mem_full MEMORY_USER 4096 65536 1]
    by (simp add: alloc_area_def alloc_size_def num_chunks_def mem_wf_def)
       (simp add: mem_full_def mem0_def)
qed

section \<open>Release\<close>

lemma memory_free_block:
  assumes "mem_wf m" and "c + num_chunks sz \<le> 262144"
  shows "\<exists>m'. memory_free (4096 * c) sz m = Some (0, m') \<and> mem_wf m' \<and> max_chunk m' = max_chunk m
     \<and> memory_total m' = memory_total m
     \<and> used_chunks m' = used_chunks m - block_chunks (4096 * c) sz
     \<and> (\<forall>a. 4096 * c \<le> a \<and> a < 4096 * c + sz \<longrightarrow> ram m' a = 86)"
proof -
  have c: "c < 262144" using assms(2) num_chunks_pos[of sz] by linarith
  then have "c_div (to_i32 (int (4096 * c))) 4096 = int c" by simp
  moreover obtain m2 where "c_for (num_chunks sz) 0 (\<lambda>i. memory_mark_free (int (c + i))) (ram_set (4096 * c) 86 sz m) = Some m2"
    "same_frame (ram_set (4096 * c) 86 sz m) m2" "used_chunks m2 = used_chunks m - {c..<c + num_chunks sz}"
    using clear_run[of c "num_chunks sz" "ram_set (4096 * c) 86 sz m"] assms
    by (auto simp: mem_wf_def ram_set_def)
  ultimately show ?thesis using assms(1)
    by (auto simp: memory_free_def Let_def block_chunks_def mem_wf_def same_frame_def ram_set_def)
qed

text \<open>
  Releasing a block right after it was allocated, with the size it was asked for, succeeds and
  gives back exactly the set of used chunks of before the allocation.
\<close>

theorem memory_free_allocate:
  assumes "mem_wf m" and "type < 2" and "0 < sz" and "memory_allocate sz type m = Some (p, m1)"
  shows "\<exists>m2. memory_free p sz m1 = Some (0, m2) \<and> mem_wf m2 \<and> used_chunks m2 = used_chunks m"
proof -
  from memory_allocate_result[OF assms(1,2,4)] obtain start "end" c where
    c: "alloc_area type m = Some (start, end)" "p = 4096 * c"
      "free_run m (alloc_size sz) start end c" "allocated m c (alloc_size sz) m1" by blast
  have n: "alloc_size sz = num_chunks sz" using assms(3) by (simp add: alloc_size_def)
  have "c + num_chunks sz \<le> 262144" using alloc_area_bounds[OF c(1) assms(1)] c(3) n by (simp add: free_run_def)
  from memory_free_block[OF _ this, of m1] c(2,3,4) n show ?thesis
    by (auto simp: allocated_def block_chunks_def free_run_def)
qed

lemma memory_free_allocate_witness:
  "\<exists>p m1 m2. memory_allocate 10000 MEMORY_USER mem0 = Some (p, m1) \<and>
     memory_free p 10000 m1 = Some (0, m2) \<and> used_chunks m2 = {}"
proof -
  have "free_run mem0 3 4096 65536 5000" by (simp add: free_run_def)
  then obtain c m' where "find_free mem0 3 4096 65536 = Some (int c)" "c + 3 < 65536"
    using find_free_from_first[of mem0 3 4096 65536 5000 "65536 - 4096"]
    by (auto simp: find_free_def free_run_def mem0_def)
  then obtain p m1 where a: "memory_allocate 10000 MEMORY_USER mem0 = Some (p, m1)"
    using memory_allocate_found[of mem0 MEMORY_USER 4096 65536 10000 c]
    by (auto simp: alloc_area_def alloc_size_def num_chunks_def) (auto simp: mem0_def)
  from memory_free_allocate[OF _ _ _ this] a show ?thesis by auto
qed

text \<open>Releasing zero bytes runs through \<open>2\<^sup>2\<^sup>0\<close> chunks and leaves the map.\<close>

lemma num_chunks_0: "num_chunks 0 = 1048576"
  by (simp add: num_chunks_def to_u32_def)

lemma c_for_None:
  assumes "i \<le> k" "k < i + n" and "\<And>s. I k s \<Longrightarrow> f k s = None" and "I i s"
    and "\<And>j s s'. I j s \<Longrightarrow> f j s = Some s' \<Longrightarrow> I (Suc j) s'"
  shows "c_for n i f s = None"
  using assms
proof (induction n arbitrary: i s)
  case (Suc n)
  show ?case
  proof (cases "i = k \<or> f i s = None")
    case False
    then obtain s' where s': "f i s = Some s'" by blast
    have "c_for n (Suc i) f s' = None"
      by (rule Suc.IH) (use Suc.prems False s' in auto)
    with s' show ?thesis by simp
  qed (use Suc.prems in auto)
qed simp

text \<open>
  \<open>memory_free\<close> with a size of zero, which \<open>memory_allocate\<close> accepts and rounds up to one
  byte, has no defined result: \<open>size-1\<close> wraps around, and the loop clears bits until it has
  left the map.
\<close>

theorem memory_free_zero:
  assumes "length (memory_map m) = 8192" and "p < 1073741824"
  shows "memory_free p 0 m = None"
proof -
  let ?I = "\<lambda>i s. length (memory_map s) = (8192 :: nat)"
  define c where "c = c_div (to_i32 (int p)) 4096"
  have c: "0 \<le> c" using assms(2) by (simp add: c_def)
  have "c_for (num_chunks 0) 0 (\<lambda>i. memory_mark_free (c + int i)) (ram_set p 86 0 m) = None"
    by (rule c_for_None[where k = 262144 and I = ?I])
      (use c assms(1) in \<open>auto simp: num_chunks_0 memory_mark_free_def chunk_ok_def ram_set_def Let_def split: if_splits\<close>)
  then show ?thesis by (simp add: memory_free_def Let_def c_def)
qed

lemma memory_free_zero_witness: "memory_free 16777216 0 mem0 = None"
  using memory_free_zero[of mem0 16777216] by (simp add: mem0_def)

section \<open>The free count and initialisation\<close>

lemma memory_total_free_loop:
  assumes "i + n \<le> 32 * length (memory_map m)"
  shows "c_for n i (\<lambda>i n. do { u \<leftarrow> memory_test_used m (int i); Some (if u then n else n + 1) }) (k :: int)
    = Some (k + int (card ({i..<i + n} - used_chunks m)))"
  using assms
proof (induction n arbitrary: i k)
  case (Suc n)
  have v: "chunk_valid m i" using Suc.prems by (auto simp: chunk_valid_def)
  have "{i..<i + Suc n} = insert i {Suc i..<Suc i + n}" by auto
  then have "card ({i..<i + Suc n} - used_chunks m)
      = (if i \<in> used_chunks m then 0 else 1) + card ({Suc i..<Suc i + n} - used_chunks m)"
    by (simp add: insert_Diff_if)
  then show ?case using v Suc.IH[of "Suc i"] Suc.prems by (simp add: memory_test_used_eq)
qed simp

text \<open>
  \<open>memory_total_free\<close> returns the number of unused chunks of physical memory, in bytes.
\<close>

theorem memory_total_free_correct:
  assumes "mem_wf m"
  shows "memory_total_free m = Some (4096 * int (card ({..<max_chunk m} - used_chunks m)))"
  using memory_total_free_loop[of 0 "max_chunk m" m 0] assms
  by (simp add: memory_total_free_def mem_wf_def lessThan_atLeast0)

lemma memory_total_free_correct_witness: "memory_total_free mem0 = Some 268435456"
  using memory_total_free_correct[of mem0] by (simp) (simp add: mem0_def)

lemma clear_map:
  "n + i \<le> length b \<Longrightarrow> c_for n i (\<lambda>i b. wr b i 0) b = Some (take i b @ replicate n 0 @ drop (i + n) (b :: u32 list))"
proof (induction n arbitrary: i b)
  case (Suc n)
  then have "i < length b" by simp
  with Suc show ?case
    by (simp add: take_Suc_conv_app_nth take_update_swap replicate_append_same)
      (simp add: upd_conv_take_nth_drop)
qed simp

lemma memory_init_result:
  assumes "length (memory_map m) = 8192" and "\<not> memory_mutex m"
    and "mem_total \<le> MAX_MEMORY" and "mem_total mod 131072 = 0"
    and "mem_kernel \<le> RESERVED_KERNEL" and "mem_kernel mod 4096 = 0" and "mem_kernel \<le> mem_total"
  shows "\<exists>m'. memory_init mem_total mem_kernel m = Some (0, m') \<and> mem_wf m'
    \<and> max_chunk m' = mem_total div 4096
    \<and> used_chunks m' \<inter> {..<max_chunk m'} = {..<mem_kernel div 4096}"
proof -
  obtain k where k: "mem_total = 131072 * k" using assms(4) by (metis dvd_def mod_0_imp_dvd)
  define mz where "mz = m\<lparr>max_chunk := 32 * k, memory_map := replicate k 0 @ drop k (memory_map m)\<rparr>"
  have l: "length (memory_map mz) = 8192" using assms(1,3) k by (simp add: mz_def)
  have kb: "mem_kernel div 4096 \<le> 4096" using assms(5) by simp
  from mark_run[of 0 "mem_kernel div 4096" mz] kb l obtain m' where
    m': "c_for (mem_kernel div 4096) 0 (\<lambda>i. memory_mark_used (int i)) mz = Some m'" "same_frame mz m'"
      "used_chunks m' = used_chunks mz \<union> {..<mem_kernel div 4096}"
    by (auto simp: lessThan_atLeast0)
  have "used_chunks mz \<inter> {..<32 * k} = {}"
    by (auto simp: used_chunks_def chunk_used_def mz_def nth_append)
  moreover have "mem_kernel div 4096 \<le> 32 * k" using assms(7) k by linarith
  moreover have "memory_init mem_total mem_kernel m = Some (0, m')"
    using m'(1) assms(1,3,5,6) k clear_map[of k 0 "memory_map m"]
    by (simp add: memory_init_def Let_def mz_def)
  ultimately show ?thesis using m' l assms(2,3) k
    by (auto simp: mem_wf_def same_frame_def mz_def)
qed

text \<open>
  \<open>memory_init\<close> on memory of at most 1 GB, a multiple of 128 kB, with a kernel of whole chunks
  in the first 16 MB: the chunks of the kernel are in use, every other chunk the memory has is free.
\<close>

theorem memory_init_correct:
  assumes "length (memory_map m) = 8192" and "\<not> memory_mutex m"
    and "mem_total \<le> MAX_MEMORY" and "mem_total mod 131072 = 0"
    and "mem_kernel \<le> RESERVED_KERNEL" and "mem_kernel mod 4096 = 0" and "mem_kernel \<le> mem_total"
  shows "\<exists>m'. memory_init mem_total mem_kernel m = Some (0, m') \<and> mem_wf m'
    \<and> max_chunk m' = mem_total div 4096
    \<and> used_chunks m' \<inter> {..<max_chunk m'} = {..<mem_kernel div 4096}"
  using assms by (rule memory_init_result)

lemma memory_init_correct_witness:
  "\<exists>m'. memory_init 268435456 1048576 mem_full = Some (0, m') \<and> mem_wf m'
    \<and> used_chunks m' \<inter> {..<65536} = {..<256}"
  using memory_init_correct[of mem_full 268435456 1048576] by (auto simp: mem_full_def mem0_def)

section \<open>Histories of the allocator\<close>

text \<open>
  The states a sequence of allocations, of any size and any type, and releases reaches from \<open>memory_init\<close>, with the blocks
  \<open>(p, sz)\<close> that are live: the address, and the size that was asked for.  A request of an unknown type gives no block.  A block is
  released with the size it was asked for.
\<close>

inductive heap_reach :: "mem_state \<Rightarrow> (nat \<times> nat) set \<Rightarrow> bool" where
  init: "length (memory_map m0) = 8192 \<Longrightarrow> \<not> memory_mutex m0 \<Longrightarrow>
    memory_init mem_total mem_kernel m0 = Some (0, m) \<Longrightarrow> heap_reach m {}"
| alloc: "heap_reach m L \<Longrightarrow> type < 2 \<Longrightarrow> sz < 4294967296 \<Longrightarrow>
    memory_allocate sz type m = Some (p, m') \<Longrightarrow> heap_reach m' (insert (p, sz) L)"
| refused: "heap_reach m L \<Longrightarrow> 2 \<le> type \<Longrightarrow> memory_allocate sz type m = Some (p, m') \<Longrightarrow> heap_reach m' L"
| free: "heap_reach m L \<Longrightarrow> (p, sz) \<in> L \<Longrightarrow> memory_free p sz m = Some (r, m') \<Longrightarrow>
    heap_reach m' (L - {(p, sz)})"

definition chunks_of :: "nat \<times> nat \<Rightarrow> nat set" where
  "chunks_of = (\<lambda>(p, sz). {p div 4096..<p div 4096 + alloc_size sz})"

definition block_ok :: "mem_state \<Rightarrow> nat \<times> nat \<Rightarrow> bool" where
  "block_ok m = (\<lambda>(p, sz). 4096 dvd p \<and> sz < 4294967296
     \<and> p div 4096 + alloc_size sz \<le> 262144 \<and> chunks_of (p, sz) \<subseteq> used_chunks m)"

definition heap_inv :: "mem_state \<Rightarrow> (nat \<times> nat) set \<Rightarrow> bool" where
  "heap_inv m L \<longleftrightarrow> mem_wf m \<and> (\<forall>b \<in> L. block_ok m b)
     \<and> pairwise (\<lambda>b c. disjnt (chunks_of b) (chunks_of c)) L"

lemma chunks_of_pos: "0 < sz \<Longrightarrow> chunks_of (p, sz) = block_chunks p sz"
  by (simp add: chunks_of_def block_chunks_def alloc_size_def)

lemma alloc_size_pos [simp]: "0 < alloc_size sz"
  by (simp add: alloc_size_def)

lemma alloc_size_covers: "sz < 4294967296 \<Longrightarrow> max 1 sz \<le> 4096 * alloc_size sz"
  using num_chunks_covers[of sz] alloc_size_pos[of sz] by (cases "sz = 0") (auto simp: alloc_size_def max_def Suc_le_eq)

lemma block_ok_more: "block_ok m b \<Longrightarrow> used_chunks m \<subseteq> used_chunks m' \<Longrightarrow> block_ok m' b"
  by (auto simp: block_ok_def)

lemma block_ok_less:
  "block_ok m b \<Longrightarrow> disjnt (chunks_of b) A \<Longrightarrow> used_chunks m' = used_chunks m - A \<Longrightarrow> block_ok m' b"
  by (auto simp: block_ok_def disjnt_def)

lemma block_ok_used: "block_ok m b \<Longrightarrow> chunks_of b \<subseteq> used_chunks m"
  by (auto simp: block_ok_def)

text \<open>A live block of size zero cannot be released; every other one can.\<close>

lemma block_ok_free:
  assumes "mem_wf m" "block_ok m (p, sz)"
  shows "sz = 0 \<Longrightarrow> memory_free p sz m = None"
    "0 < sz \<Longrightarrow> \<exists>m'. memory_free p sz m = Some (0, m') \<and> mem_wf m' \<and> used_chunks m' = used_chunks m - chunks_of (p, sz)"
proof -
  have p: "4096 * (p div 4096) = p" "p div 4096 + alloc_size sz \<le> 262144" using assms(2) by (auto simp: block_ok_def)
  then have "p < 1073741824" using alloc_size_pos[of sz] by linarith
  then show "sz = 0 \<Longrightarrow> memory_free p sz m = None" using memory_free_zero assms(1) by (simp add: mem_wf_def)
  show "\<exists>m'. memory_free p sz m = Some (0, m') \<and> mem_wf m' \<and> used_chunks m' = used_chunks m - chunks_of (p, sz)" if "0 < sz"
    using memory_free_block[OF assms(1), of "p div 4096" sz] p that by (auto simp: chunks_of_pos alloc_size_def)
qed

lemma memory_init_wf:
  assumes "length (memory_map m0) = 8192" "\<not> memory_mutex m0" "memory_init mt mk m0 = Some (0, m)"
  shows "mem_wf m"
proof -
  define I where "I = (\<lambda>(i :: nat) (s :: mem_state). length (memory_map s) = 8192 \<and> \<not> memory_mutex s \<and> max_chunk s = mt div 4096)"
  from assms(3) obtain b m2 where b: "mt \<le> MAX_MEMORY" "mk \<le> RESERVED_KERNEL"
    "c_for (mt div 4096 div 32) 0 (\<lambda>i b. wr b i 0) (memory_map m0) = Some b"
    "c_for (mk div CHUNK_SIZE) 0 (\<lambda>i. memory_mark_used (int i)) (m0\<lparr>max_chunk := mt div 4096, memory_map := b\<rparr>) = Some m"
    by (auto simp: memory_init_def Let_def bind_eq_Some_conv split: if_splits)
  have "length b = 8192"
    using b(3) clear_map[of "mt div 4096 div 32" 0 "memory_map m0"] assms(1) b(1) by auto
  then have "I 0 (m0\<lparr>max_chunk := mt div 4096, memory_map := b\<rparr>)" using assms(2) by (simp add: I_def)
  moreover have "\<exists>s'. memory_mark_used (int j) s = Some s' \<and> I (Suc j) s'"
    if "j < mk div CHUNK_SIZE" "I j s" for j s
  proof -
    have "j div 32 < 8192" using that(1) b(2) by simp
    then show ?thesis using that(2) by (simp add: I_def memory_mark_used_def chunk_ok_def Let_def)
  qed
  ultimately have "I (mk div CHUNK_SIZE) m"
    using c_for_inv[where I = I and i = 0 and n = "mk div CHUNK_SIZE"
        and f = "\<lambda>i. memory_mark_used (int i)" and s = "m0\<lparr>max_chunk := mt div 4096, memory_map := b\<rparr>"] b(4)
    by auto
  then show ?thesis using b(1) by (simp add: I_def mem_wf_def)
qed

lemma heap_reach_inv: "heap_reach m L \<Longrightarrow> heap_inv m L"
proof (induction rule: heap_reach.induct)
  case (init m0 mt mk m)
  then show ?case using memory_init_wf by (simp add: heap_inv_def)
next
  case (alloc m L type sz p m')
  then have wf: "mem_wf m" by (simp add: heap_inv_def)
  from memory_allocate_result[OF wf alloc.hyps(2,4)] obtain start "end" c where
    c: "alloc_area type m = Some (start, end)" "p = 4096 * c"
      "free_run m (alloc_size sz) start end c" "allocated m c (alloc_size sz) m'" by blast
  have bc: "chunks_of (p, sz) = {c..<c + alloc_size sz}" using c(2) by (simp add: chunks_of_def)
  have fresh: "chunks_of (p, sz) \<inter> used_chunks m = {}" using c(3) bc by (simp add: free_run_def)
  have "c + alloc_size sz \<le> 262144"
    using alloc_area_bounds[OF c(1) wf] c(3) by (simp add: free_run_def)
  then have ok: "block_ok m' (p, sz)"
    using alloc.hyps(3) c(2,4) bc by (simp add: block_ok_def allocated_def)
  have "disjnt (chunks_of (p, sz)) (chunks_of b)" if "b \<in> L" for b
    using that alloc.IH fresh block_ok_used[of m b] by (auto simp: heap_inv_def disjnt_def)
  moreover have "block_ok m' b" if "b \<in> L" for b
    using that alloc.IH block_ok_more[of m b m'] c(4) by (auto simp: heap_inv_def allocated_def)
  ultimately show ?case
    using alloc.IH ok c(4) by (auto simp: heap_inv_def allocated_def pairwise_insert disjnt_sym)
next
  case (refused m L type sz p m')
  then have "m' = m" by (auto simp: memory_allocate_def alloc_area_def Let_def)
  then show ?case using refused.IH by simp
next
  case (free m L p sz r m')
  then have wf: "mem_wf m" and ok: "block_ok m (p, sz)" by (auto simp: heap_inv_def)
  then have m': "mem_wf m'" "used_chunks m' = used_chunks m - chunks_of (p, sz)"
    using block_ok_free[OF wf ok] free.hyps(3) by (cases "sz = 0"; auto)+
  have "block_ok m' b" if "b \<in> L - {(p, sz)}" for b
  proof (rule block_ok_less[OF _ _ m'(2)])
    show "block_ok m b" using that free.IH by (simp add: heap_inv_def)
    show "disjnt (chunks_of b) (chunks_of (p, sz))"
      using that free.IH free.hyps(2) unfolding heap_inv_def pairwise_def by blast
  qed
  then show ?case using free.IH m'(1) pairwise_subset unfolding heap_inv_def by blast
qed

text \<open>
  C9: However allocations and releases follow one another after initialisation, two live blocks, to which a request of size zero
  belongs as one byte, never share a byte.  Releasing a live block with the size it was asked for has a defined result, unless that size was
  zero: then the release, which clears bits until it has left the bitmap, has none.
\<close>

theorem live_blocks_disjoint:
  assumes "heap_reach m L" and "(p, sz) \<in> L"
  shows "(\<forall>(q, tz) \<in> L - {(p, sz)}. p + max 1 sz \<le> q \<or> q + max 1 tz \<le> p)
    \<and> (if sz = 0 then memory_free p sz m = None else \<exists>m'. memory_free p sz m = Some (0, m'))"
proof -
  have inv: "heap_inv m L" using assms(1) by (rule heap_reach_inv)
  then have wf: "mem_wf m" and ok: "\<And>b. b \<in> L \<Longrightarrow> block_ok m b" by (auto simp: heap_inv_def)
  have "p + max 1 sz \<le> q \<or> q + max 1 tz \<le> p" if q: "(q, tz) \<in> L" "(q, tz) \<noteq> (p, sz)" for q tz
  proof -
    have pq: "4096 * (p div 4096) = p" "sz < 4294967296" "4096 * (q div 4096) = q" "tz < 4294967296"
      using ok[OF assms(2)] ok[OF q(1)] by (auto simp: block_ok_def)
    have "pairwise (\<lambda>b c. disjnt (chunks_of b) (chunks_of c)) L" using inv by (simp add: heap_inv_def)
    from pairwiseD[OF this assms(2) q(1) q(2)[symmetric]] have disj: "disjnt (chunks_of (p, sz)) (chunks_of (q, tz))" .
    have "p div 4096 + alloc_size sz \<le> q div 4096 \<or> q div 4096 + alloc_size tz \<le> p div 4096"
    proof (rule ccontr)
      assume "\<not> ?thesis"
      then have "max (p div 4096) (q div 4096) \<in> chunks_of (p, sz) \<inter> chunks_of (q, tz)"
        by (auto simp: chunks_of_def max_def)
      with disj show False by (auto simp: disjnt_def)
    qed
    then show ?thesis
      using alloc_size_covers[OF pq(2)] alloc_size_covers[OF pq(4)] pq(1,3) by linarith
  qed
  then have "\<forall>(q, tz) \<in> L - {(p, sz)}. p + max 1 sz \<le> q \<or> q + max 1 tz \<le> p" by blast
  then show ?thesis using block_ok_free[OF wf ok[OF assms(2)]] by (cases "sz = 0") auto
qed

lemma live_blocks_disjoint_witness:
  "\<exists>m m1 m2 p q. memory_init 268435456 1048576 mem_full = Some (0, m) \<and>
     memory_allocate 10000 MEMORY_USER m = Some (p, m1) \<and> memory_allocate 4096 MEMORY_USER m1 = Some (q, m2) \<and>
     (p + 10000 \<le> q \<or> q + 4096 \<le> p) \<and> (\<exists>m3. memory_free p 10000 m2 = Some (0, m3))"
proof -
  obtain m where m: "memory_init 268435456 1048576 mem_full = Some (0, m)" "mem_wf m"
    "max_chunk m = 65536" "used_chunks m \<inter> {..<65536} = {..<256}"
    using memory_init_result[of mem_full 268435456 1048576] by (auto simp: mem_full_def mem0_def)
  have u: "x \<in> used_chunks m \<longleftrightarrow> x < 256" if "x < 65536" for x
    using m(4) that by (metis Int_iff lessThan_iff)
  have "free_run m 3 4096 65536 4096" using u by (auto simp: free_run_def)
  then obtain m1 where m1: "memory_allocate 10000 MEMORY_USER m = Some (16777216, m1)" "allocated m 4096 3 m1"
    using memory_allocate_least[of m MEMORY_USER 4096 65536 10000] m(2,3)
    by (auto simp: alloc_area_def alloc_size_def num_chunks_def)
  have "free_run m1 1 4096 65536 5000" using u m1(2) by (auto simp: free_run_def allocated_def)
  then obtain q m2 where m2: "memory_allocate 4096 MEMORY_USER m1 = Some (q, m2)"
    using memory_allocate_some[of m1 MEMORY_USER 4096 65536 4096 5000] m(3) m1(2)
    by (auto simp: alloc_area_def alloc_size_def num_chunks_def allocated_def)
  have "heap_reach m {}" by (rule heap_reach.init[OF _ _ m(1)]) (simp_all add: mem_full_def mem0_def)
  from heap_reach.alloc[OF heap_reach.alloc[OF this _ _ m1(1)] _ _ m2]
  have "heap_reach m2 {(q, 4096), (16777216, 10000)}" by simp
  note live = live_blocks_disjoint[OF this, of 16777216 10000, simplified]
  have "(q, 4096 :: nat) \<in> {(q, 4096), (16777216, 10000)} - {(16777216, 10000)}" by simp
  from bspec[OF conjunct1[OF live] this] conjunct2[OF live]
  have "(16777216 + 10000 \<le> q \<or> q + 4096 \<le> 16777216) \<and> (\<exists>m3. memory_free 16777216 10000 m2 = Some (0, m3))"
    by simp
  then show ?thesis using m(1) m1(1) m2
    by (rule_tac x = m in exI, rule_tac x = m1 in exI, rule_tac x = m2 in exI,
        rule_tac x = 16777216 in exI, rule_tac x = q in exI) simp
qed

end
