(* ===== verification/Printk.thy ===== *)
theory Printk
  imports Cstring
begin

text \<open>
  Formatted output into a buffer, \<open>kernel/lib/printk.c\<close>.  A format string is the list of its
  characters, the terminating NUL implied.  The arguments are a list of typed values; taking one
  that is missing or of another type is undefined.  \<open>mx\<close> is \<open>max_print_size\<close>, the signed copy of
  the size; \<open>p\<close> is \<open>buffer_pointer\<close>.
\<close>

datatype va = VLong u32 | VLongLong u64 | VStr bytes

fun va_long :: "va list \<Rightarrow> (u32 \<times> va list) option" where
  "va_long (VLong x # ap) = Some (x, ap)"
| "va_long _ = None"

fun va_longlong :: "va list \<Rightarrow> (u64 \<times> va list) option" where
  "va_longlong (VLongLong x # ap) = Some (x, ap)"
| "va_longlong _ = None"

fun va_str :: "va list \<Rightarrow> (bytes \<times> va list) option" where
  "va_str (VStr s # ap) = Some (s, ap)"
| "va_str _ = None"

section \<open>Digits\<close>

definition digit :: "nat \<Rightarrow> byte" where
  "digit d = (if d < 10 then of_nat (d + 48) else of_nat (d - 10 + 97))"

text \<open>
  The \<open>do ... while(x!=0)\<close> loops fill \<open>int_buffer\<close> from its end; the digits are read back from
  \<open>int_pointer+1\<close> on.  Ten places hold any 32-bit number, eighteen any 64-bit one in hex.
\<close>

function digits :: "nat \<Rightarrow> nat \<Rightarrow> bytes" where
  "digits base x =
     (if base < 2 \<or> x div base = 0 then [digit (x mod base)]
      else digits base (x div base) @ [digit (x mod base)])"
  by pat_completeness auto
termination by (relation "measure snd") (auto intro!: div_less_dividend gr0I)

declare digits.simps [simp del]

section \<open>Output\<close>

text \<open>One inner loop: characters are stored until the run ends or the size is reached.\<close>

fun put_run :: "int \<Rightarrow> bytes \<Rightarrow> bytes \<times> nat \<Rightarrow> (bytes \<times> nat) option" where
  "put_run mx [] (b, p) = Some (b, p)"
| "put_run mx (c # cs) (b, p) =
     do { b' \<leftarrow> wr b p c;
          if int (Suc p) = mx then Some (b', Suc p) else put_run mx cs (b', Suc p) }"

text \<open>A single character followed by \<open>if (buffer_pointer==max_print_size) break;\<close>: \<open>True\<close> breaks.\<close>

definition put_char :: "int \<Rightarrow> byte \<Rightarrow> bytes \<times> nat \<Rightarrow> (bool \<times> (bytes \<times> nat)) option" where
  "put_char mx c = (\<lambda>(b, p). do { b' \<leftarrow> wr b p c; Some (int (Suc p) = mx, (b', Suc p)) })"

definition put_pad :: "int \<Rightarrow> byte \<Rightarrow> nat \<Rightarrow> nat \<Rightarrow> bytes \<times> nat \<Rightarrow> (bytes \<times> nat) option" where
  "put_pad mx pad_value pad_len printed out =
     (if printed < pad_len then put_run mx (replicate (pad_len - printed) pad_value) out else Some out)"

section \<open>Conversions\<close>

definition is_digit :: "byte \<Rightarrow> bool" where
  "is_digit c \<longleftrightarrow> 48 \<le> c \<and> c \<le> 57"

text \<open>\<open>pad_len\<close> is a \<open>char\<close>.\<close>

fun read_pad :: "bytes \<Rightarrow> byte \<Rightarrow> byte \<times> bytes" where
  "read_pad [] n = (n, [])"
| "read_pad (c # cs) n = (if is_digit c then read_pad cs (n * 10 + (c - 48)) else (n, c # cs))"

definition parse_pad :: "bytes \<Rightarrow> byte \<times> nat \<times> bytes" where
  "parse_pad s =
     (let s1 = (if s \<noteq> [] \<and> hd s = 46 then tl s else s) in
      case s1 of [] \<Rightarrow> (32, 0, [])
      | c # cs \<Rightarrow>
          if is_digit c then
            let (n, rest) = read_pad cs (c - 48) in (if c = 48 then 48 else 32, unat n, rest)
          else (32, 0, s1))"

type_synonym vsn_state = "bytes \<times> va list \<times> (bytes \<times> nat)"

definition conv_d :: "int \<Rightarrow> byte \<Rightarrow> nat \<Rightarrow> bytes \<Rightarrow> va list \<Rightarrow> bytes \<times> nat \<Rightarrow>
    (vsn_state + (bytes \<times> nat)) option" where
  "conv_d mx pv pl rest ap out = do {
     (x, ap') \<leftarrow> va_long ap;
     let neg = bit x 31;
     (stop, out1) \<leftarrow> (if neg then put_char mx 45 out else Some (False, out));
     if stop then Some (Inr out1)
     else do {
       let ds = digits 10 (unat (if neg then NOT x + 1 else x));
       out2 \<leftarrow> put_pad mx pv pl (length ds + (if neg then 1 else 0)) out1;
       out3 \<leftarrow> put_run mx ds out2;
       Some (Inl (rest, ap', out3)) } }"

text \<open>\<open>%llx\<close>: two characters are skipped unseen after the \<open>l\<close>.\<close>

definition conv_l :: "int \<Rightarrow> bytes \<Rightarrow> va list \<Rightarrow> bytes \<times> nat \<Rightarrow>
    (vsn_state + (bytes \<times> nat)) option" where
  "conv_l mx rest ap out =
     (if length rest < 2 then None
      else do {
        (x, ap') \<leftarrow> va_longlong ap;
        out1 \<leftarrow> put_run mx (digits 16 (unat x)) out;
        Some (Inl (drop 2 rest, ap', out1)) })"

definition conv_x :: "int \<Rightarrow> byte \<Rightarrow> nat \<Rightarrow> bytes \<Rightarrow> va list \<Rightarrow> bytes \<times> nat \<Rightarrow>
    (vsn_state + (bytes \<times> nat)) option" where
  "conv_x mx pv pl rest ap out = do {
     (x, ap') \<leftarrow> va_long ap;
     let ds = digits 16 (unat x);
     out1 \<leftarrow> put_pad mx pv pl (length ds) out;
     out2 \<leftarrow> put_run mx ds out1;
     Some (Inl (rest, ap', out2)) }"

definition conv_c :: "int \<Rightarrow> bytes \<Rightarrow> va list \<Rightarrow> bytes \<times> nat \<Rightarrow>
    (vsn_state + (bytes \<times> nat)) option" where
  "conv_c mx rest ap out = do {
     (x, ap') \<leftarrow> va_long ap;
     (stop, out1) \<leftarrow> put_char mx (ucast x) out;
     Some (if stop then Inr out1 else Inl (rest, ap', out1)) }"

definition conv_percent :: "int \<Rightarrow> bytes \<Rightarrow> va list \<Rightarrow> bytes \<times> nat \<Rightarrow>
    (vsn_state + (bytes \<times> nat)) option" where
  "conv_percent mx rest ap out = do {
     (stop, out1) \<leftarrow> put_char mx 37 out;
     Some (if stop then Inr out1 else Inl (rest, ap, out1)) }"

definition conv_s :: "int \<Rightarrow> bytes \<Rightarrow> va list \<Rightarrow> bytes \<times> nat \<Rightarrow>
    (vsn_state + (bytes \<times> nat)) option" where
  "conv_s mx rest ap out = do {
     (s, ap') \<leftarrow> va_str ap;
     out1 \<leftarrow> put_run mx (cstr s) out;
     Some (Inl (rest, ap', out1)) }"

text \<open>An unknown conversion character is left in place and printed by the next round.\<close>

definition conversion :: "int \<Rightarrow> bytes \<Rightarrow> va list \<Rightarrow> bytes \<times> nat \<Rightarrow>
    (vsn_state + (bytes \<times> nat)) option" where
  "conversion mx s ap out =
     (let (pv, pl, s1) = parse_pad s in
      case s1 of [] \<Rightarrow> Some (Inl ([], ap, out))
      | c # rest \<Rightarrow>
          if c = 100 \<or> c = 105 then conv_d mx pv pl rest ap out
          else if c = 108 then conv_l mx rest ap out
          else if c = 120 \<or> c = 88 \<or> c = 112 then conv_x mx pv pl rest ap out
          else if c = 99 then conv_c mx rest ap out
          else if c = 37 then conv_percent mx rest ap out
          else if c = 115 then conv_s mx rest ap out
          else Some (Inl (s1, ap, out)))"

section \<open>The formatting loop\<close>

definition vsn_step :: "int \<Rightarrow> vsn_state \<Rightarrow> (vsn_state + (bytes \<times> nat)) option" where
  "vsn_step mx = (\<lambda>(fmt, ap, out).
     case fmt of [] \<Rightarrow> Some (Inr out)
     | c # cs \<Rightarrow>
         if c = 0 then Some (Inr out)
         else do {
           r \<leftarrow> (if c = 37 then conversion mx cs ap out
                 else do { (stop, out1) \<leftarrow> put_char mx c out;
                           Some (if stop then Inr out1 else Inl (cs, ap, out1)) });
           case r of Inr out1 \<Rightarrow> Some (Inr out1)
           | Inl (fmt1, ap1, out1) \<Rightarrow>
               Some (if int (snd out1) = mx - 1 then Inr out1 else Inl (fmt1, ap1, out1)) })"

definition vsnprintf :: "bytes \<Rightarrow> nat \<Rightarrow> bytes \<Rightarrow> va list \<Rightarrow> (int \<times> bytes) option" where
  "vsnprintf buffer n fmt ap = do {
     let mx = to_i32 (int n);
     (b, p) \<leftarrow> c_loop (Suc (length fmt)) (vsn_step mx) (fmt, ap, (buffer, 0));
     let q = (if mx \<le> int p then mx - 1 else int p);
     if q < 0 then None
     else do { b' \<leftarrow> wr b (nat q) 0; Some (q, b') } }"

definition snprintf :: "bytes \<Rightarrow> nat \<Rightarrow> bytes \<Rightarrow> va list \<Rightarrow> (int \<times> bytes) option" where
  "snprintf buffer n fmt ap = do {
     (r, b) \<leftarrow> vsnprintf buffer n fmt ap;
     b' \<leftarrow> wr b (nat r) 0;
     Some (r, b') }"

section \<open>Rendering without a buffer\<close>

text \<open>
  What a format and its arguments stand for, with no buffer and no size: the specification of
  \<open>vsnprintf\<close>.
\<close>

definition pad_to :: "byte \<Rightarrow> nat \<Rightarrow> bytes \<Rightarrow> nat \<Rightarrow> bytes" where
  "pad_to pv pl ds printed = replicate (pl - printed) pv @ ds"

definition render_conv :: "bytes \<Rightarrow> va list \<Rightarrow> (bytes \<times> bytes \<times> va list) option" where
  "render_conv s ap =
     (let (pv, pl, s1) = parse_pad s in
      case s1 of [] \<Rightarrow> Some ([], [], ap)
      | c # rest \<Rightarrow>
          if c = 100 \<or> c = 105 then do {
            (x, ap') \<leftarrow> va_long ap;
            Some (if bit x 31
                  then (let ds = digits 10 (unat (- x)) in 45 # pad_to pv pl ds (length ds + 1))
                  else (let ds = digits 10 (unat x) in pad_to pv pl ds (length ds)), rest, ap') }
          else if c = 108 then
            (if length rest < 2 then None
             else do { (x, ap') \<leftarrow> va_longlong ap; Some (digits 16 (unat x), drop 2 rest, ap') })
          else if c = 120 \<or> c = 88 \<or> c = 112 then do {
            (x, ap') \<leftarrow> va_long ap;
            let ds = digits 16 (unat x);
            Some (pad_to pv pl ds (length ds), rest, ap') }
          else if c = 99 then do { (x, ap') \<leftarrow> va_long ap; Some ([ucast x], rest, ap') }
          else if c = 37 then Some ([37], rest, ap)
          else if c = 115 then do { (t, ap') \<leftarrow> va_str ap; Some (cstr t, rest, ap') }
          else Some ([], s1, ap))"

fun render_fuel :: "nat \<Rightarrow> bytes \<Rightarrow> va list \<Rightarrow> bytes option" where
  "render_fuel 0 fmt ap = None"
| "render_fuel (Suc n) fmt ap =
     (case fmt of [] \<Rightarrow> Some []
      | c # cs \<Rightarrow>
          if c = 0 then Some []
          else do {
            (out, fmt', ap') \<leftarrow> (if c = 37 then render_conv cs ap else Some ([c], cs, ap));
            rest \<leftarrow> render_fuel n fmt' ap';
            Some (out @ rest) })"

definition render :: "bytes \<Rightarrow> va list \<Rightarrow> bytes option" where
  "render fmt ap = render_fuel (Suc (length fmt)) fmt ap"

section \<open>Lemmas\<close>

lemma wr_append: "wr (a @ b) (length a) c = (case b of [] \<Rightarrow> None | _ # t \<Rightarrow> Some (a @ c # t))"
  by (cases b) (simp_all add: wr_def)

text \<open>The buffer holds what was written so far; what is left of it keeps its length.\<close>

definition written :: "bytes \<Rightarrow> bytes \<Rightarrow> bytes \<times> nat \<Rightarrow> bool" where
  "written buffer w out \<longleftrightarrow> length w \<le> length buffer \<and> out = (w @ drop (length w) buffer, length w)"

lemma put_run_room:
  assumes "written buffer w out" and "int (length w + length cs) < mx" and "mx \<le> int (length buffer)"
  shows "\<exists>out'. put_run mx cs out = Some out' \<and> written buffer (w @ cs) out'"
  using assms
proof (induction cs arbitrary: w out)
  case (Cons c cs)
  then have l: "length w < length buffer" by simp
  then obtain t where t: "drop (length w) buffer = buffer ! length w # t" "t = drop (Suc (length w)) buffer"
    by (metis Cons_nth_drop_Suc)
  have "written buffer (w @ [c]) (w @ c # t, Suc (length w))"
    using l t by (simp add: written_def)
  from Cons.IH[OF this] Cons.prems obtain out' where
    "put_run mx cs (w @ c # t, Suc (length w)) = Some out'" "written buffer (w @ c # cs) out'"
    by auto
  then show ?case using Cons.prems t by (auto simp: written_def wr_append)
qed (auto simp: written_def)

lemma put_char_room:
  assumes "written buffer w out" and "int (length w + 1) < mx" and "mx \<le> int (length buffer)"
  shows "\<exists>out'. put_char mx c out = Some (False, out') \<and> written buffer (w @ [c]) out'"
  using put_run_room[of buffer w out "[c]" mx] assms
  by (cases out) (auto simp: put_char_def written_def bind_eq_Some_conv split: if_splits)

lemma put_pad_room:
  assumes "written buffer w out" and "int (length w + (pl - printed)) < mx" and "mx \<le> int (length buffer)"
  shows "\<exists>out'. put_pad mx pv pl printed out = Some out'
    \<and> written buffer (w @ replicate (pl - printed) pv) out'"
  using put_run_room[of buffer w out "replicate (pl - printed) pv" mx] assms
  by (cases "printed < pl") (auto simp: put_pad_def)

lemma pad_run_room:
  assumes "written buffer w out" and "int (length w + length (pad_to pv pl ds printed)) < mx"
    and "mx \<le> int (length buffer)"
  shows "\<exists>o1 o2. put_pad mx pv pl printed out = Some o1 \<and> put_run mx ds o1 = Some o2
    \<and> written buffer (w @ pad_to pv pl ds printed) o2"
proof -
  have "int (length w + (pl - printed)) < mx" using assms(2) by (simp add: pad_to_def)
  from put_pad_room[OF assms(1) this assms(3), of pv] obtain o1 where
    o1: "put_pad mx pv pl printed out = Some o1" "written buffer (w @ replicate (pl - printed) pv) o1" by blast
  have "int (length (w @ replicate (pl - printed) pv) + length ds) < mx" using assms(2) by (simp add: pad_to_def)
  from put_run_room[OF o1(2) this assms(3)] o1(1) show ?thesis by (auto simp: pad_to_def)
qed

lemma conv_d_room:
  assumes "va_long ap = Some (x, ap')" and "written buffer w out" and "mx \<le> int (length buffer)"
    and "r = (if bit x 31
                  then (let ds = digits 10 (unat (- x)) in 45 # pad_to pv pl ds (length ds + 1))
                  else (let ds = digits 10 (unat x) in pad_to pv pl ds (length ds)))"
    and "int (length w + length r) < mx"
  shows "\<exists>out'. conv_d mx pv pl rest ap out = Some (Inl (rest, ap', out')) \<and> written buffer (w @ r) out'"
proof (cases "bit x 31")
  case True
  let ?ds = "digits 10 (unat (- x))"
  have n: "NOT x + 1 = - x" by (simp add: not_eq_complement)
  have r: "r = 45 # pad_to pv pl ?ds (length ?ds + 1)" using assms(4) True by (simp add: Let_def)
  have "int (length w + 1) < mx" using assms(5) r by (simp add: pad_to_def)
  moreover obtain d ds' where "?ds = d # ds'" by (metis digits.simps append_is_Nil_conv list.exhaust not_Cons_self2)
  ultimately obtain o1 where o1: "put_char mx 45 out = Some (False, o1)" "written buffer (w @ [45]) o1"
    using put_char_room[OF assms(2) _ assms(3), of 45] by blast
  have "int (length (w @ [45]) + length (pad_to pv pl ?ds (length ?ds + 1))) < mx" using assms(5) r by simp
  from pad_run_room[OF o1(2) this assms(3)] o1(1) True assms(1) n r show ?thesis
    by (auto simp: conv_d_def Let_def)
next
  case False
  then have "r = pad_to pv pl (digits 10 (unat x)) (length (digits 10 (unat x)))"
    using assms(4) by (simp add: Let_def)
  moreover from this assms(5) obtain o1 o2 where
    "put_pad mx pv pl (length (digits 10 (unat x))) out = Some o1"
    "put_run mx (digits 10 (unat x)) o1 = Some o2" "written buffer (w @ r) o2"
    using pad_run_room[OF assms(2) _ assms(3)] by metis
  ultimately show ?thesis using assms(1) False by (simp add: conv_d_def)
qed

lemma conversion_room:
  assumes "render_conv s ap = Some (r, rest, ap')" and "written buffer w out"
    and "int (length w + length r) < mx" and "mx \<le> int (length buffer)"
  shows "\<exists>out'. conversion mx s ap out = Some (Inl (rest, ap', out')) \<and> written buffer (w @ r) out'"
proof -
  obtain pv pl s1 where pp: "parse_pad s = (pv, pl, s1)" by (metis prod_cases3)
  show ?thesis
  proof (cases s1)
    case Nil
    with assms pp show ?thesis by (auto simp: render_conv_def conversion_def)
  next
    case (Cons c t)
    consider "c = 100 \<or> c = 105" | "c = 108" | "c = 120 \<or> c = 88 \<or> c = 112" | "c = 99" | "c = 37" | "c = 115"
      | "c \<notin> {100, 105, 108, 120, 88, 112, 99, 37, 115}" by blast
    then show ?thesis
    proof cases
      case 1
      with assms(1) pp Cons obtain x where "va_long ap = Some (x, ap')" "rest = t"
        "r = (if bit x 31
              then (let ds = digits 10 (unat (- x)) in 45 # pad_to pv pl ds (length ds + 1))
              else (let ds = digits 10 (unat x) in pad_to pv pl ds (length ds)))"
        by (auto simp: render_conv_def bind_eq_Some_conv)
      from conv_d_room[OF this(1) assms(2,4) this(3) assms(3)] this(2) 1 pp Cons show ?thesis
        by (auto simp: conversion_def)
    next
      case 2
      with assms(1) pp Cons obtain x where "va_longlong ap = Some (x, ap')" "rest = drop 2 t" "\<not> length t < 2"
        "r = digits 16 (unat x)" by (auto simp: render_conv_def bind_eq_Some_conv split: if_splits)
      with put_run_room[OF assms(2,3,4)] 2 pp Cons show ?thesis
        by (auto simp: conversion_def conv_l_def)
    next
      case 3
      with assms(1) pp Cons obtain x where "va_long ap = Some (x, ap')" "rest = t"
        "r = pad_to pv pl (digits 16 (unat x)) (length (digits 16 (unat x)))"
        by (auto simp: render_conv_def bind_eq_Some_conv Let_def)
      moreover from this(3) assms(3) obtain o1 o2 where
        "put_pad mx pv pl (length (digits 16 (unat x))) out = Some o1"
        "put_run mx (digits 16 (unat x)) o1 = Some o2" "written buffer (w @ r) o2"
        using pad_run_room[OF assms(2) _ assms(4)] by metis
      ultimately show ?thesis using 3 pp Cons by (cases o2) (auto simp: conversion_def conv_x_def)
    next
      case 4
      with assms(1) pp Cons obtain x where "va_long ap = Some (x, ap')" "rest = t" "r = [ucast x]"
        by (auto simp: render_conv_def bind_eq_Some_conv)
      with put_char_room[OF assms(2) _ assms(4), of "ucast x"] assms(3) 4 pp Cons show ?thesis
        by (auto simp: conversion_def conv_c_def)
    next
      case 5
      with assms(1) pp Cons have "ap' = ap" "rest = t" "r = [37]" by (auto simp: render_conv_def)
      with put_char_room[OF assms(2) _ assms(4), of 37] assms(3) 5 pp Cons show ?thesis
        by (auto simp: conversion_def conv_percent_def)
    next
      case 6
      with assms(1) pp Cons obtain q where "va_str ap = Some (q, ap')" "rest = t" "r = cstr q"
        by (auto simp: render_conv_def bind_eq_Some_conv)
      with put_run_room[OF assms(2,3,4)] 6 pp Cons show ?thesis
        by (auto simp: conversion_def conv_s_def)
    next
      case 7
      with assms(1,2) pp Cons show ?thesis by (cases out) (auto simp: render_conv_def conversion_def)
    qed
  qed
qed

lemma vsn_room:
  assumes "render_fuel k fmt ap = Some r" and "written buffer w out"
    and "int (length w + length r) < mx" and "mx \<le> int (length buffer)"
  shows "\<exists>out'. c_loop k (vsn_step mx) (fmt, ap, out) = Some out' \<and> written buffer (w @ r) out'"
  using assms
proof (induction k arbitrary: fmt ap w out r)
  case (Suc k)
  show ?case
  proof (cases "fmt = [] \<or> hd fmt = 0")
    case True
    then show ?thesis using Suc.prems by (cases fmt) (auto simp: vsn_step_def)
  next
    case False
    then obtain c cs where c: "fmt = c # cs" "c \<noteq> 0" by (cases fmt) auto
    with Suc.prems(1) obtain r1 fmt1 ap1 r2 where
      r1: "(if c = 37 then render_conv cs ap else Some ([c], cs, ap)) = Some (r1, fmt1, ap1)"
      and r2: "render_fuel k fmt1 ap1 = Some r2" and r: "r = r1 @ r2"
      by (auto simp: bind_eq_Some_conv split: if_splits)
    have l2: "length r2 = 0" if "int (length w + length r1) = mx - 1"
      using that Suc.prems(3) r by (simp del: length_0_conv)
    have l1: "int (length w + length r1) < mx" using Suc.prems(3) r by simp
    have "\<exists>o1. (if c = 37 then conversion mx cs ap out
                 else do { (stop, out1) \<leftarrow> put_char mx c out;
                           Some (if stop then Inr out1 else Inl (cs, ap, out1)) }) = Some (Inl (fmt1, ap1, o1))
        \<and> written buffer (w @ r1) o1"
    proof (cases "c = 37")
      case True
      with r1 conversion_room[OF _ Suc.prems(2) l1 Suc.prems(4)] show ?thesis by auto
    next
      case False
      with r1 have "r1 = [c]" "fmt1 = cs" "ap1 = ap" by auto
      with False l1 put_char_room[OF Suc.prems(2) _ Suc.prems(4), of c] show ?thesis by auto
    qed
    then obtain o1 where o1: "vsn_step mx (fmt, ap, out)
        = Some (if int (snd o1) = mx - 1 then Inr o1 else Inl (fmt1, ap1, o1))" "written buffer (w @ r1) o1"
      using c by (auto simp: vsn_step_def)
    show ?thesis
    proof (cases "int (snd o1) = mx - 1")
      case True
      then have "r2 = []" using l2 o1(2) by (auto simp: written_def)
      with o1 True r show ?thesis by auto
    next
      case False
      have "int (length (w @ r1) + length r2) < mx" using Suc.prems(3) r by simp
      from Suc.IH[OF r2 o1(2) this Suc.prems(4)] o1(1) False r show ?thesis by simp
    qed
  qed
qed simp

lemma vsnprintf_fits_eq:
  assumes "render fmt ap = Some txt" and "length txt < n" and "n \<le> length buffer" and "n < 2147483648"
  shows "vsnprintf buffer n fmt ap = Some (int (length txt), txt @ 0 # drop (Suc (length txt)) buffer)"
proof -
  have "written buffer [] (buffer, 0)" by (simp add: written_def)
  from vsn_room[OF assms(1)[unfolded render_def] this, of "int n"] assms(2-4)
  obtain out where "c_loop (Suc (length fmt)) (vsn_step (int n)) (fmt, ap, (buffer, 0)) = Some out"
    "written buffer txt out" by auto
  moreover have "drop (length txt) buffer = buffer ! length txt # drop (Suc (length txt)) buffer"
    using assms(2,3) by (simp add: Cons_nth_drop_Suc)
  ultimately show ?thesis
    using assms(2-4) by (simp add: vsnprintf_def written_def wr_append del: c_loop.simps)
qed

text \<open>The format \<open>%s/%s\<close> joins a directory and a name.\<close>

lemma render_path: "render [37, 115, 47, 37, 115] [VStr a, VStr b] = Some (cstr a @ 47 # cstr b)"
  by (simp add: render_def render_conv_def parse_pad_def is_digit_def)

lemma snprintf_path:
  assumes "length (cstr a) + length (cstr b) + 1 < n" "n \<le> length buffer" "n < 2147483648"
  shows "\<exists>rest. snprintf buffer n [37, 115, 47, 37, 115] [VStr a, VStr b]
    = Some (int (length (cstr a) + length (cstr b) + 1), cstr a @ 47 # cstr b @ 0 # rest)
    \<and> length rest = length buffer - (length (cstr a) + length (cstr b) + 2)"
proof -
  let ?t = "cstr a @ 47 # cstr b"
  have "vsnprintf buffer n [37, 115, 47, 37, 115] [VStr a, VStr b]
      = Some (int (length ?t), ?t @ 0 # drop (Suc (length ?t)) buffer)"
    by (rule vsnprintf_fits_eq[OF render_path]) (use assms in simp_all)
  moreover have "wr (?t @ 0 # r) (length ?t) 0 = Some (?t @ 0 # r)" for r
    by (simp only: wr_append list.case)
  ultimately have "snprintf buffer n [37, 115, 47, 37, 115] [VStr a, VStr b]
      = Some (int (length ?t), ?t @ 0 # drop (Suc (length ?t)) buffer)"
    unfolding snprintf_def by (simp only: bind.bind_lunit prod.case nat_int)
  then show ?thesis using assms by (intro exI[of _ "drop (Suc (length ?t)) buffer"]) simp
qed

text \<open>
  C34: \<open>vsnprintf\<close> formats correctly whatever fits: when the text the format stands for is shorter
  than the size passed, and the buffer is at least that size, the text and its terminating NUL are
  stored at the start of the buffer, nothing after the NUL changes, and the length of the text is
  returned.
\<close>

theorem vsnprintf_fits:
  assumes "render fmt ap = Some txt" and "length txt < n" and "n \<le> length buffer" and "n < 2147483648"
  shows "vsnprintf buffer n fmt ap = Some (int (length txt), txt @ 0 # drop (Suc (length txt)) buffer)"
  using assms by (rule vsnprintf_fits_eq)

lemma vsnprintf_fits_witness:
  "vsnprintf (replicate 16 0) 16 [37, 53, 100, 33] [VLong (- 42)]
    = Some (6, [45, 32, 32, 52, 50, 33] @ 0 # replicate 9 0)"
proof -
  have "render [37, 53, 100, 33] [VLong (- 42)] = Some [45, 32, 32, 52, 50, 33]" by code_simp
  from vsnprintf_fits[OF this, of 16 "replicate 16 0"] show ?thesis by simp
qed

text \<open>
  When a string argument is at least as long as the buffer, \<open>vsnprintf\<close> writes past its end: the
  inner \<open>break\<close> leaves only the loop over the string, and the next character of the format is
  stored behind the buffer.
\<close>

theorem vsnprintf_overflows:
  assumes "0 < n" and "n < 2147483648" and "length buffer = n" and "n \<le> length s" and "0 \<notin> set s"
    and "c \<noteq> 0" and "c \<noteq> 37"
  shows "vsnprintf buffer n [37, 115, c] [VStr s] = None"
proof -
  have run: "put_run (int n) t (b, p) = Some (b', p') \<Longrightarrow> p + length t \<ge> n \<Longrightarrow> p < n \<Longrightarrow> p' = n \<and> length b' = length b"
    for t b p b' p'
    by (induction t arbitrary: b p) (auto simp: bind_eq_Some_conv wr_Some_iff split: if_splits)
  show ?thesis
  proof (cases "put_run (int n) s (buffer, 0)")
    case None
    then show ?thesis using assms(2,5)
      by (simp add: vsnprintf_def vsn_step_def conversion_def conv_s_def parse_pad_def is_digit_def cstr_id)
  next
    case (Some o1)
    then obtain b where "o1 = (b, n)" "length b = n" using run[of s buffer 0] assms by (cases o1) auto
    then show ?thesis using assms Some
      by (simp add: vsnprintf_def vsn_step_def conversion_def conv_s_def parse_pad_def is_digit_def cstr_id
          put_char_def wr_def)
  qed
qed

lemma vsnprintf_overflows_witness: "vsnprintf (replicate 4 0) 4 [37, 115, 33] [VStr [65, 66, 67, 68, 69]] = None"
  using vsnprintf_overflows[of 4 "replicate 4 0" "[65, 66, 67, 68, 69]" 33] by simp

end
