(* ===== verification/Paths.thy ===== *)
theory Paths
  imports Cstring
begin

text \<open>
  Splitting of path names, the first part of \<open>kernel/fs/inodes.c\<close>.  A pointer into a string is the
  rest of the string from there on, or an index where the code writes through it.
\<close>

section \<open>The directory part\<close>

text \<open>
  \<open>split_pathname\<close> looks for the last slash, from the NUL backwards but not at index zero, and
  overwrites it with a NUL.  The result is the index behind it.
\<close>

fun last_slash :: "bytes \<Rightarrow> nat \<Rightarrow> nat option" where
  "last_slash p 0 = None"
| "last_slash p (Suc k) = (if str_at p (Suc k) = 47 then Some (Suc k) else last_slash p k)"

definition split_pathname :: "bytes \<Rightarrow> (nat option \<times> bytes) option" where
  "split_pathname p =
     (case last_slash p (strlen p) of
        None \<Rightarrow> Some (None, p)
      | Some k \<Rightarrow> do { p' \<leftarrow> wr p k 0; Some (Some (Suc k), p') })"

section \<open>The first component\<close>

fun split_filename_from :: "bytes \<Rightarrow> int \<Rightarrow> nat \<Rightarrow> bytes \<times> bytes option" where
  "split_filename_from [] len k = ([], None)"
| "split_filename_from (c # cs) len k =
     (if c = 0 then ([], None)
      else if int k \<ge> len - 1 then ([], None)
      else if c = 47 then ([], Some cs)
      else let (n, r) = split_filename_from cs len (Suc k) in (c # n, r))"

definition split_filename :: "bytes \<Rightarrow> int \<Rightarrow> bytes \<times> bytes option" where
  "split_filename start_ptr len = split_filename_from start_ptr len 0"

section \<open>Lemmas\<close>

lemma split_filename_from_slash:
  "0 \<notin> set a \<Longrightarrow> 47 \<notin> set a \<Longrightarrow> int (k + length a) < len - 1 \<Longrightarrow>
     split_filename_from (a @ 47 # b) len k = (a, Some b)"
  by (induction a arbitrary: k) auto

lemma split_filename_from_last:
  "0 \<notin> set a \<Longrightarrow> 47 \<notin> set a \<Longrightarrow> int (k + length a) \<le> len - 1 \<Longrightarrow>
     split_filename_from a len k = (a, None)"
  by (induction a arbitrary: k) auto

lemma split_filename_from_shorter:
  "split_filename_from s len k = (n, Some r) \<Longrightarrow> length r < length s"
  by (induction s arbitrary: k n) (fastforce split: if_splits prod.splits)+

lemma split_filename_shorter: "split_filename s len = (n, Some r) \<Longrightarrow> length r < length s"
  unfolding split_filename_def by (rule split_filename_from_shorter)

lemma split_filename_parts:
  assumes "0 \<notin> set a" "47 \<notin> set a" "length a < 255"
  shows "split_filename (a @ 47 # b) 256 = (a, Some b)" "split_filename a 256 = (a, None)"
  using assms split_filename_from_slash[of a 0 256 b] split_filename_from_last[of a 0 256]
  by (simp_all add: split_filename_def)

lemma last_slash_found:
  "k < j \<Longrightarrow> str_at p k = 47 \<Longrightarrow> 0 < k \<Longrightarrow> (\<And>i. k < i \<Longrightarrow> i \<le> j \<Longrightarrow> str_at p i \<noteq> 47) \<Longrightarrow> last_slash p j = Some k"
proof (induction j)
  case (Suc j)
  show ?case
  proof (cases "k = j")
    case True
    then have "last_slash p j = Some k" using Suc.prems by (cases j) auto
    then show ?thesis using Suc.prems by simp
  next
    case False
    then have "last_slash p j = Some k" using Suc by simp
    then show ?thesis using Suc.prems by simp
  qed
qed simp

end
