(* ===== verification/FS_State.thy ===== *)
theory FS_State
  imports Printk
begin

text \<open>
  The static data of the file system layer: the device table of \<open>kernel/drivers/block.c\<close>, the
  superblocks of \<open>kernel/fs/superblock.c\<close>, the inode and file object structures of
  \<open>kernel/include/fs\<close> and the volume tables of \<open>kernel/fs/dos33fs/dos33fs.c\<close>.

  A pointer into one of the tables is an index.  A table of operations is a value of a datatype
  with one constructor per table of the source, and dispatch is by cases.  Sizes, offsets and
  counts are natural numbers; where the code narrows them, the model writes the reduction out.
\<close>

section \<open>Block devices\<close>

datatype block_operations = No_Block_Ops | Ramdisk_Ops

text \<open>\<open>bd_data\<close> is the memory that the \<open>private\<close> pointer of a ramdisk leads to.\<close>

record block_dev =
  bd_major :: nat
  bd_minor :: nat
  bd_name :: bytes
  bd_start :: nat
  bd_length :: nat
  bd_capacity :: nat
  bd_ops :: block_operations
  bd_data :: bytes

definition block_dev_zero :: block_dev where
  "block_dev_zero = \<lparr>bd_major = 0, bd_minor = 0, bd_name = replicate 32 0, bd_start = 0, bd_length = 0,
     bd_capacity = 0, bd_ops = No_Block_Ops, bd_data = []\<rparr>"

section \<open>Superblocks\<close>

datatype superblock_operations = No_Sb_Ops | Dos33_Sb_Ops | Romfs_Sb_Ops

text \<open>\<open>sb_private\<close> points into \<open>vtoc_list\<close> for a DOS 3.3 volume.\<close>

record superblock =
  sb_valid :: bool
  sb_blocks :: nat
  sb_blocks_free :: nat
  sb_block_size :: nat
  sb_root_dir :: u32
  sb_mountpoint :: bytes
  sb_ops :: superblock_operations
  sb_block :: "nat option"
  sb_private :: "nat option"

definition superblock_zero :: superblock where
  "superblock_zero = \<lparr>sb_valid = False, sb_blocks = 0, sb_blocks_free = 0, sb_block_size = 0,
     sb_root_dir = 0, sb_mountpoint = replicate 1024 0, sb_ops = No_Sb_Ops, sb_block = None,
     sb_private = None\<rparr>"

section \<open>Inodes\<close>

record inode =
  i_device :: nat
  i_number :: u32
  i_count :: int
  i_mode :: u32
  i_hard_links :: int
  i_uid :: int
  i_gid :: int
  i_rdev :: nat
  i_size :: nat
  i_blocksize :: nat
  i_blocks :: nat
  i_atime :: nat
  i_mtime :: nat
  i_ctime :: nat
  i_sb :: "nat option"

definition inode_zero :: inode where
  "inode_zero = \<lparr>i_device = 0, i_number = 0, i_count = 0, i_mode = 0, i_hard_links = 0, i_uid = 0,
     i_gid = 0, i_rdev = 0, i_size = 0, i_blocksize = 0, i_blocks = 0, i_atime = 0, i_mtime = 0,
     i_ctime = 0, i_sb = None\<rparr>"

abbreviation (input) "S_IFMT \<equiv> 0xf000 :: u32"
abbreviation (input) "S_IFREG \<equiv> 0x8000 :: u32"
abbreviation (input) "S_IFBLK \<equiv> 0x6000 :: u32"
abbreviation (input) "S_IFDIR \<equiv> 0x4000 :: u32"
abbreviation (input) "S_IFCHR \<equiv> 0x2000 :: u32"
abbreviation (input) "S_IFLNK \<equiv> 0xa000 :: u32"
abbreviation (input) "S_IFSOCK \<equiv> 0xc000 :: u32"
abbreviation (input) "S_IFIFO \<equiv> 0x1000 :: u32"

section \<open>The file system state\<close>

text \<open>
  \<open>vtoc_list\<close> is the flat contents of \<open>char vtoc_list[DOS33_VTOC_SIZE][DOS33_MAX_VTOCS]\<close>.
\<close>

record fs_state =
  block_devs :: "block_dev list"
  num_block_devs :: nat
  minors_allocated :: nat
  superblock_table :: "superblock list"
  vtoc_list :: bytes
  next_vtoc :: nat

definition fs_init :: fs_state where
  "fs_init = \<lparr>block_devs = replicate 8 block_dev_zero, num_block_devs = 0, minors_allocated = 0,
     superblock_table = replicate 8 superblock_zero, vtoc_list = replicate 512 0, next_vtoc = 0\<rparr>"

text \<open>
  \<open>memcpy\<close> from a device into a buffer whose previous contents are \<open>dest\<close>; an uninitialised
  buffer is the empty list.
\<close>

definition copy_in :: "bytes \<Rightarrow> bytes \<Rightarrow> bytes" where
  "copy_in dest data = data @ drop (length data) dest"

lemma copy_in_Nil [simp]: "copy_in [] data = data"
  by (simp add: copy_in_def)

lemma copy_in_full [simp]: "length dest = length data \<Longrightarrow> copy_in dest data = data"
  by (simp add: copy_in_def)

lemma length_copy_in [simp]: "length (copy_in dest data) = max (length dest) (length data)"
  by (simp add: copy_in_def)

section \<open>Access to a superblock\<close>

definition sb_get :: "nat \<Rightarrow> fs_state \<Rightarrow> superblock option" where
  "sb_get s fs = rd (superblock_table fs) s"

definition sb_set :: "nat \<Rightarrow> superblock \<Rightarrow> fs_state \<Rightarrow> fs_state" where
  "sb_set s sb fs = fs\<lparr>superblock_table := (superblock_table fs)[s := sb]\<rparr>"

section \<open>What the file systems give to the user\<close>

record statfs =
  f_type :: nat
  f_bsize :: nat
  f_blocks :: nat
  f_bfree :: nat
  f_bavail :: nat
  f_files :: nat
  f_ffree :: nat
  f_fsid :: nat
  f_namelen :: nat
  f_frsize :: nat
  f_flags :: nat

text \<open>
  A directory entry (\<open>struct vmwos_dirent\<close>) is its inode number, its record length and its name;
  the record is padded to a multiple of four bytes.
\<close>

type_synonym dirent = "u32 \<times> nat \<times> bytes"

definition dirent_length :: "nat \<Rightarrow> nat" where
  "dirent_length n = (let l = 12 + n + 1 in if l mod 4 \<noteq> 0 then l + 4 - l mod 4 else l)"

end
