(* ===== verification/Block_Dev.thy ===== *)
theory Block_Dev
  imports FS_State
begin

text \<open>
  Block and character device tables (\<open>kernel/drivers/block.c\<close>, \<open>kernel/drivers/char.c\<close>) and the
  ramdisk driver (\<open>kernel/drivers/ramdisk/ramdisk.c\<close>).
\<close>

abbreviation (input) "BLOCK_DEV_MAX \<equiv> 8 :: nat"
abbreviation (input) "RAMDISK_MAJOR \<equiv> 1 :: nat"

section \<open>The device table\<close>

definition allocate_block_dev :: "fs_state \<Rightarrow> (nat option \<times> fs_state)" where
  "allocate_block_dev fs =
     (if num_block_devs fs = BLOCK_DEV_MAX - 1 then (None, fs)
      else (Some (num_block_devs fs + 1), fs\<lparr>num_block_devs := num_block_devs fs + 1\<rparr>))"

fun index_of :: "('a \<Rightarrow> bool) \<Rightarrow> 'a list \<Rightarrow> nat option" where
  "index_of P [] = None"
| "index_of P (x # xs) = (if P x then Some 0 else map_option Suc (index_of P xs))"

lemma index_of_Some_iff:
  "index_of P xs = Some i \<longleftrightarrow> i < length xs \<and> P (xs ! i) \<and> (\<forall>j < i. \<not> P (xs ! j))"
proof (induction xs arbitrary: i)
  case (Cons x xs)
  show ?case
  proof (cases i)
    case 0
    then show ?thesis by auto
  next
    case (Suc k)
    then show ?thesis using Cons.IH[of k] by (auto simp: less_Suc_eq_0_disj)
  qed
qed simp

lemma index_of_None_iff: "index_of P xs = None \<longleftrightarrow> (\<forall>x \<in> set xs. \<not> P x)"
  by (induction xs) auto

definition block_dev_find :: "bytes \<Rightarrow> fs_state \<Rightarrow> nat option" where
  "block_dev_find name fs =
     index_of (\<lambda>d. strncmp name (bd_name d) (strlen name) = 0) (block_devs fs)"

definition block_dev_lookup :: "nat \<Rightarrow> fs_state \<Rightarrow> nat option" where
  "block_dev_lookup devnum fs =
     index_of (\<lambda>d. bd_major d = devnum div 65536 \<and> bd_minor d = devnum mod 65536) (block_devs fs)"

section \<open>The character device table\<close>

text \<open>Names and numbers are all the lookup functions use of a character device.\<close>

record char_dev =
  cd_major :: nat
  cd_minor :: nat
  cd_name :: bytes

record char_table =
  char_devs :: "char_dev list"
  num_char_devs :: nat

definition allocate_char_dev :: "char_table \<Rightarrow> (nat option \<times> char_table)" where
  "allocate_char_dev t =
     (if num_char_devs t = 7 then (None, t)
      else (Some (num_char_devs t + 1), t\<lparr>num_char_devs := num_char_devs t + 1\<rparr>))"

definition char_dev_find :: "bytes \<Rightarrow> char_table \<Rightarrow> nat option" where
  "char_dev_find name t =
     index_of (\<lambda>d. strncmp name (cd_name d) (strlen name) = 0) (char_devs t)"

definition char_dev_lookup :: "nat \<Rightarrow> char_table \<Rightarrow> nat option" where
  "char_dev_lookup devnum t =
     index_of (\<lambda>d. cd_major d = devnum div 65536 \<and> cd_minor d = devnum mod 65536) (char_devs t)"

section \<open>The ramdisk\<close>

text \<open>
  The range test adds the length to the start of the device, not to the offset.  An access behind
  the memory of the ramdisk is undefined.
\<close>

definition ramdisk_read :: "block_dev \<Rightarrow> nat \<Rightarrow> nat \<Rightarrow> bytes \<Rightarrow> (int \<times> bytes) option" where
  "ramdisk_read dev off len dest =
     (if (bd_start dev + len) mod 2 ^ 64 > bd_length dev then Some (- ERANGE, dest)
      else do { data \<leftarrow> slice (bd_data dev) off len;
                Some (to_i32 (int len), copy_in dest data) })"

definition ramdisk_write :: "block_dev \<Rightarrow> nat \<Rightarrow> nat \<Rightarrow> bytes \<Rightarrow> (int \<times> block_dev) option" where
  "ramdisk_write dev off len src =
     (if (bd_start dev + len) mod 2 ^ 64 > bd_length dev then Some (- ERANGE, dev)
      else do { data \<leftarrow> slice src 0 len;
                b \<leftarrow> splice (bd_data dev) off data;
                Some (to_i32 (int len), dev\<lparr>bd_data := b\<rparr>) })"

definition ramdisk_ioctl :: "block_dev \<Rightarrow> nat \<Rightarrow> nat \<Rightarrow> nat \<Rightarrow> int" where
  "ramdisk_ioctl dev cmd three four = - ENOTTY"

definition ramdisk_init :: "bytes \<Rightarrow> nat \<Rightarrow> fs_state \<Rightarrow> (nat option \<times> fs_state) option" where
  "ramdisk_init start len fs =
     (case allocate_block_dev fs of
        (None, fs1) \<Rightarrow> Some (None, fs1)
      | (Some i, fs1) \<Rightarrow> do {
          d \<leftarrow> rd (block_devs fs1) i;
          (_, name) \<leftarrow> snprintf (bd_name d) 32 [114, 97, 109, 100, 105, 115, 107, 37, 100]
                         [VLong (of_nat (minors_allocated fs1))];
          let d' = d\<lparr>bd_major := RAMDISK_MAJOR, bd_minor := minors_allocated fs1, bd_name := name,
                     bd_start := 0, bd_length := len, bd_capacity := len, bd_ops := Ramdisk_Ops,
                     bd_data := start\<rparr>;
          Some (Some i, fs1\<lparr>block_devs := (block_devs fs1)[i := d'],
                            minors_allocated := minors_allocated fs1 + 1\<rparr>) })"

section \<open>Dispatch\<close>

text \<open>
  \<open>dev->block_ops->read\<close> and \<open>dev->block_ops->write\<close>: the code calls through the table without
  looking whether there is one.
\<close>

definition block_read :: "nat \<Rightarrow> nat \<Rightarrow> nat \<Rightarrow> bytes \<Rightarrow> fs_state \<Rightarrow> (int \<times> bytes) option" where
  "block_read i off len dest fs = do {
     d \<leftarrow> rd (block_devs fs) i;
     (case bd_ops d of No_Block_Ops \<Rightarrow> None | Ramdisk_Ops \<Rightarrow> ramdisk_read d off len dest) }"

definition block_write :: "nat \<Rightarrow> nat \<Rightarrow> nat \<Rightarrow> bytes \<Rightarrow> fs_state \<Rightarrow> (int \<times> fs_state) option" where
  "block_write i off len src fs = do {
     d \<leftarrow> rd (block_devs fs) i;
     (case bd_ops d of No_Block_Ops \<Rightarrow> None
      | Ramdisk_Ops \<Rightarrow> do { (r, d') \<leftarrow> ramdisk_write d off len src;
                             Some (r, fs\<lparr>block_devs := (block_devs fs)[i := d']\<rparr>) }) }"

end
