(* ===== verification/Sectors.thy ===== *)
theory Sectors
  imports VMW_Prelude
begin

text \<open>
  The contract of a store of fixed-size blocks: what is read after a write.  The file systems rely
  on it for the sectors of a disk image and for the copies of a volume table kept in memory.
\<close>

locale sectors =
  fixes valid :: "'d \<Rightarrow> 'a \<Rightarrow> bool"
    and get :: "'d \<Rightarrow> 'a \<Rightarrow> bytes"
    and put :: "'a \<Rightarrow> bytes \<Rightarrow> 'd \<Rightarrow> 'd"
    and n :: nat
  assumes length_get: "valid d a \<Longrightarrow> length (get d a) = n"
    and valid_put: "valid d a \<Longrightarrow> length b = n \<Longrightarrow> valid (put a b d) c \<longleftrightarrow> valid d c"
    and get_put: "valid d a \<Longrightarrow> length b = n \<Longrightarrow> get (put a b d) a = b"
    and get_put_other: "valid d a \<Longrightarrow> valid d c \<Longrightarrow> a \<noteq> c \<Longrightarrow> length b = n \<Longrightarrow> get (put a b d) c = get d c"
begin

lemma get_put_if:
  "valid d a \<Longrightarrow> valid d c \<Longrightarrow> length b = n \<Longrightarrow> get (put a b d) c = (if a = c then b else get d c)"
  by (simp add: get_put get_put_other)

definition good :: "'d \<Rightarrow> ('a \<times> bytes) list \<Rightarrow> bool" where
  "good d ws \<longleftrightarrow> (\<forall>(a, b) \<in> set ws. valid d a \<and> length b = n)"

definition puts :: "('a \<times> bytes) list \<Rightarrow> 'd \<Rightarrow> 'd" where
  "puts ws = fold (\<lambda>(a, b). put a b) ws"

lemma puts_simps [simp]: "puts [] d = d" "puts ((a, b) # ws) d = puts ws (put a b d)"
  by (simp_all add: puts_def)

lemma good_Cons [simp]: "good d ((a, b) # ws) \<longleftrightarrow> valid d a \<and> length b = n \<and> good d ws"
  by (auto simp: good_def)

lemma good_put: "valid d a \<Longrightarrow> length b = n \<Longrightarrow> good (put a b d) ws \<longleftrightarrow> good d ws"
  by (auto simp: good_def valid_put)

lemma valid_puts: "good d ws \<Longrightarrow> valid (puts ws d) c \<longleftrightarrow> valid d c"
  by (induction ws arbitrary: d) (auto simp: good_put valid_put)

text \<open>Blocks that are not written keep their contents.\<close>

lemma get_puts_frame: "good d ws \<Longrightarrow> valid d c \<Longrightarrow> c \<notin> fst ` set ws \<Longrightarrow> get (puts ws d) c = get d c"
  by (induction ws arbitrary: d) (auto simp: good_put valid_put get_put_other)

text \<open>A block written once holds what was written.\<close>

lemma get_puts_once:
  "good d ws \<Longrightarrow> distinct (map fst ws) \<Longrightarrow> (c, b) \<in> set ws \<Longrightarrow> get (puts ws d) c = b"
proof (induction ws arbitrary: d)
  case (Cons w ws)
  obtain a b' where w: "w = (a, b')" by (cases w)
  have g: "valid d a" "length b' = n" "good (put a b' d) ws" using Cons.prems(1) w by (simp_all add: good_put)
  show ?case
  proof (cases "(c, b) \<in> set ws")
    case True
    with Cons.IH[OF g(3)] Cons.prems(2) w show ?thesis by simp
  next
    case False
    with Cons.prems w have cb: "c = a" "b = b'" "a \<notin> fst ` set ws" by auto
    then show ?thesis using get_puts_frame[OF g(3), of a] g w by (simp add: valid_put get_put)
  qed
qed simp

end

text \<open>Blocks of \<open>n\<close> bytes in a list of bytes.\<close>

definition blk_valid :: "nat \<Rightarrow> bytes \<Rightarrow> nat \<Rightarrow> bool" where
  "blk_valid n d k \<longleftrightarrow> k * n + n \<le> length d"

definition blk_get :: "nat \<Rightarrow> bytes \<Rightarrow> nat \<Rightarrow> bytes" where
  "blk_get n d k = take n (drop (k * n) d)"

definition blk_put :: "nat \<Rightarrow> nat \<Rightarrow> bytes \<Rightarrow> bytes \<Rightarrow> bytes" where
  "blk_put n k b d = take (k * n) d @ b @ drop (k * n + n) d"

lemma length_blk_put [simp]: "blk_valid n d k \<Longrightarrow> length b = n \<Longrightarrow> length (blk_put n k b d) = length d"
  by (simp add: blk_put_def blk_valid_def)

lemma blk_disjoint: "j < k \<Longrightarrow> j * n + n \<le> k * (n :: nat)"
proof -
  assume "j < k"
  then have "Suc j * n \<le> k * n" by (simp only: mult_le_mono1 Suc_leI)
  then show ?thesis by simp
qed

end
