(* ===== verification/Dos33_Vtoc.thy ===== *)
theory Dos33_Vtoc
  imports Block_Dev Bitmap Sectors
begin

text \<open>
  The DOS 3.3 file system, \<open>kernel/fs/dos33fs/dos33fs.c\<close>: addresses of sectors, the volume table
  of contents (VTOC) with its map of free sectors, and the sector allocator.

  \<open>s\<close> is the index of the superblock.  The results of the device operations are not looked at by
  the code; a read out of range leaves the buffer as it was.
\<close>

abbreviation (input) "DOS33_BLOCK_SIZE \<equiv> 256 :: nat"
abbreviation (input) "DOS33_VTOC_SIZE \<equiv> 256 :: nat"
abbreviation (input) "DOS33_VTOC_TRACK \<equiv> 17 :: int"
abbreviation (input) "DOS33_VTOC_FIRST_CAT_TRACK \<equiv> 1 :: nat"
abbreviation (input) "DOS33_VTOC_FIRST_CAT_SECTOR \<equiv> 2 :: nat"
abbreviation (input) "DOS33_VTOC_LAST_TRACK_ALLOCATED \<equiv> 0x30 :: nat"
abbreviation (input) "DOS33_VTOC_ALLOC_DIRECTION \<equiv> 0x31 :: nat"
abbreviation (input) "DOS33_VTOC_NUM_TRACKS \<equiv> 0x34 :: nat"
abbreviation (input) "DOS33_VTOC_NUM_SECTORS \<equiv> 0x35 :: nat"
abbreviation (input) "DOS33_VTOC_FREE_BITMAPS \<equiv> 0x38 :: nat"

section \<open>Addresses\<close>

definition ts :: "nat \<Rightarrow> nat \<Rightarrow> nat" where
  "ts track sector = (track * 16 + sector) * DOS33_BLOCK_SIZE"

definition get_t :: "nat \<Rightarrow> nat" where
  "get_t value = value div DOS33_BLOCK_SIZE div 16"

definition get_s :: "nat \<Rightarrow> nat" where
  "get_s value = value div DOS33_BLOCK_SIZE mod 16"

text \<open>An inode number is the track, the sector and the entry of a catalog entry, eight bits each.\<close>

definition ino_t :: "u32 \<Rightarrow> nat" where
  "ino_t n = unat (drop_bit 16 n AND 0xff)"

definition ino_s :: "u32 \<Rightarrow> nat" where
  "ino_s n = unat (drop_bit 8 n AND 0xff)"

definition ino_e :: "u32 \<Rightarrow> nat" where
  "ino_e n = unat (n AND 0xff)"

definition mk_ino :: "nat \<Rightarrow> nat \<Rightarrow> nat \<Rightarrow> u32" where
  "mk_ino t s e = push_bit 16 (of_nat t) OR push_bit 8 (of_nat s) OR of_nat e"

definition inode_to_block :: "u32 \<Rightarrow> nat" where
  "inode_to_block n = ts (ino_t n) (ino_s n)"

section \<open>Device and VTOC access\<close>

definition dos_read :: "nat \<Rightarrow> nat \<Rightarrow> bytes \<Rightarrow> fs_state \<Rightarrow> bytes option" where
  "dos_read s loc dest fs = do {
     sb \<leftarrow> sb_get s fs;
     dev \<leftarrow> sb_block sb;
     (_, b) \<leftarrow> block_read dev loc DOS33_BLOCK_SIZE dest fs;
     Some b }"

definition dos_write :: "nat \<Rightarrow> nat \<Rightarrow> bytes \<Rightarrow> fs_state \<Rightarrow> fs_state option" where
  "dos_write s loc data fs = do {
     sb \<leftarrow> sb_get s fs;
     dev \<leftarrow> sb_block sb;
     (_, fs') \<leftarrow> block_write dev loc DOS33_BLOCK_SIZE data fs;
     Some fs' }"

definition vtoc_rd :: "nat \<Rightarrow> nat \<Rightarrow> fs_state \<Rightarrow> byte option" where
  "vtoc_rd s i fs = do { sb \<leftarrow> sb_get s fs; p \<leftarrow> sb_private sb; rd (vtoc_list fs) (p + i) }"

definition vtoc_wr :: "nat \<Rightarrow> nat \<Rightarrow> byte \<Rightarrow> fs_state \<Rightarrow> fs_state option" where
  "vtoc_wr s i v fs = do {
     sb \<leftarrow> sb_get s fs; p \<leftarrow> sb_private sb;
     l \<leftarrow> wr (vtoc_list fs) (p + i) v;
     Some (fs\<lparr>vtoc_list := l\<rparr>) }"

section \<open>The free sectors\<close>

definition ones_lookup :: "nat list" where
  "ones_lookup = [0, 1, 1, 2, 1, 2, 2, 3, 1, 2, 2, 3, 2, 3, 3, 4]"

definition find_first_one :: "byte \<Rightarrow> int option" where
  "find_first_one b =
     (if b = 0 then Some (- 1)
      else c_loop 8 (\<lambda>i. Some (if b AND push_bit i 1 = 0 then Inl (Suc i) else Inr (int i))) 0)"

definition count_byte :: "byte \<Rightarrow> nat" where
  "count_byte b = ones_lookup ! unat (b AND 0xf) + ones_lookup ! unat (drop_bit 4 b AND 0xf)"

definition dos33_update_blocks_free :: "nat \<Rightarrow> fs_state \<Rightarrow> fs_state option" where
  "dos33_update_blocks_free s fs = do {
     tracks \<leftarrow> vtoc_rd s DOS33_VTOC_NUM_TRACKS fs;
     sectors \<leftarrow> vtoc_rd s DOS33_VTOC_NUM_SECTORS fs;
     sectors_free \<leftarrow> c_for (unat tracks) 0
       (\<lambda>i n. do { b0 \<leftarrow> vtoc_rd s (DOS33_VTOC_FREE_BITMAPS + i * 4) fs;
                   b1 \<leftarrow> vtoc_rd s (DOS33_VTOC_FREE_BITMAPS + i * 4 + 1) fs;
                   Some (n + count_byte b0 + count_byte b1) }) 0;
     sb \<leftarrow> sb_get s fs;
     Some (sb_set s (sb\<lparr>sb_blocks := unat tracks * unat sectors, sb_blocks_free := sectors_free\<rparr>) fs) }"

definition dos33_mark_blocks_free :: "nat \<Rightarrow> nat \<Rightarrow> nat \<Rightarrow> fs_state \<Rightarrow> fs_state option" where
  "dos33_mark_blocks_free s track sector fs =
     (if sector < 8 then do {
        b \<leftarrow> vtoc_rd s (DOS33_VTOC_FREE_BITMAPS + track * 4 + 1) fs;
        fs1 \<leftarrow> vtoc_wr s (DOS33_VTOC_FREE_BITMAPS + track * 4 + 1) (b OR push_bit sector 1) fs;
        dos33_update_blocks_free s fs1 }
      else if sector < 16 then do {
        b \<leftarrow> vtoc_rd s (DOS33_VTOC_FREE_BITMAPS + track * 4) fs;
        fs1 \<leftarrow> vtoc_wr s (DOS33_VTOC_FREE_BITMAPS + track * 4) (b OR push_bit (sector - 8) 1) fs;
        dos33_update_blocks_free s fs1 }
      else Some fs)"

definition dos33_mark_blocks_used :: "nat \<Rightarrow> nat \<Rightarrow> nat \<Rightarrow> fs_state \<Rightarrow> fs_state option" where
  "dos33_mark_blocks_used s track sector fs =
     (if sector < 8 then do {
        b \<leftarrow> vtoc_rd s (DOS33_VTOC_FREE_BITMAPS + track * 4 + 1) fs;
        fs1 \<leftarrow> vtoc_wr s (DOS33_VTOC_FREE_BITMAPS + track * 4 + 1) (b AND NOT (push_bit sector 1)) fs;
        dos33_update_blocks_free s fs1 }
      else if sector < 16 then do {
        b \<leftarrow> vtoc_rd s (DOS33_VTOC_FREE_BITMAPS + track * 4) fs;
        fs1 \<leftarrow> vtoc_wr s (DOS33_VTOC_FREE_BITMAPS + track * 4) (b AND NOT (push_bit (sector - 8) 1)) fs;
        dos33_update_blocks_free s fs1 }
      else Some fs)"

section \<open>Writing the superblock and clearing a sector\<close>

definition dos33fs_write_superblock :: "nat \<Rightarrow> fs_state \<Rightarrow> fs_state option" where
  "dos33fs_write_superblock s fs = do {
     sb \<leftarrow> sb_get s fs;
     p \<leftarrow> sb_private sb;
     vtoc \<leftarrow> slice (vtoc_list fs) p DOS33_VTOC_SIZE;
     dos_write s (ts 17 0) vtoc fs }"

text \<open>\<open>sb->sb_ops.write_superblock(sb)\<close>: the operation of the ROM file system returns at once.\<close>

definition write_superblock :: "nat \<Rightarrow> fs_state \<Rightarrow> fs_state option" where
  "write_superblock s fs = do {
     sb \<leftarrow> sb_get s fs;
     (case sb_ops sb of Dos33_Sb_Ops \<Rightarrow> dos33fs_write_superblock s fs | Romfs_Sb_Ops \<Rightarrow> Some fs
      | No_Sb_Ops \<Rightarrow> None) }"

definition dos33_zero_out_sector :: "nat \<Rightarrow> nat \<Rightarrow> nat \<Rightarrow> fs_state \<Rightarrow> fs_state option" where
  "dos33_zero_out_sector s track sector fs =
     dos_write s (ts track sector) (replicate 256 0) fs"

section \<open>The sector allocator\<close>

definition find_in_track :: "nat \<Rightarrow> nat \<Rightarrow> fs_state \<Rightarrow> int option option" where
  "find_in_track s track fs = do {
     b1 \<leftarrow> vtoc_rd s (DOS33_VTOC_FREE_BITMAPS + track * 4 + 1) fs;
     if b1 \<noteq> 0 then do { i \<leftarrow> find_first_one b1; Some (Some i) }
     else do {
       b0 \<leftarrow> vtoc_rd s (DOS33_VTOC_FREE_BITMAPS + track * 4) fs;
       if b0 \<noteq> 0 then do { i \<leftarrow> find_first_one b0; Some (Some (i + 8)) } else Some None } }"

text \<open>
  One round of the search: the state is the track and the direction, the result the track and
  sector found and the direction.  A full disk is noticed only when debugging is on, and the
  search goes on.
\<close>

definition next_track :: "int \<Rightarrow> int \<times> int \<Rightarrow> int \<times> int" where
  "next_track tracks_per_disk = (\<lambda>(t, dir).
     let t1 = t + dir;
         (t2, d2) = (if t1 < 0 then (DOS33_VTOC_TRACK, 1) else (t1, dir))
     in if t2 \<ge> tracks_per_disk then (DOS33_VTOC_TRACK, - 1) else (t2, d2))"

definition alloc_step :: "nat \<Rightarrow> int \<Rightarrow> fs_state \<Rightarrow> int \<times> int \<Rightarrow> (int \<times> int + int \<times> int \<times> int) option" where
  "alloc_step s tracks_per_disk fs = (\<lambda>(t, dir).
     if t < 0 then None
     else do {
       f \<leftarrow> find_in_track s (nat t) fs;
       (case f of Some sec \<Rightarrow> Some (Inr (t, sec, dir))
        | None \<Rightarrow> Some (Inl (next_track tracks_per_disk (t, dir)))) })"

definition dos33_allocate_sector :: "nat \<Rightarrow> nat \<Rightarrow> fs_state \<Rightarrow> (int \<times> nat \<times> nat \<times> fs_state) option" where
  "dos33_allocate_sector fuel s fs = do {
     start_track \<leftarrow> vtoc_rd s DOS33_VTOC_LAST_TRACK_ALLOCATED fs;
     d \<leftarrow> vtoc_rd s DOS33_VTOC_ALLOC_DIRECTION fs;
     tracks \<leftarrow> vtoc_rd s DOS33_VTOC_NUM_TRACKS fs;
     let dir = (if d = 0xff then - 1 else uint d);
     (t, sec, dir') \<leftarrow> c_loop fuel (alloc_step s (uint tracks) fs) (uint start_track, dir);
     fs1 \<leftarrow> dos33_mark_blocks_used s (nat t) (nat sec) fs;
     fs2 \<leftarrow> vtoc_wr s DOS33_VTOC_LAST_TRACK_ALLOCATED (word_of_int t) fs1;
     fs3 \<leftarrow> vtoc_wr s DOS33_VTOC_ALLOC_DIRECTION (word_of_int dir') fs2;
     fs4 \<leftarrow> write_superblock s fs3;
     Some (0, nat t, nat sec, fs4) }"

section \<open>The volume as a disk and a table\<close>

text \<open>
  A mounted volume: its superblock points to a ramdisk and to 256 bytes of \<open>vtoc_list\<close>.  The
  proofs see a volume as the list of bytes on its device and the list of bytes of its VTOC.
\<close>

definition vol_ok :: "nat \<Rightarrow> fs_state \<Rightarrow> bool" where
  "vol_ok s fs \<longleftrightarrow> s < length (superblock_table fs) \<and>
     (\<exists>p i. sb_private (superblock_table fs ! s) = Some p \<and> p + 256 \<le> length (vtoc_list fs)
        \<and> sb_block (superblock_table fs ! s) = Some i \<and> i < length (block_devs fs)
        \<and> bd_ops (block_devs fs ! i) = Ramdisk_Ops \<and> bd_start (block_devs fs ! i) = 0
        \<and> 256 \<le> bd_length (block_devs fs ! i))
     \<and> sb_ops (superblock_table fs ! s) = Dos33_Sb_Ops"

definition vol_off :: "nat \<Rightarrow> fs_state \<Rightarrow> nat" where
  "vol_off s fs = the (sb_private (superblock_table fs ! s))"

definition vol_dev :: "nat \<Rightarrow> fs_state \<Rightarrow> nat" where
  "vol_dev s fs = the (sb_block (superblock_table fs ! s))"

definition vtoc_of :: "nat \<Rightarrow> fs_state \<Rightarrow> bytes" where
  "vtoc_of s fs = take 256 (drop (vol_off s fs) (vtoc_list fs))"

definition put_vtoc :: "nat \<Rightarrow> bytes \<Rightarrow> fs_state \<Rightarrow> fs_state" where
  "put_vtoc s v fs = fs\<lparr>vtoc_list := take (vol_off s fs) (vtoc_list fs) @ v
     @ drop (vol_off s fs + 256) (vtoc_list fs)\<rparr>"

definition disk_of :: "nat \<Rightarrow> fs_state \<Rightarrow> bytes" where
  "disk_of s fs = bd_data (block_devs fs ! vol_dev s fs)"

definition put_disk :: "nat \<Rightarrow> bytes \<Rightarrow> fs_state \<Rightarrow> fs_state" where
  "put_disk s d fs = fs\<lparr>block_devs := (block_devs fs)[vol_dev s fs :=
     (block_devs fs ! vol_dev s fs)\<lparr>bd_data := d\<rparr>]\<rparr>"

definition free_count :: "nat \<Rightarrow> fs_state \<Rightarrow> nat" where
  "free_count s fs = sb_blocks_free (superblock_table fs ! s)"

text \<open>Both projections are lenses.\<close>

lemma vol_offD: "vol_ok s fs \<Longrightarrow> vol_off s fs + 256 \<le> length (vtoc_list fs)"
  by (auto simp: vol_ok_def vol_off_def)

lemma vol_devD: "vol_ok s fs \<Longrightarrow> vol_dev s fs < length (block_devs fs)"
  by (auto simp: vol_ok_def vol_dev_def)

lemma length_vtoc_of [simp]: "vol_ok s fs \<Longrightarrow> length (vtoc_of s fs) = 256"
  using vol_offD[of s fs] by (simp add: vtoc_of_def)

lemma vol_off_put [simp]: "vol_off s (put_vtoc s v fs) = vol_off s fs" "vol_off s (put_disk s d fs) = vol_off s fs"
  by (simp_all add: vol_off_def put_vtoc_def put_disk_def)

lemma vol_dev_put [simp]: "vol_dev s (put_vtoc s v fs) = vol_dev s fs" "vol_dev s (put_disk s d fs) = vol_dev s fs"
  by (simp_all add: vol_dev_def put_vtoc_def put_disk_def)

lemma vol_ok_put_vtoc [simp]: "vol_ok s fs \<Longrightarrow> length v = 256 \<Longrightarrow> vol_ok s (put_vtoc s v fs)"
  by (auto simp: vol_ok_def put_vtoc_def vol_off_def)

lemma vol_ok_put_disk [simp]: "vol_ok s fs \<Longrightarrow> vol_ok s (put_disk s d fs)"
  by (auto simp: vol_ok_def put_disk_def vol_dev_def)

lemma vtoc_of_put_vtoc [simp]: "vol_ok s fs \<Longrightarrow> length v = 256 \<Longrightarrow> vtoc_of s (put_vtoc s v fs) = v"
  using vol_offD[of s fs] by (simp add: vtoc_of_def) (simp add: put_vtoc_def)

lemma disk_of_put_disk [simp]: "vol_ok s fs \<Longrightarrow> disk_of s (put_disk s d fs) = d"
  using vol_devD[of s fs] by (simp add: disk_of_def) (simp add: put_disk_def)

lemma disk_of_put_vtoc [simp]: "disk_of s (put_vtoc s v fs) = disk_of s fs"
  by (simp add: disk_of_def) (simp add: put_vtoc_def)

lemma vtoc_of_put_disk [simp]: "vtoc_of s (put_disk s d fs) = vtoc_of s fs"
  by (simp add: vtoc_of_def) (simp add: put_disk_def)

text \<open>The update of the counters in the superblock.\<close>

definition put_counts :: "nat \<Rightarrow> nat \<Rightarrow> nat \<Rightarrow> fs_state \<Rightarrow> fs_state" where
  "put_counts s b f fs =
     sb_set s ((superblock_table fs ! s)\<lparr>sb_blocks := b, sb_blocks_free := f\<rparr>) fs"

lemma put_counts_proj [simp]:
  assumes "vol_ok s fs"
  shows "vol_ok s (put_counts s b f fs)" "vtoc_of s (put_counts s b f fs) = vtoc_of s fs"
    "disk_of s (put_counts s b f fs) = disk_of s fs" "free_count s (put_counts s b f fs) = f"
  using assms
  by (auto simp: vol_ok_def put_counts_def sb_set_def vtoc_of_def disk_of_def vol_off_def vol_dev_def free_count_def)

lemma free_count_put [simp]:
  "free_count s (put_vtoc s v fs) = free_count s fs" "free_count s (put_disk s d fs) = free_count s fs"
  by (simp_all add: free_count_def put_vtoc_def put_disk_def)

text \<open>The accesses of the code in these terms.\<close>

lemma vtoc_rd_eq: "vol_ok s fs \<Longrightarrow> i < 256 \<Longrightarrow> vtoc_rd s i fs = Some (vtoc_of s fs ! i)"
  by (auto simp: vol_ok_def vtoc_rd_def sb_get_def vtoc_of_def vol_off_def)

lemma vtoc_wr_eq:
  assumes "vol_ok s fs" "i < 256"
  shows "vtoc_wr s i v fs = Some (put_vtoc s ((vtoc_of s fs)[i := v]) fs)"
proof -
  obtain p where p: "sb_private (superblock_table fs ! s) = Some p" "p + 256 \<le> length (vtoc_list fs)"
    "s < length (superblock_table fs)" using assms(1) by (auto simp: vol_ok_def)
  have "(vtoc_list fs)[p + i := v] = take p (vtoc_list fs) @ (take 256 (drop p (vtoc_list fs)))[i := v]
      @ drop (p + 256) (vtoc_list fs)"
    by (rule nth_equalityI) (use p(2) assms(2) in \<open>auto simp: nth_append nth_list_update\<close>)
  then show ?thesis using p assms(2)
    by (simp add: vtoc_wr_def sb_get_def put_vtoc_def vtoc_of_def vol_off_def)
qed

interpretation disk: sectors "blk_valid 256" "blk_get 256" "blk_put 256" 256
proof
  fix d a c and b :: bytes
  assume v: "blk_valid 256 d a"
  then show "length (blk_get 256 d a) = 256" by (simp add: blk_valid_def blk_get_def)
  assume l: "length b = 256"
  show "blk_valid 256 (blk_put 256 a b d) c \<longleftrightarrow> blk_valid 256 d c"
    using length_blk_put[OF v l] by (simp add: blk_valid_def)
  show "blk_get 256 (blk_put 256 a b d) a = b"
    using v l by (simp add: blk_get_def blk_put_def blk_valid_def)
  assume c: "blk_valid 256 d c" "a \<noteq> c"
  then have "c * 256 + 256 \<le> a * 256 \<or> a * 256 + 256 \<le> c * 256" by linarith
  then show "blk_get 256 (blk_put 256 a b d) c = blk_get 256 d c"
    using take_drop_spliced_other[of "a * 256" b d "c * 256" 256] v c(1) l
    by (simp add: blk_get_def blk_put_def blk_valid_def)
qed

text \<open>Sector numbers, and the device operations on them.\<close>

definition secno :: "nat \<Rightarrow> nat \<Rightarrow> nat" where
  "secno t sec = t * 16 + sec"

lemma ts_secno: "ts t sec = secno t sec * 256"
  by (simp add: ts_def secno_def)

lemma secno_inj: "sec < 16 \<Longrightarrow> sec' < 16 \<Longrightarrow> secno t sec = secno t' sec' \<longleftrightarrow> t = t' \<and> sec = sec'"
  by (simp add: secno_def) presburger

lemma dos_read_eq:
  assumes "vol_ok s fs" "blk_valid 256 (disk_of s fs) k"
  shows "dos_read s (k * 256) dest fs = Some (copy_in dest (blk_get 256 (disk_of s fs) k))"
  using assms
  by (auto simp: vol_ok_def dos_read_def sb_get_def block_read_def ramdisk_read_def disk_of_def vol_dev_def
      blk_valid_def slice_eq blk_get_def)

lemma dos_write_eq:
  assumes "vol_ok s fs" "blk_valid 256 (disk_of s fs) k" "length b = 256"
  shows "dos_write s (k * 256) b fs = Some (put_disk s (blk_put 256 k b (disk_of s fs)) fs)"
  using assms
  by (auto simp: vol_ok_def dos_write_def sb_get_def block_write_def ramdisk_write_def disk_of_def vol_dev_def
      blk_valid_def slice_eq splice_eq blk_put_def put_disk_def)

section \<open>The map of free sectors\<close>

definition vtoc_valid :: "bytes \<Rightarrow> nat \<times> nat \<Rightarrow> bool" where
  "vtoc_valid v = (\<lambda>(t, sec). length v = 256 \<and> t < 50 \<and> sec < 16)"

definition free_bit :: "bytes \<Rightarrow> nat \<times> nat \<Rightarrow> bool" where
  "free_bit v = (\<lambda>(t, sec). if sec < 8 then bit (v ! (57 + t * 4)) sec else bit (v ! (56 + t * 4)) (sec - 8))"

definition bit_pos :: "nat \<times> nat \<Rightarrow> nat \<times> nat" where
  "bit_pos = (\<lambda>(t, sec). if sec < 8 then (57 + t * 4, sec) else (56 + t * 4, sec - 8))"

definition mark_bit :: "nat \<times> nat \<Rightarrow> bytes \<Rightarrow> bytes" where
  "mark_bit i v = (let (k, b) = bit_pos i in v[k := v ! k OR push_bit b 1])"

definition clear_bit :: "nat \<times> nat \<Rightarrow> bytes \<Rightarrow> bytes" where
  "clear_bit i v = (let (k, b) = bit_pos i in v[k := v ! k AND NOT (push_bit b 1)])"

lemma free_bit_pos: "free_bit v i = (let (k, b) = bit_pos i in bit (v ! k) b)"
  by (cases i) (simp add: free_bit_def bit_pos_def)

lemma bit_pos_bound: "vtoc_valid v i \<Longrightarrow> bit_pos i = (k, b) \<Longrightarrow> 56 \<le> k \<and> k < length v \<and> b < 8"
  by (cases i) (auto simp: vtoc_valid_def bit_pos_def split: if_splits)

lemma bit_pos_inj:
  assumes "vtoc_valid v i" "vtoc_valid v j"
  shows "bit_pos i = bit_pos j \<longleftrightarrow> i = j"
proof -
  obtain t sec t' sec' where "i = (t, sec)" "j = (t', sec')" by (cases i, cases j)
  with assms show ?thesis
    by (cases "sec < 8"; cases "sec' < 8") (auto simp: vtoc_valid_def bit_pos_def, presburger+)
qed

interpretation vtoc_map: bitmap vtoc_valid free_bit mark_bit clear_bit
proof
  fix v i j
  assume v: "vtoc_valid v i"
  obtain k b where k: "bit_pos i = (k, b)" by (cases "bit_pos i")
  show "vtoc_valid (mark_bit i v) j \<longleftrightarrow> vtoc_valid v j" "vtoc_valid (clear_bit i v) j \<longleftrightarrow> vtoc_valid v j"
    by (simp_all add: vtoc_valid_def mark_bit_def clear_bit_def k)
  assume j: "vtoc_valid v j"
  obtain k' b' where k': "bit_pos j = (k', b')" by (cases "bit_pos j")
  have eq: "(k, b) = (k', b') \<longleftrightarrow> i = j" using bit_pos_inj[OF v j] k k' by simp
  note bounds = bit_pos_bound[OF v k] bit_pos_bound[OF j k']
  show "free_bit (mark_bit i v) j \<longleftrightarrow> i = j \<or> free_bit v j"
    using eq bounds by (cases "k = k'") (auto simp: free_bit_pos mark_bit_def k k' word_bit_simps)
  show "free_bit (clear_bit i v) j \<longleftrightarrow> i \<noteq> j \<and> free_bit v j"
    using eq bounds by (cases "k = k'") (auto simp: free_bit_pos clear_bit_def k k' word_bit_simps)
qed

definition free_sectors :: "bytes \<Rightarrow> (nat \<times> nat) set" where
  "free_sectors v = {(t, sec). t < unat (v ! 0x34) \<and> sec < 16 \<and> free_bit v (t, sec)}"

lemma clear_bit_low: "vtoc_valid v i \<Longrightarrow> k < 56 \<Longrightarrow> clear_bit i v ! k = v ! k"
  using bit_pos_bound[of v i] by (auto simp: clear_bit_def Let_def split: prod.splits)

lemma mark_bit_low: "vtoc_valid v i \<Longrightarrow> k < 56 \<Longrightarrow> mark_bit i v ! k = v ! k"
  using bit_pos_bound[of v i] by (auto simp: mark_bit_def Let_def split: prod.splits)

lemma free_sectors_members:
  "length v = 256 \<Longrightarrow> unat (v ! 0x34) \<le> 50 \<Longrightarrow>
     free_sectors v = {i \<in> vtoc_map.members v. fst i < unat (v ! 0x34)}"
  by (auto simp: free_sectors_def vtoc_map.members_def vtoc_valid_def)

lemma length_mark_bit [simp]: "length (mark_bit i v) = length v" "length (clear_bit i v) = length v"
  by (simp_all add: mark_bit_def clear_bit_def Let_def split: prod.splits)

lemma free_sectors_mark:
  assumes "vtoc_valid v (t, sec)" "t < unat (v ! 0x34)" "unat (v ! 0x34) \<le> 50"
  shows "free_sectors (mark_bit (t, sec) v) = insert (t, sec) (free_sectors v)"
    and "free_sectors (clear_bit (t, sec) v) = free_sectors v - {(t, sec)}"
proof -
  have v: "length v = 256" using assms(1) by (simp add: vtoc_valid_def)
  show "free_sectors (mark_bit (t, sec) v) = insert (t, sec) (free_sectors v)"
    using vtoc_map.members_mark[OF assms(1)] mark_bit_low[OF assms(1), of "0x34"] assms v
    by (auto simp: free_sectors_members)
  show "free_sectors (clear_bit (t, sec) v) = free_sectors v - {(t, sec)}"
    using vtoc_map.members_clear[OF assms(1)] clear_bit_low[OF assms(1), of "0x34"] assms v
    by (auto simp: free_sectors_members)
qed

text \<open>The nibble table counts ones, and the scan for the lowest one finds it.\<close>

lemma byte_cases:
  assumes "list_all (\<lambda>n. P (of_nat n)) [0..<256]"
  shows "P (b :: byte)"
proof -
  have "unat b \<in> set [0..<256]" using unat8_lt[of b] by simp
  with assms have "P (of_nat (unat b))" unfolding list_all_iff by blast
  then show ?thesis by simp
qed

lemma count_byte_filter: "count_byte b = length (filter (bit b) [0..<8])"
  by (rule byte_cases) code_simp

lemma count_byte_card: "count_byte b = card {i. i < 8 \<and> bit b i}"
proof -
  have "{i. i < 8 \<and> bit b i} = set (filter (bit b) [0..<8])" by auto
  then show ?thesis using distinct_card[of "filter (bit b) [0..<8]"] by (simp add: count_byte_filter)
qed

lemma find_first_one_all:
  "b = 0 \<or> (\<exists>i \<in> set [0..<8]. find_first_one b = Some (int i) \<and> bit b i)"
  by (rule byte_cases) code_simp

lemma find_first_one_found: "b \<noteq> 0 \<Longrightarrow> \<exists>i < 8. find_first_one b = Some (int i) \<and> bit b i"
  using find_first_one_all[of b] by auto

section \<open>The operations on the map\<close>

text \<open>The free sectors of one track are those of its two bytes.\<close>

lemma track_count:
  "count_byte (v ! (56 + t * 4)) + count_byte (v ! (57 + t * 4)) = card {sec. sec < 16 \<and> free_bit v (t, sec)}"
proof -
  let ?lo = "{i. i < 8 \<and> bit (v ! (57 + t * 4)) i}" and ?hi = "{i. i < 8 \<and> bit (v ! (56 + t * 4)) i}"
  have "{sec. sec < 16 \<and> free_bit v (t, sec)} = ?lo \<union> (\<lambda>i. i + 8) ` ?hi"
  proof (intro set_eqI iffI)
    fix sec
    assume "sec \<in> {sec. sec < 16 \<and> free_bit v (t, sec)}"
    then show "sec \<in> ?lo \<union> (\<lambda>i. i + 8) ` ?hi"
      by (cases "sec < 8") (auto simp: free_bit_def image_iff intro!: exI[of _ "sec - 8"])
  qed (auto simp: free_bit_def)
  moreover have "card (?lo \<union> (\<lambda>i. i + 8) ` ?hi) = card ?lo + card ((\<lambda>i. i + 8) ` ?hi)"
    by (rule card_Un_disjoint) auto
  moreover have "card ((\<lambda>i. i + 8) ` ?hi) = card ?hi" by (rule card_image) (simp add: inj_on_def)
  ultimately show ?thesis by (simp add: count_byte_card)
qed

lemma card_below_Suc:
  "finite A \<Longrightarrow> (\<And>x. x \<in> A \<Longrightarrow> snd x < (16 :: nat)) \<Longrightarrow>
     card {x \<in> A. fst x < Suc t} = card {x \<in> A. fst x < t} + card {b. (t, b) \<in> A}"
proof -
  assume A: "finite A" "\<And>x. x \<in> A \<Longrightarrow> snd x < 16"
  have "{x \<in> A. fst x < Suc t} = {x \<in> A. fst x < t} \<union> Pair t ` {b. (t, b) \<in> A}"
    by (auto simp: image_iff less_Suc_eq)
  moreover have "finite {b. (t, b) \<in> A}" using A(2) by (auto intro!: finite_subset[of _ "{..<16}"])
  moreover have "card (Pair t ` {b. (t, b) \<in> A}) = card {b. (t, b) \<in> A}"
    by (rule card_image) (simp add: inj_on_def)
  moreover have "{x \<in> A. fst x < t} \<inter> Pair t ` {b. (t, b) \<in> A} = {}" by auto
  ultimately show ?thesis using A(1) by (simp add: card_Un_disjoint)
qed

lemma finite_free_sectors [simp]: "finite (free_sectors v)"
  by (rule finite_subset[of _ "{..<256} \<times> {..<16}"])
    (auto simp: free_sectors_def intro: less_trans[OF _ unat8_lt])

lemma free_sectors_snd: "x \<in> free_sectors v \<Longrightarrow> snd x < 16"
  by (auto simp: free_sectors_def)

lemma update_loop:
  assumes "vol_ok s fs" "i + n \<le> unat (vtoc_of s fs ! 0x34)" "unat (vtoc_of s fs ! 0x34) \<le> 50"
    and "k = card {x \<in> free_sectors (vtoc_of s fs). fst x < i}"
  shows "c_for n i (\<lambda>i n. do { b0 \<leftarrow> vtoc_rd s (DOS33_VTOC_FREE_BITMAPS + i * 4) fs;
                   b1 \<leftarrow> vtoc_rd s (DOS33_VTOC_FREE_BITMAPS + i * 4 + 1) fs;
                   Some (n + count_byte b0 + count_byte b1) }) k
    = Some (card {x \<in> free_sectors (vtoc_of s fs). fst x < i + n})"
  using assms(2,4)
proof (induction n arbitrary: i k)
  case (Suc n)
  let ?v = "vtoc_of s fs"
  have i: "i < unat (?v ! 0x34)" "i < 50" using Suc.prems(1) assms(3) by auto
  have "{b. (i, b) \<in> free_sectors ?v} = {sec. sec < 16 \<and> free_bit ?v (i, sec)}"
    using i by (auto simp: free_sectors_def)
  then have "card {x \<in> free_sectors ?v. fst x < Suc i}
      = k + (count_byte (?v ! (56 + i * 4)) + count_byte (?v ! (57 + i * 4)))"
    using card_below_Suc[OF finite_free_sectors, of ?v i] Suc.prems(2) track_count[of ?v i] free_sectors_snd
    by (simp only: add.commute mem_Collect_eq)
  then show ?case using Suc.IH[of "Suc i"] Suc.prems(1) i assms(1) by (simp add: vtoc_rd_eq add.assoc)
qed simp

lemma update_blocks_free_eq:
  assumes "vol_ok s fs" "unat (vtoc_of s fs ! 0x34) \<le> 50"
  shows "dos33_update_blocks_free s fs = Some (put_counts s
    (unat (vtoc_of s fs ! 0x34) * unat (vtoc_of s fs ! 0x35)) (card (free_sectors (vtoc_of s fs))) fs)"
proof -
  have "{x \<in> free_sectors (vtoc_of s fs). fst x < unat (vtoc_of s fs ! 0x34)} = free_sectors (vtoc_of s fs)"
    by (auto simp: free_sectors_def)
  then show ?thesis
    using assms update_loop[OF assms(1), of 0 "unat (vtoc_of s fs ! 0x34)" 0]
    by (simp add: dos33_update_blocks_free_def vtoc_rd_eq put_counts_def sb_get_def vol_ok_def)
qed

definition vtoc_ok :: "bytes \<Rightarrow> bool" where
  "vtoc_ok v \<longleftrightarrow> length v = 256 \<and> unat (v ! 0x34) \<le> 50"

text \<open>Recomputing the counters after a change of the table.\<close>

definition recount :: "nat \<Rightarrow> bytes \<Rightarrow> fs_state \<Rightarrow> fs_state" where
  "recount s v fs = put_counts s (unat (v ! 0x34) * unat (v ! 0x35)) (card (free_sectors v)) (put_vtoc s v fs)"

lemma recount_proj [simp]:
  assumes "vol_ok s fs" "length v = 256"
  shows "vol_ok s (recount s v fs)" "vtoc_of s (recount s v fs) = v"
    "disk_of s (recount s v fs) = disk_of s fs" "free_count s (recount s v fs) = card (free_sectors v)"
  using assms by (simp_all add: recount_def)

lemma mark_blocks_free_eq:
  assumes "vol_ok s fs" "vtoc_ok (vtoc_of s fs)" "t < unat (vtoc_of s fs ! 0x34)" "sec < 16"
  shows "dos33_mark_blocks_free s t sec fs = Some (recount s (mark_bit (t, sec) (vtoc_of s fs)) fs)"
    and "dos33_mark_blocks_used s t sec fs = Some (recount s (clear_bit (t, sec) (vtoc_of s fs)) fs)"
proof -
  let ?v = "vtoc_of s fs"
  have v: "vtoc_valid ?v (t, sec)" "length ?v = 256" "t < 50" using assms by (auto simp: vtoc_ok_def vtoc_valid_def)
  have low: "mark_bit (t, sec) ?v ! 0x34 = ?v ! 0x34" "clear_bit (t, sec) ?v ! 0x34 = ?v ! 0x34"
    using v by (simp_all add: mark_bit_low clear_bit_low)
  show "dos33_mark_blocks_free s t sec fs = Some (recount s (mark_bit (t, sec) ?v) fs)"
    using assms v low update_blocks_free_eq[of s "put_vtoc s (mark_bit (t, sec) ?v) fs"]
    by (auto simp: dos33_mark_blocks_free_def vtoc_rd_eq vtoc_wr_eq mark_bit_def bit_pos_def recount_def
        vtoc_ok_def add.commute mult.commute)
  show "dos33_mark_blocks_used s t sec fs = Some (recount s (clear_bit (t, sec) ?v) fs)"
    using assms v low update_blocks_free_eq[of s "put_vtoc s (clear_bit (t, sec) ?v) fs"]
    by (auto simp: dos33_mark_blocks_used_def vtoc_rd_eq vtoc_wr_eq clear_bit_def bit_pos_def recount_def
        vtoc_ok_def add.commute mult.commute)
qed

text \<open>
  \<open>dos33_mark_blocks_used\<close> and \<open>dos33_mark_blocks_free\<close> implement removal from and insertion
  into the set of free sectors; the free count of the superblock becomes the size of that set,
  and neither touches the disk.
\<close>

theorem mark_blocks_refine:
  assumes "vol_ok s fs" and "vtoc_ok (vtoc_of s fs)" and "t < unat (vtoc_of s fs ! 0x34)" and "sec < 16"
  shows "\<exists>used freed. dos33_mark_blocks_used s t sec fs = Some used \<and> dos33_mark_blocks_free s t sec fs = Some freed
    \<and> free_sectors (vtoc_of s used) = free_sectors (vtoc_of s fs) - {(t, sec)}
    \<and> free_sectors (vtoc_of s freed) = insert (t, sec) (free_sectors (vtoc_of s fs))
    \<and> free_count s used = card (free_sectors (vtoc_of s used))
    \<and> free_count s freed = card (free_sectors (vtoc_of s freed))
    \<and> disk_of s used = disk_of s fs \<and> disk_of s freed = disk_of s fs"
proof -
  have "vtoc_valid (vtoc_of s fs) (t, sec)" using assms by (simp add: vtoc_valid_def vtoc_ok_def)
  then show ?thesis
    using mark_blocks_free_eq[OF assms] free_sectors_mark[of "vtoc_of s fs" t sec] assms
    by (simp add: vtoc_ok_def)
qed

section \<open>The allocator\<close>

definition vol_tracks :: "nat \<Rightarrow> fs_state \<Rightarrow> nat" where
  "vol_tracks s fs = unat (vtoc_of s fs ! 0x34)"

lemma uint_tracks: "uint (vtoc_of s fs ! 52) = int (vol_tracks s fs)"
  by (simp add: vol_tracks_def)

lemma free_sectors_track: "(t, sec) \<in> free_sectors (vtoc_of s fs) \<Longrightarrow> t < vol_tracks s fs \<and> sec < 16"
  by (simp add: free_sectors_def vol_tracks_def)

lemma find_in_track_eq:
  assumes "vol_ok s fs" "vtoc_ok (vtoc_of s fs)" "t < unat (vtoc_of s fs ! 0x34)"
  shows "(\<exists>sec < 16. find_in_track s t fs = Some (Some (int sec)) \<and> (t, sec) \<in> free_sectors (vtoc_of s fs))
    \<or> (find_in_track s t fs = Some None \<and> (\<forall>sec. (t, sec) \<notin> free_sectors (vtoc_of s fs)))"
proof -
  let ?v = "vtoc_of s fs"
  have t: "t < 50" using assms by (simp add: vtoc_ok_def)
  then have rd: "vtoc_rd s (57 + t * 4) fs = Some (?v ! (57 + t * 4))"
    "vtoc_rd s (56 + t * 4) fs = Some (?v ! (56 + t * 4))" using assms(1) by (simp_all add: vtoc_rd_eq)
  consider "?v ! (57 + t * 4) \<noteq> 0" | "?v ! (57 + t * 4) = 0" "?v ! (56 + t * 4) \<noteq> 0"
    | "?v ! (57 + t * 4) = 0" "?v ! (56 + t * 4) = 0" by blast
  then show ?thesis
  proof cases
    case 1
    from find_first_one_found[OF this] obtain i where
      "i < 8" "find_first_one (?v ! (57 + t * 4)) = Some (int i)" "bit (?v ! (57 + t * 4)) i" by blast
    with 1 rd(1) assms(3) show ?thesis
      by (intro disjI1 exI[of _ i]) (simp add: find_in_track_def free_sectors_def free_bit_def)
  next
    case 2
    from find_first_one_found[OF 2(2)] obtain i where
      "i < 8" "find_first_one (?v ! (56 + t * 4)) = Some (int i)" "bit (?v ! (56 + t * 4)) i" by blast
    with 2 rd assms(3) show ?thesis
      by (intro disjI1 exI[of _ "i + 8"]) (simp add: find_in_track_def free_sectors_def free_bit_def)
  next
    case 3
    with rd show ?thesis by (simp add: find_in_track_def free_sectors_def free_bit_def)
  qed
qed

text \<open>The number of rounds until the search, at track \<open>t\<close> in direction \<open>dir\<close>, is at track \<open>f\<close>.\<close>

definition search_dist :: "int \<Rightarrow> int \<Rightarrow> int \<times> int \<Rightarrow> int" where
  "search_dist T f = (\<lambda>(t, dir).
     if dir = 1 then (if t \<le> f then f - t else if f \<le> 17 then T - t + (17 - f) else T - t + 18 + (f - 17))
     else (if f \<le> t then t - f else if 17 \<le> f then t + 1 + (f - 17) else t + 1 + (T - 17) + (17 - f)))"

definition search_ok :: "int \<Rightarrow> int \<times> int \<Rightarrow> bool" where
  "search_ok T = (\<lambda>(t, dir). 0 \<le> t \<and> t < T \<and> (dir = 1 \<or> dir = - 1))"

lemma search_progress:
  assumes "17 < T" "0 \<le> f" "f < T" "search_ok T st" "fst st \<noteq> f"
  shows "search_ok T (next_track T st) \<and> search_dist T f (next_track T st) < search_dist T f st"
  using assms by (cases st) (auto simp: search_ok_def search_dist_def next_track_def Let_def)

lemma search_dist_bound:
  "17 < T \<Longrightarrow> 0 \<le> f \<Longrightarrow> f < T \<Longrightarrow> search_ok T st \<Longrightarrow> 0 \<le> search_dist T f st \<and> search_dist T f st \<le> 2 * T"
  by (cases st) (auto simp: search_ok_def search_dist_def)

lemma alloc_search:
  assumes "vol_ok s fs" "vtoc_ok (vtoc_of s fs)" "T = int (vol_tracks s fs)" "17 < T"
    and "(f, g) \<in> free_sectors (vtoc_of s fs)" "search_ok T st" "nat (2 * T) < fuel"
  shows "\<exists>t sec dir. c_loop fuel (alloc_step s T fs) st = Some (int t, int sec, dir)
     \<and> (t, sec) \<in> free_sectors (vtoc_of s fs) \<and> (dir = 1 \<or> dir = - 1)"
proof -
  have f: "0 \<le> int f" "int f < T" using free_sectors_track[OF assms(5)] assms(3) by simp_all
  define Q where "Q = (\<lambda>r. \<exists>t sec dir. r = (int t, int sec, dir) \<and> (t, sec) \<in> free_sectors (vtoc_of s fs)
    \<and> (dir = (1 :: int) \<or> dir = - 1))"
  have "\<exists>r. c_loop fuel (alloc_step s T fs) st = Some r \<and> Q r"
  proof (rule c_loop_total[where I = "search_ok T" and m = "\<lambda>st. nat (search_dist T (int f) st)"])
    show "search_ok T st" by fact
    show "nat (search_dist T (int f) st) < fuel"
      using search_dist_bound[OF assms(4) f assms(6)] assms(7) by linarith
    fix st assume ok: "search_ok T st"
    obtain t dir where st: "st = (int t, dir)" and t: "t < vol_tracks s fs" "dir = 1 \<or> dir = - 1"
      using ok assms(3) that[of "nat (fst st)" "snd st"] by (cases st) (auto simp: search_ok_def)
    from find_in_track_eq[OF assms(1,2) t(1)[unfolded vol_tracks_def]]
    show "(\<exists>st'. alloc_step s T fs st = Some (Inl st') \<and> search_ok T st' \<and>
        nat (search_dist T (int f) st') < nat (search_dist T (int f) st)) \<or>
        (\<exists>r. alloc_step s T fs st = Some (Inr r) \<and> Q r)"
    proof
      assume "\<exists>sec<16. find_in_track s t fs = Some (Some (int sec)) \<and> (t, sec) \<in> free_sectors (vtoc_of s fs)"
      then show ?thesis using st t(2) by (auto simp: alloc_step_def Q_def)
    next
      assume none: "find_in_track s t fs = Some None \<and> (\<forall>sec. (t, sec) \<notin> free_sectors (vtoc_of s fs))"
      with assms(5) st have "fst st \<noteq> int f" by auto
      from search_progress[OF assms(4) f ok this] search_dist_bound[OF assms(4) f, of "next_track T st"] none st
      show ?thesis by (auto simp: alloc_step_def)
    qed
  qed
  then show ?thesis by (auto simp: Q_def)
qed

text \<open>A volume the allocator can work on: more than 17 tracks and a sane allocation state.\<close>

definition vol_ready :: "nat \<Rightarrow> fs_state \<Rightarrow> bool" where
  "vol_ready s fs \<longleftrightarrow> vol_ok s fs \<and> 17 < vol_tracks s fs \<and> vol_tracks s fs \<le> 50
     \<and> unat (vtoc_of s fs ! 0x30) < vol_tracks s fs \<and> vtoc_of s fs ! 0x31 \<in> {1, 0xff}
     \<and> length (disk_of s fs) = 4096 * vol_tracks s fs"

lemma vol_readyD:
  assumes "vol_ready s fs"
  shows "vol_ok s fs" "vtoc_ok (vtoc_of s fs)"
  using assms by (simp_all add: vol_ready_def vtoc_ok_def vol_tracks_def)

lemma vol_ready_start: "vol_ready s fs \<Longrightarrow> uint (vtoc_of s fs ! 48) < int (vol_tracks s fs)"
  by (simp add: vol_ready_def) (metis nat_uint_eq nat_less_iff uint_nonnegative)

lemma vol_ready_valid: "vol_ready s fs \<Longrightarrow> t < vol_tracks s fs \<Longrightarrow> sec < 16 \<Longrightarrow> blk_valid 256 (disk_of s fs) (secno t sec)"
  by (simp add: vol_ready_def blk_valid_def secno_def)

text \<open>The volume after the allocation of \<open>(t, sec)\<close>.\<close>

definition after_alloc :: "nat \<Rightarrow> nat \<times> nat \<Rightarrow> fs_state \<Rightarrow> fs_state \<Rightarrow> bool" where
  "after_alloc s a fs fs' \<longleftrightarrow> vol_ready s fs' \<and> vol_tracks s fs' = vol_tracks s fs
     \<and> free_sectors (vtoc_of s fs') = free_sectors (vtoc_of s fs) - {a}
     \<and> free_count s fs' = card (free_sectors (vtoc_of s fs'))
     \<and> blk_get 256 (disk_of s fs') (secno 17 0) = vtoc_of s fs'
     \<and> (\<forall>k. k \<noteq> secno 17 0 \<longrightarrow> blk_valid 256 (disk_of s fs) k \<longrightarrow>
           blk_get 256 (disk_of s fs') k = blk_get 256 (disk_of s fs) k)"

lemma write_superblock_eq:
  assumes "vol_ok s fs" "blk_valid 256 (disk_of s fs) (secno 17 0)"
  shows "write_superblock s fs = Some (put_disk s (blk_put 256 (secno 17 0) (vtoc_of s fs) (disk_of s fs)) fs)"
proof -
  have "dos_write s (ts 17 0) (vtoc_of s fs) fs
      = Some (put_disk s (blk_put 256 (secno 17 0) (vtoc_of s fs) (disk_of s fs)) fs)"
    unfolding ts_secno by (rule dos_write_eq) (use assms in simp_all)
  with assms(1) show ?thesis
    by (auto simp: write_superblock_def dos33fs_write_superblock_def sb_get_def vol_ok_def slice_eq
        vtoc_of_def vol_off_def)
qed

lemma free_sectors_upd:
  "length v = 256 \<Longrightarrow> k = 0x30 \<or> k = 0x31 \<Longrightarrow> free_sectors (v[k := x]) = free_sectors v"
  by (auto simp: free_sectors_def free_bit_def nth_list_update)

lemma allocate_finish:
  assumes "vol_ready s fs" "(t, sec) \<in> free_sectors (vtoc_of s fs)" "dir = 1 \<or> dir = - 1"
  shows "\<exists>fs'. do {
     fs1 \<leftarrow> dos33_mark_blocks_used s t sec fs;
     fs2 \<leftarrow> vtoc_wr s DOS33_VTOC_LAST_TRACK_ALLOCATED (word_of_int (int t)) fs1;
     fs3 \<leftarrow> vtoc_wr s DOS33_VTOC_ALLOC_DIRECTION (word_of_int dir) fs2;
     write_superblock s fs3 } = Some fs' \<and> after_alloc s (t, sec) fs fs'"
proof -
  let ?v = "vtoc_of s fs"
  note ok = vol_readyD[OF assms(1)]
  have t: "t < unat (?v ! 0x34)" "sec < 16" "t < 50"
    using assms(1,2) by (auto simp: free_sectors_def vol_ready_def vol_tracks_def)
  have v: "vtoc_valid ?v (t, sec)" using ok t by (simp add: vtoc_valid_def vtoc_ok_def)
  define v1 where "v1 = clear_bit (t, sec) ?v"
  define v3 where "v3 = v1[0x30 := word_of_int (int t), 0x31 := word_of_int dir]"
  define fs1 where "fs1 = recount s v1 fs"
  define fs3 where "fs3 = put_vtoc s v3 (put_vtoc s (v1[0x30 := word_of_int (int t)]) fs1)"
  have l: "length v1 = 256" "length v3 = 256" using ok by (simp_all add: v1_def v3_def)
  have ok1: "vol_ok s fs1" "vtoc_of s fs1 = v1" using ok l by (simp_all add: fs1_def)
  have ok3: "vol_ok s fs3" "vtoc_of s fs3 = v3" "disk_of s fs3 = disk_of s fs"
    "free_count s fs3 = card (free_sectors v1)"
    using ok ok1 l by (simp_all add: fs3_def) (simp_all add: fs1_def l ok)
  have low: "v1 ! k = ?v ! k" if "k < 56" for k using v that by (simp add: v1_def clear_bit_low)
  have fr: "free_sectors v3 = free_sectors ?v - {(t, sec)}"
    using free_sectors_mark(2)[OF v t(1)] ok l by (simp add: v3_def free_sectors_upd v1_def vtoc_ok_def)
  have fr1: "free_sectors v3 = free_sectors v1" using l by (simp add: v3_def free_sectors_upd)
  have b: "v3 ! 0x34 = ?v ! 0x34" "v3 ! 0x30 = word_of_int (int t)" "v3 ! 0x31 = word_of_int dir"
    using l low by (simp_all add: v3_def)
  have bv: "blk_valid 256 (disk_of s fs) (secno 17 0)"
    using vol_ready_valid[OF assms(1), of 17 0] assms(1) by (simp add: vol_ready_def)
  define fs4 where "fs4 = put_disk s (blk_put 256 (secno 17 0) v3 (disk_of s fs)) fs3"
  have run: "do {
     fs1 \<leftarrow> dos33_mark_blocks_used s t sec fs;
     fs2 \<leftarrow> vtoc_wr s DOS33_VTOC_LAST_TRACK_ALLOCATED (word_of_int (int t)) fs1;
     fs3 \<leftarrow> vtoc_wr s DOS33_VTOC_ALLOC_DIRECTION (word_of_int dir) fs2;
     write_superblock s fs3 } = Some fs4"
    using mark_blocks_free_eq(2)[OF ok t(1,2)] ok1 l write_superblock_eq[OF ok3(1)] ok3 bv
    by (simp add: v1_def[symmetric] fs1_def[symmetric] vtoc_wr_eq fs3_def v3_def fs4_def)
  have "unat (word_of_int (int t) :: byte) = t" using t(3) by (simp add: unat_of_nat take_bit_eq_mod)
  moreover have "word_of_int dir \<in> {1, 0xff :: byte}" using assms(3) by auto
  ultimately have "after_alloc s (t, sec) fs fs4"
    using ok3 l b fr fr1 bv t assms(1)
    by (simp add: after_alloc_def vol_ready_def vol_tracks_def fs4_def disk.get_put disk.get_put_other)
  with run show ?thesis by blast
qed

text \<open>
  C6: On a volume with a free sector the allocator ends within twice as many rounds as there are
  tracks; it returns a sector that was free, takes exactly that one from the free map, brings the
  count up to date and writes the table to track 17, sector 0, leaving every other sector of the
  disk alone and the volume ready for the next allocation.
\<close>

theorem allocate_sector_finds_free:
  assumes "vol_ready s fs" and "free_sectors (vtoc_of s fs) \<noteq> {}" and "2 * vol_tracks s fs < fuel"
  shows "\<exists>t sec fs'. dos33_allocate_sector fuel s fs = Some (0, t, sec, fs')
    \<and> (t, sec) \<in> free_sectors (vtoc_of s fs) \<and> after_alloc s (t, sec) fs fs'"
proof -
  let ?v = "vtoc_of s fs" and ?T = "int (vol_tracks s fs)"
  note ok = vol_readyD[OF assms(1)]
  obtain f g where fg: "(f, g) \<in> free_sectors ?v" using assms(2) by (metis ex_in_conv prod.exhaust)
  define dir where "dir = (if ?v ! 0x31 = 0xff then - 1 else uint (?v ! 0x31))"
  have d: "dir = 1 \<or> dir = - 1" using assms(1) by (auto simp: dir_def vol_ready_def)
  have "search_ok ?T (int (unat (?v ! 0x30)), dir)"
    using vol_ready_start[OF assms(1)] d by (simp add: search_ok_def)
  moreover have "17 < ?T" "nat (2 * ?T) < fuel" using assms(1,3) by (simp_all add: vol_ready_def)
  ultimately obtain t sec dir' where
    r: "c_loop fuel (alloc_step s ?T fs) (int (unat (?v ! 0x30)), dir) = Some (int t, int sec, dir')"
      "(t, sec) \<in> free_sectors ?v" "dir' = 1 \<or> dir' = - 1"
    using alloc_search[OF ok refl _ fg] by blast
  from allocate_finish[OF assms(1) r(2,3)] r(1,2) ok(1) show ?thesis
    by (auto simp: dos33_allocate_sector_def vtoc_rd_eq dir_def uint_tracks Let_def bind_eq_Some_conv)
qed

text \<open>
  C33: On a full volume \<open>dos33_allocate_sector\<close> does not return: the test for having searched the
  whole disk reports it only when debugging is on.
\<close>

theorem allocate_sector_full_diverges:
  assumes "vol_ready s fs" and "free_sectors (vtoc_of s fs) = {}"
  shows "dos33_allocate_sector fuel s fs = None"
proof -
  let ?v = "vtoc_of s fs" and ?T = "int (vol_tracks s fs)"
  note ok = vol_readyD[OF assms(1)]
  have T: "17 < ?T" using assms(1) by (simp add: vol_ready_def)
  define dir where "dir = (if ?v ! 0x31 = 0xff then - 1 else uint (?v ! 0x31))"
  have d: "dir = 1 \<or> dir = - 1" using assms(1) by (auto simp: dir_def vol_ready_def)
  have st: "search_ok ?T (int (unat (?v ! 0x30)), dir)"
    using vol_ready_start[OF assms(1)] d by (simp add: search_ok_def)
  have "c_loop fuel (alloc_step s ?T fs) (int (unat (?v ! 0x30)), dir) = None"
  proof (rule c_loop_diverges[where I = "search_ok ?T", OF st])
    fix x assume x: "search_ok ?T x"
    obtain t dir' where t: "x = (int t, dir')" "t < vol_tracks s fs"
      using x that[of "nat (fst x)" "snd x"] by (cases x) (auto simp: search_ok_def)
    from find_in_track_eq[OF ok t(2)[unfolded vol_tracks_def]] assms(2) have "find_in_track s t fs = Some None" by auto
    moreover have "search_ok ?T (next_track ?T x)"
      using x T by (auto simp: search_ok_def next_track_def Let_def split: prod.splits)
    ultimately show "\<exists>x'. alloc_step s ?T fs x = Some (Inl x') \<and> search_ok ?T x'"
      using t(1) by (simp add: alloc_step_def)
  qed
  with ok(1) show ?thesis by (simp add: dos33_allocate_sector_def vtoc_rd_eq dir_def uint_tracks Let_def)
qed

section \<open>A volume\<close>

text \<open>An image of 35 tracks whose sectors are zero, mounted, with the sectors of \<open>b\<close> free on track 18.\<close>

definition demo_vtoc :: "byte \<Rightarrow> bytes" where
  "demo_vtoc b = (replicate 256 0)[1 := 17, 2 := 15, 0x30 := 17, 0x31 := 1, 0x34 := 35, 0x35 := 16,
     57 + 18 * 4 := b]"

definition demo_fs :: "bytes \<Rightarrow> byte \<Rightarrow> fs_state" where
  "demo_fs disk b = \<lparr>
     block_devs = (replicate 8 block_dev_zero)[1 := block_dev_zero\<lparr>bd_major := 1, bd_length := length disk,
        bd_capacity := length disk, bd_ops := Ramdisk_Ops, bd_data := disk\<rparr>],
     num_block_devs = 1, minors_allocated = 1,
     superblock_table = (replicate 8 superblock_zero)[0 := superblock_zero\<lparr>sb_valid := True,
        sb_ops := Dos33_Sb_Ops, sb_block := Some 1, sb_private := Some 0, sb_root_dir := 0x110fff\<rparr>],
     vtoc_list = demo_vtoc b @ replicate 256 0, next_vtoc = 1\<rparr>"

lemma demo_proj [simp]:
  "vtoc_of 0 (demo_fs d b) = demo_vtoc b" "disk_of 0 (demo_fs d b) = d"
  "length (demo_vtoc b) = 256"
  by (simp_all add: vtoc_of_def vol_off_def disk_of_def vol_dev_def demo_fs_def demo_vtoc_def)

lemma demo_nth: "demo_vtoc b ! 0x30 = 17" "demo_vtoc b ! 0x31 = 1" "demo_vtoc b ! 0x34 = 35"
  "demo_vtoc b ! 129 = b" "demo_vtoc b ! 1 = 17" "demo_vtoc b ! 2 = 15"
  by (simp_all add: demo_vtoc_def)

lemma demo_vol_ok: "256 \<le> length d \<Longrightarrow> vol_ok 0 (demo_fs d b)"
  by (simp add: vol_ok_def demo_fs_def block_dev_zero_def)

lemma demo_ready: "length d = 143360 \<Longrightarrow> vol_ready 0 (demo_fs d b)"
  by (simp add: vol_ready_def demo_vol_ok vol_tracks_def demo_nth)

lemma demo_free: "bit b 0 \<Longrightarrow> (18, 0) \<in> free_sectors (demo_vtoc b)"
  by (simp add: free_sectors_def free_bit_def demo_nth)

lemma demo_full: "free_sectors (demo_vtoc 0) = {}"
proof -
  have "demo_vtoc 0 ! k = 0" if "56 \<le> k" "k < 256" for k
    using that by (simp add: demo_vtoc_def nth_list_update)
  then show ?thesis by (auto simp: free_sectors_def free_bit_def demo_nth)
qed

lemma mark_blocks_refine_witness:
  "\<exists>used freed. dos33_mark_blocks_used 0 18 0 (demo_fs (replicate 143360 0) 3) = Some used
    \<and> dos33_mark_blocks_free 0 18 0 (demo_fs (replicate 143360 0) 3) = Some freed
    \<and> free_sectors (vtoc_of 0 used) = free_sectors (demo_vtoc 3) - {(18, 0)}"
  using mark_blocks_refine[of 0 "demo_fs (replicate 143360 0) 3" 18 0]
  by (auto simp: demo_vol_ok vtoc_ok_def demo_nth)

lemma allocate_sector_finds_free_witness:
  "\<exists>t sec fs'. dos33_allocate_sector 71 0 (demo_fs (replicate 143360 0) 3) = Some (0, t, sec, fs')
    \<and> free_sectors (vtoc_of 0 fs') = free_sectors (demo_vtoc 3) - {(t, sec)}"
proof -
  have "vol_ready 0 (demo_fs (replicate 143360 0) 3)" by (rule demo_ready) simp
  moreover have "free_sectors (vtoc_of 0 (demo_fs (replicate 143360 0) 3)) \<noteq> {}" using demo_free[of 3] by auto
  moreover have "2 * vol_tracks 0 (demo_fs (replicate 143360 0) 3) < 71" by (simp add: vol_tracks_def demo_nth)
  ultimately show ?thesis
    using allocate_sector_finds_free[of 0 "demo_fs (replicate 143360 0) 3" 71] by (auto simp: after_alloc_def)
qed

lemma allocate_sector_full_diverges_witness:
  "dos33_allocate_sector 1000000 0 (demo_fs (replicate 143360 0) 0) = None"
proof -
  have "vol_ready 0 (demo_fs (replicate 143360 0) 0)" by (rule demo_ready) simp
  from allocate_sector_full_diverges[OF this, of 1000000] show ?thesis by (simp add: demo_full)
qed

end
