(* ===== verification/Dos33_Catalog.thy ===== *)
theory Dos33_Catalog
  imports Dos33_Vtoc Paths
begin

text \<open>
  The catalog of a DOS 3.3 volume (\<open>kernel/fs/dos33fs/dos33fs.c\<close>): looking a name up, reading and
  writing the attributes of a file, giving it a name, removing it from the directory.

  An inode is passed by value and returned changed; \<open>fuel\<close> bounds the walk along the links of the
  catalog, which the disk controls.
\<close>

abbreviation (input) "DOS33_CAT_FIRST_ENTRY \<equiv> 0xb :: nat"
abbreviation (input) "DOS33_CAT_ENTRY_SIZE \<equiv> 0x23 :: nat"
abbreviation (input) "DOS33_CAT_MAX_ENTRIES \<equiv> 7 :: nat"
abbreviation (input) "DOS33_MAX_FILENAME_SIZE \<equiv> 30 :: nat"
abbreviation (input) "DOS33_CAT_OFFSET_FIRST_T \<equiv> 0 :: nat"
abbreviation (input) "DOS33_CAT_OFFSET_FIRST_S \<equiv> 1 :: nat"
abbreviation (input) "DOS33_CAT_OFFSET_FILE_TYPE \<equiv> 2 :: nat"
abbreviation (input) "DOS33_CAT_OFFSET_FILE_NAME \<equiv> 3 :: nat"
abbreviation (input) "DOS33_CAT_OFFSET_END_FILE_NAME \<equiv> 0x20 :: nat"
abbreviation (input) "DOS33_CAT_OFFSET_FILE_LENGTH_L \<equiv> 0x21 :: nat"
abbreviation (input) "DOS33_CAT_OFFSET_FILE_LENGTH_H \<equiv> 0x22 :: nat"
abbreviation (input) "DOS33_FILE_TYPE_I \<equiv> 1 :: byte"
abbreviation (input) "DOS33_FILE_TYPE_A \<equiv> 2 :: byte"
abbreviation (input) "DOS33_FILE_TYPE_B \<equiv> 4 :: byte"
abbreviation (input) "DOS33_FILE_TYPE_LOCKED \<equiv> 0x80 :: byte"
abbreviation (input) "DOS33_TS_FIRST_TS_T \<equiv> 0xC :: nat"
abbreviation (input) "DOS33_TS_FIRST_TS_S \<equiv> 0xD :: nat"

definition cat_pos :: "nat \<Rightarrow> nat" where
  "cat_pos e = DOS33_CAT_FIRST_ENTRY + e * DOS33_CAT_ENTRY_SIZE"

section \<open>Looking a name up\<close>

text \<open>
  A name is stored in 30 bytes, padded with \<open>0xa0\<close>, and with the high bit set.
\<close>

definition decode_name :: "bytes \<Rightarrow> bytes" where
  "decode_name raw = map (\<lambda>c. c AND 0x7f) (cstr (rev (dropWhile (\<lambda>c. c = 0xa0) (rev raw))))"

text \<open>The entries from \<open>i\<close> on, \<open>r\<close> of them.\<close>

fun find_entry :: "bytes \<Rightarrow> nat \<Rightarrow> nat \<Rightarrow> bytes \<Rightarrow> nat \<Rightarrow> nat \<Rightarrow> u32 option option" where
  "find_entry searchname t sec blk i 0 = Some None"
| "find_entry searchname t sec blk i (Suc r) = do {
     c \<leftarrow> rd blk (cat_pos i);
     if c = 0 \<or> c = 0xfe \<or> c = 0xff then find_entry searchname t sec blk (Suc i) r
     else do {
       raw \<leftarrow> slice blk (cat_pos i + DOS33_CAT_OFFSET_FILE_NAME) DOS33_MAX_FILENAME_SIZE;
       if strncmp searchname (decode_name raw) (strlen searchname) = 0 then Some (Some (mk_ino t sec i))
       else find_entry searchname t sec blk (Suc i) r } }"

definition find_step :: "nat \<Rightarrow> bytes \<Rightarrow> fs_state \<Rightarrow> nat \<times> nat \<times> bytes \<Rightarrow>
    ((nat \<times> nat \<times> bytes) + u32 option) option" where
  "find_step s searchname fs = (\<lambda>(t, sec, blk0). do {
     blk \<leftarrow> dos_read s (ts t sec) blk0 fs;
     f \<leftarrow> find_entry searchname t sec blk 0 DOS33_CAT_MAX_ENTRIES;
     (case f of Some n \<Rightarrow> Some (Inr (Some n))
      | None \<Rightarrow> do {
          next_t \<leftarrow> rd blk 1;
          next_s \<leftarrow> rd blk 2;
          Some (if next_t = 0 \<and> next_s = 0 then Inr None
                else Inl (unat next_t, unat next_s, blk)) }) })"

definition dos33fs_find_filename :: "nat \<Rightarrow> inode \<Rightarrow> bytes \<Rightarrow> fs_state \<Rightarrow> (int \<times> u32 option) option" where
  "dos33fs_find_filename fuel dir searchname fs =
     (let n = i_number dir in
      if strncmp searchname [46] (strlen searchname) = 0 then Some (0, Some (n OR 0xff))
      else if strncmp searchname [46, 46] (strlen searchname) = 0
      then Some (0, Some ((n AND NOT 0xff) OR 0xfe))
      else do {
        s \<leftarrow> i_sb dir;
        r \<leftarrow> c_loop fuel (find_step s searchname fs) (ino_t n, ino_s n, []);
        Some (case r of Some i \<Rightarrow> (0, Some i) | None \<Rightarrow> (- 1, None)) })"

section \<open>The size kept in the first data block\<close>

text \<open>
  The first track and sector of a file.  An unlinked file has \<open>0xfe\<close> there and its first track at
  the end of its name.
\<close>

definition entry_ts :: "bytes \<Rightarrow> nat \<Rightarrow> (nat \<times> nat) option" where
  "entry_ts blk e = do {
     t \<leftarrow> rd blk (cat_pos e + DOS33_CAT_OFFSET_FIRST_T);
     t' \<leftarrow> (if t = 0xfe then rd blk (cat_pos e + DOS33_CAT_OFFSET_END_FILE_NAME) else Some t);
     sec \<leftarrow> rd blk (cat_pos e + DOS33_CAT_OFFSET_FIRST_S);
     Some (unat t', unat sec) }"

definition dos33_get_filesize :: "inode \<Rightarrow> bytes \<Rightarrow> byte \<Rightarrow> fs_state \<Rightarrow> nat option" where
  "dos33_get_filesize ino blk0 type fs = do {
     s \<leftarrow> i_sb ino;
     let n = i_number ino;
     cat \<leftarrow> dos_read s (ts (ino_t n) (ino_s n)) blk0 fs;
     (t, sec) \<leftarrow> entry_ts cat (ino_e n);
     tsl \<leftarrow> dos_read s (ts t sec) cat fs;
     if type = DOS33_FILE_TYPE_B \<or> type = DOS33_FILE_TYPE_I \<or> type = DOS33_FILE_TYPE_A then do {
       dt \<leftarrow> rd tsl DOS33_TS_FIRST_TS_T;
       ds \<leftarrow> rd tsl DOS33_TS_FIRST_TS_S;
       blk \<leftarrow> dos_read s (ts (unat dt) (unat ds)) tsl fs;
       if type = DOS33_FILE_TYPE_B then do {
         lo \<leftarrow> rd blk 2; hi \<leftarrow> rd blk 3; Some (unat lo + 256 * unat hi) }
       else do {
         lo \<leftarrow> rd blk 0; hi \<leftarrow> rd blk 1; Some (unat lo + 256 * unat hi + 2) } }
     else Some 0 }"

definition dos33_set_filesize :: "inode \<Rightarrow> bytes \<Rightarrow> byte \<Rightarrow> int \<Rightarrow> fs_state \<Rightarrow> fs_state option" where
  "dos33_set_filesize ino blk0 type sz fs = do {
     s \<leftarrow> i_sb ino;
     let n = i_number ino;
     cat \<leftarrow> dos_read s (ts (ino_t n) (ino_s n)) blk0 fs;
     (t, sec) \<leftarrow> entry_ts cat (ino_e n);
     tsl \<leftarrow> dos_read s (ts t sec) cat fs;
     if type = DOS33_FILE_TYPE_B \<or> type = DOS33_FILE_TYPE_I \<or> type = DOS33_FILE_TYPE_A then do {
       dt \<leftarrow> rd tsl DOS33_TS_FIRST_TS_T;
       ds \<leftarrow> rd tsl DOS33_TS_FIRST_TS_S;
       blk \<leftarrow> dos_read s (ts (unat dt) (unat ds)) tsl fs;
       let p = (if type = DOS33_FILE_TYPE_B then 2 else 0);
       b1 \<leftarrow> wr blk p (word_of_int sz);
       b2 \<leftarrow> wr b1 (p + 1) (word_of_int (sz div 256));
       dos_write s (ts (unat dt) (unat ds)) b2 fs }
     else Some fs }"

section \<open>Reading an inode\<close>

text \<open>What every inode of the file system gets: no owner, one link and the release date of DOS 3.3.\<close>

definition inode_done :: "inode \<Rightarrow> inode" where
  "inode_done ino = ino\<lparr>i_atime := 334939200, i_mtime := 334939200, i_ctime := 334939200,
     i_uid := 0, i_gid := 0, i_rdev := 0, i_hard_links := 1\<rparr>"

definition dos33_read_inode :: "inode \<Rightarrow> fs_state \<Rightarrow> (int \<times> inode) option" where
  "dos33_read_inode ino fs =
     (let n = i_number ino; e = ino_e n in
      if e = 0xff \<or> e = 0xfe
      then Some (0, inode_done (ino\<lparr>i_mode := 0x1ff OR S_IFDIR, i_size := 0\<rparr>))
      else if e \<ge> DOS33_CAT_MAX_ENTRIES then Some (- ENOENT, ino)
      else do {
        s \<leftarrow> i_sb ino;
        blk \<leftarrow> dos_read s (inode_to_block n) [] fs;
        type \<leftarrow> rd blk (cat_pos e + DOS33_CAT_OFFSET_FILE_TYPE);
        let mode = (if type AND DOS33_FILE_TYPE_LOCKED \<noteq> 0 then 0x1b6 AND NOT 0x92 else 0x1b6) OR S_IFREG;
        lo \<leftarrow> rd blk (cat_pos e + DOS33_CAT_OFFSET_FILE_LENGTH_L);
        hi \<leftarrow> rd blk (cat_pos e + DOS33_CAT_OFFSET_FILE_LENGTH_H);
        let ino1 = ino\<lparr>i_mode := (if type AND 0x7f = DOS33_FILE_TYPE_B then mode OR 0x49 else mode),
                       i_blocks := unat lo + 256 * unat hi, i_blocksize := DOS33_BLOCK_SIZE\<rparr>;
        sz \<leftarrow> dos33_get_filesize ino1 blk (type AND 0x7f) fs;
        Some (0, inode_done (ino1\<lparr>i_size := sz\<rparr>)) })"

section \<open>Looking a path up\<close>

text \<open>The three names that are prefixes of ``..'', the empty one among them, stay in the directory.\<close>

definition dos33_lookup_inode_dir :: "nat \<Rightarrow> inode \<Rightarrow> bytes \<Rightarrow> fs_state \<Rightarrow> (int \<times> inode) option" where
  "dos33_lookup_inode_dir fuel dir name fs =
     (if strncmp name [46, 46] (strlen name) = 0 then Some (0, dir)
      else if strncmp name [46] (strlen name) = 0 then Some (0, dir)
      else do {
        (r, found) \<leftarrow> dos33fs_find_filename fuel dir name fs;
        Some (r, case found of Some i \<Rightarrow> dir\<lparr>i_number := i\<rparr> | None \<Rightarrow> dir) })"

definition lookup_path_step :: "nat \<Rightarrow> fs_state \<Rightarrow> inode \<times> bytes \<Rightarrow> ((inode \<times> bytes) + (int \<times> inode)) option" where
  "lookup_path_step fuel fs = (\<lambda>(ino, ptr).
     let (name, rest) = split_filename ptr 256 in do {
       (r, ino1) \<leftarrow> dos33_lookup_inode_dir fuel ino name fs;
       Some (if r < 0 then Inr (r, ino1)
             else case rest of None \<Rightarrow> Inr (0, ino1) | Some p \<Rightarrow> Inl (ino1, p)) })"

definition dos33fs_lookup_inode :: "nat \<Rightarrow> inode \<Rightarrow> bytes \<Rightarrow> fs_state \<Rightarrow> (int \<times> inode) option" where
  "dos33fs_lookup_inode fuel ino name fs =
     (if str_at name 0 = 0 then dos33_read_inode ino fs
      else do {
        (r, ino1) \<leftarrow> c_loop (Suc (length name)) (lookup_path_step fuel fs) (ino, name);
        if r < 0 then Some (r, ino1) else dos33_read_inode ino1 fs })"

section \<open>File system statistics\<close>

definition dos33fs_statfs :: "superblock \<Rightarrow> int \<times> statfs" where
  "dos33fs_statfs sb = (0, \<lparr>f_type = 0x02131978, f_bsize = DOS33_BLOCK_SIZE, f_blocks = sb_blocks sb,
     f_bfree = sb_blocks_free sb, f_bavail = 0, f_files = 10, f_ffree = 0, f_fsid = 0,
     f_namelen = DOS33_MAX_FILENAME_SIZE, f_frsize = 0, f_flags = 0\<rparr>)"

section \<open>Writing an inode\<close>

definition inode_blocksize :: "nat \<Rightarrow> nat" where
  "inode_blocksize sz = (let b = sz mod DOS33_BLOCK_SIZE + 1 in (if b > 12 then b + 1 else b) + 1)"

definition dos33fs_write_inode :: "inode \<Rightarrow> fs_state \<Rightarrow> fs_state option" where
  "dos33fs_write_inode ino fs =
     (let n = i_number ino; e = ino_e n in
      if e = 0xff \<or> e = 0xfe \<or> e \<ge> DOS33_CAT_MAX_ENTRIES then Some fs
      else do {
        s \<leftarrow> i_sb ino;
        blk \<leftarrow> dos_read s (inode_to_block n) [] fs;
        type0 \<leftarrow> rd blk (cat_pos e + DOS33_CAT_OFFSET_FILE_TYPE);
        let type = (if i_mode ino AND 0x92 \<noteq> 0 then type0 AND NOT DOS33_FILE_TYPE_LOCKED
                    else type0 OR DOS33_FILE_TYPE_LOCKED);
        b1 \<leftarrow> wr blk (cat_pos e + DOS33_CAT_OFFSET_FILE_TYPE) type;
        let bs = inode_blocksize (i_size ino);
        b2 \<leftarrow> wr b1 (cat_pos e + DOS33_CAT_OFFSET_FILE_LENGTH_L) (of_nat bs);
        b3 \<leftarrow> wr b2 (cat_pos e + DOS33_CAT_OFFSET_FILE_LENGTH_H) (of_nat (bs div 256));
        fs1 \<leftarrow> dos33_set_filesize ino [] (type AND 0x7f) (to_i32 (int (i_size ino))) fs;
        dos_write s (inode_to_block n) b3 fs1 })"

section \<open>Removing a file from the directory\<close>

definition dos33fs_unlink_inode :: "inode \<Rightarrow> fs_state \<Rightarrow> (int \<times> fs_state) option" where
  "dos33fs_unlink_inode ino fs =
     (let n = i_number ino; e = ino_e n in
      if e = 0xff \<or> e = 0xfe then Some (- EISDIR, fs)
      else if e \<ge> DOS33_CAT_MAX_ENTRIES then Some (- ENOENT, fs)
      else do {
        s \<leftarrow> i_sb ino;
        blk \<leftarrow> dos_read s (inode_to_block n) [] fs;
        old_track \<leftarrow> rd blk (cat_pos e + DOS33_CAT_OFFSET_FIRST_T);
        b1 \<leftarrow> wr blk (cat_pos e + DOS33_CAT_OFFSET_FIRST_T) 0xfe;
        b2 \<leftarrow> wr b1 (cat_pos e + DOS33_CAT_OFFSET_END_FILE_NAME) old_track;
        fs1 \<leftarrow> dos_write s (inode_to_block n) b2 fs;
        Some (0, fs1) })"

section \<open>Naming a file\<close>

definition encode_name :: "bytes \<Rightarrow> bytes" where
  "encode_name name =
     map (\<lambda>c. c OR 0x80) (cstr name @ replicate (DOS33_MAX_FILENAME_SIZE - strlen name) 32)"

definition dos33fs_link_inode :: "inode \<Rightarrow> bytes \<Rightarrow> fs_state \<Rightarrow> (int \<times> inode \<times> fs_state) option" where
  "dos33fs_link_inode ino name fs =
     (if strlen name > DOS33_MAX_FILENAME_SIZE then Some (- E2BIG, ino, fs)
      else do {
        s \<leftarrow> i_sb ino;
        let n = i_number ino;
        blk \<leftarrow> dos_read s (inode_to_block n) [] fs;
        b1 \<leftarrow> splice blk (cat_pos (ino_e n) + DOS33_CAT_OFFSET_FILE_NAME) (encode_name name);
        fs1 \<leftarrow> dos_write s (inode_to_block n) b1 fs;
        Some (0, ino\<lparr>i_hard_links := i_hard_links ino + 1\<rparr>, fs1) })"

section \<open>Making a file\<close>

text \<open>The first entry of a catalog sector that is unused or deleted.\<close>

fun free_entry :: "bytes \<Rightarrow> nat \<Rightarrow> nat \<Rightarrow> nat option option" where
  "free_entry blk i 0 = Some None"
| "free_entry blk i (Suc r) = do {
     c \<leftarrow> rd blk (cat_pos i);
     if c = 0 \<or> c = 0xff then Some (Some i) else free_entry blk (Suc i) r }"

definition make_step :: "nat \<Rightarrow> fs_state \<Rightarrow> nat \<times> nat \<times> bytes \<Rightarrow>
    ((nat \<times> nat \<times> bytes) + (nat \<times> nat \<times> nat \<times> bytes) option) option" where
  "make_step s fs = (\<lambda>(t, sec, blk0). do {
     blk \<leftarrow> dos_read s (ts t sec) blk0 fs;
     f \<leftarrow> free_entry blk 0 DOS33_CAT_MAX_ENTRIES;
     (case f of Some e \<Rightarrow> Some (Inr (Some (t, sec, e, blk)))
      | None \<Rightarrow> do {
          next_t \<leftarrow> rd blk 1;
          next_s \<leftarrow> rd blk 2;
          Some (if next_t = 0 \<and> next_s = 0 then Inr None
                else Inl (unat next_t, unat next_s, blk)) }) })"

text \<open>The second half of \<open>dos33fs_make_inode\<close>, once an entry is found.\<close>

definition make_in_entry :: "nat \<Rightarrow> inode \<Rightarrow> nat \<Rightarrow> nat \<times> nat \<times> nat \<times> bytes \<Rightarrow> fs_state \<Rightarrow>
    (int \<times> inode \<times> fs_state) option" where
  "make_in_entry fuel new s = (\<lambda>(ct, cs, e, blk) fs. do {
     let new1 = new\<lparr>i_number := mk_ino ct cs e, i_sb := Some s\<rparr>;
     (r, t, sec, fs1) \<leftarrow> dos33_allocate_sector fuel s fs;
     if r < 0 then Some (r, new1, fs1)
     else do {
       fs2 \<leftarrow> dos33_zero_out_sector s t sec fs1;
       b1 \<leftarrow> wr blk (cat_pos e + DOS33_CAT_OFFSET_FIRST_T) (of_nat t);
       b2 \<leftarrow> wr b1 (cat_pos e + DOS33_CAT_OFFSET_FIRST_S) (of_nat sec);
       b3 \<leftarrow> wr b2 (cat_pos e + DOS33_CAT_OFFSET_FILE_TYPE) DOS33_FILE_TYPE_B;
       fs3 \<leftarrow> dos_write s (ts ct cs) b3 fs2;
       (r2, dt, ds, fs4) \<leftarrow> dos33_allocate_sector fuel s fs3;
       if r2 < 0 then Some (r2, new1, fs4)
       else do {
         fs5 \<leftarrow> dos33_zero_out_sector s dt ds fs4;
         l1 \<leftarrow> wr (replicate 256 0) DOS33_TS_FIRST_TS_T (of_nat dt);
         l2 \<leftarrow> wr l1 DOS33_TS_FIRST_TS_S (of_nat ds);
         fs6 \<leftarrow> dos_write s (ts t sec) l2 fs5;
         fs7 \<leftarrow> dos33_set_filesize new1 l2 DOS33_FILE_TYPE_B 0 fs6;
         (r3, new2) \<leftarrow> dos33_read_inode new1 fs7;
         Some (r3, new2, fs7) } } })"

definition dos33fs_make_inode :: "nat \<Rightarrow> inode \<Rightarrow> inode \<Rightarrow> fs_state \<Rightarrow> (int \<times> inode \<times> fs_state) option" where
  "dos33fs_make_inode fuel dir new fs = do {
     s \<leftarrow> i_sb dir;
     r \<leftarrow> c_loop fuel (make_step s fs) (ino_t (i_number dir), ino_s (i_number dir), []);
     (case r of None \<Rightarrow> Some (- E2BIG, new, fs)
      | Some found \<Rightarrow> make_in_entry fuel new s found fs) }"

section \<open>Names\<close>

lemma high_bit_facts:
  "(c :: byte) OR 0x80 \<noteq> 0 \<and> (c < 0x80 \<longrightarrow> (c OR 0x80) AND 0x7f = c \<and> (c OR 0x80 = 0xa0 \<longleftrightarrow> c = 0x20))"
  by (rule byte_cases) code_simp

text \<open>Names that DOS 3.3 can hold.\<close>

definition name_ok :: "bytes \<Rightarrow> bool" where
  "name_ok name \<longleftrightarrow> length name \<le> 30 \<and> (\<forall>c \<in> set name. c \<noteq> 0 \<and> c < 0x80) \<and> (name \<noteq> [] \<longrightarrow> last name \<noteq> 32)"

lemma dropWhile_rev_replicate:
  assumes "xs = [] \<or> last xs \<noteq> a"
  shows "rev (dropWhile (\<lambda>c. c = a) (rev (xs @ replicate n a))) = xs"
proof -
  have "dropWhile (\<lambda>c. c = a) (replicate n a @ rev xs) = dropWhile (\<lambda>c. c = a) (rev xs)"
    by (rule dropWhile_append2) auto
  also have "\<dots> = rev xs" using assms by (cases xs rule: rev_cases) auto
  finally show ?thesis by simp
qed

lemma length_encode_name [simp]: "strlen name \<le> 30 \<Longrightarrow> length (encode_name name) = 30"
  by (simp add: encode_name_def strlen_cstr)

lemma decode_encode_name_eq:
  assumes "name_ok name"
  shows "decode_name (encode_name name) = name"
proof -
  have c: "cstr name = name" "strlen name = length name"
    using assms by (auto simp: name_ok_def strlen_cstr intro!: cstr_id arg_cong[where f = length])
  have f: "(c OR 0x80) AND 0x7f = c" "c OR 0x80 \<noteq> 0" if "c \<in> set name" for c
    using high_bit_facts[of c] assms that by (auto simp: name_ok_def)
  have "encode_name name = map (\<lambda>c. c OR 0x80) name @ replicate (30 - length name) 0xa0"
    by (simp add: encode_name_def c)
  moreover have "map (\<lambda>c. c OR 0x80) name = [] \<or> last (map (\<lambda>c. c OR 0x80) name) \<noteq> 0xa0"
    using assms high_bit_facts[of "last name"] by (auto simp: name_ok_def last_map)
  ultimately have "rev (dropWhile (\<lambda>c. c = 0xa0) (rev (encode_name name))) = map (\<lambda>c. c OR 0x80) name"
    using dropWhile_rev_replicate by metis
  moreover have "cstr (map (\<lambda>c. c OR 0x80) name) = map (\<lambda>c. c OR 0x80) name"
    by (rule cstr_id) (use f in force)
  ultimately show ?thesis
    using f by (simp add: decode_name_def o_def map_idI)
qed

text \<open>
  The name \<open>dos33fs_link_inode\<close> stores is the name the directory functions read back: for
  names of at most 30 seven-bit characters that do not end in a space, decoding undoes encoding.
\<close>

theorem decode_encode_name:
  assumes "name_ok name"
  shows "decode_name (encode_name name) = name"
  using assms by (rule decode_encode_name_eq)

lemma decode_encode_name_witness: "decode_name (encode_name [72, 73]) = [72, 73]"
  by (rule decode_encode_name) (simp add: name_ok_def)

section \<open>Inode numbers\<close>

lemma bit_small_nat:
  assumes "n < 256" "bit (of_nat n :: u32) k"
  shows "k < 8"
proof (rule ccontr)
  assume "\<not> k < 8"
  then have "(2 :: nat) ^ 8 \<le> 2 ^ k" by (intro power_increasing) auto
  then have "n div 2 ^ k = 0" using assms(1) by simp
  then have "\<not> bit n k" by (simp add: bit_iff_odd)
  with assms(2) show False by (simp add: bit_simps)
qed

lemma bit_0xff: "bit (0xff :: u32) k \<longleftrightarrow> k < 8"
proof -
  have "(0xff :: u32) = mask 8" by (simp add: mask_eq_exp_minus_1)
  then have "bit (0xff :: u32) k \<longleftrightarrow> bit (mask 8 :: u32) k" by (simp only:)
  also have "\<dots> \<longleftrightarrow> k < 8" by (subst bit_mask_iff) (auto simp: possible_bit_word)
  finally show ?thesis .
qed

lemma bit_0xff_int: "bit (0xff :: int) k \<longleftrightarrow> k < 8"
proof -
  have "(0xff :: int) = mask 8" by (simp add: mask_eq_exp_minus_1)
  then have "bit (0xff :: int) k \<longleftrightarrow> bit (mask 8 :: int) k" by (simp only:)
  also have "\<dots> \<longleftrightarrow> k < 8" by (subst bit_mask_iff) auto
  finally show ?thesis .
qed

lemma mk_ino_parts:
  assumes "t < 256" "sec < 256" "e < 256"
  shows "ino_t (mk_ino t sec e) = t \<and> ino_s (mk_ino t sec e) = sec \<and> ino_e (mk_ino t sec e) = e"
proof -
  define a b c where "a = (of_nat t :: u32)" and "b = (of_nat sec :: u32)" and "c = (of_nat e :: u32)"
  have small: "bit a k \<Longrightarrow> k < 8" "bit b k \<Longrightarrow> k < 8" "bit c k \<Longrightarrow> k < 8" for k
    using assms bit_small_nat[of t k] bit_small_nat[of sec k] bit_small_nat[of e k]
    by (auto simp: a_def b_def c_def)
  have n: "mk_ino t sec e = push_bit 16 a OR push_bit 8 b OR c" by (simp add: mk_ino_def a_def b_def c_def)
  have "bit (drop_bit 16 (mk_ino t sec e) AND 0xff) k \<longleftrightarrow> bit a k"
    "bit (drop_bit 8 (mk_ino t sec e) AND 0xff) k \<longleftrightarrow> bit b k" "bit (mk_ino t sec e AND 0xff) k \<longleftrightarrow> bit c k" for k
    using small[of "16 + k"] small[of "8 + k"] small[of k]
    by (cases "k < 8"; auto simp: n bit_simps bit_0xff bit_0xff_int)+
  then have "drop_bit 16 (mk_ino t sec e) AND 0xff = a" "drop_bit 8 (mk_ino t sec e) AND 0xff = b"
    "mk_ino t sec e AND 0xff = c" by (auto intro: bit_eqI)
  then show ?thesis
    using assms by (simp add: ino_t_def ino_s_def ino_e_def a_def b_def c_def unat_of_nat)
qed

lemma mk_ino_inj:
  "t < 256 \<Longrightarrow> sec < 256 \<Longrightarrow> e < 256 \<Longrightarrow> t' < 256 \<Longrightarrow> sec' < 256 \<Longrightarrow> e' < 256 \<Longrightarrow>
     mk_ino t sec e = mk_ino t' sec' e' \<longleftrightarrow> t = t' \<and> sec = sec' \<and> e = e'"
  using mk_ino_parts[of t sec e] mk_ino_parts[of t' sec' e'] by metis

section \<open>The catalog as a list of files\<close>

text \<open>The file of an entry, if the entry is live, and the files of a catalog sector.\<close>

definition entry_of :: "nat \<Rightarrow> nat \<Rightarrow> bytes \<Rightarrow> nat \<Rightarrow> (u32 \<times> bytes) option" where
  "entry_of t sec blk e =
     (if blk ! cat_pos e \<in> {0, 0xfe, 0xff} then None
      else Some (mk_ino t sec e, decode_name (take 30 (drop (cat_pos e + 3) blk))))"

definition live_entries :: "nat \<times> nat \<Rightarrow> bytes \<Rightarrow> (u32 \<times> bytes) list" where
  "live_entries = (\<lambda>(t, sec) d. List.map_filter (entry_of t sec (blk_get 256 d (secno t sec))) [0..<7])"

text \<open>The chain of catalog sectors that starts at a track and sector, and what it lists.\<close>

inductive cat_chain :: "bytes \<Rightarrow> nat \<Rightarrow> nat \<Rightarrow> (nat \<times> nat) list \<Rightarrow> bool" for d where
  last: "blk_valid 256 d (secno t sec) \<Longrightarrow> t < 256 \<Longrightarrow> sec < 256 \<Longrightarrow>
    blk_get 256 d (secno t sec) ! 1 = 0 \<Longrightarrow> blk_get 256 d (secno t sec) ! 2 = 0 \<Longrightarrow> cat_chain d t sec [(t, sec)]"
| link: "blk_valid 256 d (secno t sec) \<Longrightarrow> t < 256 \<Longrightarrow> sec < 256 \<Longrightarrow>
    nt = blk_get 256 d (secno t sec) ! 1 \<Longrightarrow> ns = blk_get 256 d (secno t sec) ! 2 \<Longrightarrow> nt \<noteq> 0 \<or> ns \<noteq> 0 \<Longrightarrow>
    cat_chain d (unat nt) (unat ns) L \<Longrightarrow> cat_chain d t sec ((t, sec) # L)"

inductive_cases cat_chain_Nil: "cat_chain d t sec []"
inductive_cases cat_chain_Cons: "cat_chain d t sec (x # L)"

definition catalog :: "bytes \<Rightarrow> (nat \<times> nat) list \<Rightarrow> (u32 \<times> bytes) list" where
  "catalog d L = concat (map (\<lambda>x. live_entries x d) L)"

lemma cat_pos_bound: "e < 7 \<Longrightarrow> cat_pos e + 35 \<le> 256"
  by (simp add: cat_pos_def)

definition match_name :: "bytes \<Rightarrow> u32 \<times> bytes \<Rightarrow> bool" where
  "match_name name = (\<lambda>(_, nm). prefix (cstr name) (cstr nm))"

lemma find_entry_eq:
  assumes "length blk = 256" "i + r \<le> 7"
  shows "find_entry name t sec blk i r
    = Some (map_option fst (List.find (match_name name) (List.map_filter (entry_of t sec blk) [i..<i + r])))"
  using assms(2)
proof (induction r arbitrary: i)
  case (Suc r)
  have i: "cat_pos i + 35 \<le> 256" using Suc.prems by (intro cat_pos_bound) simp
  have u: "[i..<i + Suc r] = i # [Suc i..<Suc i + r]" by (simp add: upt_conv_Cons)
  have rd: "rd blk (cat_pos i) = Some (blk ! cat_pos i)" using i assms(1) by simp
  have sl: "slice blk (cat_pos i + 3) 30 = Some (take 30 (drop (cat_pos i + 3) blk))"
    using i assms(1) by (simp add: slice_eq)
  have ih: "find_entry name t sec blk (Suc i) r
    = Some (map_option fst (List.find (match_name name) (List.map_filter (entry_of t sec blk) [Suc i..<Suc i + r])))"
    using Suc.IH[of "Suc i"] Suc.prems by simp
  show ?case
  proof (cases "blk ! cat_pos i \<in> {0, 0xfe, 0xff}")
    case True
    then have "entry_of t sec blk i = None" by (simp add: entry_of_def)
    then show ?thesis using True ih rd unfolding u by (simp add: map_filter_simps del: upt_Suc)
  next
    case False
    then have "entry_of t sec blk i = Some (mk_ino t sec i, decode_name (take 30 (drop (cat_pos i + 3) blk)))"
      by (simp add: entry_of_def)
    then show ?thesis using False ih rd sl unfolding u
      by (simp add: map_filter_simps match_name_def strncmp_strlen_prefix del: upt_Suc)
  qed
qed (simp add: map_filter_simps)

lemma find_append: "List.find P (xs @ ys) = (case List.find P xs of None \<Rightarrow> List.find P ys | Some x \<Rightarrow> Some x)"
  by (induction xs) auto

lemma find_loop:
  assumes "cat_chain (disk_of s fs) t sec L" "vol_ok s fs" "length L \<le> fuel" "blk0 = [] \<or> length blk0 = 256"
  shows "c_loop fuel (find_step s name fs) (t, sec, blk0)
    = Some (map_option fst (List.find (match_name name) (catalog (disk_of s fs) L)))"
  using assms(1,3,4)
proof (induction arbitrary: fuel blk0 rule: cat_chain.induct)
  case (last t sec)
  let ?blk = "blk_get 256 (disk_of s fs) (secno t sec)"
  have l: "length ?blk = 256" using last.hyps(1) by (rule disk.length_get)
  have "dos_read s (ts t sec) blk0 fs = Some ?blk"
    using dos_read_eq[OF assms(2) last.hyps(1)] l last.prems(2) by (auto simp: ts_secno)
  then have "find_step s name fs (t, sec, blk0)
      = Some (Inr (map_option fst (List.find (match_name name) (catalog (disk_of s fs) [(t, sec)]))))"
    using find_entry_eq[OF l, of 0 7] last.hyps(4,5) l
    by (auto simp: find_step_def catalog_def live_entries_def split: option.splits)
  then show ?case using last.prems(1) by (cases fuel) simp_all
next
  case (link t sec nt ns L)
  let ?blk = "blk_get 256 (disk_of s fs) (secno t sec)"
  have l: "length ?blk = 256" using link.hyps(1) by (rule disk.length_get)
  have rd: "dos_read s (ts t sec) blk0 fs = Some ?blk"
    using dos_read_eq[OF assms(2) link.hyps(1)] l link.prems(2) by (auto simp: ts_secno)
  obtain f where f: "fuel = Suc f" "length L \<le> f" using link.prems(1) by (cases fuel) auto
  show ?case
  proof (cases "List.find (match_name name) (live_entries (t, sec) (disk_of s fs))")
    case None
    then have "find_step s name fs (t, sec, blk0) = Some (Inl (unat nt, unat ns, ?blk))"
      using find_entry_eq[OF l, of 0 7 name t sec] link.hyps(4-6) l rd
      by (auto simp: find_step_def live_entries_def)
    then show ?thesis using link.IH[OF f(2), of ?blk] l f(1) None by (simp add: catalog_def find_append)
  next
    case (Some x)
    then have "find_step s name fs (t, sec, blk0) = Some (Inr (Some (fst x)))"
      using find_entry_eq[OF l, of 0 7 name t sec] rd by (simp add: find_step_def live_entries_def)
    then show ?thesis using f(1) Some by (simp add: catalog_def find_append)
  qed
qed

text \<open>
  On a directory whose chain of catalog sectors ends, \<open>dos33fs_find_filename\<close> returns the first
  file in catalog order whose stored name starts with the name looked for, which need not be the
  whole name, and \<open>-1\<close> when there is none.
\<close>

theorem find_filename_correct:
  assumes "vol_ok s fs" and "i_sb dir = Some s"
    and "cat_chain (disk_of s fs) (ino_t (i_number dir)) (ino_s (i_number dir)) L" and "length L \<le> fuel"
    and "\<not> prefix (cstr name) [46, 46]"
  shows "dos33fs_find_filename fuel dir name fs =
    Some (case List.find (match_name name) (catalog (disk_of s fs) L) of
            None \<Rightarrow> (- 1, None) | Some (n, _) \<Rightarrow> (0, Some n))"
proof -
  have c: "cstr [46, 46] = [46, 46]" "cstr [46] = [46]" by (simp_all add: cstr_Cons)
  have "\<not> prefix (cstr name) [46]" using assms(5) by (metis append_Cons append_Nil prefix_prefix)
  then show ?thesis
    using find_loop[OF assms(3,1,4), of "[]" name] assms(2,5)
    by (auto simp: dos33fs_find_filename_def Let_def strncmp_strlen_prefix c split: option.splits)
qed

section \<open>A small volume\<close>

text \<open>
  A volume with one binary file ``HI'' of five bytes in entry 0 of the catalog sector at track 17,
  sector 15; its list is at track 18, sector 0, its data at track 18, sector 1.
\<close>

definition demo_cat :: bytes where
  "demo_cat = [0, 17, 14] @ replicate 8 0 @ [18, 0, 4] @ encode_name [72, 73] @ [1, 0] @ replicate 210 0"

definition demo_tsl :: bytes where
  "demo_tsl = (replicate 256 0)[12 := 18, 13 := 1]"

definition demo_data :: bytes where
  "demo_data = [0, 0, 5, 0, 1, 2, 3, 4, 5] @ replicate 247 0"

definition demo_disk :: bytes where
  "demo_disk = blk_put 256 289 demo_data (blk_put 256 288 demo_tsl
     (blk_put 256 287 demo_cat (replicate 143360 0)))"

definition demo_ino :: inode where
  "demo_ino = inode_zero\<lparr>i_number := 0x110f00, i_mode := 0x81ff, i_sb := Some 0, i_size := 5\<rparr>"

lemma length_demo_cat [simp]: "length demo_cat = 256"
  by (simp add: demo_cat_def encode_name_def cstr_Cons)

lemma length_demo_blocks [simp]: "length demo_tsl = 256" "length demo_data = 256"
  by (simp_all add: demo_tsl_def demo_data_def)

lemma length_demo_disk [simp]: "length demo_disk = 143360"
  by (simp add: demo_disk_def blk_valid_def)

lemma demo_sectors:
  "blk_get 256 demo_disk 287 = demo_cat" "blk_get 256 demo_disk 288 = demo_tsl"
  "blk_get 256 demo_disk 289 = demo_data"
  by (simp_all add: demo_disk_def disk.get_put_if blk_valid_def disk.get_put)

lemma demo_ino_parts: "ino_t 0x110f00 = 17" "ino_s 0x110f00 = 15" "ino_e 0x110f00 = 0"
  by (simp_all add: ino_t_def ino_s_def ino_e_def)

lemma demo_cat_nth: "demo_cat ! 11 = 18" "demo_cat ! 12 = 0" "demo_cat ! 13 = 4"
  "demo_cat ! Suc 0 = 17" "demo_cat ! 2 = 14"
  by (simp_all add: demo_cat_def nth_append)

lemma demo_chain: "cat_chain demo_disk 17 15 [(17, 15), (17, 14)]"
proof -
  have z: "blk_get 256 demo_disk 286 = replicate 256 0"
    by (simp add: demo_disk_def disk.get_put_if blk_valid_def) (simp add: blk_get_def)
  have "cat_chain demo_disk 17 14 [(17, 14)]"
    by (rule cat_chain.last) (simp_all add: secno_def blk_valid_def z)
  then show ?thesis
    using cat_chain.link[of demo_disk 17 15 17 14 "[(17, 14)]"]
    by (simp add: secno_def blk_valid_def demo_sectors demo_cat_nth)
qed

lemma map_filter_None: "(\<And>x. x \<in> set xs \<Longrightarrow> f x = None) \<Longrightarrow> List.map_filter f xs = []"
  by (induction xs) (simp_all add: map_filter_simps)

lemma demo_catalog: "catalog demo_disk [(17, 15), (17, 14)] = [(0x110f00, [72, 73])]"
proof -
  have z: "blk_get 256 demo_disk 286 = replicate 256 0"
    by (simp add: demo_disk_def disk.get_put_if blk_valid_def) (simp add: blk_get_def)
  have n: "mk_ino 17 15 0 = 0x110f00" by (simp add: mk_ino_def)
  have "take 30 (drop 14 demo_cat) = encode_name [72, 73]"
    by (simp add: demo_cat_def encode_name_def cstr_Cons)
  then have e0: "entry_of 17 15 demo_cat 0 = Some (0x110f00, [72, 73])"
    using decode_encode_name_eq[of "[72, 73]"] by (simp add: entry_of_def cat_pos_def demo_cat_nth n name_ok_def)
  have "demo_cat ! i = 0" if "46 \<le> i" "i < 256" for i
  proof -
    have "length ([0, 17, 14] @ replicate 8 0 @ [18, 0, 4] @ encode_name [72, 73] @ [1, 0] :: bytes) = 46"
      by (simp add: encode_name_def cstr_Cons)
    then have "demo_cat ! i = replicate 210 0 ! (i - 46)"
      using that nth_append[of "[0, 17, 14] @ replicate 8 0 @ [18, 0, 4] @ encode_name [72, 73] @ [1, 0]" "replicate 210 0" i]
      by (simp add: demo_cat_def)
    then show ?thesis using that by simp
  qed
  then have e: "entry_of 17 15 demo_cat i = None" if "0 < i" "i < 7" for i
    using that by (simp add: entry_of_def cat_pos_def)
  have "[0..<7 :: nat] = 0 # [1..<7]" by (simp add: upt_conv_Cons)
  moreover have "List.map_filter (entry_of 17 15 demo_cat) [1..<7] = []" by (rule map_filter_None) (use e in auto)
  ultimately have "live_entries (17, 15) demo_disk = [(0x110f00, [72, 73])]"
    using e0 by (simp add: live_entries_def secno_def demo_sectors map_filter_simps del: upt_rec_numeral)
  moreover have "entry_of 17 14 (replicate 256 0) i = None" if "i < 7" for i
    using cat_pos_bound[OF that] unfolding entry_of_def by (subst nth_replicate) simp_all
  then have "List.map_filter (entry_of 17 14 (replicate 256 0)) [0..<7] = []"
    by (intro map_filter_None) simp
  then have "live_entries (17, 14) demo_disk = []" by (simp add: live_entries_def secno_def z)
  ultimately show ?thesis by (simp add: catalog_def)
qed

lemma find_filename_correct_witness:
  "dos33fs_find_filename 2 (demo_ino\<lparr>i_number := 0x110fff\<rparr>) [72] (demo_fs demo_disk 3) = Some (0, Some 0x110f00)"
proof -
  have ok: "vol_ok 0 (demo_fs demo_disk 3)" by (rule demo_vol_ok) simp
  have p: "ino_t 0x110fff = 17" "ino_s 0x110fff = 15" by (simp_all add: ino_t_def ino_s_def)
  have "dos33fs_find_filename 2 (demo_ino\<lparr>i_number := 0x110fff\<rparr>) [72] (demo_fs demo_disk 3) =
    Some (case List.find (match_name [72]) (catalog (disk_of 0 (demo_fs demo_disk 3)) [(17, 15), (17, 14)]) of
            None \<Rightarrow> (- 1, None) | Some (n, _) \<Rightarrow> (0, Some n))"
    by (rule find_filename_correct[OF ok]) (simp_all add: demo_ino_def p demo_chain cstr_Cons)
  then show ?thesis by (simp add: demo_catalog match_name_def cstr_Cons)
qed

section \<open>Changing one entry\<close>

text \<open>Bytes outside an entry, and what they mean for the other entries of the sector.\<close>

definition same_outside :: "nat \<Rightarrow> bytes \<Rightarrow> bytes \<Rightarrow> bool" where
  "same_outside e b b' \<longleftrightarrow> length b' = length b \<and> (\<forall>i < 256. \<not> (cat_pos e \<le> i \<and> i < cat_pos e + 35) \<longrightarrow> b' ! i = b ! i)"

lemma same_outside_entry:
  assumes "same_outside e b b'" "length b = 256" "e' \<noteq> e" "e' < 7"
  shows "entry_of t sec b' e' = entry_of t sec b e'"
proof -
  have "cat_pos e' + 35 \<le> cat_pos e \<or> cat_pos e + 35 \<le> cat_pos e'"
    using assms(3) by (simp add: cat_pos_def) linarith
  then have o1: "b' ! i = b ! i" if "cat_pos e' \<le> i" "i < cat_pos e' + 35" for i
    using that assms(1) cat_pos_bound[OF assms(4)] by (auto simp: same_outside_def)
  have l: "length b' = 256" "cat_pos e' + 35 \<le> 256" using assms cat_pos_bound by (auto simp: same_outside_def)
  have "take 30 (drop (cat_pos e' + 3) b') = take 30 (drop (cat_pos e' + 3) b)"
    by (rule nth_equalityI) (use l assms(2) o1 in auto)
  then show ?thesis using o1[of "cat_pos e'"] by (simp add: entry_of_def)
qed

lemma same_outside_links: "same_outside e b b' \<Longrightarrow> b' ! 1 = b ! 1 \<and> b' ! 2 = b ! 2"
  by (simp add: same_outside_def cat_pos_def)

lemma chain_bounds: "cat_chain d t sec L \<Longrightarrow> (t', sec') \<in> set L \<Longrightarrow> t' < 256 \<and> sec' < 256 \<and> blk_valid 256 d (secno t' sec')"
  by (induction rule: cat_chain.induct) auto

lemma chain_patch:
  assumes "cat_chain d t0 s0 L" "\<And>x. x \<in> set L \<Longrightarrow> snd x < 16" "blk_valid 256 d (secno t sec)" "sec < 16"
    and "same_outside e (blk_get 256 d (secno t sec)) b'" "e < 7"
  shows "cat_chain (blk_put 256 (secno t sec) b' d) t0 s0 L"
proof -
  have l: "length b' = 256" using assms(5) disk.length_get[OF assms(3)] by (simp add: same_outside_def)
  have b: "blk_get 256 (blk_put 256 (secno t sec) b' d) k ! 1 = blk_get 256 d k ! 1"
    "blk_get 256 (blk_put 256 (secno t sec) b' d) k ! 2 = blk_get 256 d k ! 2" if "blk_valid 256 d k" for k
    using same_outside_links[OF assms(5)] disk.get_put_if[OF assms(3) that l] by auto
  show ?thesis using assms(1)
  proof (induction rule: cat_chain.induct)
    case (last t1 s1)
    then show ?case using b disk.valid_put[OF assms(3) l] by (intro cat_chain.last) simp_all
  next
    case (link t1 s1 nt ns L1)
    then show ?case using b disk.valid_put[OF assms(3) l] by (intro cat_chain.link) simp_all
  qed
qed

lemma map_filter_cong: "xs = ys \<Longrightarrow> (\<And>x. x \<in> set ys \<Longrightarrow> f x = g x) \<Longrightarrow> List.map_filter f xs = List.map_filter g ys"
  by (induction xs arbitrary: ys) (auto simp: map_filter_simps cong: option.case_cong)

lemma map_filter_append: "List.map_filter f (xs @ ys) = List.map_filter f xs @ List.map_filter f ys"
  by (induction xs) (auto simp: map_filter_simps split: option.splits)

text \<open>
  An entry of a sector of the chain is replaced: the catalog changes by a function on the file of
  that entry, which maps it to another one or to nothing.
\<close>

lemma catalog_patch:
  assumes "cat_chain d t0 s0 L" "\<And>x. x \<in> set L \<Longrightarrow> snd x < 16" "(t, sec) \<in> set L" "e < 7"
    and "same_outside e (blk_get 256 d (secno t sec)) b'"
    and "\<And>n x. n \<noteq> mk_ino t sec e \<Longrightarrow> f (n, x) = Some (n, x)"
    and "entry_of t sec b' e = Option.bind (entry_of t sec (blk_get 256 d (secno t sec)) e) f"
  shows "catalog (blk_put 256 (secno t sec) b' d) L = List.map_filter f (catalog d L)"
proof -
  let ?d' = "blk_put 256 (secno t sec) b' d" and ?b = "blk_get 256 d (secno t sec)"
  have ts: "t < 256" "sec < 256" "sec < 16" "blk_valid 256 d (secno t sec)"
    using chain_bounds[OF assms(1,3)] assms(2)[OF assms(3)] by auto
  have l: "length ?b = 256" "length b' = 256"
    using disk.length_get[OF ts(4)] assms(5) by (auto simp: same_outside_def)
  have mf: "List.map_filter (\<lambda>e. Option.bind (g e) f) xs = List.map_filter f (List.map_filter g xs)"
    for g :: "nat \<Rightarrow> (u32 \<times> bytes) option" and xs
    by (induction xs) (auto simp: map_filter_simps split: option.splits)
  have one: "live_entries x ?d' = List.map_filter f (live_entries x d)" if x: "x \<in> set L" for x
  proof -
    obtain t' sec' where x': "x = (t', sec')" by (cases x)
    have b': "t' < 256" "sec' < 256" "sec' < 16" "blk_valid 256 d (secno t' sec')"
      using chain_bounds[OF assms(1)] assms(2)[OF x] x x' by auto
    have g: "blk_get 256 ?d' (secno t' sec') = (if (t', sec') = (t, sec) then b' else blk_get 256 d (secno t' sec'))"
      using disk.get_put_if[OF ts(4) b'(4) l(2)] secno_inj[OF ts(3) b'(3), of t t'] by auto
    have "entry_of t' sec' (blk_get 256 ?d' (secno t' sec')) k
        = Option.bind (entry_of t' sec' (blk_get 256 d (secno t' sec')) k) f" if k: "k < 7" for k
    proof (cases "(t', sec', k) = (t, sec, e)")
      case True
      then show ?thesis using g assms(7) by simp
    next
      case False
      then have n: "mk_ino t' sec' k \<noteq> mk_ino t sec e"
        using mk_ino_inj[of t' sec' k t sec e] b' ts k assms(4) by auto
      have "entry_of t' sec' (blk_get 256 ?d' (secno t' sec')) k = entry_of t' sec' (blk_get 256 d (secno t' sec')) k"
        using g False same_outside_entry[OF assms(5) l(1) _ k, of t sec] by (cases "(t', sec') = (t, sec)") auto
      then show ?thesis using assms(6)[OF n] by (auto simp: entry_of_def)
    qed
    then have "List.map_filter (entry_of t' sec' (blk_get 256 ?d' (secno t' sec'))) [0..<7]
        = List.map_filter (\<lambda>k. Option.bind (entry_of t' sec' (blk_get 256 d (secno t' sec')) k) f) [0..<7]"
      by (intro map_filter_cong) simp_all
    then show ?thesis using x' mf by (simp add: live_entries_def)
  qed
  have app: "List.map_filter f (concat (map g xs)) = concat (map (\<lambda>x. List.map_filter f (g x)) xs)"
    for g :: "nat \<times> nat \<Rightarrow> (u32 \<times> bytes) list" and xs
    by (induction xs) (auto simp: map_filter_append)
  have "map (\<lambda>x. live_entries x ?d') L = map (\<lambda>x. List.map_filter f (live_entries x d)) L"
    using one by simp
  then show ?thesis by (simp only: catalog_def app)
qed

section \<open>Unlinking and linking\<close>

text \<open>The inode is that of an entry of a catalog sector of the directory.\<close>

definition in_catalog :: "nat \<Rightarrow> fs_state \<Rightarrow> nat \<times> nat \<Rightarrow> (nat \<times> nat) list \<Rightarrow> inode \<Rightarrow> nat \<Rightarrow> nat \<Rightarrow> nat \<Rightarrow> bool" where
  "in_catalog s fs start L ino t sec e \<longleftrightarrow> i_sb ino = Some s \<and> i_number ino = mk_ino t sec e \<and> e < 7
     \<and> cat_chain (disk_of s fs) (fst start) (snd start) L \<and> (t, sec) \<in> set L \<and> (\<forall>x \<in> set L. snd x < 16)"

lemma in_catalogD:
  assumes "in_catalog s fs start L ino t sec e" "vol_ok s fs"
  shows "inode_to_block (i_number ino) = secno t sec * 256" "ino_e (i_number ino) = e"
    "blk_valid 256 (disk_of s fs) (secno t sec)" "length (blk_get 256 (disk_of s fs) (secno t sec)) = 256"
    "dos_read s (secno t sec * 256) [] fs = Some (blk_get 256 (disk_of s fs) (secno t sec))"
proof -
  have c: "cat_chain (disk_of s fs) (fst start) (snd start) L" "(t, sec) \<in> set L" "e < 256"
    using assms(1) by (auto simp: in_catalog_def)
  note b = chain_bounds[OF c(1,2)]
  have n: "i_number ino = mk_ino t sec e" using assms(1) by (simp add: in_catalog_def)
  show "inode_to_block (i_number ino) = secno t sec * 256" "ino_e (i_number ino) = e"
    using mk_ino_parts[of t sec e] b c(3) by (simp_all add: n inode_to_block_def ts_secno)
  show v: "blk_valid 256 (disk_of s fs) (secno t sec)" using b by simp
  then show "length (blk_get 256 (disk_of s fs) (secno t sec)) = 256" by (rule disk.length_get)
  show "dos_read s (secno t sec * 256) [] fs = Some (blk_get 256 (disk_of s fs) (secno t sec))"
    using dos_read_eq[OF assms(2) v] by simp
qed

text \<open>
  C7: \<open>dos33fs_unlink_inode\<close> removes exactly the unlinked file from the directory: every other
  file keeps its inode number, its name and its place in the listing, and the chain of catalog
  sectors stays intact.
\<close>

theorem unlink_removes_entry:
  assumes "vol_ok s fs" and "in_catalog s fs start L ino t sec e"
  shows "\<exists>fs'. dos33fs_unlink_inode ino fs = Some (0, fs') \<and> vol_ok s fs'
    \<and> cat_chain (disk_of s fs') (fst start) (snd start) L
    \<and> catalog (disk_of s fs') L = filter (\<lambda>(n, _). n \<noteq> i_number ino) (catalog (disk_of s fs) L)"
proof -
  note D = in_catalogD[OF assms(2,1)]
  let ?b = "blk_get 256 (disk_of s fs) (secno t sec)"
  define b' where "b' = ?b[cat_pos e := 0xfe, cat_pos e + 0x20 := ?b ! cat_pos e]"
  define fs' where "fs' = put_disk s (blk_put 256 (secno t sec) b' (disk_of s fs)) fs"
  have e: "e < 7" "cat_pos e + 35 \<le> 256" "i_sb ino = Some s" "i_number ino = mk_ino t sec e"
    using assms(2) cat_pos_bound by (auto simp: in_catalog_def)
  have "dos_write s (secno t sec * 256) b' fs = Some fs'"
    unfolding fs'_def by (rule dos_write_eq[OF assms(1) D(3)]) (simp add: b'_def D(4))
  then have run: "dos33fs_unlink_inode ino fs = Some (0, fs')"
    using D e by (simp add: dos33fs_unlink_inode_def b'_def)
  have so: "same_outside e ?b b'" by (auto simp: same_outside_def b'_def nth_list_update)
  have "entry_of t sec b' e = None" using D(4) e(2) by (simp add: entry_of_def b'_def)
  moreover define f where "f = (\<lambda>x :: u32 \<times> bytes. if fst x \<noteq> i_number ino then Some x else None)"
  moreover have "Option.bind (entry_of t sec ?b e) f = None" by (simp add: entry_of_def f_def e(4))
  ultimately have "catalog (blk_put 256 (secno t sec) b' (disk_of s fs)) L = List.map_filter f (catalog (disk_of s fs) L)"
    using assms(2) so by (intro catalog_patch) (auto simp: in_catalog_def e(4))
  moreover have "List.map_filter f xs = filter (\<lambda>(n, _). n \<noteq> i_number ino) xs" for xs
    by (induction xs) (auto simp: map_filter_simps f_def)
  moreover have "cat_chain (blk_put 256 (secno t sec) b' (disk_of s fs)) (fst start) (snd start) L"
    by (rule chain_patch[OF _ _ D(3) _ so e(1)]) (use assms(2) in \<open>auto simp: in_catalog_def\<close>)
  ultimately show ?thesis using run assms(1) by (simp add: fs'_def)
qed

text \<open>
  \<open>dos33fs_link_inode\<close> renames exactly the one file: when its entry is in use, the directory
  lists it under the new name afterwards, and everything else in it is unchanged.
\<close>

theorem link_names_entry:
  assumes "vol_ok s fs" and "in_catalog s fs start L ino t sec e" and "name_ok name"
  shows "\<exists>ino' fs'. dos33fs_link_inode ino name fs = Some (0, ino', fs') \<and> vol_ok s fs'
    \<and> i_hard_links ino' = i_hard_links ino + 1
    \<and> cat_chain (disk_of s fs') (fst start) (snd start) L
    \<and> catalog (disk_of s fs') L
        = map (\<lambda>(n, nm). (n, if n = i_number ino then name else nm)) (catalog (disk_of s fs) L)"
proof -
  note D = in_catalogD[OF assms(2,1)]
  let ?b = "blk_get 256 (disk_of s fs) (secno t sec)"
  have nl: "strlen name \<le> 30" using assms(3) by (auto simp: name_ok_def strlen_cstr cstr_def intro: le_trans[OF length_takeWhile_le])
  define b' where "b' = take (cat_pos e + 3) ?b @ encode_name name @ drop (cat_pos e + 3 + 30) ?b"
  define fs' where "fs' = put_disk s (blk_put 256 (secno t sec) b' (disk_of s fs)) fs"
  have e: "e < 7" "cat_pos e + 35 \<le> 256" "i_sb ino = Some s" "i_number ino = mk_ino t sec e"
    using assms(2) cat_pos_bound by (auto simp: in_catalog_def)
  have lb: "length b' = 256" using D(4) e(2) nl by (simp add: b'_def)
  have sp: "splice ?b (cat_pos e + 3) (encode_name name) = Some b'"
    using D(4) e(2) nl by (simp add: splice_def b'_def)
  have nth: "b' ! i = (if cat_pos e + 3 \<le> i \<and> i < cat_pos e + 33 then encode_name name ! (i - (cat_pos e + 3)) else ?b ! i)"
    if "i < 256" for i
    using nth_spliced[of "cat_pos e + 3" "encode_name name" ?b i] that D(4) e(2) nl by (simp add: b'_def)
  have "dos_write s (secno t sec * 256) b' fs = Some fs'"
    unfolding fs'_def by (rule dos_write_eq[OF assms(1) D(3) lb])
  then have run: "dos33fs_link_inode ino name fs = Some (0, ino\<lparr>i_hard_links := i_hard_links ino + 1\<rparr>, fs')"
    using D e nl sp by (simp add: dos33fs_link_inode_def)
  have so: "same_outside e ?b b'"
    unfolding same_outside_def
  proof (intro conjI allI impI)
    show "length b' = length ?b" using lb D(4) by simp
    fix i :: nat assume "i < 256" and i: "\<not> (cat_pos e \<le> i \<and> i < cat_pos e + 35)"
    show "b' ! i = ?b ! i" using nth[OF \<open>i < 256\<close>] i by auto
  qed
  define f where "f = (\<lambda>(n, nm). Some (n, if n = i_number ino then name else nm) :: (u32 \<times> bytes) option)"
  have "take 30 (drop (cat_pos e + 3) b') = encode_name name" using D(4) e(2) nl by (simp add: b'_def)
  then have "entry_of t sec b' e = Option.bind (entry_of t sec ?b e) f"
    using nth[of "cat_pos e"] e(2,4) decode_encode_name_eq[OF assms(3)] by (auto simp: entry_of_def f_def)
  then have "catalog (blk_put 256 (secno t sec) b' (disk_of s fs)) L = List.map_filter f (catalog (disk_of s fs) L)"
    using assms(2) so by (intro catalog_patch) (auto simp: in_catalog_def e(4) f_def)
  moreover have "List.map_filter f xs = map (\<lambda>(n, nm). (n, if n = i_number ino then name else nm)) xs" for xs
    by (induction xs) (auto simp: map_filter_simps f_def)
  moreover have "cat_chain (blk_put 256 (secno t sec) b' (disk_of s fs)) (fst start) (snd start) L"
    by (rule chain_patch[OF _ _ D(3) _ so e(1)]) (use assms(2) in \<open>auto simp: in_catalog_def\<close>)
  ultimately show ?thesis using run assms(1) by (simp add: fs'_def)
qed

lemma demo_in_catalog: "in_catalog 0 (demo_fs demo_disk b) (17, 15) [(17, 15), (17, 14)] demo_ino 17 15 0"
  by (simp add: in_catalog_def demo_ino_def demo_chain mk_ino_def)

lemma unlink_removes_entry_witness:
  "\<exists>fs'. dos33fs_unlink_inode demo_ino (demo_fs demo_disk 3) = Some (0, fs')
    \<and> catalog (disk_of 0 fs') [(17, 15), (17, 14)] = []"
proof -
  have ok: "vol_ok 0 (demo_fs demo_disk 3)" by (rule demo_vol_ok) simp
  have n: "i_number demo_ino = 0x110f00" by (simp add: demo_ino_def)
  from unlink_removes_entry[OF ok demo_in_catalog] show ?thesis
    by (auto simp: demo_catalog n)
qed

lemma link_names_entry_witness:
  "\<exists>ino' fs'. dos33fs_link_inode demo_ino [66, 89, 69] (demo_fs demo_disk 3) = Some (0, ino', fs')
    \<and> catalog (disk_of 0 fs') [(17, 15), (17, 14)] = [(0x110f00, [66, 89, 69])]"
proof -
  have ok: "vol_ok 0 (demo_fs demo_disk 3)" by (rule demo_vol_ok) simp
  have n: "i_number demo_ino = 0x110f00" by (simp add: demo_ino_def)
  have "name_ok [66, 89, 69]" by (simp add: name_ok_def)
  from link_names_entry[OF ok demo_in_catalog this] show ?thesis
    by (auto simp: demo_catalog n)
qed

end
