(* ===== verification/Dos33_File.thy ===== *)
theory Dos33_File
  imports Dos33_Catalog
begin

text \<open>
  The contents of files on a DOS 3.3 volume (\<open>kernel/fs/dos33fs/dos33fs.c\<close>): reading, growing,
  writing, shrinking and destroying a file through its track/sector lists, listing a directory,
  and mounting.

  The two blocks \<open>current_block\<close> and \<open>current_data\<close> of the C functions are kept in the state of
  their loops, since a link is followed from whatever \<open>current_block\<close> holds at that point.
\<close>

abbreviation (input) "DOS33_MAX_TS_ENTRIES \<equiv> 122 :: nat"
abbreviation (input) "DOS33_TS_NEXT_T \<equiv> 1 :: nat"
abbreviation (input) "DOS33_TS_NEXT_S \<equiv> 2 :: nat"

section \<open>Walking the track/sector lists\<close>

text \<open>
  The state of a walk: the next list's track and sector, the address of the current list, and the
  block.  One step of \<open>while (advance_ts)\<close>: the pointers for the time after next are taken from the
  block before it is replaced.
\<close>

record walk =
  next_t :: nat
  next_s :: nat
  block_location :: nat
  current_block :: bytes

text \<open>\<open>None\<close> inside the option is the exit ``Off end''.\<close>

definition advance_one :: "nat \<Rightarrow> fs_state \<Rightarrow> walk \<Rightarrow> walk option option" where
  "advance_one s fs w =
     (let loc = ts (next_t w) (next_s w) in
      if loc = 0 then Some None
      else do {
        t \<leftarrow> rd (current_block w) DOS33_TS_NEXT_T;
        sec \<leftarrow> rd (current_block w) DOS33_TS_NEXT_S;
        blk \<leftarrow> dos_read s loc (current_block w) fs;
        Some (Some (w\<lparr>next_t := unat t, next_s := unat sec, block_location := loc, current_block := blk\<rparr>)) })"

fun advance_lists :: "nat \<Rightarrow> nat \<Rightarrow> fs_state \<Rightarrow> walk \<Rightarrow> walk option option" where
  "advance_lists 0 s fs w = Some (Some w)"
| "advance_lists (Suc n) s fs w = do {
     r \<leftarrow> advance_one s fs w;
     (case r of None \<Rightarrow> Some None | Some w' \<Rightarrow> advance_lists n s fs w') }"

text \<open>
  Loading the catalog entry, the start of every function below: the block holds the catalog
  sector, the pointers those of the entry.
\<close>

definition load_entry :: "inode \<Rightarrow> fs_state \<Rightarrow> (nat \<times> byte \<times> walk) option" where
  "load_entry ino fs = do {
     s \<leftarrow> i_sb ino;
     let n = i_number ino;
     cat \<leftarrow> dos_read s (ts (ino_t n) (ino_s n)) [] fs;
     (t, sec) \<leftarrow> entry_ts cat (ino_e n);
     type \<leftarrow> rd cat (cat_pos (ino_e n) + DOS33_CAT_OFFSET_FILE_TYPE);
     Some (s, type AND 0x7f, \<lparr>next_t = t, next_s = sec, block_location = ts (ino_t n) (ino_s n),
                              current_block = cat\<rparr>) }"

text \<open>For binary files the address and length at the start are skipped.\<close>

definition adjusted :: "byte \<Rightarrow> nat \<Rightarrow> nat" where
  "adjusted type off = (if type = DOS33_FILE_TYPE_B then off + 4 else off)"

definition ts_entry :: "bytes \<Rightarrow> nat \<Rightarrow> (nat \<times> nat) option" where
  "ts_entry blk which = do {
     t \<leftarrow> rd blk (DOS33_TS_FIRST_TS_T + 2 * which);
     sec \<leftarrow> rd blk (DOS33_TS_FIRST_TS_S + 2 * which);
     Some (unat t, unat sec) }"

section \<open>Reading\<close>

record read_state =
  rw :: walk
  r_advance :: nat
  r_which :: nat
  r_offset :: nat
  r_current :: nat
  r_desired :: nat
  r_out :: bytes
  r_data :: bytes

text \<open>
  The second half of a round, with the data sector loaded: what is copied to the user's buffer and
  where the next round starts.  The result is the value returned and the bytes copied.  The sector
  after the last full one ends the read.
\<close>

definition read_copy :: "nat \<Rightarrow> nat \<Rightarrow> read_state \<Rightarrow> walk \<Rightarrow> bytes \<Rightarrow> (read_state + (int \<times> bytes)) option" where
  "read_copy last_sector last_off st w data = (
     let len0 = (if 256 - r_offset st > r_desired st then r_desired st else 256 - r_offset st);
         cut = (r_current st = last_sector \<and> r_offset st + len0 > last_off);
         len = (if cut then to_u32 (int last_off - int (r_offset st)) else len0);
         desired = (if cut then len else r_desired st)
     in do {
       chunk \<leftarrow> slice data (r_offset st) len;
       let out = r_out st @ chunk;
       if desired - len = 0 then Some (Inr (int (length out), out))
       else
         let wrap = r_which st + 1 \<ge> DOS33_MAX_TS_ENTRIES in
         Some (Inl (st\<lparr>rw := w, r_advance := (if wrap then 1 else 0),
           r_which := (if wrap then r_which st + 1 - DOS33_MAX_TS_ENTRIES else r_which st + 1),
           r_offset := 0, r_current := r_current st + 1, r_desired := desired - len,
           r_out := out, r_data := data\<rparr>)) })"

definition load_data :: "nat \<Rightarrow> nat \<times> nat \<Rightarrow> bytes \<Rightarrow> fs_state \<Rightarrow> bytes option" where
  "load_data s = (\<lambda>(t, sec) old fs. if t = 0 \<and> sec = 0 then Some (replicate 256 0) else dos_read s (ts t sec) old fs)"

definition read_step :: "nat \<Rightarrow> nat \<Rightarrow> nat \<Rightarrow> fs_state \<Rightarrow> read_state \<Rightarrow> (read_state + (int \<times> bytes)) option" where
  "read_step s last_sector last_off fs st = do {
     a \<leftarrow> advance_lists (r_advance st) s fs (rw st);
     (case a of None \<Rightarrow> Some (Inr (- ENOENT, r_out st))
      | Some w \<Rightarrow> do {
          p \<leftarrow> ts_entry (current_block w) (r_which st);
          data \<leftarrow> load_data s p (r_data st) fs;
          read_copy last_sector last_off st w data }) }"

text \<open>
  The value returned, the bytes stored and the new offset.  A size of \<open>2\<^sup>3\<^sup>1\<close> or more overflows
  the \<open>int32_t\<close> arithmetic on \<open>last_sector\<close>.  Every round but the first copies a whole sector.
\<close>

definition dos33fs_read_file :: "inode \<Rightarrow> nat \<Rightarrow> nat \<Rightarrow> fs_state \<Rightarrow> (int \<times> bytes \<times> nat) option" where
  "dos33fs_read_file ino desired_count file_offset fs = do {
     (s, type, w) \<leftarrow> load_entry ino fs;
     let adj = to_u32 (int (adjusted type file_offset));
     let last_sector = adjusted type (i_size ino) div DOS33_BLOCK_SIZE;
     let last_off = adjusted type (i_size ino) mod DOS33_BLOCK_SIZE;
     if adjusted type (i_size ino) \<ge> 2 ^ 31 then None
     else if file_offset > i_size ino then Some (0, [], file_offset)
     else do {
       let which = adj div DOS33_BLOCK_SIZE;
       (r, out) \<leftarrow> c_loop (desired_count div DOS33_BLOCK_SIZE + 3) (read_step s last_sector last_off fs)
         \<lparr>rw = w, r_advance = 1 + which div DOS33_MAX_TS_ENTRIES, r_which = which mod DOS33_MAX_TS_ENTRIES,
          r_offset = adj mod DOS33_BLOCK_SIZE, r_current = which, r_desired = desired_count,
          r_out = [], r_data = []\<rparr>;
       Some (r, out, if r > 0 then file_offset + nat r else file_offset) } }"

section \<open>Listing a directory\<close>

text \<open>\<open>total\<close> is the number of bytes used, \<open>cur\<close> the length of the entry looked at last.\<close>

record dents_state =
  d_total :: nat
  d_cur :: nat
  d_inode :: nat
  d_out :: "dirent list"

text \<open>The entries of one sector: \<open>i\<close> is the loop variable, \<open>off\<close> is \<open>cat_offset\<close>.\<close>

fun dents_sector :: "nat \<Rightarrow> nat \<Rightarrow> nat \<Rightarrow> bytes \<Rightarrow> nat \<Rightarrow> nat \<Rightarrow> nat \<Rightarrow> dents_state \<Rightarrow> dents_state option" where
  "dents_sector sz t sec blk 0 i off st = Some st"
| "dents_sector sz t sec blk (Suc r) i off st = do {
     let n = mk_ino t sec i;
     let st1 = st\<lparr>d_inode := unat n\<rparr>;
     c \<leftarrow> rd blk off;
     if c = 0 \<or> c = 0xff \<or> c = 0xfe then dents_sector sz t sec blk r (Suc i) (off + DOS33_CAT_ENTRY_SIZE) st1
     else do {
       raw \<leftarrow> slice blk (off + DOS33_CAT_OFFSET_FILE_NAME) DOS33_MAX_FILENAME_SIZE;
       let name = decode_name raw;
       let len = dirent_length (length name);
       let st2 = st1\<lparr>d_cur := len\<rparr>;
       if len + d_total st > sz then Some st2
       else dents_sector sz t sec blk r (Suc i) (off + DOS33_CAT_ENTRY_SIZE)
              (st2\<lparr>d_total := d_total st + len, d_out := d_out st @ [(n, len, name)]\<rparr>) } }"

definition dents_step :: "nat \<Rightarrow> nat \<Rightarrow> fs_state \<Rightarrow> nat \<times> nat \<times> nat \<times> bytes \<times> dents_state \<Rightarrow>
    ((nat \<times> nat \<times> nat \<times> bytes \<times> dents_state) + dents_state) option" where
  "dents_step s sz fs = (\<lambda>(t, sec, i, blk0, st). do {
     blk \<leftarrow> dos_read s (ts t sec) blk0 fs;
     st1 \<leftarrow> dents_sector sz t sec blk (DOS33_CAT_MAX_ENTRIES - i) i DOS33_CAT_FIRST_ENTRY st;
     if d_cur st1 + d_total st1 > sz then Some (Inr st1)
     else do {
       nt \<leftarrow> rd blk 1;
       ns \<leftarrow> rd blk 2;
       Some (if nt = 0 \<and> ns = 0 then Inr (st1\<lparr>d_inode := 0xffffffff\<rparr>)
             else Inl (unat nt, unat ns, 0, blk, st1)) } })"

text \<open>The two invented entries of the first call; \<open>None\<close> is the exit with \<open>-E2BIG\<close>.\<close>

definition dents_dots :: "nat \<Rightarrow> dents_state option" where
  "dents_dots sz =
     (let l1 = dirent_length 1; l2 = dirent_length 2 in
      if l1 > sz then None
      else if l2 + l1 > sz then None
      else Some \<lparr>d_total = l1 + l2, d_cur = l2, d_inode = 0, d_out = [(0xff, l1, [46]), (0xfe, l2, [46, 46])]\<rparr>)"

definition dos33fs_getdents :: "nat \<Rightarrow> inode \<Rightarrow> nat \<Rightarrow> nat \<Rightarrow> fs_state \<Rightarrow> (int \<times> dirent list \<times> nat) option" where
  "dos33fs_getdents fuel dir progress sz fs = do {
     s \<leftarrow> i_sb dir;
     if progress = 0xffffffff then Some (0, [], progress)
     else
       (case (if progress = 0 then dents_dots sz
              else Some \<lparr>d_total = 0, d_cur = 0, d_inode = progress mod 2 ^ 32, d_out = []\<rparr>) of
          None \<Rightarrow> Some (- E2BIG, if dirent_length 1 > sz then [] else [(0xff, dirent_length 1, [46])], progress)
        | Some st \<Rightarrow> do {
            let n = (if progress = 0 then i_number dir else of_nat progress);
            st1 \<leftarrow> c_loop fuel (dents_step s sz fs)
                     (ino_t n, ino_s n, if progress = 0 then 0 else ino_e n, [], st);
            Some (int (d_total st1), d_out st1, d_inode st1) }) }"

section \<open>The contents of a file\<close>

text \<open>
  A file with one track/sector list: the data sectors its list names, holes reading as zeros.
  \<open>tsl\<close> is the list's sector and \<open>d\<close> the disk.
\<close>

definition tsl_entry :: "bytes \<Rightarrow> nat \<Rightarrow> nat \<times> nat" where
  "tsl_entry tsl k = (unat (tsl ! (12 + 2 * k)), unat (tsl ! (13 + 2 * k)))"

definition data_sector :: "bytes \<Rightarrow> bytes \<Rightarrow> nat \<Rightarrow> bytes" where
  "data_sector d tsl k =
     (let (t, sec) = tsl_entry tsl k in
      if t = 0 \<and> sec = 0 then replicate 256 0 else blk_get 256 d (secno t sec))"

definition file_content :: "bytes \<Rightarrow> bytes \<Rightarrow> nat \<Rightarrow> bytes" where
  "file_content d tsl n = concat (map (data_sector d tsl) [0..<n])"

definition entry_ok :: "bytes \<Rightarrow> bytes \<Rightarrow> nat \<Rightarrow> bool" where
  "entry_ok d tsl k \<longleftrightarrow> (let (t, sec) = tsl_entry tsl k in (t = 0 \<and> sec = 0) \<or> blk_valid 256 d (secno t sec))"

lemma ts_entry_eq: "length tsl = 256 \<Longrightarrow> k < 122 \<Longrightarrow> ts_entry tsl k = Some (tsl_entry tsl k)"
  by (simp add: ts_entry_def tsl_entry_def)

lemma length_data_sector: "entry_ok d tsl k \<Longrightarrow> length (data_sector d tsl k) = 256"
  by (auto simp: entry_ok_def data_sector_def disk.length_get split: prod.splits)

lemma length_concat_const: "(\<And>x. x \<in> set xs \<Longrightarrow> length (f x) = n) \<Longrightarrow> length (concat (map f xs)) = n * length xs"
  by (induction xs) auto

lemma drop_concat_const:
  "(\<And>x. x \<in> set xs \<Longrightarrow> length (f x) = n) \<Longrightarrow> k < length xs \<Longrightarrow> o1 \<le> n \<Longrightarrow>
     drop (k * n + o1) (concat (map f xs)) = drop o1 (f (xs ! k)) @ drop ((k + 1) * n) (concat (map f xs))"
proof (induction xs arbitrary: k)
  case (Cons x xs)
  have l: "length (f x) = n" using Cons.prems(1) by simp
  show ?case
  proof (cases k)
    case 0
    then show ?thesis using l Cons.prems(3) by simp
  next
    case (Suc j)
    then show ?thesis using Cons.IH[of j] Cons.prems l by (simp add: add.assoc)
  qed
qed simp

text \<open>A piece of one sector is a piece of the file.\<close>

lemma file_piece:
  assumes "\<And>j. j < n \<Longrightarrow> entry_ok d tsl j" "k < n" "o1 + len \<le> 256"
  shows "take len (drop o1 (data_sector d tsl k)) = take len (drop (k * 256 + o1) (file_content d tsl n))"
proof -
  have "drop (k * 256 + o1) (file_content d tsl n)
      = drop o1 (data_sector d tsl ([0..<n] ! k)) @ drop ((k + 1) * 256) (file_content d tsl n)"
    unfolding file_content_def by (rule drop_concat_const) (use assms length_data_sector in auto)
  moreover have "length (drop o1 (data_sector d tsl k)) \<ge> len"
    using length_data_sector[OF assms(1)[OF assms(2)]] assms(3) by simp
  ultimately show ?thesis using assms(2) by simp
qed

text \<open>One round in the middle of a file of one list.\<close>

definition in_file :: "bytes \<Rightarrow> nat \<Rightarrow> nat \<Rightarrow> nat \<Rightarrow> read_state \<Rightarrow> bool" where
  "in_file tsl k o1 n st \<longleftrightarrow> r_advance st = 0 \<and> current_block (rw st) = tsl \<and> r_which st = k \<and> r_current st = k
     \<and> r_offset st = o1 \<and> r_desired st = n"

lemma load_data_eq:
  assumes "vol_ok s fs" "entry_ok (disk_of s fs) tsl k" "r = [] \<or> length r = 256"
  shows "load_data s (tsl_entry tsl k) r fs = Some (data_sector (disk_of s fs) tsl k)"
  using assms dos_read_eq[OF assms(1), of "secno (fst (tsl_entry tsl k)) (snd (tsl_entry tsl k))"]
    disk.length_get[of "disk_of s fs" "secno (fst (tsl_entry tsl k)) (snd (tsl_entry tsl k))"]
  by (auto simp: entry_ok_def data_sector_def ts_secno load_data_def split: prod.splits)

lemma read_copy_eq:
  assumes "length data = 256" "k \<le> L" "L < 122" "in_file tsl k o1 n st" "o1 < 256" "lo < 256"
    and "k = L \<longrightarrow> o1 \<le> lo"
  shows "read_copy L lo st w data =
    (if n \<le> 256 - o1 \<or> k = L
     then (let out = r_out st @ take (min n ((L - k) * 256 + lo - o1)) (drop o1 data) in Some (Inr (int (length out), out)))
     else Some (Inl (st\<lparr>rw := w, r_advance := 0, r_which := k + 1, r_offset := 0, r_current := k + 1,
       r_desired := n - (256 - o1), r_out := r_out st @ drop o1 data, r_data := data\<rparr>)))"
proof -
  have st: "r_which st = k" "r_current st = k" "r_offset st = o1" "r_desired st = n"
    using assms(4) by (simp_all add: in_file_def)
  consider "k = L" "o1 + (if 256 - o1 > n then n else 256 - o1) > lo"
    | "k = L" "o1 + (if 256 - o1 > n then n else 256 - o1) \<le> lo" | "k < L" "n \<le> 256 - o1" | "k < L" "\<not> n \<le> 256 - o1"
    using assms(2) by linarith
  then show ?thesis
  proof cases
    case 1
    then have "min n (lo - o1) = lo - o1" by (auto split: if_splits)
    moreover have "to_u32 (int lo - int o1) = lo - o1" using 1 assms(6,7) by (simp add: nat_diff_distrib)
    ultimately show ?thesis using 1 assms(1,5-7) st
      by (cases "n < 256 - o1") (simp_all add: read_copy_def Let_def slice_eq of_nat_diff)
  next
    case 2
    then have "n \<le> lo - o1" "n \<le> 256 - o1" using assms(5,6) by (auto split: if_splits)
    then show ?thesis using 2 assms(1,5-7) st
      by (cases "n = 256 - o1") (simp_all add: read_copy_def Let_def slice_eq min_absorb1)
  next
    case 3
    then have "n \<le> (L - k) * 256 + lo - o1" using assms(5) by (cases "L - k") auto
    then show ?thesis using 3 assms(1,5) st
      by (cases "n = 256 - o1") (simp_all add: read_copy_def Let_def slice_eq min_absorb1)
  next
    case 4
    then have "\<not> 122 \<le> k + 1" using assms(3) by simp
    then show ?thesis using 4 assms(1,5) st by (simp add: read_copy_def Let_def slice_eq)
  qed
qed

lemma read_step_eq:
  assumes "vol_ok s fs" "length tsl = 256" "entry_ok (disk_of s fs) tsl k" "k < 122"
    and "in_file tsl k o1 n st" "r_data st = [] \<or> length (r_data st) = 256"
  shows "read_step s L lo fs st = read_copy L lo st (rw st) (data_sector (disk_of s fs) tsl k)"
  using assms ts_entry_eq[OF assms(2,4)] load_data_eq[OF assms(1,3,6)]
  by (simp add: read_step_def in_file_def)

lemma read_loop:
  assumes "vol_ok s fs" "length tsl = 256" "\<And>j. j \<le> L \<Longrightarrow> entry_ok (disk_of s fs) tsl j" "L < 122" "lo < 256"
    and "in_file tsl k o1 n st" "k \<le> L" "o1 < 256" "k = L \<longrightarrow> o1 \<le> lo"
    and "r_data st = [] \<or> length (r_data st) = 256" "(o1 + n) div 256 < fuel"
  shows "c_loop fuel (read_step s L lo fs) st =
    (let out = r_out st @ take (min n ((L - k) * 256 + lo - o1)) (drop (k * 256 + o1) (file_content (disk_of s fs) tsl (Suc L)))
     in Some (int (length out), out))"
  using assms(6-11)
proof (induction fuel arbitrary: k o1 n st)
  case (Suc fuel)
  let ?d = "disk_of s fs"
  let ?c = "file_content ?d tsl (Suc L)" and ?data = "data_sector ?d tsl k"
  have k: "k < 122" "entry_ok ?d tsl k" using assms(3,4) Suc.prems(2) by auto
  have l: "length ?data = 256" using k(2) by (rule length_data_sector)
  have ent: "entry_ok ?d tsl j" if "j < Suc L" for j using assms(3) that by simp
  have step: "read_step s L lo fs st = read_copy L lo st (rw st) ?data"
    by (rule read_step_eq[OF assms(1,2) k(2,1) Suc.prems(1,5)])
  note copy = read_copy_eq[OF l Suc.prems(2) assms(4) Suc.prems(1,3) assms(5) Suc.prems(4), of "rw st"]
  have piece: "take m (drop o1 ?data) = take m (drop (k * 256 + o1) ?c)" if "o1 + m \<le> 256" for m
    using file_piece[of "Suc L" ?d tsl k o1 m] ent that Suc.prems(2) by simp
  show ?case
  proof (cases "n \<le> 256 - o1 \<or> k = L")
    case True
    have "o1 + min n ((L - k) * 256 + lo - o1) \<le> 256" using True Suc.prems(3,4) assms(5) by auto
    from piece[OF this] True step copy show ?thesis by (simp add: Let_def)
  next
    case False
    define st' where "st' = st\<lparr>rw := rw st, r_advance := 0, r_which := k + 1, r_offset := 0, r_current := k + 1,
       r_desired := n - (256 - o1), r_out := r_out st @ drop o1 ?data, r_data := ?data\<rparr>"
    have in': "in_file tsl (k + 1) 0 (n - (256 - o1)) st'"
      using Suc.prems(1) by (simp add: st'_def in_file_def)
    have run: "c_loop (Suc fuel) (read_step s L lo fs) st = c_loop fuel (read_step s L lo fs) st'"
      using step copy False by (simp add: st'_def)
    have f: "(0 + (n - (256 - o1))) div 256 < fuel"
    proof -
      have "o1 + n = (n - (256 - o1)) + 256" using Suc.prems(3) False by linarith
      then have "(o1 + n) div 256 = (n - (256 - o1)) div 256 + 1" by (simp only: div_add_self2 numeral_neq_zero not_False_eq_True)
      then show ?thesis using Suc.prems(6) by simp
    qed
    have ih: "c_loop fuel (read_step s L lo fs) st' =
      (let out = r_out st' @ take (min (n - (256 - o1)) ((L - (k + 1)) * 256 + lo - 0)) (drop ((k + 1) * 256 + 0) ?c)
       in Some (int (length out), out))"
      by (rule Suc.IH[OF in']) (use False Suc.prems(2) l f in \<open>auto simp: st'_def\<close>)
    have first: "drop o1 ?data = take (256 - o1) (drop (k * 256 + o1) ?c)"
      using piece[of "256 - o1"] l Suc.prems(3) by simp
    have join: "take (256 - o1) (drop (k * 256 + o1) ?c) @ take m (drop ((k + 1) * 256) ?c)
        = take (256 - o1 + m) (drop (k * 256 + o1) ?c)" for m
      using take_add[of "256 - o1" m "drop (k * 256 + o1) ?c"] Suc.prems(3) by simp
    have sum: "256 - o1 + min (n - (256 - o1)) ((L - (k + 1)) * 256 + lo) = min n ((L - k) * 256 + lo - o1)"
    proof -
      obtain j where "L - k = Suc j" using False Suc.prems(2) by (metis Suc_diff_Suc le_neq_implies_less)
      then have "L - (k + 1) = j" "L - k = Suc j" by simp_all
      then show ?thesis using False Suc.prems(3) by (simp only: min_def) (auto simp: add.assoc split: if_splits)
    qed
    have "r_out st' @ take (min (n - (256 - o1)) ((L - (k + 1)) * 256 + lo - 0)) (drop ((k + 1) * 256 + 0) ?c)
        = r_out st @ take (min n ((L - k) * 256 + lo - o1)) (drop (k * 256 + o1) ?c)"
      unfolding sum[symmetric] join[symmetric] by (simp add: st'_def first)
    then show ?thesis using ih unfolding run by (simp only:)
  qed
qed simp

section \<open>Reading a file\<close>

text \<open>The inode is a file whose catalog entry leads to the one track/sector list \<open>tsl\<close>.\<close>

definition file_at :: "nat \<Rightarrow> fs_state \<Rightarrow> inode \<Rightarrow> byte \<Rightarrow> nat \<times> nat \<Rightarrow> bytes \<Rightarrow> bool" where
  "file_at s fs ino type l tsl \<longleftrightarrow> i_sb ino = Some s \<and> ino_e (i_number ino) < 7
     \<and> (let d = disk_of s fs; k = secno (ino_t (i_number ino)) (ino_s (i_number ino)); cat = blk_get 256 d k in
        blk_valid 256 d k \<and> entry_ts cat (ino_e (i_number ino)) = Some l
        \<and> type = (cat ! (cat_pos (ino_e (i_number ino)) + 2)) AND 0x7f
        \<and> l \<noteq> (0, 0) \<and> blk_valid 256 d (secno (fst l) (snd l)) \<and> tsl = blk_get 256 d (secno (fst l) (snd l)))"

lemma ts_0_iff: "ts t sec = 0 \<longleftrightarrow> t = 0 \<and> sec = 0"
  by (simp add: ts_def)

lemma load_entry_eq:
  assumes "vol_ok s fs" "file_at s fs ino type l tsl"
  shows "\<exists>w. load_entry ino fs = Some (s, type, w) \<and> next_t w = fst l \<and> next_s w = snd l
    \<and> length (current_block w) = 256"
proof -
  let ?k = "secno (ino_t (i_number ino)) (ino_s (i_number ino))"
  have v: "blk_valid 256 (disk_of s fs) ?k" using assms(2) by (simp add: file_at_def Let_def)
  have e: "cat_pos (ino_e (i_number ino)) + 2 < 256" using assms(2) by (simp add: file_at_def cat_pos_def)
  show ?thesis
    using assms v e disk.length_get[OF v] dos_read_eq[OF assms(1) v, of "[]"]
    by (cases l) (simp add: file_at_def load_entry_def ts_secno Let_def)
qed

lemma advance_first:
  assumes "vol_ok s fs" "file_at s fs ino type l tsl" "next_t w = fst l" "next_s w = snd l" "length (current_block w) = 256"
  shows "\<exists>w'. advance_lists 1 s fs w = Some (Some w') \<and> current_block w' = tsl
    \<and> block_location w' = ts (fst l) (snd l)"
proof -
  have v: "blk_valid 256 (disk_of s fs) (secno (fst l) (snd l))" "ts (fst l) (snd l) \<noteq> 0"
    "tsl = blk_get 256 (disk_of s fs) (secno (fst l) (snd l))"
    using assms(2) by (auto simp: file_at_def Let_def ts_0_iff prod_eq_iff)
  have "dos_read s (ts (fst l) (snd l)) (current_block w) fs = Some tsl"
    using dos_read_eq[OF assms(1) v(1), of "current_block w"] disk.length_get[OF v(1)] v(3) assms(5)
    by (simp add: ts_secno)
  then show ?thesis using v(2) assms(3-5) by (simp add: advance_one_def)
qed

lemma read_copy_walk: "read_copy L lo (st\<lparr>rw := x, r_advance := y\<rparr>) = read_copy L lo st"
  by (intro ext, cases st) (simp add: read_copy_def Let_def cong: if_cong)

lemma block_rest: "k \<le> L \<Longrightarrow> (L - k) * 256 + lo - o1 = (L * 256 + lo) - (k * 256 + o1 :: nat)"
  by (simp add: diff_mult_distrib)

lemma read_step_first:
  assumes "advance_lists (r_advance st) s fs (rw st) = Some (Some w')"
  shows "read_step s L lo fs st = read_step s L lo fs (st\<lparr>rw := w', r_advance := 0\<rparr>)"
  using assms by (simp add: read_step_def read_copy_walk)

lemma read_file_correct_eq:
  assumes "vol_ok s fs" and "file_at s fs ino type l tsl"
    and "adjusted type (i_size ino) div 256 < 122"
    and "\<And>j. j \<le> adjusted type (i_size ino) div 256 \<Longrightarrow> entry_ok (disk_of s fs) tsl j"
    and "off \<le> i_size ino"
  shows "dos33fs_read_file ino n off fs =
    (let out = take (min n (i_size ino - off)) (drop (adjusted type off)
                 (file_content (disk_of s fs) tsl (Suc (adjusted type (i_size ino) div 256))))
     in Some (int (length out), out, off + length out))"
proof -
  let ?A = "adjusted type (i_size ino)" and ?a = "adjusted type off"
  let ?L = "?A div 256" and ?lo = "?A mod 256" and ?k = "?a div 256" and ?o = "?a mod 256"
  let ?c = "file_content (disk_of s fs) tsl (Suc ?L)"
  have small: "?A < 31232" using assms(3) by simp
  have a: "?a \<le> ?A" "?A - ?a = i_size ino - off" using assms(5) by (simp_all add: adjusted_def)
  obtain w where w: "load_entry ino fs = Some (s, type, w)" "next_t w = fst l" "next_s w = snd l"
    "length (current_block w) = 256" using load_entry_eq[OF assms(1,2)] by blast
  obtain w' where w': "advance_lists 1 s fs w = Some (Some w')" "current_block w' = tsl"
    using advance_first[OF assms(1,2) w(2-4)] by blast
  have tl: "length tsl = 256" using assms(2) disk.length_get by (auto simp: file_at_def Let_def)
  have kL: "?k \<le> ?L" using a(1) by (rule div_le_mono)
  then have k122: "?k < 122" using assms(3) by simp
  define st where "st = \<lparr>rw = w, r_advance = 1 + ?k div 122, r_which = ?k mod 122, r_offset = ?o, r_current = ?k,
    r_desired = n, r_out = [], r_data = []\<rparr>"
  define st' where "st' = st\<lparr>rw := w', r_advance := 0\<rparr>"
  have adv: "advance_lists (r_advance st) s fs (rw st) = Some (Some w')" using w'(1) k122 by (simp add: st_def)
  have "c_loop (n div 256 + 3) (read_step s ?L ?lo fs) st = c_loop (n div 256 + 3) (read_step s ?L ?lo fs) st'"
    using read_step_first[OF adv, of ?L ?lo] by (simp add: st'_def numeral_3_eq_3)
  also have "\<dots> = (let out = r_out st' @ take (min n ((?L - ?k) * 256 + ?lo - ?o)) (drop (?k * 256 + ?o) ?c)
     in Some (int (length out), out))"
  proof (rule read_loop[OF assms(1) tl])
    show "in_file tsl ?k ?o n st'" using w'(2) k122 by (simp add: in_file_def st'_def st_def)
    show "?k = ?L \<longrightarrow> ?o \<le> ?lo" using a(1) by (metis div_mult_mod_eq nat_add_left_cancel_le)
    show "(?o + n) div 256 < n div 256 + 3" by linarith
  qed (use assms(3,4) kL in \<open>simp_all add: st'_def st_def\<close>)
  also have "(?L - ?k) * 256 + ?lo - ?o = i_size ino - off"
    using block_rest[OF kL, of ?lo ?o] a(2) by (simp only: div_mult_mod_eq)
  also have "?k * 256 + ?o = ?a" by simp
  finally have loop: "c_loop (n div 256 + 3) (read_step s ?L ?lo fs) st
      = (let out = take (min n (i_size ino - off)) (drop ?a ?c) in Some (int (length out), out))"
    by (simp add: st'_def st_def)
  have "to_u32 (int ?a) = ?a" using a(1) small by simp
  then show ?thesis
    using w(1) small assms(5) loop by (auto simp: dos33fs_read_file_def st_def Let_def)
qed

text \<open>
  C5: Reading a file of one track/sector list, that is of fewer than 31232 bytes with the four in front of a binary program, returns exactly
  the bytes of the file from the offset on, as many as were asked for or as there are up to the file's size, and advances the offset by
  that number; holes read as zeros, and for binary files the four bytes at the start are skipped.  Of a longer file the bytes in the sectors
  from the 123rd on are not found: the code follows the wrong link to the second list (\<open>second_list_from_catalog\<close>).
\<close>

theorem read_file_correct:
  assumes "vol_ok s fs" and "file_at s fs ino type l tsl"
    and "adjusted type (i_size ino) div 256 < 122"
    and "\<And>j. j \<le> adjusted type (i_size ino) div 256 \<Longrightarrow> entry_ok (disk_of s fs) tsl j"
    and "off \<le> i_size ino"
  shows "dos33fs_read_file ino n off fs =
    (let out = take (min n (i_size ino - off)) (drop (adjusted type off)
                 (file_content (disk_of s fs) tsl (Suc (adjusted type (i_size ino) div 256))))
     in Some (int (length out), out, off + length out))"
  using assms by (rule read_file_correct_eq)

lemma demo_file_at: "file_at 0 (demo_fs demo_disk b) demo_ino 4 (18, 0) demo_tsl"
  by (simp add: file_at_def demo_ino_def demo_ino_parts secno_def Let_def blk_valid_def demo_sectors
      entry_ts_def cat_pos_def demo_cat_nth)

lemma read_file_correct_witness:
  "dos33fs_read_file demo_ino 3 1 (demo_fs demo_disk 3) = Some (3, [2, 3, 4], 4)"
proof -
  have ok: "vol_ok 0 (demo_fs demo_disk 3)" by (rule demo_vol_ok) simp
  have tsl: "tsl_entry demo_tsl 0 = (18, 1)" by (simp add: tsl_entry_def demo_tsl_def)
  have c: "file_content demo_disk demo_tsl (Suc 0) = demo_data"
    by (simp add: file_content_def data_sector_def tsl secno_def demo_sectors)
  have "dos33fs_read_file demo_ino 3 1 (demo_fs demo_disk 3) =
    (let out = take (min 3 (i_size demo_ino - 1)) (drop (adjusted 4 1)
                 (file_content (disk_of 0 (demo_fs demo_disk 3)) demo_tsl (Suc (adjusted 4 (i_size demo_ino) div 256))))
     in Some (int (length out), out, 1 + length out))"
    by (rule read_file_correct[OF ok demo_file_at])
      (simp_all add: demo_ino_def adjusted_def entry_ok_def tsl secno_def blk_valid_def)
  then show ?thesis by (simp add: demo_ino_def adjusted_def c) (simp add: demo_data_def)
qed

section \<open>The second list of a long file\<close>

text \<open>
  The walk to the second track/sector list, needed beyond 122 sectors, does not follow the link
  of the first list: the pointers are taken from the block held before the list is read, which is
  the catalog sector, so the walk goes on to the next sector of the catalog.
\<close>

theorem second_list_from_catalog:
  assumes "vol_ok s fs" and "file_at s fs ino type l tsl" and "load_entry ino fs = Some (s, type, w)"
    and "cat = blk_get 256 (disk_of s fs) (secno (ino_t (i_number ino)) (ino_s (i_number ino)))"
    and "nt = unat (cat ! 1)" and "ns = unat (cat ! 2)" and "(nt, ns) \<noteq> (0, 0)"
    and "blk_valid 256 (disk_of s fs) (secno nt ns)"
  shows "\<exists>w'. advance_lists 2 s fs w = Some (Some w') \<and> block_location w' = ts nt ns
    \<and> current_block w' = blk_get 256 (disk_of s fs) (secno nt ns)"
proof -
  let ?k = "secno (ino_t (i_number ino)) (ino_s (i_number ino))"
  have v: "blk_valid 256 (disk_of s fs) ?k" using assms(2) by (simp add: file_at_def Let_def)
  have lc: "length cat = 256" using disk.length_get[OF v] assms(4) by simp
  have ei: "cat_pos (ino_e (i_number ino)) + 2 < 256" using assms(2) by (simp add: file_at_def cat_pos_def)
  have e: "entry_ts cat (ino_e (i_number ino)) = Some l" "i_sb ino = Some s"
    using assms(2,4) by (simp_all add: file_at_def Let_def)
  have w: "current_block w = cat" "next_t w = fst l" "next_s w = snd l"
    using assms(3,4) dos_read_eq[OF assms(1) v, of "[]"] e lc ei
    by (cases l; auto simp: load_entry_def ts_secno Let_def)+
  have vl: "blk_valid 256 (disk_of s fs) (secno (fst l) (snd l))" "ts (fst l) (snd l) \<noteq> 0"
    using assms(2) by (auto simp: file_at_def Let_def ts_0_iff prod_eq_iff)
  obtain w1 where w1: "advance_one s fs w = Some (Some w1)" "next_t w1 = nt" "next_s w1 = ns"
    "length (current_block w1) = 256"
    using dos_read_eq[OF assms(1) vl(1), of cat] disk.length_get[OF vl(1)] vl(2) w lc assms(5,6)
    by (simp add: advance_one_def ts_secno)
  have "ts nt ns \<noteq> 0" using assms(7) by (auto simp: ts_0_iff)
  then have "\<exists>w'. advance_one s fs w1 = Some (Some w') \<and> block_location w' = ts nt ns
    \<and> current_block w' = blk_get 256 (disk_of s fs) (secno nt ns)"
    using w1 dos_read_eq[OF assms(1,8), of "current_block w1"] disk.length_get[OF assms(8)]
    by (simp add: advance_one_def ts_secno)
  then show ?thesis using w1(1) by (auto simp: numeral_2_eq_2)
qed

lemma second_list_from_catalog_witness:
  "\<exists>w w'. load_entry demo_ino (demo_fs demo_disk 3) = Some (0, 4, w)
    \<and> advance_lists 2 0 (demo_fs demo_disk 3) w = Some (Some w') \<and> block_location w' = ts 17 14"
proof -
  have ok: "vol_ok 0 (demo_fs demo_disk 3)" by (rule demo_vol_ok) simp
  obtain w where w: "load_entry demo_ino (demo_fs demo_disk 3) = Some (0, 4, w)"
    using load_entry_eq[OF ok demo_file_at] by blast
  have "\<exists>w'. advance_lists 2 0 (demo_fs demo_disk 3) w = Some (Some w') \<and> block_location w' = ts 17 14
    \<and> current_block w' = blk_get 256 (disk_of 0 (demo_fs demo_disk 3)) (secno 17 14)"
    by (rule second_list_from_catalog[OF ok demo_file_at w refl])
      (simp_all add: demo_ino_def demo_ino_parts secno_def demo_sectors demo_cat_nth blk_valid_def)
  with w show ?thesis by blast
qed

end
