(* ===== verification/Dos33_Write.thy ===== *)
theory Dos33_Write
  imports Dos33_File
begin

text \<open>
  Changing files on a DOS 3.3 volume (\<open>kernel/fs/dos33fs/dos33fs.c\<close>): growing, writing,
  shrinking, truncating and destroying, and mounting the volume.

  \<open>fuel\<close> is the bound of the sector allocator's search.  As for reading, sizes of \<open>2\<^sup>3\<^sup>1\<close> and more
  overflow the \<open>int32_t\<close> sector arithmetic.
\<close>

section \<open>Growing\<close>

text \<open>
  The loop over the sectors from the old last one to the new one.  A new, empty track/sector list
  is added each time the walk leaves the current one.
\<close>

fun grow_loop :: "nat \<Rightarrow> nat \<Rightarrow> nat \<Rightarrow> nat \<Rightarrow> walk \<Rightarrow> fs_state \<Rightarrow> (int \<times> fs_state) option" where
  "grow_loop fuel s 0 off w fs = Some (0, fs)"
| "grow_loop fuel s (Suc n) off w fs =
     (if off + 1 < DOS33_MAX_TS_ENTRIES then grow_loop fuel s n (off + 1) w fs
      else do {
        (r, t, sec, fs1) \<leftarrow> dos33_allocate_sector fuel s fs;
        if r < 0 then Some (r, fs1)
        else do {
          fs2 \<leftarrow> dos33_zero_out_sector s t sec fs1;
          b1 \<leftarrow> wr (current_block w) DOS33_TS_NEXT_T (of_nat t);
          b2 \<leftarrow> wr b1 DOS33_TS_NEXT_S (of_nat sec);
          fs3 \<leftarrow> dos_write s (block_location w) b2 fs2;
          blk \<leftarrow> dos_read s (ts t sec) b2 fs3;
          grow_loop fuel s n (off + 1 - DOS33_MAX_TS_ENTRIES)
            \<lparr>next_t = t, next_s = sec, block_location = ts t sec, current_block = blk\<rparr> fs3 } })"

definition grow_finish :: "nat \<Rightarrow> inode \<Rightarrow> nat \<Rightarrow> fs_state \<Rightarrow> (int \<times> inode \<times> fs_state) option" where
  "grow_finish s ino new_size fs = do {
     let ino1 = ino\<lparr>i_size := new_size\<rparr>;
     fs1 \<leftarrow> dos33fs_write_inode ino1 fs;
     fs2 \<leftarrow> write_superblock s fs1;
     Some (0, ino1, fs2) }"

definition dos33fs_grow_file :: "nat \<Rightarrow> inode \<Rightarrow> nat \<Rightarrow> fs_state \<Rightarrow> (int \<times> inode \<times> fs_state) option" where
  "dos33fs_grow_file fuel ino new_size fs = do {
     (s, type, w) \<leftarrow> load_entry ino fs;
     let last_sector = adjusted type new_size div DOS33_BLOCK_SIZE;
     let current_sector = adjusted type (i_size ino) div DOS33_BLOCK_SIZE;
     if adjusted type new_size \<ge> 2 ^ 31 \<or> adjusted type (i_size ino) \<ge> 2 ^ 31 then None
     else if current_sector = last_sector then grow_finish s ino new_size fs
     else do {
       a \<leftarrow> advance_lists (1 + current_sector div DOS33_MAX_TS_ENTRIES) s fs w;
       (case a of None \<Rightarrow> Some (- ENOENT, ino, fs)
        | Some w1 \<Rightarrow> do {
            (r, fs1) \<leftarrow> grow_loop fuel s (last_sector - current_sector)
                         (current_sector mod DOS33_MAX_TS_ENTRIES) w1 fs;
            if r < 0 then Some (r, ino, fs1) else grow_finish s ino new_size fs1 }) } }"

section \<open>Writing\<close>

record write_state =
  ww :: walk
  w_advance :: nat
  w_which :: nat
  w_offset :: nat
  w_desired :: nat
  w_buf :: bytes
  w_count :: nat
  w_data :: bytes
  w_fs :: fs_state

text \<open>The data sector of the round: a hole gets a new sector, entered into the list.\<close>

definition write_sector :: "nat \<Rightarrow> nat \<Rightarrow> walk \<Rightarrow> nat \<Rightarrow> bytes \<Rightarrow> fs_state \<Rightarrow>
    (int \<times> nat \<times> nat \<times> walk \<times> bytes \<times> fs_state) option" where
  "write_sector fuel s w which data0 fs = do {
     (dt, ds) \<leftarrow> ts_entry (current_block w) which;
     if dt = 0 \<and> ds = 0 then do {
       (r, t, sec, fs1) \<leftarrow> dos33_allocate_sector fuel s fs;
       if r < 0 then Some (r, t, sec, w, data0, fs1)
       else do {
         b1 \<leftarrow> wr (current_block w) (DOS33_TS_FIRST_TS_T + 2 * which) (of_nat t);
         b2 \<leftarrow> wr b1 (DOS33_TS_FIRST_TS_S + 2 * which) (of_nat sec);
         fs2 \<leftarrow> dos_write s (block_location w) b2 fs1;
         Some (0, t, sec, w\<lparr>current_block := b2\<rparr>, replicate 256 0, fs2) } }
     else do {
       data \<leftarrow> dos_read s (ts dt ds) data0 fs;
       Some (0, dt, ds, w, data, fs) } }"

definition write_step :: "nat \<Rightarrow> nat \<Rightarrow> write_state \<Rightarrow> (write_state + (int \<times> fs_state)) option" where
  "write_step fuel s st = do {
     a \<leftarrow> advance_lists (w_advance st) s (w_fs st) (ww st);
     (case a of None \<Rightarrow> Some (Inr (- ENOENT, w_fs st))
      | Some w \<Rightarrow> do {
          (r, dt, ds, w1, data, fs1) \<leftarrow> write_sector fuel s w (w_which st) (w_data st) (w_fs st);
          if r < 0 then Some (Inr (r, fs1))
          else do {
            let len = (if 256 - w_offset st > w_desired st then w_desired st else 256 - w_offset st);
            chunk \<leftarrow> slice (w_buf st) 0 len;
            data' \<leftarrow> splice data (w_offset st) chunk;
            fs2 \<leftarrow> dos_write s (ts dt ds) data' fs1;
            let count = w_count st + len;
            if w_desired st - len = 0 then Some (Inr (int count, fs2))
            else
              let wrap = w_which st + 1 \<ge> DOS33_MAX_TS_ENTRIES in
              Some (Inl (st\<lparr>ww := w1, w_advance := (if wrap then 1 else 0),
                w_which := (if wrap then w_which st + 1 - DOS33_MAX_TS_ENTRIES else w_which st + 1),
                w_offset := 0, w_desired := w_desired st - len, w_buf := drop len (w_buf st),
                w_count := count, w_data := data', w_fs := fs2\<rparr>)) } }) }"

text \<open>The result is the value returned, the inode, the new offset and the state.\<close>

definition dos33fs_write_file :: "nat \<Rightarrow> inode \<Rightarrow> bytes \<Rightarrow> nat \<Rightarrow> nat \<Rightarrow> fs_state \<Rightarrow>
    (int \<times> inode \<times> nat \<times> fs_state) option" where
  "dos33fs_write_file fuel ino buf desired_count file_offset fs = do {
     (g, ino1, fs1) \<leftarrow> (if (file_offset + desired_count) mod 2 ^ 64 > i_size ino
                       then dos33fs_grow_file fuel ino ((file_offset + desired_count) mod 2 ^ 64) fs
                       else Some (0, ino, fs));
     if g < 0 then Some (g, ino1, file_offset, fs1)
     else do {
       (s, type, w) \<leftarrow> load_entry ino1 fs1;
       let adj = to_u32 (int (adjusted type file_offset));
       if adj \<ge> 2 ^ 31 then None
       else do {
         let which = adj div DOS33_BLOCK_SIZE;
         (r, fs2) \<leftarrow> c_loop (desired_count div DOS33_BLOCK_SIZE + 3) (write_step fuel s)
           \<lparr>ww = w, w_advance = 1 + which div DOS33_MAX_TS_ENTRIES, w_which = which mod DOS33_MAX_TS_ENTRIES,
            w_offset = adj mod DOS33_BLOCK_SIZE, w_desired = desired_count, w_buf = buf, w_count = 0,
            w_data = [], w_fs = fs1\<rparr>;
         Some (r, ino1, if r > 0 then file_offset + nat r else file_offset, fs2) } } }"

section \<open>Shrinking\<close>

record shrink_state =
  sw :: walk
  s_advance :: nat
  s_which :: nat
  s_offset :: nat
  s_current :: nat
  s_delete :: bool
  s_data :: bytes
  s_fs :: fs_state

text \<open>Moving to the next list, giving the one that is left back when it is to be deleted.\<close>

definition shrink_advance :: "nat \<Rightarrow> bool \<Rightarrow> walk \<times> fs_state \<Rightarrow> (walk option \<times> fs_state) option" where
  "shrink_advance s del = (\<lambda>(w, fs). do {
     fs1 \<leftarrow> (if del then dos33_mark_blocks_free s (get_t (block_location w)) (get_s (block_location w)) fs
             else Some fs);
     r \<leftarrow> advance_one s fs1 w;
     Some (r, fs1) })"

fun shrink_lists :: "nat \<Rightarrow> nat \<Rightarrow> bool \<Rightarrow> walk \<times> fs_state \<Rightarrow> (walk option \<times> fs_state) option" where
  "shrink_lists 0 s del (w, fs) = Some (Some w, fs)"
| "shrink_lists (Suc n) s del (w, fs) = do {
     (r, fs1) \<leftarrow> shrink_advance s del (w, fs);
     (case r of None \<Rightarrow> Some (None, fs1) | Some w' \<Rightarrow> shrink_lists n s del (w', fs1)) }"

text \<open>Clearing the rest of the data sector; a sector that is not used at all is given back.\<close>

definition shrink_sector :: "nat \<Rightarrow> nat \<Rightarrow> nat \<Rightarrow> walk \<Rightarrow> bytes \<Rightarrow> fs_state \<Rightarrow> (walk \<times> bytes \<times> fs_state) option" where
  "shrink_sector s which off w data0 fs = do {
     (dt, ds) \<leftarrow> ts_entry (current_block w) which;
     if dt = 0 \<and> ds = 0 then Some (w, data0, fs)
     else do {
       data \<leftarrow> dos_read s (ts dt ds) data0 fs;
       data' \<leftarrow> splice data off (replicate (256 - off) 0);
       fs1 \<leftarrow> dos_write s (ts dt ds) data' fs;
       if off = 0 then do {
         b1 \<leftarrow> wr (current_block w) (DOS33_TS_FIRST_TS_T + 2 * which) 0;
         b2 \<leftarrow> wr b1 (DOS33_TS_FIRST_TS_S + 2 * which) 0;
         fs2 \<leftarrow> dos_write s (block_location w) b2 fs1;
         fs3 \<leftarrow> dos33_mark_blocks_free s (get_t (ts dt ds)) (get_s (ts dt ds)) fs2;
         Some (w\<lparr>current_block := b2\<rparr>, data', fs3) }
       else Some (w, data', fs1) } }"

text \<open>The result is \<open>0\<close> when the loop ends at the last sector, or the error.\<close>

definition shrink_step :: "nat \<Rightarrow> nat \<Rightarrow> shrink_state \<Rightarrow> (shrink_state + (int \<times> fs_state)) option" where
  "shrink_step s last_sector st = do {
     (a, fs0) \<leftarrow> shrink_lists (s_advance st) s (s_delete st) (sw st, s_fs st);
     (case a of None \<Rightarrow> Some (Inr (- ENOENT, fs0))
      | Some w \<Rightarrow> do {
          (w1, data, fs1) \<leftarrow> shrink_sector s (s_which st) (s_offset st) w (s_data st) fs0;
          if s_current st = last_sector then do {
            fs2 \<leftarrow> (if s_delete st
                    then dos33_mark_blocks_free s (get_t (block_location w1)) (get_s (block_location w1)) fs1
                    else Some fs1);
            Some (Inr (0, fs2)) }
          else if s_which st + 1 \<ge> DOS33_MAX_TS_ENTRIES then do {
            b1 \<leftarrow> wr (current_block w1) DOS33_TS_NEXT_T 0;
            b2 \<leftarrow> wr b1 DOS33_TS_NEXT_S 0;
            fs2 \<leftarrow> dos_write s (block_location w1) b2 fs1;
            Some (Inl (st\<lparr>sw := w1\<lparr>current_block := b2\<rparr>, s_advance := 1,
              s_which := s_which st + 1 - DOS33_MAX_TS_ENTRIES, s_offset := 0, s_current := s_current st + 1,
              s_delete := True, s_data := data, s_fs := fs2\<rparr>)) }
          else Some (Inl (st\<lparr>sw := w1, s_advance := 0, s_which := s_which st + 1, s_offset := 0,
              s_current := s_current st + 1, s_data := data, s_fs := fs1\<rparr>)) }) }"

text \<open>The first sector looked at is not behind the last one, so one round per sector is enough.\<close>

definition dos33fs_shrink_file :: "inode \<Rightarrow> nat \<Rightarrow> fs_state \<Rightarrow> (int \<times> inode \<times> fs_state) option" where
  "dos33fs_shrink_file ino sz fs = do {
     (s, type, w) \<leftarrow> load_entry ino fs;
     let adj = adjusted type sz;
     let last_sector = adjusted type (i_size ino) div DOS33_BLOCK_SIZE;
     if sz > i_size ino then Some (- E2BIG, ino, fs)
     else if adjusted type (i_size ino) \<ge> 2 ^ 31 then None
     else do {
       let which = adj div DOS33_BLOCK_SIZE;
       (r, fs1) \<leftarrow> c_loop (last_sector - which + 1) (shrink_step s last_sector)
         \<lparr>sw = w, s_advance = 1 + which div DOS33_MAX_TS_ENTRIES, s_which = which mod DOS33_MAX_TS_ENTRIES,
          s_offset = adj mod DOS33_BLOCK_SIZE, s_current = which, s_delete = False, s_data = [], s_fs = fs\<rparr>;
       if r < 0 then Some (r, ino, fs1) else grow_finish s ino sz fs1 } }"

definition dos33fs_truncate_inode :: "nat \<Rightarrow> inode \<Rightarrow> nat \<Rightarrow> fs_state \<Rightarrow> (int \<times> inode \<times> fs_state) option" where
  "dos33fs_truncate_inode fuel ino sz fs =
     (if sz = i_size ino then Some (0, ino, fs)
      else if sz < i_size ino then dos33fs_shrink_file ino sz fs
      else dos33fs_grow_file fuel ino sz fs)"

section \<open>Destroying a file\<close>

definition dos33fs_destroy_inode :: "nat \<Rightarrow> inode \<Rightarrow> fs_state \<Rightarrow> (int \<times> inode \<times> fs_state) option" where
  "dos33fs_destroy_inode fuel ino fs = do {
     (r, ino1, fs1) \<leftarrow> dos33fs_truncate_inode fuel ino 0 fs;
     if r < 0 then Some (r, ino1, fs1)
     else
       let n = i_number ino1; e = ino_e n in
       if e = 0xff \<or> e = 0xfe then Some (- EISDIR, ino1, fs1)
       else if e \<ge> DOS33_CAT_MAX_ENTRIES then Some (- ENOENT, ino1, fs1)
       else do {
         s \<leftarrow> i_sb ino1;
         blk \<leftarrow> dos_read s (inode_to_block n) [] fs1;
         t0 \<leftarrow> rd blk (cat_pos e + DOS33_CAT_OFFSET_FIRST_T);
         old_track \<leftarrow> (if t0 = 0xfe then rd blk (cat_pos e + DOS33_CAT_OFFSET_END_FILE_NAME) else Some t0);
         b1 \<leftarrow> (if t0 = 0xfe then Some blk
               else wr blk (cat_pos e + DOS33_CAT_OFFSET_END_FILE_NAME) t0);
         b2 \<leftarrow> wr b1 (cat_pos e + DOS33_CAT_OFFSET_FIRST_T) 0xff;
         fs2 \<leftarrow> dos_write s (inode_to_block n) b2 fs1;
         ts_sector \<leftarrow> rd b2 (cat_pos e + DOS33_CAT_OFFSET_FIRST_S);
         fs3 \<leftarrow> dos33_mark_blocks_free s (unat old_track) (unat ts_sector) fs2;
         Some (0, ino1, fs3) } }"

section \<open>Mounting\<close>

text \<open>
  The array is declared \<open>vtoc_list[DOS33_VTOC_SIZE][DOS33_MAX_VTOCS]\<close>, so that the element of a
  volume starts two bytes behind that of the one before.
\<close>

abbreviation (input) "DOS33_MAX_VTOCS \<equiv> 2 :: nat"

definition dos33fs_mount :: "nat \<Rightarrow> nat \<Rightarrow> fs_state \<Rightarrow> (int \<times> fs_state) option" where
  "dos33fs_mount s block fs = do {
     sb \<leftarrow> sb_get s fs;
     let fs1 = sb_set s (sb\<lparr>sb_block := Some block\<rparr>) fs;
     if next_vtoc fs \<ge> DOS33_MAX_VTOCS then Some (- E2BIG, fs1)
     else do {
       let p = DOS33_MAX_VTOCS * next_vtoc fs;
       let fs2 = fs1\<lparr>next_vtoc := next_vtoc fs + 1\<rparr>;
       old \<leftarrow> slice (vtoc_list fs2) p DOS33_VTOC_SIZE;
       (_, vtoc) \<leftarrow> block_read block (ts 17 0) DOS33_VTOC_SIZE old fs2;
       l \<leftarrow> splice (vtoc_list fs2) p vtoc;
       t \<leftarrow> rd vtoc DOS33_VTOC_FIRST_CAT_TRACK;
       sec \<leftarrow> rd vtoc DOS33_VTOC_FIRST_CAT_SECTOR;
       let fs3 = sb_set s (sb\<lparr>sb_block := Some block, sb_private := Some p, sb_block_size := DOS33_BLOCK_SIZE,
                    sb_ops := Dos33_Sb_Ops, sb_root_dir := mk_ino (unat t) (unat sec) 0xff\<rparr>) (fs2\<lparr>vtoc_list := l\<rparr>);
       fs4 \<leftarrow> dos33_update_blocks_free s fs3;
       Some (0, fs4) } }"

section \<open>Overwriting part of a file\<close>

definition overwrite :: "nat \<Rightarrow> 'a list \<Rightarrow> 'a list \<Rightarrow> 'a list" where
  "overwrite p xs c = take p c @ xs @ drop (p + length xs) c"

lemma overwrite_Nil [simp]: "overwrite p [] c = c"
  by (simp add: overwrite_def)

lemma length_overwrite [simp]: "p + length xs \<le> length c \<Longrightarrow> length (overwrite p xs c) = length c"
  by (simp add: overwrite_def)

lemma overwrite_overwrite:
  "p + length xs \<le> length c \<Longrightarrow> overwrite (p + length xs) ys (overwrite p xs c) = overwrite p (xs @ ys) c"
  by (simp add: overwrite_def ac_simps)

text \<open>Overwriting inside one block of a sequence of blocks.\<close>

lemma overwrite_concat:
  assumes "\<And>j. j < n \<Longrightarrow> length (f j) = 256" "k < n" "o1 + length xs \<le> 256"
  shows "concat (map (f(k := overwrite o1 xs (f k))) [0..<n]) = overwrite (k * 256 + o1) xs (concat (map f [0..<n]))"
proof -
  define A B where "A = concat (map f [0..<k])" and "B = concat (map f [Suc k..<n])"
  obtain m where m: "n = k + Suc m" using assms(2) by (metis less_imp_Suc_add add_Suc_right)
  have u: "[0..<n] = [0..<k] @ k # [Suc k..<n]"
    using upt_add_eq_append[of 0 k "Suc m"] m by (simp add: upt_conv_Cons del: upt_Suc)
  have c: "concat (map f [0..<n]) = A @ f k @ B" by (simp add: u A_def B_def)
  have c': "concat (map (f(k := overwrite o1 xs (f k))) [0..<n]) = A @ overwrite o1 xs (f k) @ B"
    by (simp add: u A_def B_def)
  have lA: "length A = k * 256"
    using length_concat_const[of "[0..<k]" f 256] assms(1,2) by (simp add: A_def)
  have lk: "length (f k) = 256" using assms(1,2) by simp
  show ?thesis unfolding c c' using lA lk assms(3) by (simp add: overwrite_def)
qed

text \<open>The first \<open>n\<close> entries of a list lead to pairwise different sectors of the disk, none a hole.\<close>

definition solid :: "bytes \<Rightarrow> bytes \<Rightarrow> nat \<Rightarrow> bool" where
  "solid d tsl n \<longleftrightarrow> length tsl = 256 \<and> n \<le> 122
     \<and> (\<forall>j < n. tsl_entry tsl j \<noteq> (0, 0) \<and> blk_valid 256 d (secno (fst (tsl_entry tsl j)) (snd (tsl_entry tsl j))))
     \<and> inj_on (\<lambda>j. secno (fst (tsl_entry tsl j)) (snd (tsl_entry tsl j))) {..<n}"

definition sec_at :: "bytes \<Rightarrow> nat \<Rightarrow> nat" where
  "sec_at tsl j = secno (fst (tsl_entry tsl j)) (snd (tsl_entry tsl j))"

lemma solidD:
  assumes "solid d tsl n" "j < n"
  shows "blk_valid 256 d (sec_at tsl j)" "data_sector d tsl j = blk_get 256 d (sec_at tsl j)" "entry_ok d tsl j"
    "tsl_entry tsl j \<noteq> (0, 0)"
  using assms by (auto simp: solid_def sec_at_def data_sector_def entry_ok_def split: prod.splits)

lemma content_put:
  assumes "solid d tsl n" "k < n" "o1 + length xs \<le> 256"
  shows "file_content (blk_put 256 (sec_at tsl k) (overwrite o1 xs (data_sector d tsl k)) d) tsl n
    = overwrite (k * 256 + o1) xs (file_content d tsl n)"
proof -
  let ?d' = "blk_put 256 (sec_at tsl k) (overwrite o1 xs (data_sector d tsl k)) d"
  have l: "length (data_sector d tsl j) = 256" if "j < n" for j
    using length_data_sector[OF solidD(3)[OF assms(1) that]] .
  have lo: "length (overwrite o1 xs (data_sector d tsl k)) = 256" using l[OF assms(2)] assms(3) by simp
  have "data_sector ?d' tsl j = ((data_sector d tsl)(k := overwrite o1 xs (data_sector d tsl k))) j" if j: "j < n" for j
  proof -
    have "data_sector ?d' tsl j = blk_get 256 ?d' (sec_at tsl j)"
      using solidD(4)[OF assms(1) j] by (auto simp: data_sector_def sec_at_def split: prod.splits)
    moreover have "sec_at tsl k = sec_at tsl j \<longleftrightarrow> k = j"
      using assms(1,2) j by (auto simp: solid_def sec_at_def inj_on_def)
    ultimately show ?thesis
      using disk.get_put_if[OF solidD(1)[OF assms(1,2)] solidD(1)[OF assms(1) j] lo] solidD(2)[OF assms(1) j] by auto
  qed
  then have "map (data_sector ?d' tsl) [0..<n] = map ((data_sector d tsl)(k := overwrite o1 xs (data_sector d tsl k))) [0..<n]"
    by simp
  then show ?thesis
    using overwrite_concat[of n "data_sector d tsl", OF l assms(2,3)] by (simp only: file_content_def)
qed

lemma solid_put:
  assumes "solid d tsl n" "k < n" "length b = 256"
  shows "solid (blk_put 256 (sec_at tsl k) b d) tsl n"
  using assms(1) disk.valid_put[OF solidD(1)[OF assms(1,2)] assms(3)] by (simp add: solid_def)

lemma put_disk_put_disk: "vol_ok s fs \<Longrightarrow> put_disk s d2 (put_disk s d1 fs) = put_disk s d2 fs"
  using vol_devD[of s fs] by (simp add: put_disk_def vol_dev_def)

definition in_write :: "bytes \<Rightarrow> nat \<Rightarrow> nat \<Rightarrow> nat \<Rightarrow> write_state \<Rightarrow> bool" where
  "in_write tsl k o1 n st \<longleftrightarrow> w_advance st = 0 \<and> current_block (ww st) = tsl \<and> w_which st = k
     \<and> w_offset st = o1 \<and> w_desired st = n \<and> n \<le> length (w_buf st)
     \<and> (w_data st = [] \<or> length (w_data st) = 256)"

lemma write_sector_eq:
  assumes "vol_ok s fs" "solid (disk_of s fs) tsl N" "k < N" "current_block w = tsl" "r = [] \<or> length r = 256"
  shows "write_sector fuel s w k r fs
    = Some (0, fst (tsl_entry tsl k), snd (tsl_entry tsl k), w, data_sector (disk_of s fs) tsl k, fs)"
proof -
  have k: "k < 122" "length tsl = 256" using assms(2,3) by (auto simp: solid_def)
  note D = solidD[OF assms(2,3)]
  have "dos_read s (ts (fst (tsl_entry tsl k)) (snd (tsl_entry tsl k))) r fs = Some (data_sector (disk_of s fs) tsl k)"
    using dos_read_eq[OF assms(1) D(1), of r] D(2) disk.length_get[OF D(1)] assms(5)
    by (auto simp: sec_at_def ts_secno)
  then show ?thesis using ts_entry_eq[OF k(2,1)] assms(4) D(4)
    by (cases "tsl_entry tsl k") (auto simp: write_sector_def)
qed

text \<open>One round writes the piece of the buffer that belongs into sector \<open>k\<close>.\<close>

definition put_piece :: "nat \<Rightarrow> bytes \<Rightarrow> nat \<Rightarrow> nat \<Rightarrow> bytes \<Rightarrow> fs_state \<Rightarrow> fs_state" where
  "put_piece s tsl k o1 xs fs = put_disk s
     (blk_put 256 (sec_at tsl k) (overwrite o1 xs (data_sector (disk_of s fs) tsl k)) (disk_of s fs)) fs"

lemma write_step_eq:
  assumes "vol_ok s (w_fs st)" "solid (disk_of s (w_fs st)) tsl N" "k < N" "in_write tsl k o1 n st" "o1 < 256"
    and "m = min n (256 - o1)"
    and "fs' = put_piece s tsl k o1 (take m (w_buf st)) (w_fs st)"
  shows "write_step fuel s st =
    (if n \<le> 256 - o1 then Some (Inr (int (w_count st + m), fs'))
     else Some (Inl (st\<lparr>ww := ww st, w_advance := (if k + 1 \<ge> 122 then 1 else 0),
       w_which := (if k + 1 \<ge> 122 then k + 1 - 122 else k + 1), w_offset := 0, w_desired := n - m,
       w_buf := drop m (w_buf st), w_count := w_count st + m,
       w_data := overwrite o1 (take m (w_buf st)) (data_sector (disk_of s (w_fs st)) tsl k), w_fs := fs'\<rparr>)))"
proof -
  let ?fs = "w_fs st" and ?data = "data_sector (disk_of s (w_fs st)) tsl k"
  have st: "w_advance st = 0" "current_block (ww st) = tsl" "w_which st = k" "w_offset st = o1"
    "w_desired st = n" "n \<le> length (w_buf st)" "w_data st = [] \<or> length (w_data st) = 256"
    using assms(4) by (auto simp: in_write_def)
  note D = solidD[OF assms(2,3)]
  have l: "length ?data = 256" using length_data_sector[OF D(3)] .
  have sl: "slice (w_buf st) 0 m = Some (take m (w_buf st))" using st(6) assms(6) by (simp add: slice_eq)
  have sp: "splice ?data o1 (take m (w_buf st)) = Some (overwrite o1 (take m (w_buf st)) ?data)"
    using l st(6) assms(5,6) by (simp add: splice_eq overwrite_def)
  have lo: "length (overwrite o1 (take m (w_buf st)) ?data) = 256" using l st(6) assms(5,6) by simp
  have wr: "dos_write s (ts (fst (tsl_entry tsl k)) (snd (tsl_entry tsl k))) (overwrite o1 (take m (w_buf st)) ?data) ?fs
      = Some fs'"
    using dos_write_eq[OF assms(1) D(1) lo] assms(7) by (simp add: put_piece_def sec_at_def ts_secno)
  have sec: "write_sector fuel s (ww st) k (w_data st) ?fs
    = Some (0, fst (tsl_entry tsl k), snd (tsl_entry tsl k), ww st, ?data, ?fs)"
    by (rule write_sector_eq[OF assms(1-3) st(2,7)])
  consider "n < 256 - o1" "m = n" | "n = 256 - o1" "m = n" | "n > 256 - o1" "m = 256 - o1"
    using assms(6) by linarith
  then show ?thesis
    by cases (use st sec sl sp wr in \<open>simp_all add: write_step_def Let_def\<close>)
qed

lemma put_piece_props:
  assumes "vol_ok s fs" "solid (disk_of s fs) tsl N" "k < N" "o1 + length xs \<le> 256"
  shows "vol_ok s (put_piece s tsl k o1 xs fs)" "solid (disk_of s (put_piece s tsl k o1 xs fs)) tsl N"
    "file_content (disk_of s (put_piece s tsl k o1 xs fs)) tsl N
       = overwrite (k * 256 + o1) xs (file_content (disk_of s fs) tsl N)"
    "length (disk_of s (put_piece s tsl k o1 xs fs)) = length (disk_of s fs)"
    "\<And>c. c \<notin> sec_at tsl ` {..<N} \<Longrightarrow> blk_valid 256 (disk_of s fs) c \<Longrightarrow>
       blk_get 256 (disk_of s (put_piece s tsl k o1 xs fs)) c = blk_get 256 (disk_of s fs) c"
    "put_disk s d (put_piece s tsl k o1 xs fs) = put_disk s d fs"
    "put_piece s tsl k o1 xs fs = put_disk s (disk_of s (put_piece s tsl k o1 xs fs)) fs"
proof -
  note D = solidD[OF assms(2,3)]
  have lo: "length (overwrite o1 xs (data_sector (disk_of s fs) tsl k)) = 256"
    using length_data_sector[OF D(3)] assms(4) by simp
  show "vol_ok s (put_piece s tsl k o1 xs fs)" using assms(1) by (simp add: put_piece_def)
  show "solid (disk_of s (put_piece s tsl k o1 xs fs)) tsl N"
    using solid_put[OF assms(2,3) lo] assms(1) by (simp add: put_piece_def)
  show "file_content (disk_of s (put_piece s tsl k o1 xs fs)) tsl N
       = overwrite (k * 256 + o1) xs (file_content (disk_of s fs) tsl N)"
    using content_put[OF assms(2-4)] assms(1) by (simp add: put_piece_def)
  show "length (disk_of s (put_piece s tsl k o1 xs fs)) = length (disk_of s fs)"
    using length_blk_put[OF D(1) lo] assms(1) by (simp add: put_piece_def)
  show "blk_get 256 (disk_of s (put_piece s tsl k o1 xs fs)) c = blk_get 256 (disk_of s fs) c"
    if "c \<notin> sec_at tsl ` {..<N}" "blk_valid 256 (disk_of s fs) c" for c
    using disk.get_put_other[OF D(1) that(2) _ lo] that(1) assms(1,3) by (auto simp: put_piece_def)
  show "put_disk s d (put_piece s tsl k o1 xs fs) = put_disk s d fs"
    by (simp add: put_piece_def put_disk_put_disk assms(1))
  show "put_piece s tsl k o1 xs fs = put_disk s (disk_of s (put_piece s tsl k o1 xs fs)) fs"
    using assms(1) by (simp add: put_piece_def)
qed

lemma write_loop:
  assumes "vol_ok s (w_fs st)" "solid (disk_of s (w_fs st)) tsl N" "k < N" "in_write tsl k o1 n st" "o1 < 256"
    and "k * 256 + o1 + n \<le> N * 256" "(o1 + n) div 256 < fuel"
  shows "\<exists>d. c_loop fuel (write_step afuel s) st = Some (int (w_count st + n), put_disk s d (w_fs st))
    \<and> length d = length (disk_of s (w_fs st))
    \<and> file_content d tsl N = overwrite (k * 256 + o1) (take n (w_buf st)) (file_content (disk_of s (w_fs st)) tsl N)
    \<and> (\<forall>c. c \<notin> sec_at tsl ` {..<N} \<longrightarrow> blk_valid 256 (disk_of s (w_fs st)) c \<longrightarrow>
          blk_get 256 d c = blk_get 256 (disk_of s (w_fs st)) c)"
  using assms
proof (induction fuel arbitrary: k o1 n st)
  case (Suc fuel)
  define m where "m = min n (256 - o1)"
  define xs where "xs = take m (w_buf st)"
  define fs' where "fs' = put_piece s tsl k o1 xs (w_fs st)"
  let ?fs = "w_fs st"
  have nb: "n \<le> length (w_buf st)" using Suc.prems(4) by (simp add: in_write_def)
  have lx: "length xs = m" "o1 + length xs \<le> 256" using nb Suc.prems(5) by (auto simp: xs_def m_def)
  note step = write_step_eq[OF Suc.prems(1-5) m_def fs'_def[unfolded xs_def], of afuel]
  note P = put_piece_props[OF Suc.prems(1-3) lx(2), folded fs'_def]
  show ?case
  proof (cases "n \<le> 256 - o1")
    case True
    then have "m = n" by (simp add: m_def)
    then show ?thesis using step True P(3,4,5) P(7)
      by (intro exI[of _ "disk_of s fs'"]) (simp add: xs_def)
  next
    case False
    then have mm: "m = 256 - o1" by (simp add: m_def)
    have kN: "k + 1 < N"
    proof (rule ccontr)
      assume "\<not> k + 1 < N"
      then have "N * 256 \<le> (k + 1) * 256" by (intro mult_le_mono1) simp
      then show False using Suc.prems(6) False by simp
    qed
    have k122: "\<not> 122 \<le> k + 1" using kN Suc.prems(2) by (simp add: solid_def)
    define st' where "st' = st\<lparr>ww := ww st, w_advance := 0, w_which := k + 1, w_offset := 0, w_desired := n - m,
       w_buf := drop m (w_buf st), w_count := w_count st + m,
       w_data := overwrite o1 xs (data_sector (disk_of s ?fs) tsl k), w_fs := fs'\<rparr>"
    have run: "c_loop (Suc fuel) (write_step afuel s) st = c_loop fuel (write_step afuel s) st'"
      using step False k122 by (simp add: st'_def xs_def)
    have lo: "length (overwrite o1 xs (data_sector (disk_of s ?fs) tsl k)) = 256"
      using length_data_sector[OF solidD(3)[OF Suc.prems(2,3)]] lx(2) by simp
    have f': "w_fs st' = fs'" by (simp add: st'_def)
    have inw: "in_write tsl (k + 1) 0 (n - m) st'"
      using Suc.prems(4) nb lo by (auto simp: in_write_def st'_def)
    have fu: "(0 + (n - m)) div 256 < fuel"
    proof -
      have "o1 + n = (n - m) + 256" using Suc.prems(5) False mm by linarith
      then have "(o1 + n) div 256 = (n - m) div 256 + 1"
        by (simp only: div_add_self2 numeral_neq_zero not_False_eq_True)
      then show ?thesis using Suc.prems(7) by simp
    qed
    have sz: "(k + 1) * 256 + 0 + (n - m) \<le> N * 256" using Suc.prems(6) mm False by simp
    from Suc.IH[of st' "k + 1" 0 "n - m"] P(1,2) kN inw sz fu obtain d where
      d: "c_loop fuel (write_step afuel s) st' = Some (int (w_count st' + (n - m)), put_disk s d fs')"
        "length d = length (disk_of s fs')"
        "file_content d tsl N = overwrite ((k + 1) * 256 + 0) (take (n - m) (w_buf st')) (file_content (disk_of s fs') tsl N)"
        "\<forall>c. c \<notin> sec_at tsl ` {..<N} \<longrightarrow> blk_valid 256 (disk_of s fs') c \<longrightarrow> blk_get 256 d c = blk_get 256 (disk_of s fs') c"
      unfolding f' by auto
    have lc: "length (file_content (disk_of s ?fs) tsl N) = 256 * N"
      using length_concat_const[of "[0..<N]" "data_sector (disk_of s ?fs) tsl" 256]
        length_data_sector[OF solidD(3)[OF Suc.prems(2)]] by (simp add: file_content_def)
    have pos: "(k + 1) * 256 + 0 = k * 256 + o1 + length xs" using lx(1) mm Suc.prems(5) by simp
    have "k * 256 + o1 + length xs \<le> 256 * N" using pos kN by simp
    then have "file_content d tsl N
        = overwrite (k * 256 + o1) (xs @ take (n - m) (drop m (w_buf st))) (file_content (disk_of s ?fs) tsl N)"
      unfolding d(3) P(3) pos by (subst overwrite_overwrite) (simp_all add: lc st'_def)
    moreover have "xs @ take (n - m) (drop m (w_buf st)) = take n (w_buf st)"
      using take_add[of m "n - m" "w_buf st"] False mm by (simp add: xs_def)
    moreover have "blk_valid 256 (disk_of s fs') c \<longleftrightarrow> blk_valid 256 (disk_of s ?fs) c" for c
      using P(4) by (simp add: blk_valid_def)
    ultimately show ?thesis using run d(1,2,4) P(4,5,6) False mm
      by (intro exI[of _ d]) (simp add: st'_def)
  qed
qed simp

lemma write_step_first:
  assumes "advance_lists (w_advance st) s (w_fs st) (ww st) = Some (Some w')"
  shows "write_step afuel s st = write_step afuel s (st\<lparr>ww := w', w_advance := 0\<rparr>)"
  using assms by (cases st) (simp add: write_step_def Let_def cong: if_cong)

text \<open>
  C2: Writing inside a file that has its sectors replaces exactly the bytes of the file from the
  offset on by those of the buffer: no other byte of the file, of its catalog entry, of its list
  or of any other sector of the disk changes, the inode is untouched and the offset advances by the
  length.  Reading the range back gives the bytes written.  The file is \<open>solid\<close>: it has one track/sector list,
  that is at most 122 sectors, fewer than 31232 bytes with the four in front of a binary program, no holes, and no sector twice, nor its catalog
  sector or its list among them.  Beyond 122 sectors the code follows the wrong link (\<open>second_list_from_catalog\<close>).
\<close>

theorem write_file_overwrites:
  assumes "vol_ok s fs" and "file_at s fs ino type l tsl"
    and "N = Suc (adjusted type (i_size ino) div 256)" and "solid (disk_of s fs) tsl N"
    and "secno (ino_t (i_number ino)) (ino_s (i_number ino)) \<notin> sec_at tsl ` {..<N}"
    and "secno (fst l) (snd l) \<notin> sec_at tsl ` {..<N}"
    and "off + n \<le> i_size ino" and "n = length buf"
  shows "\<exists>fs'. dos33fs_write_file afuel ino buf n off fs = Some (int n, ino, off + n, fs')
    \<and> vol_ok s fs' \<and> file_at s fs' ino type l tsl
    \<and> file_content (disk_of s fs') tsl N = overwrite (adjusted type off) buf (file_content (disk_of s fs) tsl N)
    \<and> (\<forall>c. c \<notin> sec_at tsl ` {..<N} \<longrightarrow> blk_valid 256 (disk_of s fs) c \<longrightarrow>
          blk_get 256 (disk_of s fs') c = blk_get 256 (disk_of s fs) c)
    \<and> dos33fs_read_file ino n off fs' = Some (int n, buf, off + n)"
proof -
  let ?a = "adjusted type off"
  let ?k = "?a div 256" and ?o = "?a mod 256"
  have N: "N \<le> 122" using assms(4) by (simp add: solid_def)
  have an: "?a + n \<le> adjusted type (i_size ino)" using assms(7) by (simp add: adjusted_def)
  have Nsz: "adjusted type (i_size ino) < N * 256" using assms(3) by simp
  have kN: "?k < N" using an assms(3) div_le_mono[of ?a "adjusted type (i_size ino)" 256] by simp
  have small: "?a < 31232" "i_size ino < 2 ^ 64" using an Nsz N by (auto simp: adjusted_def split: if_splits)
  obtain w where w: "load_entry ino fs = Some (s, type, w)" "next_t w = fst l" "next_s w = snd l"
    "length (current_block w) = 256" using load_entry_eq[OF assms(1,2)] by blast
  obtain w' where w': "advance_lists 1 s fs w = Some (Some w')" "current_block w' = tsl"
    using advance_first[OF assms(1,2) w(2-4)] by blast
  define st where "st = \<lparr>ww = w, w_advance = 1 + ?k div 122, w_which = ?k mod 122, w_offset = ?o, w_desired = n,
    w_buf = buf, w_count = 0, w_data = [], w_fs = fs\<rparr>"
  define st' where "st' = st\<lparr>ww := w', w_advance := 0\<rparr>"
  have k122: "?k < 122" using kN N by simp
  have adv: "advance_lists (w_advance st) s (w_fs st) (ww st) = Some (Some w')" using w'(1) k122 by (simp add: st_def)
  have run: "c_loop (n div 256 + 3) (write_step afuel s) st = c_loop (n div 256 + 3) (write_step afuel s) st'"
    using write_step_first[OF adv, of afuel] by (simp add: st'_def numeral_3_eq_3)
  have f: "w_fs st' = fs" "w_buf st' = buf" "w_count st' = 0" by (simp_all add: st'_def st_def)
  have "in_write tsl ?k ?o n st'" using w'(2) k122 assms(8) by (simp add: in_write_def st'_def st_def)
  moreover have "?k * 256 + ?o + n \<le> N * 256" using an Nsz by simp
  moreover have "(?o + n) div 256 < n div 256 + 3" by linarith
  ultimately obtain d where
    d: "c_loop (n div 256 + 3) (write_step afuel s) st' = Some (int n, put_disk s d fs)"
      "length d = length (disk_of s fs)"
      "file_content d tsl N = overwrite ?a buf (file_content (disk_of s fs) tsl N)"
      "\<forall>c. c \<notin> sec_at tsl ` {..<N} \<longrightarrow> blk_valid 256 (disk_of s fs) c \<longrightarrow> blk_get 256 d c = blk_get 256 (disk_of s fs) c"
    using write_loop[of s st' tsl N ?k ?o n "n div 256 + 3" afuel] assms(1,4,8) kN f by auto
  define fs' where "fs' = put_disk s d fs"
  have ok': "vol_ok s fs'" "disk_of s fs' = d" using assms(1) by (simp_all add: fs'_def)
  have val: "blk_valid 256 d c \<longleftrightarrow> blk_valid 256 (disk_of s fs) c" for c using d(2) by (simp add: blk_valid_def)
  have "blk_get 256 d (secno (ino_t (i_number ino)) (ino_s (i_number ino)))
      = blk_get 256 (disk_of s fs) (secno (ino_t (i_number ino)) (ino_s (i_number ino)))"
    "blk_get 256 d (secno (fst l) (snd l)) = blk_get 256 (disk_of s fs) (secno (fst l) (snd l))"
    using d(4) assms(2,5,6) by (simp_all add: file_at_def Let_def)
  then have at: "file_at s fs' ino type l tsl" using assms(2) val ok' by (simp add: file_at_def Let_def)
  have "to_u32 (int ?a) = ?a" using small by simp
  then have wr: "dos33fs_write_file afuel ino buf n off fs = Some (int n, ino, off + n, fs')"
    using w(1) small assms(7) run d(1) by (simp add: dos33fs_write_file_def st_def Let_def fs'_def)
  have ent: "entry_ok d tsl j" if "j < N" for j
    using solidD(3)[OF assms(4) that] val by (simp add: entry_ok_def split: prod.splits)
  have "length (file_content (disk_of s fs) tsl N) = 256 * N"
    using length_concat_const[of "[0..<N]" "data_sector (disk_of s fs) tsl" 256]
      length_data_sector[OF solidD(3)[OF assms(4)]] by (simp add: file_content_def)
  then have "take n (drop ?a (file_content d tsl N)) = buf"
    using d(3) assms(8) an Nsz by (simp add: overwrite_def)
  moreover have "dos33fs_read_file ino n off fs' =
    (let out = take (min n (i_size ino - off)) (drop ?a (file_content (disk_of s fs') tsl (Suc (adjusted type (i_size ino) div 256))))
     in Some (int (length out), out, off + length out))"
    by (rule read_file_correct_eq[OF ok'(1) at]) (use N assms(3,7) ent ok' in auto)
  moreover have "min n (i_size ino - off) = n" using assms(7) by simp
  ultimately have "dos33fs_read_file ino n off fs' = (let out = buf in Some (int (length out), out, off + length out))"
    using ok'(2) assms(3) by (simp only:)
  then have "dos33fs_read_file ino n off fs' = Some (int n, buf, off + n)" using assms(8) by simp
  then show ?thesis using wr ok' at d(3,4) by blast
qed

lemma demo_solid: "solid demo_disk demo_tsl 1"
  by (simp add: solid_def tsl_entry_def demo_tsl_def secno_def blk_valid_def lessThan_Suc)

lemma demo_sec_at: "sec_at demo_tsl 0 = 289"
  by (simp add: sec_at_def tsl_entry_def demo_tsl_def secno_def)

lemma write_file_overwrites_witness:
  "\<exists>fs'. dos33fs_write_file 71 demo_ino [9, 8] 2 2 (demo_fs demo_disk 3) = Some (2, demo_ino, 4, fs')
    \<and> dos33fs_read_file demo_ino 2 2 fs' = Some (2, [9, 8], 4)"
proof -
  have ok: "vol_ok 0 (demo_fs demo_disk 3)" by (rule demo_vol_ok) simp
  have a: "1 = Suc (adjusted 4 (i_size demo_ino) div 256)" "solid (disk_of 0 (demo_fs demo_disk 3)) demo_tsl 1"
    "2 + 2 \<le> i_size demo_ino" "2 = length [9, 8 :: byte]"
    using demo_solid by (simp_all add: demo_ino_def adjusted_def)
  have b: "secno (ino_t (i_number demo_ino)) (ino_s (i_number demo_ino)) \<notin> sec_at demo_tsl ` {..<1}"
    "secno (fst (18, 0)) (snd (18, 0)) \<notin> sec_at demo_tsl ` {..<1}"
    by (simp_all add: demo_ino_def demo_ino_parts secno_def demo_sec_at lessThan_Suc)
  have "int 2 = 2" by simp
  with write_file_overwrites[OF ok demo_file_at a(1,2) b a(3,4), of 71] show ?thesis
    by (simp only: numeral_plus_numeral) auto
qed

section \<open>Two volumes at once\<close>

text \<open>
  Mounting a second volume changes the table of the first one: the two tables are two bytes
  apart in \<open>vtoc_list\<close>, since the dimensions of the array are swapped in its declaration, so byte
  \<open>i\<close> of the new table is byte \<open>i + 2\<close> of the old one.
\<close>

theorem second_mount_overlaps:
  assumes "vol_ok s fs" and "vol_off s fs = 0" and "next_vtoc fs = 1" and "s2 \<noteq> s"
    and "dos33fs_mount s2 block fs = Some (0, fs')" and "i < 254"
  shows "vtoc_rd s (i + 2) fs' = vtoc_rd s2 i fs'"
proof -
  obtain sb where sb: "sb_get s2 fs = Some sb" "s2 < length (superblock_table fs)"
    using assms(5) by (auto simp: dos33fs_mount_def bind_eq_Some_conv sb_get_def rd_Some_iff)
  obtain fs3 where fs3: "dos33_update_blocks_free s2 fs3 = Some fs'"
    "sb_private (superblock_table fs3 ! s2) = Some 2" "superblock_table fs3 ! s = superblock_table fs ! s"
    "length (superblock_table fs3) = length (superblock_table fs)"
    using assms(3,4,5) sb
    by (auto simp: dos33fs_mount_def bind_eq_Some_conv Let_def sb_set_def)
  note p = fs3(2-4)
  have q: "sb_private (superblock_table fs ! s) = Some 0" "s < length (superblock_table fs)"
    using assms(1,2) by (auto simp: vol_ok_def vol_off_def)
  obtain sb4 where f': "fs' = sb_set s2 sb4 fs3" "sb_private sb4 = Some 2"
    using fs3(1) p(1) by (auto simp: dos33_update_blocks_free_def bind_eq_Some_conv sb_get_def rd_Some_iff)
  have "sb_private (superblock_table fs' ! s2) = Some 2" "sb_private (superblock_table fs' ! s) = Some 0"
    "length (superblock_table fs') = length (superblock_table fs)"
    using f' p q sb(2) assms(4) by (simp_all add: sb_set_def)
  then show ?thesis using q(2) sb(2) by (simp add: vtoc_rd_def sb_get_def add.commute)
qed

lemma second_mount_overlaps_witness:
  "\<exists>fs'. dos33fs_mount 1 1 (demo_fs (replicate 143360 0) 3) = Some (0, fs')
    \<and> vtoc_rd 0 5 fs' = vtoc_rd 1 3 fs'"
proof -
  let ?fs = "demo_fs (replicate 143360 0) 3" and ?z = "replicate 256 0 :: bytes"
  have sb: "sb_get 1 ?fs = Some superblock_zero" by (simp add: sb_get_def demo_fs_def)
  have sl: "slice (vtoc_list ?fs) 2 256 = Some (take 256 (drop 2 (vtoc_list ?fs)))"
    by (rule slice_eq) (simp add: demo_fs_def)
  have rd: "block_read 1 (ts 17 0) 256 (take 256 (drop 2 (vtoc_list ?fs))) f = Some (256, ?z)"
    if "block_devs f = block_devs ?fs" for f
  proof -
    have "slice (replicate 143360 (0 :: byte)) (ts 17 0) 256 = Some ?z" by (simp add: slice_def ts_def)
    then show ?thesis using that
      by (simp add: block_read_def ramdisk_read_def demo_fs_def block_dev_zero_def copy_in_def)
  qed
  define l where "l = take 2 (vtoc_list ?fs) @ ?z @ drop 258 (vtoc_list ?fs)"
  have sp: "splice (vtoc_list ?fs) 2 ?z = Some l"
    using splice_eq[of 2 ?z "vtoc_list ?fs"] by (simp add: l_def demo_fs_def)
  have ln: "length l = 512" "l ! 54 = 0" "l ! 55 = 0" by (simp_all add: l_def demo_fs_def nth_append)
  have z: "?z ! 1 = 0" "?z ! 2 = 0" by (subst nth_replicate, simp, simp)+
  define sb' where "sb' = superblock_zero\<lparr>sb_block := Some 1, sb_private := Some 2, sb_block_size := 256,
       sb_ops := Dos33_Sb_Ops, sb_root_dir := mk_ino 0 0 0xff\<rparr>"
  define fs3 where "fs3 = sb_set 1 sb' (?fs\<lparr>next_vtoc := 2, vtoc_list := l\<rparr>)"
  have "sb_get 1 fs3 = Some sb'" by (simp add: sb_get_def fs3_def sb_set_def demo_fs_def)
  then have up: "dos33_update_blocks_free 1 fs3 = Some (sb_set 1 (sb'\<lparr>sb_blocks := 0, sb_blocks_free := 0\<rparr>) fs3)"
    using ln by (simp add: dos33_update_blocks_free_def vtoc_rd_def sb'_def) (simp add: fs3_def sb_set_def)
  have nv: "next_vtoc ?fs = 1" by (simp add: demo_fs_def)
  define fs' where "fs' = sb_set 1 (sb'\<lparr>sb_blocks := 0, sb_blocks_free := 0\<rparr>) fs3"
  have zz: "rd ?z 1 = Some 0" "rd ?z 2 = Some 0" using z by (simp_all add: rd_def)
  have f3: "sb_set 1 (superblock_zero\<lparr>sb_block := Some 1, sb_private := Some 2, sb_block_size := 256,
       sb_ops := Dos33_Sb_Ops, sb_root_dir := mk_ino (unat 0) (unat 0) 0xff\<rparr>)
       ((sb_set 1 (superblock_zero\<lparr>sb_block := Some 1\<rparr>) ?fs)\<lparr>next_vtoc := 2, vtoc_list := l\<rparr>) = fs3"
    by (simp add: fs3_def sb'_def sb_set_def)
  have m: "dos33fs_mount 1 1 ?fs = Some (0, fs')"
    unfolding dos33fs_mount_def sb Option.bind.bind_lunit Let_def nv
    using sl sp up rd[of "(sb_set 1 (superblock_zero\<lparr>sb_block := Some 1\<rparr>) ?fs)\<lparr>next_vtoc := 2\<rparr>"] zz f3
    by (simp add: fs'_def sb_set_def numeral_2_eq_2)
  have "vol_ok 0 ?fs" by (rule demo_vol_ok) simp
  moreover have "vol_off 0 ?fs = 0" by (simp add: vol_off_def demo_fs_def)
  ultimately have "vtoc_rd 0 (3 + 2) fs' = vtoc_rd 1 3 fs'"
    using second_mount_overlaps[of 0 ?fs 1 1 fs' 3] m nv by simp
  with m show ?thesis by simp
qed

section \<open>Destroying an empty file\<close>

text \<open>
  Destroying a file of size zero frees the sector of its track/sector list and marks the
  catalog entry deleted, and no other sector becomes free: the first data sector, which every file
  \<open>dos33fs_make_inode\<close> makes has from the start, stays allocated for ever.
\<close>

theorem destroy_frees_only_list:
  assumes "vol_ready s fs" and "file_at s fs ino type l tsl" and "i_size ino = 0"
    and "fst l < vol_tracks s fs" and "snd l < 16"
  shows "\<exists>fs'. dos33fs_destroy_inode fuel ino fs = Some (0, ino, fs')
    \<and> free_sectors (vtoc_of s fs') = insert l (free_sectors (vtoc_of s fs))
    \<and> blk_get 256 (disk_of s fs') (secno (ino_t (i_number ino)) (ino_s (i_number ino))) ! cat_pos (ino_e (i_number ino)) = 0xff"
proof -
  let ?k = "secno (ino_t (i_number ino)) (ino_s (i_number ino))" and ?e = "ino_e (i_number ino)"
  let ?cat = "blk_get 256 (disk_of s fs) ?k"
  note ok = vol_readyD[OF assms(1)]
  have v: "blk_valid 256 (disk_of s fs) ?k" and e: "?e < 7" and sb: "i_sb ino = Some s"
    and et: "entry_ts ?cat ?e = Some l"
    using assms(2) by (auto simp: file_at_def Let_def)
  have lc: "length ?cat = 256" by (rule disk.length_get[OF v])
  have ce: "cat_pos ?e + 35 \<le> 256" using e by (rule cat_pos_bound)
  define old where "old = (if ?cat ! cat_pos ?e = 0xfe then ?cat ! (cat_pos ?e + 0x20) else ?cat ! cat_pos ?e)"
  have l: "unat old = fst l" "unat (?cat ! (cat_pos ?e + 1)) = snd l"
    using et lc ce by (auto simp: entry_ts_def old_def split: if_splits)
  define b where "b = (if ?cat ! cat_pos ?e = 0xfe then ?cat else ?cat[cat_pos ?e + 0x20 := ?cat ! cat_pos ?e])[cat_pos ?e := 0xff]"
  have lb: "length b = 256" "b ! cat_pos ?e = 0xff" "b ! (cat_pos ?e + 1) = ?cat ! (cat_pos ?e + 1)"
    using lc ce by (simp_all add: b_def)
  define fs2 where "fs2 = put_disk s (blk_put 256 ?k b (disk_of s fs)) fs"
  have ok2: "vol_ok s fs2" "vtoc_of s fs2 = vtoc_of s fs" "vtoc_ok (vtoc_of s fs2)"
    "disk_of s fs2 = blk_put 256 ?k b (disk_of s fs)" using ok by (simp_all add: fs2_def)
  have w: "dos_write s (?k * 256) b fs = Some fs2"
    unfolding fs2_def by (rule dos_write_eq[OF ok(1) v lb(1)])
  have t: "fst l < unat (vtoc_of s fs2 ! 0x34)" using assms(4) ok2(2) by (simp add: vol_tracks_def)
  define fs3 where "fs3 = recount s (mark_bit (fst l, snd l) (vtoc_of s fs2)) fs2"
  have m: "dos33_mark_blocks_free s (fst l) (snd l) fs2 = Some fs3"
    unfolding fs3_def by (rule mark_blocks_free_eq(1)[OF ok2(1,3) t assms(5)])
  have rd: "dos_read s (?k * 256) [] fs = Some ?cat" using dos_read_eq[OF ok(1) v, of "[]"] by simp
  have ne: "?e \<noteq> 0xff" "?e \<noteq> 0xfe" using e by auto
  have run: "dos33fs_destroy_inode fuel ino fs = Some (0, ino, fs3)"
  proof (cases "?cat ! cat_pos ?e = 0xfe")
    case True
    then show ?thesis using assms(3) e sb rd lc ce w m l lb ne
      by (simp add: dos33fs_destroy_inode_def dos33fs_truncate_inode_def inode_to_block_def ts_secno Let_def b_def old_def)
  next
    case False
    then show ?thesis using assms(3) e sb rd lc ce w m l lb ne
      by (simp add: dos33fs_destroy_inode_def dos33fs_truncate_inode_def inode_to_block_def ts_secno Let_def b_def old_def)
  qed
  have vv: "vtoc_valid (vtoc_of s fs) (fst l, snd l)" using ok t ok2(2) assms(5) by (cases l) (simp add: vtoc_valid_def vtoc_ok_def)
  have "free_sectors (vtoc_of s fs3) = insert l (free_sectors (vtoc_of s fs))"
    using free_sectors_mark(1)[OF vv] ok ok2 t by (simp add: fs3_def vtoc_ok_def)
  moreover have "disk_of s fs3 = disk_of s fs2" using ok2 ok by (simp add: fs3_def)
  ultimately show ?thesis using run ok2(4) lb(2) disk.get_put[OF v lb(1)] by simp
qed

lemma destroy_frees_only_list_witness:
  "\<exists>fs'. dos33fs_destroy_inode 71 (demo_ino\<lparr>i_size := 0\<rparr>) (demo_fs demo_disk 0) = Some (0, demo_ino\<lparr>i_size := 0\<rparr>, fs')
    \<and> free_sectors (vtoc_of 0 fs') = {(18, 0)}"
proof -
  have r: "vol_ready 0 (demo_fs demo_disk 0)" by (rule demo_ready) simp
  have "file_at 0 (demo_fs demo_disk 0) (demo_ino\<lparr>i_size := 0\<rparr>) 4 (18, 0) demo_tsl"
    using demo_file_at[of 0] by (simp add: file_at_def)
  from destroy_frees_only_list[OF r this] show ?thesis
    by (auto simp: demo_full vol_tracks_def demo_nth)
qed

end
