(* ===== verification/Dmesg.thy ===== *)
theory Dmesg
  imports Cstring
begin

text \<open>
  The kernel message buffer, \<open>kernel/lib/dmesg.c\<close>: a ring of 4096 bytes that keeps the latest
  messages.  \<open>dmesg_log\<close> is what a user reads from it, the abstract state of the component.
\<close>

abbreviation (input) "DMESG_SIZE \<equiv> 4096 :: nat"

section \<open>The buffer\<close>

text \<open>\<open>dmesg_head\<close> and \<open>dmesg_tail\<close> are indices; either may be 4096, one behind the last byte.\<close>

record dmesg =
  dmesg_buffer :: bytes
  dmesg_head :: nat
  dmesg_tail :: nat

definition dmesg_init :: dmesg where
  "dmesg_init = \<lparr>dmesg_buffer = replicate DMESG_SIZE 0, dmesg_head = 0, dmesg_tail = 0\<rparr>"

text \<open>The head moves behind the tail when the ring has wrapped onto it.\<close>

definition dmesg_adjust :: "bool \<Rightarrow> dmesg \<Rightarrow> dmesg" where
  "dmesg_adjust wrapped d =
     (if wrapped
      then d\<lparr>dmesg_head := (if dmesg_tail d + 1 > DMESG_SIZE then dmesg_tail d + 1 - DMESG_SIZE
                            else dmesg_tail d + 1)\<rparr>
      else d)"

definition dmesg_append :: "bytes \<Rightarrow> nat \<Rightarrow> dmesg \<Rightarrow> (int \<times> dmesg) option" where
  "dmesg_append buf len d =
     (if len \<ge> DMESG_SIZE then Some (- 1, d)
      else
        let old = dmesg_tail d; new_tail = old + len in
        if new_tail > DMESG_SIZE then do {
          part1 \<leftarrow> slice buf 0 (DMESG_SIZE - old);
          b1 \<leftarrow> splice (dmesg_buffer d) old part1;
          let tail' = new_tail - DMESG_SIZE;
          part2 \<leftarrow> slice buf (DMESG_SIZE - old) tail';
          b2 \<leftarrow> splice b1 0 part2;
          Some (0, dmesg_adjust (old < dmesg_head d \<or> tail' > dmesg_head d)
                     (d\<lparr>dmesg_buffer := b2, dmesg_tail := tail'\<rparr>)) }
        else do {
          part \<leftarrow> slice buf 0 len;
          b1 \<leftarrow> splice (dmesg_buffer d) old part;
          Some (0, dmesg_adjust (dmesg_head d > old \<and> dmesg_head d < new_tail)
                     (d\<lparr>dmesg_buffer := b1, dmesg_tail := new_tail\<rparr>)) })"

section \<open>Reading it\<close>

text \<open>The bytes copied to the user, and the result.\<close>

definition dmesg_read_all :: "dmesg \<Rightarrow> bytes option" where
  "dmesg_read_all d =
     (if dmesg_head d > dmesg_tail d then do {
        a \<leftarrow> slice (dmesg_buffer d) (dmesg_head d) (DMESG_SIZE - dmesg_head d);
        b \<leftarrow> slice (dmesg_buffer d) 0 (dmesg_tail d);
        Some (a @ b) }
      else if dmesg_head d < dmesg_tail d
      then slice (dmesg_buffer d) (dmesg_head d) (dmesg_tail d - dmesg_head d)
      else Some [])"

abbreviation (input) "SYSLOG_ACTION_READ_ALL \<equiv> 3 :: int"
abbreviation (input) "SYSLOG_ACTION_SIZE_BUFFER \<equiv> 10 :: int"

definition dmesg_syscall :: "int \<Rightarrow> dmesg \<Rightarrow> (int \<times> bytes) option" where
  "dmesg_syscall cmd d =
     (if cmd = SYSLOG_ACTION_READ_ALL then do { b \<leftarrow> dmesg_read_all d; Some (int (length b), b) }
      else if cmd = SYSLOG_ACTION_SIZE_BUFFER then Some (int DMESG_SIZE, [])
      else Some (- EINVAL, []))"

section \<open>Refinement to a bounded log\<close>

definition dmesg_ok :: "dmesg \<Rightarrow> bool" where
  "dmesg_ok d \<longleftrightarrow> length (dmesg_buffer d) = DMESG_SIZE \<and> dmesg_head d \<le> DMESG_SIZE \<and> dmesg_tail d \<le> DMESG_SIZE"

definition ring_log :: "bytes \<Rightarrow> nat \<Rightarrow> nat \<Rightarrow> bytes" where
  "ring_log b h t = (if h > t then drop h b @ take t b else take (t - h) (drop h b))"

definition dmesg_log :: "dmesg \<Rightarrow> bytes" where
  "dmesg_log d = ring_log (dmesg_buffer d) (dmesg_head d) (dmesg_tail d)"

text \<open>
  The log after an append: all of it while it is shorter than the ring; the last 4095 bytes when
  it is longer; and nothing at all when the new log is exactly as long as the ring, unless the
  ring has never wrapped.
\<close>

definition log_append :: "bool \<Rightarrow> bytes \<Rightarrow> bytes \<Rightarrow> bytes" where
  "log_append fresh l new =
     (let a = l @ new in
      if length a < DMESG_SIZE then a
      else if length a = DMESG_SIZE then (if fresh then a else [])
      else drop (length a - (DMESG_SIZE - 1)) a)"

lemma dmesg_read_all_eq: "dmesg_ok d \<Longrightarrow> dmesg_read_all d = Some (dmesg_log d)"
  by (auto simp: dmesg_read_all_def dmesg_log_def ring_log_def dmesg_ok_def slice_eq)

lemma length_ring_log: "length b = 4096 \<Longrightarrow> h \<le> 4096 \<Longrightarrow> t \<le> 4096 \<Longrightarrow>
    length (ring_log b h t) = (if h > t then 4096 - h + t else t - h)"
  by (auto simp: ring_log_def)

text \<open>The bytes of the ring after an append that does not wrap, and after one that does.\<close>

definition ring_put :: "bytes \<Rightarrow> nat \<Rightarrow> bytes \<Rightarrow> bytes" where
  "ring_put b t new =
     (if t + length new \<le> 4096 then take t b @ new @ drop (t + length new) b
      else drop (4096 - t) new @ drop (t + length new - 4096) (take t b) @ take (4096 - t) new)"

lemma length_ring_put: "length b = 4096 \<Longrightarrow> t \<le> 4096 \<Longrightarrow> length new < 4096 \<Longrightarrow> length (ring_put b t new) = 4096"
  by (auto simp: ring_put_def)

lemma dmesg_append_eq:
  assumes "dmesg_ok d" "length buf = n" "n < 4096"
  shows "dmesg_append buf n d =
    (let t = dmesg_tail d; h = dmesg_head d;
         t' = (if t + n > 4096 then t + n - 4096 else t + n);
         wrapped = (if t + n > 4096 then t < h \<or> t' > h else h > t \<and> h < t') in
     Some (0, dmesg_adjust wrapped (d\<lparr>dmesg_buffer := ring_put (dmesg_buffer d) t buf, dmesg_tail := t'\<rparr>)))"
proof (cases "dmesg_tail d + n > 4096")
  case False
  then show ?thesis using assms
    by (simp add: dmesg_append_def dmesg_ok_def Let_def slice_eq splice_eq ring_put_def)
next
  case True
  let ?t = "dmesg_tail d" and ?b = "dmesg_buffer d"
  have t: "?t \<le> 4096" "length ?b = 4096" using assms(1) by (simp_all add: dmesg_ok_def)
  have p1: "slice buf 0 (4096 - ?t) = Some (take (4096 - ?t) buf)"
    using True assms t by (simp add: slice_eq)
  have s1: "splice ?b ?t (take (4096 - ?t) buf) = Some (take ?t ?b @ take (4096 - ?t) buf)"
    using True assms t by (simp add: splice_eq)
  have p2: "slice buf (4096 - ?t) (?t + n - 4096) = Some (drop (4096 - ?t) buf)"
    using True assms t by (simp add: slice_eq)
  have s2: "splice (take ?t ?b @ take (4096 - ?t) buf) 0 (drop (4096 - ?t) buf)
      = Some (ring_put ?b ?t buf)"
    using True assms t by (simp add: splice_eq ring_put_def add.commute)
  show ?thesis using True assms(3) by (simp add: dmesg_append_def Let_def p1 s1 p2 s2)
qed

lemma dmesg_append_ok:
  assumes "dmesg_ok d" "length buf = n" "n < 4096" "dmesg_append buf n d = Some (r, d')"
  shows "dmesg_ok d'"
  using assms(1,3) assms(4)[unfolded dmesg_append_eq[OF assms(1-3)] Let_def] length_ring_put[of "dmesg_buffer d" "dmesg_tail d" buf] assms(2)
  by (auto simp: dmesg_ok_def dmesg_adjust_def)

definition wrapped_head :: "nat \<Rightarrow> nat" where
  "wrapped_head t = (if t + 1 > 4096 then t + 1 - 4096 else t + 1)"

text \<open>The four positions of head and tail.\<close>

lemma ring_straight:
  assumes "length b = 4096" "h \<le> t" "t + length new \<le> 4096"
  shows "ring_log (ring_put b t new) h (t + length new) = log_append (h = 0) (ring_log b h t) new"
  using assms by (auto simp: ring_log_def ring_put_def log_append_def Let_def drop_take)

lemma ring_crosses:
  assumes b: "length b = 4096" "h \<le> t" "t \<le> 4096" "length new < 4096" and t': "t + length new = 4096 + t'" "0 < t'"
  shows "ring_log (ring_put b t new) (if t' > h then wrapped_head t' else h) t'
    = log_append (h = 0) (ring_log b h t) new"
proof -
  define A B C where "A = drop (4096 - t) new" "B = drop t' (take t b)" "C = take (4096 - t) new"
  have new: "new = C @ A" by (simp add: A_B_C_def)
  have l: "length A = t'" "length B = t - t'" "length C = 4096 - t" "t' < t"
    using assms by (simp_all add: A_B_C_def)
  have p: "ring_put b t new = A @ B @ C" using t' by (simp add: ring_put_def A_B_C_def)
  have log: "ring_log b h t = drop h (take t b)" using b by (simp add: ring_log_def drop_take)
  have lh: "length (drop h (take t b)) = t - h" using b by simp
  have "ring_log (A @ B @ C) (if t' > h then wrapped_head t' else h) t'
      = log_append (h = 0) (drop h (take t b)) (C @ A)"
  proof -
    consider "h < t'" | "h = t'" | "t' < h" by linarith
    then show ?thesis
    proof cases
      case 1
      have "drop (t' + 1 - h) (drop h (take t b)) = drop 1 B"
        using 1 by (simp add: A_B_C_def(2) add.commute)
      then have "drop (t' + 1 - h) (drop h (take t b) @ C @ A) = drop 1 B @ C @ A"
        using 1 l lh b by (simp del: length_drop add: lh)
      moreover have "length (drop h (take t b) @ C @ A) = 4096 + t' - h"
        using 1 l lh b by (simp del: length_drop)
      moreover have "ring_log (A @ B @ C) (wrapped_head t') t' = drop 1 B @ C @ A"
        using l b(3) by (simp add: ring_log_def wrapped_head_def)
      moreover have "4096 + t' - h - 4095 = t' + 1 - h" using 1 by simp
      ultimately show ?thesis using 1 by (simp add: log_append_def Let_def del: length_append)
    next
      case 2
      then show ?thesis using l lh t' b(3) by (simp add: ring_log_def log_append_def Let_def)
    next
      case 3
      have d: "drop (h - t') B = drop h (take t b)" using 3 by (simp add: A_B_C_def(2))
      have "ring_log (A @ B @ C) h t' = drop h (take t b) @ C @ A"
        using 3 l b(2) by (simp add: ring_log_def d)
      moreover have "length (drop h (take t b) @ C @ A) < 4096"
        using 3 l lh b(2,3) by (simp del: length_drop)
      ultimately show ?thesis using 3 by (simp add: log_append_def Let_def del: length_append)
    qed
  qed
  then show ?thesis unfolding p log by (simp only: new[symmetric])
qed

lemma ring_behind:
  assumes b: "length b = 4096" "t < h" "h \<le> 4096" "t + length new \<le> 4096" and t': "t + length new = t'"
  shows "ring_log (ring_put b t new) (if h < t' then wrapped_head t' else h) t'
    = log_append (h = 0) (ring_log b h t) new"
proof -
  have p: "ring_put b t new = take t b @ new @ drop t' b" using b(4) t' by (simp add: ring_put_def)
  have log: "ring_log b h t = drop h b @ take t b" using b by (simp add: ring_log_def)
  consider "t' < h" | "h = t'" | "h < t'" "t' < 4096" | "h < t'" "t' = 4096" using b(4) t' by linarith
  then show ?thesis
  proof cases
    case 1
    then show ?thesis using b t' unfolding p log by (simp add: ring_log_def log_append_def Let_def)
  next
    case 2
    then show ?thesis using b t' unfolding p log by (simp add: ring_log_def log_append_def Let_def)
  next
    case 3
    then show ?thesis using b t' unfolding p log
      by (simp add: ring_log_def wrapped_head_def log_append_def Let_def)
  next
    case 4
    then show ?thesis using b t' unfolding p log
      by (simp add: ring_log_def wrapped_head_def log_append_def Let_def)
  qed
qed

lemma ring_both:
  assumes b: "length b = 4096" "t < h" "h \<le> 4096" "length new < 4096" and t': "t + length new = 4096 + t'" "0 < t'"
  shows "ring_log (ring_put b t new) (wrapped_head t') t' = log_append (h = 0) (ring_log b h t) new"
proof -
  define A B C where "A = drop (4096 - t) new" "B = drop t' (take t b)" "C = take (4096 - t) new"
  have new: "new = C @ A" by (simp add: A_B_C_def)
  have l: "length A = t'" "length B = t - t'" "length C = 4096 - t" "t' < t"
    using assms by (simp_all add: A_B_C_def)
  have p: "ring_put b t new = A @ B @ C" using t' by (simp add: ring_put_def A_B_C_def)
  have log: "ring_log b h t = drop h b @ take t b" using b by (simp add: ring_log_def)
  have lb: "length (drop h b) = 4096 - h" "length (take t b) = t" using b by simp_all
  have "ring_log (A @ B @ C) (wrapped_head t') t' = drop 1 B @ C @ A"
    using l b by (simp add: ring_log_def wrapped_head_def)
  also have "\<dots> = log_append (h = 0) (drop h b @ take t b) (C @ A)"
  proof -
    have "length ((drop h b @ take t b) @ C @ A) = 4096 - h + (4096 + t')"
      using l lb b by (simp del: length_drop length_take)
    moreover have "drop (4096 - h + (4096 + t') - 4095) ((drop h b @ take t b) @ C @ A) = drop 1 B @ C @ A"
    proof -
      have "4096 - h + (4096 + t') - 4095 = length (drop h b) + (t' + 1)" using lb by simp
      then have "drop (4096 - h + (4096 + t') - 4095) ((drop h b @ take t b) @ C @ A) = drop (t' + 1) (take t b @ C @ A)"
        by (simp only: append.assoc drop_append) simp
      also have "\<dots> = drop (t' + 1) (take t b) @ C @ A" using l lb by (simp del: length_take)
      also have "drop (t' + 1) (take t b) = drop 1 B" by (simp add: A_B_C_def(2) add.commute)
      finally show ?thesis .
    qed
    moreover have "4096 - h + (4096 + t') > 4096" using b(3) t'(2) by linarith
    ultimately show ?thesis using t'(2) by (simp only: log_append_def Let_def) (simp del: length_append append.assoc drop_append)
  qed
  finally show ?thesis unfolding p log by (simp only: new[symmetric])
qed

section \<open>Properties\<close>

lemma dmesg_log_adjust:
  "dmesg_log (dmesg_adjust w (d\<lparr>dmesg_buffer := b, dmesg_tail := t\<rparr>))
     = ring_log b (if w then wrapped_head t else dmesg_head d) t"
  by (simp add: dmesg_log_def dmesg_adjust_def wrapped_head_def)

text \<open>\<open>dmesg_append\<close> of fewer than 4096 bytes succeeds, keeps the indices in range, and what a
  later read returns is the old log with the new bytes behind it, cut to the last 4095 bytes once
  it exceeds the ring; when the two together are exactly 4096 bytes and the head has moved, the
  log becomes empty.\<close>

theorem dmesg_append_log:
  assumes "dmesg_ok d" and "length buf < 4096"
  shows "\<exists>d'. dmesg_append buf (length buf) d = Some (0, d') \<and> dmesg_ok d' \<and>
    dmesg_read_all d' = Some (log_append (dmesg_head d = 0) (dmesg_log d) buf)"
proof -
  let ?t = "dmesg_tail d" and ?h = "dmesg_head d" and ?n = "length buf"
  have ok: "length (dmesg_buffer d) = 4096" "?h \<le> 4096" "?t \<le> 4096" using assms(1) by (simp_all add: dmesg_ok_def)
  define d' where "d' = snd (the (dmesg_append buf ?n d))"
  have r: "dmesg_append buf ?n d = Some (0, d')"
    unfolding d'_def by (simp add: dmesg_append_eq[OF assms(1) refl assms(2)] Let_def)
  have ok': "dmesg_ok d'" using dmesg_append_ok[OF assms(1) refl assms(2) r] .
  note eq = dmesg_append_eq[OF assms(1) refl assms(2), unfolded r Let_def]
  have "dmesg_log d' = log_append (?h = 0) (dmesg_log d) buf"
  proof (cases "?t + ?n > 4096")
    case True
    then obtain t' where t': "?t + ?n = 4096 + t'" "0 < t'" by (metis less_imp_add_positive)
    have "t' < ?t" using t' assms(2) by linarith
    show ?thesis
    proof (cases "?h \<le> ?t")
      case h: True
      have "dmesg_log d' = ring_log (ring_put (dmesg_buffer d) ?t buf) (if t' > ?h then wrapped_head t' else ?h) t'"
        using eq True t' h by (simp add: dmesg_log_adjust)
      then show ?thesis using ring_crosses[OF ok(1) h ok(3) assms(2) t'] by (simp add: dmesg_log_def)
    next
      case h: False
      have "dmesg_log d' = ring_log (ring_put (dmesg_buffer d) ?t buf) (wrapped_head t') t'"
        using eq True t' h by (simp add: dmesg_log_adjust)
      then show ?thesis using ring_both[OF ok(1) _ ok(2) assms(2) t'] h by (simp add: dmesg_log_def)
    qed
  next
    case False
    then have le: "?t + ?n \<le> 4096" by simp
    show ?thesis
    proof (cases "?h \<le> ?t")
      case h: True
      have "dmesg_log d' = ring_log (ring_put (dmesg_buffer d) ?t buf) ?h (?t + ?n)"
        using eq False h by (simp add: dmesg_log_adjust)
      then show ?thesis using ring_straight[OF ok(1) h le] by (simp add: dmesg_log_def)
    next
      case h: False
      have "dmesg_log d' = ring_log (ring_put (dmesg_buffer d) ?t buf)
          (if ?h < ?t + ?n then wrapped_head (?t + ?n) else ?h) (?t + ?n)"
        using eq False h by (simp add: dmesg_log_adjust)
      then show ?thesis using ring_behind[OF ok(1) _ ok(2) le refl] h by (simp add: dmesg_log_def)
    qed
  qed
  then show ?thesis using r ok' dmesg_read_all_eq[OF ok'] by (intro exI[of _ d']) simp
qed

lemma dmesg_append_log_witness:
  "\<exists>d'. dmesg_append [1, 2] 2 (dmesg_init\<lparr>dmesg_head := 4095, dmesg_tail := 4094\<rparr>) = Some (0, d') \<and> dmesg_ok d' \<and>
    dmesg_read_all d' = Some (log_append False (dmesg_log (dmesg_init\<lparr>dmesg_head := 4095, dmesg_tail := 4094\<rparr>)) [1, 2])"
proof -
  let ?d = "dmesg_init\<lparr>dmesg_head := 4095, dmesg_tail := 4094\<rparr>"
  have "dmesg_ok ?d" "(dmesg_head ?d = 0) = False" by (simp_all add: dmesg_ok_def dmesg_init_def)
  then show ?thesis using dmesg_append_log[of ?d "[1, 2]"] by (simp add: numeral_2_eq_2)
qed

text \<open>A single byte appended to a full ring, the state every long running kernel is in, empties
  the log: the next read returns nothing.\<close>

theorem dmesg_byte_empties:
  assumes "dmesg_ok d" and "dmesg_head d = wrapped_head (dmesg_tail d)"
  shows "\<exists>d'. dmesg_append [c] 1 d = Some (0, d') \<and> dmesg_syscall 3 d' = Some (0, [])"
proof -
  have l: "length (dmesg_buffer d) = 4096" "dmesg_tail d \<le> 4096" using assms(1) by (simp_all add: dmesg_ok_def)
  show ?thesis
  proof (cases "dmesg_tail d = 4096")
    case True
    then show ?thesis using assms l
      by (simp add: dmesg_append_eq Let_def wrapped_head_def dmesg_adjust_def dmesg_syscall_def dmesg_read_all_def)
  next
    case False
    then have h: "dmesg_head d = dmesg_tail d + 1" "\<not> dmesg_tail d + 1 > 4096" using assms l by (simp_all add: wrapped_head_def)
    have "dmesg_append [c] 1 d
        = Some (0, d\<lparr>dmesg_buffer := ring_put (dmesg_buffer d) (dmesg_tail d) [c], dmesg_tail := dmesg_tail d + 1\<rparr>)"
      using h by (simp add: dmesg_append_eq[OF assms(1)] Let_def dmesg_adjust_def)
    then show ?thesis using h by (simp add: dmesg_syscall_def dmesg_read_all_def)
  qed
qed

lemma dmesg_byte_empties_witness:
  "\<exists>d'. dmesg_append [65] 1 (dmesg_init\<lparr>dmesg_head := 8, dmesg_tail := 7\<rparr>) = Some (0, d') \<and> dmesg_syscall 3 d' = Some (0, [])"
  by (rule dmesg_byte_empties) (simp_all add: dmesg_ok_def dmesg_init_def wrapped_head_def)

end
