(* ===== verification/Romfs.thy ===== *)
theory Romfs
  imports Block_Dev Paths
begin

text \<open>
  The read-only file system, \<open>kernel/fs/romfs/romfs.c\<close>: the chunked strings, file headers and
  hard links of the image, lookup of a path, reading of files and directories, and mounting.

  An inode number is the offset of a file header on the device.  Offsets are \<open>u32\<close> as in the code.
  A read the driver refuses leaves the caller's uninitialised variable as it was, so its use is
  undefined.
\<close>

abbreviation (input) "ROMFS_MAX_FILENAME_SIZE \<equiv> 256 :: nat"

section \<open>Reading the device\<close>

definition romfs_read_noinc :: "nat \<Rightarrow> u32 \<Rightarrow> nat \<Rightarrow> fs_state \<Rightarrow> bytes option" where
  "romfs_read_noinc s off n fs = do {
     sb \<leftarrow> sb_get s fs;
     dev \<leftarrow> sb_block sb;
     (_, b) \<leftarrow> block_read dev (unat off) n [] fs;
     if length b = n then Some b else None }"

text \<open>\<open>romfs_read_noinc(sb,&temp_int,offset,4)\<close> followed by \<open>ntohl(temp_int)\<close>.\<close>

definition le32 :: "bytes \<Rightarrow> u32" where
  "le32 b = ucast (b ! 0) OR push_bit 8 (ucast (b ! 1)) OR push_bit 16 (ucast (b ! 2)) OR push_bit 24 (ucast (b ! 3))"

definition romfs_word :: "nat \<Rightarrow> u32 \<Rightarrow> fs_state \<Rightarrow> u32 option" where
  "romfs_word s off fs = do { b \<leftarrow> romfs_read_noinc s off 4 fs; Some (ntohl (le32 b)) }"

section \<open>Strings\<close>

text \<open>
  A string is stored in chunks of 16 bytes and ends in the first chunk whose last byte is NUL.
  The state is the offset, \<open>max_stringsize\<close> and the buffer; the previous contents of the buffer
  do not matter, because its first byte is cleared.
\<close>

definition read_string_step :: "nat \<Rightarrow> fs_state \<Rightarrow> u32 \<times> int \<times> bytes \<Rightarrow> ((u32 \<times> int \<times> bytes) + (u32 \<times> bytes)) option" where
  "read_string_step s fs = (\<lambda>(our_offset, max_stringsize, buffer). do {
     temp \<leftarrow> romfs_read_noinc s our_offset 16 fs;
     buffer' \<leftarrow> (if max_stringsize > 0
                  then strncat buffer temp (if max_stringsize > 16 then 16 else nat max_stringsize)
                  else Some buffer);
     Some (if temp ! 15 = 0 then Inr (our_offset + 16, buffer')
           else Inl (our_offset + 16, max_stringsize - 16, buffer')) })"

definition romfs_read_string :: "nat \<Rightarrow> nat \<Rightarrow> u32 \<Rightarrow> bytes \<Rightarrow> nat \<Rightarrow> fs_state \<Rightarrow> (u32 \<times> bytes) option" where
  "romfs_read_string fuel s off buffer sz fs = do {
     b0 \<leftarrow> wr buffer 0 0;
     (e, b) \<leftarrow> c_loop fuel (read_string_step s fs) (off, int sz, b0);
     Some (e - off, b) }"

definition string_length_step :: "nat \<Rightarrow> fs_state \<Rightarrow> u32 \<times> nat \<Rightarrow> ((u32 \<times> nat) + nat) option" where
  "string_length_step s fs = (\<lambda>(our_offset, n). do {
     temp \<leftarrow> romfs_read_noinc s our_offset 16 fs;
     Some (if temp ! 15 = 0 then Inr (n + strlen temp) else Inl (our_offset + 16, n + 16)) })"

definition romfs_string_length :: "nat \<Rightarrow> nat \<Rightarrow> u32 \<Rightarrow> fs_state \<Rightarrow> nat option" where
  "romfs_string_length fuel s off fs = c_loop fuel (string_length_step s fs) (off, 0)"

definition string_chunks_step :: "nat \<Rightarrow> fs_state \<Rightarrow> u32 \<times> nat \<Rightarrow> ((u32 \<times> nat) + nat) option" where
  "string_chunks_step s fs = (\<lambda>(our_offset, n). do {
     temp \<leftarrow> romfs_read_noinc s our_offset 16 fs;
     Some (if temp ! 15 = 0 then Inr (n + 16) else Inl (our_offset + 16, n + 16)) })"

definition romfs_string_length_chunks :: "nat \<Rightarrow> nat \<Rightarrow> u32 \<Rightarrow> fs_state \<Rightarrow> nat option" where
  "romfs_string_length_chunks fuel s off fs = c_loop fuel (string_chunks_step s fs) (off, 0)"

section \<open>Hard links and inodes\<close>

definition follow_links_step :: "nat \<Rightarrow> fs_state \<Rightarrow> u32 \<Rightarrow> (u32 + u32) option" where
  "follow_links_step s fs ino = do {
     type \<leftarrow> romfs_word s ino fs;
     spec_info \<leftarrow> romfs_word s (ino + 4) fs;
     Some (if type AND 7 = 0 then Inl spec_info else Inr ino) }"

definition romfs_inode_follow_links :: "nat \<Rightarrow> nat \<Rightarrow> u32 \<Rightarrow> fs_state \<Rightarrow> u32 option" where
  "romfs_inode_follow_links fuel s ino fs = c_loop fuel (follow_links_step s fs) ino"

text \<open>The mode bits of each file type, with the device number for the two device types.\<close>

definition romfs_type :: "u32 \<Rightarrow> u32 \<Rightarrow> inode \<Rightarrow> inode" where
  "romfs_type type spec_info ino =
     (if type = 1 then ino\<lparr>i_mode := i_mode ino OR S_IFDIR\<rparr>
      else if type = 2 then ino\<lparr>i_mode := i_mode ino OR S_IFREG\<rparr>
      else if type = 3 then ino\<lparr>i_mode := i_mode ino OR S_IFLNK\<rparr>
      else if type = 4 then ino\<lparr>i_mode := i_mode ino OR S_IFBLK, i_device := unat spec_info\<rparr>
      else if type = 5 then ino\<lparr>i_mode := i_mode ino OR S_IFCHR, i_device := unat spec_info\<rparr>
      else if type = 6 then ino\<lparr>i_mode := i_mode ino OR S_IFSOCK\<rparr>
      else if type = 7 then ino\<lparr>i_mode := i_mode ino OR S_IFIFO\<rparr>
      else ino)"

definition read_inode_step :: "nat \<Rightarrow> fs_state \<Rightarrow> inode \<Rightarrow> (inode + inode) option" where
  "read_inode_step s fs ino = do {
     next \<leftarrow> romfs_word s (i_number ino) fs;
     let ino1 = ino\<lparr>i_mode := (if next AND 8 \<noteq> 0 then 0x1b6 OR 0x49 else 0x1b6)\<rparr>;
     let type = next AND 7;
     spec_info \<leftarrow> romfs_word s (i_number ino + 4) fs;
     let ino2 = romfs_type type spec_info ino1;
     if type = 0 then Some (Inl (ino2\<lparr>i_number := spec_info\<rparr>))
     else do {
       sz \<leftarrow> romfs_word s (i_number ino + 8) fs;
       Some (Inr (ino2\<lparr>i_size := unat (scast sz :: u64), i_atime := 256246800, i_mtime := 256246800,
                       i_ctime := 256246800, i_uid := 0, i_gid := 0, i_rdev := 0, i_hard_links := 1\<rparr>)) } }"

definition romfs_read_inode :: "nat \<Rightarrow> inode \<Rightarrow> fs_state \<Rightarrow> (int \<times> inode) option" where
  "romfs_read_inode fuel ino fs = do {
     s \<leftarrow> i_sb ino;
     ino' \<leftarrow> c_loop fuel (read_inode_step s fs) ino;
     Some (0, ino') }"

section \<open>Lookup\<close>

text \<open>The result of the search through a directory: \<open>None\<close> when the list has ended.\<close>

definition romfs_dir_step :: "nat \<Rightarrow> nat \<Rightarrow> bytes \<Rightarrow> fs_state \<Rightarrow> u32 \<Rightarrow> (u32 + u32 option) option" where
  "romfs_dir_step fuel s name fs off = do {
     w \<leftarrow> romfs_word s off fs;
     let next = w AND NOT 0xf;
     (_, filename) \<leftarrow> romfs_read_string fuel s (off + 16) (replicate ROMFS_MAX_FILENAME_SIZE 0) ROMFS_MAX_FILENAME_SIZE fs;
     if strncmp name filename ROMFS_MAX_FILENAME_SIZE = 0 then do {
       n \<leftarrow> romfs_inode_follow_links fuel s off fs;
       Some (Inr (Some n)) }
     else Some (if next = 0 then Inr None else Inl next) }"

definition romfs_lookup_inode_dir :: "nat \<Rightarrow> inode \<Rightarrow> bytes \<Rightarrow> fs_state \<Rightarrow> (int \<times> inode) option" where
  "romfs_lookup_inode_dir fuel dir name fs = do {
     s \<leftarrow> i_sb dir;
     next \<leftarrow> romfs_word s (i_number dir) fs;
     spec \<leftarrow> romfs_word s (i_number dir + 4) fs;
     if next AND 7 \<noteq> 1 then Some (- ENOTDIR, dir)
     else do {
       r \<leftarrow> c_loop fuel (romfs_dir_step fuel s name fs) spec;
       Some (case r of None \<Rightarrow> (- 1, dir) | Some n \<Rightarrow> (0, dir\<lparr>i_number := n\<rparr>)) } }"

definition romfs_path_step :: "nat \<Rightarrow> fs_state \<Rightarrow> inode \<times> bytes \<Rightarrow> ((inode \<times> bytes) + (int \<times> inode)) option" where
  "romfs_path_step fuel fs = (\<lambda>(ino, ptr).
     let (dir, rest) = split_filename ptr 256 in do {
       (r, ino1) \<leftarrow> romfs_lookup_inode_dir fuel ino dir fs;
       Some (if r < 0 then Inr (r, ino1)
             else case rest of None \<Rightarrow> Inr (0, ino1) | Some p \<Rightarrow> Inl (ino1, p)) })"

definition romfs_lookup_inode :: "nat \<Rightarrow> inode \<Rightarrow> bytes \<Rightarrow> fs_state \<Rightarrow> (int \<times> inode) option" where
  "romfs_lookup_inode fuel ino name fs =
     (if str_at name 0 = 0 then romfs_read_inode fuel ino fs
      else do {
        (r, ino1) \<leftarrow> c_loop (Suc (length name)) (romfs_path_step fuel fs) (ino, name);
        if r < 0 then Some (r, ino1) else romfs_read_inode fuel ino1 fs })"

section \<open>File system statistics\<close>

definition romfs_magic :: bytes where
  "romfs_magic = [0x2d, 0x72, 0x6f, 0x6d, 0x31, 0x66, 0x73, 0x2d]"

definition romfs_get_size :: "nat \<Rightarrow> fs_state \<Rightarrow> u32 option" where
  "romfs_get_size s fs = do {
     magic \<leftarrow> romfs_read_noinc s 0 8 fs;
     r \<leftarrow> memcmp magic romfs_magic 8;
     if r \<noteq> 0 then Some (- 1) else romfs_word s 8 fs }"

definition romfs_statfs :: "nat \<Rightarrow> fs_state \<Rightarrow> (int \<times> statfs) option" where
  "romfs_statfs s fs = do {
     sz \<leftarrow> romfs_get_size s fs;
     Some (0, \<lparr>f_type = 0x7275, f_bsize = 1024, f_blocks = unat sz div 1024, f_bfree = 0, f_bavail = 0,
       f_files = 10, f_ffree = 0, f_fsid = 0, f_namelen = ROMFS_MAX_FILENAME_SIZE, f_frsize = 0, f_flags = 0\<rparr>) }"

section \<open>Reading a file\<close>

text \<open>
  The limit on the count is computed in \<open>uint64_t\<close>, into which the \<open>int32_t\<close> values are sign
  extended.  The bytes given to the user are the second result, the new offset is the third.
\<close>

definition romfs_max_count :: "u32 \<Rightarrow> u32 \<Rightarrow> u64 \<Rightarrow> u32" where
  "romfs_max_count count sz off =
     (let limit = (scast sz :: u64) - off in
      if (scast count :: u64) > limit then ucast limit else count)"

definition romfs_read_file :: "nat \<Rightarrow> inode \<Rightarrow> u32 \<Rightarrow> u64 \<Rightarrow> fs_state \<Rightarrow> (int \<times> bytes \<times> u64) option" where
  "romfs_read_file fuel ino count file_offset fs = do {
     s \<leftarrow> i_sb ino;
     sz \<leftarrow> romfs_word s (i_number ino + 8) fs;
     name_length \<leftarrow> romfs_string_length_chunks fuel s (i_number ino + 16) fs;
     let data = i_number ino + 16 + of_nat name_length;
     let max_count = romfs_max_count count sz file_offset;
     sb \<leftarrow> sb_get s fs;
     dev \<leftarrow> sb_block sb;
     (read_count, out) \<leftarrow> block_read dev (unat (data + ucast file_offset)) (unat max_count) [] fs;
     Some (read_count, out, if read_count > 0 then file_offset + of_int read_count else file_offset) }"

section \<open>Listing a directory\<close>

text \<open>
  The state of the loop is the inode number, the bytes used and the entries.  The name of an entry
  goes into the \<open>d_name\<close> of its record, \<open>name_length + 1\<close> bytes.
\<close>

definition romfs_dents_step :: "nat \<Rightarrow> nat \<Rightarrow> nat \<Rightarrow> fs_state \<Rightarrow> u32 \<times> nat \<times> dirent list \<Rightarrow>
    ((u32 \<times> nat \<times> dirent list) + (u32 \<times> nat \<times> dirent list)) option" where
  "romfs_dents_step fuel s sz fs = (\<lambda>(ino, total_length, out). do {
     w \<leftarrow> romfs_word s ino fs;
     let next_header = w AND NOT 0xf;
     name_length \<leftarrow> romfs_string_length fuel s (ino + 16) fs;
     let current_length = dirent_length name_length;
     if current_length + total_length > sz then Some (Inr (ino, total_length, out))
     else if ino = 0 then Some (Inr (0xffffffff, total_length, out))
     else do {
       (_, d_name) \<leftarrow> romfs_read_string fuel s (ino + 16) (replicate (name_length + 1) 0) name_length fs;
       d_name' \<leftarrow> wr d_name name_length 0;
       Some (Inl (next_header, total_length + current_length, out @ [(ino, current_length, cstr d_name')])) } })"

definition romfs_getdents :: "nat \<Rightarrow> inode \<Rightarrow> u64 \<Rightarrow> nat \<Rightarrow> fs_state \<Rightarrow> (int \<times> dirent list \<times> u64) option" where
  "romfs_getdents fuel dir progress sz fs = do {
     s \<leftarrow> i_sb dir;
     let ino = (ucast progress :: u32);
     if ino = 0xffffffff then Some (0, [], progress)
     else do {
       mode \<leftarrow> (if ino = 0 then romfs_word s (i_number dir) fs else Some 1);
       if ino = 0 \<and> mode AND 7 \<noteq> 1 then Some (- ENOTDIR, [], progress)
       else do {
         first \<leftarrow> (if ino = 0 then romfs_word s (i_number dir + 4) fs else Some ino);
         (resume, total_length, out) \<leftarrow> c_loop fuel (romfs_dents_step fuel s sz fs) (first, 0, []);
         Some (int total_length, out, ucast resume) } } }"

section \<open>Mounting\<close>

definition romfs_mount :: "nat \<Rightarrow> nat \<Rightarrow> nat \<Rightarrow> fs_state \<Rightarrow> (int \<times> fs_state) option" where
  "romfs_mount fuel s block fs = do {
     sb \<leftarrow> sb_get s fs;
     let fs1 = sb_set s (sb\<lparr>sb_block := Some block\<rparr>) fs;
     magic \<leftarrow> romfs_read_noinc s 0 8 fs1;
     r \<leftarrow> memcmp magic romfs_magic 8;
     if r \<noteq> 0 then Some (- 1, fs1)
     else do {
       sz \<leftarrow> romfs_word s 8 fs1;
       _ \<leftarrow> romfs_word s 12 fs1;
       (n, _) \<leftarrow> romfs_read_string fuel s 16 (replicate 17 0) 16 fs1;
       let file_headers_start = 16 + n;
       Some (0, sb_set s (sb\<lparr>sb_block := Some block, sb_blocks := unat sz, sb_blocks_free := 0, sb_block_size := 1,
                  sb_ops := Romfs_Sb_Ops, sb_root_dir := file_headers_start\<rparr>) fs1) } }"

section \<open>The operations of a read-only file system\<close>

definition romfs_write_file :: "inode \<Rightarrow> bytes \<Rightarrow> nat \<Rightarrow> nat \<Rightarrow> int" where
  "romfs_write_file ino buf count off = - EROFS"

definition romfs_truncate_inode :: "inode \<Rightarrow> nat \<Rightarrow> int" where
  "romfs_truncate_inode ino sz = - EROFS"

definition romfs_unlink_inode :: "inode \<Rightarrow> int" where
  "romfs_unlink_inode ino = - EROFS"

definition romfs_destroy_inode :: "inode \<Rightarrow> int" where
  "romfs_destroy_inode ino = - EROFS"

definition romfs_link_inode :: "inode \<Rightarrow> bytes \<Rightarrow> int" where
  "romfs_link_inode ino name = - EROFS"

definition romfs_make_inode :: "inode \<Rightarrow> int" where
  "romfs_make_inode dir = - EROFS"

definition romfs_write_inode :: "inode \<Rightarrow> fs_state \<Rightarrow> fs_state" where
  "romfs_write_inode ino fs = fs"

section \<open>The image behind a superblock\<close>

definition rom_ok :: "nat \<Rightarrow> fs_state \<Rightarrow> bytes \<Rightarrow> bool" where
  "rom_ok s fs d \<longleftrightarrow> (\<exists>sb i dev. sb_get s fs = Some sb \<and> sb_block sb = Some i \<and> rd (block_devs fs) i = Some dev
     \<and> bd_ops dev = Ramdisk_Ops \<and> bd_start dev = 0 \<and> bd_length dev = length d \<and> bd_data dev = d
     \<and> length d < 2 ^ 31)"

lemma rom_block_read:
  assumes "rom_ok s fs d" "p + n \<le> length d"
  shows "\<exists>sb i. sb_get s fs = Some sb \<and> sb_block sb = Some i \<and>
    block_read i p n [] fs = Some (int n, take n (drop p d))"
proof -
  obtain sb i dev where a: "sb_get s fs = Some sb" "sb_block sb = Some i" "rd (block_devs fs) i = Some dev"
    "bd_ops dev = Ramdisk_Ops" "bd_start dev = 0" "bd_length dev = length d" "bd_data dev = d" "length d < 2 ^ 31"
    using assms(1) by (auto simp: rom_ok_def)
  have "block_read i p n [] fs = Some (int n, take n (drop p d))"
    using a(3-8) assms(2) by (simp add: block_read_def ramdisk_read_def slice_eq)
  then show ?thesis using a(1,2) by blast
qed

lemma rom_read_eq:
  assumes "rom_ok s fs d" "p + n \<le> length d"
  shows "romfs_read_noinc s (of_nat p) n fs = Some (take n (drop p d))"
proof -
  have "length d < 2 ^ 31" using assms(1) by (auto simp: rom_ok_def)
  then have "unat (of_nat p :: u32) = p" using assms(2) by (simp add: unat_of_nat)
  then show ?thesis using rom_block_read[OF assms] assms(2) by (auto simp: romfs_read_noinc_def)
qed

definition rom_word :: "bytes \<Rightarrow> nat \<Rightarrow> u32" where
  "rom_word d p = ntohl (le32 (take 4 (drop p d)))"

lemma rom_word_eq:
  "rom_ok s fs d \<Longrightarrow> p + 4 \<le> length d \<Longrightarrow> romfs_word s (of_nat p) fs = Some (rom_word d p)"
  by (simp add: romfs_word_def rom_read_eq rom_word_def)

lemma rom_word_eq_add:
  "rom_ok s fs d \<Longrightarrow> p + k + 4 \<le> length d \<Longrightarrow>
     romfs_word s (of_nat p + of_nat k) fs = Some (rom_word d (p + k))"
  using rom_word_eq[of s fs d "p + k"] by simp

section \<open>Stored strings\<close>

definition chunks :: "nat \<Rightarrow> nat" where
  "chunks n = (n div 16 + 1) * 16"

definition rom_str_at :: "bytes \<Rightarrow> nat \<Rightarrow> bytes \<Rightarrow> bool" where
  "rom_str_at d p nm \<longleftrightarrow> 0 \<notin> set nm \<and> p + chunks (length nm) \<le> length d
     \<and> take (chunks (length nm)) (drop p d) = nm @ replicate (chunks (length nm) - length nm) 0"

lemma chunks_small: "n < 16 \<Longrightarrow> chunks n = 16"
  by (simp add: chunks_def)

lemma chunks_add: "16 \<le> n \<Longrightarrow> chunks n = 16 + chunks (n - 16)"
  by (simp add: chunks_def le_div_geq)

lemma rom_str_last:
  assumes "rom_str_at d p nm" "length nm < 16"
  shows "take 16 (drop p d) = nm @ replicate (16 - length nm) 0"
  using assms by (simp add: rom_str_at_def chunks_small)

lemma rom_str_more:
  assumes "rom_str_at d p nm" "16 \<le> length nm"
  shows "take 16 (drop p d) = take 16 nm" "rom_str_at d (p + 16) (drop 16 nm)"
proof -
  let ?c = "chunks (length nm - 16)"
  have c: "chunks (length nm) = 16 + ?c" using chunks_add[OF assms(2)] .
  have eq: "take (16 + ?c) (drop p d) = nm @ replicate (16 + ?c - length nm) 0" and le: "p + (16 + ?c) \<le> length d"
    using assms(1) by (simp_all add: rom_str_at_def c)
  have "take 16 (drop p d) = take 16 (take (16 + ?c) (drop p d))" by simp
  then show "take 16 (drop p d) = take 16 nm" unfolding eq using assms(2) by simp
  have "take ?c (drop (p + 16) d) = drop 16 (take (16 + ?c) (drop p d))"
    by (simp add: drop_take add.commute)
  also have "\<dots> = drop 16 nm @ replicate (16 + ?c - length nm) 0" unfolding eq using assms(2) by simp
  finally show "rom_str_at d (p + 16) (drop 16 nm)"
    using assms le by (auto simp: rom_str_at_def dest: in_set_dropD)
qed

lemma rom_str_chunk:
  assumes "rom_ok s fs d" "rom_str_at d p nm"
  shows "romfs_read_noinc s (of_nat p) 16 fs = Some (take 16 (drop p d))"
proof (rule rom_read_eq[OF assms(1)])
  have "16 \<le> chunks (length nm)" by (simp add: chunks_def)
  then show "p + 16 \<le> length d" using assms(2) by (simp add: rom_str_at_def)
qed

lemma string_length_loop:
  assumes "rom_ok s fs d" "rom_str_at d p nm" "length nm div 16 < fuel"
  shows "c_loop fuel (string_length_step s fs) (of_nat p, n) = Some (n + length nm)"
    and "c_loop fuel (string_chunks_step s fs) (of_nat p, n) = Some (n + chunks (length nm))"
proof -
  have "c_loop fuel (string_length_step s fs) (of_nat p, n) = Some (n + length nm) \<and>
    c_loop fuel (string_chunks_step s fs) (of_nat p, n) = Some (n + chunks (length nm))"
    using assms(2,3)
  proof (induction fuel arbitrary: p nm n)
    case (Suc fuel)
    note chunk = rom_str_chunk[OF assms(1) Suc.prems(1)]
    show ?case
    proof (cases "length nm < 16")
      case True
      have "0 \<notin> set nm" using Suc.prems(1) by (simp add: rom_str_at_def)
      then have "strlen (nm @ replicate (16 - length nm) 0) = length nm"
        by (simp add: strlen_cstr cstr_append_replicate)
      moreover have "(nm @ replicate (16 - length nm) 0) ! 15 = 0" using True by (simp add: nth_append)
      ultimately show ?thesis using chunk True
        by (simp add: string_length_step_def string_chunks_step_def rom_str_last[OF Suc.prems(1)] chunks_small)
    next
      case False
      then have l: "16 \<le> length nm" by simp
      have "nm ! 15 \<in> set nm" using l by (intro nth_mem) simp
      then have "take 16 nm ! 15 \<noteq> 0" using Suc.prems(1) by (auto simp: rom_str_at_def)
      moreover have "length (drop 16 nm) div 16 < fuel" using Suc.prems(2) l by (simp add: le_div_geq)
      moreover have "of_nat p + 16 = (of_nat (p + 16) :: u32)" by simp
      ultimately show ?thesis using Suc.IH[OF rom_str_more(2)[OF Suc.prems(1) l], of "n + 16"] chunk l
        by (simp add: string_length_step_def string_chunks_step_def rom_str_more(1)[OF Suc.prems(1) l] chunks_add
            del: of_nat_add)
    qed
  qed simp
  then show "c_loop fuel (string_length_step s fs) (of_nat p, n) = Some (n + length nm)"
    "c_loop fuel (string_chunks_step s fs) (of_nat p, n) = Some (n + chunks (length nm))" by simp_all
qed

text \<open>The bytes \<open>strncat\<close> appends, and where it leaves the string.\<close>

lemma cstr_prefix: "take (length (cstr b)) b = cstr b"
  by (simp add: cstr_def takeWhile_eq_take[symmetric])

lemma strncat_eq:
  assumes "length (cstr b) + length c + 1 \<le> length b" "take n (cstr src) = c"
  shows "\<exists>b'. strncat b src n = Some b' \<and> cstr b' = cstr b @ c \<and> length b' = length b"
proof -
  have c: "0 \<notin> set c" using assms(2) cstr_no_nul[of src] by (auto dest: in_set_takeD)
  let ?b = "cstr b @ (c @ [0]) @ drop (length (cstr b) + length (c @ [0])) b"
  have "splice b (length (cstr b)) (c @ [0]) = Some ?b"
    using assms(1) by (simp add: splice_eq cstr_prefix)
  then have "strncat b src n = Some ?b" by (simp add: strncat_def strlen_cstr strlcpy_out_eq assms(2))
  moreover have "cstr ?b = cstr b @ c"
    using cstr_append_nul[of "cstr b @ c"] cstr_no_nul[of b] c by simp
  moreover have "length ?b = length b" using assms(1) by simp
  ultimately show ?thesis by blast
qed

lemma read_string_loop:
  assumes "rom_ok s fs d" "rom_str_at d p nm" "length nm div 16 < fuel"
    and "int (length (cstr b)) + m = int sz" "length (cstr b) + length nm \<le> sz"
    "length (cstr b) + length nm < length b"
  shows "\<exists>b'. c_loop fuel (read_string_step s fs) (of_nat p, m, b) = Some (of_nat (p + chunks (length nm)), b')
    \<and> cstr b' = cstr b @ nm \<and> length b' = length b"
  using assms(2-)
proof (induction fuel arbitrary: p nm m b)
  case (Suc fuel)
  note chunk = rom_str_chunk[OF assms(1) Suc.prems(1)]
  have nz: "0 \<notin> set nm" using Suc.prems(1) by (simp add: rom_str_at_def)
  let ?n = "if m > 16 then 16 else nat m"
  show ?case
  proof (cases "length nm < 16")
    case True
    have t: "take 16 (drop p d) = nm @ replicate (16 - length nm) 0" using rom_str_last[OF Suc.prems(1) True] .
    have cs: "cstr (take 16 (drop p d)) = nm" unfolding t using nz by (rule cstr_append_replicate)
    have e: "take 16 (drop p d) ! 15 = 0" unfolding t using True by (simp add: nth_append)
    show ?thesis
    proof (cases "m > 0")
      case m: True
      have "take ?n (cstr (take 16 (drop p d))) = nm" unfolding cs using True Suc.prems(3,4) by auto
      from strncat_eq[OF _ this, of b] Suc.prems(5) obtain b' where
        "strncat b (take 16 (drop p d)) ?n = Some b'" "cstr b' = cstr b @ nm" "length b' = length b" by auto
      then show ?thesis using chunk e m True by (simp add: read_string_step_def chunks_small)
    next
      case False
      then have "length nm = 0" using Suc.prems(3,4) by linarith
      then have "nm = []" by simp
      then show ?thesis using chunk e False by (simp add: read_string_step_def chunks_small)
    qed
  next
    case False
    then have l: "16 \<le> length nm" by simp
    note more = rom_str_more[OF Suc.prems(1) l]
    have "nm ! 15 \<in> set nm" using l by (intro nth_mem) simp
    then have e: "take 16 nm ! 15 \<noteq> 0" using nz by auto
    have m: "m \<ge> 16" using Suc.prems(3,4) l by linarith
    have cs: "cstr (take 16 nm) = take 16 nm" using nz by (intro cstr_id) (auto dest: in_set_takeD)
    have "take ?n (cstr (take 16 nm)) = take 16 nm" unfolding cs using m by auto
    from strncat_eq[OF _ this, of b] Suc.prems(5) l obtain b' where b':
      "strncat b (take 16 nm) ?n = Some b'" "cstr b' = cstr b @ take 16 nm" "length b' = length b" by auto
    have "length (drop 16 nm) div 16 < fuel" using Suc.prems(2) l by (simp add: le_div_geq)
    moreover have "of_nat p + 16 = (of_nat (p + 16) :: u32)" by simp
    moreover have "int (length (cstr b')) + (m - 16) = int sz" using Suc.prems(3) b' l by simp
    moreover have "length (cstr b') + length (drop 16 nm) \<le> sz" using Suc.prems(4) b' l by simp
    moreover have "length (cstr b') + length (drop 16 nm) < length b'" using Suc.prems(5) b' l by simp
    ultimately show ?thesis using Suc.IH[OF more(2), of b' "m - 16"] chunk l e m b'
      by (auto simp: read_string_step_def more(1) chunks_add add.assoc simp del: of_nat_add)
  qed
qed simp

lemma rom_read_string_eq:
  assumes "rom_ok s fs d" "rom_str_at d p nm" "length nm div 16 < fuel"
    and "length nm \<le> sz" "length nm < length b"
  shows "\<exists>n b'. romfs_read_string fuel s (of_nat p) b sz fs = Some (n, b') \<and> n = of_nat (chunks (length nm))
    \<and> cstr b' = nm \<and> length b' = length b"
proof -
  have "0 < length b" using assms(5) by linarith
  then have b: "wr b 0 0 = Some (b[0 := 0])" by simp
  have c: "cstr (b[0 := 0]) = []" using assms(5) by (cases b) (simp_all add: cstr_Cons)
  from read_string_loop[OF assms(1-3), of "b[0 := 0]" "int sz" sz] assms(4,5)
  obtain b' where "c_loop fuel (read_string_step s fs) (of_nat p, int sz, b[0 := 0]) = Some (of_nat (p + chunks (length nm)), b')"
    "cstr b' = nm" "length b' = length b" by (auto simp: c)
  then show ?thesis using b by (simp add: romfs_read_string_def)
qed

section \<open>Directories\<close>

text \<open>
  The list of the headers of a directory from offset \<open>p\<close> on, with their names; \<open>rom_next\<close> is the
  offset of the next header.
\<close>

definition rom_next :: "bytes \<Rightarrow> nat \<Rightarrow> nat" where
  "rom_next d p = unat (rom_word d p AND NOT 0xf)"

fun rom_dir :: "bytes \<Rightarrow> nat \<Rightarrow> (nat \<times> bytes) list \<Rightarrow> bool" where
  "rom_dir d p [] \<longleftrightarrow> p = 0"
| "rom_dir d p ((q, nm) # L) \<longleftrightarrow> q = p \<and> 0 < p \<and> rom_str_at d (p + 16) nm \<and> length nm < 256 \<and> rom_dir d (rom_next d p) L"

text \<open>\<open>rom_link d k q n\<close>: from header \<open>q\<close>, \<open>k\<close> hard links lead to header \<open>n\<close>.\<close>

inductive rom_link :: "bytes \<Rightarrow> nat \<Rightarrow> nat \<Rightarrow> nat \<Rightarrow> bool" for d where
  here: "q + 8 \<le> length d \<Longrightarrow> rom_word d q AND 7 \<noteq> 0 \<Longrightarrow> rom_link d 0 q q"
| hop: "q + 8 \<le> length d \<Longrightarrow> rom_word d q AND 7 = 0 \<Longrightarrow> rom_link d k (unat (rom_word d (q + 4))) n \<Longrightarrow>
    rom_link d (Suc k) q n"

inductive_cases rom_link_0E: "rom_link d 0 q n"
inductive_cases rom_link_SucE: "rom_link d (Suc k) q n"

lemma follow_links_eq:
  assumes "rom_ok s fs d" "rom_link d k q n" "k < fuel"
  shows "romfs_inode_follow_links fuel s (of_nat q) fs = Some (of_nat n)"
  unfolding romfs_inode_follow_links_def using assms(2,3)
proof (induction arbitrary: fuel rule: rom_link.induct)
  case (here q)
  then obtain f where "fuel = Suc f" by (cases fuel) auto
  then show ?case using here rom_word_eq[OF assms(1), of q] rom_word_eq_add[OF assms(1), of q 4]
    by (simp add: follow_links_step_def)
next
  case (hop q k n)
  then obtain f where f: "fuel = Suc f" "k < f" by (cases fuel) auto
  then show ?case using hop.IH[OF f(2)] hop.hyps(1,2) rom_word_eq[OF assms(1), of q] rom_word_eq_add[OF assms(1), of q 4]
    by (simp add: follow_links_step_def)
qed

text \<open>One header of a directory.\<close>

lemma rom_dir_step_eq:
  assumes "rom_ok s fs d" "rom_str_at d (p + 16) nm" "length nm < 256" "16 \<le> fuel"
    and "length name < 256" "0 \<notin> set name"
  shows "romfs_dir_step fuel s name fs (of_nat p) =
    (if nm = name then (case romfs_inode_follow_links fuel s (of_nat p) fs of None \<Rightarrow> None | Some n \<Rightarrow> Some (Inr (Some n)))
     else Some (if rom_next d p = 0 then Inr None else Inl (of_nat (rom_next d p))))"
proof -
  have nz: "0 \<notin> set nm" "p + 16 + chunks (length nm) \<le> length d" using assms(2) by (simp_all add: rom_str_at_def)
  have w: "romfs_word s (of_nat p) fs = Some (rom_word d p)" using nz(2) by (intro rom_word_eq[OF assms(1)]) simp
  have f: "length nm div 16 < fuel" using assms(3,4) by linarith
  from rom_read_string_eq[OF assms(1,2) f, of 256 "replicate 256 0"] assms(3) obtain n b' where
    b': "romfs_read_string fuel s (of_nat p + 16) (replicate 256 0) 256 fs = Some (n, b')" "cstr b' = nm" by auto
  have "strncmp name b' 256 = 0 \<longleftrightarrow> nm = name"
    unfolding strncmp_eq_0_iff b'(2) using assms(3,5,6) by (auto simp: cstr_id)
  then show ?thesis using w b'(1)
    by (auto simp: romfs_dir_step_def rom_next_def Let_def unsigned_eq_0_iff split: option.splits)
qed

lemma rom_dir_loop:
  assumes "rom_ok s fs d" "rom_dir d p L" "L \<noteq> []" "length L \<le> n" "16 \<le> fuel"
    and "length name < 256" "0 \<notin> set name"
    and "\<And>q. (q, name) \<in> set L \<Longrightarrow> \<exists>k. k < fuel \<and> rom_link d k q (target q)"
  shows "c_loop n (romfs_dir_step fuel s name fs) (of_nat p) =
    Some (case List.find (\<lambda>(q, nm). nm = name) L of None \<Rightarrow> None | Some (q, _) \<Rightarrow> Some (of_nat (target q)))"
  using assms(2,3,4,8)
proof (induction L arbitrary: n p)
  case (Cons e L)
  obtain q nm where e: "e = (q, nm)" by (cases e)
  from Cons.prems(3) obtain n' where n: "n = Suc n'" "length L \<le> n'" by (cases n) auto
  have p: "q = p" "rom_str_at d (p + 16) nm" "length nm < 256" "rom_dir d (rom_next d p) L"
    using Cons.prems(1) by (simp_all add: e)
  note step = rom_dir_step_eq[OF assms(1) p(2,3) assms(5-7)]
  show ?case
  proof (cases "nm = name")
    case True
    with Cons.prems(4)[of p] obtain k where "k < fuel" "rom_link d k p (target p)" by (auto simp: e p(1))
    then show ?thesis using follow_links_eq[OF assms(1)] step True by (simp add: n e p(1))
  next
    case False
    show ?thesis
    proof (cases L)
      case Nil
      then show ?thesis using False step p(4) by (simp add: n e)
    next
      case (Cons e' L')
      then have nz: "rom_next d p \<noteq> 0" using p(4) by (cases e') auto
      have "c_loop n' (romfs_dir_step fuel s name fs) (of_nat (rom_next d p)) =
        Some (case List.find (\<lambda>(q, nm). nm = name) L of None \<Rightarrow> None | Some (q, _) \<Rightarrow> Some (of_nat (target q)))"
        by (rule Cons.IH[OF p(4) _ n(2)]) (use Cons Cons.prems(4) in auto)
      then show ?thesis using False step nz by (simp add: n e)
    qed
  qed
qed simp

lemma romfs_lookup_dir_eq:
  assumes "rom_ok s fs d" and "i_sb dir = Some s" and "i_number dir = of_nat p" and "p + 8 \<le> length d"
    and "rom_word d p AND 7 = 1" and "rom_dir d (unat (rom_word d (p + 4))) L" and "L \<noteq> []"
    and "length L \<le> fuel" and "16 \<le> fuel" and "length name < 256" and "0 \<notin> set name"
    and "\<And>q. (q, name) \<in> set L \<Longrightarrow> \<exists>k. k < fuel \<and> rom_link d k q (target q)"
  shows "romfs_lookup_inode_dir fuel dir name fs =
    Some (case List.find (\<lambda>(q, nm). nm = name) L of None \<Rightarrow> (- 1, dir)
          | Some (q, _) \<Rightarrow> (0, dir\<lparr>i_number := of_nat (target q)\<rparr>))"
proof -
  have w: "romfs_word s (of_nat p) fs = Some (rom_word d p)" "romfs_word s (of_nat p + 4) fs = Some (rom_word d (p + 4))"
    using rom_word_eq[OF assms(1), of p] rom_word_eq_add[OF assms(1), of p 4] assms(4) by simp_all
  have l: "c_loop fuel (romfs_dir_step fuel s name fs) (rom_word d (p + 4)) =
    Some (case List.find (\<lambda>(q, nm). nm = name) L of None \<Rightarrow> None | Some (q, _) \<Rightarrow> Some (of_nat (target q)))"
    using rom_dir_loop[OF assms(1,6,7,8,9,10,11,12)] by simp
  show ?thesis
    by (cases "List.find (\<lambda>(q, nm). nm = name) L")
      (auto simp: romfs_lookup_inode_dir_def assms(2,3,5) w l)
qed

text \<open>C24: Looking a name up in a directory of the read-only file system finds the first header whose
  whole name is that name, follows its hard links to the file they lead to and leaves that file's
  number in the inode; when no header has the name the result is -1 and the inode is unchanged.\<close>

theorem romfs_lookup_correct:
  assumes "rom_ok s fs d" and "i_sb dir = Some s" and "i_number dir = of_nat p" and "p + 8 \<le> length d"
    and "rom_word d p AND 7 = 1" and "rom_dir d (unat (rom_word d (p + 4))) L" and "L \<noteq> []"
    and "length L \<le> fuel" and "16 \<le> fuel" and "length name < 256" and "0 \<notin> set name"
    and "\<And>q. (q, name) \<in> set L \<Longrightarrow> \<exists>k. k < fuel \<and> rom_link d k q (target q)"
  shows "romfs_lookup_inode_dir fuel dir name fs =
    Some (case List.find (\<lambda>(q, nm). nm = name) L of None \<Rightarrow> (- 1, dir)
          | Some (q, _) \<Rightarrow> (0, dir\<lparr>i_number := of_nat (target q)\<rparr>))"
  using assms by (rule romfs_lookup_dir_eq)

section \<open>A small image\<close>

text \<open>A volume \<open>V\<close> whose root directory holds itself as \<open>.\<close>, a file \<open>a\<close> and a hard link \<open>b\<close> to it.\<close>

definition demo_rom :: bytes where
  "demo_rom =
    [45, 114, 111, 109, 49, 102, 115, 45, 0, 0, 0, 160, 0, 0, 0, 0,
     86, 0, 0, 0, 0, 0, 0, 0, 0, 0, 0, 0, 0, 0, 0, 0,
     0, 0, 0, 73, 0, 0, 0, 32, 0, 0, 0, 0, 0, 0, 0, 0,
     46, 0, 0, 0, 0, 0, 0, 0, 0, 0, 0, 0, 0, 0, 0, 0,
     0, 0, 0, 114, 0, 0, 0, 0, 0, 0, 0, 3, 0, 0, 0, 0,
     97, 0, 0, 0, 0, 0, 0, 0, 0, 0, 0, 0, 0, 0, 0, 0,
     1, 2, 3, 0, 0, 0, 0, 0, 0, 0, 0, 0, 0, 0, 0, 0,
     0, 0, 0, 0, 0, 0, 0, 64, 0, 0, 0, 0, 0, 0, 0, 0,
     98, 0, 0, 0, 0, 0, 0, 0, 0, 0, 0, 0, 0, 0, 0, 0,
     7, 7, 7, 7, 7, 7, 7, 7, 7, 7, 7, 7, 7, 7, 7, 7]"

definition rom_fs :: "bytes \<Rightarrow> fs_state" where
  "rom_fs d = fs_init\<lparr>block_devs := [block_dev_zero\<lparr>bd_length := length d, bd_ops := Ramdisk_Ops, bd_data := d\<rparr>],
     superblock_table := [superblock_zero\<lparr>sb_block := Some 0, sb_ops := Romfs_Sb_Ops, sb_root_dir := 32\<rparr>]\<rparr>"

lemma rom_fs_ok: "length d < 2 ^ 31 \<Longrightarrow> rom_ok 0 (rom_fs d) d"
  by (simp add: rom_ok_def rom_fs_def sb_get_def block_dev_zero_def superblock_zero_def)

lemma demo_rom_words: "length demo_rom = 160" "rom_word demo_rom 32 = 73" "rom_word demo_rom 36 = 32"
  "rom_word demo_rom 64 = 114" "rom_word demo_rom 68 = 0" "rom_word demo_rom 72 = 3"
  "rom_word demo_rom 112 = 0" "rom_word demo_rom 116 = 64" "rom_word demo_rom 0 = 0x2d726f6d"
  by (simp_all add: rom_word_def demo_rom_def le32_def ntohl_def)

lemma replicate_15: "replicate 15 x = [x, x, x, x, x, x, x, x, x, x, x, x, x, x, x]"
  by (simp add: numeral_eq_Suc)

lemma demo_rom_names: "rom_str_at demo_rom 48 [46]" "rom_str_at demo_rom 80 [97]" "rom_str_at demo_rom 128 [98]"
  "rom_str_at demo_rom 16 [86]"
  by (simp_all add: rom_str_at_def chunks_def demo_rom_def replicate_15)

lemma demo_rom_next: "rom_next demo_rom 32 = 64" "rom_next demo_rom 64 = 112" "rom_next demo_rom 112 = 0"
  by (simp_all add: rom_next_def demo_rom_words)

lemma demo_rom_dir: "rom_dir demo_rom 32 [(32, [46]), (64, [97]), (112, [98])]"
  by (simp add: demo_rom_next demo_rom_names)

lemma demo_rom_link: "rom_link demo_rom 1 112 64"
  unfolding One_nat_def by (rule rom_link.hop) (auto intro: rom_link.here simp: demo_rom_words)

lemma romfs_lookup_correct_witness:
  "romfs_lookup_inode_dir 16 (inode_zero\<lparr>i_number := 32, i_sb := Some 0\<rparr>) [98] (rom_fs demo_rom)
     = Some (0, inode_zero\<lparr>i_number := 64, i_sb := Some 0\<rparr>)"
proof -
  have "\<exists>k<16. rom_link demo_rom k 112 64" using demo_rom_link by (intro exI[of _ 1]) simp
  then show ?thesis
    using romfs_lookup_correct[OF rom_fs_ok, of demo_rom "inode_zero\<lparr>i_number := 32, i_sb := Some 0\<rparr>" 32
      "[(32, [46]), (64, [97]), (112, [98])]" 16 "[98]" "\<lambda>_. 64"]
    by (simp add: demo_rom_words demo_rom_next demo_rom_names)
qed

section \<open>The bytes of a file\<close>

lemma scast_of_nat: "n < 2147483648 \<Longrightarrow> (scast (of_nat n :: u32) :: u64) = of_nat n"
  using int_word_sint[of "int n", where 'a = 32] by (simp add: scast_eq)

lemma unat64_of_nat: "n < 18446744073709551616 \<Longrightarrow> unat (of_nat n :: u64) = n"
  by (simp add: unat_of_nat)

text \<open>\<open>rom_file d p nm sz\<close>: the header at \<open>p\<close> is that of a file of \<open>sz\<close> bytes.\<close>

definition rom_file :: "bytes \<Rightarrow> nat \<Rightarrow> bytes \<Rightarrow> nat \<Rightarrow> bool" where
  "rom_file d p nm sz \<longleftrightarrow> rom_str_at d (p + 16) nm \<and> rom_word d (p + 8) = of_nat sz
     \<and> p + 16 + chunks (length nm) + sz \<le> length d"

definition rom_data :: "nat \<Rightarrow> bytes \<Rightarrow> nat" where
  "rom_data p nm = p + 16 + chunks (length nm)"

lemma rom_file_read:
  assumes "rom_ok s fs d" "i_sb ino = Some s" "i_number ino = of_nat p" "rom_file d p nm sz"
    and "length nm div 16 < fuel" "romfs_max_count count (of_nat sz) (of_nat off) = of_nat n"
    and "rom_data p nm + off + n \<le> length d"
  shows "romfs_read_file fuel ino count (of_nat off) fs
    = Some (int n, take n (drop (rom_data p nm + off) d), of_nat (off + n))"
proof -
  let ?p = "rom_data p nm + off"
  have len: "length d < 2 ^ 31" using assms(1) by (auto simp: rom_ok_def)
  have f: "rom_str_at d (p + 16) nm" "rom_word d (p + 8) = of_nat sz" using assms(4) by (simp_all add: rom_file_def)
  have pl: "p + 16 \<le> length d" using f(1) by (simp add: rom_str_at_def)
  have w: "romfs_word s (of_nat p + 8) fs = Some (of_nat sz)"
    using rom_word_eq_add[OF assms(1), of p 8] pl f(2) by simp
  have c: "romfs_string_length_chunks fuel s (of_nat p + 16) fs = Some (chunks (length nm))"
    using string_length_loop(2)[OF assms(1) f(1) assms(5), of 0] by (simp add: romfs_string_length_chunks_def)
  have off: "off < 2 ^ 31" using assms(7) len by linarith
  have uo: "(ucast (of_nat off :: u64) :: u32) = of_nat off"
    using off by (simp add: unsigned_of_nat take_bit_nat_eq_self)
  have a: "of_nat p + 16 + of_nat (chunks (length nm)) + of_nat off = (of_nat ?p :: u32)"
    by (simp add: rom_data_def)
  have up: "unat (of_nat ?p :: u32) = ?p" "unat (of_nat n :: u32) = n"
    using assms(7) len by (simp_all add: unat_of_nat del: of_nat_add)
  obtain sb i where b: "sb_get s fs = Some sb" "sb_block sb = Some i"
    "block_read i ?p n [] fs = Some (int n, take n (drop ?p d))"
    using rom_block_read[OF assms(1,7)] by blast
  show ?thesis
    unfolding romfs_read_file_def using assms(2,3,6) w c b a up
    by (simp add: Let_def uo del: of_nat_add) simp
qed

lemma romfs_read_correct_eq:
  assumes "rom_ok s fs d" and "i_sb ino = Some s" and "i_number ino = of_nat p" and "rom_file d p nm sz"
    and "length nm div 16 < fuel" and "off \<le> sz" and "count < 2 ^ 31"
  shows "romfs_read_file fuel ino (of_nat count) (of_nat off) fs =
    (let n = min count (sz - off) in
     Some (int n, take n (drop (rom_data p nm + off) d), of_nat (off + n)))"
proof -
  have len: "length d < 2 ^ 31" using assms(1) by (auto simp: rom_ok_def)
  have le: "rom_data p nm + sz \<le> length d" using assms(4) by (simp add: rom_file_def rom_data_def)
  then have sz: "sz < 2 ^ 31" using len by linarith
  have lim: "(of_nat sz :: u64) - of_nat off = of_nat (sz - off)" using assms(6) by (simp add: of_nat_diff)
  have gt: "(of_nat (sz - off) :: u64) < of_nat count \<longleftrightarrow> sz - off < count"
    using sz assms(7) by (simp add: word_less_nat_alt unat64_of_nat del: of_nat_diff)
  have u: "(ucast (of_nat (sz - off) :: u64) :: u32) = of_nat (sz - off)"
    using sz by (simp add: unsigned_of_nat take_bit_nat_eq_self del: of_nat_diff)
  have "romfs_max_count (of_nat count) (of_nat sz) (of_nat off) = of_nat (min count (sz - off))"
    using sz assms(7) gt by (simp add: romfs_max_count_def Let_def scast_of_nat lim u min_def del: of_nat_diff)
  from rom_file_read[OF assms(1-5) this] le assms(6) show ?thesis by (simp add: Let_def)
qed

text \<open>Reading a file of the read-only file system from an offset inside it returns its bytes
  from there on, as many as are asked for and as the file has, and advances the offset by that.\<close>

theorem romfs_read_correct:
  assumes "rom_ok s fs d" and "i_sb ino = Some s" and "i_number ino = of_nat p" and "rom_file d p nm sz"
    and "length nm div 16 < fuel" and "off \<le> sz" and "count < 2 ^ 31"
  shows "romfs_read_file fuel ino (of_nat count) (of_nat off) fs =
    (let n = min count (sz - off) in
     Some (int n, take n (drop (rom_data p nm + off) d), of_nat (off + n)))"
  using assms by (rule romfs_read_correct_eq)

lemma romfs_read_correct_witness:
  "romfs_read_file 1 (inode_zero\<lparr>i_number := 64, i_sb := Some 0\<rparr>) 10 1 (rom_fs demo_rom) = Some (2, [2, 3], 3)"
proof -
  have f: "rom_file demo_rom 64 [97] 3" using demo_rom_names by (simp add: rom_file_def demo_rom_words chunks_def)
  show ?thesis
    using romfs_read_correct[OF rom_fs_ok _ _ f, of "inode_zero\<lparr>i_number := 64, i_sb := Some 0\<rparr>" 1 1 10]
    by (simp add: demo_rom_words rom_data_def chunks_def) (simp add: demo_rom_def)
qed

text \<open>Behind the end of a file the limit wraps round: reading from an offset larger than the
  size returns the bytes that happen to follow on the image, as many as were asked for.\<close>

theorem romfs_read_behind:
  assumes "rom_ok s fs d" and "i_sb ino = Some s" and "i_number ino = of_nat p" and "rom_file d p nm sz"
    and "length nm div 16 < fuel" and "sz < off" and "rom_data p nm + off + count \<le> length d"
  shows "romfs_read_file fuel ino (of_nat count) (of_nat off) fs =
    Some (int count, take count (drop (rom_data p nm + off) d), of_nat (off + count))"
proof (rule rom_file_read[OF assms(1-5) _ assms(7)])
  have len: "length d < 2 ^ 31" using assms(1) by (auto simp: rom_ok_def)
  then have b: "off < 2147483648" "count < 2147483648" "sz < 2147483648" using assms(6,7) by simp_all
  have "unat ((of_nat sz :: u64) - of_nat off) = 2 ^ 64 - (off - sz)"
  proof -
    have e: "(of_nat sz :: u64) - of_nat off = - of_nat (off - sz)" using assms(6) by (simp add: of_nat_diff)
    have k: "0 < off - sz" "off - sz \<le> 2 ^ 64" using assms(6) b by simp_all
    have "(of_nat (2 ^ 64) :: u64) = 0" by simp
    then have "- (of_nat (off - sz) :: u64) = of_nat (2 ^ 64 - (off - sz))"
      unfolding of_nat_diff[OF k(2)] by simp
    moreover have "unat (of_nat (2 ^ 64 - (off - sz)) :: u64) = 2 ^ 64 - (off - sz)"
      using k(1) by (intro unat64_of_nat) simp
    ultimately show ?thesis unfolding e by simp
  qed
  then have "\<not> (of_nat sz :: u64) - of_nat off < of_nat count"
    using b unat64_of_nat[of count] by (simp add: word_less_nat_alt)
  then show "romfs_max_count (of_nat count) (of_nat sz) (of_nat off) = of_nat count"
    using b by (simp add: romfs_max_count_def Let_def scast_of_nat)
qed

lemma romfs_read_behind_witness:
  "romfs_read_file 1 (inode_zero\<lparr>i_number := 64, i_sb := Some 0\<rparr>) 4 20 (rom_fs demo_rom) = Some (4, [0, 0, 0, 64], 24)"
proof -
  have f: "rom_file demo_rom 64 [97] 3" using demo_rom_names by (simp add: rom_file_def demo_rom_words chunks_def)
  show ?thesis
    using romfs_read_behind[OF rom_fs_ok _ _ f, of "inode_zero\<lparr>i_number := 64, i_sb := Some 0\<rparr>" 1 20 4]
    by (simp add: demo_rom_words rom_data_def chunks_def) (simp add: demo_rom_def)
qed

section \<open>Listings\<close>

text \<open>
  The entries of the directory list \<open>L\<close> that fit into \<open>sz\<close> bytes when \<open>tot\<close> are in use, with the
  bytes used and the number to resume from.  Behind the last header the code takes the volume
  header for one more file, whose record would have \<open>v\<close> bytes.
\<close>

fun dents_of :: "nat \<Rightarrow> nat \<Rightarrow> nat \<Rightarrow> (nat \<times> bytes) list \<Rightarrow> u32 \<times> nat \<times> dirent list" where
  "dents_of v sz tot [] = (if v + tot > sz then 0 else 0xffffffff, tot, [])"
| "dents_of v sz tot ((q, nm) # L) =
     (let l = dirent_length (length nm) in
      if l + tot > sz then (of_nat q, tot, [])
      else let (resume, t, out) = dents_of v sz (tot + l) L in (resume, t, (of_nat q, l, nm) # out))"

lemma rom_name_length:
  assumes "rom_ok s fs d" "rom_str_at d (p + 16) nm" "length nm < 256" "16 \<le> fuel"
  shows "romfs_string_length fuel s (of_nat p + 16) fs = Some (length nm)"
    and "romfs_word s (of_nat p) fs = Some (rom_word d p)"
    and "\<exists>n b. romfs_read_string fuel s (of_nat p + 16) (replicate (length nm + 1) 0) (length nm) fs = Some (n, b)
      \<and> length b = length nm + 1 \<and> cstr b = nm"
proof -
  have f: "length nm div 16 < fuel" using assms(3,4) by linarith
  show "romfs_string_length fuel s (of_nat p + 16) fs = Some (length nm)"
    using string_length_loop(1)[OF assms(1,2) f, of 0] by (simp add: romfs_string_length_def)
  have "p + 4 \<le> length d" using assms(2) by (simp add: rom_str_at_def)
  then show "romfs_word s (of_nat p) fs = Some (rom_word d p)" by (rule rom_word_eq[OF assms(1)])
  from rom_read_string_eq[OF assms(1,2) f, of "length nm" "replicate (length nm + 1) 0"]
  show "\<exists>n b. romfs_read_string fuel s (of_nat p + 16) (replicate (length nm + 1) 0) (length nm) fs = Some (n, b)
      \<and> length b = length nm + 1 \<and> cstr b = nm" by auto
qed

lemma cstr_end_nul: "length b = n + 1 \<Longrightarrow> length (cstr b) = n \<Longrightarrow> cstr (b[n := 0]) = cstr b"
proof (induction b arbitrary: n)
  case (Cons c b)
  then show ?case by (cases n) (auto simp: cstr_Cons split: if_splits)
qed simp

lemma rom_dents_step_eq:
  assumes "rom_ok s fs d" "rom_str_at d (p + 16) nm" "length nm < 256" "16 \<le> fuel" "p < 2 ^ 31"
  shows "romfs_dents_step fuel s sz fs (of_nat p, tot, out) =
    (let l = dirent_length (length nm) in
     Some (if l + tot > sz then Inr (of_nat p, tot, out)
           else if p = 0 then Inr (0xffffffff, tot, out)
           else Inl (of_nat (rom_next d p), tot + l, out @ [(of_nat p, l, nm)])))"
proof -
  obtain n b where b: "romfs_read_string fuel s (of_nat p + 16) (replicate (length nm + 1) 0) (length nm) fs = Some (n, b)"
    "length b = length nm + 1" "cstr b = nm" using rom_name_length(3)[OF assms(1-4)] by blast
  have z: "(of_nat p :: u32) = 0 \<longleftrightarrow> p = 0"
  proof -
    have "unat (of_nat p :: u32) = p" using assms(5) by (simp add: unat_of_nat)
    moreover have "(of_nat p :: u32) = 0 \<longleftrightarrow> unat (of_nat p :: u32) = 0" by (simp only: unsigned_eq_0_iff)
    ultimately show ?thesis by simp
  qed
  have c: "cstr (b[length nm := 0]) = nm" using cstr_end_nul[OF b(2)] b(3) by simp
  have w: "wr b (length nm) 0 = Some (b[length nm := 0])" using b(2) by simp
  note [simp] = rom_name_length(1,2)[OF assms(1-4)]
  show ?thesis
    unfolding romfs_dents_step_def using b(1) w c z by (simp add: Let_def rom_next_def)
qed

lemma rom_dents_loop:
  assumes "rom_ok s fs d" "rom_str_at d 16 vol" "length vol < 256" "16 \<le> fuel"
    and "rom_dir d p L" "length L < n"
  shows "c_loop n (romfs_dents_step fuel s sz fs) (of_nat p, tot, out) =
    (case dents_of (dirent_length (length vol)) sz tot L of (resume, t, o') \<Rightarrow> Some (resume, t, out @ o'))"
  using assms(5,6)
proof (induction L arbitrary: n p tot out)
  case Nil
  then obtain n' where "n = Suc n'" by (cases n) auto
  then show ?case using Nil.prems(1) rom_dents_step_eq[OF assms(1) _ assms(3,4), of 0] assms(2)
    by (simp add: Let_def)
next
  case (Cons e L)
  obtain q nm where e: "e = (q, nm)" by (cases e)
  from Cons.prems(2) obtain n' where n: "n = Suc n'" "length L < n'" by (cases n) auto
  have p: "q = p" "0 < p" "rom_str_at d (p + 16) nm" "length nm < 256" "rom_dir d (rom_next d p) L"
    using Cons.prems(1) by (simp_all add: e)
  have "length d < 2 ^ 31" using assms(1) by (auto simp: rom_ok_def)
  then have b: "p < 2 ^ 31" using p(3) by (simp add: rom_str_at_def)
  show ?case
    using rom_dents_step_eq[OF assms(1) p(3,4) assms(4) b, of sz tot out]
      Cons.IH[OF p(5) n(2), of "tot + dirent_length (length nm)" "out @ [(of_nat p, dirent_length (length nm), nm)]"] p(1,2)
    by (simp add: n(1) e Let_def split: prod.splits)
qed

text \<open>A listing of a directory of the read-only file system from its start gives, in the order of
  the headers, number, record length and name of each entry that fits into the buffer, and the
  number to resume from; resuming from an entry gives the list from that entry on.\<close>

theorem romfs_getdents_correct:
  assumes "rom_ok s fs d" and "i_sb dir = Some s" and "i_number dir = of_nat p" and "p + 8 \<le> length d"
    and "rom_word d p AND 7 = 1" and "rom_str_at d 16 vol" and "length vol < 256" and "16 \<le> fuel"
    and "if progress = 0 then rom_dir d (unat (rom_word d (p + 4))) L
         else progress < 0xffffffff \<and> rom_dir d (unat progress) L" and "length L < fuel"
  shows "romfs_getdents fuel dir progress sz fs =
    (case dents_of (dirent_length (length vol)) sz 0 L of (resume, t, out) \<Rightarrow> Some (int t, out, ucast resume))"
proof -
  have w: "romfs_word s (of_nat p) fs = Some (rom_word d p)" "romfs_word s (of_nat p + 4) fs = Some (rom_word d (p + 4))"
    using rom_word_eq[OF assms(1), of p] rom_word_eq_add[OF assms(1), of p 4] assms(4) by simp_all
  note loop = rom_dents_loop[OF assms(1,6-8) _ assms(10)]
  show ?thesis
  proof (cases "progress = 0")
    case True
    then show ?thesis
      using loop[of "unat (rom_word d (p + 4))" sz 0 "[]"] w assms(2,3,5,9)
      by (simp add: romfs_getdents_def split: prod.splits)
  next
    case False
    then have lt: "unat progress < 4294967295" using assms(9) by (simp add: word_less_nat_alt)
    have uu: "unat (ucast progress :: u32) = unat progress"
      using lt by (simp add: unsigned_ucast_eq take_bit_nat_eq_self)
    have "(ucast progress :: u32) \<noteq> 0xffffffff" "(ucast progress :: u32) \<noteq> 0"
      using lt uu False by (auto simp: unsigned_eq_0_iff dest: arg_cong[of _ _ unat])
    moreover have "of_nat (unat (ucast progress :: u32)) = (ucast progress :: u32)" by simp
    then have "(of_nat (unat progress) :: u32) = ucast progress" unfolding uu .
    ultimately show ?thesis
      using loop[of "unat progress" sz 0 "[]"] assms(2,9) False
      by (simp add: romfs_getdents_def split: prod.splits)
  qed
qed

lemma demo_rom_getdents:
  "dents_of (dirent_length 1) 100 0 [(32, [46]), (64, [97]), (112, [98])]
     = (0xffffffff, 48, [(32, 16, [46]), (64, 16, [97]), (112, 16, [98])])"
  by (simp add: dirent_length_def)

lemma romfs_getdents_correct_witness:
  "romfs_getdents 16 (inode_zero\<lparr>i_number := 32, i_sb := Some 0\<rparr>) 0 100 (rom_fs demo_rom)
     = Some (48, [(32, 16, [46]), (64, 16, [97]), (112, 16, [98])], 0xffffffff)"
  using romfs_getdents_correct[OF rom_fs_ok, of demo_rom "inode_zero\<lparr>i_number := 32, i_sb := Some 0\<rparr>" 32 "[86]" 16 0
      "[(32, [46]), (64, [97]), (112, [98])]" 100] demo_rom_getdents
  by (simp add: demo_rom_words demo_rom_next demo_rom_names)

definition dents_all :: "(nat \<times> bytes) list \<Rightarrow> dirent list" where
  "dents_all L = map (\<lambda>(q, nm). (of_nat q, dirent_length (length nm), nm)) L"

definition dents_size :: "(nat \<times> bytes) list \<Rightarrow> nat" where
  "dents_size L = sum_list (map (\<lambda>(q, nm). dirent_length (length nm)) L)"

lemma dents_of_all:
  "tot + dents_size L \<le> sz \<Longrightarrow>
     dents_of v sz tot L = (if v + tot + dents_size L > sz then 0 else 0xffffffff, tot + dents_size L, dents_all L)"
  by (induction L arbitrary: tot) (auto simp: dents_size_def dents_all_def Let_def split: prod.splits)

text \<open>When the whole directory fits into the buffer but the record of the volume name would not
  fit behind it, the listing is complete and the number to resume from is 0, the start of the
  directory: a program that calls until it gets nothing lists the directory for ever.\<close>

theorem romfs_getdents_restarts:
  assumes "rom_ok s fs d" and "i_sb dir = Some s" and "i_number dir = of_nat p" and "p + 8 \<le> length d"
    and "rom_word d p AND 7 = 1" and "rom_str_at d 16 vol" and "length vol < 256" and "16 \<le> fuel"
    and "rom_dir d (unat (rom_word d (p + 4))) L" and "length L < fuel"
    and "dents_size L \<le> sz" and "sz < dirent_length (length vol) + dents_size L"
  shows "romfs_getdents fuel dir 0 sz fs = Some (int (dents_size L), dents_all L, 0)"
proof -
  have w: "romfs_word s (of_nat p) fs = Some (rom_word d p)" "romfs_word s (of_nat p + 4) fs = Some (rom_word d (p + 4))"
    using rom_word_eq[OF assms(1), of p] rom_word_eq_add[OF assms(1), of p 4] assms(4) by simp_all
  show ?thesis
    using rom_dents_loop[OF assms(1,6-10), of sz 0 "[]"] dents_of_all[of 0 L sz "dirent_length (length vol)"] w assms(2,3,5,11,12)
    by (simp add: romfs_getdents_def)
qed

lemma romfs_getdents_restarts_witness:
  "romfs_getdents 16 (inode_zero\<lparr>i_number := 32, i_sb := Some 0\<rparr>) 0 50 (rom_fs demo_rom)
     = Some (48, [(32, 16, [46]), (64, 16, [97]), (112, 16, [98])], 0)"
  using romfs_getdents_restarts[OF rom_fs_ok, of demo_rom "inode_zero\<lparr>i_number := 32, i_sb := Some 0\<rparr>" 32 "[86]" 16
      "[(32, [46]), (64, [97]), (112, [98])]" 50]
  by (simp add: demo_rom_words demo_rom_next demo_rom_names dents_size_def dents_all_def dirent_length_def)

end
