(* ===== verification/Superblock.thy ===== *)
theory Superblock
  imports Dos33_Write Romfs
begin

text \<open>
  The mount table, \<open>kernel/fs/superblock.c\<close>, and the calls through the tables of superblock
  operations of the two file systems.  Superblocks are indices into \<open>superblock_table\<close>.
\<close>

abbreviation (input) "MAX_MOUNTS \<equiv> 8 :: nat"
abbreviation (input) "MAX_FILENAME_SIZE \<equiv> 256 :: nat"
abbreviation (input) "MAX_PATH_LEN \<equiv> 1024 :: nat"

section \<open>Dispatch\<close>

text \<open>
  \<open>inode->sb->sb_ops.f(inode, ...)\<close>.  A table that was never set holds null pointers.
\<close>

definition inode_ops :: "inode \<Rightarrow> fs_state \<Rightarrow> superblock_operations option" where
  "inode_ops ino fs = do {
     s \<leftarrow> i_sb ino; sb \<leftarrow> sb_get s fs;
     (case sb_ops sb of No_Sb_Ops \<Rightarrow> None | t \<Rightarrow> Some t) }"

definition sb_lookup_inode :: "nat \<Rightarrow> inode \<Rightarrow> bytes \<Rightarrow> fs_state \<Rightarrow> (int \<times> inode) option" where
  "sb_lookup_inode fuel ino name fs = do {
     t \<leftarrow> inode_ops ino fs;
     (case t of Dos33_Sb_Ops \<Rightarrow> dos33fs_lookup_inode fuel ino name fs
      | Romfs_Sb_Ops \<Rightarrow> romfs_lookup_inode fuel ino name fs | No_Sb_Ops \<Rightarrow> None) }"

definition sb_destroy_inode :: "nat \<Rightarrow> inode \<Rightarrow> fs_state \<Rightarrow> (int \<times> inode \<times> fs_state) option" where
  "sb_destroy_inode fuel ino fs = do {
     t \<leftarrow> inode_ops ino fs;
     (case t of Dos33_Sb_Ops \<Rightarrow> dos33fs_destroy_inode fuel ino fs
      | Romfs_Sb_Ops \<Rightarrow> Some (romfs_destroy_inode ino, ino, fs) | No_Sb_Ops \<Rightarrow> None) }"

definition sb_write_inode :: "inode \<Rightarrow> fs_state \<Rightarrow> fs_state option" where
  "sb_write_inode ino fs = do {
     t \<leftarrow> inode_ops ino fs;
     (case t of Dos33_Sb_Ops \<Rightarrow> dos33fs_write_inode ino fs
      | Romfs_Sb_Ops \<Rightarrow> Some (romfs_write_inode ino fs) | No_Sb_Ops \<Rightarrow> None) }"

definition sb_truncate_inode :: "nat \<Rightarrow> inode \<Rightarrow> nat \<Rightarrow> fs_state \<Rightarrow> (int \<times> inode \<times> fs_state) option" where
  "sb_truncate_inode fuel ino sz fs = do {
     t \<leftarrow> inode_ops ino fs;
     (case t of Dos33_Sb_Ops \<Rightarrow> dos33fs_truncate_inode fuel ino sz fs
      | Romfs_Sb_Ops \<Rightarrow> Some (romfs_truncate_inode ino sz, ino, fs) | No_Sb_Ops \<Rightarrow> None) }"

definition sb_unlink_inode :: "inode \<Rightarrow> fs_state \<Rightarrow> (int \<times> fs_state) option" where
  "sb_unlink_inode ino fs = do {
     t \<leftarrow> inode_ops ino fs;
     (case t of Dos33_Sb_Ops \<Rightarrow> dos33fs_unlink_inode ino fs
      | Romfs_Sb_Ops \<Rightarrow> Some (romfs_unlink_inode ino, fs) | No_Sb_Ops \<Rightarrow> None) }"

definition sb_link_inode :: "superblock_operations \<Rightarrow> inode \<Rightarrow> bytes \<Rightarrow> fs_state \<Rightarrow> (int \<times> inode \<times> fs_state) option" where
  "sb_link_inode t ino name fs =
     (case t of Dos33_Sb_Ops \<Rightarrow> dos33fs_link_inode ino name fs
      | Romfs_Sb_Ops \<Rightarrow> Some (romfs_link_inode ino name, ino, fs) | No_Sb_Ops \<Rightarrow> None)"

definition sb_make_inode :: "nat \<Rightarrow> superblock_operations \<Rightarrow> inode \<Rightarrow> inode \<Rightarrow> fs_state \<Rightarrow> (int \<times> inode \<times> fs_state) option" where
  "sb_make_inode fuel t dir new fs =
     (case t of Dos33_Sb_Ops \<Rightarrow> dos33fs_make_inode fuel dir new fs
      | Romfs_Sb_Ops \<Rightarrow> Some (romfs_make_inode dir, new, fs) | No_Sb_Ops \<Rightarrow> None)"

definition sb_statfs :: "inode \<Rightarrow> fs_state \<Rightarrow> (int \<times> statfs) option" where
  "sb_statfs ino fs = do {
     t \<leftarrow> inode_ops ino fs; s \<leftarrow> i_sb ino; sb \<leftarrow> sb_get s fs;
     (case t of Dos33_Sb_Ops \<Rightarrow> Some (dos33fs_statfs sb)
      | Romfs_Sb_Ops \<Rightarrow> romfs_statfs s fs | No_Sb_Ops \<Rightarrow> None) }"

section \<open>The mount table\<close>

definition superblock_allocate :: "fs_state \<Rightarrow> nat option \<times> fs_state" where
  "superblock_allocate fs =
     (case index_of (\<lambda>sb. \<not> sb_valid sb) (superblock_table fs) of
        None \<Rightarrow> (None, fs)
      | Some i \<Rightarrow> (Some i, sb_set i ((superblock_table fs ! i)\<lparr>sb_valid := True\<rparr>) fs))"

definition is_root :: "superblock \<Rightarrow> bool" where
  "is_root sb \<longleftrightarrow> sb_valid sb \<and> strncmp [47] (sb_mountpoint sb) (strlen (sb_mountpoint sb)) = 0"

definition on_mount :: "bytes \<Rightarrow> superblock \<Rightarrow> bool" where
  "on_mount path sb \<longleftrightarrow> sb_valid sb \<and> strncmp (sb_mountpoint sb) path (strlen (sb_mountpoint sb)) = 0"

text \<open>The second loop leaves the root out, and index 0 when there is no root.\<close>

definition superblock_lookup :: "bytes \<Rightarrow> fs_state \<Rightarrow> nat option" where
  "superblock_lookup path fs =
     (let tab = superblock_table fs;
          sb_root = index_of is_root tab;
          which_root = (case sb_root of None \<Rightarrow> 0 | Some i \<Rightarrow> i) in
      case index_of (\<lambda>(i, sb). i \<noteq> which_root \<and> on_mount path sb) (enumerate 0 tab) of
        Some i \<Rightarrow> Some i
      | None \<Rightarrow> sb_root)"

definition fs_romfs :: bytes where
  "fs_romfs = [114, 111, 109, 102, 115]"

definition fs_dos33fs :: bytes where
  "fs_dos33fs = [100, 111, 115, 51, 51, 102, 115]"

definition mount_syscall :: "nat \<Rightarrow> bytes \<Rightarrow> bytes \<Rightarrow> bytes \<Rightarrow> fs_state \<Rightarrow> (int \<times> fs_state) option" where
  "mount_syscall fuel source target filesystemtype fs =
     (case superblock_allocate fs of
        (None, fs1) \<Rightarrow> Some (- ERANGE, fs1)
      | (Some s, fs1) \<Rightarrow>
          (case block_dev_find source fs1 of
             None \<Rightarrow> Some (- ENODEV, fs1)
           | Some block \<Rightarrow> do {
               (result, fs2) \<leftarrow>
                 (if strncmp filesystemtype fs_romfs 5 = 0 then do {
                    (r, fs2) \<leftarrow> romfs_mount fuel s block fs1;
                    Some (if r < 0 then Inl (- EINVAL) else Inr 0, fs2) }
                  else if strncmp filesystemtype fs_dos33fs 5 = 0 then do {
                    (r, fs2) \<leftarrow> dos33fs_mount s block fs1;
                    Some (if r < 0 then Inl (- EINVAL) else Inr 0, fs2) }
                  else Some (Inr (- ENODEV), fs1));
               (case result of
                  Inl r \<Rightarrow> Some (r, fs2)
                | Inr r \<Rightarrow> do {
                    sb \<leftarrow> sb_get s fs2;
                    mp \<leftarrow> strncpy (sb_mountpoint sb) target MAX_FILENAME_SIZE;
                    Some (r, sb_set s (sb\<lparr>sb_mountpoint := mp\<rparr>) fs2) }) }))"

section \<open>What the operations keep of an inode\<close>

text \<open>The use count and the superblock of an inode are those of the layer above.\<close>

definition same_use :: "inode \<Rightarrow> inode \<Rightarrow> bool" where
  "same_use a b \<longleftrightarrow> i_count b = i_count a \<and> i_sb b = i_sb a"

lemma same_use_refl [simp]: "same_use a a"
  by (simp add: same_use_def)

lemma same_use_trans: "same_use a b \<Longrightarrow> same_use b c \<Longrightarrow> same_use a c"
  by (simp add: same_use_def)

lemma same_use_number [simp]: "same_use a (b\<lparr>i_number := n\<rparr>) = same_use a b"
  by (simp add: same_use_def)

lemma dos33_read_inode_use: "yields (\<lambda>(r, b). same_use ino b) (dos33_read_inode ino fs)"
  unfolding dos33_read_inode_def Let_def
  by (intro yields_intros) (simp_all add: same_use_def inode_done_def)

lemma dos33_lookup_inode_dir_use: "yields (\<lambda>(r, b). same_use ino b) (dos33_lookup_inode_dir fuel ino name fs)"
  unfolding dos33_lookup_inode_dir_def
  by (intro yields_intros) (auto split: option.splits)

text \<open>The loop over the components of a path, for either file system.\<close>

lemma path_loop_use:
  assumes dir: "\<And>a name. yields (\<lambda>(r, b). same_use a b) (look a name)"
  shows "yields (\<lambda>(r, b). same_use ino b) (c_loop n (\<lambda>(ino, ptr).
     let (name, rest) = split_filename ptr 256 in do {
       (r, ino1) \<leftarrow> look ino name;
       Some (if r < 0 then Inr (r, ino1)
             else case rest of None \<Rightarrow> Inr (0, ino1) | Some p \<Rightarrow> Inl (ino1, p)) }) (ino, ptr))"
proof (rule yields_c_loop[where I = "\<lambda>(a, p). same_use ino a"])
  fix s :: "inode \<times> bytes"
  assume "case s of (a, p) \<Rightarrow> same_use ino a"
  then obtain a p where s: "s = (a, p)" and a: "same_use ino a" by (cases s) auto
  show "yields (case_sum (\<lambda>(a, p). same_use ino a) (\<lambda>(r, b). same_use ino b))
    ((\<lambda>(ino, ptr). let (name, rest) = split_filename ptr 256 in do {
       (r, ino1) \<leftarrow> look ino name;
       Some (if r < 0 then Inr (r, ino1)
             else case rest of None \<Rightarrow> Inr (0, ino1) | Some p \<Rightarrow> Inl (ino1, p)) }) s)"
    unfolding s prod.case Let_def
  proof (intro yields_prod)
    fix name rest
    show "yields (case_sum (\<lambda>(a, p). same_use ino a) (\<lambda>(r, b). same_use ino b)) (do {
       (r, ino1) \<leftarrow> look a name;
       Some (if r < 0 then Inr (r, ino1)
             else case rest of None \<Rightarrow> Inr (0, ino1) | Some p \<Rightarrow> Inl (ino1, p)) })"
      by (rule yields_bind[OF dir]) (auto split: option.splits intro: same_use_trans[OF a])
  qed
qed simp

lemma lookup_use:
  fixes get :: "inode \<Rightarrow> (int \<times> inode) option"
  assumes "\<And>a. yields (\<lambda>(r, b). same_use a b) (get a)"
    and "yields (\<lambda>(r, b). same_use ino b) path"
  shows "yields (\<lambda>(r, b). same_use ino b)
    (if c then get ino else do { (r, ino1) \<leftarrow> path; if r < 0 then Some (r, ino1) else get ino1 })"
proof (intro yields_if assms(1) yields_bind[OF assms(2)])
  fix a :: "int \<times> inode" assume "case a of (r, b) \<Rightarrow> same_use ino b"
  then obtain r b where a: "a = (r, b)" "same_use ino b" by (cases a) auto
  show "yields (\<lambda>(r, b). same_use ino b) (case a of (r, ino1) \<Rightarrow> if r < 0 then Some (r, ino1) else get ino1)"
    unfolding a(1) prod.case
    by (intro yields_if yields_SomeI yields_mono[OF assms(1)]) (auto intro: a(2) same_use_trans[OF a(2)])
qed

lemma dos33fs_lookup_inode_use: "yields (\<lambda>(r, b). same_use ino b) (dos33fs_lookup_inode fuel ino name fs)"
  unfolding dos33fs_lookup_inode_def lookup_path_step_def
  by (intro lookup_use dos33_read_inode_use path_loop_use dos33_lookup_inode_dir_use)

lemma romfs_type_use [simp]: "same_use a (romfs_type t x b) = same_use a b"
  by (simp add: romfs_type_def same_use_def)

lemma romfs_read_inode_use: "yields (\<lambda>(r, b). same_use ino b) (romfs_read_inode fuel ino fs)"
proof -
  have step: "yields (case_sum (same_use ino) (same_use ino)) (read_inode_step s fs a)" if "same_use ino a" for s a
    unfolding read_inode_step_def Let_def using that
    by (intro yields_intros) (simp_all add: same_use_def romfs_type_def)
  show ?thesis
    unfolding romfs_read_inode_def
    by (rule yields_bindI, rule yields_bind, rule yields_c_loop[where I = "same_use ino"])
      (auto intro: step)
qed

lemma romfs_lookup_inode_dir_use: "yields (\<lambda>(r, b). same_use ino b) (romfs_lookup_inode_dir fuel ino name fs)"
  unfolding romfs_lookup_inode_dir_def
  by (intro yields_intros) (auto split: option.splits)

lemma romfs_lookup_inode_use: "yields (\<lambda>(r, b). same_use ino b) (romfs_lookup_inode fuel ino name fs)"
  unfolding romfs_lookup_inode_def romfs_path_step_def
  by (intro lookup_use romfs_read_inode_use path_loop_use romfs_lookup_inode_dir_use)

lemma grow_finish_use: "yields (\<lambda>(r, b, f). same_use ino b) (grow_finish s ino sz fs)"
  unfolding grow_finish_def Let_def by (intro yields_intros) (simp add: same_use_def)

lemma dos33fs_shrink_file_use: "yields (\<lambda>(r, b, f). same_use ino b) (dos33fs_shrink_file ino sz fs)"
  unfolding dos33fs_shrink_file_def Let_def
  by (intro grow_finish_use yields_intros) simp_all

lemma dos33fs_grow_file_use: "yields (\<lambda>(r, b, f). same_use ino b) (dos33fs_grow_file fuel ino sz fs)"
  unfolding dos33fs_grow_file_def Let_def
  by (intro grow_finish_use yields_intros) simp_all

lemma dos33fs_truncate_inode_use: "yields (\<lambda>(r, b, f). same_use ino b) (dos33fs_truncate_inode fuel ino sz fs)"
  unfolding dos33fs_truncate_inode_def
  by (intro dos33fs_shrink_file_use dos33fs_grow_file_use yields_intros) simp

lemma dos33fs_destroy_inode_use: "yields (\<lambda>(r, b, f). same_use ino b) (dos33fs_destroy_inode fuel ino fs)"
  unfolding dos33fs_destroy_inode_def Let_def
  by (rule yields_bind[OF dos33fs_truncate_inode_use]) (intro yields_intros, simp_all)

lemma sb_lookup_inode_use: "yields (\<lambda>(r, b). same_use ino b) (sb_lookup_inode fuel ino name fs)"
  unfolding sb_lookup_inode_def
proof (rule yields_bindI)
  fix t show "yields (\<lambda>(r, b). same_use ino b) (case t of Dos33_Sb_Ops \<Rightarrow> dos33fs_lookup_inode fuel ino name fs
      | Romfs_Sb_Ops \<Rightarrow> romfs_lookup_inode fuel ino name fs | No_Sb_Ops \<Rightarrow> None)"
    by (cases t) (simp_all add: dos33fs_lookup_inode_use romfs_lookup_inode_use)
qed

lemma sb_truncate_inode_use: "yields (\<lambda>(r, b, f). same_use ino b) (sb_truncate_inode fuel ino sz fs)"
  unfolding sb_truncate_inode_def
proof (rule yields_bindI)
  fix t show "yields (\<lambda>(r, b, f). same_use ino b) (case t of Dos33_Sb_Ops \<Rightarrow> dos33fs_truncate_inode fuel ino sz fs
      | Romfs_Sb_Ops \<Rightarrow> Some (romfs_truncate_inode ino sz, ino, fs) | No_Sb_Ops \<Rightarrow> None)"
    by (cases t) (simp_all add: dos33fs_truncate_inode_use)
qed

lemma sb_destroy_inode_use: "yields (\<lambda>(r, b, f). same_use ino b) (sb_destroy_inode fuel ino fs)"
  unfolding sb_destroy_inode_def
proof (rule yields_bindI)
  fix t show "yields (\<lambda>(r, b, f). same_use ino b) (case t of Dos33_Sb_Ops \<Rightarrow> dos33fs_destroy_inode fuel ino fs
      | Romfs_Sb_Ops \<Rightarrow> Some (romfs_destroy_inode ino, ino, fs) | No_Sb_Ops \<Rightarrow> None)"
    by (cases t) (simp_all add: dos33fs_destroy_inode_use)
qed

section \<open>Which mount a path belongs to\<close>

lemma on_mount_iff: "on_mount path sb \<longleftrightarrow> sb_valid sb \<and> prefix (cstr (sb_mountpoint sb)) (cstr path)"
  by (simp add: on_mount_def strncmp_strlen_prefix)

lemma is_root_iff: "is_root sb \<longleftrightarrow> sb_valid sb \<and> prefix (cstr (sb_mountpoint sb)) [47]"
proof -
  have c: "cstr [47] = [47]" by (simp add: cstr_Cons)
  have "strncmp [47] m (strlen m) = 0 \<longleftrightarrow> prefix (cstr m) [47]" for m
  proof -
    have "take (length (cstr m)) [47] = cstr m \<longleftrightarrow> prefix (cstr m) [47]"
      by (metis append_eq_conv_conj append_take_drop_id prefix_def)
    then show ?thesis by (simp add: strncmp_eq_0_iff strlen_cstr c)
  qed
  then show ?thesis by (simp add: is_root_def)
qed

lemma enumerate_nth: "i < length xs \<Longrightarrow> enumerate 0 xs ! i = (i, xs ! i)"
  by (simp add: nth_enumerate_eq)

lemma superblock_lookup_other:
  assumes "index_of is_root (superblock_table fs) = Some r" "s < length (superblock_table fs)" "s \<noteq> r"
    and "on_mount path (superblock_table fs ! s)"
    and "\<And>i. i < s \<Longrightarrow> i \<noteq> r \<Longrightarrow> \<not> on_mount path (superblock_table fs ! i)"
  shows "superblock_lookup path fs = Some s"
proof -
  have "index_of (\<lambda>(i, sb). i \<noteq> r \<and> on_mount path sb) (enumerate 0 (superblock_table fs)) = Some s"
    using assms by (auto simp: index_of_Some_iff enumerate_nth)
  then show ?thesis using assms(1) by (simp add: superblock_lookup_def)
qed

lemma superblock_lookup_root:
  assumes "index_of is_root (superblock_table fs) = Some r"
    and "\<And>i. i < length (superblock_table fs) \<Longrightarrow> i \<noteq> r \<Longrightarrow> \<not> on_mount path (superblock_table fs ! i)"
  shows "superblock_lookup path fs = Some r"
proof -
  have "index_of (\<lambda>(i, sb). i \<noteq> r \<and> on_mount path sb) (enumerate 0 (superblock_table fs)) = None"
    using assms(2) by (auto simp: index_of_None_iff in_set_conv_nth enumerate_nth)
  then show ?thesis using assms(1) by (simp add: superblock_lookup_def)
qed

text \<open>A path belongs to the first mount, other than the root, whose mount point is a prefix of it,
  and to the root when there is none; the prefix is one of characters, not of path components.\<close>

theorem superblock_lookup_prefix:
  assumes "index_of is_root (superblock_table fs) = Some r"
  shows "superblock_lookup path fs = Some s \<longleftrightarrow>
    (s < length (superblock_table fs) \<and> s \<noteq> r \<and> sb_valid (superblock_table fs ! s)
       \<and> prefix (cstr (sb_mountpoint (superblock_table fs ! s))) (cstr path)
     \<or> s = r \<and> (\<forall>i < length (superblock_table fs). i \<noteq> r \<longrightarrow> \<not> on_mount path (superblock_table fs ! i)))
    \<and> (\<forall>i < s. i \<noteq> r \<longrightarrow> \<not> on_mount path (superblock_table fs ! i))"
proof (cases "\<exists>i < length (superblock_table fs). i \<noteq> r \<and> on_mount path (superblock_table fs ! i)")
  case True
  define k where "k = (LEAST i. i < length (superblock_table fs) \<and> i \<noteq> r \<and> on_mount path (superblock_table fs ! i))"
  have k: "k < length (superblock_table fs)" "k \<noteq> r" "on_mount path (superblock_table fs ! k)"
    using LeastI_ex[OF True, folded k_def] by simp_all
  have least: "\<not> on_mount path (superblock_table fs ! i)" if "i < k" "i \<noteq> r" for i
    using not_less_Least[of i, folded k_def] that k(1) unfolding k_def by force
  have "superblock_lookup path fs = Some k" using superblock_lookup_other[OF assms k least] .
  then have look: "superblock_lookup path fs = Some s \<longleftrightarrow> s = k" by auto
  have uniq: "s = k" if "s < length (superblock_table fs)" "s \<noteq> r" "on_mount path (superblock_table fs ! s)"
      "\<forall>i < s. i \<noteq> r \<longrightarrow> \<not> on_mount path (superblock_table fs ! i)"
    using that(2,3) that(4)[rule_format, OF _ k(2)] least[of s] k(3) by (cases s k rule: linorder_cases) simp_all
  have "\<not> (\<forall>i < length (superblock_table fs). i \<noteq> r \<longrightarrow> \<not> on_mount path (superblock_table fs ! i))" using k by blast
  with uniq k least show ?thesis unfolding look on_mount_iff[symmetric] by (intro iffI) blast+
next
  case False
  then have "superblock_lookup path fs = Some r" using superblock_lookup_root[OF assms] by blast
  moreover have "r < length (superblock_table fs)" using assms by (simp add: index_of_Some_iff)
  ultimately show ?thesis using False unfolding on_mount_iff[symmetric]
    by (auto, metis less_trans nat_less_le)
qed

text \<open>A mount of a device that does not exist leaves a slot behind that takes every path.\<close>

lemma block_dev_find_sb_set [simp]: "block_dev_find source (sb_set s sb fs) = block_dev_find source fs"
  by (simp add: block_dev_find_def sb_set_def)

lemma failed_mount_captures:
  assumes "index_of (\<lambda>sb. \<not> sb_valid sb) (superblock_table fs) = Some s" and "block_dev_find source fs = None"
    and "cstr (sb_mountpoint (superblock_table fs ! s)) = []"
    and "index_of is_root (superblock_table fs) = Some r" and "r < s"
    and "\<And>i. i < s \<Longrightarrow> i \<noteq> r \<Longrightarrow> \<not> on_mount path (superblock_table fs ! i)"
  shows "\<exists>fs'. mount_syscall fuel source target ty fs = Some (- ENODEV, fs') \<and> superblock_lookup path fs' = Some s
    \<and> fs' = sb_set s ((superblock_table fs ! s)\<lparr>sb_valid := True\<rparr>) fs"
proof -
  let ?fs = "sb_set s ((superblock_table fs ! s)\<lparr>sb_valid := True\<rparr>) fs"
  have s: "s < length (superblock_table fs)" using assms(1) by (simp add: index_of_Some_iff)
  have tab: "superblock_table ?fs = (superblock_table fs)[s := (superblock_table fs ! s)\<lparr>sb_valid := True\<rparr>]"
    by (simp add: sb_set_def)
  have "mount_syscall fuel source target ty fs = Some (- ENODEV, ?fs)"
    using assms(1,2) by (simp add: mount_syscall_def superblock_allocate_def)
  moreover have "index_of is_root (superblock_table ?fs) = Some r"
    using assms(4,5) by (auto simp: tab index_of_Some_iff nth_list_update)
  then have "superblock_lookup path ?fs = Some s"
    by (rule superblock_lookup_other) (use assms s in \<open>auto simp: tab on_mount_iff\<close>)
  ultimately show ?thesis by blast
qed

lemma superblock_lookup_prefix_witness:
  "superblock_lookup [47, 109, 110, 116, 50] (fs_init\<lparr>superblock_table :=
     [superblock_zero\<lparr>sb_valid := True, sb_mountpoint := [47, 0]\<rparr>,
      superblock_zero\<lparr>sb_valid := True, sb_mountpoint := [47, 109, 110, 116, 0]\<rparr>]\<rparr>) = Some 1"
proof -
  let ?fs = "fs_init\<lparr>superblock_table :=
     [superblock_zero\<lparr>sb_valid := True, sb_mountpoint := [47, 0]\<rparr>,
      superblock_zero\<lparr>sb_valid := True, sb_mountpoint := [47, 109, 110, 116, 0]\<rparr>]\<rparr>"
  have "index_of is_root (superblock_table ?fs) = Some 0" by (simp add: is_root_iff cstr_Cons)
  from superblock_lookup_prefix[OF this, of "[47, 109, 110, 116, 50]" 1] show ?thesis
    by (simp add: cstr_Cons)
qed

end
