(* ===== verification/Inodes.thy ===== *)
theory Inodes
  imports Superblock
begin

text \<open>
  The table of inodes in use, \<open>kernel/fs/inodes.c\<close>: allocation, lookup of a path, reference
  counting, and the system calls on a path.  An inode pointer is an index into the table.  The
  current directory of the calling process is the argument \<open>cwd\<close>.
\<close>

abbreviation (input) "NUM_INODES \<equiv> 64 :: nat"

record vfs =
  v_fs :: fs_state
  v_inodes :: "inode list"

definition vfs_init :: vfs where
  "vfs_init = \<lparr>v_fs = fs_init, v_inodes = replicate NUM_INODES inode_zero\<rparr>"

definition ino_get :: "nat \<Rightarrow> vfs \<Rightarrow> inode option" where
  "ino_get i v = rd (v_inodes v) i"

definition ino_set :: "nat \<Rightarrow> inode \<Rightarrow> vfs \<Rightarrow> vfs" where
  "ino_set i ino v = v\<lparr>v_inodes := (v_inodes v)[i := ino]\<rparr>"

section \<open>Allocation\<close>

definition inode_allocate :: "vfs \<Rightarrow> nat option \<times> vfs" where
  "inode_allocate v =
     (case index_of (\<lambda>ino. i_count ino = 0) (v_inodes v) of
        None \<Rightarrow> (None, v)
      | Some i \<Rightarrow> (Some i, ino_set i ((v_inodes v ! i)\<lparr>i_count := 1\<rparr>) v))"

definition inode_find_existing :: "nat option \<Rightarrow> u32 \<Rightarrow> vfs \<Rightarrow> nat option" where
  "inode_find_existing sb number v =
     index_of (\<lambda>ino. i_sb ino = sb \<and> i_number ino = number) (v_inodes v)"

text \<open>
  A freed inode is filled with the letter \<open>V\<close>.  Its superblock pointer is then the address of no
  superblock, which the model represents by \<open>None\<close>.
\<close>

definition inode_freed :: inode where
  "inode_freed = \<lparr>i_device = 0x56565656, i_number = 0x56565656, i_count = 0, i_mode = 0x56565656,
     i_hard_links = 0x56565656, i_uid = 0x56565656, i_gid = 0x56565656, i_rdev = 0x56565656,
     i_size = 0x5656565656565656, i_blocksize = 0x56565656, i_blocks = 0x56565656,
     i_atime = 0x5656565656565656, i_mtime = 0x5656565656565656, i_ctime = 0x5656565656565656, i_sb = None\<rparr>"

definition inode_free :: "nat \<Rightarrow> nat \<Rightarrow> vfs \<Rightarrow> (int \<times> vfs) option" where
  "inode_free fuel i v = do {
     ino \<leftarrow> ino_get i v;
     if i_count ino = 0 then Some (- 1, v)
     else do {
       let ino1 = ino\<lparr>i_count := i_count ino - 1\<rparr>;
       (ino2, fs) \<leftarrow>
         (if i_count ino1 = 0 \<and> i_hard_links ino1 = 0 then do {
            (_, ino2, fs) \<leftarrow> sb_destroy_inode fuel ino1 (v_fs v);
            Some (ino2, fs) }
          else Some (ino1, v_fs v));
       Some (0, ino_set i (if i_count ino2 = 0 then inode_freed else ino2) (v\<lparr>v_fs := fs\<rparr>)) } }"

section \<open>Lookup of a path\<close>

text \<open>
  A path of 1024 bytes or more fills \<open>full_path\<close> without a terminating NUL, and the string
  functions run out of it.
\<close>

definition expand_path :: "bytes \<Rightarrow> bytes \<Rightarrow> bytes option" where
  "expand_path cwd pathname =
     (if str_at pathname 0 = 47
      then if strlen pathname < MAX_PATH_LEN then Some (cstr pathname) else None
      else do {
        (_, b) \<leftarrow> snprintf (replicate MAX_PATH_LEN 0) MAX_PATH_LEN [37, 115, 47, 37, 115]
                   [VStr cwd, VStr pathname];
        Some (cstr b) })"

text \<open>The part of the path behind the mount point, without its leading slashes.\<close>

definition skip_mountpoint :: "bytes \<Rightarrow> bytes \<Rightarrow> bytes option" where
  "skip_mountpoint full mountpoint =
     (if strlen mountpoint \<le> length full
      then Some (dropWhile (\<lambda>c. c = 47) (drop (strlen mountpoint) full)) else None)"

text \<open>The end of a lookup: \<open>t1\<close> is the allocated inode as the file system has filled it in.\<close>

definition lookup_share :: "nat \<Rightarrow> nat \<Rightarrow> inode \<Rightarrow> int \<Rightarrow> vfs \<Rightarrow> ((int + nat \<times> int) \<times> vfs) option" where
  "lookup_share fuel temp t1 result v2 =
     (if result < 0 then do {
        (_, v3) \<leftarrow> inode_free fuel temp v2;
        Some (Inl (- ENOENT), v3) }
      else
        (case inode_find_existing (i_sb t1) (i_number t1) v2 of
           None \<Rightarrow> Some (Inr (temp, result), v2)
         | Some i \<Rightarrow> do {
             ino \<leftarrow> ino_get i v2;
             (_, v3) \<leftarrow> inode_free fuel temp (ino_set i (ino\<lparr>i_count := i_count ino + 1\<rparr>) v2);
             Some (Inr (i, result), v3) }))"

definition inode_lookup_and_alloc :: "nat \<Rightarrow> bytes \<Rightarrow> bytes \<Rightarrow> vfs \<Rightarrow> ((int + nat \<times> int) \<times> vfs) option" where
  "inode_lookup_and_alloc fuel cwd pathname v =
     (case inode_allocate v of
        (None, v1) \<Rightarrow> Some (Inl (- ENOMEM), v1)
      | (Some temp, v1) \<Rightarrow> do {
          full_path \<leftarrow> expand_path cwd pathname;
          (case superblock_lookup full_path (v_fs v1) of
             None \<Rightarrow> Some (Inl (- ENOENT), v1)
           | Some s \<Rightarrow> do {
               sb \<leftarrow> sb_get s (v_fs v1);
               t0 \<leftarrow> ino_get temp v1;
               ptr \<leftarrow> skip_mountpoint full_path (sb_mountpoint sb);
               (result, t1) \<leftarrow> sb_lookup_inode fuel (t0\<lparr>i_number := sb_root_dir sb, i_sb := Some s\<rparr>) ptr (v_fs v1);
               lookup_share fuel temp t1 result (ino_set temp t1 v1) }) })"

section \<open>The system calls\<close>

record vmwos_stat =
  st_dev :: nat
  st_ino :: u32
  st_mode :: u32
  st_nlink :: int
  st_uid :: int
  st_gid :: int
  st_rdev :: nat
  st_size :: nat
  st_blksize :: nat
  st_blocks :: nat
  st_atime :: nat
  st_mtime :: nat
  st_ctime :: nat

definition inode_stat :: "inode \<Rightarrow> vmwos_stat" where
  "inode_stat ino = \<lparr>st_dev = i_device ino, st_ino = i_number ino, st_mode = i_mode ino,
     st_nlink = i_hard_links ino, st_uid = i_uid ino, st_gid = i_gid ino, st_rdev = i_rdev ino,
     st_size = i_size ino, st_blksize = i_blocksize ino, st_blocks = i_blocks ino,
     st_atime = i_atime ino, st_mtime = i_mtime ino, st_ctime = i_ctime ino\<rparr>"

definition stat_syscall :: "nat \<Rightarrow> bytes \<Rightarrow> bytes \<Rightarrow> vfs \<Rightarrow> (int \<times> vmwos_stat option \<times> vfs) option" where
  "stat_syscall fuel cwd pathname v = do {
     (r, v1) \<leftarrow> inode_lookup_and_alloc fuel cwd pathname v;
     (case r of
        Inl _ \<Rightarrow> Some (- ENOENT, None, v1)
      | Inr (i, result) \<Rightarrow> do {
          ino \<leftarrow> ino_get i v1;
          (_, v2) \<leftarrow> inode_free fuel i v1;
          Some (result, Some (inode_stat ino), v2) }) }"

definition chmod_syscall :: "nat \<Rightarrow> bytes \<Rightarrow> bytes \<Rightarrow> u32 \<Rightarrow> vfs \<Rightarrow> (int \<times> vfs) option" where
  "chmod_syscall fuel cwd pathname mode v = do {
     (r, v1) \<leftarrow> inode_lookup_and_alloc fuel cwd pathname v;
     (case r of
        Inl _ \<Rightarrow> Some (- ENOENT, v1)
      | Inr (i, result) \<Rightarrow> do {
          ino \<leftarrow> ino_get i v1;
          let ino1 = ino\<lparr>i_mode := (i_mode ino AND 0xfffffe00) OR (mode AND 0x1ff)\<rparr>;
          fs \<leftarrow> sb_write_inode ino1 (v_fs v1);
          (_, v2) \<leftarrow> inode_free fuel i (ino_set i ino1 (v1\<lparr>v_fs := fs\<rparr>));
          Some (result, v2) }) }"

definition truncate_inode :: "nat \<Rightarrow> nat \<Rightarrow> nat \<Rightarrow> vfs \<Rightarrow> (int \<times> vfs) option" where
  "truncate_inode fuel i sz v = do {
     ino \<leftarrow> ino_get i v;
     (result, ino1, fs) \<leftarrow> sb_truncate_inode fuel ino sz (v_fs v);
     fs' \<leftarrow> (if result \<ge> 0 then sb_write_inode ino1 fs else Some fs);
     Some (result, ino_set i ino1 (v\<lparr>v_fs := fs'\<rparr>)) }"

definition truncate64_syscall :: "nat \<Rightarrow> bytes \<Rightarrow> bytes \<Rightarrow> nat \<Rightarrow> vfs \<Rightarrow> (int \<times> vfs) option" where
  "truncate64_syscall fuel cwd pathname sz v = do {
     (r, v1) \<leftarrow> inode_lookup_and_alloc fuel cwd pathname v;
     (case r of
        Inl _ \<Rightarrow> Some (- ENOENT, v1)
      | Inr (i, _) \<Rightarrow> do {
          (result, v2) \<leftarrow> truncate_inode fuel i sz v1;
          (_, v3) \<leftarrow> inode_free fuel i v2;
          Some (result, v3) }) }"

definition unlink_syscall :: "nat \<Rightarrow> bytes \<Rightarrow> bytes \<Rightarrow> vfs \<Rightarrow> (int \<times> vfs) option" where
  "unlink_syscall fuel cwd pathname v = do {
     (r, v1) \<leftarrow> inode_lookup_and_alloc fuel cwd pathname v;
     (case r of
        Inl _ \<Rightarrow> Some (- ENOENT, v1)
      | Inr (i, _) \<Rightarrow> do {
          ino \<leftarrow> ino_get i v1;
          (result, v2) \<leftarrow>
            (if i_mode ino AND S_IFDIR \<noteq> 0 then Some (- EISDIR, v1)
             else do {
               (r, fs) \<leftarrow> sb_unlink_inode ino (v_fs v1);
               Some (r, ino_set i (if r \<ge> 0 then ino\<lparr>i_hard_links := i_hard_links ino - 1\<rparr> else ino)
                          (v1\<lparr>v_fs := fs\<rparr>)) });
          (_, v3) \<leftarrow> inode_free fuel i v2;
          Some (result, v3) }) }"

text \<open>\<open>statfs_syscall\<close> of \<open>superblock.c\<close>.\<close>

definition statfs_syscall :: "nat \<Rightarrow> bytes \<Rightarrow> bytes \<Rightarrow> vfs \<Rightarrow> (int \<times> statfs option \<times> vfs) option" where
  "statfs_syscall fuel cwd path v = do {
     (r, v1) \<leftarrow> inode_lookup_and_alloc fuel cwd path v;
     (case r of
        Inl e \<Rightarrow> Some (e, None, v1)
      | Inr (i, _) \<Rightarrow> do {
          ino \<leftarrow> ino_get i v1;
          (result, buf) \<leftarrow> sb_statfs ino (v_fs v1);
          (_, v2) \<leftarrow> inode_free fuel i v1;
          Some (result, Some buf, v2) }) }"

section \<open>Counting the users\<close>

text \<open>\<open>inode_refs\<close> is the number of references to inodes the kernel holds.\<close>

definition inode_refs :: "vfs \<Rightarrow> int" where
  "inode_refs v = sum_list (map i_count (v_inodes v))"

definition uses_ok :: "vfs \<Rightarrow> bool" where
  "uses_ok v \<longleftrightarrow> (\<forall>ino \<in> set (v_inodes v). 0 \<le> i_count ino)"

lemma sum_list_list_update:
  "i < length xs \<Longrightarrow> sum_list (xs[i := x]) = sum_list xs - xs ! i + (x :: int)"
proof (induction xs arbitrary: i)
  case (Cons y ys)
  then show ?case by (cases i) auto
qed simp

lemma v_inodes_set [simp]: "v_inodes (ino_set i ino v) = (v_inodes v)[i := ino]" "v_fs (ino_set i ino v) = v_fs v"
  by (simp_all add: ino_set_def)

lemma ino_set_twice [simp]: "ino_set i a (ino_set i b v) = ino_set i a v"
  by (simp add: ino_set_def)

lemma ino_set_fs [simp]: "(ino_set i a v)\<lparr>v_fs := v_fs v\<rparr> = ino_set i a v"
  "ino_set i a ((ino_set i b v)\<lparr>v_fs := v_fs v\<rparr>) = ino_set i a v"
  by (simp_all add: ino_set_def)

lemma inode_refs_set:
  "i < length (v_inodes v) \<Longrightarrow> inode_refs (ino_set i ino v) = inode_refs v - i_count (v_inodes v ! i) + i_count ino"
  by (simp add: inode_refs_def map_update sum_list_list_update)

lemma inode_refs_fs [simp]: "inode_refs (v\<lparr>v_fs := fs\<rparr>) = inode_refs v" "uses_ok (v\<lparr>v_fs := fs\<rparr>) = uses_ok v"
  "ino_get i (v\<lparr>v_fs := fs\<rparr>) = ino_get i v"
  by (simp_all add: inode_refs_def uses_ok_def ino_get_def)

lemma uses_ok_set: "uses_ok v \<Longrightarrow> 0 \<le> i_count ino \<Longrightarrow> uses_ok (ino_set i ino v)"
  using set_update_subset_insert[of "v_inodes v" i ino] by (auto simp: uses_ok_def)

lemma uses_ok_get: "uses_ok v \<Longrightarrow> ino_get i v = Some ino \<Longrightarrow> 0 \<le> i_count ino"
  by (auto simp: uses_ok_def ino_get_def rd_Some_iff)

lemma ino_get_set: "i < length (v_inodes v) \<Longrightarrow> ino_get j (ino_set i ino v) = (if j = i then Some ino else ino_get j v)"
  by (auto simp: ino_get_def rd_def)

lemma ino_get_lt: "ino_get i v = Some ino \<Longrightarrow> i < length (v_inodes v) \<and> v_inodes v ! i = ino"
  by (simp add: ino_get_def rd_Some_iff)

text \<open>\<open>held d v v'\<close>: \<open>d\<close> more references are held after than before.\<close>

definition held :: "int \<Rightarrow> vfs \<Rightarrow> vfs \<Rightarrow> bool" where
  "held d v v' \<longleftrightarrow> inode_refs v' = inode_refs v + d \<and> uses_ok v'"

lemma held_trans: "held d1 u v \<Longrightarrow> held d2 v w \<Longrightarrow> held (d1 + d2) u w"
  by (simp add: held_def)

lemma held_set:
  "ino_get i v = Some ino \<Longrightarrow> uses_ok v \<Longrightarrow> 0 \<le> i_count ino' \<Longrightarrow> held (i_count ino' - i_count ino) v (ino_set i ino' (v\<lparr>v_fs := fs\<rparr>))"
  using inode_refs_set[of i "v\<lparr>v_fs := fs\<rparr>" ino'] by (auto simp: held_def uses_ok_set dest: ino_get_lt)

lemma inode_free_held:
  assumes "uses_ok v" "ino_get i v = Some ino" "i_count ino \<noteq> 0"
  shows "yields (\<lambda>(r, v'). held (- 1) v v') (inode_free fuel i v)"
proof -
  let ?ino1 = "ino\<lparr>i_count := i_count ino - 1\<rparr>"
  have pos: "0 \<le> i_count ?ino1" using uses_ok_get[OF assms(1,2)] assms(3) by simp
  have inner: "yields (\<lambda>(ino2, fs). i_count ino2 = i_count ?ino1)
    (if i_count ?ino1 = 0 \<and> i_hard_links ?ino1 = 0 then do {
            (_, ino2, fs) \<leftarrow> sb_destroy_inode fuel ?ino1 (v_fs v);
            Some (ino2, fs) }
          else Some (?ino1, v_fs v))"
    by (intro yields_if yields_SomeI yields_bind[OF sb_destroy_inode_use]) (auto simp: same_use_def)
  have eq: "inode_free fuel i v = do {
      (ino2, fs) \<leftarrow> (if i_count ?ino1 = 0 \<and> i_hard_links ?ino1 = 0 then do {
            (_, ino2, fs) \<leftarrow> sb_destroy_inode fuel ?ino1 (v_fs v);
            Some (ino2, fs) }
          else Some (?ino1, v_fs v));
      Some (0, ino_set i (if i_count ino2 = 0 then inode_freed else ino2) (v\<lparr>v_fs := fs\<rparr>)) }"
    using assms(3) by (simp add: inode_free_def assms(2) Let_def)
  show ?thesis
    unfolding eq
  proof (rule yields_bind[OF inner])
    fix a :: "inode \<times> fs_state"
    assume "case a of (ino2, fs) \<Rightarrow> i_count ino2 = i_count ?ino1"
    then obtain ino2 fs where a: "a = (ino2, fs)" "i_count ino2 = i_count ino - 1" by (cases a) auto
    let ?new = "if i_count ino2 = 0 then inode_freed else ino2"
    have "i_count ?new = i_count ino - 1" using a(2) by (simp add: inode_freed_def)
    then have "held (- 1) v (ino_set i ?new (v\<lparr>v_fs := fs\<rparr>))"
      using held_set[OF assms(2,1), of ?new fs] pos by simp
    then show "yields (\<lambda>(r, v'). held (- 1) v v') (case a of (ino2, fs) \<Rightarrow>
        Some (0 :: int, ino_set i (if i_count ino2 = 0 then inode_freed else ino2) (v\<lparr>v_fs := fs\<rparr>)))"
      by (simp add: a(1))
  qed
qed

text \<open>
  A lookup holds one reference more, to the inode it returns, and none when it fails; when the path
  has no superblock at all it keeps the inode it has allocated.
\<close>

definition has_superblock :: "bytes \<Rightarrow> bytes \<Rightarrow> vfs \<Rightarrow> bool" where
  "has_superblock cwd pathname v \<longleftrightarrow>
     (\<forall>full. expand_path cwd pathname = Some full \<longrightarrow> superblock_lookup full (v_fs v) \<noteq> None)"

definition lookup_held :: "vfs \<Rightarrow> (int + nat \<times> int) \<times> vfs \<Rightarrow> bool" where
  "lookup_held v = (\<lambda>(r, v').
     case r of Inl _ \<Rightarrow> held 0 v v'
     | Inr (i, _) \<Rightarrow> held 1 v v' \<and> (\<exists>ino. ino_get i v' = Some ino \<and> i_count ino \<noteq> 0))"

lemma inode_allocate_held:
  assumes "uses_ok v" "inode_allocate v = (Some t, v1)"
  shows "held 1 v v1" "\<exists>ino. ino_get t v1 = Some ino \<and> i_count ino = 1" "v_fs v1 = v_fs v"
proof -
  have ix: "index_of (\<lambda>ino. i_count ino = 0) (v_inodes v) = Some t"
    and v1: "v1 = ino_set t ((v_inodes v ! t)\<lparr>i_count := 1\<rparr>) v"
    using assms(2) by (auto simp: inode_allocate_def split: option.splits)
  then have t: "t < length (v_inodes v)" "i_count (v_inodes v ! t) = 0" by (simp_all add: index_of_Some_iff)
  show "held 1 v v1" using assms(1) t by (simp add: v1 held_def inode_refs_set uses_ok_set)
  show "\<exists>ino. ino_get t v1 = Some ino \<and> i_count ino = 1" using t by (simp add: v1 ino_get_set)
  show "v_fs v1 = v_fs v" by (simp add: v1)
qed

lemma inode_free_get:
  assumes "uses_ok v" "ino_get i v = Some ino" "i_count ino \<noteq> 0" "j \<noteq> i \<or> 1 < i_count ino"
    and "\<exists>x. ino_get j v = Some x \<and> i_count x \<noteq> 0"
  shows "yields (\<lambda>(r, v'). \<exists>x. ino_get j v' = Some x \<and> i_count x \<noteq> 0) (inode_free fuel i v)"
proof (cases "j = i")
  case True
  then have "1 < i_count ino" using assms(4) by simp
  then show ?thesis
    using True assms(2) ino_get_lt[OF assms(2)]
    by (simp add: inode_free_def Let_def ino_get_def rd_def)
next
  case False
  then show ?thesis
    unfolding inode_free_def assms(2) Let_def using assms(5) ino_get_lt[OF assms(2)]
    by (simp add: assms(2)) (intro yields_intros impI conjI; auto simp: ino_get_def rd_def split: if_splits)+
qed

lemma lookup_share_held:
  assumes "held 1 v v2" "ino_get temp v2 = Some t1" "i_count t1 = 1"
  shows "yields (lookup_held v) (lookup_share fuel temp t1 result v2)"
proof -
  have ok: "uses_ok v2" using assms(1) by (simp add: held_def)
  show ?thesis
  proof (cases "result < 0")
    case True
    have "yields (lookup_held v) (do { (_, v3) \<leftarrow> inode_free fuel temp v2; Some (Inl (- ENOENT), v3) })"
      by (rule yields_bind[OF inode_free_held[OF ok assms(2)]])
        (auto simp: assms(3) lookup_held_def dest: held_trans[OF assms(1)])
    then show ?thesis using True by (simp add: lookup_share_def)
  next
    case False
    show ?thesis
    proof (cases "inode_find_existing (i_sb t1) (i_number t1) v2")
      case None
      then show ?thesis using False assms by (simp add: lookup_share_def lookup_held_def)
    next
      case (Some i)
      then have "i < length (v_inodes v2)" by (simp add: inode_find_existing_def index_of_Some_iff)
      then obtain ino where ino: "ino_get i v2 = Some ino" by (simp add: ino_get_def)
      let ?v = "ino_set i (ino\<lparr>i_count := i_count ino + 1\<rparr>) v2"
      have pos: "0 \<le> i_count ino" using uses_ok_get[OF ok ino] .
      have h: "held 1 v2 ?v" using held_set[OF ino ok, of "ino\<lparr>i_count := i_count ino + 1\<rparr>" "v_fs v2"] pos by simp
      define tt where "tt = (if temp = i then ino\<lparr>i_count := i_count ino + 1\<rparr> else t1)"
      have tt: "ino_get temp ?v = Some tt" "i_count tt \<noteq> 0" "i \<noteq> temp \<or> 1 < i_count tt"
        using assms(2,3) ino pos \<open>i < length _\<close> by (auto simp: tt_def ino_get_set)
      have okv: "uses_ok ?v" using h by (simp add: held_def)
      have "\<exists>x. ino_get i ?v = Some x \<and> i_count x \<noteq> 0"
        using pos \<open>i < length _\<close> by (simp add: ino_get_set)
      note g = inode_free_get[OF okv tt this, of fuel] inode_free_held[OF okv tt(1,2), of fuel]
      have "yields (lookup_held v) (do { (_, v3) \<leftarrow> inode_free fuel temp ?v; Some (Inr (i, result), v3) })"
      proof (rule yields_bindI)
        fix a assume "inode_free fuel temp ?v = Some a"
        then have "\<exists>x. ino_get i (snd a) = Some x \<and> i_count x \<noteq> 0" "held (- 1) ?v (snd a)"
          using g by (auto dest: yieldsD split: prod.splits)
        then show "yields (lookup_held v) (case a of (_, v3) \<Rightarrow> Some (Inr (i, result), v3))"
          using held_trans[OF held_trans[OF assms(1) h], of "- 1" "snd a"]
          by (cases a) (simp add: lookup_held_def)
      qed
      then show ?thesis using False Some ino by (simp add: lookup_share_def)
    qed
  qed
qed

lemma inode_lookup_held:
  assumes "uses_ok v" "has_superblock cwd pathname v"
  shows "yields (lookup_held v) (inode_lookup_and_alloc fuel cwd pathname v)"
proof (cases "inode_allocate v")
  case (Pair ot v1)
  show ?thesis
  proof (cases ot)
    case None
    then have "v1 = v" using Pair by (auto simp: inode_allocate_def split: option.splits)
    then show ?thesis using Pair None assms(1) by (simp add: inode_lookup_and_alloc_def lookup_held_def held_def)
  next
    case (Some temp)
    note alloc = inode_allocate_held[OF assms(1) Pair[unfolded Some]]
    have ok1: "uses_ok v1" using alloc(1) by (simp add: held_def)
    obtain t0 where t0: "ino_get temp v1 = Some t0" "i_count t0 = 1" using alloc(2) by blast
    have share: "yields (lookup_held v) (lookup_share fuel temp t1 result (ino_set temp t1 v1))"
      if "same_use (t0\<lparr>i_number := n, i_sb := s\<rparr>) t1" for t1 n s result
    proof (rule lookup_share_held)
      have c: "i_count t1 = 1" using that t0(2) by (simp add: same_use_def)
      then show "i_count t1 = 1" .
      show "held 1 v (ino_set temp t1 v1)"
        using held_trans[OF alloc(1) held_set[OF t0(1) ok1, of t1 "v_fs v1"]] c t0(2) by simp
      show "ino_get temp (ino_set temp t1 v1) = Some t1" using ino_get_lt[OF t0(1)] by (simp add: ino_get_set)
    qed
    have "inode_lookup_and_alloc fuel cwd pathname v = do {
          full_path \<leftarrow> expand_path cwd pathname;
          (case superblock_lookup full_path (v_fs v1) of
             None \<Rightarrow> Some (Inl (- ENOENT), v1)
           | Some s \<Rightarrow> do {
               sb \<leftarrow> sb_get s (v_fs v1);
               t0 \<leftarrow> ino_get temp v1;
               ptr \<leftarrow> skip_mountpoint full_path (sb_mountpoint sb);
               (result, t1) \<leftarrow> sb_lookup_inode fuel (t0\<lparr>i_number := sb_root_dir sb, i_sb := Some s\<rparr>) ptr (v_fs v1);
               lookup_share fuel temp t1 result (ino_set temp t1 v1) }) }"
      by (simp add: inode_lookup_and_alloc_def Pair Some)
    also have "yields (lookup_held v) \<dots>"
    proof (intro yields_bindI yields_option)
      fix full assume "expand_path cwd pathname = Some full" "superblock_lookup full (v_fs v1) = None"
      then show "yields (lookup_held v) (Some (Inl (- ENOENT), v1))"
        using assms(2) alloc(3) by (simp add: has_superblock_def)
    next
      fix full s sb x ptr y
      assume x: "ino_get temp v1 = Some x"
        and y: "sb_lookup_inode fuel (x\<lparr>i_number := sb_root_dir sb, i_sb := Some s\<rparr>) ptr (v_fs v1) = Some y"
      then show "yields (lookup_held v) (case y of (result, t1) \<Rightarrow> lookup_share fuel temp t1 result (ino_set temp t1 v1))"
        using share yieldsD[OF sb_lookup_inode_use y] t0(1) by (cases y) simp
    qed
    finally show ?thesis .
  qed
qed

text \<open>
  The pattern of every system call on a path: look it up, work on the inode without changing its
  count, and free it.
\<close>

lemma call_held:
  assumes "uses_ok v" "has_superblock cwd pathname v"
    and fail: "\<And>e v1. held 0 v v1 \<Longrightarrow> yields P (f (Inl e) v1)"
    and work: "\<And>i r v1 ino. held 1 v v1 \<Longrightarrow> ino_get i v1 = Some ino \<Longrightarrow> i_count ino \<noteq> 0 \<Longrightarrow> yields P (f (Inr (i, r)) v1)"
  shows "yields P (do { (r, v1) \<leftarrow> inode_lookup_and_alloc fuel cwd pathname v; f r v1 })"
proof (rule yields_bind[OF inode_lookup_held[OF assms(1,2)]])
  fix a assume a: "lookup_held v a"
  obtain r v1 where r: "a = (r, v1)" by (cases a)
  show "yields P (case a of (r, v1) \<Rightarrow> f r v1)"
  proof (cases r)
    case (Inl e)
    then show ?thesis using a fail by (simp add: r lookup_held_def)
  next
    case (Inr p)
    then obtain i q where "r = Inr (i, q)" by (cases p) auto
    then show ?thesis using a work by (auto simp: r lookup_held_def)
  qed
qed

lemma free_held:
  assumes "held 1 v v1" "ino_get i v1 = Some ino" "i_count ino \<noteq> 0"
  shows "yields (\<lambda>(_, v2). held 0 v v2) (inode_free fuel i v1)"
  using inode_free_held[OF _ assms(2,3)] assms(1)
  by (auto simp: held_def elim!: yields_mono)

text \<open>Changing the inode and the file system before the inode is freed.\<close>

lemma set_free_held:
  assumes "held 1 v v1" "ino_get i v1 = Some ino" "i_count ino \<noteq> 0" "i_count ino' = i_count ino"
  shows "yields (\<lambda>(_, v2). held 0 v v2) (inode_free fuel i (ino_set i ino' (v1\<lparr>v_fs := fs\<rparr>)))"
proof (rule free_held)
  have ok: "uses_ok v1" using assms(1) by (simp add: held_def)
  have pos: "0 \<le> i_count ino'" using uses_ok_get[OF ok assms(2)] assms(4) by simp
  show "held 1 v (ino_set i ino' (v1\<lparr>v_fs := fs\<rparr>))"
    using held_trans[OF assms(1) held_set[OF assms(2) ok pos, of fs]] assms(4) by simp
  show "ino_get i (ino_set i ino' (v1\<lparr>v_fs := fs\<rparr>)) = Some ino'"
    using ino_get_lt[OF assms(2)] by (simp add: ino_get_def)
  show "i_count ino' \<noteq> 0" using assms(3,4) by simp
qed

lemma bind_snd: "Option.bind x (\<lambda>(_, v). Some (f v)) = map_option (\<lambda>(_, v). f v) x"
  by (cases x) auto

lemma yields_map: "yields (\<lambda>x. P (f x)) x \<Longrightarrow> yields P (map_option f x)"
  by (cases x) auto

lemma stat_held:
  "uses_ok v \<Longrightarrow> has_superblock cwd pathname v \<Longrightarrow> yields (\<lambda>(r, b, v'). held 0 v v') (stat_syscall fuel cwd pathname v)"
  unfolding stat_syscall_def
  by (rule call_held, assumption+) (auto simp: bind_snd case_prod_beta intro!: yields_map elim!: yields_mono[OF free_held])

lemma chmod_held:
  "uses_ok v \<Longrightarrow> has_superblock cwd pathname v \<Longrightarrow> yields (\<lambda>(r, v'). held 0 v v') (chmod_syscall fuel cwd pathname mode v)"
  unfolding chmod_syscall_def Let_def
  by (rule call_held, assumption+)
    (auto simp: bind_snd case_prod_beta intro!: yields_map yields_bindI elim!: yields_mono[OF set_free_held])

lemma statfs_held:
  "uses_ok v \<Longrightarrow> has_superblock cwd pathname v \<Longrightarrow> yields (\<lambda>(r, b, v'). held 0 v v') (statfs_syscall fuel cwd pathname v)"
  unfolding statfs_syscall_def
  by (rule call_held, assumption+)
    (auto simp: bind_snd case_prod_beta intro!: yields_map yields_bindI elim!: yields_mono[OF free_held])

definition only_inode :: "nat \<Rightarrow> inode \<Rightarrow> vfs \<Rightarrow> vfs \<Rightarrow> bool" where
  "only_inode i ino v v' \<longleftrightarrow> (\<exists>ino' fs. v' = ino_set i ino' (v\<lparr>v_fs := fs\<rparr>) \<and> i_count ino' = i_count ino)"

lemma only_inodeI: "i_count ino' = i_count ino \<Longrightarrow> only_inode i ino v (ino_set i ino' (v\<lparr>v_fs := fs\<rparr>))"
  by (auto simp: only_inode_def)

lemma only_inode_same: "ino_get i v = Some ino \<Longrightarrow> only_inode i ino v v"
  unfolding only_inode_def
  by (intro exI[of _ ino] exI[of _ "v_fs v"]) (use ino_get_lt in \<open>force simp: ino_set_def\<close>)

lemma only_free_held:
  "held 1 v v1 \<Longrightarrow> ino_get i v1 = Some ino \<Longrightarrow> i_count ino \<noteq> 0 \<Longrightarrow> only_inode i ino v1 v2 \<Longrightarrow>
     yields (\<lambda>(_, v3). held 0 v v3) (inode_free fuel i v2)"
  unfolding only_inode_def by (auto intro: set_free_held)

lemma truncate_inode_only:
  assumes "ino_get i v = Some ino"
  shows "yields (\<lambda>(r, v'). only_inode i ino v v') (truncate_inode fuel i sz v)"
  unfolding truncate_inode_def assms
  by (simp, rule yields_bind[OF sb_truncate_inode_use])
    (intro yields_intros, auto simp: same_use_def intro: only_inodeI)

lemma truncate64_held:
  "uses_ok v \<Longrightarrow> has_superblock cwd pathname v \<Longrightarrow> yields (\<lambda>(r, v'). held 0 v v') (truncate64_syscall fuel cwd pathname sz v)"
  unfolding truncate64_syscall_def
  by (rule call_held, assumption+)
    (auto simp: bind_snd case_prod_beta intro!: yields_map yields_bind[OF truncate_inode_only] elim!: yields_mono[OF only_free_held])

lemma unlink_held:
  "uses_ok v \<Longrightarrow> has_superblock cwd pathname v \<Longrightarrow> yields (\<lambda>(r, v'). held 0 v v') (unlink_syscall fuel cwd pathname v)"
  unfolding unlink_syscall_def
proof (rule call_held, assumption+)
  fix i r v1 ino
  assume h: "held 1 v v1" "ino_get i v1 = Some ino" "i_count ino \<noteq> 0"
  have "yields (\<lambda>(r, v2). only_inode i ino v1 v2)
    (if i_mode ino AND S_IFDIR \<noteq> 0 then Some (- EISDIR, v1)
     else do {
       (r, fs) \<leftarrow> sb_unlink_inode ino (v_fs v1);
       Some (r, ino_set i (if r \<ge> 0 then ino\<lparr>i_hard_links := i_hard_links ino - 1\<rparr> else ino)
                  (v1\<lparr>v_fs := fs\<rparr>)) })"
    by (intro yields_intros) (auto intro: only_inodeI only_inode_same[OF h(2)])
  note body = yields_bind[OF this]
  show "yields (\<lambda>(r, v'). held 0 v v') (case Inr (i, r) of
        Inl _ \<Rightarrow> Some (- ENOENT, v1)
      | Inr (i, _) \<Rightarrow> do {
          ino \<leftarrow> ino_get i v1;
          (result, v2) \<leftarrow>
            (if i_mode ino AND S_IFDIR \<noteq> 0 then Some (- EISDIR, v1)
             else do {
               (r, fs) \<leftarrow> sb_unlink_inode ino (v_fs v1);
               Some (r, ino_set i (if r \<ge> 0 then ino\<lparr>i_hard_links := i_hard_links ino - 1\<rparr> else ino)
                          (v1\<lparr>v_fs := fs\<rparr>)) });
          (_, v3) \<leftarrow> inode_free fuel i v2;
          Some (result, v3) })"
    unfolding sum.case prod.case h(2) bind.bind_lunit
    by (rule body) (auto simp: bind_snd case_prod_beta intro!: yields_map elim!: yields_mono[OF only_free_held[OF h]])
qed simp

text \<open>C18: The path calls of the kernel keep the balance of references: stat, chmod, truncate, unlink and
  statfs leave as many references to inodes as there were, on success and on every error, as long
  as the path has a superblock.\<close>

theorem path_calls_balance:
  assumes "uses_ok v" and "has_superblock cwd pathname v"
  shows "yields (\<lambda>(r, b, v'). held 0 v v') (stat_syscall fuel cwd pathname v)
    \<and> yields (\<lambda>(r, v'). held 0 v v') (chmod_syscall fuel cwd pathname mode v)
    \<and> yields (\<lambda>(r, v'). held 0 v v') (truncate64_syscall fuel cwd pathname sz v)
    \<and> yields (\<lambda>(r, v'). held 0 v v') (unlink_syscall fuel cwd pathname v)
    \<and> yields (\<lambda>(r, b, v'). held 0 v v') (statfs_syscall fuel cwd pathname v)"
  using assms by (intro conjI stat_held chmod_held truncate64_held unlink_held statfs_held)

section \<open>The stages of a lookup\<close>

lemma inode_lookup_stages:
  assumes "index_of (\<lambda>ino. i_count ino = 0) (v_inodes v) = Some t" "expand_path cwd pathname = Some full"
    and "superblock_lookup full (v_fs v) = Some s" "sb_get s (v_fs v) = Some sb"
    and "skip_mountpoint full (sb_mountpoint sb) = Some ptr"
    and "sb_lookup_inode fuel ((v_inodes v ! t)\<lparr>i_count := 1, i_number := sb_root_dir sb, i_sb := Some s\<rparr>) ptr (v_fs v)
      = Some (r, t1)"
  shows "inode_lookup_and_alloc fuel cwd pathname v = lookup_share fuel t t1 r (ino_set t t1 v)"
proof -
  have t: "t < length (v_inodes v)" using assms(1) by (simp add: index_of_Some_iff)
  then show ?thesis
    using assms by (simp add: inode_lookup_and_alloc_def inode_allocate_def ino_get_set)
qed

section \<open>A mounted image\<close>

definition rom_mounted :: fs_state where
  "rom_mounted = (rom_fs demo_rom)\<lparr>superblock_table :=
     [superblock_zero\<lparr>sb_valid := True, sb_mountpoint := [47, 0], sb_block := Some 0, sb_ops := Romfs_Sb_Ops, sb_root_dir := 32\<rparr>,
      superblock_zero]\<rparr>"

definition demo_vfs :: "inode list \<Rightarrow> vfs" where
  "demo_vfs inos = \<lparr>v_fs = rom_mounted, v_inodes = inos\<rparr>"

lemma rom_mounted_ok: "rom_ok 0 rom_mounted demo_rom"
  by (simp add: rom_ok_def rom_mounted_def rom_fs_def sb_get_def block_dev_zero_def demo_rom_words)

lemma rom_mounted_root: "index_of is_root (superblock_table rom_mounted) = Some 0"
  by (simp add: rom_mounted_def is_root_iff cstr_Cons superblock_zero_def)

lemma rom_mounted_lookup: "superblock_lookup full rom_mounted = Some 0"
  by (rule superblock_lookup_root[OF rom_mounted_root])
    (auto simp: rom_mounted_def on_mount_iff superblock_zero_def less_Suc_eq)

lemma demo_root_path: "expand_path cwd [47] = Some [47]"
  by (simp add: expand_path_def str_at_def strlen_cstr cstr_Cons)

definition demo_root :: "inode \<Rightarrow> inode" where
  "demo_root ino = ino\<lparr>i_number := 32, i_sb := Some 0, i_mode := 0x41ff, i_size := 0, i_atime := 256246800,
     i_mtime := 256246800, i_ctime := 256246800, i_uid := 0, i_gid := 0, i_rdev := 0, i_hard_links := 1\<rparr>"

lemma demo_root_lookup:
  "sb_lookup_inode 16 (ino\<lparr>i_number := 32, i_sb := Some 0\<rparr>) [] rom_mounted = Some (0, demo_root ino)"
proof -
  have w: "romfs_word 0 32 rom_mounted = Some 73" "romfs_word 0 36 rom_mounted = Some 32" "romfs_word 0 40 rom_mounted = Some 0"
    using rom_word_eq[OF rom_mounted_ok, of 32] rom_word_eq[OF rom_mounted_ok, of 36] rom_word_eq[OF rom_mounted_ok, of 40]
    by (simp_all add: demo_rom_words) (simp add: rom_word_def demo_rom_def le32_def ntohl_def)
  have o: "inode_ops (ino\<lparr>i_number := 32, i_sb := Some 0\<rparr>) rom_mounted = Some Romfs_Sb_Ops"
    by (simp add: inode_ops_def sb_get_def rom_mounted_def)
  show ?thesis
    by (simp add: sb_lookup_inode_def o romfs_lookup_inode_def str_at_def romfs_read_inode_def read_inode_step_def w
        romfs_type_def demo_root_def)
qed

lemma demo_has_superblock: "has_superblock cwd pathname (demo_vfs inos)"
  by (simp add: has_superblock_def demo_vfs_def rom_mounted_lookup)

lemma demo_lookup:
  assumes "index_of (\<lambda>ino. i_count ino = 0) inos = Some t"
  shows "inode_lookup_and_alloc 16 [] [47] (demo_vfs inos) =
    lookup_share 16 t (demo_root ((inos ! t)\<lparr>i_count := 1\<rparr>)) 0 (demo_vfs (inos[t := demo_root ((inos ! t)\<lparr>i_count := 1\<rparr>)]))"
proof -
  obtain sb where sb: "sb_get 0 rom_mounted = Some sb" "sb_root_dir sb = 32" "sb_mountpoint sb = [47, 0]"
    by (simp add: sb_get_def rom_mounted_def)
  have "skip_mountpoint [47] (sb_mountpoint sb) = Some []"
    by (simp add: sb skip_mountpoint_def strlen_cstr cstr_Cons)
  moreover have "sb_lookup_inode 16 ((inos ! t)\<lparr>i_count := 1, i_number := sb_root_dir sb, i_sb := Some 0\<rparr>) [] rom_mounted
      = Some (0, demo_root ((inos ! t)\<lparr>i_count := 1\<rparr>))"
    using demo_root_lookup[of "(inos ! t)\<lparr>i_count := 1\<rparr>"] by (simp add: sb)
  ultimately show ?thesis
    using inode_lookup_stages[of "demo_vfs inos" t "[]" "[47]" "[47]" 0 sb "[]" 16] assms demo_root_path rom_mounted_lookup sb(1)
    by (simp add: demo_vfs_def ino_set_def)
qed

lemma demo_lookup_fresh:
  "inode_lookup_and_alloc 16 [] [47] (demo_vfs [inode_zero])
     = Some (Inr (0, 0), demo_vfs [demo_root (inode_zero\<lparr>i_count := 1\<rparr>)])"
proof -
  have "index_of (\<lambda>ino. i_count ino = 0) [inode_zero] = Some 0" by (simp add: inode_zero_def)
  from demo_lookup[OF this] show ?thesis
    by (simp add: lookup_share_def demo_vfs_def inode_find_existing_def ino_get_def inode_free_def ino_set_def demo_root_def)
qed

lemma path_calls_balance_witness:
  "\<exists>b v'. stat_syscall 16 [] [47] (demo_vfs [inode_zero]) = Some (0, b, v') \<and> held 0 (demo_vfs [inode_zero]) v'"
proof -
  have u: "uses_ok (demo_vfs [inode_zero])" by (simp add: uses_ok_def demo_vfs_def inode_zero_def)
  obtain b v' where r: "stat_syscall 16 [] [47] (demo_vfs [inode_zero]) = Some (0, b, v')"
    unfolding stat_syscall_def demo_lookup_fresh
    by (simp add: ino_get_def inode_free_def Let_def demo_root_def demo_vfs_def)
  then show ?thesis
    using yieldsD[OF conjunct1[OF path_calls_balance[OF u demo_has_superblock]] r] by auto
qed

text \<open>When a slot below an inode in use is free, looking the same file up again fills the free slot
  and finds that copy first: the kernel then holds two inodes, each with its own count, for one file.\<close>

theorem lookup_duplicates_inode:
  assumes "index_of (\<lambda>ino. i_count ino = 0) (v_inodes v) = Some t" and "expand_path cwd pathname = Some full"
    and "superblock_lookup full (v_fs v) = Some s" and "sb_get s (v_fs v) = Some sb"
    and "skip_mountpoint full (sb_mountpoint sb) = Some ptr"
    and "sb_lookup_inode fuel ((v_inodes v ! t)\<lparr>i_count := 1, i_number := sb_root_dir sb, i_sb := Some s\<rparr>) ptr (v_fs v)
      = Some (r, t1)" and "0 \<le> r"
    and "t < j" and "ino_get j v = Some ino" and "i_sb ino = i_sb t1" and "i_number ino = i_number t1"
    and "\<And>i. i < t \<Longrightarrow> \<not> (i_sb (v_inodes v ! i) = i_sb t1 \<and> i_number (v_inodes v ! i) = i_number t1)"
  shows "\<exists>v'. inode_lookup_and_alloc fuel cwd pathname v = Some (Inr (t, r), v')
    \<and> ino_get j v' = Some ino \<and> ino_get t v' = Some t1 \<and> v_fs v' = v_fs v"
proof -
  have t: "t < length (v_inodes v)" using assms(1) by (simp add: index_of_Some_iff)
  have c: "i_count t1 = 1" using yieldsD[OF sb_lookup_inode_use assms(6)] by (simp add: same_use_def)
  then have k: "t1\<lparr>i_count := 1\<rparr> = t1" by (cases t1) simp
  have "inode_find_existing (i_sb t1) (i_number t1) (ino_set t t1 v) = Some t"
    using t assms(12) by (auto simp: inode_find_existing_def index_of_Some_iff)
  then have "inode_lookup_and_alloc fuel cwd pathname v = Some (Inr (t, r), ino_set t (t1\<lparr>i_count := 1\<rparr>) v)"
    using inode_lookup_stages[OF assms(1-6)] assms(7) t c
    by (simp add: lookup_share_def ino_get_set inode_free_def Let_def)
  then show ?thesis unfolding k using t assms(8,9) by (auto simp: ino_get_set)
qed

lemma lookup_duplicates_inode_witness:
  "\<exists>v'. inode_lookup_and_alloc 16 [] [47] (demo_vfs [inode_zero, demo_root (inode_zero\<lparr>i_count := 1\<rparr>)]) = Some (Inr (0, 0), v')
    \<and> ino_get 1 v' = Some (demo_root (inode_zero\<lparr>i_count := 1\<rparr>)) \<and> ino_get 0 v' = Some (demo_root (inode_zero\<lparr>i_count := 1\<rparr>))"
proof -
  let ?v = "demo_vfs [inode_zero, demo_root (inode_zero\<lparr>i_count := 1\<rparr>)]"
  obtain sb where sb: "sb_get 0 rom_mounted = Some sb" "sb_root_dir sb = 32" "sb_mountpoint sb = [47, 0]"
    by (simp add: sb_get_def rom_mounted_def)
  have a: "index_of (\<lambda>ino. i_count ino = 0) (v_inodes ?v) = Some 0" by (simp add: demo_vfs_def inode_zero_def)
  have b: "superblock_lookup [47] (v_fs ?v) = Some 0" by (simp add: demo_vfs_def rom_mounted_lookup)
  have c: "sb_get 0 (v_fs ?v) = Some sb" using sb by (simp add: demo_vfs_def)
  have d: "skip_mountpoint [47] (sb_mountpoint sb) = Some []"
    by (simp add: sb skip_mountpoint_def strlen_cstr cstr_Cons)
  have e: "sb_lookup_inode 16 ((v_inodes ?v ! 0)\<lparr>i_count := 1, i_number := sb_root_dir sb, i_sb := Some 0\<rparr>) [] (v_fs ?v)
      = Some (0, demo_root (inode_zero\<lparr>i_count := 1\<rparr>))"
    using demo_root_lookup[of "inode_zero\<lparr>i_count := 1\<rparr>"] by (simp add: sb demo_vfs_def)
  from lookup_duplicates_inode[OF a demo_root_path b c d e, of 1 "demo_root (inode_zero\<lparr>i_count := 1\<rparr>)"]
  show ?thesis by (simp add: demo_vfs_def ino_get_def) blast
qed

text \<open>After a failed mount every lookup of a path that no earlier mount takes calls an operation of
  the slot left behind, whose table was never filled: the kernel jumps to a null pointer.\<close>

theorem failed_mount_breaks_lookup:
  assumes "index_of (\<lambda>sb. \<not> sb_valid sb) (superblock_table (v_fs v)) = Some s" and "block_dev_find source (v_fs v) = None"
    and "cstr (sb_mountpoint (superblock_table (v_fs v) ! s)) = []" and "sb_ops (superblock_table (v_fs v) ! s) = No_Sb_Ops"
    and "index_of is_root (superblock_table (v_fs v)) = Some r" and "r < s"
    and "expand_path cwd pathname = Some full"
    and "\<And>i. i < s \<Longrightarrow> i \<noteq> r \<Longrightarrow> \<not> on_mount full (superblock_table (v_fs v) ! i)"
    and "\<exists>ino \<in> set (v_inodes v). i_count ino = 0"
  shows "\<exists>fs'. mount_syscall mfuel source target ty (v_fs v) = Some (- ENODEV, fs')
    \<and> inode_lookup_and_alloc fuel cwd pathname (v\<lparr>v_fs := fs'\<rparr>) = None"
proof -
  from failed_mount_captures[OF assms(1-3,5,6,8)] obtain fs' where
    m: "mount_syscall mfuel source target ty (v_fs v) = Some (- ENODEV, fs')" "superblock_lookup full fs' = Some s"
      "fs' = sb_set s ((superblock_table (v_fs v) ! s)\<lparr>sb_valid := True\<rparr>) (v_fs v)" by blast
  obtain t where t: "index_of (\<lambda>ino. i_count ino = 0) (v_inodes v) = Some t"
    using assms(9) index_of_None_iff[of "\<lambda>ino. i_count ino = 0" "v_inodes v"] by (cases "index_of (\<lambda>ino. i_count ino = 0) (v_inodes v)") auto
  have s: "s < length (superblock_table (v_fs v))" using assms(1) by (simp add: index_of_Some_iff)
  have sb: "sb_get s fs' = Some ((superblock_table (v_fs v) ! s)\<lparr>sb_valid := True\<rparr>)"
    using s by (simp add: m(3) sb_get_def sb_set_def)
  have "sb_lookup_inode fuel ino ptr fs' = None" if "i_sb ino = Some s" for ino ptr
    using that sb assms(4) by (simp add: sb_lookup_inode_def inode_ops_def)
  then have "inode_lookup_and_alloc fuel cwd pathname (v\<lparr>v_fs := fs'\<rparr>) = None"
    using t assms(7) m(2) sb
    by (simp add: inode_lookup_and_alloc_def inode_allocate_def bind_eq_None_conv)
  then show ?thesis using m(1) by blast
qed

lemma failed_mount_breaks_lookup_witness:
  "\<exists>fs'. mount_syscall 16 [120] [47, 109] fs_romfs rom_mounted = Some (- ENODEV, fs')
    \<and> inode_lookup_and_alloc 16 [] [47] ((demo_vfs [inode_zero])\<lparr>v_fs := fs'\<rparr>) = None"
proof -
  let ?v = "demo_vfs [inode_zero]"
  have a: "index_of (\<lambda>sb. \<not> sb_valid sb) (superblock_table (v_fs ?v)) = Some 1"
    by (simp add: demo_vfs_def rom_mounted_def superblock_zero_def)
  have b: "block_dev_find [120] (v_fs ?v) = None"
    by (simp add: demo_vfs_def rom_mounted_def block_dev_find_def rom_fs_def block_dev_zero_def strlen_cstr cstr_Cons
        strncmp_eq_0_iff del: strncmp.simps)
  have c: "cstr (sb_mountpoint (superblock_table (v_fs ?v) ! 1)) = []" "sb_ops (superblock_table (v_fs ?v) ! 1) = No_Sb_Ops"
    by (simp_all add: demo_vfs_def rom_mounted_def superblock_zero_def)
  have d: "index_of is_root (superblock_table (v_fs ?v)) = Some 0" by (simp add: demo_vfs_def rom_mounted_root)
  show ?thesis
    using failed_mount_breaks_lookup[OF a b c d _ demo_root_path, of 16 "[47, 109]" fs_romfs 16 "[]"]
    by (simp add: demo_vfs_def inode_zero_def)
qed

end
