(* ===== verification/Files.thy ===== *)
theory Files
  imports Inodes
begin

text \<open>
  Open files, \<open>kernel/fs/files.c\<close>: the table of file objects, the file descriptors and the current
  directory of the calling process, and the system calls on them.

  A call on a character device goes to the operations of the device, which are those of the console;
  the result \<open>To_Char\<close> names the device and the file object they are called with.
\<close>

abbreviation (input) "MAX_FD_PER_PROC \<equiv> 8 :: nat"
abbreviation (input) "MAX_OPEN_FILES \<equiv> 64 :: nat"
abbreviation (input) "O_RW_MASK \<equiv> 0x0003 :: u32"
abbreviation (input) "O_RDONLY \<equiv> 0x0000 :: u32"
abbreviation (input) "O_WRONLY \<equiv> 0x0001 :: u32"
abbreviation (input) "O_CREAT \<equiv> 0x0040 :: u32"
abbreviation (input) "O_TRUNC \<equiv> 0x0200 :: u32"
abbreviation (input) "O_APPEND \<equiv> 0x0400 :: u32"
abbreviation (input) "CONSOLE_MAJOR \<equiv> 1 :: nat"

section \<open>State\<close>

datatype file_operations = No_File_Ops | Dos33_File_Ops | Romfs_File_Ops

record file_object =
  file_offset :: u64
  file_ops :: file_operations
  file_inode :: "nat option"
  file_count :: nat
  file_flags :: u32

definition file_zero :: file_object where
  "file_zero = \<lparr>file_offset = 0, file_ops = No_File_Ops, file_inode = None, file_count = 0, file_flags = 0\<rparr>"

record kfiles =
  k_vfs :: vfs
  file_objects :: "file_object list"
  k_fds :: "nat option list"
  k_cwd :: bytes

datatype 'a outcome = Done 'a | To_Char nat nat

definition file_set :: "nat \<Rightarrow> file_object \<Rightarrow> kfiles \<Rightarrow> kfiles" where
  "file_set j f k = k\<lparr>file_objects := (file_objects k)[j := f]\<rparr>"

definition set_fs :: "fs_state \<Rightarrow> kfiles \<Rightarrow> kfiles" where
  "set_fs fs k = k\<lparr>k_vfs := (k_vfs k)\<lparr>v_fs := fs\<rparr>\<rparr>"

definition k_fs :: "kfiles \<Rightarrow> fs_state" where
  "k_fs k = v_fs (k_vfs k)"

section \<open>File objects\<close>

definition file_objects_init :: "kfiles \<Rightarrow> kfiles" where
  "file_objects_init k = k\<lparr>file_objects := map (\<lambda>f. f\<lparr>file_count := 0\<rparr>) (file_objects k)\<rparr>"

definition files_increment_count :: "nat \<Rightarrow> kfiles \<Rightarrow> kfiles option" where
  "files_increment_count j k = do {
     f \<leftarrow> rd (file_objects k) j;
     i \<leftarrow> file_inode f;
     ino \<leftarrow> ino_get i (k_vfs k);
     Some (file_set j (f\<lparr>file_count := file_count f + 1\<rparr>)
             (k\<lparr>k_vfs := ino_set i (ino\<lparr>i_count := i_count ino + 1\<rparr>) (k_vfs k)\<rparr>)) }"

definition file_object_free :: "nat \<Rightarrow> nat \<Rightarrow> kfiles \<Rightarrow> (int \<times> kfiles) option" where
  "file_object_free fuel j k = do {
     f \<leftarrow> rd (file_objects k) j;
     v \<leftarrow> (case file_inode f of None \<Rightarrow> Some (k_vfs k)
           | Some i \<Rightarrow> do { (_, v) \<leftarrow> inode_free fuel i (k_vfs k); Some v });
     Some (0, file_set j (if file_count f \<noteq> 0 then f\<lparr>file_count := file_count f - 1\<rparr> else f) (k\<lparr>k_vfs := v\<rparr>)) }"

definition file_object_allocate :: "nat \<Rightarrow> kfiles \<Rightarrow> (int + nat) \<times> kfiles" where
  "file_object_allocate i k =
     (case index_of (\<lambda>f. file_count f = 0) (file_objects k) of
        None \<Rightarrow> (Inl (- ENFILE), k)
      | Some j \<Rightarrow> (Inr j, file_set j ((file_objects k ! j)\<lparr>file_count := 1, file_inode := Some i, file_offset := 0\<rparr>) k))"

definition map_fd_to_file :: "nat \<Rightarrow> kfiles \<Rightarrow> (int + nat) option" where
  "map_fd_to_file fd k =
     (if fd \<ge> MAX_FD_PER_PROC then Some (Inl (- ENFILE))
      else do {
        p \<leftarrow> rd (k_fds k) fd;
        (case p of None \<Rightarrow> Some (Inl (- ENFILE))
         | Some j \<Rightarrow> do {
             f \<leftarrow> rd (file_objects k) j;
             Some (if file_count f = 0 then Inl (- EBADF) else Inr j) }) })"

text \<open>\<open>file->inode\<close>, read through.\<close>

definition file_get :: "nat \<Rightarrow> kfiles \<Rightarrow> (file_object \<times> nat \<times> inode) option" where
  "file_get j k = do {
     f \<leftarrow> rd (file_objects k) j;
     i \<leftarrow> file_inode f;
     ino \<leftarrow> ino_get i (k_vfs k);
     Some (f, i, ino) }"

definition file_get_inode :: "nat \<Rightarrow> kfiles \<Rightarrow> nat option option" where
  "file_get_inode which k = do { f \<leftarrow> rd (file_objects k) which; Some (file_inode f) }"

definition close_syscall :: "nat \<Rightarrow> nat \<Rightarrow> kfiles \<Rightarrow> (int \<times> kfiles) option" where
  "close_syscall fuel fd k = do {
     r \<leftarrow> map_fd_to_file fd k;
     (case r of Inl e \<Rightarrow> Some (e, k)
      | Inr j \<Rightarrow> do {
          (result, k1) \<leftarrow> file_object_free fuel j k;
          Some (result, k1\<lparr>k_fds := (k_fds k1)[fd := None]\<rparr>) }) }"

section \<open>Opening and creating\<close>

text \<open>
  \<open>full_path\<close> has 256 bytes here, but \<open>strncpy\<close> and \<open>snprintf\<close> are told 1024.
\<close>

definition create_file_object :: "nat \<Rightarrow> bytes \<Rightarrow> kfiles \<Rightarrow> ((int + nat) \<times> kfiles) option" where
  "create_file_object fuel pathname k = do {
     full_path \<leftarrow>
       (if str_at pathname 0 = 47 then strncpy (replicate MAX_FILENAME_SIZE 0) pathname MAX_PATH_LEN
        else do { (_, b) \<leftarrow> snprintf (replicate MAX_FILENAME_SIZE 0) MAX_PATH_LEN [37, 115, 47, 37, 115]
                              [VStr (k_cwd k), VStr pathname];
                  Some b });
     (filename, directory) \<leftarrow> split_pathname full_path;
     (r, v1) \<leftarrow> inode_lookup_and_alloc fuel (k_cwd k) directory (k_vfs k);
     (case r of
        Inl e \<Rightarrow> Some (Inl e, k\<lparr>k_vfs := v1\<rparr>)
      | Inr (d, _) \<Rightarrow>
          (case inode_allocate v1 of
             (None, v2) \<Rightarrow> Some (Inl (- ENOMEM), k\<lparr>k_vfs := v2\<rparr>)
           | (Some i, v2) \<Rightarrow> do {
               dir \<leftarrow> ino_get d v2;
               t \<leftarrow> inode_ops dir (v_fs v2);
               new \<leftarrow> ino_get i v2;
               (r2, new1, fs1) \<leftarrow> sb_make_inode fuel t dir new (v_fs v2);
               let v3 = ino_set i new1 (v2\<lparr>v_fs := fs1\<rparr>);
               if r2 < 0 then Some (Inl r2, k\<lparr>k_vfs := v3\<rparr>)
               else do {
                 p \<leftarrow> filename;
                 (r3, new2, fs2) \<leftarrow> sb_link_inode t new1 (drop p directory) fs1;
                 let v4 = ino_set i new2 (v3\<lparr>v_fs := fs2\<rparr>);
                 if r3 < 0 then Some (Inl r3, k\<lparr>k_vfs := v4\<rparr>)
                 else do {
                   (_, v5) \<leftarrow> inode_free fuel d v4;
                   Some (Inr i, k\<lparr>k_vfs := v5\<rparr>) } } })) }"

definition sb_fileops :: "superblock_operations \<Rightarrow> file_operations" where
  "sb_fileops t = (case t of Dos33_Sb_Ops \<Rightarrow> Dos33_File_Ops | Romfs_Sb_Ops \<Rightarrow> Romfs_File_Ops | No_Sb_Ops \<Rightarrow> No_File_Ops)"

text \<open>From the inode on.\<close>

definition open_inode :: "nat \<Rightarrow> nat \<Rightarrow> u32 \<Rightarrow> kfiles \<Rightarrow> ((int + nat) \<times> kfiles) option" where
  "open_inode fuel i flags k =
     (case file_object_allocate i k of
        (Inl e, k1) \<Rightarrow> Some (Inl e, k1)
      | (Inr j, k1) \<Rightarrow> do {
          f \<leftarrow> rd (file_objects k1) j;
          ino \<leftarrow> ino_get i (k_vfs k1);
          t \<leftarrow> inode_ops ino (k_fs k1);
          let f1 = f\<lparr>file_flags := flags, file_ops := sb_fileops t\<rparr>;
          (ino1, fs1) \<leftarrow> (if flags AND O_TRUNC \<noteq> 0 then do {
                            (_, ino1, fs1) \<leftarrow> sb_truncate_inode fuel ino 0 (k_fs k1); Some (ino1, fs1) }
                          else Some (ino, k_fs k1));
          let f2 = (if flags AND O_APPEND \<noteq> 0 then f1\<lparr>file_offset := of_nat (i_size ino1)\<rparr>
                    else if flags AND O_TRUNC \<noteq> 0 then f1\<lparr>file_offset := 0\<rparr> else f1);
          Some (Inr j, file_set j f2 (k1\<lparr>k_vfs := ino_set i ino1 ((k_vfs k1)\<lparr>v_fs := fs1\<rparr>)\<rparr>)) })"

definition open_file_object :: "nat \<Rightarrow> bytes \<Rightarrow> u32 \<Rightarrow> kfiles \<Rightarrow> ((int + nat) \<times> kfiles) option" where
  "open_file_object fuel pathname flags k = do {
     (r, v1) \<leftarrow> inode_lookup_and_alloc fuel (k_cwd k) pathname (k_vfs k);
     let k1 = k\<lparr>k_vfs := v1\<rparr>;
     (case r of
        Inr (i, _) \<Rightarrow> open_inode fuel i flags k1
      | Inl _ \<Rightarrow>
          if flags AND O_CREAT \<noteq> 0 then do {
            (r2, k2) \<leftarrow> create_file_object fuel pathname k1;
            (case r2 of Inl e \<Rightarrow> Some (Inl e, k2) | Inr i \<Rightarrow> open_inode fuel i flags k2) }
          else Some (Inl (- ENOENT), k1)) }"

definition open_syscall :: "nat \<Rightarrow> bytes \<Rightarrow> u32 \<Rightarrow> kfiles \<Rightarrow> (int \<times> kfiles) option" where
  "open_syscall fuel pathname flags k =
     (case index_of (\<lambda>p. p = None) (k_fds k) of
        None \<Rightarrow> Some (- ENFILE, k)
      | Some fd \<Rightarrow> do {
          (r, k1) \<leftarrow> open_file_object fuel pathname flags k;
          Some (case r of Inl e \<Rightarrow> (e, k1) | Inr j \<Rightarrow> (int fd, k1\<lparr>k_fds := (k_fds k1)[fd := Some j]\<rparr>)) })"

section \<open>Reading and writing\<close>

text \<open>\<open>file->file_ops->read\<close> and \<open>write\<close>: result, bytes, inode, offset and file system.\<close>

definition file_read :: "nat \<Rightarrow> file_operations \<Rightarrow> inode \<Rightarrow> u32 \<Rightarrow> u64 \<Rightarrow> fs_state \<Rightarrow> (int \<times> bytes \<times> u64) option" where
  "file_read fuel ops ino count off fs =
     (case ops of
        Dos33_File_Ops \<Rightarrow> do { (r, out, o') \<leftarrow> dos33fs_read_file ino (unat count) (unat off) fs; Some (r, out, of_nat o') }
      | Romfs_File_Ops \<Rightarrow> romfs_read_file fuel ino count off fs
      | No_File_Ops \<Rightarrow> None)"

definition file_write :: "nat \<Rightarrow> file_operations \<Rightarrow> inode \<Rightarrow> bytes \<Rightarrow> u32 \<Rightarrow> u64 \<Rightarrow> fs_state \<Rightarrow>
    (int \<times> inode \<times> u64 \<times> fs_state) option" where
  "file_write fuel ops ino buf count off fs =
     (case ops of
        Dos33_File_Ops \<Rightarrow> do { (r, ino', o', fs') \<leftarrow> dos33fs_write_file fuel ino buf (unat count) (unat off) fs;
                               Some (r, ino', of_nat o', fs') }
      | Romfs_File_Ops \<Rightarrow> Some (romfs_write_file ino buf (unat count) (unat off), ino, off, fs)
      | No_File_Ops \<Rightarrow> None)"

definition read_syscall :: "nat \<Rightarrow> char_table \<Rightarrow> nat \<Rightarrow> u32 \<Rightarrow> kfiles \<Rightarrow> ((int \<times> bytes) outcome \<times> kfiles) option" where
  "read_syscall fuel ct fd count k = do {
     r \<leftarrow> map_fd_to_file fd k;
     (case r of Inl e \<Rightarrow> Some (Done (e, []), k)
      | Inr j \<Rightarrow> do {
          (f, i, ino) \<leftarrow> file_get j k;
          let mode = i_mode ino AND S_IFMT;
          if file_flags f AND O_RW_MASK = O_WRONLY then Some (Done (- EBADF, []), k)
          else if mode = S_IFBLK then do {
            dev \<leftarrow> block_dev_lookup (i_device ino) (k_fs k);
            (n, out) \<leftarrow> block_read dev (unat (ucast (file_offset f) :: u32)) (unat count) [] (k_fs k);
            Some (Done (n, out), if n \<ge> 0 then file_set j (f\<lparr>file_offset := file_offset f + of_int n\<rparr>) k else k) }
          else if mode = S_IFCHR then do {
            dev \<leftarrow> char_dev_lookup (i_device ino) ct;
            Some (To_Char dev j, k) }
          else if mode = S_IFREG then do {
            (n, out, off) \<leftarrow> file_read fuel (file_ops f) ino count (file_offset f) (k_fs k);
            Some (Done (n, out), file_set j (f\<lparr>file_offset := off\<rparr>) k) }
          else if mode = S_IFDIR then Some (Done (- EISDIR, []), k)
          else Some (Done (- EINVAL, []), k) }) }"

definition write_syscall :: "nat \<Rightarrow> char_table \<Rightarrow> nat \<Rightarrow> bytes \<Rightarrow> u32 \<Rightarrow> kfiles \<Rightarrow> (int outcome \<times> kfiles) option" where
  "write_syscall fuel ct fd buf count k = do {
     r \<leftarrow> map_fd_to_file fd k;
     (case r of Inl e \<Rightarrow> Some (Done e, k)
      | Inr j \<Rightarrow> do {
          (f, i, ino) \<leftarrow> file_get j k;
          let mode = i_mode ino AND S_IFMT;
          if file_flags f AND O_RW_MASK = O_RDONLY then Some (Done (- EBADF), k)
          else if mode = S_IFBLK then do {
            dev \<leftarrow> block_dev_lookup (i_device ino) (k_fs k);
            (n, fs1) \<leftarrow> block_write dev (unat (ucast (file_offset f) :: u32)) (unat count) buf (k_fs k);
            Some (Done n, set_fs fs1 k) }
          else if mode = S_IFCHR then do {
            dev \<leftarrow> char_dev_lookup (i_device ino) ct;
            Some (To_Char dev j, k) }
          else if mode = S_IFREG then do {
            (n, ino1, off, fs1) \<leftarrow> file_write fuel (file_ops f) ino buf count (file_offset f) (k_fs k);
            Some (Done n, file_set j (f\<lparr>file_offset := off\<rparr>) (k\<lparr>k_vfs := ino_set i ino1 ((k_vfs k)\<lparr>v_fs := fs1\<rparr>)\<rparr>)) }
          else if mode = S_IFDIR then Some (Done (- EISDIR), k)
          else Some (Done (- EINVAL), k) }) }"

text \<open>The descriptor is taken for an index into the table of file objects.\<close>

definition getdents_syscall :: "nat \<Rightarrow> nat \<Rightarrow> nat \<Rightarrow> kfiles \<Rightarrow> (int \<times> dirent list \<times> kfiles) option" where
  "getdents_syscall fuel fd count k =
     (if fd \<ge> MAX_OPEN_FILES then Some (- ENFILE, [], k)
      else do {
        f \<leftarrow> rd (file_objects k) fd;
        if file_count f = 0 then Some (- EBADF, [], k)
        else do {
          (_, i, ino) \<leftarrow> file_get fd k;
          (n, out, off) \<leftarrow>
            (case file_ops f of
               Dos33_File_Ops \<Rightarrow> do { (n, out, p) \<leftarrow> dos33fs_getdents fuel ino (unat (file_offset f)) count (k_fs k);
                                      Some (n, out, of_nat p) }
             | Romfs_File_Ops \<Rightarrow> romfs_getdents fuel ino (file_offset f) count (k_fs k)
             | No_File_Ops \<Rightarrow> None);
          Some (n, out, file_set fd (f\<lparr>file_offset := off\<rparr>) k) } })"

section \<open>The current directory\<close>

text \<open>\<open>len\<close> is the length of the argument, not of the expanded path.\<close>

definition chdir_to :: "nat \<Rightarrow> bytes \<Rightarrow> kfiles \<Rightarrow> (int \<times> kfiles) option" where
  "chdir_to fuel new_path k = do {
     (r, v1) \<leftarrow> inode_lookup_and_alloc fuel (k_cwd k) new_path (k_vfs k);
     (case r of
        Inl _ \<Rightarrow> Some (- ENOENT, k\<lparr>k_vfs := v1\<rparr>)
      | Inr (i, _) \<Rightarrow> do {
          ino \<leftarrow> ino_get i v1;
          if i_mode ino AND S_IFMT \<noteq> S_IFDIR then do {
            (_, v2) \<leftarrow> inode_free fuel i v1;
            Some (- ENOTDIR, k\<lparr>k_vfs := v2\<rparr>) }
          else do {
            cwd \<leftarrow> strncpy (k_cwd k) new_path MAX_PATH_LEN;
            (_, v2) \<leftarrow> inode_free fuel i v1;
            Some (0, k\<lparr>k_vfs := v2, k_cwd := cwd\<rparr>) } }) }"

definition chdir_syscall :: "nat \<Rightarrow> bytes \<Rightarrow> kfiles \<Rightarrow> (int \<times> kfiles) option" where
  "chdir_syscall fuel path k =
     (if strlen path > MAX_PATH_LEN then Some (- E2BIG, k)
      else do {
        new_path \<leftarrow>
          (if str_at path 0 = 47 then strncpy (replicate MAX_PATH_LEN 0) path MAX_PATH_LEN
           else do { (_, b) \<leftarrow> snprintf (replicate MAX_PATH_LEN 0) MAX_PATH_LEN [37, 115, 47, 37, 115]
                                 [VStr (k_cwd k), VStr path];
                     Some b });
        let len = strlen path;
        new_path1 \<leftarrow>
          (if len > 1 then do { c \<leftarrow> rd new_path (len - 1);
                                if c = 47 then wr new_path (len - 1) 0 else Some new_path }
           else Some new_path);
        chdir_to fuel new_path1 k })"

definition getcwd_syscall :: "bytes \<Rightarrow> nat \<Rightarrow> kfiles \<Rightarrow> bytes option" where
  "getcwd_syscall buf sz k = strncpy buf (k_cwd k) sz"

section \<open>Positions\<close>

definition llseek_generic :: "file_object \<Rightarrow> u64 \<Rightarrow> int \<Rightarrow> (int + u64) \<times> file_object" where
  "llseek_generic f off whence =
     (if whence = 0 then (Inr off, f\<lparr>file_offset := off\<rparr>)
      else if whence = 1 then (Inr (file_offset f + off), f\<lparr>file_offset := file_offset f + off\<rparr>)
      else if whence = 2 then (Inl (- ENOSYS), f)
      else (Inl (- EINVAL), f))"

definition llseek_syscall :: "nat \<Rightarrow> u64 \<Rightarrow> int \<Rightarrow> kfiles \<Rightarrow> ((int + u64) \<times> kfiles) option" where
  "llseek_syscall fd off whence k = do {
     r \<leftarrow> map_fd_to_file fd k;
     (case r of Inl e \<Rightarrow> Some (Inl e, k)
      | Inr j \<Rightarrow> do {
          (f, i, ino) \<leftarrow> file_get j k;
          let mode = i_mode ino AND S_IFMT;
          if mode = S_IFBLK \<or> mode = S_IFREG then
            if mode = S_IFREG \<and> file_ops f = No_File_Ops then None
            else let (res, f1) = llseek_generic f off whence in Some (res, file_set j f1 k)
          else if mode = S_IFCHR then Some (Inr 0, k)
          else if mode = S_IFDIR then Some (Inl (- EISDIR), k)
          else Some (Inl (- EINVAL), k) }) }"

section \<open>The remaining calls\<close>

definition file_special :: "nat \<Rightarrow> kfiles \<Rightarrow> (nat \<times> kfiles) option" where
  "file_special which k =
     (case inode_allocate (k_vfs k) of
        (None, _) \<Rightarrow> None
      | (Some i, v1) \<Rightarrow> do {
          ino \<leftarrow> ino_get i v1;
          f \<leftarrow> rd (file_objects k) which;
          let ino1 = ino\<lparr>i_number := of_nat which, i_count := 1, i_hard_links := 1, i_uid := 0, i_gid := 0,
                         i_device := CONSOLE_MAJOR * 65536, i_mode := S_IFCHR OR 0x1b6\<rparr>;
          let f1 = f\<lparr>file_count := 1, file_inode := Some i\<rparr>;
          let f2 = (if which = 0 then f1\<lparr>file_flags := O_RDONLY\<rparr>
                    else if which = 1 \<or> which = 2 then f1\<lparr>file_flags := O_WRONLY\<rparr> else f1);
          Some (which, file_set which f2 (k\<lparr>k_vfs := ino_set i ino1 v1\<rparr>)) })"

definition ftruncate64_syscall :: "nat \<Rightarrow> nat \<Rightarrow> nat \<Rightarrow> kfiles \<Rightarrow> (int \<times> kfiles) option" where
  "ftruncate64_syscall fuel fd sz k = do {
     r \<leftarrow> map_fd_to_file fd k;
     (case r of Inl e \<Rightarrow> Some (e, k)
      | Inr j \<Rightarrow> do {
          f \<leftarrow> rd (file_objects k) j;
          if file_flags f AND O_RW_MASK = O_RDONLY then Some (- EBADF, k)
          else do {
            i \<leftarrow> file_inode f;
            (n, v1) \<leftarrow> truncate_inode fuel i sz (k_vfs k);
            Some (n, k\<lparr>k_vfs := v1\<rparr>) } }) }"

definition fcntl_syscall :: "nat \<Rightarrow> int \<Rightarrow> u32 \<Rightarrow> kfiles \<Rightarrow> ((int + u32) \<times> kfiles) option" where
  "fcntl_syscall fd cmd third k = do {
     r \<leftarrow> map_fd_to_file fd k;
     (case r of Inl e \<Rightarrow> Some (Inl e, k)
      | Inr j \<Rightarrow> do {
          f \<leftarrow> rd (file_objects k) j;
          Some (if cmd = 3 then (Inr (file_flags f), k)
                else if cmd = 4 then (Inl 0, file_set j (f\<lparr>file_flags := third\<rparr>) k)
                else (Inl (- ENOSYS), k)) }) }"

definition ioctl_syscall :: "char_table \<Rightarrow> nat \<Rightarrow> nat \<Rightarrow> nat \<Rightarrow> nat \<Rightarrow> kfiles \<Rightarrow> int outcome option" where
  "ioctl_syscall ct fd cmd third fourth k = do {
     r \<leftarrow> map_fd_to_file fd k;
     (case r of Inl e \<Rightarrow> Some (Done e)
      | Inr j \<Rightarrow> do {
          (f, i, ino) \<leftarrow> file_get j k;
          let mode = i_mode ino AND S_IFMT;
          if mode = S_IFBLK then do {
            n \<leftarrow> block_dev_lookup (i_device ino) (k_fs k);
            d \<leftarrow> rd (block_devs (k_fs k)) n;
            (case bd_ops d of No_Block_Ops \<Rightarrow> None | Ramdisk_Ops \<Rightarrow> Some (Done (ramdisk_ioctl d cmd third fourth))) }
          else if mode = S_IFCHR then
            Some (case char_dev_lookup (i_device ino) ct of None \<Rightarrow> Done (- ENOTTY) | Some dev \<Rightarrow> To_Char dev j)
          else Some (Done (- ENOTTY)) }) }"

text \<open>\<open>newfd\<close> is used as an index before any test of its range.\<close>

definition dup2_syscall :: "nat \<Rightarrow> nat \<Rightarrow> nat \<Rightarrow> kfiles \<Rightarrow> (int \<times> kfiles) option" where
  "dup2_syscall fuel oldfd newfd k = do {
     p \<leftarrow> rd (k_fds k) newfd;
     (early, k1) \<leftarrow>
       (case p of None \<Rightarrow> Some (None, k)
        | Some _ \<Rightarrow> do {
            r \<leftarrow> map_fd_to_file newfd k;
            (case r of Inl e \<Rightarrow> Some (Some e, k)
             | Inr j \<Rightarrow> do { (_, k1) \<leftarrow> file_object_free fuel j k; Some (None, k1) }) });
     (case early of Some e \<Rightarrow> Some (e, k1)
      | None \<Rightarrow> do {
          r \<leftarrow> map_fd_to_file oldfd k1;
          (case r of Inl e \<Rightarrow> Some (e, k1)
           | Inr j \<Rightarrow> do {
               k2 \<leftarrow> files_increment_count j k1;
               Some (0, k2\<lparr>k_fds := (k_fds k2)[newfd := Some j]\<rparr>) }) }) }"

section \<open>Descriptors and file objects\<close>

text \<open>
  Every descriptor of the process refers to a file object in use, and a file object counts at least
  the descriptors that refer to it, of this process and, in the list \<open>others\<close>, of the other ones.
\<close>

definition tab_ok :: "nat option list \<Rightarrow> nat option list \<Rightarrow> nat list \<Rightarrow> bool" where
  "tab_ok others fds counts \<longleftrightarrow> length fds = MAX_FD_PER_PROC
     \<and> (\<forall>j. Some j \<in> set (fds @ others) \<longrightarrow> j < length counts)
     \<and> (\<forall>j < length counts. count_list (fds @ others) (Some j) \<le> counts ! j)"

definition fds_with :: "nat option list \<Rightarrow> kfiles \<Rightarrow> bool" where
  "fds_with others k \<longleftrightarrow> tab_ok others (k_fds k) (map file_count (file_objects k))"

abbreviation fds_ok :: "kfiles \<Rightarrow> bool" where
  "fds_ok \<equiv> fds_with []"

definition same_files :: "kfiles \<Rightarrow> kfiles \<Rightarrow> bool" where
  "same_files k k' \<longleftrightarrow> map file_count (file_objects k') = map file_count (file_objects k) \<and> k_fds k' = k_fds k"

lemma same_files_refl [simp]: "same_files k k"
  by (simp add: same_files_def)

lemma same_files_trans: "same_files k k' \<Longrightarrow> same_files k' k'' \<Longrightarrow> same_files k k''"
  by (simp add: same_files_def)

lemma same_files_vfs [simp]: "same_files k (k'\<lparr>k_vfs := v\<rparr>) = same_files k k'"
  by (simp add: same_files_def)

lemma same_files_fs [simp]: "same_files k (set_fs fs k') = same_files k k'"
  by (simp add: set_fs_def)

lemma same_files_cwd [simp]: "same_files k (k'\<lparr>k_cwd := c\<rparr>) = same_files k k'"
  by (simp add: same_files_def)

lemma same_files_set:
  "rd (file_objects k) j = Some f \<Longrightarrow> file_count f' = file_count f \<Longrightarrow> same_files k (file_set j f' k)"
  by (auto simp: same_files_def file_set_def rd_Some_iff map_update intro: list_update_same_conv[THEN iffD2])

lemma same_files_set_vfs:
  "rd (file_objects k) j = Some f \<Longrightarrow> file_count f' = file_count f \<Longrightarrow> same_files k (file_set j f' (k\<lparr>k_vfs := v\<rparr>))"
  using same_files_set[of k j f f'] by (simp add: same_files_def file_set_def)

lemma fds_ok_same: "same_files k k' \<Longrightarrow> fds_with others k \<Longrightarrow> fds_with others k'"
  by (simp add: same_files_def fds_with_def)

lemma count_list_update:
  "i < length xs \<Longrightarrow> count_list (xs[i := y]) x + (if xs ! i = x then 1 else 0) = count_list xs x + (if y = x then 1 else 0)"
proof (induction xs arbitrary: i)
  case (Cons a xs)
  show ?case
  proof (cases i)
    case (Suc m)
    then show ?thesis using Cons.IH[of m] Cons.prems by (cases "a = x"; cases "xs ! m = x"; cases "y = x") simp_all
  qed (use Cons.prems in auto)
qed simp

lemma tab_ok_close:
  assumes "tab_ok others fds cs" "fd < length fds" "fds ! fd = Some j"
  shows "tab_ok others (fds[fd := None]) (cs[j := cs ! j - 1])"
  unfolding tab_ok_def
proof (intro conjI allI impI)
  have ok: "length fds = 8" "\<And>i. Some i \<in> set (fds @ others) \<Longrightarrow> i < length cs" "\<And>i. i < length cs \<Longrightarrow> count_list (fds @ others) (Some i) \<le> cs ! i"
    using assms(1) by (auto simp: tab_ok_def)
  show "length (fds[fd := None]) = 8" using ok(1) by simp
  fix i
  show "Some i \<in> set (fds[fd := None] @ others) \<Longrightarrow> i < length (cs[j := cs ! j - 1])"
    using ok(2) set_update_subset_insert[of fds fd None] by auto
  show "i < length (cs[j := cs ! j - 1]) \<Longrightarrow> count_list (fds[fd := None] @ others) (Some i) \<le> cs[j := cs ! j - 1] ! i"
    using ok(3)[of i] count_list_update[OF assms(2), of None "Some i"] assms(3)
    by (cases "i = j") (simp_all add: nth_list_update)
qed

lemma tab_ok_open:
  assumes "tab_ok others fds cs" "fd < length fds" "fds ! fd = None" "j < length cs"
  shows "tab_ok others (fds[fd := Some j]) (cs[j := cs ! j + 1])"
  unfolding tab_ok_def
proof (intro conjI allI impI)
  have ok: "length fds = 8" "\<And>i. Some i \<in> set (fds @ others) \<Longrightarrow> i < length cs" "\<And>i. i < length cs \<Longrightarrow> count_list (fds @ others) (Some i) \<le> cs ! i"
    using assms(1) by (auto simp: tab_ok_def)
  show "length (fds[fd := Some j]) = 8" using ok(1) by simp
  fix i
  show "Some i \<in> set (fds[fd := Some j] @ others) \<Longrightarrow> i < length (cs[j := cs ! j + 1])"
    using ok(2) assms(4) set_update_subset_insert[of fds fd "Some j"] by auto
  show "i < length (cs[j := cs ! j + 1]) \<Longrightarrow> count_list (fds[fd := Some j] @ others) (Some i) \<le> cs[j := cs ! j + 1] ! i"
    using ok(3)[of i] count_list_update[OF assms(2), of "Some j" "Some i"] assms(3) by (auto simp: nth_list_update)
qed

text \<open>What the descriptor of an open file is.\<close>

lemma map_fd_Inr:
  assumes "map_fd_to_file fd k = Some (Inr j)"
  shows "fd < MAX_FD_PER_PROC" "fd < length (k_fds k)" "k_fds k ! fd = Some j" "j < length (file_objects k)"
    "file_count (file_objects k ! j) \<noteq> 0"
  using assms
  by (auto simp: map_fd_to_file_def rd_def split: if_splits option.splits bind_splits)

text \<open>Dropping and taking one reference.\<close>

lemma file_object_free_eq:
  "yields (\<lambda>(r, k'). r = 0 \<and> k_fds k' = k_fds k \<and> j < length (file_objects k) \<and>
      map file_count (file_objects k') = (map file_count (file_objects k))[j := file_count (file_objects k ! j) - 1])
    (file_object_free fuel j k)"
  unfolding file_object_free_def
  by (intro yields_intros)
    (auto simp: file_set_def rd_Some_iff map_update intro: list_update_same_conv[THEN iffD2, symmetric])

lemma files_increment_count_eq:
  "yields (\<lambda>k'. k_fds k' = k_fds k \<and> j < length (file_objects k) \<and>
      map file_count (file_objects k') = (map file_count (file_objects k))[j := file_count (file_objects k ! j) + 1])
    (files_increment_count j k)"
  unfolding files_increment_count_def
  by (intro yields_intros) (auto simp: file_set_def rd_Some_iff map_update)

section \<open>The calls keep the descriptors in order\<close>

lemma close_fds:
  assumes "fds_with others k"
  shows "yields (\<lambda>(r, k'). fds_with others k') (close_syscall fuel fd k)"
proof -
  have close: "yields (\<lambda>(r, k'). fds_with others k') (do {
          (result, k1) \<leftarrow> file_object_free fuel j k;
          Some (result, k1\<lparr>k_fds := (k_fds k1)[fd := None]\<rparr>) })"
    if m: "map_fd_to_file fd k = Some (Inr j)" for j
    by (rule yields_bind[OF file_object_free_eq])
      (use assms map_fd_Inr[OF m] tab_ok_close[OF _ map_fd_Inr(2,3)[OF m], where cs = "map file_count (file_objects k)"]
        in \<open>auto simp: fds_with_def intro!: yields_SomeI\<close>)
  show ?thesis
    unfolding close_syscall_def
    by (intro yields_bindI yields_sum) (use assms close in \<open>auto intro: yields_SomeI\<close>)
qed

lemma file_object_allocate_eq:
  "file_object_allocate i k = (r, k') \<Longrightarrow> k_fds k' = k_fds k \<and>
     (case r of Inl e \<Rightarrow> k' = k | Inr j \<Rightarrow> j < length (file_objects k) \<and> file_count (file_objects k ! j) = 0
        \<and> map file_count (file_objects k') = (map file_count (file_objects k))[j := file_count (file_objects k ! j) + 1])"
  by (auto simp: file_object_allocate_def file_set_def index_of_Some_iff map_update split: option.splits)

definition opened :: "kfiles \<Rightarrow> (int + nat) \<times> kfiles \<Rightarrow> bool" where
  "opened k = (\<lambda>(r, k'). k_fds k' = k_fds k \<and>
     (case r of Inl e \<Rightarrow> map file_count (file_objects k') = map file_count (file_objects k)
      | Inr j \<Rightarrow> j < length (file_objects k)
          \<and> map file_count (file_objects k') = (map file_count (file_objects k))[j := file_count (file_objects k ! j) + 1]))"

lemma open_inode_opened: "yields (opened k) (open_inode fuel i flags k)"
proof (cases "file_object_allocate i k")
  case (Pair r k1)
  note a = file_object_allocate_eq[OF Pair]
  show ?thesis
  proof (cases r)
    case (Inl e)
    then show ?thesis using Pair a by (simp add: open_inode_def opened_def)
  next
    case (Inr j)
    have set: "map file_count (file_objects (file_set j f2 k2)) = map file_count (file_objects k1)"
      if "rd (file_objects k1) j = Some f" "file_count f2 = file_count f" "file_objects k2 = file_objects k1" for f f2 k2
      using that by (auto simp: file_set_def rd_Some_iff map_update intro: list_update_same_conv[THEN iffD2])
    show ?thesis
      unfolding open_inode_def Pair Inr prod.case sum.case Let_def
      by (intro yields_bindI yields_prod yields_SomeI)
        (use a Inr in \<open>auto simp: opened_def file_set_def set[unfolded file_set_def, simplified] cong: if_cong\<close>)
  qed
qed

lemma create_file_object_same: "yields (\<lambda>(r, k'). same_files k k') (create_file_object fuel pathname k)"
  unfolding create_file_object_def Let_def
  by (intro yields_intros) simp_all

lemma opened_same: "same_files k k' \<Longrightarrow> opened k' x \<Longrightarrow> opened k x"
  unfolding same_files_def opened_def
  by (auto split: sum.splits) (metis length_map nth_map)+

lemma open_file_object_opened: "yields (opened k) (open_file_object fuel pathname flags k)"
proof -
  have lookup: "yields (opened k) (open_inode fuel i flags (k\<lparr>k_vfs := v1\<rparr>))" for v1 i
    by (rule yields_mono[OF open_inode_opened]) (erule opened_same[rotated], simp)
  have create: "yields (opened k) (do { (r2, k2) \<leftarrow> create_file_object fuel pathname (k\<lparr>k_vfs := v1\<rparr>);
            (case r2 of Inl e \<Rightarrow> Some (Inl e, k2) | Inr i \<Rightarrow> open_inode fuel i flags k2) })" for v1
  proof (rule yields_bind[OF create_file_object_same], clarify)
    fix r2 k2 assume "same_files (k\<lparr>k_vfs := v1\<rparr>) k2"
    then have s: "same_files k k2" by (simp add: same_files_def)
    show "yields (opened k) (case r2 of Inl e \<Rightarrow> Some (Inl e, k2) | Inr i \<Rightarrow> open_inode fuel i flags k2)"
    proof (cases r2)
      case (Inl e)
      then show ?thesis using s by (simp add: opened_def same_files_def yields_SomeI)
    next
      case (Inr i)
      then show ?thesis by (simp add: yields_mono[OF open_inode_opened opened_same[OF s]])
    qed
  qed
  show ?thesis
    unfolding open_file_object_def Let_def
  proof (intro yields_bindI, clarsimp, goal_cases)
    case (1 r v1)
    show ?case
      using lookup[of _ v1] create[of v1]
      by (cases r) (auto simp: opened_def intro!: yields_SomeI)
  qed
qed

lemma open_fds:
  assumes "fds_with others k"
  shows "yields (\<lambda>(r, k'). fds_with others k') (open_syscall fuel pathname flags k)"
proof (cases "index_of (\<lambda>p. p = None) (k_fds k)")
  case None
  then show ?thesis using assms by (simp add: open_syscall_def yields_SomeI)
next
  case (Some fd)
  then have f: "fd < length (k_fds k)" "k_fds k ! fd = None" by (simp_all add: index_of_Some_iff)
  show ?thesis
    unfolding open_syscall_def Some option.case
  proof (rule yields_bind[OF open_file_object_opened], clarify)
    fix r k1 assume "opened k (r, k1)"
    then show "yields (\<lambda>(r, k'). fds_with others k')
          (Some (case r of Inl e \<Rightarrow> (e, k1) | Inr j \<Rightarrow> (int fd, k1\<lparr>k_fds := (k_fds k1)[fd := Some j]\<rparr>)))"
      using assms tab_ok_open[OF _ f, where cs = "map file_count (file_objects k)"]
      by (cases r) (auto simp: opened_def fds_with_def intro!: yields_SomeI)
  qed
qed

text \<open>The calls that take no reference.\<close>

lemma file_get_iff: "file_get j k = Some (f, i, ino) \<longleftrightarrow>
    rd (file_objects k) j = Some f \<and> file_inode f = Some i \<and> ino_get i (k_vfs k) = Some ino"
  by (auto simp: file_get_def split: bind_splits)

lemma read_same: "yields (\<lambda>(r, k'). same_files k k') (read_syscall fuel ct fd n k)"
  unfolding read_syscall_def Let_def
  by (intro yields_intros) (auto simp: file_get_iff intro: same_files_set)

lemma write_same: "yields (\<lambda>(r, k'). same_files k k') (write_syscall fuel ct fd buf n k)"
  unfolding write_syscall_def Let_def
  by (intro yields_intros) (auto simp: file_get_iff intro: same_files_set_vfs)

lemma getdents_same: "yields (\<lambda>(r, out, k'). same_files k k') (getdents_syscall fuel fd n k)"
  unfolding getdents_syscall_def
  by (intro yields_intros) (auto intro: same_files_set)

lemma chdir_same: "yields (\<lambda>(r, k'). same_files k k') (chdir_syscall fuel path k)"
  unfolding chdir_syscall_def chdir_to_def Let_def
  by (intro yields_intros) (simp_all add: same_files_def)

lemma llseek_same: "yields (\<lambda>(r, k'). same_files k k') (llseek_syscall fd off whence k)"
  unfolding llseek_syscall_def Let_def
  by (intro yields_intros) (auto intro: same_files_set simp: file_get_iff llseek_generic_def split: if_splits)

lemma ftruncate_same: "yields (\<lambda>(r, k'). same_files k k') (ftruncate64_syscall fuel fd sz k)"
  unfolding ftruncate64_syscall_def
  by (intro yields_intros) simp_all

lemma fcntl_same: "yields (\<lambda>(r, k'). same_files k k') (fcntl_syscall fd cmd third k)"
  unfolding fcntl_syscall_def
  by (intro yields_intros) (auto intro: same_files_set)

text \<open>\<open>dup2\<close> of an open descriptor onto another one.\<close>

lemma fds_ok_valid:
  assumes "fds_with others k" "fd < length (k_fds k)" "k_fds k ! fd = Some j"
  shows "map_fd_to_file fd k = Some (Inr j)" "fd < MAX_FD_PER_PROC" "j < length (file_objects k)"
proof -
  have j: "j < length (file_objects k)" "fd < 8" "length (k_fds k) = 8"
    using assms by (auto simp: fds_with_def tab_ok_def) (metis nth_mem)
  have "count_list (k_fds k) (Some j) \<noteq> 0"
    using assms(2,3) nth_mem[of fd "k_fds k"] by (simp add: count_list_0_iff)
  then have "file_count (file_objects k ! j) \<noteq> 0"
    using assms(1) j(1) by (force simp: fds_with_def tab_ok_def)
  then show "map_fd_to_file fd k = Some (Inr j)" "fd < MAX_FD_PER_PROC" "j < length (file_objects k)"
    using j assms(2,3) by (simp_all add: map_fd_to_file_def)
qed

lemma tab_ok_dup:
  assumes "tab_ok others fds cs" "fd < length fds" "j < length cs"
    "cs' = (case fds ! fd of None \<Rightarrow> cs | Some i \<Rightarrow> cs[i := cs ! i - 1])"
  shows "tab_ok others (fds[fd := Some j]) (cs'[j := cs' ! j + 1])"
proof (cases "fds ! fd")
  case None
  then show ?thesis using assms tab_ok_open by simp
next
  case (Some i)
  then have "tab_ok others (fds[fd := None]) (cs[i := cs ! i - 1])" using tab_ok_close[OF assms(1,2)] by simp
  then have "tab_ok others (fds[fd := None, fd := Some j]) (cs'[j := cs' ! j + 1])"
    using tab_ok_open[of others "fds[fd := None]" _ fd j] assms Some by simp
  then show ?thesis by simp
qed

text \<open>Onto an open descriptor.\<close>

lemma dup2_open:
  assumes "fds_with others k" "newfd < length (k_fds k)" "k_fds k ! newfd = Some j"
  shows "dup2_syscall fuel oldfd newfd k = do {
    (_, k1) \<leftarrow> file_object_free fuel j k;
    r \<leftarrow> map_fd_to_file oldfd k1;
    (case r of Inl e \<Rightarrow> Some (e, k1)
     | Inr j \<Rightarrow> do { k2 \<leftarrow> files_increment_count j k1; Some (0, k2\<lparr>k_fds := (k_fds k2)[newfd := Some j]\<rparr>) }) }"
  unfolding dup2_syscall_def using assms(2,3) fds_ok_valid(1)[OF assms]
  by (cases "file_object_free fuel j k") (simp_all split: prod.splits)

lemma dup2_fds:
  assumes "fds_with others k" "oldfd < length (k_fds k)" "k_fds k ! oldfd \<noteq> None" "oldfd \<noteq> newfd"
  shows "yields (\<lambda>(r, k'). fds_with others k') (dup2_syscall fuel oldfd newfd k)"
proof -
  let ?cs = "\<lambda>k :: kfiles. map file_count (file_objects k)"
  obtain i where i: "k_fds k ! oldfd = Some i" using assms(3) by blast
  have incr: "yields (\<lambda>(r, k'). fds_with others k') (do { k2 \<leftarrow> files_increment_count j k1; Some (0::int, k2\<lparr>k_fds := (k_fds k2)[newfd := Some j]\<rparr>) })"
    if n: "newfd < length (k_fds k)" and k1: "k_fds k1 = k_fds k"
      "?cs k1 = (case k_fds k ! newfd of None \<Rightarrow> ?cs k | Some i \<Rightarrow> (?cs k)[i := ?cs k ! i - 1])" for j k1
  proof (rule yields_bind[OF files_increment_count_eq], clarify, rule yields_SomeI, clarify)
    fix k2 :: kfiles assume k2: "k_fds k2 = k_fds k1" "j < length (file_objects k1)"
      "?cs k2 = (?cs k1)[j := file_count (file_objects k1 ! j) + 1]"
    have "length (?cs k1) = length (?cs k)" by (simp only: k1(2)) (simp split: option.split)
    then have l: "j < length (?cs k)" using k2(2) by simp
    have "tab_ok others (k_fds k) (?cs k)" using assms(1) by (simp add: fds_with_def)
    from tab_ok_dup[OF this n l k1(2)] show "fds_with others (k2\<lparr>k_fds := (k_fds k2)[newfd := Some j]\<rparr>)"
      using k2 k1(1) by (simp add: fds_with_def)
  qed
  have old: "\<exists>j. map_fd_to_file oldfd k1 = Some (Inr j)" if "k_fds k1 = k_fds k" "?cs k1 = (?cs k)[j := ?cs k ! j - 1]"
    "newfd < length (k_fds k)" "k_fds k ! newfd = Some j" for k1 j
  proof -
    have ok: "tab_ok others ((k_fds k)[newfd := None]) (?cs k1)"
      using tab_ok_close[of others "k_fds k" "?cs k" newfd j] assms(1) that by (simp add: fds_with_def)
    then have "fds_with others (k1\<lparr>k_fds := (k_fds k)[newfd := None]\<rparr>)" by (simp add: fds_with_def)
    from fds_ok_valid(1)[OF this, of oldfd i] show ?thesis
      using assms(2,4) i that(1) by (auto simp: map_fd_to_file_def)
  qed
  show ?thesis
  proof (cases "newfd < length (k_fds k)")
    case n: True
    show ?thesis
    proof (cases "k_fds k ! newfd")
      case None
      then have "dup2_syscall fuel oldfd newfd k
          = do { k2 \<leftarrow> files_increment_count i k; Some (0, k2\<lparr>k_fds := (k_fds k2)[newfd := Some i]\<rparr>) }"
        using n fds_ok_valid(1)[OF assms(1,2) i] by (simp add: dup2_syscall_def)
      then show ?thesis using incr[OF n, of k] None by simp
    next
      case (Some j)
      note v = fds_ok_valid[OF assms(1) n Some]
      show ?thesis unfolding dup2_open[OF assms(1) n Some]
      proof (rule yields_bind[OF file_object_free_eq], clarify)
        fix r k1
        assume k1: "k_fds k1 = k_fds k" "?cs k1 = (?cs k)[j := file_count (file_objects k ! j) - 1]"
        then have cs: "?cs k1 = (?cs k)[j := ?cs k ! j - 1]" using v(3) by simp
        obtain l where l: "map_fd_to_file oldfd k1 = Some (Inr l)" using old[OF k1(1) cs n Some] by blast
        show "yields (\<lambda>(r, k'). fds_with others k') (map_fd_to_file oldfd k1 \<bind> (\<lambda>r. case r of Inl e \<Rightarrow> Some (e, k1)
           | Inr j \<Rightarrow> do { k2 \<leftarrow> files_increment_count j k1; Some (0, k2\<lparr>k_fds := (k_fds k2)[newfd := Some j]\<rparr>) }))"
          unfolding l bind.bind_lunit sum.case by (rule incr[OF n k1(1)]) (simp only: cs Some option.case)
      qed
    qed
  qed (simp add: dup2_syscall_def rd_def)
qed

text \<open>
  What a caller of \<open>dup2\<close> must see to, as the code closes the second descriptor before it looks at the first: onto an open descriptor it duplicates
  an open one, and onto itself only a descriptor whose file object has other users.
\<close>

definition dup2_careful :: "nat \<Rightarrow> nat \<Rightarrow> kfiles \<Rightarrow> bool" where
  "dup2_careful oldfd newfd k =
     (if newfd < length (k_fds k)
      then (case k_fds k ! newfd of None \<Rightarrow> True
            | Some j \<Rightarrow> oldfd < length (k_fds k) \<and> k_fds k ! oldfd \<noteq> None \<and> (oldfd \<noteq> newfd \<or> 1 < file_count (file_objects k ! j)))
      else True)"

lemma dup2_onto_free:
  assumes "fds_with others k" "newfd < length (k_fds k)" "k_fds k ! newfd = None" "k_fds k ! oldfd = None \<or> length (k_fds k) \<le> oldfd"
  shows "dup2_syscall fuel oldfd newfd k = Some (- ENFILE, k)"
proof -
  have "length (k_fds k) = 8" using assms(1) by (simp add: fds_with_def tab_ok_def)
  then have "map_fd_to_file oldfd k = Some (Inl (- ENFILE))" using assms(4) by (auto simp: map_fd_to_file_def)
  then show ?thesis using assms(2,3) by (simp add: dup2_syscall_def)
qed

lemma dup2_self_fds:
  assumes "fds_with others k" "fd < length (k_fds k)" "k_fds k ! fd = Some j" "1 < file_count (file_objects k ! j)"
  shows "yields (\<lambda>(r, k'). fds_with others k') (dup2_syscall fuel fd fd k)"
  unfolding dup2_open[OF assms(1-3)]
proof (rule yields_bind[OF file_object_free_eq], clarify)
  let ?cs = "\<lambda>k :: kfiles. map file_count (file_objects k)"
  fix r k1
  assume k1: "k_fds k1 = k_fds k" "?cs k1 = (?cs k)[j := file_count (file_objects k ! j) - 1]"
  have j: "j < length (file_objects k)" "fd < 8" using fds_ok_valid[OF assms(1-3)] by simp_all
  then have l: "j < length (file_objects k1)" and n: "file_count (file_objects k1 ! j) = file_count (file_objects k ! j) - 1"
    using arg_cong[OF k1(2), of length] arg_cong[OF k1(2), of "\<lambda>xs. xs ! j"] by simp_all
  have m: "map_fd_to_file fd k1 = Some (Inr j)" using l n j(2) assms(2-4) k1(1) by (simp add: map_fd_to_file_def)
  have "yields (\<lambda>(r, k'). fds_with others k') (do { k2 \<leftarrow> files_increment_count j k1; Some (0 :: int, k2\<lparr>k_fds := (k_fds k2)[fd := Some j]\<rparr>) })"
  proof (rule yields_bind[OF files_increment_count_eq], clarify, rule yields_SomeI, clarify)
    fix k2 :: kfiles assume k2: "k_fds k2 = k_fds k1" "?cs k2 = (?cs k1)[j := file_count (file_objects k1 ! j) + 1]"
    have "?cs k2 = ?cs k" unfolding k2(2) k1(2) n using j assms(4) by (simp add: list_update_same_conv)
    moreover have "(k_fds k2)[fd := Some j] = k_fds k" unfolding k2(1) k1(1) using assms(2,3) by (simp add: list_update_same_conv)
    ultimately show "fds_with others (k2\<lparr>k_fds := (k_fds k2)[fd := Some j]\<rparr>)" using assms(1) by (simp add: fds_with_def)
  qed
  then show "yields (\<lambda>(r, k'). fds_with others k') (map_fd_to_file fd k1 \<bind> (\<lambda>r. case r of Inl e \<Rightarrow> Some (e, k1)
       | Inr j \<Rightarrow> do { k2 \<leftarrow> files_increment_count j k1; Some (0, k2\<lparr>k_fds := (k_fds k2)[fd := Some j]\<rparr>) }))"
    unfolding m bind.bind_lunit sum.case .
qed

lemma dup2_careful_fds:
  assumes "fds_with others k" "dup2_careful oldfd newfd k"
  shows "yields (\<lambda>(r, k'). fds_with others k') (dup2_syscall fuel oldfd newfd k)"
proof (cases "newfd < length (k_fds k)")
  case n: True
  show ?thesis
  proof (cases "oldfd < length (k_fds k) \<and> k_fds k ! oldfd \<noteq> None")
    case False
    then have "k_fds k ! newfd = None" using assms(2) n by (auto simp: dup2_careful_def split: option.splits)
    then show ?thesis using dup2_onto_free[OF assms(1) n] False assms(1) by auto
  next
    case True
    show ?thesis
    proof (cases "oldfd = newfd")
      case False
      then show ?thesis using dup2_fds[OF assms(1)] True by blast
    next
      case same: True
      then obtain j where "k_fds k ! newfd = Some j" "1 < file_count (file_objects k ! j)"
        using assms(2) n True by (auto simp: dup2_careful_def)
      then show ?thesis using dup2_self_fds[OF assms(1) n] same by simp
    qed
  qed
qed (simp add: dup2_syscall_def rd_def)

text \<open>Otherwise the file object of the second descriptor loses one of its users, and the descriptor stays.\<close>

lemma dup2_careless:
  assumes "fds_with others k" "\<not> dup2_careful oldfd newfd k" "dup2_syscall fuel oldfd newfd k = Some (r, k')"
  shows "\<exists>j. Some j \<in> set (k_fds k) \<and> j < length (file_objects k) \<and> k_fds k' = k_fds k
    \<and> map file_count (file_objects k') = (map file_count (file_objects k))[j := file_count (file_objects k ! j) - 1]"
proof -
  let ?cs = "\<lambda>k :: kfiles. map file_count (file_objects k)"
  obtain j where j: "newfd < length (k_fds k)" "k_fds k ! newfd = Some j"
    and old: "length (k_fds k) \<le> oldfd \<or> k_fds k ! oldfd = None \<or> oldfd = newfd \<and> file_count (file_objects k ! j) \<le> 1"
    using assms(2) by (auto simp: dup2_careful_def split: if_splits option.splits)
  note v = fds_ok_valid[OF assms(1) j]
  obtain r1 k1 where f: "file_object_free fuel j k = Some (r1, k1)"
    using assms(3) unfolding dup2_open[OF assms(1) j] by (auto simp: bind_eq_Some_conv)
  from yieldsD[OF file_object_free_eq f] have k1: "k_fds k1 = k_fds k" "?cs k1 = (?cs k)[j := file_count (file_objects k ! j) - 1]" by auto
  have l: "length (k_fds k) = 8" using assms(1) by (simp add: fds_with_def tab_ok_def)
  have n: "j < length (file_objects k1)" "file_count (file_objects k1 ! j) = file_count (file_objects k ! j) - 1"
    using v(3) arg_cong[OF k1(2), of length] arg_cong[OF k1(2), of "\<lambda>xs. xs ! j"] by simp_all
  have "\<exists>e. map_fd_to_file oldfd k1 = Some (Inl e)"
    using old l n k1(1) j by (auto simp: map_fd_to_file_def)
  then have "k' = k1" using assms(3) f unfolding dup2_open[OF assms(1) j] by auto
  then show ?thesis using k1 v(3) j nth_mem[OF j(1)] by auto
qed

section \<open>Sequences of calls\<close>

text \<open>One system call of the process on its descriptors; \<open>dup2\<close> is called as above.\<close>

inductive file_call :: "nat \<Rightarrow> char_table \<Rightarrow> kfiles \<Rightarrow> kfiles \<Rightarrow> bool" for fuel ct where
  call_open: "open_syscall fuel pathname flags k = Some (r, k') \<Longrightarrow> file_call fuel ct k k'"
| call_close: "close_syscall fuel fd k = Some (r, k') \<Longrightarrow> file_call fuel ct k k'"
| call_read: "read_syscall fuel ct fd n k = Some (x, k') \<Longrightarrow> file_call fuel ct k k'"
| call_write: "write_syscall fuel ct fd buf n k = Some (x, k') \<Longrightarrow> file_call fuel ct k k'"
| call_getdents: "getdents_syscall fuel fd m k = Some (r, out, k') \<Longrightarrow> file_call fuel ct k k'"
| call_chdir: "chdir_syscall fuel pathname k = Some (r, k') \<Longrightarrow> file_call fuel ct k k'"
| call_llseek: "llseek_syscall fd off whence k = Some (pos, k') \<Longrightarrow> file_call fuel ct k k'"
| call_ftruncate: "ftruncate64_syscall fuel fd m k = Some (r, k') \<Longrightarrow> file_call fuel ct k k'"
| call_fcntl: "fcntl_syscall fd cmd third k = Some (x', k') \<Longrightarrow> file_call fuel ct k k'"
| call_dup2: "dup2_careful oldfd newfd k \<Longrightarrow> dup2_syscall fuel oldfd newfd k = Some (r, k') \<Longrightarrow> file_call fuel ct k k'"

lemmas calls_same = read_same write_same getdents_same chdir_same llseek_same ftruncate_same fcntl_same

lemma file_call_fds: "file_call fuel ct k k' \<Longrightarrow> fds_with others k \<Longrightarrow> fds_with others k'"
proof (induction rule: file_call.induct)
  case (call_open pathname flags k r k')
  show ?case using yieldsD[OF open_fds call_open(1)] call_open(2) by simp
next
  case (call_close fd k r k')
  show ?case using yieldsD[OF close_fds call_close(1)] call_close(2) by simp
next
  case (call_dup2 oldfd newfd k r k')
  show ?case using yieldsD[OF dup2_careful_fds call_dup2(2)] call_dup2 by simp
qed (use calls_same[THEN yieldsD] fds_ok_same in fastforce)+

lemma file_calls_fds: "(file_call fuel ct)\<^sup>*\<^sup>* k k' \<Longrightarrow> fds_with others k \<Longrightarrow> fds_with others k'"
  by (induction rule: rtranclp_induct) (auto intro: file_call_fds)

section \<open>The properties\<close>

definition demo_files :: "int \<Rightarrow> nat \<Rightarrow> kfiles" where
  "demo_files refs count = \<lparr>k_vfs = demo_vfs [inode_zero\<lparr>i_count := refs, i_hard_links := 1\<rparr>],
     file_objects = [file_zero\<lparr>file_inode := Some 0, file_count := count\<rparr>],
     k_fds = [Some 0, None, None, None, None, None, None, None], k_cwd = [47, 0]\<rparr>"

lemma demo_files_ok: "count \<noteq> 0 \<Longrightarrow> fds_ok (demo_files refs count)"
  by (simp add: fds_with_def tab_ok_def demo_files_def)

text \<open>
  Whatever sequence of calls a process makes, \<open>dup2\<close> with the care it needs, each descriptor it holds refers to a file object that
  is in use, and no file object is freed as long as a descriptor refers to it, so that no call on an
  open descriptor fails with \<open>EBADF\<close>.
\<close>

theorem fd_calls_safe:
  assumes "(file_call fuel ct)\<^sup>*\<^sup>* k k'" and "fds_ok k"
  shows "fds_ok k' \<and> (\<forall>fd j. fd < length (k_fds k') \<and> k_fds k' ! fd = Some j \<longrightarrow> map_fd_to_file fd k' = Some (Inr j))"
  using file_calls_fds[OF assms] fds_ok_valid(1) by blast

lemma fd_calls_safe_witness:
  "fds_ok ((demo_files 2 1)\<lparr>k_vfs := demo_vfs [inode_zero\<lparr>i_count := 2, i_hard_links := 1\<rparr>],
     k_fds := [None, Some 0, None, None, None, None, None, None]\<rparr>)" (is "fds_ok ?k")
proof -
  let ?k1 = "(demo_files 3 2)\<lparr>k_fds := [Some 0, Some 0, None, None, None, None, None, None]\<rparr>"
  have "dup2_syscall 1 0 1 (demo_files 2 1) = Some (0, ?k1)"
    by (simp add: dup2_syscall_def demo_files_def demo_vfs_def map_fd_to_file_def files_increment_count_def file_set_def
        ino_get_def ino_set_def file_zero_def)
  then have 1: "file_call 1 ct (demo_files 2 1) ?k1" by (rule call_dup2[rotated]) (simp add: demo_files_def dup2_careful_def)
  have "close_syscall 1 0 ?k1 = Some (0, ?k)"
    by (simp add: close_syscall_def demo_files_def demo_vfs_def map_fd_to_file_def file_object_free_def file_set_def
        inode_free_def ino_get_def ino_set_def file_zero_def)
  then have 2: "file_call 1 ct ?k1 ?k" by (rule call_close)
  from 1 2 have "(file_call 1 ct)\<^sup>*\<^sup>* (demo_files 2 1) ?k" by (blast intro: rtranclp.rtrancl_into_rtrancl)
  from fd_calls_safe[OF this demo_files_ok] show ?thesis by simp
qed

text \<open>
  \<open>dup2\<close> of a descriptor onto itself, when it is the only one of its file object, frees the object,
  fails with \<open>EBADF\<close> and leaves the descriptor pointing to the free object, which the next
  \<open>open\<close> hands out again.
\<close>

theorem dup2_itself:
  assumes "fds_ok k" and "fd < length (k_fds k)" and "k_fds k ! fd = Some j" and "file_count (file_objects k ! j) = 1"
    and "file_inode (file_objects k ! j) = Some i" and "inode_free fuel i (k_vfs k) = Some (r, v)"
  shows "\<exists>k'. dup2_syscall fuel fd fd k = Some (- EBADF, k') \<and> k_fds k' ! fd = Some j
    \<and> file_count (file_objects k' ! j) = 0 \<and> \<not> fds_ok k'"
proof -
  note v = fds_ok_valid[OF assms(1-3)]
  let ?k' = "file_set j ((file_objects k ! j)\<lparr>file_count := 0\<rparr>) (k\<lparr>k_vfs := v\<rparr>)"
  have f: "file_object_free fuel j k = Some (0, ?k')"
    using v(3) assms(4-6) by (simp add: file_object_free_def)
  have m: "map_fd_to_file fd ?k' = Some (Inl (- EBADF))"
    using v assms(2,3) by (simp add: map_fd_to_file_def file_set_def)
  have "dup2_syscall fuel fd fd k = Some (- EBADF, ?k')"
    using v(1) f m assms(2,3) by (simp add: dup2_syscall_def)
  moreover have "\<not> fds_ok ?k'"
    using fds_ok_valid(1)[of "[]" ?k' fd j] m assms(2,3) by (auto simp: file_set_def)
  ultimately show ?thesis using assms(3) v(3) by (intro exI[of _ ?k']) (simp add: file_set_def)
qed

lemma dup2_itself_witness:
  "\<exists>k'. dup2_syscall 1 0 0 (demo_files 2 1) = Some (- EBADF, k') \<and> k_fds k' ! 0 = Some 0
    \<and> file_count (file_objects k' ! 0) = 0 \<and> \<not> fds_ok k'"
proof -
  have f: "inode_free 1 0 (k_vfs (demo_files 2 1)) = Some (0, demo_vfs [inode_zero\<lparr>i_count := 1, i_hard_links := 1\<rparr>])"
    by (simp add: demo_files_def demo_vfs_def inode_free_def ino_get_def ino_set_def)
  show ?thesis
    by (rule dup2_itself[OF demo_files_ok _ _ _ _ f]) (simp_all add: demo_files_def)
qed

lemma expand_path_cong: "str_at a 0 = 47 \<Longrightarrow> str_at b 0 = 47 \<Longrightarrow> cstr a = cstr b \<Longrightarrow> expand_path cwd a = expand_path cwd b"
  by (simp add: expand_path_def strlen_cstr)

lemma chdir_to_cong:
  assumes "str_at a 0 = 47" "str_at b 0 = 47" "cstr a = cstr b"
  shows "chdir_to fuel a k = chdir_to fuel b k"
proof -
  have "inode_lookup_and_alloc fuel cwd a v = inode_lookup_and_alloc fuel cwd b v" for cwd v
    unfolding inode_lookup_and_alloc_def by (simp only: expand_path_cong[OF assms])
  moreover have "strncpy dest a n = strncpy dest b n" for dest n
    by (simp add: strncpy_def strncpy_out_eq assms(3))
  ultimately show ?thesis unfolding chdir_to_def by presburger
qed

text \<open>
  A relative \<open>chdir\<close> whose argument is one character longer than the name of the current directory
  succeeds without going there: the test for a trailing slash looks at the slash that was put
  between the two names, and the call is \<open>chdir\<close> to the current directory.
\<close>

theorem chdir_stays:
  assumes "cstr (k_cwd k) = d" and "str_at d 0 = 47" and "d = [47] \<or> last d \<noteq> 47"
    and "str_at pathname 0 \<noteq> 47" and "strlen pathname = length d + 1" and "2 * length d + 2 < MAX_PATH_LEN"
  shows "chdir_syscall fuel pathname k = chdir_syscall fuel d k"
proof -
  let ?n = "replicate MAX_PATH_LEN (0::byte)"
  have nul: "0 \<notin> set d" using assms(1) cstr_no_nul by blast
  have d: "cstr d = d" "d \<noteq> []" using nul assms(2) by (auto simp: cstr_id str_at_def)
  obtain rest l where s: "snprintf ?n MAX_PATH_LEN [37, 115, 47, 37, 115] [VStr (k_cwd k), VStr pathname]
      = Some (l, d @ 47 # cstr pathname @ 0 # rest)"
    using snprintf_path[of "k_cwd k" pathname MAX_PATH_LEN ?n] assms(1,5,6) by (auto simp: strlen_cstr)
  let ?a = "d @ 0 # cstr pathname @ 0 # rest"
  have a: "wr (d @ 47 # cstr pathname @ 0 # rest) (length d) 0 = Some ?a" by (simp only: wr_append list.case)
  have n: "strncpy ?n d MAX_PATH_LEN = Some (d @ replicate (MAX_PATH_LEN - length d) 0)"
    using assms(6) d by (simp add: strncpy_def strncpy_out_eq splice_def)
  let ?b = "d @ replicate (MAX_PATH_LEN - length d) 0"
  have c: "cstr ?a = d" "cstr ?b = d" using nul d(1) by (simp_all add: cstr_append_nul cstr_append_replicate)
  have h: "str_at ?a 0 = 47" "str_at ?b 0 = 47" using d(2) assms(2) by (simp_all add: str_at_def nth_append)
  have slash: "length d > 1 \<Longrightarrow> rd ?b (length d - 1) = Some (last d) \<and> last d \<noteq> 47"
    using d(2) assms(3) by (auto simp: rd_def nth_append last_conv_nth)
  have e: "chdir_to fuel ?a k = chdir_to fuel ?b k" by (rule chdir_to_cong[OF h]) (simp add: c)
  have "rd (d @ 47 # cstr pathname @ 0 # rest) (length d) = Some 47" by (simp add: rd_def)
  then have "chdir_syscall fuel pathname k = chdir_to fuel ?a k"
    using assms(4-6) d(2) s a by (simp add: chdir_syscall_def strlen_cstr Let_def)
  moreover have "chdir_syscall fuel d k = chdir_to fuel ?b k"
    using assms(2,6) d n slash by (cases "length d > 1") (simp_all add: chdir_syscall_def strlen_cstr Let_def)
  ultimately show ?thesis using e by simp
qed

lemma chdir_stays_witness:
  "chdir_syscall 16 [97, 98] (demo_files 2 1) = chdir_syscall 16 [47] (demo_files 2 1)"
  by (rule chdir_stays) (simp_all add: demo_files_def cstr_Cons str_at_def strlen_cstr)

section \<open>Reading a file in order\<close>

text \<open>
  What the system calls rely on of the \<open>read\<close> operation of a file: from an offset inside the file it
  delivers the bytes there and advances the offset by their number.  \<open>content x c\<close> says that the
  bytes of the file \<open>x\<close> are \<open>c\<close>.
\<close>

locale file_reader =
  fixes read_op :: "'f \<Rightarrow> u32 \<Rightarrow> u64 \<Rightarrow> (int \<times> bytes \<times> u64) option"
    and content :: "'f \<Rightarrow> bytes \<Rightarrow> bool"
  assumes read_at: "content x c \<Longrightarrow> off \<le> length c \<Longrightarrow> n < 2 ^ 31 \<Longrightarrow> out = take n (drop off c) \<Longrightarrow>
    read_op x (of_nat n) (of_nat off) = Some (int (length out), out, of_nat (off + length out))"
begin

lemma read_next:
  assumes "content x c" "off \<le> length c" "n < 2 ^ 31" "m < 2 ^ 31"
  shows "\<exists>a b p q. read_op x (of_nat n) (of_nat off) = Some (int (length a), a, p)
    \<and> read_op x (of_nat m) p = Some (int (length b), b, q) \<and> a @ b = take (n + m) (drop off c)"
proof -
  let ?a = "take n (drop off c)"
  let ?b = "take m (drop (off + length ?a) c)"
  have "?a @ ?b = take (n + m) (drop off c)"
  proof (cases "n \<le> length c - off")
    case True
    then have "length ?a = n" by simp
    then show ?thesis using take_add[of n m "drop off c"] by (simp add: add.commute[of n off])
  next
    case False
    then have "length ?a = length c - off" by simp
    then show ?thesis using False assms(2) by simp
  qed
  then show ?thesis
    using read_at[OF assms(1,2,3) refl] read_at[OF assms(1) _ assms(4) refl, of "off + length ?a"] assms(2)
    by (intro exI[of _ ?a] exI[of _ ?b] exI conjI) auto
qed

lemma read_end: "content x c \<Longrightarrow> n < 2 ^ 31 \<Longrightarrow> read_op x (of_nat n) (of_nat (length c)) = Some (0, [], of_nat (length c))"
  using read_at[of x c "length c" n "[]"] by simp

end

definition dos_read :: "nat \<times> inode \<times> fs_state \<Rightarrow> u32 \<Rightarrow> u64 \<Rightarrow> (int \<times> bytes \<times> u64) option" where
  "dos_read = (\<lambda>(fuel, ino, fs) n off. file_read fuel Dos33_File_Ops ino n off fs)"

definition dos_holds :: "nat \<times> inode \<times> fs_state \<Rightarrow> bytes \<Rightarrow> bool" where
  "dos_holds = (\<lambda>(fuel, ino, fs) c. \<exists>s type l tsl. vol_ok s fs \<and> file_at s fs ino type l tsl
     \<and> adjusted type (i_size ino) div 256 < 122
     \<and> (\<forall>j \<le> adjusted type (i_size ino) div 256. entry_ok (disk_of s fs) tsl j)
     \<and> c = take (i_size ino) (drop (adjusted type 0)
             (file_content (disk_of s fs) tsl (Suc (adjusted type (i_size ino) div 256)))))"

definition rom_read :: "nat \<times> inode \<times> fs_state \<Rightarrow> u32 \<Rightarrow> u64 \<Rightarrow> (int \<times> bytes \<times> u64) option" where
  "rom_read = (\<lambda>(fuel, ino, fs) n off. file_read fuel Romfs_File_Ops ino n off fs)"

definition rom_holds :: "nat \<times> inode \<times> fs_state \<Rightarrow> bytes \<Rightarrow> bool" where
  "rom_holds = (\<lambda>(fuel, ino, fs) c. \<exists>s d p nm sz. rom_ok s fs d \<and> i_sb ino = Some s \<and> i_number ino = of_nat p
     \<and> rom_file d p nm sz \<and> length nm div 16 < fuel \<and> c = take sz (drop (rom_data p nm) d))"

lemma rom_read_at:
  assumes "rom_holds x c" "off \<le> length c" "n < 2 ^ 31" "out = take n (drop off c)"
  shows "rom_read x (of_nat n) (of_nat off) = Some (int (length out), out, of_nat (off + length out))"
proof -
  obtain fuel ino fs where x: "x = (fuel, ino, fs)" by (cases x) auto
  obtain s d p nm sz where h: "rom_ok s fs d" "i_sb ino = Some s" "i_number ino = of_nat p"
    "rom_file d p nm sz" "length nm div 16 < fuel" "c = take sz (drop (rom_data p nm) d)"
    using assms(1) by (auto simp: x rom_holds_def)
  have "rom_data p nm + sz \<le> length d" using h(4) by (simp add: rom_file_def rom_data_def)
  then have c: "length c = sz" by (simp add: h(6))
  then have o: "out = take (min n (sz - off)) (drop (rom_data p nm + off) d)" "length out = min n (sz - off)"
    using assms(2,4) by (simp_all add: h(6) drop_take add.commute min.commute)
  show ?thesis
    using romfs_read_correct_eq[OF h(1-5), of off n] assms(2,3) c o by (simp add: x rom_read_def file_read_def Let_def)
qed

interpretation rom_files: file_reader rom_read rom_holds
  by unfold_locales (rule rom_read_at)

lemma length_file_content: "(\<And>j. j < n \<Longrightarrow> entry_ok d tsl j) \<Longrightarrow> length (file_content d tsl n) = 256 * n"
  unfolding file_content_def by (subst length_concat_const[of _ _ 256]) (auto simp: length_data_sector)

lemma dos_read_at:
  assumes "dos_holds x c" "off \<le> length c" "n < 2 ^ 31" "out = take n (drop off c)"
  shows "dos_read x (of_nat n) (of_nat off) = Some (int (length out), out, of_nat (off + length out))"
proof -
  obtain fuel ino fs where x: "x = (fuel, ino, fs)" by (cases x) auto
  obtain s type l tsl where h: "vol_ok s fs" "file_at s fs ino type l tsl" "adjusted type (i_size ino) div 256 < 122"
    "\<And>j. j \<le> adjusted type (i_size ino) div 256 \<Longrightarrow> entry_ok (disk_of s fs) tsl j"
    and cc: "c = take (i_size ino) (drop (adjusted type 0)
             (file_content (disk_of s fs) tsl (Suc (adjusted type (i_size ino) div 256))))"
    using assms(1) by (auto simp: x dos_holds_def)
  let ?A = "adjusted type (i_size ino)" and ?d = "file_content (disk_of s fs) tsl (Suc (adjusted type (i_size ino) div 256))"
  have "length ?d = 256 * Suc (?A div 256)" by (rule length_file_content) (use h(4) in simp)
  moreover have "?A = i_size ino + adjusted type 0" "adjusted type off = off + adjusted type 0" by (simp_all add: adjusted_def)
  ultimately have l: "length c = i_size ino" "adjusted type off = off + adjusted type 0" by (simp_all add: cc)
  have o: "out = take (min n (i_size ino - off)) (drop (adjusted type off) ?d)" "length out = min n (i_size ino - off)"
    using assms(2,4) l by (simp_all add: cc drop_take add.commute min.commute)
  have "off < 2 ^ 31" using assms(2) h(3) l by (simp add: adjusted_def split: if_splits)
  then have u: "unat (of_nat off :: u64) = off" "unat (of_nat n :: u32) = n"
    using assms(3) by (simp_all add: unat_of_nat)
  show ?thesis
    using read_file_correct_eq[OF h, of off n] assms(2) l(1) o by (simp add: x dos_read_def file_read_def u Let_def)
qed

interpretation dos_files: file_reader dos_read dos_holds
  by unfold_locales (rule dos_read_at)

text \<open>
  A regular file behind an open descriptor, and what it holds; a DOS 3.3 file has one track/sector list.
\<close>

definition file_holds :: "nat \<Rightarrow> file_operations \<Rightarrow> inode \<Rightarrow> fs_state \<Rightarrow> bytes \<Rightarrow> bool" where
  "file_holds fuel ops ino fs c \<longleftrightarrow>
     (case ops of Dos33_File_Ops \<Rightarrow> dos_holds (fuel, ino, fs) c | Romfs_File_Ops \<Rightarrow> rom_holds (fuel, ino, fs) c
      | No_File_Ops \<Rightarrow> False)"

lemma file_read_next:
  assumes "file_holds fuel ops ino fs c" "off \<le> length c" "n < 2 ^ 31" "m < 2 ^ 31"
  shows "\<exists>a b p q. file_read fuel ops ino (of_nat n) (of_nat off) fs = Some (int (length a), a, p)
    \<and> file_read fuel ops ino (of_nat m) p fs = Some (int (length b), b, q) \<and> a @ b = take (n + m) (drop off c)"
  using assms rom_files.read_next[of "(fuel, ino, fs)" c off n m] dos_files.read_next[of "(fuel, ino, fs)" c off n m]
  by (cases ops) (simp_all add: file_holds_def rom_read_def dos_read_def)

lemma read_syscall_regular:
  assumes "map_fd_to_file fd k = Some (Inr j)" "file_get j k = Some (f, i, ino)"
    "i_mode ino AND S_IFMT = S_IFREG" "file_flags f AND O_RW_MASK \<noteq> O_WRONLY"
    "file_read fuel (file_ops f) ino n (file_offset f) (k_fs k) = Some (r, out, off)"
  shows "read_syscall fuel ct fd n k = Some (Done (r, out), file_set j (f\<lparr>file_offset := off\<rparr>) k)"
  using assms by (simp add: read_syscall_def)

text \<open>
  C25: Two reads of a regular file through one descriptor deliver together what one read of both
  lengths would: the bytes of the file from the offset on, with none lost or repeated, on the read-only file system for a file of any
  length, and on the DOS 3.3 file system for a file of one track/sector list (\<open>dos_holds\<close>), that is of fewer than 31232 bytes with the four
  in front of a binary program.  The bytes of a longer DOS 3.3 file are not those delivered, as the code follows the wrong link to the
  second list.
\<close>

theorem read_twice:
  assumes "map_fd_to_file fd k = Some (Inr j)" and "file_get j k = Some (f, i, ino)"
    and "i_mode ino AND S_IFMT = S_IFREG" and "file_flags f AND O_RW_MASK \<noteq> O_WRONLY"
    and "file_holds fuel (file_ops f) ino (k_fs k) c" and "file_offset f = of_nat off" and "off \<le> length c"
    and "n < 2 ^ 31" and "m < 2 ^ 31"
  shows "\<exists>a b k1 k2. read_syscall fuel ct fd (of_nat n) k = Some (Done (int (length a), a), k1)
    \<and> read_syscall fuel ct fd (of_nat m) k1 = Some (Done (int (length b), b), k2)
    \<and> a @ b = take (n + m) (drop off c)"
proof -
  obtain a b p q where r: "file_read fuel (file_ops f) ino (of_nat n) (of_nat off) (k_fs k) = Some (int (length a), a, p)"
    "file_read fuel (file_ops f) ino (of_nat m) p (k_fs k) = Some (int (length b), b, q)" "a @ b = take (n + m) (drop off c)"
    using file_read_next[OF assms(5,7-9)] by blast
  let ?f1 = "f\<lparr>file_offset := p\<rparr>"
  let ?k1 = "file_set j ?f1 k"
  have 1: "read_syscall fuel ct fd (of_nat n) k = Some (Done (int (length a), a), ?k1)"
    using read_syscall_regular[OF assms(1-4)] r(1) assms(6) by simp
  have m: "map_fd_to_file fd ?k1 = Some (Inr j)" "file_get j ?k1 = Some (?f1, i, ino)"
    using map_fd_Inr[OF assms(1)] assms(1,2) by (auto simp: map_fd_to_file_def file_set_def file_get_iff nth_list_update)
  have "read_syscall fuel ct fd (of_nat m) ?k1 = Some (Done (int (length b), b), file_set j (?f1\<lparr>file_offset := q\<rparr>) ?k1)"
    by (rule read_syscall_regular[OF m assms(3)]) (use assms(4) r(2) in \<open>simp_all add: k_fs_def file_set_def\<close>)
  with 1 r(3) show ?thesis by blast
qed

definition demo_rom_files :: kfiles where
  "demo_rom_files = (demo_files 1 1)\<lparr>
     k_vfs := \<lparr>v_fs = rom_fs demo_rom, v_inodes = [inode_zero\<lparr>i_number := 64, i_sb := Some 0, i_mode := S_IFREG\<rparr>]\<rparr>,
     file_objects := [file_zero\<lparr>file_inode := Some 0, file_count := 1, file_ops := Romfs_File_Ops, file_offset := 1\<rparr>]\<rparr>"

text \<open>The file of five bytes on the DOS 3.3 demonstration disk.\<close>

definition demo_dos_files :: kfiles where
  "demo_dos_files = (demo_files 1 1)\<lparr>
     k_vfs := \<lparr>v_fs = demo_fs demo_disk 3, v_inodes = [demo_ino]\<rparr>,
     file_objects := [file_zero\<lparr>file_inode := Some 0, file_count := 1, file_ops := Dos33_File_Ops, file_offset := 1\<rparr>]\<rparr>"

lemma demo_dos_holds: "file_holds fuel Dos33_File_Ops demo_ino (demo_fs demo_disk 3) [1, 2, 3, 4, 5]"
proof -
  have tsl: "tsl_entry demo_tsl 0 = (18, 1)" by (simp add: tsl_entry_def demo_tsl_def)
  have c: "file_content demo_disk demo_tsl (Suc 0) = demo_data"
    by (simp add: file_content_def data_sector_def tsl secno_def demo_sectors)
  have "[1, 2, 3, 4, 5] = take (i_size demo_ino) (drop (adjusted 4 0) demo_data)"
    by (simp add: demo_ino_def adjusted_def) (simp add: demo_data_def)
  moreover have "vol_ok 0 (demo_fs demo_disk 3)" by (rule demo_vol_ok) simp
  moreover have "adjusted 4 (i_size demo_ino) div 256 = 0" by (simp add: demo_ino_def adjusted_def)
  moreover have "entry_ok (disk_of 0 (demo_fs demo_disk 3)) demo_tsl 0" by (simp add: entry_ok_def tsl secno_def blk_valid_def)
  ultimately show ?thesis
    unfolding file_holds_def file_operations.case dos_holds_def prod.case
    by (intro exI[of _ 0] exI[of _ 4] exI[of _ "(18, 0)"] exI[of _ demo_tsl] conjI demo_file_at) (simp_all add: c)
qed

lemma read_twice_witness:
  "(\<exists>a b k1 k2. read_syscall 1 \<lparr>char_devs = [], num_char_devs = 0\<rparr> 0 1 demo_rom_files = Some (Done (int (length a), a), k1)
      \<and> read_syscall 1 \<lparr>char_devs = [], num_char_devs = 0\<rparr> 0 10 k1 = Some (Done (int (length b), b), k2) \<and> a @ b = [2, 3])
    \<and> (\<exists>a b k1 k2. read_syscall 1 \<lparr>char_devs = [], num_char_devs = 0\<rparr> 0 1 demo_dos_files = Some (Done (int (length a), a), k1)
      \<and> read_syscall 1 \<lparr>char_devs = [], num_char_devs = 0\<rparr> 0 10 k1 = Some (Done (int (length b), b), k2) \<and> a @ b = [2, 3, 4, 5])"
proof (rule conjI)
  have m: "map_fd_to_file 0 demo_dos_files = Some (Inr 0)" "k_fs demo_dos_files = demo_fs demo_disk 3"
    "file_get 0 demo_dos_files = Some (file_zero\<lparr>file_inode := Some 0, file_count := 1, file_ops := Dos33_File_Ops, file_offset := 1\<rparr>, 0, demo_ino)"
    by (simp_all add: demo_dos_files_def demo_files_def map_fd_to_file_def file_get_def ino_get_def k_fs_def)
  have "i_mode demo_ino AND S_IFMT = S_IFREG" by (simp add: demo_ino_def)
  then show "\<exists>a b k1 k2. read_syscall 1 \<lparr>char_devs = [], num_char_devs = 0\<rparr> 0 1 demo_dos_files = Some (Done (int (length a), a), k1)
      \<and> read_syscall 1 \<lparr>char_devs = [], num_char_devs = 0\<rparr> 0 10 k1 = Some (Done (int (length b), b), k2) \<and> a @ b = [2, 3, 4, 5]"
    using read_twice[OF m(1,3), of 1 "[1, 2, 3, 4, 5]" 1 1 10] demo_dos_holds[of 1] by (simp add: m(2) file_zero_def)
next
  let ?ino = "inode_zero\<lparr>i_number := 64, i_sb := Some 0, i_mode := S_IFREG\<rparr>"
  have f: "rom_file demo_rom 64 [97] 3" using demo_rom_names by (simp add: rom_file_def demo_rom_words chunks_def)
  have h: "file_holds 1 Romfs_File_Ops ?ino (rom_fs demo_rom) (take 3 (drop (rom_data 64 [97]) demo_rom))"
    unfolding file_holds_def file_operations.case rom_holds_def prod.case
    by (intro exI conjI, rule rom_fs_ok) (use f demo_rom_words(1) in simp_all)
  have d: "take 3 (drop (rom_data 64 [97]) demo_rom) = [1, 2, 3]"
    by (simp add: rom_data_def chunks_def) (simp add: demo_rom_def)
  have m: "map_fd_to_file 0 demo_rom_files = Some (Inr 0)" "k_fs demo_rom_files = rom_fs demo_rom"
    "file_get 0 demo_rom_files = Some (file_zero\<lparr>file_inode := Some 0, file_count := 1, file_ops := Romfs_File_Ops, file_offset := 1\<rparr>, 0, ?ino)"
    by (simp_all add: demo_rom_files_def demo_files_def map_fd_to_file_def file_get_def ino_get_def k_fs_def)
  show "\<exists>a b k1 k2. read_syscall 1 \<lparr>char_devs = [], num_char_devs = 0\<rparr> 0 1 demo_rom_files = Some (Done (int (length a), a), k1)
      \<and> read_syscall 1 \<lparr>char_devs = [], num_char_devs = 0\<rparr> 0 10 k1 = Some (Done (int (length b), b), k2) \<and> a @ b = [2, 3]"
    using read_twice[OF m(1,3), of 1 "[1, 2, 3]" 1 1 10] h[unfolded d] by (simp add: m(2) file_zero_def inode_zero_def)
qed

end
