(* ===== verification/Fb_Console.thy ===== *)
theory Fb_Console
  imports Printk Dmesg
begin

text \<open>
  The console's output: the serial port (\<open>drivers/serial/serial.c\<close>), the frame buffer
  (\<open>drivers/framebuffer/framebuffer.c\<close>), the text console on it with its parser of ANSI escape sequences
  (\<open>framebuffer_console.c\<close>), \<open>console_write\<close> of \<open>drivers/console/console_io.c\<close> and \<open>printk\<close> of \<open>lib/printk.c\<close>, which the
  text console calls back.

  A character handed to the serial device is appended to \<open>serial_out\<close>.  The font is a table of the state, as
  in the code; its data (\<open>c_font.h\<close>) is not modelled.  Setting the frame buffer up, a dialogue with the
  firmware, is not modelled.
\<close>

section \<open>Signed integers and arrays\<close>

text \<open>Overflow of a signed integer is undefined, as is an index outside the array.\<close>

definition int32 :: "int \<Rightarrow> int option" where
  "int32 i = (if - (2 ^ 31) \<le> i \<and> i < 2 ^ 31 then Some i else None)"

definition rdi :: "'a list \<Rightarrow> int \<Rightarrow> 'a option" where
  "rdi xs i = (if i < 0 then None else rd xs (nat i))"

definition wri :: "'a list \<Rightarrow> int \<Rightarrow> 'a \<Rightarrow> 'a list option" where
  "wri xs i v = (if i < 0 then None else wr xs (nat i) v)"

lemma rdi_eq [simp]: "0 \<le> i \<Longrightarrow> i < int (length xs) \<Longrightarrow> rdi xs i = Some (xs ! nat i)"
  by (simp add: rdi_def)

lemma wri_eq [simp]: "0 \<le> i \<Longrightarrow> i < int (length xs) \<Longrightarrow> wri xs i v = Some (xs[nat i := v])"
  by (simp add: wri_def)

lemma int32_eq [simp]: "- 2147483648 \<le> i \<Longrightarrow> i < 2147483648 \<Longrightarrow> int32 i = Some i"
  by (simp add: int32_def)

text \<open>\<open>for (x = lo; x < hi; x++)\<close> over signed integers.\<close>

fun for_int :: "int list \<Rightarrow> (int \<Rightarrow> 's \<Rightarrow> 's option) \<Rightarrow> 's \<Rightarrow> 's option" where
  "for_int [] f s = Some s"
| "for_int (x # xs) f s = do { s1 \<leftarrow> f x s; for_int xs f s1 }"

lemma for_int_inv:
  "I s \<Longrightarrow> (\<And>x s. x \<in> set xs \<Longrightarrow> I s \<Longrightarrow> \<exists>s'. f x s = Some s' \<and> I s') \<Longrightarrow> \<exists>s'. for_int xs f s = Some s' \<and> I s'"
proof (induction xs arbitrary: s)
  case (Cons x xs)
  obtain s1 where "f x s = Some s1" "I s1" using Cons.prems by force
  then show ?case using Cons.IH[of s1] Cons.prems(2) by auto
qed simp

lemma for_int_still:
  "(\<And>x. x \<in> set xs \<Longrightarrow> f x s = None \<or> f x s = Some s) \<Longrightarrow>
     for_int xs f s = (if \<exists>x \<in> set xs. f x s = None then None else Some s)"
proof (induction xs)
  case (Cons x xs)
  show ?case
  proof (cases "f x s")
    case (Some s')
    then have "f x s = Some s" using Cons.prems[of x] by simp
    then show ?thesis using Cons by simp
  next
    case None
    then show ?thesis by simp
  qed
qed simp

section \<open>The frame buffer\<close>

record fb =
  framebuffer_initialized :: bool
  phys_x :: int
  phys_y :: int
  pitch :: int
  offscreen :: bytes
  fb_memory :: bytes

definition put_rgb :: "u32 \<Rightarrow> int \<Rightarrow> fb \<Rightarrow> fb option" where
  "put_rgb color pos f = do {
     o0 \<leftarrow> wri (offscreen f) (pos + 0) (ucast color);
     o1 \<leftarrow> wri o0 (pos + 1) (ucast (drop_bit 8 color));
     o2 \<leftarrow> wri o1 (pos + 2) (ucast (drop_bit 16 color));
     Some (f\<lparr>offscreen := o2\<rparr>) }"

definition framebuffer_putpixel :: "u32 \<Rightarrow> int \<Rightarrow> int \<Rightarrow> fb \<Rightarrow> fb option" where
  "framebuffer_putpixel color x y f = put_rgb color (y * pitch f + x * 3) f"

definition framebuffer_hline :: "u32 \<Rightarrow> int \<Rightarrow> int \<Rightarrow> int \<Rightarrow> fb \<Rightarrow> fb option" where
  "framebuffer_hline color x0 x1 y f = for_int [x0..x1 - 1] (\<lambda>x f. put_rgb color (y * pitch f + x * 3) f) f"

definition framebuffer_vline :: "u32 \<Rightarrow> int \<Rightarrow> int \<Rightarrow> int \<Rightarrow> fb \<Rightarrow> fb option" where
  "framebuffer_vline color y0 y1 x f = for_int [y0..y1 - 1] (\<lambda>y f. put_rgb color (y * pitch f + x * 3) f) f"

definition framebuffer_clear_screen :: "u32 \<Rightarrow> fb \<Rightarrow> fb option" where
  "framebuffer_clear_screen color f = for_int [0..phys_y f - 1] (framebuffer_hline color 0 (phys_x f)) f"

definition framebuffer_push :: "fb \<Rightarrow> fb option" where
  "framebuffer_push f = do {
     src \<leftarrow> slice (offscreen f) 0 (nat (phys_x f * phys_y f * 3));
     m \<leftarrow> splice (fb_memory f) 0 src;
     Some (f\<lparr>fb_memory := m\<rparr>) }"

abbreviation (input) "FB_WIDTH \<equiv> 640 :: int"

definition framebuffer_gradient :: "u32 \<Rightarrow> fb \<Rightarrow> fb option" where
  "framebuffer_gradient type f =
     (if type = 0 then do {
        f1 \<leftarrow> for_int [0..phys_x f - 1]
          (\<lambda>x f. framebuffer_vline (word_of_int (x * 256 div FB_WIDTH)) 0 (phys_y f - 1) x f) f;
        framebuffer_push f1 }
      else Some f)"

definition framebuffer_load :: "bytes \<Rightarrow> fb \<Rightarrow> fb option" where
  "framebuffer_load pointer f = do {
     src \<leftarrow> slice pointer 0 (nat (phys_x f * phys_y f * 3));
     m \<leftarrow> splice (fb_memory f) 0 src;
     Some (f\<lparr>fb_memory := m\<rparr>) }"

section \<open>The text console\<close>

abbreviation (input) "CONSOLE_X \<equiv> 80 :: int"
abbreviation (input) "CONSOLE_Y \<equiv> 35 :: int"
abbreviation (input) "ANSI_MAX_NUMBERS \<equiv> 10 :: int"
abbreviation (input) "ANSI_DEFAULT \<equiv> 0xffffffff :: u32"
abbreviation (input) "ANSI_GREY \<equiv> 7 :: u32"
abbreviation (input) "FORE_GREY \<equiv> 7 :: byte"

datatype ansi = Ansi_Normal | Ansi_Escape | Ansi_Number | Ansi_Complete

record text_console =
  console_initialized :: bool
  font_ysize :: int
  current_font :: bytes
  console_text :: bytes
  text_color :: bytes
  console_x :: int
  console_y :: int
  fore_color :: u32
  back_color :: u32
  fore_bright :: u32
  ansi_numbers :: "u32 list"
  which_number :: int
  ansi_state :: ansi
  ansi_command :: byte
  fbuf :: fb

definition ansi_colors :: "u32 list" where
  "ansi_colors = [0x000000, 0xaa0000, 0x00aa00, 0xaa5522, 0x0000aa, 0xaa00aa, 0x00aaaa, 0xaaaaaa,
     0x7d7d7d, 0xff7d7d, 0x00ff00, 0xffff00, 0x0000ff, 0xff00ff, 0x00ffff, 0xffffff]"

definition framebuffer_console_putchar :: "u32 \<Rightarrow> u32 \<Rightarrow> byte \<Rightarrow> int \<Rightarrow> int \<Rightarrow> text_console \<Rightarrow> text_console option" where
  "framebuffer_console_putchar fore back ch x y c =
     (if \<not> console_initialized c then Some c
      else do {
        f \<leftarrow> for_int [0..font_ysize c - 1] (\<lambda>yy. for_int [0..7] (\<lambda>xx f. do {
               bits \<leftarrow> rdi (current_font c) (uint ch * font_ysize c + yy);
               if bit bits (nat (7 - xx)) then framebuffer_putpixel fore (x + xx) (y + yy) f
               else if back \<noteq> 0 then framebuffer_putpixel back (x + xx) (y + yy) f
               else Some f })) (fbuf c);
        Some (c\<lparr>fbuf := f\<rparr>) })"

definition framebuffer_console_clear :: "text_console \<Rightarrow> text_console option" where
  "framebuffer_console_clear c = do {
     f \<leftarrow> framebuffer_clear_screen 0 (fbuf c);
     Some (c\<lparr>console_text := replicate (nat (CONSOLE_X * CONSOLE_Y)) 32,
             text_color := replicate (nat (CONSOLE_X * CONSOLE_Y)) FORE_GREY, fbuf := f\<rparr>) }"

definition framebuffer_console_home :: "text_console \<Rightarrow> text_console" where
  "framebuffer_console_home c = c\<lparr>console_x := 0, console_y := 0\<rparr>"

definition framebuffer_console_push :: "text_console \<Rightarrow> text_console option" where
  "framebuffer_console_push c =
     (if \<not> framebuffer_initialized (fbuf c) then Some c
      else do {
        c1 \<leftarrow> for_int [0..CONSOLE_X - 1] (\<lambda>x. for_int [0..CONSOLE_Y - 1] (\<lambda>y c. do {
                col \<leftarrow> rdi (text_color c) (x + y * CONSOLE_X);
                ch \<leftarrow> rdi (console_text c) (x + y * CONSOLE_X);
                framebuffer_console_putchar (ansi_colors ! unat (col AND 0xf)) (ansi_colors ! unat (drop_bit 4 col AND 0xf))
                  ch (x * 8) (y * font_ysize c) c })) c;
        f \<leftarrow> framebuffer_push (fbuf c1);
        Some (c1\<lparr>fbuf := f\<rparr>) })"

text \<open>One character outside an escape sequence; the flag asks for a refresh of the screen.\<close>

definition ansi_normal :: "byte \<Rightarrow> text_console \<Rightarrow> (bool \<times> text_console) option" where
  "ansi_normal ch c =
     (if ch = 13 then Some (False, c)
      else if ch = 10 then do { y \<leftarrow> int32 (console_y c + 1); Some (False, c\<lparr>console_x := 0, console_y := y\<rparr>) }
      else if ch = 9 then do { x \<leftarrow> int32 (console_x c + 8); Some (False, c\<lparr>console_x := x AND NOT 7\<rparr>) }
      else if ch = 8 then do { x \<leftarrow> int32 (console_x c - 1); Some (True, c\<lparr>console_x := (if x < 0 then 0 else x)\<rparr>) }
      else if ch = 27 then Some (False, c\<lparr>ansi_state := Ansi_Escape\<rparr>)
      else do {
        let pos = console_x c + console_y c * CONSOLE_X;
        old \<leftarrow> rdi (console_text c) pos;
        t \<leftarrow> wri (console_text c) pos ch;
        l \<leftarrow> wri (text_color c) pos (ucast (push_bit 4 (back_color c) OR (fore_color c AND 0xf)));
        x \<leftarrow> int32 (console_x c + 1);
        Some (old \<noteq> 32, c\<lparr>console_text := t, text_color := l, console_x := x\<rparr>) })"

definition ansi_escape :: "byte \<Rightarrow> text_console \<Rightarrow> text_console option" where
  "ansi_escape ch c =
     (if ch = 91 then do {
        ns \<leftarrow> wri (ansi_numbers c) 0 ANSI_DEFAULT;
        Some (c\<lparr>which_number := - 1, ansi_numbers := ns, ansi_state := Ansi_Number\<rparr>) }
      else Some (c\<lparr>ansi_state := Ansi_Normal\<rparr>))"

text \<open>\<open>True\<close>: too many numbers.\<close>

definition ansi_number :: "byte \<Rightarrow> text_console \<Rightarrow> (bool \<times> text_console) option" where
  "ansi_number ch c =
     (if \<not> is_digit ch then
        if ch = 59 then do {
          let c1 = c\<lparr>which_number := which_number c + 1\<rparr>;
          if which_number c1 = ANSI_MAX_NUMBERS then Some (True, c1\<lparr>ansi_state := Ansi_Normal\<rparr>)
          else do { ns \<leftarrow> wri (ansi_numbers c1) (which_number c1) 0; Some (False, c1\<lparr>ansi_numbers := ns\<rparr>) } }
        else Some (False, c\<lparr>which_number := which_number c + 1, ansi_command := ch, ansi_state := Ansi_Complete\<rparr>)
      else do {
        c1 \<leftarrow> (if which_number c = - 1 then do {
                 ns \<leftarrow> wri (ansi_numbers c) 0 0; Some (c\<lparr>which_number := 0, ansi_numbers := ns\<rparr>) }
               else Some c);
        n \<leftarrow> rdi (ansi_numbers c1) (which_number c1);
        ns \<leftarrow> wri (ansi_numbers c1) (which_number c1) (n * 10 + ucast (ch - 48));
        Some (False, c1\<lparr>ansi_numbers := ns\<rparr>) })"

text \<open>The commands.  A message is to be printed by \<open>printk\<close> before the sequence is left.\<close>

definition ansi_distance :: "text_console \<Rightarrow> int" where
  "ansi_distance c = (if hd (ansi_numbers c) = ANSI_DEFAULT then 1 else sint (hd (ansi_numbers c)))"

definition ansi_color :: "u32 \<Rightarrow> text_console \<Rightarrow> text_console" where
  "ansi_color n c =
     (let c0 = (if n = 0 \<or> n = ANSI_DEFAULT then c\<lparr>fore_color := ANSI_GREY, back_color := 0, fore_bright := 0\<rparr> else c);
          c1 = (if n = 1 then c0\<lparr>fore_bright := 1, fore_color := fore_color c0 OR 8\<rparr> else c0);
          c2 = (if 30 \<le> n \<and> n \<le> 37 then c1\<lparr>fore_color := (n - 30) OR push_bit 3 (fore_bright c1)\<rparr> else c1)
      in if 40 \<le> n \<and> n \<le> 47 then c2\<lparr>back_color := n - 40\<rparr> else c2)"

definition ansi_goto :: "text_console \<Rightarrow> text_console option" where
  "ansi_goto c = do {
     n0 \<leftarrow> rdi (ansi_numbers c) 0;
     if n0 = ANSI_DEFAULT then Some (c\<lparr>console_x := 0, console_y := 0\<rparr>)
     else if which_number c = 0 then Some (c\<lparr>console_y := sint (n0 - 1)\<rparr>)
     else do { n1 \<leftarrow> rdi (ansi_numbers c) 1; Some (c\<lparr>console_y := sint (n0 - 1), console_x := sint (n1 - 1)\<rparr>) } }"

definition unknown_clear :: bytes where
  "unknown_clear = [65, 78, 83, 73, 58, 32, 117, 110, 107, 110, 111, 119, 110, 32, 99, 108, 101, 97, 114, 32, 37, 100, 10]"

definition unknown_command :: bytes where
  "unknown_command = [85, 110, 107, 110, 111, 119, 110, 32, 97, 110, 115, 105, 32, 99, 111, 109, 109, 97, 110, 100, 32, 39, 37, 99, 39]"

definition too_many_numbers :: bytes where
  "too_many_numbers = [65, 78, 83, 73, 58, 32, 84, 111, 111, 32, 109, 97, 110, 121, 32, 110, 117, 109, 98, 101, 114, 115, 33, 10]"

definition ansi_run :: "text_console \<Rightarrow> ((bytes \<times> va list) option \<times> text_console) option" where
  "ansi_run c =
     (let d = ansi_distance c; cmd = ansi_command c in
      if cmd = 65 then do { y \<leftarrow> int32 (console_y c - d); Some (None, c\<lparr>console_y := y\<rparr>) }
      else if cmd = 66 then do { y \<leftarrow> int32 (console_y c + d); Some (None, c\<lparr>console_y := y\<rparr>) }
      else if cmd = 67 then do { x \<leftarrow> int32 (console_x c + d); Some (None, c\<lparr>console_x := x\<rparr>) }
      else if cmd = 68 then do { x \<leftarrow> int32 (console_x c - d); Some (None, c\<lparr>console_x := x\<rparr>) }
      else if cmd = 72 then do { c1 \<leftarrow> ansi_goto c; Some (None, c1) }
      else if cmd = 74 then
        (if hd (ansi_numbers c) = 2
         then do { c1 \<leftarrow> framebuffer_console_clear c; Some (None, framebuffer_console_home c1) }
         else Some (Some (unknown_clear, [VLong (hd (ansi_numbers c))]), c))
      else if cmd = 109 then do {
        c1 \<leftarrow> for_int [0..which_number c - 1] (\<lambda>i c. do { n \<leftarrow> rdi (ansi_numbers c) i; Some (ansi_color n c) }) c;
        Some (None, c1) }
      else Some (Some (unknown_command, [VLong (ucast cmd)]), c))"

text \<open>The checks after each character: the screen scrolls by one line at most.\<close>

definition bounds_check :: "text_console \<Rightarrow> bool \<times> text_console" where
  "bounds_check c =
     (let c1 = (if console_x c < 0 then c\<lparr>console_x := 0\<rparr> else c);
          c2 = (if console_y c1 < 0 then c1\<lparr>console_y := 0\<rparr> else c1);
          c3 = (if console_x c2 \<ge> CONSOLE_X then c2\<lparr>console_x := console_x c2 mod CONSOLE_X, console_y := console_y c2 + 1\<rparr> else c2)
      in if console_y c3 \<ge> CONSOLE_Y
         then (True, c3\<lparr>console_text := take (nat ((CONSOLE_Y - 1) * CONSOLE_X)) (drop (nat CONSOLE_X) (console_text c3)) @ replicate (nat CONSOLE_X) 32,
                text_color := take (nat ((CONSOLE_Y - 1) * CONSOLE_X)) (drop (nat CONSOLE_X) (text_color c3)) @ replicate (nat CONSOLE_X) FORE_GREY,
                console_y := console_y c3 - 1\<rparr>)
         else (False, c3))"

definition framebuffer_console_val :: "int \<Rightarrow> int \<Rightarrow> text_console \<Rightarrow> int option" where
  "framebuffer_console_val x y c =
     (if x \<ge> CONSOLE_X then Some (- 1) else if y \<ge> CONSOLE_Y then Some (- 1)
      else do { v \<leftarrow> rdi (console_text c) (x + y * CONSOLE_X); Some (uint v) })"

definition framebuffer_console_init :: "text_console \<Rightarrow> text_console option" where
  "framebuffer_console_init c = do {
     c1 \<leftarrow> framebuffer_console_clear c;
     Some ((framebuffer_console_home c1)\<lparr>console_initialized := True\<rparr>) }"

section \<open>The console's output devices\<close>

record conout =
  con :: text_console
  serial_initialized :: bool
  serial_out :: bytes
  console_locking_enabled :: bool
  console_print_mutex :: bool
  kernel_log :: dmesg

fun serial_chars :: "bytes \<Rightarrow> bytes" where
  "serial_chars [] = []"
| "serial_chars (ch # cs) = (if ch = 10 then [13, ch] else [ch]) @ serial_chars cs"

definition serial_write :: "bytes \<Rightarrow> nat \<Rightarrow> conout \<Rightarrow> (nat \<times> conout) option" where
  "serial_write buffer n st =
     (if \<not> serial_initialized st then Some (0, st)
      else do { cs \<leftarrow> slice buffer 0 n; Some (n, st\<lparr>serial_out := serial_out st @ serial_chars cs\<rparr>) })"

text \<open>
  One pass of the loop of \<open>framebuffer_console_write\<close>; \<open>pk\<close> is \<open>printk\<close>.  The result says whether the loop is left and whether the
  screen is to be refreshed.
\<close>

definition fb_complete :: "(bytes \<Rightarrow> va list \<Rightarrow> conout \<Rightarrow> conout option) \<Rightarrow> conout \<Rightarrow> conout option" where
  "fb_complete pk st = do {
     (m, c) \<leftarrow> ansi_run (con st);
     st1 \<leftarrow> (case m of None \<Rightarrow> Some (st\<lparr>con := c\<rparr>) | Some (fmt, ap) \<Rightarrow> pk fmt ap (st\<lparr>con := c\<rparr>));
     Some (st1\<lparr>con := (con st1)\<lparr>which_number := - 1, ansi_state := Ansi_Normal\<rparr>\<rparr>) }"

definition fb_parse :: "byte \<Rightarrow> text_console \<Rightarrow> (bool \<times> bool \<times> text_console) option" where
  "fb_parse ch c =
     (case ansi_state c of
        Ansi_Normal \<Rightarrow> do { (r, c1) \<leftarrow> ansi_normal ch c; Some (False, r, c1) }
      | Ansi_Escape \<Rightarrow> do { c1 \<leftarrow> ansi_escape ch c; Some (False, False, c1) }
      | Ansi_Number \<Rightarrow> do { (too_many, c1) \<leftarrow> ansi_number ch c; Some (too_many, False, c1) }
      | Ansi_Complete \<Rightarrow> Some (False, False, c))"

definition fb_char :: "(bytes \<Rightarrow> va list \<Rightarrow> conout \<Rightarrow> conout option) \<Rightarrow> byte \<Rightarrow> conout \<Rightarrow> (bool \<times> bool \<times> conout) option" where
  "fb_char pk ch st = do {
     (too_many, r, c) \<leftarrow> fb_parse ch (con st);
     let st1 = st\<lparr>con := c\<rparr>;
     if too_many then do { st2 \<leftarrow> pk too_many_numbers [] st1; Some (True, r, st2) }
     else do {
       st2 \<leftarrow> (if ansi_state c = Ansi_Complete then fb_complete pk st1 else Some st1);
       let (r', c') = bounds_check (con st2);
       Some (False, r \<or> r', st2\<lparr>con := c'\<rparr>) } }"

text \<open>The loop reads characters until \<open>i\<close> equals the length.\<close>

fun fb_chars :: "(bytes \<Rightarrow> va list \<Rightarrow> conout \<Rightarrow> conout option) \<Rightarrow> bytes \<Rightarrow> nat \<Rightarrow> nat \<Rightarrow> bool \<Rightarrow> conout \<Rightarrow> (bool \<times> conout) option" where
  "fb_chars pk [] i len refresh st = None"
| "fb_chars pk (ch # cs) i len refresh st = do {
     (stop, r, st1) \<leftarrow> fb_char pk ch st;
     if stop \<or> Suc i = len then Some (refresh \<or> r, st1)
     else fb_chars pk cs (Suc i) len (refresh \<or> r) st1 }"

definition framebuffer_console_write :: "(bytes \<Rightarrow> va list \<Rightarrow> conout \<Rightarrow> conout option) \<Rightarrow> bytes \<Rightarrow> nat \<Rightarrow> conout \<Rightarrow> (int \<times> conout) option" where
  "framebuffer_console_write pk buffer len st =
     (if \<not> console_initialized (con st) then Some (- ENODEV, st)
      else do {
        (refresh, st1) \<leftarrow> fb_chars pk buffer 0 len False st;
        f \<leftarrow> (if refresh then framebuffer_clear_screen 0 (fbuf (con st1)) else Some (fbuf (con st1)));
        c \<leftarrow> framebuffer_console_push ((con st1)\<lparr>fbuf := f\<rparr>);
        Some (0, st1\<lparr>con := c\<rparr>) })"

text \<open>Taking a mutex that is held spins for ever.\<close>

definition console_write_with :: "(bytes \<Rightarrow> va list \<Rightarrow> conout \<Rightarrow> conout option) \<Rightarrow> bytes \<Rightarrow> nat \<Rightarrow> conout \<Rightarrow> (nat \<times> conout) option" where
  "console_write_with pk buf count st =
     (if console_locking_enabled st \<and> console_print_mutex st then None
      else do {
        let st0 = (if console_locking_enabled st then st\<lparr>console_print_mutex := True\<rparr> else st);
        (n, st1) \<leftarrow> serial_write buf count st0;
        (_, st2) \<leftarrow> framebuffer_console_write pk buf count st1;
        Some (n, if console_locking_enabled st2 then st2\<lparr>console_print_mutex := False\<rparr> else st2) })"

abbreviation (input) "MAX_PRINT_SIZE \<equiv> 256 :: nat"

text \<open>The fuel bounds the depth of the calls from the text console back to \<open>printk\<close>.\<close>

fun printk :: "nat \<Rightarrow> bytes \<Rightarrow> va list \<Rightarrow> conout \<Rightarrow> conout option" where
  "printk 0 fmt ap st = None"
| "printk (Suc n) fmt ap st = do {
     (r, buffer) \<leftarrow> vsnprintf (replicate MAX_PRINT_SIZE 0) MAX_PRINT_SIZE fmt ap;
     (_, log) \<leftarrow> dmesg_append buffer (nat r) (kernel_log st);
     (_, st1) \<leftarrow> console_write_with (printk n) buffer (nat r) (st\<lparr>kernel_log := log\<rparr>);
     Some st1 }"

definition console_write :: "nat \<Rightarrow> bytes \<Rightarrow> nat \<Rightarrow> conout \<Rightarrow> (nat \<times> conout) option" where
  "console_write depth = console_write_with (printk depth)"

definition serial_printk :: "bytes \<Rightarrow> va list \<Rightarrow> conout \<Rightarrow> (int \<times> conout) option" where
  "serial_printk fmt ap st = do {
     (r, buffer) \<leftarrow> vsnprintf (replicate MAX_PRINT_SIZE 0) MAX_PRINT_SIZE fmt ap;
     (_, st1) \<leftarrow> serial_write buffer (nat r) st;
     Some (r, st1) }"

definition framebuffer_console_setfont :: "nat \<Rightarrow> bytes \<Rightarrow> conout \<Rightarrow> conout option" where
  "framebuffer_console_setfont depth default_font st = do {
     st1 \<leftarrow> printk depth [85, 115, 105, 110, 103, 32, 100, 101, 102, 97, 117, 108, 116, 32, 102, 111, 110, 116, 10] []
              (st\<lparr>con := (con st)\<lparr>current_font := default_font, font_ysize := 16\<rparr>\<rparr>);
     f \<leftarrow> framebuffer_clear_screen 0 (fbuf (con st1));
     c \<leftarrow> framebuffer_console_push ((con st1)\<lparr>fbuf := f\<rparr>);
     Some (st1\<lparr>con := c\<rparr>) }"

section \<open>The frame buffer stays in bounds\<close>

text \<open>A frame buffer is either not set up, or big enough for the text console.\<close>

definition fb_sizes :: "fb \<Rightarrow> bool" where
  "fb_sizes f \<longleftrightarrow> (if framebuffer_initialized f
     then 640 \<le> phys_x f \<and> 560 \<le> phys_y f \<and> pitch f = phys_x f * 3
       \<and> int (length (offscreen f)) = phys_x f * phys_y f * 3 \<and> length (fb_memory f) = length (offscreen f)
     else phys_y f \<le> 0)"

definition same_sizes :: "fb \<Rightarrow> fb \<Rightarrow> bool" where
  "same_sizes f g \<longleftrightarrow> framebuffer_initialized g = framebuffer_initialized f \<and> phys_x g = phys_x f \<and> phys_y g = phys_y f
     \<and> pitch g = pitch f \<and> length (offscreen g) = length (offscreen f) \<and> length (fb_memory g) = length (fb_memory f)"

lemma same_sizes_refl [simp]: "same_sizes f f"
  by (simp add: same_sizes_def)

lemma same_sizes_trans: "same_sizes f g \<Longrightarrow> same_sizes g h \<Longrightarrow> same_sizes f h"
  by (simp add: same_sizes_def)

lemma fb_sizes_cong: "same_sizes f g \<Longrightarrow> fb_sizes g = fb_sizes f"
  by (simp add: same_sizes_def fb_sizes_def)

lemma put_rgb_in: "0 \<le> pos \<Longrightarrow> pos + 2 < int (length (offscreen f)) \<Longrightarrow> \<exists>g. put_rgb col pos f = Some g \<and> same_sizes f g"
  by (simp add: put_rgb_def same_sizes_def)

lemma pixel_position:
  fixes x y w h :: int
  assumes "0 \<le> x" "x < w" "0 \<le> y" "y < h"
  shows "0 \<le> y * (w * 3) + x * 3" "y * (w * 3) + x * 3 + 2 < w * h * 3"
proof -
  have "y * w \<le> (h - 1) * w" by (rule mult_right_mono) (use assms in auto)
  then have "y * (w * 3) + x * 3 + 2 < (h - 1) * w * 3 + w * 3" using assms by (simp add: algebra_simps)
  then show "y * (w * 3) + x * 3 + 2 < w * h * 3" by (simp add: algebra_simps)
  have "0 \<le> y * w" using assms by simp
  then show "0 \<le> y * (w * 3) + x * 3" using assms by (simp add: algebra_simps)
qed

lemma putpixel_in:
  assumes "fb_sizes f" "framebuffer_initialized f" "0 \<le> x" "x < phys_x f" "0 \<le> y" "y < phys_y f"
  shows "\<exists>g. put_rgb col (y * pitch f + x * 3) f = Some g \<and> same_sizes f g"
  using put_rgb_in[of "y * (phys_x f * 3) + x * 3" f col] pixel_position[OF assms(3-6)] assms(1,2) by (simp add: fb_sizes_def)

lemma hline_in:
  assumes "fb_sizes f" "framebuffer_initialized f" "0 \<le> y" "y < phys_y f"
  shows "\<exists>g. framebuffer_hline col 0 (phys_x f) y f = Some g \<and> same_sizes f g"
  unfolding framebuffer_hline_def
proof (rule for_int_inv)
  fix x g assume x: "x \<in> set [0..phys_x f - 1]" and g: "same_sizes f g"
  then have "fb_sizes g" "framebuffer_initialized g" "0 \<le> x" "x < phys_x g" "y < phys_y g"
    using assms fb_sizes_cong[OF g] by (auto simp: same_sizes_def)
  from putpixel_in[OF this(1-4) assms(3) this(5), of col]
  show "\<exists>h. put_rgb col (y * pitch g + x * 3) g = Some h \<and> same_sizes f h"
    using same_sizes_trans[OF g] by blast
qed simp

lemma clear_in: "fb_sizes f \<Longrightarrow> \<exists>g. framebuffer_clear_screen col f = Some g \<and> same_sizes f g"
proof (cases "framebuffer_initialized f")
  case False
  moreover assume "fb_sizes f"
  ultimately have "[0..phys_y f - 1] = []" by (simp add: fb_sizes_def)
  then show ?thesis by (simp add: framebuffer_clear_screen_def)
next
  case True
  assume f: "fb_sizes f"
  show ?thesis
    unfolding framebuffer_clear_screen_def
  proof (rule for_int_inv)
    fix y g assume y: "y \<in> set [0..phys_y f - 1]" and g: "same_sizes f g"
    then have "fb_sizes g" "framebuffer_initialized g" "0 \<le> y" "y < phys_y g" "phys_x g = phys_x f"
      using f True fb_sizes_cong[OF g] by (auto simp: same_sizes_def)
    from hline_in[OF this(1-4), of col] this(5)
    show "\<exists>h. framebuffer_hline col 0 (phys_x f) y g = Some h \<and> same_sizes f h"
      using same_sizes_trans[OF g] by auto
  qed simp
qed

lemma push_in:
  assumes "fb_sizes f" "framebuffer_initialized f"
  shows "\<exists>g. framebuffer_push f = Some g \<and> same_sizes f g"
proof -
  have "int (length (offscreen f)) = phys_x f * phys_y f * 3" "length (fb_memory f) = length (offscreen f)"
    using assms unfolding fb_sizes_def by auto
  then have "nat (phys_x f * phys_y f * 3) = length (offscreen f)" "length (fb_memory f) = length (offscreen f)"
    by (metis nat_int)+
  then show ?thesis by (simp add: framebuffer_push_def slice_eq splice_eq same_sizes_def)
qed

text \<open>A console whose tables have their sizes; only the frame buffer changes when it is pushed.\<close>

definition con_sizes :: "text_console \<Rightarrow> bool" where
  "con_sizes c \<longleftrightarrow> length (console_text c) = 2800 \<and> length (text_color c) = 2800 \<and> length (ansi_numbers c) = 10
     \<and> font_ysize c = 16 \<and> length (current_font c) = 4096 \<and> fb_sizes (fbuf c)"

definition only_fb :: "text_console \<Rightarrow> text_console \<Rightarrow> bool" where
  "only_fb c d \<longleftrightarrow> (\<exists>f. d = c\<lparr>fbuf := f\<rparr> \<and> same_sizes (fbuf c) f)"

lemma only_fb_refl [simp]: "only_fb c c"
  unfolding only_fb_def by (rule exI[of _ "fbuf c"]) simp

lemma only_fb_trans:
  assumes "only_fb c d" "only_fb d e"
  shows "only_fb c e"
proof -
  from assms obtain f g where "d = c\<lparr>fbuf := f\<rparr>" "same_sizes (fbuf c) f" "e = d\<lparr>fbuf := g\<rparr>" "same_sizes (fbuf d) g"
    unfolding only_fb_def by blast
  then have "e = c\<lparr>fbuf := g\<rparr>" "same_sizes (fbuf c) g" using same_sizes_trans by auto
  then show ?thesis unfolding only_fb_def by blast
qed

lemma only_fb_sizes: "only_fb c d \<Longrightarrow> con_sizes d = con_sizes c"
  by (auto simp: only_fb_def con_sizes_def fb_sizes_cong)

lemma putchar_in:
  assumes "con_sizes c" "framebuffer_initialized (fbuf c)" "0 \<le> x" "x + 8 \<le> 640" "0 \<le> y" "y + 16 \<le> 560"
  shows "\<exists>d. framebuffer_console_putchar fg bg ch x y c = Some d \<and> only_fb c d"
proof (cases "console_initialized c")
  case True
  have ch: "0 \<le> uint ch" "uint ch < 256" using uint_bounded[of ch] by simp_all
  let ?cell = "\<lambda>yy xx f. do {
     bits \<leftarrow> rdi (current_font c) (uint ch * font_ysize c + yy);
     if bit bits (nat (7 - xx)) then framebuffer_putpixel fg (x + xx) (y + yy) f
     else if bg \<noteq> 0 then framebuffer_putpixel bg (x + xx) (y + yy) f
     else Some f }"
  have cell: "\<exists>g'. ?cell yy xx g = Some g' \<and> same_sizes (fbuf c) g'"
    if "yy \<in> set [0..font_ysize c - 1]" "xx \<in> set [0..7]" "same_sizes (fbuf c) g" for yy xx g
  proof -
    have y: "0 \<le> yy" "yy < 16" "0 \<le> xx" "xx < 8" using that(1,2) assms(1) by (auto simp: con_sizes_def)
    have g: "fb_sizes g" "framebuffer_initialized g" using that(3) assms(1,2) fb_sizes_cong[OF that(3)]
      by (simp_all add: con_sizes_def same_sizes_def)
    have "0 \<le> x + xx" "x + xx < phys_x g" "0 \<le> y + yy" "y + yy < phys_y g"
      using g y assms(3-6) by (simp_all add: fb_sizes_def)
    from putpixel_in[OF g this]
    have p: "\<exists>h. framebuffer_putpixel col (x + xx) (y + yy) g = Some h \<and> same_sizes (fbuf c) h" for col
      using same_sizes_trans[OF that(3)] unfolding framebuffer_putpixel_def by blast
    have "uint ch * font_ysize c + yy < int (length (current_font c))" "0 \<le> uint ch * font_ysize c + yy"
      using ch y assms(1) by (simp_all add: con_sizes_def)
    then show ?thesis using p that(3) by simp
  qed
  have "\<exists>g. for_int [0..font_ysize c - 1] (\<lambda>yy. for_int [0..7] (?cell yy)) (fbuf c) = Some g \<and> same_sizes (fbuf c) g"
  proof (rule for_int_inv[where I = "same_sizes (fbuf c)"])
    fix yy g assume yy: "yy \<in> set [0..font_ysize c - 1]" and g: "same_sizes (fbuf c) g"
    show "\<exists>h. for_int [0..7] (?cell yy) g = Some h \<and> same_sizes (fbuf c) h"
      by (rule for_int_inv[where I = "same_sizes (fbuf c)", OF g]) (rule cell[OF yy])
  qed simp
  then show ?thesis using True by (auto simp: framebuffer_console_putchar_def only_fb_def)
qed (simp add: framebuffer_console_putchar_def)

lemma console_push_in:
  assumes "con_sizes c"
  shows "\<exists>d. framebuffer_console_push c = Some d \<and> only_fb c d"
proof (cases "framebuffer_initialized (fbuf c)")
  case True
  let ?cell = "\<lambda>x y c. do {
                col \<leftarrow> rdi (text_color c) (x + y * 80);
                ch \<leftarrow> rdi (console_text c) (x + y * 80);
                framebuffer_console_putchar (ansi_colors ! unat (col AND 0xf)) (ansi_colors ! unat (drop_bit 4 col AND 0xf))
                  ch (x * 8) (y * font_ysize c) c }"
  have cell: "\<exists>e. ?cell x y d = Some e \<and> only_fb c e" if "x \<in> set [0..79]" "y \<in> set [0..34]" "only_fb c d" for x y d
  proof -
    have r: "0 \<le> x" "x < 80" "0 \<le> y" "y < 35" using that(1,2) by auto
    have d: "con_sizes d" "framebuffer_initialized (fbuf d)"
      using that(3) assms True only_fb_sizes by (auto simp: only_fb_def same_sizes_def)
    have "\<exists>e. framebuffer_console_putchar fg bg ch (x * 8) (y * font_ysize d) d = Some e \<and> only_fb d e" for fg bg ch
      by (rule putchar_in[OF d]) (use r d(1) in \<open>simp_all add: con_sizes_def\<close>)
    moreover have "0 \<le> x + y * 80" "x + y * 80 < int (length (text_color d))" "x + y * 80 < int (length (console_text d))"
      using r d(1) by (simp_all add: con_sizes_def)
    ultimately show ?thesis using only_fb_trans[OF that(3)] by fastforce
  qed
  have "\<exists>d. for_int [0..79] (\<lambda>x. for_int [0..34] (?cell x)) c = Some d \<and> only_fb c d"
  proof (rule for_int_inv[where I = "only_fb c"])
    fix x d assume x: "x \<in> set [0..79]" and d: "only_fb c d"
    show "\<exists>e. for_int [0..34] (?cell x) d = Some e \<and> only_fb c e"
      by (rule for_int_inv[where I = "only_fb c", OF d]) (rule cell[OF x])
  qed simp
  then obtain d where d: "for_int [0..79] (\<lambda>x. for_int [0..34] (?cell x)) c = Some d" "only_fb c d" by blast
  have "fb_sizes (fbuf d)" "framebuffer_initialized (fbuf d)"
    using d(2) assms True only_fb_sizes[OF d(2)] by (auto simp: only_fb_def same_sizes_def con_sizes_def)
  from push_in[OF this] obtain g where g: "framebuffer_push (fbuf d) = Some g" "same_sizes (fbuf d) g" by blast
  then have "only_fb d (d\<lparr>fbuf := g\<rparr>)" unfolding only_fb_def by blast
  then show ?thesis
    using True d g(1) only_fb_trans[OF d(2)] by (auto simp: framebuffer_console_push_def)
qed (simp add: framebuffer_console_push_def)

section \<open>The parser and the cursor\<close>

text \<open>
  \<open>con_ok\<close>: the console between two characters.  The cursor is on the screen, and while numbers are read the
  current one is inside the array, whose first entry says that there is none yet as long as there is none.
\<close>

definition con_ok :: "text_console \<Rightarrow> bool" where
  "con_ok c \<longleftrightarrow> con_sizes c \<and> 0 \<le> console_x c \<and> console_x c < 80 \<and> 0 \<le> console_y c \<and> console_y c < 35
     \<and> ansi_state c \<noteq> Ansi_Complete \<and> (ansi_state c = Ansi_Number \<longrightarrow> - 1 \<le> which_number c \<and> which_number c < 10
        \<and> (which_number c = - 1 \<longrightarrow> ansi_numbers c ! 0 = ANSI_DEFAULT))"

lemma tab_stop: "0 \<le> x \<Longrightarrow> 0 \<le> x AND NOT 7 \<and> x AND NOT 7 \<le> (x::int)"
  by (simp add: AND_upper1)

lemma con_okD:
  assumes "con_ok c"
  shows "con_sizes c" "0 \<le> console_x c" "console_x c < 80" "0 \<le> console_y c" "console_y c < 35"
    "length (console_text c) = 2800" "length (text_color c) = 2800" "length (ansi_numbers c) = 10"
  using assms by (simp_all add: con_ok_def con_sizes_def)

text \<open>After one character the cursor is at most one line below the screen, and \<open>bounds_check\<close> brings it back.\<close>

lemma bounds_check_ok:
  assumes "con_sizes c" "console_y c \<le> 35" "console_x c \<ge> 80 \<Longrightarrow> console_y c \<le> 34"
    and "ansi_state c \<noteq> Ansi_Complete" "ansi_state c = Ansi_Number \<Longrightarrow> - 1 \<le> which_number c \<and> which_number c < 10
      \<and> (which_number c = - 1 \<longrightarrow> ansi_numbers c ! 0 = ANSI_DEFAULT)"
  shows "con_ok (snd (bounds_check c))"
  using assms by (auto simp: bounds_check_def Let_def con_ok_def con_sizes_def)

text \<open>A character that is not the end of an escape sequence.\<close>

lemma fb_parse_ok:
  assumes "con_ok c" "ansi_state c = Ansi_Number \<Longrightarrow> is_digit ch \<or> ch = 59 \<and> which_number c < 9"
  shows "\<exists>r d. fb_parse ch c = Some (False, r, d) \<and> con_sizes d \<and> console_y d \<le> 35 \<and> (console_x d \<ge> 80 \<longrightarrow> console_y d \<le> 34)
    \<and> ansi_state d \<noteq> Ansi_Complete \<and> (ansi_state d = Ansi_Number \<longrightarrow> - 1 \<le> which_number d \<and> which_number d < 10
        \<and> (which_number d = - 1 \<longrightarrow> ansi_numbers d ! 0 = ANSI_DEFAULT))"
proof -
  note c = con_okD[OF assms(1)]
  have pos: "0 \<le> console_x c + console_y c * 80" "console_x c + console_y c * 80 < 2800" using c(2-5) by simp_all
  show ?thesis
  proof (cases "ansi_state c")
    case Ansi_Normal
    have "(console_x c + 8) AND NOT 7 \<le> console_x c + 8" using tab_stop[of "console_x c + 8"] c(2) by simp
    then show ?thesis using Ansi_Normal c pos by (auto simp: fb_parse_def ansi_normal_def con_sizes_def Let_def)
  next
    case Ansi_Escape
    then show ?thesis using c by (auto simp: fb_parse_def ansi_escape_def con_sizes_def)
  next
    case Ansi_Number
    then have w: "- 1 \<le> which_number c" "which_number c < 10" using assms(1) by (auto simp: con_ok_def)
    then show ?thesis using Ansi_Number c assms(2)[OF Ansi_Number] by (auto simp: fb_parse_def ansi_number_def con_sizes_def Let_def)
  next
    case Ansi_Complete
    then show ?thesis using assms(1) by (simp add: con_ok_def)
  qed
qed

text \<open>
  \<open>coloured st w bs\<close>: from the parser state \<open>st\<close> with the number \<open>w\<close>, the bytes are text, sequences that set colours, of at most ten
  numbers, and sequences without a number that move the cursor by one (\<open>A\<close> to \<open>D\<close>) or home (\<open>H\<close>).
\<close>

fun coloured :: "ansi \<Rightarrow> int \<Rightarrow> bytes \<Rightarrow> bool" where
  "coloured st w [] = True"
| "coloured Ansi_Normal w (ch # cs) = coloured (if ch = 27 then Ansi_Escape else Ansi_Normal) w cs"
| "coloured Ansi_Escape w (ch # cs) = coloured (if ch = 91 then Ansi_Number else Ansi_Normal) (if ch = 91 then - 1 else w) cs"
| "coloured Ansi_Number w (ch # cs) =
     (if is_digit ch then coloured Ansi_Number (if w = - 1 then 0 else w) cs
      else if ch = 59 then w < 9 \<and> coloured Ansi_Number (w + 1) cs
      else (ch = 109 \<or> w = - 1 \<and> ch \<in> {65, 66, 67, 68, 72}) \<and> coloured Ansi_Normal (- 1) cs)"
| "coloured Ansi_Complete w (ch # cs) = False"

definition only_colour :: "text_console \<Rightarrow> text_console \<Rightarrow> bool" where
  "only_colour c d \<longleftrightarrow> (\<exists>f b h. d = c\<lparr>fore_color := f, back_color := b, fore_bright := h\<rparr>)"

lemma only_colour_refl [simp]: "only_colour c c"
  unfolding only_colour_def by (intro exI[of _ "fore_color c"] exI[of _ "back_color c"] exI[of _ "fore_bright c"]) simp

lemma only_colour_if: "only_colour c d \<Longrightarrow> only_colour c e \<Longrightarrow> only_colour c (if b then d else e)"
  by simp

lemma only_colour_upd:
  assumes "only_colour c d"
  shows "only_colour c (d\<lparr>fore_color := f\<rparr>)" "only_colour c (d\<lparr>back_color := b\<rparr>)" "only_colour c (d\<lparr>fore_bright := h\<rparr>)"
proof -
  from assms obtain f0 b0 h0 where d: "d = c\<lparr>fore_color := f0, back_color := b0, fore_bright := h0\<rparr>"
    unfolding only_colour_def by blast
  show "only_colour c (d\<lparr>fore_color := f\<rparr>)" unfolding only_colour_def d by (rule exI[of _ f], rule exI[of _ b0], rule exI[of _ h0]) simp
  show "only_colour c (d\<lparr>back_color := b\<rparr>)" unfolding only_colour_def d by (rule exI[of _ f0], rule exI[of _ b], rule exI[of _ h0]) simp
  show "only_colour c (d\<lparr>fore_bright := h\<rparr>)" unfolding only_colour_def d by (rule exI[of _ f0], rule exI[of _ b0], rule exI[of _ h]) simp
qed

lemma ansi_color_only: "only_colour c d \<Longrightarrow> only_colour c (ansi_color n d)"
  unfolding ansi_color_def Let_def by (intro only_colour_if only_colour_upd) assumption+

lemma ansi_run_colours:
  assumes "length (ansi_numbers c) = 10" "which_number c \<le> 10" "ansi_command c = 109"
  shows "\<exists>d. ansi_run c = Some (None, d) \<and> only_colour c d"
proof -
  have "\<exists>d. for_int [0..which_number c - 1] (\<lambda>i c. do { n \<leftarrow> rdi (ansi_numbers c) i; Some (ansi_color n c) }) c = Some d \<and> only_colour c d"
  proof (rule for_int_inv)
    fix i d assume i: "i \<in> set [0..which_number c - 1]" and d: "only_colour c d"
    have "ansi_numbers d = ansi_numbers c" using d by (auto simp: only_colour_def)
    then show "\<exists>e. do { n \<leftarrow> rdi (ansi_numbers d) i; Some (ansi_color n d) } = Some e \<and> only_colour c e"
      using i assms(1,2) ansi_color_only[OF d] by simp
  qed simp
  then show ?thesis using assms(3) by (auto simp: ansi_run_def Let_def)
qed

text \<open>A sequence of at most ten numbers that is accepted leaves the cursor at most one line below the screen.\<close>

lemma ansi_run_moves:
  assumes "con_sizes c" "0 \<le> console_x c" "console_x c < 80" "0 \<le> console_y c" "console_y c < 35" "ansi_numbers c ! 0 = ANSI_DEFAULT"
    and "ansi_command c \<in> {65, 66, 67, 68, 72}"
  shows "\<exists>d. ansi_run c = Some (None, d) \<and> con_sizes d \<and> console_y d \<le> 35 \<and> (console_x d \<ge> 80 \<longrightarrow> console_y d \<le> 34)"
proof -
  have n: "length (ansi_numbers c) = 10" using assms(1) by (simp add: con_sizes_def)
  then have "hd (ansi_numbers c) = ANSI_DEFAULT" using assms(6) by (cases "ansi_numbers c") auto
  then have "ansi_distance c = 1" by (simp add: ansi_distance_def)
  then show ?thesis using assms n by (auto simp: ansi_run_def ansi_goto_def Let_def con_sizes_def)
qed

lemma ansi_run_accepted:
  assumes "con_ok c" "ansi_state c = Ansi_Number" "ch = 109 \<or> which_number c = - 1 \<and> ch \<in> {65, 66, 67, 68, 72}"
  shows "\<exists>d. ansi_run (c\<lparr>which_number := which_number c + 1, ansi_command := ch, ansi_state := Ansi_Complete\<rparr>) = Some (None, d)
    \<and> con_sizes d \<and> console_y d \<le> 35 \<and> (console_x d \<ge> 80 \<longrightarrow> console_y d \<le> 34)"
proof (cases "ch = 109")
  case True
  let ?d = "c\<lparr>which_number := which_number c + 1, ansi_command := ch, ansi_state := Ansi_Complete\<rparr>"
  obtain e where e: "ansi_run ?d = Some (None, e)" "only_colour ?d e"
    using ansi_run_colours[of ?d] con_okD(8)[OF assms(1)] assms(1,2) True by (auto simp: con_ok_def)
  have "con_sizes e \<and> console_y e \<le> 35 \<and> (console_x e \<ge> 80 \<longrightarrow> console_y e \<le> 34)"
    using e(2) con_okD[OF assms(1)] by (auto simp: only_colour_def con_sizes_def)
  then show ?thesis using e(1) by blast
next
  case False
  note c = con_okD[OF assms(1)]
  have "con_sizes (c\<lparr>which_number := which_number c + 1, ansi_command := ch, ansi_state := Ansi_Complete\<rparr>)"
    using c(1) by (simp add: con_sizes_def)
  from ansi_run_moves[OF this] show ?thesis using assms False c by (simp add: con_ok_def)
qed

lemma fb_char_ok:
  assumes "con_ok (con st)" "coloured (ansi_state (con st)) (which_number (con st)) (ch # cs)"
  shows "\<exists>r c. fb_char pk ch st = Some (False, r, st\<lparr>con := c\<rparr>) \<and> con_ok c \<and> coloured (ansi_state c) (which_number c) cs
    \<and> (ansi_state (con st) = Ansi_Normal \<and> ch \<noteq> 27 \<longrightarrow> ansi_state c = Ansi_Normal)"
proof (cases "ansi_state (con st) = Ansi_Number \<longrightarrow> is_digit ch \<or> ch = 59 \<and> which_number (con st) < 9")
  case True
  obtain r d where d: "fb_parse ch (con st) = Some (False, r, d)" "con_sizes d" "console_y d \<le> 35" "console_x d \<ge> 80 \<longrightarrow> console_y d \<le> 34"
    "ansi_state d \<noteq> Ansi_Complete" "ansi_state d = Ansi_Number \<longrightarrow> - 1 \<le> which_number d \<and> which_number d < 10
      \<and> (which_number d = - 1 \<longrightarrow> ansi_numbers d ! 0 = ANSI_DEFAULT)"
    using fb_parse_ok[OF assms(1), of ch] True by blast
  obtain r' c' where b: "bounds_check d = (r', c')" by force
  have "con_ok c'" using bounds_check_ok[of d] d b by simp
  moreover have "fb_char pk ch st = Some (False, r \<or> r', st\<lparr>con := c'\<rparr>)" using d(1,5) b by (simp add: fb_char_def)
  moreover have "ansi_state c' = ansi_state d" "which_number c' = which_number d"
    using b by (auto simp: bounds_check_def Let_def split: if_splits)
  moreover have "coloured (ansi_state d) (which_number d) cs"
    using assms True d(1) con_okD(8)[OF assms(1)]
    by (cases "ansi_state (con st)")
      (auto simp: con_ok_def fb_parse_def ansi_normal_def ansi_escape_def ansi_number_def Let_def split: if_splits bind_splits)
  moreover have "ansi_state d = Ansi_Normal" if "ansi_state (con st) = Ansi_Normal" "ch \<noteq> 27"
    using d(1) that by (auto simp: fb_parse_def ansi_normal_def Let_def split: if_splits bind_splits)
  ultimately show ?thesis by auto
next
  case False
  let ?c = "con st"
  have n: "ansi_state ?c = Ansi_Number" "\<not> is_digit ch" "ch \<noteq> 59" "coloured Ansi_Normal (- 1) cs"
    and ch: "ch = 109 \<or> which_number ?c = - 1 \<and> ch \<in> {65, 66, 67, 68, 72}"
    using False assms(2) by (auto split: if_splits)
  let ?d = "?c\<lparr>which_number := which_number ?c + 1, ansi_command := ch, ansi_state := Ansi_Complete\<rparr>"
  have p: "fb_parse ch ?c = Some (False, False, ?d)" using n by (simp add: fb_parse_def ansi_number_def)
  obtain e where e: "ansi_run ?d = Some (None, e)" "con_sizes e" "console_y e \<le> 35" "console_x e \<ge> 80 \<longrightarrow> console_y e \<le> 34"
    using ansi_run_accepted[OF assms(1) n(1) ch] by blast
  let ?e = "e\<lparr>which_number := - 1, ansi_state := Ansi_Normal\<rparr>"
  obtain r c' where b: "bounds_check ?e = (r, c')" by force
  have "con_ok c'" using bounds_check_ok[of ?e] e b by (simp add: con_sizes_def)
  moreover have "ansi_state c' = Ansi_Normal" "which_number c' = - 1"
    using b by (auto simp: bounds_check_def Let_def split: if_splits)
  moreover have "fb_complete pk (st\<lparr>con := ?d\<rparr>) = Some (st\<lparr>con := ?e\<rparr>)" using e(1) by (simp add: fb_complete_def)
  then have "fb_char pk ch st = Some (False, r, st\<lparr>con := c'\<rparr>)" using p b by (simp add: fb_char_def)
  ultimately show ?thesis using n(1,4) by auto
qed

lemma fb_chars_ok:
  assumes "con_ok (con st)" "coloured (ansi_state (con st)) (which_number (con st)) cs" "cs \<noteq> []" "len = i + length cs"
  shows "\<exists>r c. fb_chars pk cs i len refresh st = Some (r, st\<lparr>con := c\<rparr>) \<and> con_ok c
    \<and> (ansi_state (con st) = Ansi_Normal \<and> 27 \<notin> set cs \<longrightarrow> ansi_state c = Ansi_Normal)"
  using assms
proof (induction cs arbitrary: i refresh st)
  case (Cons ch cs)
  obtain r c where c: "fb_char pk ch st = Some (False, r, st\<lparr>con := c\<rparr>)" "con_ok c" "coloured (ansi_state c) (which_number c) cs"
    "ansi_state (con st) = Ansi_Normal \<and> ch \<noteq> 27 \<longrightarrow> ansi_state c = Ansi_Normal"
    using fb_char_ok[OF Cons.prems(1,2)] by blast
  show ?case
  proof (cases "cs = []")
    case False
    then show ?thesis
      using Cons.IH[of "st\<lparr>con := c\<rparr>" "Suc i" "refresh \<or> r"] c Cons.prems(4) by auto
  qed (use c Cons.prems(4) in auto)
qed simp

lemma framebuffer_console_write_eq:
  assumes "console_initialized (con st)" "fb_chars pk cs 0 len False st = Some (r, st\<lparr>con := c\<rparr>)" "con_ok c"
  shows "\<exists>d. framebuffer_console_write pk cs len st = Some (0, st\<lparr>con := d\<rparr>) \<and> only_fb c d"
proof -
  have "fb_sizes (fbuf c)" using con_okD(1)[OF assms(3)] by (simp add: con_sizes_def)
  then obtain f where f: "r \<Longrightarrow> framebuffer_clear_screen 0 (fbuf c) = Some f" "\<not> r \<Longrightarrow> f = fbuf c" "same_sizes (fbuf c) f"
    using clear_in[of "fbuf c" 0] by (cases r) auto
  have "con_sizes (c\<lparr>fbuf := f\<rparr>)" using con_okD(1)[OF assms(3)] fb_sizes_cong[OF f(3)] by (simp add: con_sizes_def)
  then obtain d where d: "framebuffer_console_push (c\<lparr>fbuf := f\<rparr>) = Some d" "only_fb (c\<lparr>fbuf := f\<rparr>) d"
    using console_push_in by blast
  have "only_fb c (c\<lparr>fbuf := f\<rparr>)" using f(3) unfolding only_fb_def by blast
  moreover have "framebuffer_console_write pk cs len st = Some (0, st\<lparr>con := d\<rparr>)"
    using assms(1,2) f(1,2) d(1) by (cases r) (simp_all add: framebuffer_console_write_def)
  ultimately show ?thesis using only_fb_trans d(2) by blast
qed

lemma only_fb_ok: "only_fb c d \<Longrightarrow> con_ok c \<Longrightarrow> con_ok d"
  using only_fb_sizes[of c d] by (auto simp: con_ok_def only_fb_def)

lemma framebuffer_console_write_ok:
  assumes "con_ok (con st)" "coloured (ansi_state (con st)) (which_number (con st)) cs" "cs \<noteq> []"
  shows "\<exists>c n. framebuffer_console_write pk cs (length cs) st = Some (n, st\<lparr>con := c\<rparr>) \<and> con_ok c
    \<and> (ansi_state (con st) = Ansi_Normal \<and> 27 \<notin> set cs \<longrightarrow> ansi_state c = Ansi_Normal)"
proof (cases "console_initialized (con st)")
  case True
  obtain r c where c: "fb_chars pk cs 0 (length cs) False st = Some (r, st\<lparr>con := c\<rparr>)" "con_ok c"
    "ansi_state (con st) = Ansi_Normal \<and> 27 \<notin> set cs \<longrightarrow> ansi_state c = Ansi_Normal"
    using fb_chars_ok[OF assms, of "length cs" 0 pk False] by auto
  obtain d where d: "framebuffer_console_write pk cs (length cs) st = Some (0, st\<lparr>con := d\<rparr>)" "only_fb c d"
    using framebuffer_console_write_eq[OF True c(1,2)] by blast
  then have "ansi_state d = ansi_state c" by (auto simp: only_fb_def)
  then show ?thesis using d c(3) only_fb_ok[OF d(2) c(2)] by auto
next
  case False
  then show ?thesis using assms(1) by (intro exI[of _ "con st"]) (simp add: framebuffer_console_write_def)
qed

lemma console_write_eq:
  assumes "\<And>s. con s = con st \<Longrightarrow> \<exists>n d. framebuffer_console_write (printk depth) cs (length cs) s = Some (n, s\<lparr>con := d\<rparr>) \<and> P d"
    and "console_locking_enabled st \<Longrightarrow> \<not> console_print_mutex st"
  shows "\<exists>c. console_write depth cs (length cs) st = Some (if serial_initialized st then length cs else 0,
      st\<lparr>con := c, serial_out := serial_out st @ (if serial_initialized st then serial_chars cs else [])\<rparr>) \<and> P c"
proof -
  define st0 where "st0 = (if console_locking_enabled st then st\<lparr>console_print_mutex := True\<rparr> else st)"
  define st1 where "st1 = st0\<lparr>serial_out := serial_out st @ (if serial_initialized st then serial_chars cs else [])\<rparr>"
  have s: "serial_write cs (length cs) st0 = Some (if serial_initialized st then length cs else 0, st1)"
    by (simp add: serial_write_def slice_def st0_def st1_def)
  have k: "con st1 = con st" by (simp add: st0_def st1_def)
  obtain c n where c: "framebuffer_console_write (printk depth) cs (length cs) st1 = Some (n, st1\<lparr>con := c\<rparr>)" "P c"
    using assms(1)[OF k] by blast
  have "console_write depth cs (length cs) st = Some (if serial_initialized st then length cs else 0,
      (if console_locking_enabled (st1\<lparr>con := c\<rparr>) then (st1\<lparr>con := c\<rparr>)\<lparr>console_print_mutex := False\<rparr> else st1\<lparr>con := c\<rparr>))"
    unfolding console_write_def console_write_with_def
    using s c(1) assms(2) by (cases "console_locking_enabled st") (simp_all add: st0_def)
  moreover have "(if console_locking_enabled (st1\<lparr>con := c\<rparr>) then (st1\<lparr>con := c\<rparr>)\<lparr>console_print_mutex := False\<rparr> else st1\<lparr>con := c\<rparr>)
      = st\<lparr>con := c, serial_out := serial_out st @ (if serial_initialized st then serial_chars cs else [])\<rparr>"
    using assms(2) by (cases "console_locking_enabled st") (simp_all add: st0_def st1_def)
  ultimately show ?thesis using c(2) by auto
qed

lemma console_write_ok:
  assumes "con_ok (con st)" "coloured (ansi_state (con st)) (which_number (con st)) cs" "cs \<noteq> []"
    and "console_locking_enabled st \<Longrightarrow> \<not> console_print_mutex st"
  shows "\<exists>c. console_write depth cs (length cs) st = Some (if serial_initialized st then length cs else 0,
      st\<lparr>con := c, serial_out := serial_out st @ (if serial_initialized st then serial_chars cs else [])\<rparr>)
      \<and> con_ok c \<and> (ansi_state (con st) = Ansi_Normal \<and> 27 \<notin> set cs \<longrightarrow> ansi_state c = Ansi_Normal)"
proof (rule console_write_eq[OF _ assms(4)])
  fix s :: conout assume "con s = con st"
  then show "\<exists>n d. framebuffer_console_write (printk depth) cs (length cs) s = Some (n, s\<lparr>con := d\<rparr>)
      \<and> con_ok d \<and> (ansi_state (con st) = Ansi_Normal \<and> 27 \<notin> set cs \<longrightarrow> ansi_state d = Ansi_Normal)"
    using framebuffer_console_write_ok[of s cs "printk depth"] assms(1-3) by force
qed

section \<open>Messages\<close>

text \<open>Only the characters that are written matter, not the rest of the buffer.\<close>

lemma fb_chars_prefix: "cs \<noteq> [] \<Longrightarrow> fb_chars pk (cs @ rest) i (i + length cs) r st = fb_chars pk cs i (i + length cs) r st"
proof (induction cs arbitrary: i r st)
  case (Cons ch cs)
  show ?case
  proof (cases "cs = []")
    case False
    have "fb_chars pk (cs @ rest) (Suc i) (Suc (i + length cs)) r' st' = fb_chars pk cs (Suc i) (Suc (i + length cs)) r' st'" for r' st'
      using Cons.IH[OF False, of "Suc i"] by simp
    then show ?thesis using False by (auto intro!: Option.bind_cong simp: split_def)
  qed (auto simp: split_def intro!: Option.bind_cong)
qed simp

lemma console_write_prefix:
  assumes "cs \<noteq> []"
  shows "console_write depth (cs @ rest) (length cs) st = console_write depth cs (length cs) st"
proof -
  have "framebuffer_console_write pk (cs @ rest) (length cs) s = framebuffer_console_write pk cs (length cs) s" for pk s
    using fb_chars_prefix[OF assms, of pk rest 0 False s] by (simp add: framebuffer_console_write_def)
  moreover have "serial_write (cs @ rest) (length cs) s = serial_write cs (length cs) s" for s
    by (simp add: serial_write_def slice_def)
  ultimately show ?thesis by (simp add: console_write_def console_write_with_def)
qed

lemma dmesg_append_prefix: "dmesg_ok d \<Longrightarrow> dmesg_append (cs @ rest) (length cs) d = dmesg_append cs (length cs) d"
  by (auto simp: dmesg_append_def slice_def Let_def dmesg_ok_def)

definition out_ok :: "conout \<Rightarrow> bool" where
  "out_ok st \<longleftrightarrow> con_ok (con st) \<and> ansi_state (con st) = Ansi_Normal
     \<and> (console_locking_enabled st \<longrightarrow> \<not> console_print_mutex st) \<and> dmesg_ok (kernel_log st)"

lemma coloured_plain: "27 \<notin> set cs \<Longrightarrow> coloured Ansi_Normal w cs"
  by (induction cs) auto

lemma printk_ok:
  assumes "out_ok st" "render fmt ap = Some txt" "txt \<noteq> []" "length txt < 256" "27 \<notin> set txt"
  shows "\<exists>st'. printk (Suc depth) fmt ap st = Some st' \<and> out_ok st'
    \<and> dmesg_append txt (length txt) (kernel_log st) = Some (0, kernel_log st')
    \<and> serial_out st' = serial_out st @ (if serial_initialized st then serial_chars txt else [])"
proof -
  let ?buf = "txt @ 0 # drop (Suc (length txt)) (replicate 256 0)"
  have v: "vsnprintf (replicate 256 0) 256 fmt ap = Some (int (length txt), ?buf)"
    by (rule vsnprintf_fits_eq[OF assms(2)]) (use assms(4) in simp_all)
  have d: "dmesg_ok (kernel_log st)" using assms(1) by (simp add: out_ok_def)
  obtain lg where lg: "dmesg_append txt (length txt) (kernel_log st) = Some (0, lg)" "dmesg_ok lg"
    using dmesg_append_eq[OF d refl] dmesg_append_ok[OF d refl] assms(4) by (auto simp: Let_def)
  let ?st = "st\<lparr>kernel_log := lg\<rparr>"
  have c: "coloured (ansi_state (con ?st)) (which_number (con ?st)) txt" using assms(1) coloured_plain[OF assms(5)] by (simp add: out_ok_def)
  obtain c' where c': "console_write depth txt (length txt) ?st = Some (if serial_initialized ?st then length txt else 0,
      ?st\<lparr>con := c', serial_out := serial_out ?st @ (if serial_initialized ?st then serial_chars txt else [])\<rparr>)"
    "con_ok c'" "ansi_state c' = Ansi_Normal"
    using console_write_ok[OF _ c assms(3), of depth] assms(1,5) by (auto simp: out_ok_def)
  let ?st' = "?st\<lparr>con := c', serial_out := serial_out st @ (if serial_initialized st then serial_chars txt else [])\<rparr>"
  have w: "console_write_with (printk depth) ?buf (length txt) ?st = Some (if serial_initialized st then length txt else 0, ?st')"
    using c'(1) console_write_prefix[OF assms(3), of depth _ ?st] unfolding console_write_def by simp
  have "printk (Suc depth) fmt ap st = Some ?st'"
    using v lg(1) w by (simp add: dmesg_append_prefix[OF d])
  then show ?thesis using lg c'(2,3) assms(1) by (auto simp: out_ok_def)
qed

section \<open>Messages from inside a sequence\<close>

text \<open>\<open>printk\<close> is entered again while the sequence is still complete, and finds the same command.\<close>

definition stuck :: "text_console \<Rightarrow> bool" where
  "stuck c \<longleftrightarrow> console_initialized c \<and> ansi_state c = Ansi_Complete \<and> (\<exists>m. ansi_run c = Some (Some m, c))"

lemma fb_complete_stuck:
  assumes "stuck (con st)" "\<And>fmt ap st. stuck (con st) \<Longrightarrow> pk fmt ap st = None"
  shows "fb_complete pk st = None"
proof -
  obtain fmt ap where "ansi_run (con st) = Some (Some (fmt, ap), con st)" using assms(1) by (auto simp: stuck_def)
  then show ?thesis using assms by (simp add: fb_complete_def)
qed

lemma printk_stuck: "stuck (con st) \<Longrightarrow> printk depth fmt ap st = None"
proof (induction depth arbitrary: fmt ap st)
  case (Suc n)
  have ch: "fb_char (printk n) ch s = None" if "stuck (con s)" for ch s
  proof -
    have "fb_complete (printk n) s = None" using fb_complete_stuck[OF that] Suc.IH by blast
    then show ?thesis using that by (simp add: fb_char_def fb_parse_def stuck_def)
  qed
  have w: "framebuffer_console_write (printk n) buf len s = None" if "stuck (con s)" for buf len s
  proof -
    have "fb_chars (printk n) buf 0 len False s = None" using ch[OF that] by (cases buf) simp_all
    then show ?thesis using that by (simp add: framebuffer_console_write_def stuck_def)
  qed
  have "console_write_with (printk n) buf len s = None" if "stuck (con s)" for buf len s
  proof -
    let ?s0 = "if console_locking_enabled s then s\<lparr>console_print_mutex := True\<rparr> else s"
    have "stuck (con s1)" if "serial_write buf len ?s0 = Some (m, s1)" for m s1
      using that \<open>stuck (con s)\<close> by (auto simp: serial_write_def split: if_splits bind_splits)
    then show ?thesis using w by (cases "serial_write buf len ?s0") (auto simp: console_write_with_def)
  qed
  then show ?case using Suc.prems by (auto split: bind_splits)
qed simp

text \<open>A character that neither completes a sequence nor moves the cursor off the screen.\<close>

lemma fb_char_plain:
  assumes "fb_parse ch c = Some (False, r, d)" "ansi_state d \<noteq> Ansi_Complete"
    "0 \<le> console_x d" "console_x d < 80" "0 \<le> console_y d" "console_y d < 35"
  shows "fb_char pk ch (st\<lparr>con := c\<rparr>) = Some (False, r, st\<lparr>con := d\<rparr>)"
proof -
  have "bounds_check d = (False, d)" using assms(3-6) by (simp add: bounds_check_def Let_def)
  then show ?thesis using assms(1,2) by (simp add: fb_char_def)
qed

lemma fb_chars_text:
  assumes "con_ok c" "ansi_state c = Ansi_Normal" "\<forall>ch \<in> set cs. ch \<notin> {8, 9, 10, 13, 27}" "cs \<noteq> []"
    "console_x c + int (length cs) < 80"
  shows "\<exists>r d. fb_chars pk cs i (i + length cs) refresh (st\<lparr>con := c\<rparr>) = Some (r, st\<lparr>con := d\<rparr>) \<and> con_ok d
    \<and> console_x d = console_x c + int (length cs) \<and> console_y d = console_y c
    \<and> console_text d = take (nat (console_x c + console_y c * 80)) (console_text c) @ cs
        @ drop (nat (console_x c + console_y c * 80) + length cs) (console_text c)"
  using assms
proof (induction cs arbitrary: i refresh c)
  case (Cons ch cs)
  note c = con_okD[OF Cons.prems(1)]
  let ?p = "console_x c + console_y c * 80"
  have p: "0 \<le> ?p" "?p < 2800" using c(2-5) by simp_all
  let ?l = "(text_color c)[nat ?p := ucast (push_bit 4 (back_color c) OR (fore_color c AND 0xf))]"
  let ?d = "c\<lparr>console_text := (console_text c)[nat ?p := ch], text_color := ?l, console_x := console_x c + 1\<rparr>"
  have 1: "fb_char pk ch (st\<lparr>con := c\<rparr>) = Some (False, console_text c ! nat ?p \<noteq> 32, st\<lparr>con := ?d\<rparr>)"
    by (rule fb_char_plain)
      (use Cons.prems c p in \<open>simp_all add: fb_parse_def ansi_normal_def Let_def\<close>)
  have d: "con_ok ?d" using Cons.prems(1,2,5) by (simp add: con_ok_def con_sizes_def)
  have n: "nat ?p < length (console_text c)" using p c(6) by simp
  have step: "(console_text c)[nat ?p := ch] = take (nat ?p) (console_text c) @ ch # drop (Suc (nat ?p)) (console_text c)"
    by (rule upd_conv_take_nth_drop[OF n])
  show ?case
  proof (cases "cs = []")
    case True
    then show ?thesis using 1 d step by (intro exI[of _ "refresh \<or> console_text c ! nat ?p \<noteq> 32"] exI[of _ ?d]) simp
  next
    case False
    have x: "console_x ?d + int (length cs) < 80" using Cons.prems(5) by simp
    obtain r e where e: "fb_chars pk cs (Suc i) (Suc i + length cs) (refresh \<or> console_text c ! nat ?p \<noteq> 32) (st\<lparr>con := ?d\<rparr>) = Some (r, st\<lparr>con := e\<rparr>)"
      "con_ok e" "console_x e = console_x ?d + int (length cs)" "console_y e = console_y ?d"
      "console_text e = take (nat (console_x ?d + console_y ?d * 80)) (console_text ?d) @ cs
        @ drop (nat (console_x ?d + console_y ?d * 80) + length cs) (console_text ?d)"
      using Cons.IH[OF d _ _ False x, of "Suc i" "refresh \<or> console_text c ! nat ?p \<noteq> 32"] Cons.prems(2,3) by auto
    have q: "nat (console_x ?d + console_y ?d * 80) = Suc (nat ?p)" using p by simp
    have "console_text e = take (nat ?p) (console_text c) @ (ch # cs) @ drop (nat ?p + length (ch # cs)) (console_text c)"
      unfolding e(5) q using n by (simp add: step take_Suc_conv_app_nth nth_append min_def add.commute)
    then show ?thesis using 1 e(1-4) False by auto
  qed
qed simp

text \<open>A loop of length 0 does not find its end.\<close>

lemma fb_chars_zero:
  assumes "con_ok (con st)" "coloured (ansi_state (con st)) (which_number (con st)) cs"
  shows "fb_chars pk cs i 0 refresh st = None"
  using assms
proof (induction cs arbitrary: i refresh st)
  case (Cons ch cs)
  obtain r c where c: "fb_char pk ch st = Some (False, r, st\<lparr>con := c\<rparr>)" "con_ok c" "coloured (ansi_state c) (which_number c) cs"
    using fb_char_ok[OF Cons.prems] by blast
  then show ?case using Cons.IH[of "st\<lparr>con := c\<rparr>"] by simp
qed simp

section \<open>Properties\<close>

definition demo_fb :: fb where
  "demo_fb = \<lparr>framebuffer_initialized = False, phys_x = 0, phys_y = 0, pitch = 0, offscreen = [], fb_memory = []\<rparr>"

definition demo_con :: text_console where
  "demo_con = \<lparr>console_initialized = True, font_ysize = 16, current_font = replicate 4096 0, console_text = replicate 2800 32,
     text_color = replicate 2800 7, console_x = 0, console_y = 0, fore_color = 0xffffff, back_color = 0, fore_bright = 0,
     ansi_numbers = replicate 10 0, which_number = - 1, ansi_state = Ansi_Normal, ansi_command = 0, fbuf = demo_fb\<rparr>"

definition demo_out :: conout where
  "demo_out = \<lparr>con = demo_con, serial_initialized = True, serial_out = [], console_locking_enabled = False,
     console_print_mutex = False, kernel_log = dmesg_init\<rparr>"

lemma demo_con_ok: "con_ok (con demo_out)"
  by (simp add: con_ok_def con_sizes_def fb_sizes_def demo_out_def demo_con_def demo_fb_def)

lemma demo_con_fields: "ansi_state (con demo_out) = Ansi_Normal" "console_initialized (con demo_out)"
  "\<not> console_locking_enabled demo_out" "console_x (con demo_out) = 0" "console_y (con demo_out) = 0"
  "serial_initialized demo_out" "serial_out demo_out = []" "ansi_numbers (con demo_out) = replicate 10 0"
  by (simp_all add: demo_out_def demo_con_def)





text \<open>
  Writing no characters to an initialised text console runs past the end of any buffer of coloured text: the loop tests its end after
  it has read a character, and finds it only when the index meets the length, which it has already passed.
\<close>

theorem empty_write_runs_on:
  assumes "con_ok (con st)" and "coloured (ansi_state (con st)) (which_number (con st)) cs" and "console_initialized (con st)"
  shows "framebuffer_console_write pk cs 0 st = None"
  using fb_chars_zero[OF assms(1,2)] assms(3) by (simp add: framebuffer_console_write_def)

lemma empty_write_runs_on_witness: "framebuffer_console_write (printk 3) [65, 66, 67] 0 demo_out = None"
  using empty_write_runs_on[OF demo_con_ok, of "[65, 66, 67]" "printk 3"] by (simp add: demo_con_fields)

text \<open>
  Moving the cursor down past the bottom scrolls by one line only and leaves the cursor below the screen; the next character is stored
  behind the table.
\<close>

theorem cursor_down_leaves_table:
  assumes "con_ok (con st)" and "ansi_state (con st) = Ansi_Normal" and "console_initialized (con st)"
    and "is_digit d1" and "is_digit d2" and "36 \<le> console_y (con st) + 10 * (uint d1 - 48) + (uint d2 - 48)"
    and "ch \<notin> {8, 9, 10, 13, 27}"
  shows "framebuffer_console_write pk [27, 91, d1, d2, 66, ch] 6 st = None"
proof -
  let ?c = "con st"
  note c = con_okD[OF assms(1)]
  define e where "e = 10 * (uint d1 - 48) + (uint d2 - 48)"
  have dig: "48 \<le> uint d1" "uint d1 \<le> 57" "48 \<le> uint d2" "uint d2 \<le> 57"
    using assms(4,5) by (simp_all add: is_digit_def word_le_def)
  then have e: "0 \<le> e" "e \<le> 99" by (simp_all add: e_def)
  let ?n1 = "ucast (d1 - 48) :: u32" and ?n2 = "ucast (d1 - 48) * 10 + ucast (d2 - 48) :: u32"
  have u: "uint ?n1 = uint d1 - 48" "uint (ucast (d2 - 48) :: u32) = uint d2 - 48"
    using dig by (simp_all add: unsigned_ucast_eq take_bit_eq_mod uint_word_ariths mod_pos_pos_trivial)
  have u2: "uint ?n2 = e"
    using dig u by (simp add: uint_word_ariths e_def mod_pos_pos_trivial)
  have s2: "sint ?n2 = e" "?n2 \<noteq> ANSI_DEFAULT"
  proof -
    show "sint ?n2 = e" unfolding sint_uint u2 by (rule signed_take_bit_int_eq_self) (use e in simp_all)
    show "?n2 \<noteq> ANSI_DEFAULT" using u2 e by auto
  qed
  let ?c1 = "?c\<lparr>ansi_state := Ansi_Escape\<rparr>"
  let ?c2 = "?c\<lparr>which_number := - 1, ansi_numbers := (ansi_numbers ?c)[0 := ANSI_DEFAULT], ansi_state := Ansi_Number\<rparr>"
  let ?c3 = "?c2\<lparr>which_number := 0, ansi_numbers := (ansi_numbers ?c)[0 := ?n1]\<rparr>"
  let ?c4 = "?c3\<lparr>ansi_numbers := (ansi_numbers ?c)[0 := ?n2]\<rparr>"
  let ?y = "console_y ?c + e"
  let ?c5 = "?c4\<lparr>which_number := 1, ansi_command := 66, ansi_state := Ansi_Complete\<rparr>"
  let ?c6 = "?c5\<lparr>console_y := ?y, which_number := - 1, ansi_state := Ansi_Normal\<rparr>"
  have 1: "fb_char pk 27 st = Some (False, False, st\<lparr>con := ?c1\<rparr>)"
    by (rule fb_char_plain[of _ ?c, where st = st, simplified]) (use assms(2) c in \<open>simp_all add: fb_parse_def ansi_normal_def\<close>)
  have 2: "fb_char pk 91 (st\<lparr>con := ?c1\<rparr>) = Some (False, False, st\<lparr>con := ?c2\<rparr>)"
    by (rule fb_char_plain) (use c in \<open>simp_all add: fb_parse_def ansi_escape_def\<close>)
  have 3: "fb_char pk d1 (st\<lparr>con := ?c2\<rparr>) = Some (False, False, st\<lparr>con := ?c3\<rparr>)"
    by (rule fb_char_plain)
      (use c assms(4) in \<open>simp_all add: fb_parse_def ansi_number_def\<close>)
  have 4: "fb_char pk d2 (st\<lparr>con := ?c3\<rparr>) = Some (False, False, st\<lparr>con := ?c4\<rparr>)"
    by (rule fb_char_plain)
      (use c assms(5) in \<open>simp_all add: fb_parse_def ansi_number_def\<close>)
  have "hd ((ansi_numbers ?c)[0 := ?n2]) = ?n2" using c(8) by (cases "ansi_numbers ?c") auto
  then have d: "ansi_distance ?c5 = e" using s2 by (simp add: ansi_distance_def)
  then have "ansi_run ?c5 = Some (None, ?c5\<lparr>console_y := ?y\<rparr>)" using c(4,5) e by (simp add: ansi_run_def Let_def)
  then have 5: "fb_complete pk (st\<lparr>con := ?c5\<rparr>) = Some (st\<lparr>con := ?c6\<rparr>)" by (simp add: fb_complete_def)
  obtain r c7 where b: "bounds_check ?c6 = (r, c7)" by force
  have c7: "console_y c7 = ?y - 1" "console_x c7 = console_x ?c" "length (console_text c7) = 2800" "ansi_state c7 = Ansi_Normal"
    using b c(2-6) e assms(6) by (auto simp: bounds_check_def Let_def e_def)
  have "fb_parse 66 ?c4 = Some (False, False, ?c5)" by (simp add: fb_parse_def ansi_number_def is_digit_def)
  then have 6: "fb_char pk 66 (st\<lparr>con := ?c4\<rparr>) = Some (False, r, st\<lparr>con := c7\<rparr>)" using 5 b by (simp add: fb_char_def)
  have "2800 \<le> console_x c7 + console_y c7 * 80" using c7(1,2) c(2) assms(6) by (simp add: e_def)
  then have "rdi (console_text c7) (console_x c7 + console_y c7 * 80) = None" using c7(3) by (simp add: rdi_def rd_def)
  then have "fb_char pk ch (st\<lparr>con := c7\<rparr>) = None" using c7(4) assms(7) by (simp add: fb_char_def fb_parse_def ansi_normal_def)
  then show ?thesis using 1 2 3 4 6 assms(3) by (simp add: framebuffer_console_write_def)
qed

lemma cursor_down_leaves_table_witness: "framebuffer_console_write (printk 3) [27, 91, 57, 57, 66, 120] 6 demo_out = None"
  by (rule cursor_down_leaves_table[OF demo_con_ok]) (simp_all add: demo_con_fields is_digit_def)

text \<open>
  Ordinary characters that fit on the line appear there, one after the other from the cursor on, and the cursor moves behind
  them; every other place of the screen keeps its character.
\<close>

theorem text_appears:
  assumes "con_ok (con st)" and "ansi_state (con st) = Ansi_Normal" and "console_initialized (con st)"
    and "\<forall>ch \<in> set cs. ch \<notin> {8, 9, 10, 13, 27}" and "cs \<noteq> []" and "console_x (con st) + int (length cs) < 80"
    and "console_locking_enabled st \<Longrightarrow> \<not> console_print_mutex st"
  shows "\<exists>n st'. console_write depth cs (length cs) st = Some (n, st')
    \<and> console_x (con st') = console_x (con st) + int (length cs) \<and> console_y (con st') = console_y (con st)
    \<and> (\<forall>x y. 0 \<le> x \<and> x < 80 \<and> 0 \<le> y \<and> y < 35 \<longrightarrow> framebuffer_console_val x y (con st') =
        (if y = console_y (con st) \<and> console_x (con st) \<le> x \<and> x < console_x (con st) + int (length cs)
         then Some (uint (cs ! nat (x - console_x (con st)))) else framebuffer_console_val x y (con st)))"
proof -
  let ?c = "con st"
  note c = con_okD[OF assms(1)]
  define p where "p = nat (console_x ?c + console_y ?c * 80)"
  let ?P = "\<lambda>d. console_x d = console_x ?c + int (length cs) \<and> console_y d = console_y ?c
    \<and> console_text d = take p (console_text ?c) @ cs @ drop (p + length cs) (console_text ?c)"
  have w: "\<exists>n d. framebuffer_console_write (printk depth) cs (length cs) s = Some (n, s\<lparr>con := d\<rparr>) \<and> ?P d" if s: "con s = ?c" for s
  proof -
    obtain r d where d: "fb_chars (printk depth) cs 0 (0 + length cs) False (s\<lparr>con := ?c\<rparr>) = Some (r, s\<lparr>con := d\<rparr>)" "con_ok d" "?P d"
      using fb_chars_text[OF assms(1,2,4-6), of "printk depth" 0 False s] unfolding p_def by blast
    have "s\<lparr>con := ?c\<rparr> = s" using s by simp
    then have "fb_chars (printk depth) cs 0 (length cs) False s = Some (r, s\<lparr>con := d\<rparr>)" using d(1) by simp
    from framebuffer_console_write_eq[OF _ this d(2)] assms(3) s
    obtain e where e: "framebuffer_console_write (printk depth) cs (length cs) s = Some (0, s\<lparr>con := e\<rparr>)" "only_fb d e" by auto
    then have "?P e" using d(3) by (auto simp: only_fb_def)
    then show ?thesis using e(1) by blast
  qed
  from console_write_eq[where P = ?P, OF w assms(7)]
  obtain n st' where st': "console_write depth cs (length cs) st = Some (n, st')" "?P (con st')" by auto
  have pl: "p + length cs \<le> 2800" using c(2-5) assms(6) by (simp add: p_def)
  have "framebuffer_console_val x y (con st') =
      (if y = console_y ?c \<and> console_x ?c \<le> x \<and> x < console_x ?c + int (length cs)
       then Some (uint (cs ! nat (x - console_x ?c))) else framebuffer_console_val x y ?c)"
    if "0 \<le> x" "x < 80" "0 \<le> y" "y < 35" for x y
  proof -
    have len: "length (console_text (con st')) = 2800" using st'(2) c(6) pl by simp
    have r: "0 \<le> x + y * 80" "x + y * 80 < 2800" using that by simp_all
    have "console_text (con st') ! nat (x + y * 80) =
        (if p \<le> nat (x + y * 80) \<and> nat (x + y * 80) < p + length cs then cs ! (nat (x + y * 80) - p) else console_text ?c ! nat (x + y * 80))"
      using st'(2) nth_spliced[of p cs "console_text ?c" "nat (x + y * 80)"] pl c(6) r by simp
    moreover have "p \<le> nat (x + y * 80) \<and> nat (x + y * 80) < p + length cs \<longleftrightarrow>
        y = console_y ?c \<and> console_x ?c \<le> x \<and> x < console_x ?c + int (length cs)"
    proof -
      have ip: "int p = console_x ?c + console_y ?c * 80" using c(2,4) by (simp add: p_def)
      have "p \<le> nat (x + y * 80) \<longleftrightarrow> int p \<le> x + y * 80" "nat (x + y * 80) < p + length cs \<longleftrightarrow> x + y * 80 < int p + int (length cs)"
        using r(1) by (simp_all add: le_nat_iff nat_less_iff)
      moreover consider "y \<le> console_y ?c - 1" | "y = console_y ?c" | "y \<ge> console_y ?c + 1" by linarith
      then have "int p \<le> x + y * 80 \<and> x + y * 80 < int p + int (length cs) \<longleftrightarrow>
          y = console_y ?c \<and> console_x ?c \<le> x \<and> x < console_x ?c + int (length cs)"
        unfolding ip by cases (use that c(2-5) assms(6) in simp_all)
      ultimately show ?thesis by blast
    qed
    moreover have "nat (x + y * 80) - p = nat (x - console_x ?c)" if "y = console_y ?c" "console_x ?c \<le> x"
      using that c(2,4) by (simp add: p_def nat_diff_distrib[symmetric])
    ultimately show ?thesis using that r len c(6) by (simp add: framebuffer_console_val_def)
  qed
  then show ?thesis using st' by blast
qed

lemma text_appears_witness:
  "\<exists>st'. console_write 0 [72, 105] 2 demo_out = Some (2, st') \<and> framebuffer_console_val 1 0 (con st') = Some 105
    \<and> console_x (con st') = 2"
proof -
  have l: "length [72, 105 :: byte] = 2" by simp
  have "\<exists>n st'. console_write 0 [72, 105] 2 demo_out = Some (n, st')
    \<and> console_x (con st') = 2 \<and> framebuffer_console_val 1 0 (con st') = Some 105"
    using text_appears[OF demo_con_ok demo_con_fields(1,2), of "[72, 105]" 0, unfolded l]
    by (auto simp: demo_con_fields dest: spec[of _ 1])
  moreover have "\<exists>st'. console_write 0 [72, 105] 2 demo_out = Some (2, st')"
    using console_write_ok[OF demo_con_ok, of "[72, 105]" 0, unfolded l] by (auto simp: demo_con_fields)
  ultimately show ?thesis by auto
qed

text \<open>
  The sequence that moves the cursor to a row takes the column from the second number of an earlier sequence: the case of one number tests
  for 0 numbers, which the command itself has already counted.
\<close>

theorem goto_row_takes_old_column:
  assumes "con_ok (con st)" and "ansi_state (con st) = Ansi_Normal"
    and "is_digit d" and "d \<noteq> 48" and "0 \<le> sint (ansi_numbers (con st) ! 1 - 1)" and "sint (ansi_numbers (con st) ! 1 - 1) < 80"
  shows "\<exists>r c'. fb_chars pk [27, 91, d, 72] 0 4 False st = Some (r, st\<lparr>con := c'\<rparr>)
    \<and> console_y c' = uint d - 49 \<and> console_x c' = sint (ansi_numbers (con st) ! 1 - 1)"
proof -
  let ?c = "con st"
  note c = con_okD[OF assms(1)]
  have dig: "49 \<le> uint d" "uint d \<le> 57"
  proof -
    have "48 \<le> uint d" "uint d \<le> 57" using assms(3) by (simp_all add: is_digit_def word_le_def)
    moreover have "uint d \<noteq> 48" using assms(4) by (metis word_of_int_uint word_of_int_numeral)
    ultimately show "49 \<le> uint d" "uint d \<le> 57" by auto
  qed
  let ?n = "ucast (d - 48) :: u32"
  have u: "uint ?n = uint d - 48"
    using dig by (simp add: unsigned_ucast_eq take_bit_eq_mod uint_word_ariths mod_pos_pos_trivial)
  have "uint (?n - 1) = uint d - 49" using u dig by (simp add: uint_word_ariths mod_pos_pos_trivial)
  then have sn: "sint (?n - 1) = uint d - 49"
    unfolding sint_uint by (simp only:) (rule signed_take_bit_int_eq_self; use dig in simp)
  have nd: "?n \<noteq> ANSI_DEFAULT" using u dig by auto
  let ?c1 = "?c\<lparr>ansi_state := Ansi_Escape\<rparr>"
  let ?c2 = "?c\<lparr>which_number := - 1, ansi_numbers := (ansi_numbers ?c)[0 := ANSI_DEFAULT], ansi_state := Ansi_Number\<rparr>"
  let ?c3 = "?c2\<lparr>which_number := 0, ansi_numbers := (ansi_numbers ?c)[0 := ?n]\<rparr>"
  let ?c4 = "?c3\<lparr>which_number := 1, ansi_command := 72, ansi_state := Ansi_Complete\<rparr>"
  let ?x = "sint (ansi_numbers ?c ! 1 - 1)"
  let ?c5 = "?c4\<lparr>console_y := uint d - 49, console_x := ?x, which_number := - 1, ansi_state := Ansi_Normal\<rparr>"
  have 1: "fb_char pk 27 st = Some (False, False, st\<lparr>con := ?c1\<rparr>)"
    by (rule fb_char_plain[of _ ?c, where st = st, simplified]) (use assms(2) c in \<open>simp_all add: fb_parse_def ansi_normal_def\<close>)
  have 2: "fb_char pk 91 (st\<lparr>con := ?c1\<rparr>) = Some (False, False, st\<lparr>con := ?c2\<rparr>)"
    by (rule fb_char_plain) (use c in \<open>simp_all add: fb_parse_def ansi_escape_def\<close>)
  have 3: "fb_char pk d (st\<lparr>con := ?c2\<rparr>) = Some (False, False, st\<lparr>con := ?c3\<rparr>)"
    by (rule fb_char_plain) (use c assms(3) in \<open>simp_all add: fb_parse_def ansi_number_def\<close>)
  have "ansi_run ?c4 = Some (None, ?c4\<lparr>console_y := sint (?n - 1), console_x := ?x\<rparr>)"
    using c(8) nd by (simp add: ansi_run_def ansi_goto_def Let_def)
  then have "ansi_run ?c4 = Some (None, ?c4\<lparr>console_y := uint d - 49, console_x := ?x\<rparr>)" unfolding sn .
  then have 4: "fb_complete pk (st\<lparr>con := ?c4\<rparr>) = Some (st\<lparr>con := ?c5\<rparr>)" by (simp add: fb_complete_def)
  have b: "bounds_check ?c5 = (False, ?c5)" using assms(5,6) dig by (simp add: bounds_check_def Let_def)
  have "fb_parse 72 ?c3 = Some (False, False, ?c4)" by (simp add: fb_parse_def ansi_number_def is_digit_def)
  then have 5: "fb_char pk 72 (st\<lparr>con := ?c3\<rparr>) = Some (False, False, st\<lparr>con := ?c5\<rparr>)" using 4 b by (simp add: fb_char_def)
  have "fb_chars pk [27, 91, d, 72] 0 4 False st = Some (False, st\<lparr>con := ?c5\<rparr>)" using 1 2 3 5 by simp
  then show ?thesis by (intro exI[of _ False] exI[of _ ?c5]) simp
qed

lemma goto_row_takes_old_column_witness:
  "\<exists>r c'. fb_chars (printk 3) [27, 91, 53, 72] 0 4 False (demo_out\<lparr>con := demo_con\<lparr>console_x := 3, ansi_numbers := replicate 10 42\<rparr>\<rparr>)
     = Some (r, demo_out\<lparr>con := c'\<rparr>) \<and> console_y c' = 4 \<and> console_x c' = 41"
proof -
  let ?st = "demo_out\<lparr>con := demo_con\<lparr>console_x := 3, ansi_numbers := replicate 10 42\<rparr>\<rparr>"
  have "con_ok (con ?st)" using demo_con_ok by (simp add: con_ok_def con_sizes_def demo_out_def demo_con_def)
  from goto_row_takes_old_column[OF this, of 53 "printk 3"] show ?thesis by (simp add: demo_con_def is_digit_def)
qed

text \<open>
  On the frame buffer the drivers ask for, 640 pixels by 480, the rows of the text console from the 30th on have no place: drawing a character with
  a lit pixel there goes beyond the buffer.
\<close>

theorem lower_rows_outside:
  assumes "font_ysize c = 16 \<and> length (current_font c) = 4096" and "console_initialized c" and "length (offscreen (fbuf c)) = 640 * 480 * 3"
    and "pitch (fbuf c) = 1920" and "0 \<le> x" and "30 \<le> row" and "yy < 16" and "xx < 8"
    and "bit (current_font c ! (unat ch * 16 + yy)) (7 - xx)"
  shows "framebuffer_console_putchar fore back ch x (row * 16) c = None"
proof -
  have outside: "framebuffer_putpixel col (x + xx') (row * 16 + yy') f = None"
    if "length (offscreen f) = 921600" "pitch f = 1920" "0 \<le> xx'" "0 \<le> yy'" for col xx' yy' f
  proof -
    have "921600 \<le> (row * 16 + yy') * 1920 + (x + xx') * 3" using that assms(5,6) by simp
    then show ?thesis using that by (simp add: framebuffer_putpixel_def put_rgb_def wri_def wr_def)
  qed
  let ?f = "fbuf c"
  let ?cell = "\<lambda>yy xx f. do {
     bits \<leftarrow> rdi (current_font c) (uint ch * font_ysize c + yy);
     if bit bits (nat (7 - xx)) then framebuffer_putpixel fore (x + xx) (row * 16 + yy) f
     else if back \<noteq> 0 then framebuffer_putpixel back (x + xx) (row * 16 + yy) f
     else Some f }"
  have ys: "font_ysize c = 16" "length (current_font c) = 4096" using assms(1) by simp_all
  have still: "?cell yy' xx' ?f = None \<or> ?cell yy' xx' ?f = Some ?f" if "xx' \<in> set [0..7]" "yy' \<in> set [0..15]" for xx' yy'
    using outside[of ?f xx' yy'] that assms(3,4) by (cases "rdi (current_font c) (uint ch * font_ysize c + yy')") auto
  have inner: "for_int [0..7] (?cell yy') ?f = (if \<exists>xx' \<in> set [0..7]. ?cell yy' xx' ?f = None then None else Some ?f)"
    if "yy' \<in> set [0..15]" for yy' using still that by (intro for_int_still) blast
  have "uint ch < 256" using uint_bounded[of ch] by simp
  then have pos: "uint ch * 16 + int yy < 4096" using assms(7) by simp
  have "rdi (current_font c) (uint ch * font_ysize c + int yy) = Some (current_font c ! (unat ch * 16 + yy))"
  proof -
    have "nat (uint ch * 16 + int yy) = unat ch * 16 + yy" by (simp add: nat_add_distrib nat_mult_distrib)
    then show ?thesis using pos ys by simp
  qed
  moreover have "nat (7 - int xx) = 7 - xx" by simp
  ultimately have "?cell (int yy) (int xx) ?f = None"
    using outside[of ?f "int xx" "int yy"] assms(3,4,9) by simp
  moreover have m: "int xx \<in> set [0..7]" "int yy \<in> set [0..15]" using assms(7,8) by simp_all
  ultimately have ex: "\<exists>xx' \<in> set [0..7]. ?cell (int yy) xx' ?f = None" by blast
  have "for_int [0..7] (?cell (int yy)) ?f = None" by (subst inner[OF m(2)]) (rule if_P[OF ex])
  then have ex2: "\<exists>yy' \<in> set [0..15]. for_int [0..7] (?cell yy') ?f = None" using m(2) by blast
  have "for_int [0..15] (\<lambda>yy. for_int [0..7] (?cell yy)) ?f
      = (if \<exists>yy' \<in> set [0..15]. for_int [0..7] (?cell yy') ?f = None then None else Some ?f)"
    by (rule for_int_still) (subst (1 2) inner, assumption+, simp)
  also have "\<dots> = None" by (rule if_P[OF ex2])
  finally have "for_int [0..15] (\<lambda>yy. for_int [0..7] (?cell yy)) ?f = None" .
  then show ?thesis using assms(2) ys(1) by (simp add: framebuffer_console_putchar_def)
qed

lemma lower_rows_outside_witness:
  "framebuffer_console_putchar 7 0 1 0 480 (demo_con\<lparr>current_font := replicate 4096 1,
     fbuf := \<lparr>framebuffer_initialized = True, phys_x = 640, phys_y = 480, pitch = 1920,
       offscreen = replicate 921600 0, fb_memory = replicate 921600 0\<rparr>\<rparr>) = None" (is "framebuffer_console_putchar _ _ _ _ _ ?c = None")
proof -
  have "framebuffer_console_putchar 7 0 1 0 (30 * 16) ?c = None"
    by (rule lower_rows_outside[where yy = 0 and xx = 7])
      (simp_all add: demo_con_def)
  then show ?thesis by simp
qed


lemma demo_out_ok: "out_ok demo_out"
  using demo_con_ok by (simp add: out_ok_def demo_con_fields) (simp add: demo_out_def dmesg_ok_def dmesg_init_def)


end
