(* ===== verification/Links.thy ===== *)
theory Links
  imports VMW_Prelude
begin

text \<open>
  Linked lists threaded through a table: a pointer is the index of an entry, \<open>nx\<close> maps an entry to the
  next one.  The process list and the wait queues are such lists.
\<close>

section \<open>Chains of entries\<close>

fun seg :: "(nat \<Rightarrow> nat option) \<Rightarrow> nat option \<Rightarrow> nat list \<Rightarrow> nat option \<Rightarrow> bool" where
  "seg nx p [] q = (p = q)"
| "seg nx p (i # L) q = (p = Some i \<and> seg nx (nx i) L q)"

lemma seg_append: "seg nx p (L @ M) q \<longleftrightarrow> (\<exists>r. seg nx p L r \<and> seg nx r M q)"
  by (induction L arbitrary: p) auto

lemma seg_cong: "(\<And>i. i \<in> set L \<Longrightarrow> nx i = nx' i) \<Longrightarrow> seg nx p L q \<longleftrightarrow> seg nx' p L q"
  by (induction L arbitrary: p) auto

lemma seg_update [simp]: "i \<notin> set L \<Longrightarrow> seg (nx(i := x)) p L q \<longleftrightarrow> seg nx p L q"
  by (rule seg_cong) auto

lemma seg_unique: "seg nx p L None \<Longrightarrow> seg nx p M None \<Longrightarrow> L = M"
proof (induction L arbitrary: p M)
  case (Cons i L)
  then show ?case by (cases M) auto
qed (case_tac M, auto)

lemma seg_head: "seg nx p L None \<Longrightarrow> p = (case L of [] \<Rightarrow> None | i # _ \<Rightarrow> Some i)"
  by (cases L) auto

text \<open>Two lists with the same start cannot have different lengths, so a list repeats no entry.\<close>

lemma seg_distinct: "seg nx p L None \<Longrightarrow> distinct L"
proof (induction L arbitrary: p)
  case (Cons i L)
  have "i \<notin> set L"
  proof
    assume "i \<in> set L"
    then obtain A B where L: "L = A @ i # B" by (meson split_list)
    have "seg nx (Some i) (i # B) None"
      using Cons.prems unfolding L by (auto simp: seg_append)
    then have "i # L = i # B" using Cons.prems by (intro seg_unique[of nx "Some i"]) auto
    then show False unfolding L by simp
  qed
  with Cons show ?case by auto
qed simp

lemma seg_snoc:
  assumes "seg nx p L None" "i \<notin> set L"
  shows "seg (\<lambda>j. if L \<noteq> [] \<and> j = last L then Some i else if j = i then None else nx j)
    (if L = [] then Some i else p) (L @ [i]) None"
  using assms
proof (induction L arbitrary: p)
  case (Cons a L)
  then have d: "a \<notin> set L" using seg_distinct[OF Cons.prems(1)] by simp
  show ?case
  proof (cases "L = []")
    case False
    then have n: "a \<noteq> last L" "a \<noteq> i" using d Cons.prems(2) by auto
    have "seg (\<lambda>j. if j = last L then Some i else if j = i then None else nx j) (nx a) (L @ [i]) None"
      using Cons.IH[of "nx a"] Cons.prems False by simp
    then show ?thesis using False n Cons.prems(1) by simp
  qed (use Cons.prems in auto)
qed simp

text \<open>Taking out an entry that is not the first.\<close>

lemma seg_remove:
  assumes "seg nx p (A @ a # i # B) None"
  shows "seg (nx(a := nx i)) p (A @ a # B) None"
proof -
  have d: "distinct (A @ a # i # B)" by (rule seg_distinct[OF assms])
  from assms obtain r where r: "seg nx p A r" "seg nx r (a # i # B) None" by (auto simp: seg_append)
  then show ?thesis using d by (auto simp: seg_append)
qed

section \<open>Loops over a list\<close>

text \<open>\<open>while (p != NULL) { if (P(p)) return p; p = p->next; }\<close>\<close>

definition search_step :: "('p \<Rightarrow> nat option) \<Rightarrow> (nat \<Rightarrow> 'p \<Rightarrow> bool) \<Rightarrow> 'p list \<Rightarrow> nat option \<Rightarrow> (nat option + nat option) option" where
  "search_step nx P ps p =
     (case p of None \<Rightarrow> Some (Inr None)
      | Some i \<Rightarrow> do { q \<leftarrow> rd ps i; Some (if P i q then Inr (Some i) else Inl (nx q)) })"

lemma search_eq:
  assumes "seg (\<lambda>i. nx (ps ! i)) p L None" "\<And>i. i \<in> set L \<Longrightarrow> i < length ps" "length L < fuel"
  shows "c_loop fuel (search_step nx P ps) p = Some (find (\<lambda>i. P i (ps ! i)) L)"
  using assms
proof (induction L arbitrary: p fuel)
  case Nil
  then show ?case by (cases fuel) (simp_all add: search_step_def)
next
  case (Cons i L)
  then obtain n where n: "fuel = Suc n" by (cases fuel) auto
  then show ?case using Cons by (simp add: search_step_def)
qed

text \<open>\<open>while (p->next != NULL) p = p->next;\<close>\<close>

definition tail_step :: "('p \<Rightarrow> nat option) \<Rightarrow> 'p list \<Rightarrow> nat \<Rightarrow> (nat + nat) option" where
  "tail_step nx ps i = do { q \<leftarrow> rd ps i; Some (case nx q of None \<Rightarrow> Inr i | Some n \<Rightarrow> Inl n) }"

lemma tail_eq:
  assumes "seg (\<lambda>i. nx (ps ! i)) (Some i) (i # L) None" "\<And>j. j \<in> set (i # L) \<Longrightarrow> j < length ps" "length L < fuel"
  shows "c_loop fuel (tail_step nx ps) i = Some (last (i # L))"
  using assms
proof (induction L arbitrary: i fuel)
  case Nil
  then show ?case by (cases fuel) (simp_all add: tail_step_def)
next
  case (Cons j L)
  then obtain n where n: "fuel = Suc n" by (cases fuel) auto
  then show ?case using Cons.prems Cons.IH[of j n] by (simp add: tail_step_def)
qed

end
