(* ===== verification/Process.thy ===== *)
theory Process
  imports Files Memory Links "HOL-Library.Multiset"
begin

text \<open>
  Processes, \<open>kernel/processes/process.c\<close>: the table of process control blocks, the list of the valid
  ones, and their creation and destruction.  A pointer to a control block is its index in the table.
  \<open>kern\<close> is the state of the kernel the processes share: the file system and its open files, physical
  memory, the clock, the wait queues and the process running on core 0.

  The fields of the current process that the file calls use (\<open>files\<close>, \<open>current_dir\<close>) are in its control
  block; \<open>file_view\<close> presents them to the calls of \<open>files.c\<close>.  The saved kernel registers and the
  kernel stack, which only assembly code touches, are not modelled.
\<close>

section \<open>State\<close>

datatype status = Sleeping | Ready | Exited

record pcb =
  p_regs :: "u32 list"
  p_pc :: u32
  p_spsr :: u32
  p_next :: "nat option"
  p_prev :: "nat option"
  p_wait_next :: "nat option"
  p_valid :: bool
  p_running :: bool
  p_status :: status
  p_start_time :: u32
  p_user_time :: u32
  p_kernel_time :: u32
  p_last_scheduled :: u32
  p_pid :: int
  p_exit_value :: int
  p_parent :: "nat option"
  p_stack :: nat
  p_stacksize :: nat
  p_text :: nat
  p_textsize :: nat
  p_datasize :: nat
  p_bsssize :: nat
  p_name :: bytes
  p_files :: "nat option list"
  p_cwd :: bytes

definition pcb_zero :: pcb where
  "pcb_zero = \<lparr>p_regs = replicate 15 0, p_pc = 0, p_spsr = 0, p_next = None, p_prev = None, p_wait_next = None,
     p_valid = False, p_running = False, p_status = Sleeping, p_start_time = 0, p_user_time = 0,
     p_kernel_time = 0, p_last_scheduled = 0, p_pid = 0, p_exit_value = 0, p_parent = None,
     p_stack = 0, p_stacksize = 0, p_text = 0, p_textsize = 0, p_datasize = 0, p_bsssize = 0,
     p_name = replicate 32 0, p_files = replicate MAX_FD_PER_PROC None, p_cwd = replicate MAX_PATH_LEN 0\<rparr>"

datatype wait_queue = Waitpid_Queue | Console_Queue | Timer_Queue

record kern =
  procs :: "pcb list"
  proc_first :: "nat option"
  avail_pid :: int
  current :: nat
  tick_counter :: u32
  wait_first :: "wait_queue \<Rightarrow> nat option"
  files :: kfiles
  memory :: mem_state

definition upd :: "nat \<Rightarrow> (pcb \<Rightarrow> pcb) \<Rightarrow> kern \<Rightarrow> kern option" where
  "upd i f k = do { p \<leftarrow> rd (procs k) i; Some (k\<lparr>procs := (procs k)[i := f p]\<rparr>) }"

definition ticks_since_boot :: "kern \<Rightarrow> u32" where
  "ticks_since_boot k = tick_counter k"

section \<open>The process list\<close>

definition totals_step :: "pcb list \<Rightarrow> nat \<times> nat \<times> nat \<Rightarrow> ((nat \<times> nat \<times> nat) + (nat \<times> nat)) option" where
  "totals_step ps = (\<lambda>(i, total, ready). do {
     p \<leftarrow> rd ps i;
     let total1 = total + 1;
     let ready1 = (if p_status p = Ready then ready + 1 else ready);
     Some (case p_next p of None \<Rightarrow> Inr (total1, ready1) | Some n \<Rightarrow> Inl (n, total1, ready1)) })"

definition process_get_totals :: "nat \<Rightarrow> kern \<Rightarrow> (nat \<times> nat) option" where
  "process_get_totals fuel k = do {
     f \<leftarrow> proc_first k;
     c_loop fuel (totals_step (procs k)) (f, 0, 0) }"

definition process_lookup :: "nat \<Rightarrow> int \<Rightarrow> kern \<Rightarrow> nat option option" where
  "process_lookup fuel pid k = c_loop fuel (search_step p_next (\<lambda>i p. p_pid p = pid) (procs k)) (proc_first k)"

definition process_lookup_child :: "nat \<Rightarrow> nat \<Rightarrow> kern \<Rightarrow> nat option option" where
  "process_lookup_child fuel caller k =
     c_loop fuel (search_step p_next (\<lambda>i p. i \<noteq> caller \<and> p_parent p = Some caller) (procs k)) (proc_first k)"

definition process_insert :: "nat \<Rightarrow> nat \<Rightarrow> kern \<Rightarrow> (int \<times> kern) option" where
  "process_insert fuel proc k =
     (case proc_first k of
        None \<Rightarrow> do {
          k1 \<leftarrow> upd proc (\<lambda>p. p\<lparr>p_next := None, p_prev := None\<rparr>) (k\<lparr>proc_first := Some proc\<rparr>);
          Some (0, k1) }
      | Some f \<Rightarrow> do {
          l \<leftarrow> c_loop fuel (tail_step p_next (procs k)) f;
          k1 \<leftarrow> upd l (p_next_update (\<lambda>_. Some proc)) k;
          k2 \<leftarrow> upd proc (\<lambda>p. p\<lparr>p_next := None, p_prev := Some l\<rparr>) k1;
          Some (0, k2) })"

definition process_remove :: "nat \<Rightarrow> nat \<Rightarrow> kern \<Rightarrow> (int \<times> kern) option" where
  "process_remove fuel proc k =
     (case proc_first k of
        None \<Rightarrow> Some (- 1, k)
      | Some f \<Rightarrow>
          if f = proc then do { p \<leftarrow> rd (procs k) proc; Some (0, k\<lparr>proc_first := p_next p\<rparr>) }
          else do {
            found \<leftarrow> c_loop fuel (search_step p_next (\<lambda>i p. i = proc) (procs k)) (Some f);
            (case found of None \<Rightarrow> Some (0, k)
             | Some _ \<Rightarrow> do {
                 p \<leftarrow> rd (procs k) proc;
                 v \<leftarrow> p_prev p;
                 k1 \<leftarrow> upd v (p_next_update (\<lambda>_. p_next p)) k;
                 (case p_next p of None \<Rightarrow> Some (0, k1)
                  | Some n \<Rightarrow> do { k2 \<leftarrow> upd n (p_prev_update (\<lambda>_. p_prev p)) k1; Some (0, k2) }) }) })"

section \<open>Creation and destruction\<close>

text \<open>The counter of process numbers is a signed integer; its overflow is undefined.\<close>

definition process_create :: "nat \<Rightarrow> kern \<Rightarrow> (nat option \<times> kern) option" where
  "process_create fuel k =
     (case index_of (\<lambda>p. \<not> p_valid p) (procs k) of
        None \<Rightarrow> Some (None, k)
      | Some i \<Rightarrow> do {
          let now = ticks_since_boot k;
          let new_proc = pcb_zero\<lparr>p_valid := True, p_start_time := now, p_last_scheduled := now,
                           p_pid := avail_pid k, p_spsr := 0x10\<rparr>;
          if avail_pid k \<ge> 2 ^ 31 - 1 then None
          else do {
            (_, k1) \<leftarrow> process_insert fuel i (k\<lparr>procs := (procs k)[i := new_proc], avail_pid := avail_pid k + 1\<rparr>);
            Some (Some i, k1) } })"

fun close_files :: "nat \<Rightarrow> nat option list \<Rightarrow> kfiles \<Rightarrow> kfiles option" where
  "close_files fuel [] fs = Some fs"
| "close_files fuel (None # js) fs = close_files fuel js fs"
| "close_files fuel (Some j # js) fs = do { (_, fs1) \<leftarrow> file_object_free fuel j fs; close_files fuel js fs1 }"

definition free_area :: "nat \<Rightarrow> nat \<Rightarrow> mem_state \<Rightarrow> mem_state option" where
  "free_area location sz m = (if location = 0 then Some m else do { (_, m1) \<leftarrow> memory_free location sz m; Some m1 })"

definition process_destroy :: "nat \<Rightarrow> nat \<Rightarrow> kern \<Rightarrow> (int \<times> kern) option" where
  "process_destroy fuel proc k = do {
     k1 \<leftarrow> upd proc (p_valid_update (\<lambda>_. False)) k;
     (_, k2) \<leftarrow> process_remove fuel proc k1;
     p \<leftarrow> rd (procs k2) proc;
     fs \<leftarrow> close_files fuel (p_files p) (files k2);
     m1 \<leftarrow> free_area (p_stack p) (p_stacksize p) (memory k2);
     m2 \<leftarrow> free_area (p_text p) (p_textsize p) m1;
     Some (0, k2\<lparr>files := fs, memory := m2\<rparr>) }"

text \<open>The file calls on behalf of the current process.\<close>

definition file_view :: "kern \<Rightarrow> kfiles option" where
  "file_view k = do { p \<leftarrow> rd (procs k) (current k); Some ((files k)\<lparr>k_fds := p_files p, k_cwd := p_cwd p\<rparr>) }"

text \<open>Storing back what the call left.\<close>

definition store_files :: "kfiles \<Rightarrow> kern \<Rightarrow> kern option" where
  "store_files fs k = upd (current k) (\<lambda>p. p\<lparr>p_files := k_fds fs, p_cwd := k_cwd fs\<rparr>) (k\<lparr>files := fs\<rparr>)"

section \<open>The list refines a sequence\<close>

text \<open>
  \<open>proc_list k L\<close>: the list of processes is the sequence \<open>L\<close>; it holds exactly the valid processes,
  each but the first has its predecessor as \<open>prev\<close>, and the process numbers are distinct.
\<close>

fun prevs :: "pcb list \<Rightarrow> nat list \<Rightarrow> bool" where
  "prevs ps (i # j # L) = (p_prev (ps ! j) = Some i \<and> prevs ps (j # L))"
| "prevs ps _ = True"

lemma prevs_append: "prevs ps (A @ a # B) \<longleftrightarrow> prevs ps (A @ [a]) \<and> prevs ps (a # B)"
proof (induction A)
  case (Cons i A)
  then show ?case by (cases A) auto
qed simp

lemma prevs_cong: "(\<And>i. i \<in> set (tl L) \<Longrightarrow> p_prev (ps ! i) = p_prev (ps' ! i)) \<Longrightarrow> prevs ps L \<longleftrightarrow> prevs ps' L"
  by (induction ps L rule: prevs.induct) auto

definition proc_list :: "kern \<Rightarrow> nat list \<Rightarrow> bool" where
  "proc_list k L \<longleftrightarrow> seg (\<lambda>i. p_next (procs k ! i)) (proc_first k) L None
     \<and> set L = {i. i < length (procs k) \<and> p_valid (procs k ! i)}
     \<and> prevs (procs k) L \<and> distinct (map (\<lambda>i. p_pid (procs k ! i)) L)
     \<and> (\<forall>i \<in> set L. p_pid (procs k ! i) < avail_pid k)"

lemma proc_listD:
  assumes "proc_list k L"
  shows "seg (\<lambda>i. p_next (procs k ! i)) (proc_first k) L None" "\<And>i. i \<in> set L \<Longrightarrow> i < length (procs k)"
    "distinct L" "\<And>i. i < length (procs k) \<Longrightarrow> p_valid (procs k ! i) = (i \<in> set L)"
  using assms seg_distinct by (auto simp: proc_list_def)

lemma proc_list_fields:
  assumes "length (procs k') = length (procs k)" "proc_first k' = proc_first k" "avail_pid k' = avail_pid k"
    and f: "\<And>i. i < length (procs k) \<Longrightarrow> p_next (procs k' ! i) = p_next (procs k ! i)
      \<and> p_prev (procs k' ! i) = p_prev (procs k ! i) \<and> p_valid (procs k' ! i) = p_valid (procs k ! i)
      \<and> p_pid (procs k' ! i) = p_pid (procs k ! i)"
  shows "proc_list k L \<longleftrightarrow> proc_list k' L"
proof (cases "\<forall>i \<in> set L. i < length (procs k)")
  case True
  then have g: "i \<in> set L \<Longrightarrow> p_next (procs k' ! i) = p_next (procs k ! i) \<and> p_prev (procs k' ! i) = p_prev (procs k ! i)
      \<and> p_pid (procs k' ! i) = p_pid (procs k ! i)" for i using f by blast
  have "seg (\<lambda>i. p_next (procs k' ! i)) p L None = seg (\<lambda>i. p_next (procs k ! i)) p L None" for p
    by (rule seg_cong) (use g in simp)
  moreover have "prevs (procs k') L = prevs (procs k) L"
  proof (rule prevs_cong)
    fix i assume "i \<in> set (tl L)"
    then have "i \<in> set L" by (cases L) auto
    then show "p_prev (procs k' ! i) = p_prev (procs k ! i)" using g by simp
  qed
  moreover have "map (\<lambda>i. p_pid (procs k' ! i)) L = map (\<lambda>i. p_pid (procs k ! i)) L" using g by simp
  then have "distinct (map (\<lambda>i. p_pid (procs k' ! i)) L) = distinct (map (\<lambda>i. p_pid (procs k ! i)) L)" by (simp only:)
  moreover have "{i. i < length (procs k') \<and> p_valid (procs k' ! i)} = {i. i < length (procs k) \<and> p_valid (procs k ! i)}"
    using f assms(1) by auto
  moreover have "(\<forall>i \<in> set L. p_pid (procs k' ! i) < avail_pid k) \<longleftrightarrow> (\<forall>i \<in> set L. p_pid (procs k ! i) < avail_pid k)"
    using g by simp
  ultimately show ?thesis unfolding proc_list_def assms(2,3) by (simp del: distinct_map)
next
  case False
  then show ?thesis using assms(1) by (auto simp: proc_list_def)
qed

lemma process_search:
  assumes "proc_list k L" "length L < fuel"
  shows "c_loop fuel (search_step p_next P (procs k)) (proc_first k) = Some (find (\<lambda>i. P i (procs k ! i)) L)"
  by (rule search_eq) (use assms proc_listD in auto)

lemma process_lookup_eq:
  "proc_list k L \<Longrightarrow> length L < fuel \<Longrightarrow> process_lookup fuel pid k = Some (find (\<lambda>i. p_pid (procs k ! i) = pid) L)"
  by (simp add: process_lookup_def process_search)

lemma process_lookup_child_eq:
  "proc_list k L \<Longrightarrow> length L < fuel \<Longrightarrow>
     process_lookup_child fuel caller k = Some (find (\<lambda>i. i \<noteq> caller \<and> p_parent (procs k ! i) = Some caller) L)"
  by (simp add: process_lookup_child_def process_search)

lemma upd_eq [simp]: "i < length (procs k) \<Longrightarrow> upd i f k = Some (k\<lparr>procs := (procs k)[i := f (procs k ! i)]\<rparr>)"
  by (simp add: upd_def)

text \<open>What an operation on the list leaves alone of a control block.\<close>

definition same_pcb :: "pcb \<Rightarrow> pcb \<Rightarrow> bool" where
  "same_pcb p q \<longleftrightarrow> q = p\<lparr>p_next := p_next q, p_prev := p_prev q\<rparr>"

definition same_procs :: "nat set \<Rightarrow> kern \<Rightarrow> kern \<Rightarrow> bool" where
  "same_procs S k k' \<longleftrightarrow> length (procs k') = length (procs k)
     \<and> (\<forall>i < length (procs k). i \<notin> S \<longrightarrow> same_pcb (procs k ! i) (procs k' ! i))"

lemma process_insert_refines:
  assumes "seg (\<lambda>j. p_next (procs k ! j)) (proc_first k) L None" "\<And>j. j \<in> set L \<Longrightarrow> j < length (procs k)"
    "prevs (procs k) L" "i \<notin> set L" "i < length (procs k)" "length L < fuel"
  shows "\<exists>k'. process_insert fuel i k = Some (0, k')
    \<and> seg (\<lambda>j. p_next (procs k' ! j)) (proc_first k') (L @ [i]) None \<and> prevs (procs k') (L @ [i])
    \<and> same_procs {} k k' \<and> k' = k\<lparr>procs := procs k', proc_first := proc_first k'\<rparr>"
proof (cases L)
  case Nil
  then have "proc_first k = None" using assms(1) by simp
  then show ?thesis using Nil assms(5)
    by (simp add: process_insert_def same_procs_def same_pcb_def nth_list_update)
next
  case (Cons f R)
  let ?l = "last L"
  have f: "proc_first k = Some f" using assms(1) Cons by simp
  have l: "?l \<in> set L" "?l \<noteq> i" using Cons assms(4) by auto
  have ll: "?l < length (procs k)" using assms(2) l by blast
  have t: "c_loop fuel (tail_step p_next (procs k)) f = Some ?l"
    using tail_eq[of p_next "procs k" f R fuel] assms(1,2,6) f Cons by simp
  let ?ps = "(procs k)[?l := (procs k ! ?l)\<lparr>p_next := Some i\<rparr>,
      i := (procs k ! i)\<lparr>p_next := None, p_prev := Some ?l\<rparr>]"
  have ins: "process_insert fuel i k = Some (0, k\<lparr>procs := ?ps\<rparr>)"
    using f t l ll assms(5) by (simp add: process_insert_def)
  have sg: "seg (\<lambda>j. p_next (?ps ! j)) (proc_first k) (L @ [i]) None"
  proof -
    have "seg (\<lambda>j. if L \<noteq> [] \<and> j = ?l then Some i else if j = i then None else p_next (procs k ! j))
        (proc_first k) (L @ [i]) None"
      using seg_snoc[OF assms(1,4)] Cons by simp
    then show ?thesis
      by (rule seg_cong[THEN iffD1, rotated]) (use assms(2,4,5) l ll in \<open>auto simp: nth_list_update\<close>)
  qed
  have pv: "prevs ?ps (L @ [i])"
  proof -
    obtain A where A: "L = A @ [?l]" using Cons by (metis append_butlast_last_id list.distinct(1))
    have "prevs ?ps L \<longleftrightarrow> prevs (procs k) L"
      by (rule prevs_cong) (use assms(2,4,5) Cons ll in \<open>auto simp: nth_list_update\<close>)
    then have "prevs ?ps L" using assms(3) by simp
    then have "prevs ?ps (A @ [?l])" using A by simp
    moreover have "p_prev (?ps ! i) = Some ?l" using assms(5) by simp
    ultimately have "prevs ?ps (A @ ?l # [i])" unfolding prevs_append[of ?ps A ?l "[i]"] by simp
    then show ?thesis by (subst A) simp
  qed
  show ?thesis unfolding ins using sg pv f ll assms(5)
    by (simp add: same_procs_def same_pcb_def nth_list_update)
qed

lemma same_pcb_fields:
  assumes "same_pcb p q"
  shows "p_valid q = p_valid p" "p_pid q = p_pid p" "p_status q = p_status p" "p_files q = p_files p"
    "p_parent q = p_parent p" "p_exit_value q = p_exit_value p" "p_wait_next q = p_wait_next p"
    "p_stack q = p_stack p" "p_stacksize q = p_stacksize p" "p_text q = p_text p" "p_textsize q = p_textsize p"
  using assms by (cases q, auto simp: same_pcb_def)+

lemma find_self: "i \<in> set L \<Longrightarrow> find (\<lambda>j. j = i) L = Some i"
  by (induction L) auto

lemma process_remove_refines:
  assumes "seg (\<lambda>j. p_next (procs k ! j)) (proc_first k) L None" "\<And>j. j \<in> set L \<Longrightarrow> j < length (procs k)"
    "prevs (procs k) L" "i \<in> set L" "length L < fuel"
  shows "\<exists>k'. process_remove fuel i k = Some (0, k')
    \<and> seg (\<lambda>j. p_next (procs k' ! j)) (proc_first k') (remove1 i L) None \<and> prevs (procs k') (remove1 i L)
    \<and> same_procs {} k k' \<and> k' = k\<lparr>procs := procs k', proc_first := proc_first k'\<rparr>"
proof (cases "proc_first k = Some i")
  case True
  then obtain R where L: "L = i # R" using assms(1,4) by (cases L) auto
  have "i < length (procs k)" using assms(2,4) by simp
  moreover have "prevs (procs k) R" using assms(3) L by (cases R) auto
  ultimately show ?thesis using True assms(1) L
    by (simp add: process_remove_def same_procs_def same_pcb_def)
next
  case False
  obtain C B where C: "L = C @ i # B" using assms(4) by (meson split_list)
  then obtain A a where "C = A @ [a]" using assms(1) False by (cases C rule: rev_cases) auto
  then have L: "L = A @ a # i # B" using C by simp
  have d: "distinct L" by (rule seg_distinct[OF assms(1)])
  obtain f where f: "proc_first k = Some f" "f \<noteq> i" using assms(1) L False by (cases A) auto
  have n: "i < length (procs k)" "a < length (procs k)" "a \<noteq> i" using assms(2) d by (auto simp: L)
  have found: "c_loop fuel (search_step p_next (\<lambda>j p. j = i) (procs k)) (Some f) = Some (Some i)"
    using search_eq[OF assms(1,2,5), of "\<lambda>j p. j = i"] f(1) assms(4) by (simp add: find_self)
  have v: "p_prev (procs k ! i) = Some a" "p_next (procs k ! i) = (case B of [] \<Rightarrow> None | b # _ \<Rightarrow> Some b)"
  proof -
    show "p_prev (procs k ! i) = Some a" using assms(3) prevs_append[of "procs k" A a "i # B"] by (simp add: L)
    have "seg (\<lambda>j. p_next (procs k ! j)) (p_next (procs k ! i)) B None" using assms(1) by (auto simp: L seg_append)
    then show "p_next (procs k ! i) = (case B of [] \<Rightarrow> None | b # _ \<Rightarrow> Some b)" by (rule seg_head)
  qed
  let ?p1 = "(procs k)[a := (procs k ! a)\<lparr>p_next := p_next (procs k ! i)\<rparr>]"
  have nxt: "(\<lambda>j. p_next (?p1 ! j)) = (\<lambda>j. p_next (procs k ! j))(a := p_next (procs k ! i))"
    using n by (auto simp: nth_list_update)
  have r: "remove1 i L = A @ a # B" using d by (auto simp: L remove1_append)
  have sg: "seg (\<lambda>j. p_next (?p1 ! j)) (proc_first k) (A @ a # B) None"
    unfolding nxt by (rule seg_remove) (use assms(1) in \<open>simp add: L\<close>)
  show ?thesis
  proof (cases B)
    case Nil
    have "prevs ?p1 (A @ [a]) \<longleftrightarrow> prevs (procs k) (A @ [a])"
      by (rule prevs_cong) (use n in \<open>auto simp: nth_list_update\<close>)
    then have "prevs ?p1 (A @ [a])" using assms(3) prevs_append[of "procs k" A a "[i]"] by (simp add: L Nil)
    moreover have "process_remove fuel i k = Some (0, k\<lparr>procs := ?p1\<rparr>)"
      using f n found v by (simp add: process_remove_def Nil)
    ultimately show ?thesis unfolding r using n sg
      by (simp add: same_procs_def same_pcb_def nth_list_update Nil)
  next
    case (Cons b B')
    let ?p2 = "?p1[b := (?p1 ! b)\<lparr>p_prev := Some a\<rparr>]"
    have b: "b < length (procs k)" "b \<noteq> a" "b \<noteq> i" using assms(2) d by (auto simp: L Cons)
    have rem: "process_remove fuel i k = Some (0, k\<lparr>procs := ?p2\<rparr>)"
      using f n found v b by (simp add: process_remove_def Cons)
    have "seg (\<lambda>j. p_next (?p2 ! j)) (proc_first k) (A @ a # B) None"
      by (rule seg_cong[THEN iffD1, OF _ sg]) (use b in \<open>auto simp: nth_list_update\<close>)
    moreover have "prevs ?p2 (A @ a # B)"
    proof -
      have "prevs ?p2 (A @ [a]) \<longleftrightarrow> prevs (procs k) (A @ [a])" "prevs ?p2 (b # B') \<longleftrightarrow> prevs (procs k) (b # B')"
        by (rule prevs_cong, use d b n in \<open>cases A; force simp: L Cons nth_list_update\<close>)+
      then show ?thesis
        using assms(3) b prevs_append[of ?p2 A a "b # B'"] prevs_append[of "procs k" A a "i # b # B'"]
        by (simp add: L Cons)
    qed
    ultimately show ?thesis unfolding rem r using b n
      by (simp add: same_procs_def same_pcb_def nth_list_update)
  qed
qed

lemma same_procsD:
  "same_procs S k k' \<Longrightarrow> i < length (procs k) \<Longrightarrow> i \<notin> S \<Longrightarrow> same_pcb (procs k ! i) (procs k' ! i)"
  "same_procs S k k' \<Longrightarrow> length (procs k') = length (procs k)"
  by (simp_all add: same_procs_def)

definition fresh_pcb :: "kern \<Rightarrow> pcb" where
  "fresh_pcb k = pcb_zero\<lparr>p_valid := True, p_start_time := tick_counter k, p_last_scheduled := tick_counter k,
     p_pid := avail_pid k, p_spsr := 0x10\<rparr>"

lemma process_create_refines_eq:
  assumes "proc_list k L" "index_of (\<lambda>p. \<not> p_valid p) (procs k) = Some i" "length L < fuel" "avail_pid k < 2 ^ 31 - 1"
  shows "\<exists>k'. process_create fuel k = Some (Some i, k') \<and> proc_list k' (L @ [i])
    \<and> same_pcb (fresh_pcb k) (procs k' ! i) \<and> same_procs {i} k k'
    \<and> k' = k\<lparr>avail_pid := avail_pid k + 1, procs := procs k', proc_first := proc_first k'\<rparr>"
proof -
  note l = proc_listD[OF assms(1)]
  have i: "i < length (procs k)" "\<not> p_valid (procs k ! i)" using assms(2) by (simp_all add: index_of_Some_iff)
  then have n: "i \<notin> set L" using l(4) by blast
  let ?k = "k\<lparr>procs := (procs k)[i := fresh_pcb k], avail_pid := avail_pid k + 1\<rparr>"
  have p: "prevs (procs k) L" using assms(1) by (simp add: proc_list_def)
  have "seg (\<lambda>j. p_next ((procs k)[i := fresh_pcb k] ! j)) (proc_first k) L None"
    by (rule seg_cong[THEN iffD1, OF _ l(1)]) (use n i(1) in \<open>auto simp: nth_list_update\<close>)
  moreover have "prevs ((procs k)[i := fresh_pcb k]) L"
    by (rule prevs_cong[THEN iffD1, OF _ p]) (use n i(1) in \<open>cases L; auto simp: nth_list_update\<close>)
  ultimately obtain k' where k': "process_insert fuel i ?k = Some (0, k')"
    "seg (\<lambda>j. p_next (procs k' ! j)) (proc_first k') (L @ [i]) None" "prevs (procs k') (L @ [i])"
    "same_procs {} ?k k'" "k' = ?k\<lparr>procs := procs k', proc_first := proc_first k'\<rparr>"
    using process_insert_refines[of ?k L i fuel] l(2) n i(1) assms(3) by auto
  have new: "same_pcb (fresh_pcb k) (procs k' ! i)" using same_procsD(1)[OF k'(4), of i] i(1) by simp
  have old: "same_procs {i} k k'" using k'(4) by (auto simp: same_procs_def nth_list_update)
  have f: "p_valid (procs k' ! j) = (if j = i then True else p_valid (procs k ! j))"
    "p_pid (procs k' ! j) = (if j = i then avail_pid k else p_pid (procs k ! j))" if "j < length (procs k)" for j
    using same_pcb_fields[OF new] same_pcb_fields[OF same_procsD(1)[OF old that]] by (auto simp: fresh_pcb_def)
  have len: "length (procs k') = length (procs k)" using old by (simp add: same_procs_def)
  have "avail_pid k' = avail_pid k + 1" by (subst k'(5)) simp
  moreover have "set (L @ [i]) = {j. j < length (procs k') \<and> p_valid (procs k' ! j)}"
    using f(1) len i(1) l(2,4) by (auto split: if_splits)
  moreover have pid: "p_pid (procs k' ! j) = p_pid (procs k ! j)" "p_pid (procs k' ! j) < avail_pid k" if "j \<in> set L" for j
  proof -
    have j: "j < length (procs k)" "j \<noteq> i" using that n l(2) by auto
    show "p_pid (procs k' ! j) = p_pid (procs k ! j)" using f(2)[OF j(1)] j(2) by simp
    then show "p_pid (procs k' ! j) < avail_pid k" using assms(1) that by (simp add: proc_list_def)
  qed
  moreover have pi: "p_pid (procs k' ! i) = avail_pid k" using f(2)[OF i(1)] by simp
  moreover have "distinct (map (\<lambda>j. p_pid (procs k' ! j)) (L @ [i]))"
  proof -
    have "map (\<lambda>j. p_pid (procs k' ! j)) L = map (\<lambda>j. p_pid (procs k ! j)) L" using pid(1) by simp
    then have "distinct (map (\<lambda>j. p_pid (procs k' ! j)) L)" using assms(1) by (simp only: proc_list_def)
    moreover have "p_pid (procs k' ! i) \<notin> (\<lambda>j. p_pid (procs k' ! j)) ` set L" using pi pid(2) by force
    ultimately show ?thesis by simp
  qed
  moreover have "\<forall>j \<in> set (L @ [i]). p_pid (procs k' ! j) < avail_pid k'"
    using \<open>avail_pid k' = avail_pid k + 1\<close> pi pid(2) by fastforce
  ultimately have "proc_list k' (L @ [i])" unfolding proc_list_def using k'(2,3) by blast
  moreover have "process_create fuel k = Some (Some i, k')"
    using assms(2,4) k'(1) by (simp add: process_create_def fresh_pcb_def ticks_since_boot_def)
  moreover have "k' = k\<lparr>avail_pid := avail_pid k + 1, procs := procs k', proc_first := proc_first k'\<rparr>"
    using k'(5) by simp
  ultimately show ?thesis using new old by blast
qed

lemma process_destroy_refines_eq:
  assumes "proc_list k L" "i \<in> set L" "length L < fuel"
  shows "\<exists>k2. process_destroy fuel i k = do {
      fs \<leftarrow> close_files fuel (p_files (procs k ! i)) (files k);
      m1 \<leftarrow> free_area (p_stack (procs k ! i)) (p_stacksize (procs k ! i)) (memory k);
      m2 \<leftarrow> free_area (p_text (procs k ! i)) (p_textsize (procs k ! i)) m1;
      Some (0, k2\<lparr>files := fs, memory := m2\<rparr>) }
    \<and> proc_list k2 (remove1 i L) \<and> same_pcb ((procs k ! i)\<lparr>p_valid := False\<rparr>) (procs k2 ! i) \<and> same_procs {i} k k2
    \<and> k2 = k\<lparr>procs := procs k2, proc_first := proc_first k2\<rparr>"
proof -
  note l = proc_listD[OF assms(1)]
  have i: "i < length (procs k)" using l(2) assms(2) by blast
  let ?q = "(procs k ! i)\<lparr>p_valid := False\<rparr>"
  let ?k = "k\<lparr>procs := (procs k)[i := ?q]\<rparr>"
  have nx: "(\<lambda>j. p_next (procs ?k ! j)) = (\<lambda>j. p_next (procs k ! j))" using i by (auto simp: nth_list_update)
  have "prevs (procs ?k) L \<longleftrightarrow> prevs (procs k) L" by (rule prevs_cong) (use i in \<open>auto simp: nth_list_update\<close>)
  then have p: "prevs (procs ?k) L" using assms(1) by (simp add: proc_list_def)
  obtain k2 where k2: "process_remove fuel i ?k = Some (0, k2)"
    "seg (\<lambda>j. p_next (procs k2 ! j)) (proc_first k2) (remove1 i L) None" "prevs (procs k2) (remove1 i L)"
    "same_procs {} ?k k2" "k2 = ?k\<lparr>procs := procs k2, proc_first := proc_first k2\<rparr>"
    using process_remove_refines[of ?k L i fuel, unfolded nx] l(1,2) p assms(2,3) by auto
  have qi: "same_pcb ?q (procs k2 ! i)" using same_procsD(1)[OF k2(4), of i] i by simp
  have old: "same_procs {i} k k2" using k2(4) by (auto simp: same_procs_def nth_list_update)
  have len: "length (procs k2) = length (procs k)" using old by (simp add: same_procs_def)
  have f: "p_valid (procs k2 ! j) \<longleftrightarrow> j \<noteq> i \<and> p_valid (procs k ! j)" "p_pid (procs k2 ! j) = p_pid (procs k ! j)"
    if "j < length (procs k)" for j
    using same_pcb_fields[OF qi] same_pcb_fields[OF same_procsD(1)[OF old that]] by (cases "j = i"; simp)+
  have kk: "files k2 = files k" "memory k2 = memory k" "avail_pid k2 = avail_pid k" by (subst k2(5), simp)+
  have "process_destroy fuel i k = do {
      fs \<leftarrow> close_files fuel (p_files (procs k ! i)) (files k);
      m1 \<leftarrow> free_area (p_stack (procs k ! i)) (p_stacksize (procs k ! i)) (memory k);
      m2 \<leftarrow> free_area (p_text (procs k ! i)) (p_textsize (procs k ! i)) m1;
      Some (0, k2\<lparr>files := fs, memory := m2\<rparr>) }"
    using i k2(1) len same_pcb_fields[OF qi] kk by (simp add: process_destroy_def)
  moreover have "proc_list k2 (remove1 i L)"
  proof -
    have "set (remove1 i L) = {j. j < length (procs k2) \<and> p_valid (procs k2 ! j)}"
      using f(1) len l(2-4) by auto
    moreover
    have m: "map (\<lambda>j. p_pid (procs k2 ! j)) (remove1 i L) = map (\<lambda>j. p_pid (procs k ! j)) (remove1 i L)"
      using f(2) l(2) by (simp add: notin_set_remove1) (meson notin_set_remove1)
    have "distinct (map (\<lambda>j. p_pid (procs k ! j)) (remove1 i L))"
      using assms(1) l(3) by (auto simp: proc_list_def distinct_map inj_on_def)
    then have "distinct (map (\<lambda>j. p_pid (procs k2 ! j)) (remove1 i L))" by (simp only: m)
    moreover have "\<forall>j \<in> set (remove1 i L). p_pid (procs k2 ! j) < avail_pid k2"
    proof
      fix j assume "j \<in> set (remove1 i L)"
      then have j: "j \<in> set L" by (meson notin_set_remove1)
      then have "p_pid (procs k ! j) < avail_pid k" using assms(1) by (simp add: proc_list_def)
      then show "p_pid (procs k2 ! j) < avail_pid k2" using f(2)[OF l(2)[OF j]] kk(3) by simp
    qed
    ultimately show ?thesis unfolding proc_list_def using k2(2,3) by (simp del: distinct_map)
  qed
  moreover have "k2 = k\<lparr>procs := procs k2, proc_first := proc_first k2\<rparr>" using k2(5) by simp
  ultimately show ?thesis using old qi by blast
qed

section \<open>The references of all processes\<close>

definition refs_ok :: "nat option list \<Rightarrow> nat list \<Rightarrow> bool" where
  "refs_ok fds cs \<longleftrightarrow> (\<forall>j. Some j \<in> set fds \<longrightarrow> j < length cs) \<and> (\<forall>j < length cs. count_list fds (Some j) \<le> cs ! j)"

lemma tab_ok_refs: "tab_ok others fds cs \<longleftrightarrow> length fds = MAX_FD_PER_PROC \<and> refs_ok (fds @ others) cs"
  by (simp add: tab_ok_def refs_ok_def)

lemma refs_ok_mset: "mset fds = mset fds' \<Longrightarrow> refs_ok fds cs = refs_ok fds' cs"
  unfolding refs_ok_def by (metis count_mset mset_eq_setD)

lemma refs_ok_None [simp]: "refs_ok (replicate n None @ fds) cs = refs_ok fds cs" "refs_ok (fds @ replicate n None) cs = refs_ok fds cs"
  by (auto simp: refs_ok_def count_list_0_iff)

definition all_fds :: "pcb list \<Rightarrow> nat option list" where
  "all_fds ps = concat (map p_files (filter p_valid ps))"

definition other_fds :: "nat \<Rightarrow> pcb list \<Rightarrow> nat option list" where
  "other_fds i ps = all_fds (take i ps @ drop (Suc i) ps)"

lemma all_fds_update:
  assumes "i < length ps"
  shows "mset (all_fds (ps[i := p])) = mset ((if p_valid p then p_files p else []) @ other_fds i ps)"
  using assms by (simp add: all_fds_def other_fds_def upd_conv_take_nth_drop)

lemma all_fds_split:
  "i < length ps \<Longrightarrow> mset (all_fds ps) = mset ((if p_valid (ps ! i) then p_files (ps ! i) else []) @ other_fds i ps)"
  using all_fds_update[of i ps "ps ! i"] by simp

definition sys_files :: "kern \<Rightarrow> bool" where
  "sys_files k \<longleftrightarrow> (\<forall>p \<in> set (procs k). p_valid p \<longrightarrow> length (p_files p) = MAX_FD_PER_PROC)
     \<and> refs_ok (all_fds (procs k)) (map file_count (file_objects (files k)))"

text \<open>A file call of the current process.\<close>

lemma file_view_sys:
  assumes "sys_files k" "current k < length (procs k)" "p_valid (procs k ! current k)"
  shows "\<exists>fs. file_view k = Some fs \<and> fds_with (other_fds (current k) (procs k)) fs"
  using assms refs_ok_mset[OF all_fds_split[OF assms(2)]]
  by (simp add: file_view_def sys_files_def fds_with_def tab_ok_refs)

lemma store_files_sys:
  assumes "sys_files k" "current k < length (procs k)" "p_valid (procs k ! current k)"
    and "fds_with (other_fds (current k) (procs k)) fs"
  shows "yields sys_files (store_files fs k)"
proof -
  let ?i = "current k" and ?q = "(procs k ! current k)\<lparr>p_files := k_fds fs, p_cwd := k_cwd fs\<rparr>"
  have "mset (all_fds ((procs k)[?i := ?q])) = mset (k_fds fs @ other_fds ?i (procs k))"
    using all_fds_update[OF assms(2), of ?q] assms(3) by simp
  then have "refs_ok (all_fds ((procs k)[?i := ?q])) (map file_count (file_objects fs))"
    using assms(4) refs_ok_mset[of "all_fds ((procs k)[?i := ?q])" "k_fds fs @ other_fds ?i (procs k)"]
    by (simp add: fds_with_def tab_ok_refs)
  moreover have "\<forall>p \<in> set ((procs k)[?i := ?q]). p_valid p \<longrightarrow> length (p_files p) = 8"
    using assms(1,4) by (auto simp: sys_files_def fds_with_def tab_ok_refs dest!: set_update_subset_insert[THEN subsetD])
  ultimately show ?thesis using assms(2) by (simp add: sys_files_def store_files_def upd_def)
qed

text \<open>Closing the files of a process that is no longer valid.\<close>

lemma close_files_refs:
  "refs_ok (js @ others) (map file_count (file_objects fs)) \<Longrightarrow>
     yields (\<lambda>fs'. refs_ok others (map file_count (file_objects fs'))) (close_files fuel js fs)"
proof (induction js arbitrary: fs)
  case (Cons x js)
  show ?case
  proof (cases x)
    case None
    then show ?thesis using Cons refs_ok_None(1)[of 1 "js @ others"] by simp
  next
    case (Some j)
  let ?cs = "map file_count (file_objects fs)"
  show ?thesis
  proof (simp add: Some, rule yields_bind[OF file_object_free_eq], clarify)
    fix r and fs1 :: kfiles assume j: "j < length (file_objects fs)"
      and c: "map file_count (file_objects fs1) = ?cs[j := file_count (file_objects fs ! j) - 1]"
    have n: "Suc (count_list js (Some j) + count_list others (Some j)) \<le> ?cs ! j"
      using Cons.prems Some j unfolding refs_ok_def by (auto dest: spec[of _ j])
    have "refs_ok (js @ others) (?cs[j := ?cs ! j - 1])"
      using Cons.prems Some n by (auto simp: refs_ok_def nth_list_update split: if_splits)
    then show "yields (\<lambda>fs'. refs_ok others (map file_count (file_objects fs'))) (close_files fuel js fs1)"
      using Cons.IH[of fs1] c j by simp
  qed
  qed
qed simp

lemma mset_all_fds_cong:
  assumes "length ps = length ps'" "\<And>i. i < length ps \<Longrightarrow> p_valid (ps' ! i) = p_valid (ps ! i) \<and> p_files (ps' ! i) = p_files (ps ! i)"
  shows "all_fds ps' = all_fds ps"
  using assms
proof (induction ps ps' rule: list_induct2)
  case (Cons p ps p' ps')
  from Cons.prems[of 0] Cons.prems[of "Suc i" for i] Cons.IH show ?case by (auto simp: all_fds_def)
qed (simp add: all_fds_def)

text \<open>Only the entry \<open>i\<close> changes what it holds of files.\<close>

lemma all_fds_same_procs:
  assumes "same_procs {i} k k'" "i < length (procs k)"
  shows "all_fds (procs k') = all_fds ((procs k)[i := procs k' ! i])"
  using assms same_pcb_fields(1,4) by (intro mset_all_fds_cong) (auto simp: same_procs_def nth_list_update)

lemma sys_files_same_procs:
  assumes "same_procs {i} k k'" "i < length (procs k)" "sys_files k"
    and "p_valid (procs k' ! i) \<Longrightarrow> length (p_files (procs k' ! i)) = MAX_FD_PER_PROC"
    and "refs_ok ((if p_valid (procs k' ! i) then p_files (procs k' ! i) else []) @ other_fds i (procs k))
      (map file_count (file_objects (files k')))"
  shows "sys_files k'"
proof -
  have "length (p_files (procs k' ! j)) = 8" if "j < length (procs k')" "p_valid (procs k' ! j)" for j
  proof (cases "j = i")
    case False
    then have "same_pcb (procs k ! j) (procs k' ! j)" "j < length (procs k)"
      using assms(1) that by (simp_all add: same_procs_def)
    then show ?thesis using that(2) assms(3) same_pcb_fields by (auto simp: sys_files_def)
  qed (use assms(4) that in simp)
  moreover have "refs_ok (all_fds (procs k')) (map file_count (file_objects (files k')))"
    using assms(5) refs_ok_mset[OF all_fds_update[OF assms(2), of "procs k' ! i"]]
    unfolding all_fds_same_procs[OF assms(1,2)] by simp
  ultimately show ?thesis by (auto simp: sys_files_def in_set_conv_nth)
qed

lemma process_create_sys:
  assumes "proc_list k L" "index_of (\<lambda>p. \<not> p_valid p) (procs k) = Some i" "length L < fuel" "avail_pid k < 2 ^ 31 - 1"
    "sys_files k" "process_create fuel k = Some (Some i, k')"
  shows "sys_files k'"
proof -
  note c = process_create_refines_eq[OF assms(1-4)]
  have i: "i < length (procs k)" "\<not> p_valid (procs k ! i)" using assms(2) by (simp_all add: index_of_Some_iff)
  have s: "same_procs {i} k k'" "same_pcb (fresh_pcb k) (procs k' ! i)" "files k' = files k"
  proof -
    from c assms(6) have e: "k' = k\<lparr>avail_pid := avail_pid k + 1, procs := procs k', proc_first := proc_first k'\<rparr>"
      and "same_procs {i} k k'" "same_pcb (fresh_pcb k) (procs k' ! i)" by auto
    then show "same_procs {i} k k'" "same_pcb (fresh_pcb k) (procs k' ! i)" by blast+
    show "files k' = files k" by (subst e) simp
  qed
  note f = same_pcb_fields[OF s(2)]
  have "refs_ok (other_fds i (procs k)) (map file_count (file_objects (files k)))"
    using assms(5) refs_ok_mset[OF all_fds_split[OF i(1)]] i(2) by (simp add: sys_files_def)
  then show ?thesis
    using f refs_ok_None(1)[of 8] by (intro sys_files_same_procs[OF s(1) i(1) assms(5)])
      (simp_all add: fresh_pcb_def pcb_zero_def s(3))
qed

lemma proc_list_cong:
  "procs k' = procs k \<Longrightarrow> proc_first k' = proc_first k \<Longrightarrow> avail_pid k' = avail_pid k \<Longrightarrow> proc_list k' L = proc_list k L"
  by (simp add: proc_list_def)

lemma process_destroy_sys:
  assumes "proc_list k L" "i \<in> set L" "length L < fuel" "sys_files k"
  shows "yields (\<lambda>(r, k'). r = 0 \<and> sys_files k' \<and> proc_list k' (remove1 i L) \<and> same_procs {i} k k'
    \<and> same_pcb ((procs k ! i)\<lparr>p_valid := False\<rparr>) (procs k' ! i) \<and> current k' = current k \<and> wait_first k' = wait_first k)
    (process_destroy fuel i k)"
proof -
  have i: "i < length (procs k)" "p_valid (procs k ! i)" using assms(1,2) by (auto simp: proc_list_def)
  obtain k2 where e: "process_destroy fuel i k = do {
      fs \<leftarrow> close_files fuel (p_files (procs k ! i)) (files k);
      m1 \<leftarrow> free_area (p_stack (procs k ! i)) (p_stacksize (procs k ! i)) (memory k);
      m2 \<leftarrow> free_area (p_text (procs k ! i)) (p_textsize (procs k ! i)) m1;
      Some (0, k2\<lparr>files := fs, memory := m2\<rparr>) }"
    and k2: "proc_list k2 (remove1 i L)" "same_pcb ((procs k ! i)\<lparr>p_valid := False\<rparr>) (procs k2 ! i)" "same_procs {i} k k2"
      "k2 = k\<lparr>procs := procs k2, proc_first := proc_first k2\<rparr>"
    using process_destroy_refines_eq[OF assms(1-3)] by blast
  have "refs_ok (p_files (procs k ! i) @ other_fds i (procs k)) (map file_count (file_objects (files k)))"
    using assms(4) refs_ok_mset[OF all_fds_split[OF i(1)]] i(2) by (simp add: sys_files_def)
  note refs = close_files_refs[OF this]
  have c: "current k2 = current k" "wait_first k2 = wait_first k" by (subst k2(4), simp)+
  have inv: "\<not> p_valid (procs k2 ! i)" using same_pcb_fields(1)[OF k2(2)] by simp
  show ?thesis unfolding e
  proof (rule yields_bind[OF refs], intro yields_bindI yields_SomeI, clarify)
    fix fs :: kfiles and m2 assume r: "refs_ok (other_fds i (procs k)) (map file_count (file_objects fs))"
    let ?k = "k2\<lparr>files := fs, memory := m2\<rparr>"
    have s: "same_procs {i} k ?k" using k2(3) by (simp add: same_procs_def)
    have "sys_files ?k" by (rule sys_files_same_procs[OF s i(1) assms(4)]) (use inv r in simp_all)
    then show "(0::int) = 0 \<and> sys_files ?k \<and> proc_list ?k (remove1 i L) \<and> same_procs {i} k ?k
      \<and> same_pcb ((procs k ! i)\<lparr>p_valid := False\<rparr>) (procs ?k ! i) \<and> current ?k = current k \<and> wait_first ?k = wait_first k"
      using s k2(1,2) c proc_list_cong[of ?k k2] by simp
  qed
qed

end
