(* ===== verification/Scheduler.thy ===== *)
theory Scheduler
  imports Process
begin

text \<open>
  The scheduler, wait queues, \<open>waitpid\<close>, \<open>exit\<close> and \<open>vfork\<close>
  (\<open>kernel/processes/scheduler.c\<close>, \<open>waitqueue.c\<close>, \<open>waitpid.c\<close>, \<open>exit.c\<close>, \<open>vfork.c\<close>).

  A context switch is the change of \<open>current\<close>: the state after \<open>schedule\<close> is the one the process chosen
  continues in.  A call that sleeps ends in that state, and what its process does when it runs again is
  an operation of its own (\<open>waitpid_wait\<close>).
\<close>

abbreviation (input) "WNOHANG \<equiv> 1 :: int"

section \<open>The scheduler\<close>

definition schedule_step :: "pcb list \<Rightarrow> nat option \<Rightarrow> nat \<Rightarrow> nat \<Rightarrow> (nat + nat) option" where
  "schedule_step ps first orig_proc proc = do {
     p \<leftarrow> rd ps proc;
     n \<leftarrow> (case p_next p of
             Some n \<Rightarrow> Some (Some n)
           | None \<Rightarrow> do { f \<leftarrow> first; q \<leftarrow> rd ps f; Some (p_next q) });
     (case n of
        None \<Rightarrow> do { f \<leftarrow> first; Some (Inr f) }
      | Some i \<Rightarrow> do {
          q \<leftarrow> rd ps i;
          if p_status q = Ready then Some (Inr i)
          else if i = orig_proc then do { f \<leftarrow> first; Some (Inr f) }
          else Some (Inl i) }) }"

definition schedule :: "nat \<Rightarrow> kern \<Rightarrow> kern option" where
  "schedule fuel k = do {
     let cur = current k;
     p \<leftarrow> rd (procs k) cur;
     if proc_first k = Some cur \<and> p_next p = None then Some k
     else do {
       start \<leftarrow> (if proc_first k = Some cur then p_next p else Some cur);
       proc \<leftarrow> c_loop fuel (schedule_step (procs k) (proc_first k) start) start;
       k1 \<leftarrow> upd cur (\<lambda>p. p\<lparr>p_user_time := p_user_time p + (ticks_since_boot k - p_last_scheduled p)\<rparr>) k;
       k2 \<leftarrow> upd proc (\<lambda>p. p\<lparr>p_last_scheduled := ticks_since_boot k\<rparr>) k1;
       Some (k2\<lparr>current := proc\<rparr>) } }"

section \<open>Wait queues\<close>

definition enqueue_step :: "pcb list \<Rightarrow> nat \<Rightarrow> nat \<Rightarrow> (nat + nat option) option" where
  "enqueue_step ps proc i =
     (if i = proc then Some (Inr None)
      else do { q \<leftarrow> rd ps i; Some (case p_wait_next q of None \<Rightarrow> Inr (Some i) | Some n \<Rightarrow> Inl n) })"

definition wait_queue_add :: "nat \<Rightarrow> wait_queue \<Rightarrow> nat \<Rightarrow> kern \<Rightarrow> (int \<times> kern) option" where
  "wait_queue_add fuel queue proc k = do {
     k1 \<leftarrow> (case wait_first k queue of
              None \<Rightarrow> Some (k\<lparr>wait_first := (wait_first k)(queue := Some proc)\<rparr>)
            | Some f \<Rightarrow> do {
                r \<leftarrow> c_loop fuel (enqueue_step (procs k) proc) f;
                (case r of None \<Rightarrow> Some k | Some l \<Rightarrow> upd l (p_wait_next_update (\<lambda>_. Some proc)) k) });
     k2 \<leftarrow> upd proc (p_status_update (\<lambda>_. Sleeping)) k1;
     k3 \<leftarrow> schedule fuel k2;
     Some (0, k3) }"

definition wake_step :: "nat option \<times> kern \<Rightarrow> ((nat option \<times> kern) + kern) option" where
  "wake_step = (\<lambda>(p, k).
     case p of None \<Rightarrow> Some (Inr k)
     | Some i \<Rightarrow> do {
         q \<leftarrow> rd (procs k) i;
         k1 \<leftarrow> upd i (\<lambda>q. q\<lparr>p_status := Ready, p_wait_next := None\<rparr>) k;
         Some (Inl (p_wait_next q, k1)) })"

definition wait_queue_wake :: "nat \<Rightarrow> wait_queue \<Rightarrow> kern \<Rightarrow> (int \<times> kern) option" where
  "wait_queue_wake fuel queue k = do {
     k1 \<leftarrow> c_loop fuel wake_step (wait_first k queue, k);
     Some (0, k1\<lparr>wait_first := (wait_first k1)(queue := None)\<rparr>) }"

section \<open>Waiting for a process, and its end\<close>

text \<open>A call returns its result and the status of the process, or sleeps until the process has exited.\<close>

datatype wait_result = Returned int "int option" | Blocked nat

definition waitpid_wait :: "nat \<Rightarrow> int \<Rightarrow> nat \<Rightarrow> kern \<Rightarrow> (wait_result \<times> kern) option" where
  "waitpid_wait fuel pid proc k = do {
     q \<leftarrow> rd (procs k) proc;
     if p_status q \<noteq> Exited then do {
       (_, k1) \<leftarrow> wait_queue_add fuel Waitpid_Queue (current k) k;
       Some (Blocked proc, k1) }
     else do {
       (_, k1) \<leftarrow> process_destroy fuel proc k;
       Some (Returned pid (Some (p_exit_value q)), k1) } }"

definition waitpid_poll :: "nat \<Rightarrow> nat \<Rightarrow> kern \<Rightarrow> (wait_result \<times> kern) option" where
  "waitpid_poll fuel proc k = do {
     q \<leftarrow> rd (procs k) proc;
     if p_status q = Exited then do {
       (_, k1) \<leftarrow> process_destroy fuel proc k;
       Some (Returned (p_pid q) (Some (p_exit_value q)), k1) }
     else Some (Returned 0 None, k) }"

text \<open>An unknown process number makes \<open>waitpid\<close> go through a null pointer.\<close>

definition waitpid :: "nat \<Rightarrow> int \<Rightarrow> int \<Rightarrow> nat \<Rightarrow> kern \<Rightarrow> (wait_result \<times> kern) option" where
  "waitpid fuel pid options caller k = do {
     r \<leftarrow> (if pid = - 1 then do {
             c \<leftarrow> process_lookup_child fuel caller k;
             Some (case c of None \<Rightarrow> Inl (- ECHILD) | Some proc \<Rightarrow> Inr proc) }
           else if pid < 0 then Some (Inl (- ENODEV))
           else do { c \<leftarrow> process_lookup fuel pid k; proc \<leftarrow> c; Some (Inr proc) });
     (case r of
        Inl e \<Rightarrow> Some (Returned e None, k)
      | Inr proc \<Rightarrow> if options = WNOHANG then waitpid_poll fuel proc k else waitpid_wait fuel pid proc k) }"

definition waitpid_done :: "nat \<Rightarrow> kern \<Rightarrow> (int \<times> kern) option" where
  "waitpid_done fuel k = do { (_, k1) \<leftarrow> wait_queue_wake fuel Waitpid_Queue k; Some (0, k1) }"

definition exit_process :: "nat \<Rightarrow> int \<Rightarrow> kern \<Rightarrow> kern option" where
  "exit_process fuel status k = do {
     k1 \<leftarrow> upd (current k) (\<lambda>p. p\<lparr>p_status := Exited, p_exit_value := status\<rparr>) k;
     (_, k2) \<leftarrow> waitpid_done fuel k1;
     schedule fuel k2 }"

section \<open>vfork\<close>

fun increment_files :: "nat option list \<Rightarrow> kfiles \<Rightarrow> kfiles option" where
  "increment_files [] fs = Some fs"
| "increment_files (None # js) fs = increment_files js fs"
| "increment_files (Some j # js) fs = do { fs1 \<leftarrow> files_increment_count j fs; increment_files js fs1 }"

text \<open>The result is the one the parent sees; the child continues with the result 0.\<close>

definition vfork :: "nat \<Rightarrow> kern \<Rightarrow> (int \<times> kern) option" where
  "vfork fuel k = do {
     let parent = current k;
     (c, k1) \<leftarrow> process_create fuel k;
     (case c of
        None \<Rightarrow> Some (- 1, k1)
      | Some child \<Rightarrow> do {
          q \<leftarrow> rd (procs k1) child;
          p \<leftarrow> rd (procs k1) parent;
          fs \<leftarrow> increment_files (p_files p) (files k1);
          k2 \<leftarrow> upd child (\<lambda>_. p\<lparr>p_pid := p_pid q, p_prev := p_prev q, p_next := p_next q, p_parent := Some parent,
                              p_stack := 0, p_text := 0\<rparr>) (k1\<lparr>files := fs\<rparr>);
          k3 \<leftarrow> upd parent (p_status_update (\<lambda>_. Sleeping)) k2;
          k4 \<leftarrow> upd child (p_status_update (\<lambda>_. Ready)) k3;
          k5 \<leftarrow> schedule fuel k4;
          Some (p_pid q, k5) }) }"

section \<open>What the scheduler chooses\<close>

definition ready :: "kern \<Rightarrow> nat \<Rightarrow> bool" where
  "ready k i \<longleftrightarrow> p_status (procs k ! i) = Ready"

definition first_ready :: "kern \<Rightarrow> nat \<Rightarrow> nat list \<Rightarrow> nat" where
  "first_ready k idle cs = (case find (ready k) cs of None \<Rightarrow> idle | Some i \<Rightarrow> i)"

text \<open>\<open>order ps first c cs\<close>: the loop visits the processes \<open>cs\<close> after \<open>c\<close>, wrapping round behind the idle task.\<close>

definition follows :: "pcb list \<Rightarrow> nat \<Rightarrow> nat \<Rightarrow> nat \<Rightarrow> bool" where
  "follows ps idle c d \<longleftrightarrow> c < length ps \<and> d < length ps \<and> idle < length ps
     \<and> (p_next (ps ! c) = Some d \<or> p_next (ps ! c) = None \<and> p_next (ps ! idle) = Some d)"

fun order :: "pcb list \<Rightarrow> nat \<Rightarrow> nat \<Rightarrow> nat list \<Rightarrow> bool" where
  "order ps idle c [] = True"
| "order ps idle c (d # cs) = (follows ps idle c d \<and> order ps idle d cs)"

lemma order_append: "order ps idle c (A @ B) \<longleftrightarrow> order ps idle c A \<and> order ps idle (last (c # A)) B"
  by (induction A arbitrary: c) auto

lemma schedule_loop:
  assumes "order (procs k) idle c (cs @ [s])" "s \<notin> set cs" "length cs < fuel"
  shows "c_loop fuel (schedule_step (procs k) (Some idle) s) c = Some (first_ready k idle (cs @ [s]))"
  using assms
proof (induction cs arbitrary: c fuel)
  case Nil
  then obtain n where "fuel = Suc n" by (cases fuel) auto
  then show ?case using Nil by (auto simp: schedule_step_def follows_def first_ready_def ready_def)
next
  case (Cons d cs)
  obtain n where n: "fuel = Suc n" using Cons.prems(3) by (cases fuel) auto
  have f: "follows (procs k) idle c d" using Cons.prems(1) by simp
  have st: "schedule_step (procs k) (Some idle) s c = Some (if ready k d then Inr d else Inl d)"
    using f Cons.prems(2) by (auto simp: schedule_step_def follows_def ready_def)
  show ?case
    using Cons.IH[of d n] Cons.prems n st by (simp add: first_ready_def)
qed

lemma seg_order:
  assumes "seg (\<lambda>i. p_next (ps ! i)) (Some c) (c # L) None" "\<And>i. i \<in> set (c # L) \<Longrightarrow> i < length ps" "idle < length ps"
  shows "order ps idle c L" "p_next (ps ! last (c # L)) = None"
  using assms
proof (induction L arbitrary: c)
  case (Cons d L)
  { case 1 then show ?case using Cons.IH(1)[of d] by (auto simp: follows_def) }
  { case 2 then show ?case using Cons.IH(2)[of d] by auto }
qed auto

text \<open>The processes after \<open>s\<close> in the list, then those before it, then \<open>s\<close>.\<close>

lemma list_order:
  assumes "proc_list k (idle # A @ s # B)"
  shows "order (procs k) idle s (B @ A @ [s])" "proc_first k = Some idle"
    "p_next (procs k ! idle) = Some (hd (A @ [s]))" "idle \<notin> set (A @ s # B)" "s \<notin> set (B @ A)"
proof -
  note l = proc_listD[OF assms(1)]
  show f: "proc_first k = Some idle" and d: "idle \<notin> set (A @ s # B)" "s \<notin> set (B @ A)" using l(1,3) by auto
  have sg: "seg (\<lambda>i. p_next (procs k ! i)) (p_next (procs k ! idle)) (A @ s # B) None" using l(1) by simp
  then have h: "p_next (procs k ! idle) = Some (hd (A @ [s]))" by (cases A) auto
  then show "p_next (procs k ! idle) = Some (hd (A @ [s]))" .
  obtain r where r: "seg (\<lambda>i. p_next (procs k ! i)) (p_next (procs k ! idle)) A r"
    "seg (\<lambda>i. p_next (procs k ! i)) r (s # B) None" using sg by (auto simp: seg_append)
  have b: "order (procs k) idle s B" "p_next (procs k ! last (s # B)) = None"
    by (rule seg_order; use r(2) l(2) in force)+
  have all: "order (procs k) idle (hd (A @ [s])) (tl (A @ s # B))"
    by (rule seg_order) (use sg h l(2) in \<open>cases A; force\<close>)+
  have a: "order (procs k) idle (last (s # B)) (A @ [s])"
  proof (cases A)
    case Nil
    then show ?thesis using b(2) h l(2) by (auto simp: follows_def)
  next
    case (Cons a A')
    then have "order (procs k) idle a (A' @ s # B)" using all by simp
    then have "order (procs k) idle a (A' @ [s])" by (simp add: order_append)
    moreover have "follows (procs k) idle (last (s # B)) a"
      using b(2) h l(2) Cons by (auto simp: follows_def)
    ultimately show ?thesis by (simp add: Cons)
  qed
  show "order (procs k) idle s (B @ A @ [s])" using a b(1) by (simp add: order_append)
qed

definition switch_to :: "nat \<Rightarrow> kern \<Rightarrow> kern" where
  "switch_to i k = (let c = current k; now = tick_counter k;
     ps = (procs k)[c := (procs k ! c)\<lparr>p_user_time := p_user_time (procs k ! c) + (now - p_last_scheduled (procs k ! c))\<rparr>] in
     k\<lparr>procs := ps[i := (ps ! i)\<lparr>p_last_scheduled := now\<rparr>], current := i\<rparr>)"

lemma schedule_eq:
  assumes "proc_list k (idle # A @ s # B)" "current k = s \<or> current k = idle \<and> A = []" "length (A @ B) < fuel"
  shows "schedule fuel k = Some (switch_to (first_ready k idle (B @ A @ [s])) k)"
proof -
  note l = proc_listD[OF assms(1)] and o = list_order[OF assms(1)]
  have c: "current k < length (procs k)" "idle < length (procs k)" using assms(2) l(2) by auto
  have loop: "c_loop fuel (schedule_step (procs k) (Some idle) s) s = Some (first_ready k idle ((B @ A) @ [s]))"
    by (rule schedule_loop) (use o assms(3) in simp_all)
  have i: "first_ready k idle (B @ A @ [s]) < length (procs k)"
  proof (cases "find (ready k) (B @ A @ [s])")
    case None
    then show ?thesis using c(2) by (simp add: first_ready_def)
  next
    case (Some i)
    then have "i \<in> set (B @ A @ [s])" by (metis find_Some_iff nth_mem)
    then show ?thesis using Some l(2) by (auto simp: first_ready_def)
  qed
  show ?thesis
  proof (cases "current k = idle")
    case True
    then have "p_next (procs k ! idle) = Some s" using assms(2) o(3,4) by auto
    then show ?thesis using loop c i True o(2) by (simp add: schedule_def switch_to_def Let_def ticks_since_boot_def)
  next
    case False
    then have "current k = s" using assms(2) by simp
    then show ?thesis using loop c i False o(2) by (simp add: schedule_def switch_to_def Let_def ticks_since_boot_def)
  qed
qed

text \<open>A switch changes nothing but the clock readings and the current process.\<close>

definition same_table :: "kern \<Rightarrow> kern \<Rightarrow> bool" where
  "same_table k k' \<longleftrightarrow> length (procs k') = length (procs k)
     \<and> (\<forall>i < length (procs k). procs k' ! i = (procs k ! i)\<lparr>p_user_time := p_user_time (procs k' ! i),
          p_last_scheduled := p_last_scheduled (procs k' ! i)\<rparr>)
     \<and> k' = k\<lparr>procs := procs k', current := current k'\<rparr>"

lemma switch_same: "current k < length (procs k) \<Longrightarrow> i < length (procs k) \<Longrightarrow> same_table k (switch_to i k)"
  by (auto simp: same_table_def switch_to_def Let_def nth_list_update)

lemma current_switch [simp]: "current (switch_to i k) = i"
  by (simp add: switch_to_def Let_def)

lemma same_table_fields:
  assumes "same_table k k'" "i < length (procs k)"
  shows "p_next (procs k' ! i) = p_next (procs k ! i)" "p_prev (procs k' ! i) = p_prev (procs k ! i)"
    "p_valid (procs k' ! i) = p_valid (procs k ! i)" "p_status (procs k' ! i) = p_status (procs k ! i)"
    "p_pid (procs k' ! i) = p_pid (procs k ! i)" "p_files (procs k' ! i) = p_files (procs k ! i)"
    "p_wait_next (procs k' ! i) = p_wait_next (procs k ! i)" "p_parent (procs k' ! i) = p_parent (procs k ! i)"
    "p_exit_value (procs k' ! i) = p_exit_value (procs k ! i)"
proof -
  from assms obtain u l where "procs k' ! i = (procs k ! i)\<lparr>p_user_time := u, p_last_scheduled := l\<rparr>"
    unfolding same_table_def by blast
  then show "p_next (procs k' ! i) = p_next (procs k ! i)" "p_prev (procs k' ! i) = p_prev (procs k ! i)"
    "p_valid (procs k' ! i) = p_valid (procs k ! i)" "p_status (procs k' ! i) = p_status (procs k ! i)"
    "p_pid (procs k' ! i) = p_pid (procs k ! i)" "p_files (procs k' ! i) = p_files (procs k ! i)"
    "p_wait_next (procs k' ! i) = p_wait_next (procs k ! i)" "p_parent (procs k' ! i) = p_parent (procs k ! i)"
    "p_exit_value (procs k' ! i) = p_exit_value (procs k ! i)" by simp_all
qed

lemma same_table_current: "same_table k k' \<Longrightarrow> k' = k\<lparr>procs := procs k', current := current k'\<rparr>"
  by (simp add: same_table_def)

lemma same_table_update: "same_table k k' \<Longrightarrow> \<exists>P C. k' = k\<lparr>procs := P, current := C\<rparr>"
  unfolding same_table_def by blast

lemma same_table_trans:
  assumes "same_table k k'" "same_table k' k''"
  shows "same_table k k''"
proof -
  have l: "length (procs k'') = length (procs k)" using assms by (simp add: same_table_def)
  have "procs k'' ! i = (procs k ! i)\<lparr>p_user_time := p_user_time (procs k'' ! i), p_last_scheduled := p_last_scheduled (procs k'' ! i)\<rparr>"
    if i: "i < length (procs k)" for i
  proof -
    obtain u v where "procs k' ! i = (procs k ! i)\<lparr>p_user_time := u, p_last_scheduled := v\<rparr>"
      using assms(1) i unfolding same_table_def by blast
    moreover obtain u' v' where "procs k'' ! i = (procs k' ! i)\<lparr>p_user_time := u', p_last_scheduled := v'\<rparr>"
      using assms i unfolding same_table_def by metis
    ultimately show ?thesis by simp
  qed
  moreover obtain P C P' C' where "k' = k\<lparr>procs := P, current := C\<rparr>" "k'' = k'\<lparr>procs := P', current := C'\<rparr>"
    using same_table_update[OF assms(1)] same_table_update[OF assms(2)] by blast
  then have "k'' = k\<lparr>procs := procs k'', current := current k''\<rparr>" by simp
  ultimately show ?thesis using l unfolding same_table_def by blast
qed

lemma same_table_globals:
  assumes "same_table k k'"
  shows "proc_first k' = proc_first k" "avail_pid k' = avail_pid k" "files k' = files k" "memory k' = memory k"
    "wait_first k' = wait_first k" "tick_counter k' = tick_counter k" "length (procs k') = length (procs k)"
proof -
  obtain P C where "k' = k\<lparr>procs := P, current := C\<rparr>" using same_table_update[OF assms] by blast
  then show "proc_first k' = proc_first k" "avail_pid k' = avail_pid k" "files k' = files k" "memory k' = memory k"
    "wait_first k' = wait_first k" "tick_counter k' = tick_counter k" by simp_all
  show "length (procs k') = length (procs k)" using assms unfolding same_table_def by blast
qed

lemma same_table_list: "same_table k k' \<Longrightarrow> proc_list k L \<Longrightarrow> proc_list k' L"
  by (rule proc_list_fields[THEN iffD1]) (auto simp: same_table_fields same_table_globals)

lemma same_table_ready: "same_table k k' \<Longrightarrow> i < length (procs k) \<Longrightarrow> ready k' i = ready k i"
  by (simp add: ready_def same_table_fields)

lemma same_table_sys: "same_table k k' \<Longrightarrow> sys_files k' = sys_files k"
proof -
  assume s: "same_table k k'"
  have "all_fds (procs k') = all_fds (procs k)"
    by (rule mset_all_fds_cong) (use same_table_globals(7)[OF s] same_table_fields[OF s] in auto)
  then show ?thesis
    using same_table_globals[OF s] same_table_fields[OF s] by (auto simp: sys_files_def all_set_conv_all_nth)
qed

text \<open>The order of the processes after the next one chosen is the same order, rotated.\<close>

lemma rotate_split:
  assumes "B @ A @ [s] = X @ t # Z" "Z \<noteq> []"
  shows "\<exists>A' B'. A @ s # B = A' @ t # B' \<and> B' @ A' @ [t] = Z @ X @ [t]"
proof -
  from assms(1) consider us where "B = X @ us" "us @ A @ [s] = t # Z" | X1 where "X = B @ X1" "A @ [s] = X1 @ t # Z"
    by (auto simp: append_eq_append_conv2)
  then consider Z1 where "B = X @ t # Z1" "Z = Z1 @ A @ [s]" | X1 where "X = B @ X1" "A @ [s] = X1 @ t # Z"
  proof cases
    case (1 us)
    then show thesis using that(1) that(2)[of "[]"] by (cases us) auto
  qed (rule that(2))
  then show ?thesis
  proof cases
    case 1
    then have "A @ s # B = (A @ s # X) @ t # Z1 \<and> Z1 @ (A @ s # X) @ [t] = Z @ X @ [t]" by simp
    then show ?thesis by blast
  next
    case 2
    obtain Z1 z where "Z = Z1 @ [z]" using assms(2) by (cases Z rule: rev_cases) auto
    then have "Z = Z1 @ [s]" "A = X1 @ t # Z1" using 2(2) by auto
    then have "A @ s # B = X1 @ t # (Z1 @ s # B) \<and> (Z1 @ s # B) @ X1 @ [t] = Z @ X @ [t]" using 2 by simp
    then show ?thesis by blast
  qed
qed

fun schedules :: "nat \<Rightarrow> nat \<Rightarrow> kern \<Rightarrow> kern option" where
  "schedules fuel 0 k = Some k"
| "schedules fuel (Suc n) k = do { k1 \<leftarrow> schedule fuel k; schedules fuel n k1 }"

lemma find_split: "find P xs = Some t \<Longrightarrow> \<exists>X Z. xs = X @ t # Z \<and> P t \<and> (\<forall>x \<in> set X. \<not> P x)"
proof (induction xs)
  case (Cons x xs)
  show ?case
  proof (cases "P x")
    case False
    then obtain X Z where "xs = X @ t # Z" "P t" "\<forall>x \<in> set X. \<not> P x" using Cons by auto
    then have "x # xs = (x # X) @ t # Z \<and> P t \<and> (\<forall>y \<in> set (x # X). \<not> P y)" using False by simp
    then show ?thesis by blast
  qed (use Cons.prems in force)
qed simp

lemma split_earlier:
  "X @ p # Y = X1 @ t # Z \<Longrightarrow> p \<notin> set X1 \<Longrightarrow> t \<noteq> p \<Longrightarrow> \<exists>X2. X = X1 @ t # X2 \<and> Z = X2 @ p # Y"
proof (induction X arbitrary: X1)
  case Nil
  then show ?case by (cases X1) auto
next
  case (Cons x X)
  then show ?case by (cases X1) auto
qed

lemma schedule_reaches:
  assumes "proc_list k (idle # A @ s # B)" "current k = s" "B @ A @ [s] = X @ p # Y" "ready k p" "length (A @ B) < fuel"
  shows "\<exists>n k'. 1 \<le> n \<and> n \<le> Suc (length X) \<and> schedules fuel n k = Some k' \<and> current k' = p \<and> same_table k k'"
  using assms
proof (induction X arbitrary: k A s B Y rule: length_induct)
  case (1 X)
  have "find (ready k) (X @ p # Y) \<noteq> None" using 1(5) by (auto simp: find_None_iff)
  then obtain t where t: "find (ready k) (X @ p # Y) = Some t" by blast
  let ?k = "switch_to t k"
  have sc: "schedule fuel k = Some ?k"
    using schedule_eq[OF 1(2) _ 1(6)] 1(3,4) t by (simp add: first_ready_def)
  obtain X1 Z where z: "X @ p # Y = X1 @ t # Z" "ready k t" "\<forall>x \<in> set X1. \<not> ready k x" using find_split[OF t] by blast
  have tm: "t \<in> set (A @ s # B)" 
  proof -
    have "t \<in> set (B @ A @ [s])" unfolding 1(4) z(1) by simp
    then show ?thesis by auto
  qed
  have pm: "p \<in> set (A @ s # B)"
  proof -
    have "p \<in> set (B @ A @ [s])" unfolding 1(4) by simp
    then show ?thesis by auto
  qed
  have l: "current k < length (procs k)" "t < length (procs k)" "p < length (procs k)"
    using proc_listD(2)[OF 1(2)] 1(3) tm pm by auto
  have same: "same_table k ?k" by (rule switch_same[OF l(1,2)])
  show ?case
  proof (cases "t = p")
    case True
    then show ?thesis using sc same by (intro exI[of _ 1] exI[of _ ?k]) simp
  next
    case False
    then obtain X2 where x: "X = X1 @ t # X2" "Z = X2 @ p # Y"
      using split_earlier[OF z(1)] z(3) 1(5) False by auto
    obtain A' B' where r: "A @ s # B = A' @ t # B'" "B' @ A' @ [t] = X2 @ p # (Y @ X1 @ [t])"
      using rotate_split[of B A s X1 t Z] 1(4) z(1) x(2) by auto
    have "length (A' @ B') = length (A @ B)" using arg_cong[OF r(1), of length] by simp
    then have "\<exists>n k'. 1 \<le> n \<and> n \<le> Suc (length X2) \<and> schedules fuel n ?k = Some k' \<and> current k' = p \<and> same_table ?k k'"
      using 1(1)[rule_format, of X2 ?k A' t B' "Y @ X1 @ [t]"] same_table_list[OF same 1(2)] r 1(5,6) x(1)
        same_table_ready[OF same l(3)] by auto
    then obtain n k' where n: "1 \<le> n" "n \<le> Suc (length X2)" "schedules fuel n ?k = Some k'" "current k' = p" "same_table ?k k'"
      by blast
    then show ?thesis using sc same_table_trans[OF same n(5)] x(1) by (intro exI[of _ "Suc n"] exI[of _ k']) simp
  qed
qed

text \<open>With its fuel above the length of the list the scheduler always chooses a process.\<close>

lemma schedule_defined:
  assumes "proc_list k (idle # T)" "current k \<in> set (idle # T)" "length T < fuel"
  shows "\<exists>k'. schedule fuel k = Some k' \<and> same_table k k' \<and> current k' \<in> set (idle # T)
    \<and> (ready k (current k') \<or> current k' = idle)"
proof -
  note l = proc_listD[OF assms(1)]
  have c: "current k < length (procs k)" using l(2) assms(2) by blast
  have nxt: "first_ready k idle cs \<in> set (idle # cs)" "ready k (first_ready k idle cs) \<or> first_ready k idle cs = idle" for cs
    by (auto simp: first_ready_def find_Some_iff split: option.splits)
  have sw: "\<exists>k'. schedule fuel k = Some k' \<and> same_table k k' \<and> current k' \<in> set (idle # T)
    \<and> (ready k (current k') \<or> current k' = idle)"
    if T: "T = A @ s # B" and s: "current k = s \<or> current k = idle \<and> A = []" for A s B
  proof -
    let ?i = "first_ready k idle (B @ A @ [s])"
    have i: "?i \<in> set (idle # T)" using nxt(1)[of "B @ A @ [s]"] T by auto
    then have "?i < length (procs k)" by (rule l(2))
    from switch_same[OF c this] show ?thesis
      using schedule_eq[of k idle A s B fuel] assms(1,3) s i nxt(2) T by auto
  qed
  show ?thesis
  proof (cases T)
    case Nil
    then have "current k = idle" "proc_first k = Some idle" "p_next (procs k ! idle) = None" using assms(2) l(1) by auto
    moreover have "same_table k k" by (simp add: same_table_def)
    ultimately show ?thesis using c by (intro exI[of _ k]) (simp add: schedule_def)
  next
    case (Cons t T')
    show ?thesis
    proof (cases "current k = idle")
      case True
      then show ?thesis using sw[of "[]" t T'] Cons by simp
    next
      case False
      then obtain A B where "T = A @ current k # B" using assms(2) by (meson set_ConsD split_list)
      then show ?thesis using sw by blast
    qed
  qed
qed

section \<open>Waking and waiting\<close>

text \<open>\<open>waiting k q W\<close>: the processes in the queue \<open>q\<close> are \<open>W\<close>, in order.\<close>

definition waiting :: "kern \<Rightarrow> wait_queue \<Rightarrow> nat list \<Rightarrow> bool" where
  "waiting k q W \<longleftrightarrow> seg (\<lambda>i. p_wait_next (procs k ! i)) (wait_first k q) W None \<and> (\<forall>i \<in> set W. i < length (procs k))"

definition woken :: "nat list \<Rightarrow> kern \<Rightarrow> kern" where
  "woken W k = k\<lparr>procs := map (\<lambda>i. if i \<in> set W then (procs k ! i)\<lparr>p_status := Ready, p_wait_next := None\<rparr> else procs k ! i)
     [0..<length (procs k)]\<rparr>"

lemma woken_nth: "i < length (procs k) \<Longrightarrow>
    procs (woken W k) ! i = (if i \<in> set W then (procs k ! i)\<lparr>p_status := Ready, p_wait_next := None\<rparr> else procs k ! i)"
  by (simp add: woken_def)

lemma woken_Cons:
  assumes "i < length (procs k)" "i \<notin> set W"
  shows "woken W (k\<lparr>procs := (procs k)[i := (procs k ! i)\<lparr>p_status := Ready, p_wait_next := None\<rparr>]\<rparr>) = woken (i # W) k"
  using assms by (simp add: woken_def nth_list_update)

lemma wake_loop:
  assumes "seg (\<lambda>i. p_wait_next (procs k ! i)) p W None" "\<And>i. i \<in> set W \<Longrightarrow> i < length (procs k)" "length W < fuel"
  shows "c_loop fuel wake_step (p, k) = Some (woken W k)"
  using assms
proof (induction W arbitrary: p k fuel)
  case Nil
  have "woken [] k = k" by (simp add: woken_def map_nth)
  then show ?case using Nil by (cases fuel) (simp_all add: wake_step_def)
next
  case (Cons i W)
  obtain n where n: "fuel = Suc n" using Cons.prems(3) by (cases fuel) auto
  have d: "i \<notin> set W" using seg_distinct[OF Cons.prems(1)] by simp
  have i: "i < length (procs k)" using Cons.prems(2) by simp
  let ?k = "k\<lparr>procs := (procs k)[i := (procs k ! i)\<lparr>p_status := Ready, p_wait_next := None\<rparr>]\<rparr>"
  have sg: "seg (\<lambda>j. p_wait_next (procs k ! j)) (p_wait_next (procs k ! i)) W None" using Cons.prems(1) by simp
  have "seg (\<lambda>j. p_wait_next (procs ?k ! j)) (p_wait_next (procs k ! i)) W None"
    by (rule seg_cong[THEN iffD1, OF _ sg]) (use d i in \<open>auto simp: nth_list_update\<close>)
  then have "c_loop n wake_step (p_wait_next (procs k ! i), ?k) = Some (woken W ?k)"
    by (rule Cons.IH) (use Cons.prems n in auto)
  then show ?case using Cons.prems(1) i n woken_Cons[OF i d] by (simp add: wake_step_def)
qed

lemma wait_queue_wake_eq:
  "waiting k q W \<Longrightarrow> length W < fuel \<Longrightarrow>
     wait_queue_wake fuel q k = Some (0, (woken W k)\<lparr>wait_first := (wait_first k)(q := None)\<rparr>)"
  using wake_loop[of k "wait_first k q" W fuel] by (simp add: waiting_def wait_queue_wake_def woken_def)

text \<open>The walk along the queue stops at the process, or at the last one.\<close>

lemma enqueue_loop:
  assumes "seg (\<lambda>i. p_wait_next (ps ! i)) (Some f) (f # W) None" "\<And>i. i \<in> set (f # W) \<Longrightarrow> i < length ps" "length W < fuel"
  shows "c_loop fuel (enqueue_step ps proc) f = Some (if proc \<in> set (f # W) then None else Some (last (f # W)))"
  using assms
proof (induction W arbitrary: f fuel)
  case Nil
  then show ?case by (cases fuel) (auto simp: enqueue_step_def)
next
  case (Cons g W)
  then obtain n where n: "fuel = Suc n" by (cases fuel) auto
  have "c_loop n (enqueue_step ps proc) g = Some (if proc \<in> set (g # W) then None else Some (last (g # W)))"
    by (rule Cons.IH) (use Cons.prems n in auto)
  moreover have "enqueue_step ps proc f = Some (if f = proc then Inr None else Inl g)"
    using Cons.prems by (simp add: enqueue_step_def)
  ultimately show ?case using n by auto
qed

text \<open>What waking, sleeping and scheduling leave alone.\<close>

definition same_core :: "kern \<Rightarrow> kern \<Rightarrow> bool" where
  "same_core k k' \<longleftrightarrow> length (procs k') = length (procs k)
     \<and> (\<forall>i < length (procs k). p_next (procs k' ! i) = p_next (procs k ! i) \<and> p_prev (procs k' ! i) = p_prev (procs k ! i)
          \<and> p_valid (procs k' ! i) = p_valid (procs k ! i) \<and> p_pid (procs k' ! i) = p_pid (procs k ! i)
          \<and> p_files (procs k' ! i) = p_files (procs k ! i) \<and> p_parent (procs k' ! i) = p_parent (procs k ! i))
     \<and> proc_first k' = proc_first k \<and> avail_pid k' = avail_pid k \<and> files k' = files k \<and> memory k' = memory k"

lemma same_core_trans: "same_core k k' \<Longrightarrow> same_core k' k'' \<Longrightarrow> same_core k k''"
  by (simp add: same_core_def)

lemma same_core_refl [simp]: "same_core k k"
  by (simp add: same_core_def)

lemma same_table_core: "same_table k k' \<Longrightarrow> same_core k k'"
  using same_table_fields same_table_globals by (simp add: same_core_def)

lemma same_core_list: "same_core k k' \<Longrightarrow> proc_list k L \<Longrightarrow> proc_list k' L"
  by (rule proc_list_fields[THEN iffD1]) (auto simp: same_core_def)

lemma same_core_sys: "same_core k k' \<Longrightarrow> sys_files k' = sys_files k"
proof -
  assume s: "same_core k k'"
  have "all_fds (procs k') = all_fds (procs k)" by (rule mset_all_fds_cong) (use s in \<open>auto simp: same_core_def\<close>)
  then show ?thesis using s by (auto simp: same_core_def sys_files_def all_set_conv_all_nth)
qed

lemma woken_core: "same_core k ((woken W k)\<lparr>wait_first := w\<rparr>)"
  by (simp add: same_core_def woken_nth) (simp add: woken_def)

lemma wait_queue_add_eq:
  assumes "waiting k q W" "proc < length (procs k)" "proc \<notin> set W \<Longrightarrow> p_wait_next (procs k ! proc) = None" "length W < fuel"
  shows "\<exists>k1. wait_queue_add fuel q proc k = do { k3 \<leftarrow> schedule fuel k1; Some (0, k3) }
    \<and> same_core k k1 \<and> current k1 = current k \<and> waiting k1 q (if proc \<in> set W then W else W @ [proc])
    \<and> p_status (procs k1 ! proc) = Sleeping
    \<and> (\<forall>i < length (procs k). i \<noteq> proc \<longrightarrow> p_status (procs k1 ! i) = p_status (procs k ! i))
    \<and> (\<forall>i < length (procs k). i \<notin> set W \<longrightarrow> p_wait_next (procs k1 ! i) = p_wait_next (procs k ! i))
    \<and> (\<forall>q'. q' \<noteq> q \<longrightarrow> wait_first k1 q' = wait_first k q')"
proof -
  have sg: "seg (\<lambda>i. p_wait_next (procs k ! i)) (wait_first k q) W None" and b: "\<And>i. i \<in> set W \<Longrightarrow> i < length (procs k)"
    using assms(1) by (auto simp: waiting_def)
  let ?z = "\<lambda>ps. ps[proc := (ps ! proc)\<lparr>p_status := Sleeping\<rparr>]"
  show ?thesis
  proof (cases W)
    case Nil
    let ?k = "k\<lparr>wait_first := (wait_first k)(q := Some proc), procs := ?z (procs k)\<rparr>"
    have "wait_queue_add fuel q proc k = do { k3 \<leftarrow> schedule fuel ?k; Some (0, k3) }"
      using sg Nil assms(2) by (simp add: wait_queue_add_def)
    moreover have "waiting ?k q [proc]" using assms(2,3) Nil by (simp add: waiting_def)
    ultimately show ?thesis using assms(2) Nil
      by (intro exI[of _ ?k]) (simp add: same_core_def nth_list_update)
  next
    case (Cons f R)
    have f: "wait_first k q = Some f" using sg Cons by simp
    have loop: "c_loop fuel (enqueue_step (procs k) proc) f = Some (if proc \<in> set W then None else Some (last W))"
      using enqueue_loop[of "procs k" f R fuel proc] sg b assms(4) Cons by simp
    show ?thesis
    proof (cases "proc \<in> set W")
      case True
      let ?k = "k\<lparr>procs := ?z (procs k)\<rparr>"
      have "wait_queue_add fuel q proc k = do { k3 \<leftarrow> schedule fuel ?k; Some (0, k3) }"
        using f loop True assms(2) by (simp add: wait_queue_add_def)
      moreover have "(\<lambda>i. p_wait_next (procs ?k ! i)) = (\<lambda>i. p_wait_next (procs k ! i))"
        using assms(2) by (auto simp: nth_list_update)
      then have "waiting ?k q W" using assms(1) by (simp add: waiting_def)
      ultimately show ?thesis using assms(2) True
        by (intro exI[of _ ?k]) (simp add: same_core_def nth_list_update)
    next
      case False
      have l: "last W \<in> set W" "last W \<noteq> proc" "last W < length (procs k)" using Cons False b by auto
      let ?ps = "(procs k)[last W := (procs k ! last W)\<lparr>p_wait_next := Some proc\<rparr>]"
      let ?k = "k\<lparr>procs := ?z ?ps\<rparr>"
      have "wait_queue_add fuel q proc k = do { k3 \<leftarrow> schedule fuel ?k; Some (0, k3) }"
        using f loop False assms(2) l by (simp add: wait_queue_add_def)
      moreover have "seg (\<lambda>i. p_wait_next (?z ?ps ! i)) (wait_first k q) (W @ [proc]) None"
      proof -
        have "seg (\<lambda>j. if W \<noteq> [] \<and> j = last W then Some proc else if j = proc then None else p_wait_next (procs k ! j))
            (wait_first k q) (W @ [proc]) None"
          using seg_snoc[OF sg False] Cons by simp
        then show ?thesis
          by (rule seg_cong[THEN iffD1, rotated]) (use l b assms(2,3) False Cons in \<open>auto simp: nth_list_update\<close>)
      qed
      then have "waiting ?k q (W @ [proc])" using b assms(2) by (auto simp: waiting_def)
      ultimately show ?thesis using assms(2) False l
        by (intro exI[of _ ?k]) (auto simp: same_core_def nth_list_update)
    qed
  qed
qed

section \<open>The processes of the system\<close>

text \<open>
  \<open>queues k Wf\<close>: the queues hold valid sleeping processes, no process is in two of them, and the link of
  a process outside is null.
\<close>

definition queues :: "kern \<Rightarrow> (wait_queue \<Rightarrow> nat list) \<Rightarrow> bool" where
  "queues k Wf \<longleftrightarrow> (\<forall>q. waiting k q (Wf q) \<and> (\<forall>i \<in> set (Wf q). p_valid (procs k ! i) \<and> p_status (procs k ! i) = Sleeping))
     \<and> (\<forall>q q'. q \<noteq> q' \<longrightarrow> set (Wf q) \<inter> set (Wf q') = {})
     \<and> (\<forall>i < length (procs k). (\<forall>q. i \<notin> set (Wf q)) \<longrightarrow> p_wait_next (procs k ! i) = None)"

definition system :: "kern \<Rightarrow> nat \<Rightarrow> nat list \<Rightarrow> (wait_queue \<Rightarrow> nat list) \<Rightarrow> bool" where
  "system k idle T Wf \<longleftrightarrow> proc_list k (idle # T) \<and> current k \<in> set (idle # T) \<and> ready k idle \<and> sys_files k \<and> queues k Wf"

definition sys_ok :: "nat \<Rightarrow> kern \<Rightarrow> bool" where
  "sys_ok fuel k \<longleftrightarrow> length (procs k) < fuel \<and> ready k (current k) \<and> (\<exists>idle T Wf. system k idle T Wf)"

lemma queuesD:
  assumes "queues k Wf"
  shows "waiting k q (Wf q)" "i \<in> set (Wf q) \<Longrightarrow> i < length (procs k) \<and> p_valid (procs k ! i) \<and> p_status (procs k ! i) = Sleeping"
    "q \<noteq> q' \<Longrightarrow> i \<in> set (Wf q) \<Longrightarrow> i \<notin> set (Wf q')"
    "i < length (procs k) \<Longrightarrow> (\<And>q. i \<notin> set (Wf q)) \<Longrightarrow> p_wait_next (procs k ! i) = None"
proof -
  show "waiting k q (Wf q)"
    "i \<in> set (Wf q) \<Longrightarrow> i < length (procs k) \<and> p_valid (procs k ! i) \<and> p_status (procs k ! i) = Sleeping"
    "i < length (procs k) \<Longrightarrow> (\<And>q. i \<notin> set (Wf q)) \<Longrightarrow> p_wait_next (procs k ! i) = None"
    using assms by (auto simp: queues_def waiting_def)
  show "q \<noteq> q' \<Longrightarrow> i \<in> set (Wf q) \<Longrightarrow> i \<notin> set (Wf q')"
    using assms unfolding queues_def by blast
qed

text \<open>A change that respects the queues.\<close>

lemma queuesI:
  assumes "queues k Wf" "length (procs k') = length (procs k)" "\<And>q. wait_first k' q = wait_first k q"
    and "\<And>q i. i \<in> set (Wf q) \<Longrightarrow> p_wait_next (procs k' ! i) = p_wait_next (procs k ! i) \<and> p_valid (procs k' ! i)
      \<and> p_status (procs k' ! i) = Sleeping"
    and "\<And>i. i < length (procs k) \<Longrightarrow> (\<And>q. i \<notin> set (Wf q)) \<Longrightarrow> p_wait_next (procs k' ! i) = None"
  shows "queues k' Wf"
proof -
  have "waiting k' q (Wf q)" for q
  proof -
    have "seg (\<lambda>i. p_wait_next (procs k ! i)) (wait_first k q) (Wf q) None" using queuesD(1)[OF assms(1)] by (simp add: waiting_def)
    then have "seg (\<lambda>i. p_wait_next (procs k' ! i)) (wait_first k' q) (Wf q) None"
      unfolding assms(3) by (rule seg_cong[THEN iffD1, rotated]) (use assms(4) in simp)
    then show ?thesis using queuesD(2)[OF assms(1)] assms(2) by (simp add: waiting_def)
  qed
  then show ?thesis using assms(1,2,4,5) by (auto simp: queues_def)
qed

lemma length_list_bound:
  assumes "proc_list k L"
  shows "length L \<le> length (procs k)"
proof -
  have "length L = card (set L)" using proc_listD(3)[OF assms] by (simp add: distinct_card)
  also have "\<dots> \<le> card {..<length (procs k)}" by (rule card_mono) (use proc_listD(2)[OF assms] in auto)
  finally show ?thesis by simp
qed

lemma waiting_bound:
  assumes "waiting k q W"
  shows "length W \<le> length (procs k)"
proof -
  have "distinct W" using assms seg_distinct by (auto simp: waiting_def)
  then have "length W = card (set W)" by (simp add: distinct_card)
  also have "\<dots> \<le> card {..<length (procs k)}" by (rule card_mono) (use assms in \<open>auto simp: waiting_def\<close>)
  finally show ?thesis by simp
qed

lemma systemD:
  assumes "system k idle T Wf"
  shows "proc_list k (idle # T)" "current k \<in> set (idle # T)" "ready k idle" "sys_files k" "queues k Wf"
    "current k < length (procs k)" "idle < length (procs k)" "length T < length (procs k)" "p_valid (procs k ! current k)"
  using assms proc_listD(2,4) length_list_bound by (fastforce simp: system_def)+

lemma system_core:
  assumes "system k idle T Wf" "same_core k k'" "current k' = current k" "ready k' idle" "queues k' Wf'"
  shows "system k' idle T Wf'"
  using assms same_core_list[OF assms(2)] same_core_sys[OF assms(2)] by (simp add: system_def)

lemma schedule_system:
  assumes "system k idle T Wf" "length (procs k) < fuel"
  shows "\<exists>k'. schedule fuel k = Some k' \<and> system k' idle T Wf \<and> sys_ok fuel k' \<and> same_table k k'"
proof -
  note d = systemD[OF assms(1)]
  obtain k' where k': "schedule fuel k = Some k'" "same_table k k'" "current k' \<in> set (idle # T)"
    "ready k (current k') \<or> current k' = idle"
    using schedule_defined[OF d(1,2), of fuel] d(8) assms(2) by auto
  note g = same_table_globals[OF k'(2)] and f = same_table_fields[OF k'(2)]
  have c: "current k' < length (procs k)" using k'(3) proc_listD(2)[OF d(1)] by blast
  have "queues k' Wf"
    by (rule queuesI[OF d(5)]) (use g f queuesD[OF d(5)] in auto)
  moreover have "ready k' idle" "ready k' (current k')"
    using same_table_ready[OF k'(2)] d(3,7) c k'(4) by auto
  ultimately have "system k' idle T Wf"
    using k'(3) same_table_list[OF k'(2) d(1)] same_table_sys[OF k'(2)] d(4) by (simp add: system_def)
  then show ?thesis using k'(1,2) \<open>ready k' (current k')\<close> g(7) assms(2) by (auto simp: sys_ok_def)
qed

lemma current_not_queued:
  assumes "queues k Wf" "ready k i"
  shows "i \<notin> set (Wf q)"
  using queuesD(2)[OF assms(1), of i q] assms(2) by (auto simp: ready_def)

lemma wake_system:
  assumes "system k idle T Wf" "length (procs k) < fuel"
  shows "\<exists>k'. wait_queue_wake fuel q k = Some (0, k') \<and> system k' idle T (Wf(q := [])) \<and> same_core k k' \<and> current k' = current k
    \<and> (\<forall>i < length (procs k). p_status (procs k' ! i) = (if i \<in> set (Wf q) then Ready else p_status (procs k ! i))
        \<and> p_exit_value (procs k' ! i) = p_exit_value (procs k ! i))"
proof -
  note d = systemD[OF assms(1)] note qd = queuesD[OF d(5)]
  let ?k = "(woken (Wf q) k)\<lparr>wait_first := (wait_first k)(q := None)\<rparr>"
  have w: "wait_queue_wake fuel q k = Some (0, ?k)"
    by (rule wait_queue_wake_eq[OF qd(1)]) (use waiting_bound[OF qd(1), of q] assms(2) in simp)
  have len: "length (procs ?k) = length (procs k)" "current ?k = current k" by (simp_all add: woken_def)
  have nth: "procs ?k ! i = (if i \<in> set (Wf q) then (procs k ! i)\<lparr>p_status := Ready, p_wait_next := None\<rparr> else procs k ! i)"
    if "i < length (procs k)" for i using woken_nth[OF that] by simp
  have qs: "waiting ?k q' ((Wf(q := [])) q')" for q'
  proof (cases "q' = q")
    case False
    have "seg (\<lambda>i. p_wait_next (procs k ! i)) (wait_first k q') (Wf q') None" using qd(1) by (simp add: waiting_def)
    then have "seg (\<lambda>i. p_wait_next (procs ?k ! i)) (wait_first k q') (Wf q') None"
      by (rule seg_cong[THEN iffD1, rotated]) (use qd(2,3) False nth in auto)
    then show ?thesis using qd(2) False len by (auto simp: waiting_def)
  qed (simp add: waiting_def)
  have "queues ?k (Wf(q := []))"
    unfolding queues_def
  proof (intro conjI allI impI ballI)
    fix q' show "waiting ?k q' ((Wf(q := [])) q')" by (rule qs)
    fix i assume i: "i \<in> set ((Wf(q := [])) q')"
    then have "q' \<noteq> q" "i \<in> set (Wf q')" by (auto split: if_splits)
    then show "p_valid (procs ?k ! i)" "p_status (procs ?k ! i) = Sleeping"
      using qd(2)[of i q'] qd(3)[of q' q i] nth[of i] by auto
  next
    fix q1 q2 :: wait_queue assume "q1 \<noteq> q2"
    then show "set ((Wf(q := [])) q1) \<inter> set ((Wf(q := [])) q2) = {}" using qd(3) by auto
  next
    fix i assume i: "i < length (procs ?k)" "\<forall>q'. i \<notin> set ((Wf(q := [])) q')"
    show "p_wait_next (procs ?k ! i) = None"
    proof (cases "i \<in> set (Wf q)")
      case False
      then have "i \<notin> set (Wf q')" for q' using i(2) by (cases "q' = q") (auto dest: spec[of _ q'])
      then show ?thesis using qd(4) nth i(1) len by simp
    qed (use nth i(1) len in simp)
  qed
  moreover have "ready ?k idle" using nth[OF d(7)] d(3) by (simp add: ready_def)
  ultimately have "system ?k idle T (Wf(q := []))" using system_core[OF assms(1) woken_core len(2)] by blast
  then show ?thesis using w woken_core len(2) nth by auto
qed

lemma sleep_system:
  assumes "system k idle T Wf" "ready k (current k)" "current k \<noteq> idle" "length (procs k) < fuel"
  shows "\<exists>k' Wf'. wait_queue_add fuel q (current k) k = Some (0, k') \<and> system k' idle T Wf' \<and> sys_ok fuel k'
    \<and> Wf' = Wf(q := Wf q @ [current k]) \<and> p_status (procs k' ! current k) = Sleeping"
proof -
  note d = systemD[OF assms(1)] note qd = queuesD[OF d(5)]
  let ?c = "current k"
  have c: "?c \<notin> set (Wf q')" for q' by (rule current_not_queued[OF d(5) assms(2)])
  obtain k1 where k1: "wait_queue_add fuel q ?c k = do { k3 \<leftarrow> schedule fuel k1; Some (0, k3) }"
    "same_core k k1" "current k1 = ?c" "waiting k1 q (Wf q @ [?c])" "p_status (procs k1 ! ?c) = Sleeping"
    "\<And>i. i < length (procs k) \<Longrightarrow> i \<noteq> ?c \<Longrightarrow> p_status (procs k1 ! i) = p_status (procs k ! i)"
    "\<And>i. i < length (procs k) \<Longrightarrow> i \<notin> set (Wf q) \<Longrightarrow> p_wait_next (procs k1 ! i) = p_wait_next (procs k ! i)"
    "\<And>q'. q' \<noteq> q \<Longrightarrow> wait_first k1 q' = wait_first k q'"
    using wait_queue_add_eq[OF qd(1)[of q] d(6), of fuel] qd(4)[OF d(6)] c waiting_bound[OF qd(1)[of q]] assms(4) by auto
  have len: "length (procs k1) = length (procs k)" "\<And>i. i < length (procs k) \<Longrightarrow> p_valid (procs k1 ! i) = p_valid (procs k ! i)"
    using k1(2) by (auto simp: same_core_def)
  let ?W = "Wf(q := Wf q @ [?c])"
  have qs: "waiting k1 q' (?W q')" for q'
  proof (cases "q' = q")
    case False
    have "seg (\<lambda>i. p_wait_next (procs k ! i)) (wait_first k q') (Wf q') None" using qd(1) by (simp add: waiting_def)
    then have "seg (\<lambda>i. p_wait_next (procs k1 ! i)) (wait_first k1 q') (Wf q') None"
      unfolding k1(8)[OF False] by (rule seg_cong[THEN iffD1, rotated]) (use qd(2,3) False k1(7) in auto)
    then show ?thesis using qd(2) False len by (auto simp: waiting_def)
  qed (use k1(4) in simp)
  have "queues k1 ?W"
    unfolding queues_def
  proof (intro conjI allI impI ballI)
    fix q' show "waiting k1 q' (?W q')" by (rule qs)
    fix i assume "i \<in> set (?W q')"
    then have "i = ?c \<or> i \<in> set (Wf q')" by (auto split: if_splits)
    then show "p_valid (procs k1 ! i)" "p_status (procs k1 ! i) = Sleeping"
      using qd(2)[of i q'] k1(5) k1(6)[of i] len(2)[of i] d(6,9) c by (cases "i = ?c"; auto)+
  next
    fix q1 q2 :: wait_queue assume "q1 \<noteq> q2"
    then show "set (?W q1) \<inter> set (?W q2) = {}" using qd(3) c by auto
  next
    fix i assume i: "i < length (procs k1)" "\<forall>q'. i \<notin> set (?W q')"
    then have "i \<notin> set (Wf q')" for q' using spec[OF i(2), of q'] by (auto split: if_splits)
    then show "p_wait_next (procs k1 ! i) = None" using qd(4) k1(7) i(1) len by simp
  qed
  moreover have "ready k1 idle" using k1(6)[OF d(7)] assms(3) d(3) by (simp add: ready_def)
  ultimately have s: "system k1 idle T ?W" using system_core[OF assms(1) k1(2,3)] by blast
  from schedule_system[OF this, of fuel] assms(4) len(1)
  obtain k' where "schedule fuel k1 = Some k'" "system k' idle T ?W" "sys_ok fuel k'" "same_table k1 k'" by auto
  then show ?thesis using k1(1,5) same_table_fields(4)[of k1 k' ?c] d(6) len(1) by auto
qed

lemma exit_system:
  assumes "system k idle T Wf" "ready k (current k)" "current k \<noteq> idle" "length (procs k) < fuel"
  shows "\<exists>k'. exit_process fuel st k = Some k' \<and> system k' idle T (Wf(Waitpid_Queue := [])) \<and> sys_ok fuel k'
    \<and> p_status (procs k' ! current k) = Exited \<and> p_exit_value (procs k' ! current k) = st \<and> same_core k k'
    \<and> (\<forall>i < length (procs k). i \<noteq> current k \<longrightarrow>
        p_status (procs k' ! i) = (if i \<in> set (Wf Waitpid_Queue) then Ready else p_status (procs k ! i)))"
proof -
  note d = systemD[OF assms(1)] note qd = queuesD[OF d(5)]
  let ?c = "current k"
  have c: "?c \<notin> set (Wf q')" for q' by (rule current_not_queued[OF d(5) assms(2)])
  let ?k1 = "k\<lparr>procs := (procs k)[?c := (procs k ! ?c)\<lparr>p_status := Exited, p_exit_value := st\<rparr>]\<rparr>"
  have u: "upd ?c (\<lambda>p. p\<lparr>p_status := Exited, p_exit_value := st\<rparr>) k = Some ?k1" using d(6) by simp
  have core: "same_core k ?k1" using d(6) by (simp add: same_core_def nth_list_update)
  have "queues ?k1 Wf"
    by (rule queuesI[OF d(5)]) (use qd d(6) c in \<open>auto simp: nth_list_update\<close>)
  then have s1: "system ?k1 idle T Wf"
    by (rule system_core[OF assms(1) core, rotated 2]) (use d(3,6) assms(3) in \<open>simp_all add: ready_def nth_list_update\<close>)
  obtain k2 where k2: "wait_queue_wake fuel Waitpid_Queue ?k1 = Some (0, k2)" "system k2 idle T (Wf(Waitpid_Queue := []))"
    "same_core ?k1 k2" "current k2 = ?c"
    "\<And>i. i < length (procs k) \<Longrightarrow> p_status (procs k2 ! i) = (if i \<in> set (Wf Waitpid_Queue) then Ready else p_status (procs ?k1 ! i))
        \<and> p_exit_value (procs k2 ! i) = p_exit_value (procs ?k1 ! i)"
    using wake_system[OF s1, of fuel Waitpid_Queue] assms(4) by auto
  have len: "length (procs k2) = length (procs k)" using k2(3) by (simp add: same_core_def)
  obtain k3 where k3: "schedule fuel k2 = Some k3" "system k3 idle T (Wf(Waitpid_Queue := []))" "sys_ok fuel k3" "same_table k2 k3"
    using schedule_system[OF k2(2), of fuel] assms(4) len by auto
  have "exit_process fuel st k = Some k3"
    using u k2(1) k3(1) by (simp add: exit_process_def waitpid_done_def)
  moreover have "same_core k k3" by (rule same_core_trans[OF core same_core_trans[OF k2(3) same_table_core[OF k3(4)]]])
  moreover have "p_status (procs k3 ! i) = p_status (procs k2 ! i)" "p_exit_value (procs k3 ! i) = p_exit_value (procs k2 ! i)"
    if "i < length (procs k)" for i using same_table_fields[OF k3(4)] that len by simp_all
  ultimately show ?thesis using k3 k2(5) d(6) c by (auto simp: nth_list_update)
qed

text \<open>The children and their files.\<close>

lemma refs_ok_append: "refs_ok (fds @ fds') cs \<Longrightarrow> refs_ok fds' cs"
  unfolding refs_ok_def by (auto intro: le_trans[rotated])

lemma increment_files_refs:
  "refs_ok fds (map file_count (file_objects fs)) \<Longrightarrow>
     yields (\<lambda>fs'. refs_ok (js @ fds) (map file_count (file_objects fs'))) (increment_files js fs)"
proof (induction js arbitrary: fs fds)
  case (Cons x js)
  show ?case
  proof (cases x)
    case None
    have "refs_ok (None # js @ fds) cs = refs_ok (js @ fds) cs" for cs using refs_ok_None(1)[of 1 "js @ fds"] by simp
    then show ?thesis using Cons None by simp
  next
    case (Some j)
    have e: "refs_ok (js @ Some j # fds) cs = refs_ok (Some j # js @ fds) cs" for cs by (rule refs_ok_mset) simp
    show ?thesis
    proof (simp add: Some, rule yields_bind[OF files_increment_count_eq], clarify)
      fix fs1 :: kfiles
      assume j: "j < length (file_objects fs)"
        and c: "map file_count (file_objects fs1) = (map file_count (file_objects fs))[j := file_count (file_objects fs ! j) + 1]"
      have "refs_ok (Some j # fds) (map file_count (file_objects fs1))"
        unfolding c using Cons.prems j by (auto simp: refs_ok_def nth_list_update)
      from Cons.IH[OF this] show "yields (\<lambda>fs'. refs_ok (Some j # js @ fds) (map file_count (file_objects fs'))) (increment_files js fs1)"
        by (simp add: e)
    qed
  qed
qed simp

lemma vfork_system:
  assumes "system k idle T Wf" "ready k (current k)" "current k \<noteq> idle" "length (procs k) < fuel"
  shows "yields (\<lambda>(r, k'). sys_ok fuel k' \<and>
     (case index_of (\<lambda>p. \<not> p_valid p) (procs k) of None \<Rightarrow> r = - 1 \<and> k' = k
      | Some c \<Rightarrow> r = avail_pid k \<and> system k' idle (T @ [c]) Wf \<and> p_pid (procs k' ! c) = r \<and> p_parent (procs k' ! c) = Some (current k)
          \<and> p_files (procs k' ! c) = p_files (procs k ! current k) \<and> p_status (procs k' ! c) = Ready
          \<and> p_status (procs k' ! current k) = Sleeping)) (vfork fuel k)"
proof -
  note d = systemD[OF assms(1)] note qd = queuesD[OF d(5)]
  let ?s = "current k"
  show ?thesis
  proof (cases "index_of (\<lambda>p. \<not> p_valid p) (procs k)")
    case None
    then show ?thesis using assms by (auto simp: vfork_def process_create_def sys_ok_def)
  next
    case (Some c)
    have ci: "c < length (procs k)" "\<not> p_valid (procs k ! c)" using Some by (simp_all add: index_of_Some_iff)
    show ?thesis
    proof (cases "avail_pid k < 2 ^ 31 - 1")
      case False
      then show ?thesis using Some by (simp add: vfork_def process_create_def)
    next
      case True
      have lT: "length (idle # T) < fuel" using length_list_bound[OF d(1)] assms(4) by simp
      obtain k1 where k1: "process_create fuel k = Some (Some c, k1)" "proc_list k1 ((idle # T) @ [c])"
        "same_pcb (fresh_pcb k) (procs k1 ! c)" "same_procs {c} k k1"
        "k1 = k\<lparr>avail_pid := avail_pid k + 1, procs := procs k1, proc_first := proc_first k1\<rparr>"
        using process_create_refines_eq[OF d(1) Some lT True] by blast
      have sys1: "sys_files k1" by (rule process_create_sys[OF d(1) Some lT True d(4) k1(1)])
      note new = same_pcb_fields[OF k1(3)]
      have g1: "current k1 = ?s" "wait_first k1 = wait_first k" "files k1 = files k" by (subst k1(5), simp)+
      have len: "length (procs k1) = length (procs k)" using k1(4) by (simp add: same_procs_def)
      have ne: "?s \<noteq> c" "idle \<noteq> c" "\<And>q i. i \<in> set (Wf q) \<Longrightarrow> i \<noteq> c" using ci d(3,9) proc_listD(4)[OF d(1) ci(1)] qd(2) by auto
      have old: "same_pcb (procs k ! i) (procs k1 ! i)" if "i < length (procs k)" "i \<noteq> c" for i
        using same_procsD(1)[OF k1(4)] that by simp
      let ?q = "procs k1 ! c" and ?p = "procs k1 ! ?s"
      let ?C = "?p\<lparr>p_pid := p_pid ?q, p_prev := p_prev ?q, p_next := p_next ?q, p_parent := Some ?s, p_stack := 0, p_text := 0\<rparr>"
      note sp = same_pcb_fields[OF old[OF d(6) ne(1)]]
      have o: "refs_ok (other_fds c (procs k1)) (map file_count (file_objects (files k1)))"
        using sys1 refs_ok_mset[OF all_fds_split[of c "procs k1"]] ci(1) len
        by (auto simp: sys_files_def intro: refs_ok_append split: if_splits)
      let ?k2 = "\<lambda>fs. k1\<lparr>files := fs, procs := (procs k1)[c := ?C]\<rparr>"
      let ?ps = "(procs k1)[c := ?C\<lparr>p_status := Ready\<rparr>, ?s := ?p\<lparr>p_status := Sleeping\<rparr>]"
      let ?k4 = "\<lambda>fs. k1\<lparr>files := fs, procs := ?ps\<rparr>"
      have e: "vfork fuel k = do {
          fs \<leftarrow> increment_files (p_files ?p) (files k1);
          k5 \<leftarrow> schedule fuel (?k4 fs);
          Some (avail_pid k, k5) }"
        using k1(1) ci(1) d(6) len ne(1) new(2)
        by (simp add: vfork_def fresh_pcb_def list_update_swap Let_def)
      show ?thesis unfolding e
      proof (rule yields_bind[OF increment_files_refs[OF o, of "p_files ?p"]])
        fix fs :: kfiles assume r: "refs_ok (p_files ?p @ other_fds c (procs k1)) (map file_count (file_objects fs))"
        have "sys_files (?k2 fs)"
        proof (rule sys_files_same_procs[of c k1])
          show "same_procs {c} k1 (?k2 fs)" by (simp add: same_procs_def nth_list_update same_pcb_def)
        qed (use sys1 ci(1) len r d(4,6,9) sp in \<open>auto simp: sys_files_def\<close>)
        moreover have core: "same_core (?k2 fs) (?k4 fs)"
          using ne(1) len ci(1) d(6) by (auto simp: same_core_def nth_list_update)
        ultimately have sys4: "sys_files (?k4 fs)" using same_core_sys by blast
        have pl: "proc_list (?k4 fs) (idle # (T @ [c]))"
          by (rule proc_list_fields[THEN iffD1, of _ k1])
            (use k1(2) ne(1) len ci(1) d(6,9) sp new in \<open>auto simp: nth_list_update fresh_pcb_def\<close>)
        have nth4: "p_wait_next (?ps ! i) = p_wait_next (procs k ! i)" "p_valid (?ps ! i) = p_valid (procs k ! i)"
          "i \<noteq> ?s \<Longrightarrow> p_status (?ps ! i) = p_status (procs k ! i)"
          if "i < length (procs k)" "i \<noteq> c" for i
          using same_pcb_fields[OF old[OF that]] that len ci(1) d(6) by (auto simp: nth_list_update)
        have ws: "p_wait_next (procs k ! ?s) = None" using qd(4)[OF d(6)] current_not_queued[OF d(5) assms(2)] by blast
        have wc: "p_wait_next (?ps ! c) = None" using ne(1) ci(1) d(6) len sp(7) ws by (simp add: nth_list_update)
        have "queues (?k4 fs) Wf"
        proof (rule queuesI[OF d(5)])
          fix q i assume i: "i \<in> set (Wf q)"
          have "i \<noteq> ?s" using current_not_queued[OF d(5) assms(2)] i by blast
          then show "p_wait_next (procs (?k4 fs) ! i) = p_wait_next (procs k ! i) \<and> p_valid (procs (?k4 fs) ! i)
            \<and> p_status (procs (?k4 fs) ! i) = Sleeping" using nth4[of i] qd(2)[OF i] ne(3)[OF i] by simp
        next
          fix i assume i: "i < length (procs k)" "\<And>q. i \<notin> set (Wf q)"
          then show "p_wait_next (procs (?k4 fs) ! i) = None" using nth4[of i] qd(4)[OF i] wc by (cases "i = c") auto
        qed (use len g1 in auto)
        moreover have "ready (?k4 fs) idle" using nth4(3)[OF d(7) ne(2)] assms(3) d(3) by (simp add: ready_def)
        ultimately have s4: "system (?k4 fs) idle (T @ [c]) Wf"
          using pl sys4 d(2) g1(1) unfolding system_def by auto
        obtain k5 where k5: "schedule fuel (?k4 fs) = Some k5" "system k5 idle (T @ [c]) Wf" "sys_ok fuel k5" "same_table (?k4 fs) k5"
          using schedule_system[OF s4, of fuel] assms(4) len by auto
        have f5: "p_pid (procs k5 ! i) = p_pid (?ps ! i)" "p_parent (procs k5 ! i) = p_parent (?ps ! i)"
          "p_files (procs k5 ! i) = p_files (?ps ! i)" "p_status (procs k5 ! i) = p_status (?ps ! i)" if "i < length (procs k)" for i
          using same_table_fields[OF k5(4), of i] that len by simp_all
        show "yields (\<lambda>(r, k'). sys_ok fuel k' \<and>
           (case index_of (\<lambda>p. \<not> p_valid p) (procs k) of None \<Rightarrow> r = - 1 \<and> k' = k
            | Some c \<Rightarrow> r = avail_pid k \<and> system k' idle (T @ [c]) Wf \<and> p_pid (procs k' ! c) = r \<and> p_parent (procs k' ! c) = Some ?s
              \<and> p_files (procs k' ! c) = p_files (procs k ! ?s) \<and> p_status (procs k' ! c) = Ready
              \<and> p_status (procs k' ! ?s) = Sleeping)) (do { k5 \<leftarrow> schedule fuel (?k4 fs); Some (avail_pid k, k5) })"
          using k5(1-3) f5[OF ci(1)] f5[OF d(6)] Some ne(1) ci(1) len d(6) new sp by (simp add: nth_list_update fresh_pcb_def)
      qed
    qed
  qed
qed

end
