(* ===== verification/Process_System.thy ===== *)
theory Process_System
  imports Scheduler
begin

text \<open>
  The operations of the processes composed: the calls of the process family, a wake-up by a device and the timer keep \<open>sys_ok\<close>.  The steps
  of the whole machine are put together in \<open>System_Calls\<close>.
\<close>

section \<open>Reaping\<close>

lemma reap_system:
  assumes "system k idle T Wf" "ready k (current k)" "i \<in> set (idle # T)" "p_status (procs k ! i) = Exited"
    "length (procs k) < fuel"
  shows "yields (\<lambda>(r, k'). r = 0 \<and> system k' idle (remove1 i T) Wf \<and> sys_ok fuel k' \<and> \<not> p_valid (procs k' ! i))
    (process_destroy fuel i k)"
proof -
  note d = systemD[OF assms(1)] note qd = queuesD[OF d(5)]
  have ne: "i \<noteq> idle" "i \<noteq> current k" using assms(2,4) d(3) by (auto simp: ready_def)
  have i: "i < length (procs k)" using proc_listD(2)[OF d(1) assms(3)] .
  have lT: "length (idle # T) < fuel" using length_list_bound[OF d(1)] assms(5) by simp
  show ?thesis
  proof (rule yields_mono[OF process_destroy_sys[OF d(1) assms(3) lT d(4)]], clarify)
    fix k' assume k': "sys_files k'" "proc_list k' (remove1 i (idle # T))" "same_procs {i} k k'"
      "same_pcb ((procs k ! i)\<lparr>p_valid := False\<rparr>) (procs k' ! i)" "current k' = current k" "wait_first k' = wait_first k"
    have len: "length (procs k') = length (procs k)" using same_procsD(2)[OF k'(3)] .
    note fi = same_pcb_fields[OF k'(4)]
    have f: "p_status (procs k' ! j) = p_status (procs k ! j) \<and> p_wait_next (procs k' ! j) = p_wait_next (procs k ! j)"
      "j \<noteq> i \<Longrightarrow> p_valid (procs k' ! j) = p_valid (procs k ! j)" if "j < length (procs k)" for j
      using fi same_pcb_fields[OF same_procsD(1)[OF k'(3) that]] by (cases "j = i"; simp)+
    have "queues k' Wf"
    proof (rule queuesI[OF d(5) len])
      fix q j assume j: "j \<in> set (Wf q)"
      then have "j \<noteq> i" using qd(2)[of j q] assms(4) by auto
      then show "p_wait_next (procs k' ! j) = p_wait_next (procs k ! j) \<and> p_valid (procs k' ! j) \<and> p_status (procs k' ! j) = Sleeping"
        using f[of j] qd(2)[OF j] by simp
    qed (use k'(6) f qd(4) in auto)
    moreover have "ready k' idle" "ready k' (current k')" using f(1)[OF d(7)] f(1)[OF d(6)] d(3) assms(2) k'(5) by (simp_all add: ready_def)
    moreover have "current k' \<in> set (idle # remove1 i T)" using d(2) ne k'(5) by (auto simp: in_set_remove1)
    ultimately have s: "system k' idle (remove1 i T) Wf" using k'(1,2) ne(1) by (simp add: system_def)
    then show "(0::int) = 0 \<and> system k' idle (remove1 i T) Wf \<and> sys_ok fuel k' \<and> \<not> p_valid (procs k' ! i)"
      using fi(1) \<open>ready k' (current k')\<close> len assms(5) by (auto simp: sys_ok_def)
  qed
qed

text \<open>What a wait for a process of the system returns.\<close>

definition reaped :: "nat \<Rightarrow> nat \<Rightarrow> int \<Rightarrow> kern \<Rightarrow> wait_result \<times> kern \<Rightarrow> bool" where
  "reaped fuel proc pid k = (\<lambda>(w, k'). sys_ok fuel k' \<and>
     w = Returned pid (Some (p_exit_value (procs k ! proc))) \<and> \<not> p_valid (procs k' ! proc))"

lemma reap_yields:
  assumes "system k idle T Wf" "ready k (current k)" "proc \<in> set (idle # T)" "length (procs k) < fuel"
    "p_status (procs k ! proc) = Exited"
  shows "yields (reaped fuel proc pid k) (do {
    (_, k1) \<leftarrow> process_destroy fuel proc k; Some (Returned pid (Some (p_exit_value (procs k ! proc))), k1) })"
  by (rule yields_bind[OF reap_system[OF assms(1-3,5,4)]]) (auto simp: reaped_def)

lemma waitpid_wait_system:
  assumes "system k idle T Wf" "ready k (current k)" "current k \<noteq> idle" "proc \<in> set (idle # T)" "length (procs k) < fuel"
  shows "yields (\<lambda>(w, k'). sys_ok fuel k' \<and>
     (if p_status (procs k ! proc) = Exited then reaped fuel proc pid k (w, k')
      else w = Blocked proc \<and> system k' idle T (Wf(Waitpid_Queue := Wf Waitpid_Queue @ [current k]))
        \<and> p_status (procs k' ! current k) = Sleeping))
    (waitpid_wait fuel pid proc k)"
proof (cases "p_status (procs k ! proc) = Exited")
  case True
  have p: "proc < length (procs k)" using proc_listD(2) systemD(1)[OF assms(1)] assms(4) by blast
  show ?thesis using yields_mono[OF reap_yields[OF assms(1,2,4,5) True, of pid]] True p
    by (simp add: waitpid_wait_def) (auto simp: reaped_def)
next
  case False
  have p: "proc < length (procs k)" using proc_listD(2) systemD(1)[OF assms(1)] assms(4) by blast
  from sleep_system[OF assms(1-3,5), of Waitpid_Queue] False p show ?thesis
    by (auto simp: waitpid_wait_def)
qed

lemma waitpid_poll_system:
  assumes "system k idle T Wf" "ready k (current k)" "proc \<in> set (idle # T)" "length (procs k) < fuel"
  shows "yields (\<lambda>(w, k'). sys_ok fuel k' \<and>
     (if p_status (procs k ! proc) = Exited then reaped fuel proc (p_pid (procs k ! proc)) k (w, k')
      else w = Returned 0 None \<and> k' = k))
    (waitpid_poll fuel proc k)"
proof -
  have p: "proc < length (procs k)" using proc_listD(2) systemD(1)[OF assms(1)] assms(3) by blast
  show ?thesis
  proof (cases "p_status (procs k ! proc) = Exited")
    case True
    show ?thesis using yields_mono[OF reap_yields[OF assms True]] True p
      by (simp add: waitpid_poll_def) (auto simp: reaped_def)
  next
    case False
    then show ?thesis using assms p by (auto simp: waitpid_poll_def sys_ok_def)
  qed
qed

lemma find_in: "find P xs = Some x \<Longrightarrow> x \<in> set xs"
  by (induction xs) (auto split: if_splits)

lemma find_holds: "find P xs = Some x \<Longrightarrow> P x"
  by (induction xs) (auto split: if_splits)

lemma waitpid_system:
  assumes "system k idle T Wf" "ready k (current k)" "current k \<noteq> idle" "length (procs k) < fuel"
  shows "yields (\<lambda>(w, k'). sys_ok fuel k') (waitpid fuel pid options (current k) k)"
proof -
  note d = systemD[OF assms(1)]
  have l: "length (idle # T) < fuel" using length_list_bound[OF d(1)] assms(4) by simp
  have ok: "sys_ok fuel k" using assms by (auto simp: sys_ok_def)
  have found: "yields (\<lambda>(w, k'). sys_ok fuel k')
      (if options = WNOHANG then waitpid_poll fuel proc k else waitpid_wait fuel pid proc k)" if "proc \<in> set (idle # T)" for proc
    using waitpid_poll_system[OF assms(1,2) that assms(4)] waitpid_wait_system[OF assms(1-3) that assms(4), of pid]
    by (auto simp: yields_def)
  obtain c where c: "process_lookup fuel pid k = Some c" "\<And>i. c = Some i \<Longrightarrow> i \<in> set (idle # T)"
    by (rule that[OF process_lookup_eq[OF d(1) l]]) (rule find_in)
  obtain h where h: "process_lookup_child fuel (current k) k = Some h" "\<And>i. h = Some i \<Longrightarrow> i \<in> set (idle # T)"
    by (rule that[OF process_lookup_child_eq[OF d(1) l]]) (rule find_in)
  show ?thesis
    unfolding waitpid_def
  proof (rule yields_bind[where Q = "\<lambda>r. \<forall>proc. r = Inr proc \<longrightarrow> proc \<in> set (idle # T)"])
    show "yields (\<lambda>r. \<forall>proc. r = Inr proc \<longrightarrow> proc \<in> set (idle # T))
      (if pid = - 1 then do { c \<leftarrow> process_lookup_child fuel (current k) k;
          Some (case c of None \<Rightarrow> Inl (- ECHILD) | Some proc \<Rightarrow> Inr proc) }
       else if pid < 0 then Some (Inl (- ENODEV))
       else do { c \<leftarrow> process_lookup fuel pid k; proc \<leftarrow> c; Some (Inr proc) })"
      using c h by (cases c; cases h; simp)
  next
    fix r :: "int + nat" assume "\<forall>proc. r = Inr proc \<longrightarrow> proc \<in> set (idle # T)"
    then show "yields (\<lambda>(w, k'). sys_ok fuel k') (case r of Inl e \<Rightarrow> Some (Returned e None, k)
       | Inr proc \<Rightarrow> if options = WNOHANG then waitpid_poll fuel proc k else waitpid_wait fuel pid proc k)"
      using found ok by (cases r) auto
  qed
qed

section \<open>File calls\<close>

lemma files_system:
  assumes "system k idle T Wf" "ready k (current k)" "fds_with (other_fds (current k) (procs k)) fs'" "length (procs k) < fuel"
  shows "yields (sys_ok fuel) (store_files fs' k)"
proof -
  note d = systemD[OF assms(1)]
  from store_files_sys[OF d(4,6,9) assms(3)]
  have s: "yields sys_files (store_files fs' k)" .
  let ?i = "current k"
  let ?k = "k\<lparr>files := fs', procs := (procs k)[?i := (procs k ! ?i)\<lparr>p_files := k_fds fs', p_cwd := k_cwd fs'\<rparr>]\<rparr>"
  have e: "store_files fs' k = Some ?k" using d(6) by (simp add: store_files_def)
  have sf: "sys_files ?k" using s unfolding e by simp
  have pl: "proc_list ?k (idle # T)"
    by (rule proc_list_fields[THEN iffD1, OF _ _ _ _ d(1)]) (use d(6) in \<open>auto simp: nth_list_update\<close>)
  have nth: "p_status (procs ?k ! j) = p_status (procs k ! j) \<and> p_wait_next (procs ?k ! j) = p_wait_next (procs k ! j)
    \<and> p_valid (procs ?k ! j) = p_valid (procs k ! j)" if "j < length (procs k)" for j
    using that d(6) by (simp add: nth_list_update)
  have "queues ?k Wf"
    by (rule queuesI[OF d(5)]) (use nth queuesD[OF d(5)] in auto)
  moreover have "ready ?k idle" "ready ?k ?i" using nth[OF d(6)] nth[OF d(7)] d(3) assms(2) by (simp_all add: ready_def)
  ultimately have "system ?k idle T Wf" using pl sf d(2) by (simp add: system_def)
  then show ?thesis unfolding e using \<open>ready ?k ?i\<close> assms(4) by (auto simp: sys_ok_def)
qed

lemma sys_files_valid:
  assumes "sys_files k" "p \<in> set (procs k)" "p_valid p" "Some j \<in> set (p_files p)"
  shows "j < length (file_objects (files k)) \<and> file_count (file_objects (files k) ! j) \<noteq> 0"
proof -
  have m: "Some j \<in> set (all_fds (procs k))" using assms(2-4) by (auto simp: all_fds_def)
  then have "count_list (all_fds (procs k)) (Some j) \<noteq> 0" by (simp add: count_list_0_iff)
  then show ?thesis using m assms(1) by (force simp: sys_files_def refs_ok_def)
qed

section \<open>Keeping the order\<close>

lemma sys_okD:
  assumes "sys_ok fuel k"
  obtains idle T Wf where "system k idle T Wf" "ready k (current k)" "length (procs k) < fuel" "proc_first k = Some idle"
proof -
  from assms obtain idle T Wf where s: "system k idle T Wf" "ready k (current k)" "length (procs k) < fuel"
    unfolding sys_ok_def by blast
  then have "proc_first k = Some idle" using proc_listD(1)[OF systemD(1)[OF s(1)]] by simp
  then show thesis using s that by blast
qed

lemma sys_ok_tick:
  assumes "sys_ok fuel k" shows "sys_ok fuel (k\<lparr>tick_counter := t\<rparr>)"
proof -
  obtain idle T Wf where s: "system k idle T Wf" "ready k (current k)" "length (procs k) < fuel" "proc_first k = Some idle"
    by (rule sys_okD[OF assms])
  note d = systemD[OF s(1)]
  let ?k = "k\<lparr>tick_counter := t\<rparr>"
  have "queues ?k Wf" by (rule queuesI[OF d(5)]) (use queuesD[OF d(5)] in auto)
  then have "system ?k idle T Wf"
    by (intro system_core[OF s(1)]) (use d(3) in \<open>simp_all add: same_core_def ready_def\<close>)
  then show ?thesis using s by (auto simp: sys_ok_def ready_def)
qed

lemma wake_ok:
  assumes "sys_ok fuel k" "wait_queue_wake fuel q k = Some (r, k')"
  shows "sys_ok fuel k'"
proof -
  obtain idle T Wf where s: "system k idle T Wf" "ready k (current k)" "length (procs k) < fuel" by (rule sys_okD[OF assms(1)])
  obtain k1 where k1: "wait_queue_wake fuel q k = Some (0, k1)" "system k1 idle T (Wf(q := []))" "same_core k k1"
    "current k1 = current k"
    "\<And>i. i < length (procs k) \<Longrightarrow> p_status (procs k1 ! i) = (if i \<in> set (Wf q) then Ready else p_status (procs k ! i))"
    using wake_system[OF s(1,3), of q] by auto
  have "ready k1 (current k1)" "length (procs k1) < fuel"
    using s(2,3) k1(3,4) k1(5)[OF systemD(6)[OF s(1)]] by (simp_all add: ready_def same_core_def)
  then show ?thesis using k1(1,2) assms(2) by (auto simp: sys_ok_def)
qed

lemma schedule_ok:
  assumes "sys_ok fuel k" "schedule fuel k = Some k'"
  shows "sys_ok fuel k'"
proof -
  obtain idle T Wf where s: "system k idle T Wf" "length (procs k) < fuel" by (rule sys_okD[OF assms(1)])
  then show ?thesis using schedule_system[OF s] assms(2) by auto
qed

lemma exit_ok:
  assumes "sys_ok fuel k" "proc_first k \<noteq> Some (current k)" "exit_process fuel st k = Some k'"
  shows "sys_ok fuel k'"
proof -
  obtain idle T Wf where s: "system k idle T Wf" "ready k (current k)" "length (procs k) < fuel" "proc_first k = Some idle"
    by (rule sys_okD[OF assms(1)])
  then show ?thesis using exit_system[OF s(1,2) _ s(3), of st] assms(2,3) by auto
qed

text \<open>Going on waiting for a process that is still there, or that has not exited.\<close>

lemma wait_ok:
  assumes "sys_ok fuel k" "proc_first k \<noteq> Some (current k)" "waitpid_wait fuel pid proc k = Some (w, k')"
    and "p_valid (procs k ! proc) \<or> p_status (procs k ! proc) \<noteq> Exited"
  shows "sys_ok fuel k'"
proof -
  obtain idle T Wf where s: "system k idle T Wf" "ready k (current k)" "length (procs k) < fuel" "proc_first k = Some idle"
    by (rule sys_okD[OF assms(1)])
  have p: "proc < length (procs k)" using assms(3) by (auto simp: waitpid_wait_def rd_Some_iff split: bind_splits)
  show ?thesis
  proof (cases "p_valid (procs k ! proc)")
    case True
    then have "proc \<in> set (idle # T)" using proc_listD(4)[OF systemD(1)[OF s(1)] p] by blast
    then show ?thesis using waitpid_wait_system[OF s(1,2) _ _ s(3), of proc pid] s(4) assms(2,3) by (auto dest: yieldsD)
  next
    case False
    then show ?thesis using sleep_system[OF s(1,2) _ s(3), of Waitpid_Queue] s(4) assms(2-4) p by (auto simp: waitpid_wait_def)
  qed
qed

section \<open>An instance\<close>

text \<open>The idle task, a process with one open file, and two free entries.\<close>

definition demo_pcb :: "int \<Rightarrow> status \<Rightarrow> pcb" where
  "demo_pcb pid st = pcb_zero\<lparr>p_valid := True, p_status := st, p_pid := pid\<rparr>"

definition demo_kern :: kern where
  "demo_kern = \<lparr>procs = [(demo_pcb 0 Ready)\<lparr>p_next := Some 1\<rparr>,
       (demo_pcb 1 Ready)\<lparr>p_prev := Some 0, p_files := Some 0 # replicate 7 None\<rparr>, pcb_zero, pcb_zero],
     proc_first = Some 0, avail_pid = 2, current = 1, tick_counter = 5, wait_first = \<lambda>_. None,
     files = demo_files 2 1, memory = \<lparr>memory_mutex = False, memory_total = 0, memory_map = [], max_chunk = 0, ram = \<lambda>_. 0\<rparr>\<rparr>"

lemma demo_list_with:
  assumes "\<not> p_valid p"
  shows "proc_list (demo_kern\<lparr>procs := (procs demo_kern)[3 := p]\<rparr>) [0, 1]" (is "proc_list ?k _")
proof -
  have v: "map p_valid (procs ?k) = [True, True, False, False]" "length (procs ?k) = 4"
    using assms by (simp_all add: demo_kern_def demo_pcb_def pcb_zero_def)
  have "p_valid (procs ?k ! i) \<longleftrightarrow> i = 0 \<or> i = 1" if "i < 4" for i
  proof -
    have "p_valid (procs ?k ! i) = map p_valid (procs ?k) ! i" using that v(2) by simp
    also have "\<dots> \<longleftrightarrow> i = 0 \<or> i = 1" unfolding v(1) using that by (auto simp: nth_Cons split: nat.splits)
    finally show ?thesis .
  qed
  then have "{i. i < 4 \<and> p_valid (procs ?k ! i)} = {i. i < 4 \<and> (i = 0 \<or> i = 1)}" by (intro Collect_cong conj_cong refl)
  moreover have "{i. i < 4 \<and> (i = 0 \<or> i = 1)} = set [0, 1 :: nat]" by auto
  ultimately have "set [0, 1] = {i. i < length (procs ?k) \<and> p_valid (procs ?k ! i)}" unfolding v(2) by (simp only:)
  moreover have "seg (\<lambda>i. p_next (procs ?k ! i)) (proc_first ?k) [0, 1] None" "prevs (procs ?k) [0, 1]"
    "distinct (map (\<lambda>i. p_pid (procs ?k ! i)) [0, 1])" "\<forall>i \<in> set [0, 1]. p_pid (procs ?k ! i) < avail_pid ?k"
    by (simp_all add: demo_kern_def demo_pcb_def pcb_zero_def)
  ultimately show ?thesis unfolding proc_list_def by blast
qed

lemma demo_list: "proc_list demo_kern [0, 1]"
proof -
  have "demo_kern\<lparr>procs := (procs demo_kern)[3 := pcb_zero]\<rparr> = demo_kern" by (simp add: demo_kern_def)
  then show ?thesis using demo_list_with[of pcb_zero] by (simp add: pcb_zero_def)
qed

lemma demo_system: "system demo_kern 0 [1] (\<lambda>_. [])"
  unfolding system_def
proof (intro conjI demo_list)
  show "sys_files demo_kern"
    by (simp add: sys_files_def demo_kern_def demo_pcb_def pcb_zero_def all_fds_def demo_files_def refs_ok_def file_zero_def)
  show "queues demo_kern (\<lambda>_. [])"
    by (auto simp: queues_def waiting_def demo_kern_def demo_pcb_def pcb_zero_def less_Suc_eq numeral_eq_Suc)
qed (simp_all add: ready_def demo_kern_def demo_pcb_def)

lemma demo_ok: "sys_ok 5 demo_kern"
  using demo_system by (auto simp: sys_ok_def ready_def demo_kern_def demo_pcb_def)

lemma demo_current: "current demo_kern = 1" "length (procs demo_kern) = 4" "proc_first demo_kern = Some 0"
  "avail_pid demo_kern = 2" "index_of (\<lambda>p. \<not> p_valid p) (procs demo_kern) = Some 2" "ready demo_kern 1" "ready demo_kern (Suc 0)"
  by (simp_all add: demo_kern_def demo_pcb_def pcb_zero_def ready_def)

section \<open>The properties\<close>

text \<open>
  C17: While the table has a free entry and process numbers remain, creating a process appends a sleeping
  process without files to the process list; the new number finds it, and every other number finds
  what it found before.
\<close>

theorem process_create_refines:
  assumes "proc_list k L" and "index_of (\<lambda>p. \<not> p_valid p) (procs k) = Some i" and "Suc (length L) < fuel"
    and "avail_pid k < 2 ^ 31 - 1"
  shows "\<exists>k'. process_create fuel k = Some (Some i, k') \<and> proc_list k' (L @ [i])
    \<and> p_status (procs k' ! i) = Sleeping \<and> p_files (procs k' ! i) = replicate MAX_FD_PER_PROC None
    \<and> process_lookup fuel (avail_pid k) k' = Some (Some i)
    \<and> (\<forall>pid. pid \<noteq> avail_pid k \<longrightarrow> process_lookup fuel pid k' = process_lookup fuel pid k)"
proof -
  have n: "length L < fuel" using assms(3) by simp
  obtain k' where k': "process_create fuel k = Some (Some i, k')" "proc_list k' (L @ [i])" "same_pcb (fresh_pcb k) (procs k' ! i)"
    "same_procs {i} k k'" using process_create_refines_eq[OF assms(1,2) n assms(4)] by blast
  note f = same_pcb_fields[OF k'(3)]
  have i: "i < length (procs k)" "\<not> p_valid (procs k ! i)" using assms(2) by (simp_all add: index_of_Some_iff)
  have old: "p_pid (procs k' ! j) = p_pid (procs k ! j)" "p_pid (procs k ! j) \<noteq> avail_pid k" if "j \<in> set L" for j
  proof -
    have "j < length (procs k)" "j \<noteq> i" using proc_listD(2,4)[OF assms(1)] i that by auto
    then show "p_pid (procs k' ! j) = p_pid (procs k ! j)" using same_pcb_fields(2)[OF same_procsD(1)[OF k'(4)]] by simp
    have "p_pid (procs k ! j) < avail_pid k" using assms(1) that by (simp add: proc_list_def)
    then show "p_pid (procs k ! j) \<noteq> avail_pid k" by simp
  qed
  have fnd: "find (\<lambda>j. p_pid (procs k' ! j) = pid) (L @ [i]) = (if pid = avail_pid k then Some i else find (\<lambda>j. p_pid (procs k ! j) = pid) L)" for pid
    using old f(2) by (induction L) (auto simp: fresh_pcb_def)
  have "process_lookup fuel pid k' = Some (if pid = avail_pid k then Some i else find (\<lambda>j. p_pid (procs k ! j) = pid) L)" for pid
    using process_lookup_eq[OF k'(2), of fuel pid] fnd assms(3) by simp
  then show ?thesis using k'(1,2) f process_lookup_eq[OF assms(1) n] by (auto simp: fresh_pcb_def pcb_zero_def)
qed

lemma process_create_refines_witness: "\<exists>k'. process_create 5 demo_kern = Some (Some 2, k') \<and> proc_list k' [0, 1, 2]"
  using process_create_refines[OF demo_list, of 2 5] by (auto simp: demo_current)

text \<open>
  The scheduler is a round robin: it runs the first ready process after the current one in the list,
  wrapping round past the idle task, the current one itself last, and the idle task when none is ready; nothing but the clock
  readings of the two processes changes.
\<close>

theorem schedule_round_robin:
  assumes "proc_list k (idle # A @ current k # B)" and "length (A @ B) < fuel"
  shows "\<exists>k'. schedule fuel k = Some k' \<and> same_table k k'
    \<and> current k' = (case find (ready k) (B @ A @ [current k]) of None \<Rightarrow> idle | Some i \<Rightarrow> i)
    \<and> p_last_scheduled (procs k' ! current k') = tick_counter k"
proof -
  let ?i = "first_ready k idle (B @ A @ [current k])"
  note l = proc_listD[OF assms(1)]
  have "?i \<in> set (idle # A @ current k # B)"
    using find_in[of "ready k" "B @ A @ [current k]"] by (auto simp: first_ready_def split: option.splits)
  then have i: "?i < length (procs k)" by (rule l(2))
  have c: "current k < length (procs k)" using l(2) by simp
  have "p_last_scheduled (procs (switch_to ?i k) ! ?i) = tick_counter k"
    using i by (simp add: switch_to_def Let_def)
  then show ?thesis
    using schedule_eq[OF assms(1) _ assms(2)] switch_same[OF c i] by (auto simp: first_ready_def)
qed

lemma schedule_round_robin_witness: "\<exists>k'. schedule 5 demo_kern = Some k' \<and> current k' = 1"
  using schedule_round_robin[of demo_kern 0 "[]" "[]" 5] demo_list by (auto simp: demo_current)

text \<open>
  C14: The scheduler starves no one: a ready process runs after at most as many switches as there are
  processes in the list, while statuses stay as they are.
\<close>

theorem schedule_fair:
  assumes "proc_list k (idle # T)" and "current k \<in> set T" and "p \<in> set T" and "ready k p" and "length T < fuel"
  shows "\<exists>n k'. 1 \<le> n \<and> n \<le> length T \<and> schedules fuel n k = Some k' \<and> current k' = p"
proof -
  obtain A B where T: "T = A @ current k # B" using assms(2) by (meson split_list)
  have "p \<in> set (B @ A @ [current k])" using assms(3) T by auto
  then obtain X Y where X: "B @ A @ [current k] = X @ p # Y" by (meson split_list)
  have "Suc (length X) \<le> length T" using arg_cong[OF X, of length] T by simp
  moreover obtain n k' where "1 \<le> n" "n \<le> Suc (length X)" "schedules fuel n k = Some k'" "current k' = p"
    using schedule_reaches[of k idle A "current k" B X p Y fuel] assms(1,4,5) T X by auto
  ultimately show ?thesis using le_trans by blast
qed

lemma schedule_fair_witness: "\<exists>n k'. 1 \<le> n \<and> n \<le> 1 \<and> schedules 5 n demo_kern = Some k' \<and> current k' = 1"
  using schedule_fair[of demo_kern 0 "[1]" 1 5] demo_list by (simp add: demo_current)

text \<open>
  \<open>exit\<close> leaves the process a zombie with its exit status and its files still open, makes every process that waits in
  \<open>waitpid\<close> ready, and gives up the processor.
\<close>

theorem exit_wakes_waiters:
  assumes "system k idle T Wf" and "ready k (current k)" and "current k \<noteq> idle" and "length (procs k) < fuel"
  shows "\<exists>k'. exit_process fuel st k = Some k' \<and> sys_ok fuel k'
    \<and> p_status (procs k' ! current k) = Exited \<and> p_exit_value (procs k' ! current k) = st
    \<and> p_valid (procs k' ! current k) \<and> p_files (procs k' ! current k) = p_files (procs k ! current k)
    \<and> (\<forall>i \<in> set (Wf Waitpid_Queue). ready k' i) \<and> wait_first k' Waitpid_Queue = None
    \<and> ready k' (current k') \<and> current k' \<noteq> current k"
proof -
  note d = systemD[OF assms(1)]
  obtain k' where e: "exit_process fuel st k = Some k'" "system k' idle T (Wf(Waitpid_Queue := []))" "sys_ok fuel k'"
    "p_status (procs k' ! current k) = Exited" "p_exit_value (procs k' ! current k) = st" "same_core k k'"
    "\<forall>i < length (procs k). i \<noteq> current k \<longrightarrow>
        p_status (procs k' ! i) = (if i \<in> set (Wf Waitpid_Queue) then Ready else p_status (procs k ! i))"
    using exit_system[OF assms, of st] by blast
  have "ready k' i" if "i \<in> set (Wf Waitpid_Queue)" for i
    using queuesD(2)[OF d(5) that] current_not_queued[OF d(5) assms(2), of Waitpid_Queue] that e(7)
    by (cases "i = current k") (auto simp: ready_def)
  moreover have "wait_first k' Waitpid_Queue = None"
    using queuesD(1)[OF systemD(5)[OF e(2)], of Waitpid_Queue] by (simp add: waiting_def)
  moreover have "ready k' (current k')" using e(3) by (simp add: sys_ok_def)
  ultimately show ?thesis using e(1,3-6) d(6,9) by (auto simp: same_core_def ready_def)
qed

lemma exit_wakes_waiters_witness: "\<exists>k'. exit_process 5 3 demo_kern = Some k' \<and> p_exit_value (procs k' ! 1) = 3 \<and> current k' \<noteq> 1"
  using exit_wakes_waiters[OF demo_system, of 5 3] by (auto simp: demo_current)

text \<open>
  C39: \<open>vfork\<close> copies the current process to the first free entry: the child has the new number, the parent as its parent,
  the same open files, and is ready, while the parent sleeps.  The parent is then in no wait queue: when the child exits
  without replacing its program, the parent stays asleep.
\<close>

theorem vfork_exit_strands_parent:
  assumes "system k idle T Wf" and "ready k (current k)" and "current k \<noteq> idle" and "length (procs k) < fuel"
    and "index_of (\<lambda>p. \<not> p_valid p) (procs k) = Some c"
    and "vfork fuel k = Some (r, k1)" and "current k1 = c" and "exit_process fuel st k1 = Some k2"
  shows "r = avail_pid k \<and> p_pid (procs k1 ! c) = r \<and> p_parent (procs k1 ! c) = Some (current k)
    \<and> p_files (procs k1 ! c) = p_files (procs k ! current k)
    \<and> p_status (procs k2 ! c) = Exited \<and> p_status (procs k2 ! current k) = Sleeping
    \<and> (\<forall>q W. waiting k2 q W \<longrightarrow> current k \<notin> set W)"
proof -
  note d = systemD[OF assms(1)]
  have v: "r = avail_pid k" "system k1 idle (T @ [c]) Wf" "p_pid (procs k1 ! c) = r" "p_parent (procs k1 ! c) = Some (current k)"
    "p_files (procs k1 ! c) = p_files (procs k ! current k)" "p_status (procs k1 ! c) = Ready"
    "p_status (procs k1 ! current k) = Sleeping" "sys_ok fuel k1"
    using yieldsD[OF vfork_system[OF assms(1-4)] assms(6)] assms(5) by auto
  have c: "\<not> p_valid (procs k ! c)" "c < length (procs k)" using assms(5) by (simp_all add: index_of_Some_iff)
  then have ne: "current k \<noteq> c" "c \<noteq> idle" using d(9) proc_listD(4)[OF d(1) d(7)] by auto
  have len: "length (procs k1) < fuel" "current k < length (procs k1)"
  proof -
    show "length (procs k1) < fuel" using v(8) by (simp add: sys_ok_def)
    have "current k \<in> set (idle # (T @ [c]))" using d(2) by auto
    then show "current k < length (procs k1)" by (rule proc_listD(2)[OF systemD(1)[OF v(2)]])
  qed
  have nq: "current k \<notin> set (Wf q)" for q by (rule current_not_queued[OF d(5) assms(2)])
  obtain k' where e: "exit_process fuel st k1 = Some k'" "system k' idle (T @ [c]) (Wf(Waitpid_Queue := []))"
    "p_status (procs k' ! c) = Exited"
    "\<forall>i < length (procs k1). i \<noteq> c \<longrightarrow>
        p_status (procs k' ! i) = (if i \<in> set (Wf Waitpid_Queue) then Ready else p_status (procs k1 ! i))"
    using exit_system[OF v(2) _ _ len(1), of st] v(6) ne assms(7) by (auto simp: ready_def)
  have k2: "k' = k2" using e(1) assms(8) by simp
  have "current k \<notin> set W" if w: "waiting k2 q W" for q W
  proof -
    have "waiting k2 q ((Wf(Waitpid_Queue := [])) q)" using queuesD(1)[OF systemD(5)[OF e(2)]] k2 by simp
    then have "W = (Wf(Waitpid_Queue := [])) q" using w seg_unique by (auto simp: waiting_def)
    then show ?thesis using nq by auto
  qed
  moreover have "p_status (procs k2 ! current k) = Sleeping" using e(4) k2 len(2) ne(1) v(7) nq by simp
  ultimately show ?thesis using v e(3) k2 by blast
qed

lemma demo_vfork:
  "(case vfork 5 demo_kern of Some (r, k1) \<Rightarrow> current k1 = 2 \<and> exit_process 5 0 k1 \<noteq> None | None \<Rightarrow> False)"
  by code_simp

lemma vfork_exit_strands_parent_witness:
  "\<exists>k1 k2. vfork 5 demo_kern = Some (2, k1) \<and> exit_process 5 0 k1 = Some k2 \<and> p_status (procs k2 ! 1) = Sleeping"
proof -
  obtain r k1 k2 where v: "vfork 5 demo_kern = Some (r, k1)" "current k1 = 2" "exit_process 5 0 k1 = Some k2"
    using demo_vfork by (auto split: option.splits)
  from vfork_exit_strands_parent[OF demo_system _ _ _ _ v(1) v(2) v(3)] v show ?thesis by (auto simp: demo_current)
qed

text \<open>
  C40: Waiting for an exited process that the caller names returns its number and exit status, and takes it out of the
  process table, so that its number is unknown afterwards; \<open>WNOHANG\<close> makes no difference.
\<close>

theorem waitpid_reaps:
  assumes "system k idle T Wf" and "ready k (current k)" and "i \<in> set (idle # T)" and "p_status (procs k ! i) = Exited"
    and "p_pid (procs k ! i) = pid" and "0 \<le> pid" and "length (procs k) < fuel"
    and "waitpid fuel pid options (current k) k = Some (w, k')"
  shows "w = Returned pid (Some (p_exit_value (procs k ! i))) \<and> sys_ok fuel k' \<and> \<not> p_valid (procs k' ! i)
    \<and> process_lookup fuel pid k' = Some None"
proof -
  note d = systemD[OF assms(1)]
  have l: "length (idle # T) < fuel" using length_list_bound[OF d(1)] assms(7) by simp
  have i: "i < length (procs k)" using proc_listD(2)[OF d(1) assms(3)] .
  have dist: "distinct (map (\<lambda>j. p_pid (procs k ! j)) (idle # T))" using d(1) by (simp only: proc_list_def)
  then have uniq: "j = i" if "j \<in> set (idle # T)" "p_pid (procs k ! j) = pid" for j
    using that assms(3,5) unfolding distinct_map inj_on_def by blast
  have "find (\<lambda>j. p_pid (procs k ! j) = pid) (idle # T) = Some i"
  proof (cases "find (\<lambda>j. p_pid (procs k ! j) = pid) (idle # T)")
    case None
    from find_None_iff[THEN iffD1, OF None] show ?thesis using assms(3,5) by blast
  next
    case (Some j)
    then show ?thesis using uniq[OF find_in[OF Some] find_holds[OF Some]] by (simp only:)
  qed
  then have lk: "process_lookup fuel pid k = Some (Some i)" using process_lookup_eq[OF d(1) l] by simp
  have "waitpid fuel pid options (current k) k =
      do { (_, k1) \<leftarrow> process_destroy fuel i k; Some (Returned pid (Some (p_exit_value (procs k ! i))), k1) }"
    using assms(4-6) i lk by (simp add: waitpid_def waitpid_poll_def waitpid_wait_def)
  then obtain r where r: "process_destroy fuel i k = Some (r, k')" "w = Returned pid (Some (p_exit_value (procs k ! i)))"
    using assms(8) by (auto split: bind_splits)
  have y: "system k' idle (remove1 i T) Wf" "sys_ok fuel k'" "\<not> p_valid (procs k' ! i)"
    using yieldsD[OF reap_system[OF assms(1-4,7)] r(1)] by auto
  have s: "same_procs {i} k k'" "proc_list k' (remove1 i (idle # T))"
    using yieldsD[OF process_destroy_sys[OF d(1) assms(3) l d(4)] r(1)] by auto
  have "find (\<lambda>j. p_pid (procs k' ! j) = pid) (remove1 i (idle # T)) = None"
  proof -
    have "p_pid (procs k' ! j) \<noteq> pid" if "j \<in> set (remove1 i (idle # T))" for j
    proof -
      have j: "j \<in> set (idle # T)" "j \<noteq> i" using that proc_listD(3)[OF d(1)] by (auto simp: in_set_remove1 split: if_splits)
      then show ?thesis using same_pcb_fields(2)[OF same_procsD(1)[OF s(1) proc_listD(2)[OF d(1) j(1)]]] uniq[OF j(1)] by auto
    qed
    then show ?thesis by (auto simp: find_None_iff)
  qed
  moreover have "length (remove1 i (idle # T)) < fuel" using l by (metis length_remove1 less_imp_diff_less)
  ultimately have "process_lookup fuel pid k' = Some None" using process_lookup_eq[OF s(2)] by simp
  then show ?thesis using r(2) y by blast
qed

text \<open>An exited child, and a living one before it.\<close>

definition demo_zombie :: kern where
  "demo_zombie = demo_kern\<lparr>procs := [(demo_pcb 0 Ready)\<lparr>p_next := Some 1\<rparr>,
     (demo_pcb 1 Ready)\<lparr>p_prev := Some 0, p_next := Some 2, p_files := Some 0 # replicate 7 None\<rparr>,
     (demo_pcb 2 Ready)\<lparr>p_prev := Some 1, p_next := Some 3, p_parent := Some 1\<rparr>,
     (demo_pcb 3 Exited)\<lparr>p_prev := Some 2, p_parent := Some 1, p_exit_value := 7\<rparr>], avail_pid := 4\<rparr>"

lemma zombie_list: "proc_list demo_zombie [0, 1, 2, 3]"
proof -
  have v: "procs demo_zombie ! 0 = (demo_pcb 0 Ready)\<lparr>p_next := Some 1\<rparr>" "length (procs demo_zombie) = 4"
    "\<forall>p \<in> set (procs demo_zombie). p_valid p"
    by (simp_all add: demo_zombie_def demo_pcb_def)
  have "set [0, 1, 2, 3] = {i. i < length (procs demo_zombie) \<and> p_valid (procs demo_zombie ! i)}"
    using v(3) unfolding all_set_conv_all_nth v(2) by auto
  moreover have "seg (\<lambda>i. p_next (procs demo_zombie ! i)) (proc_first demo_zombie) [0, 1, 2, 3] None"
    "prevs (procs demo_zombie) [0, 1, 2, 3]" "distinct (map (\<lambda>i. p_pid (procs demo_zombie ! i)) [0, 1, 2, 3])"
    "\<forall>i \<in> set [0, 1, 2, 3]. p_pid (procs demo_zombie ! i) < avail_pid demo_zombie"
    by (simp_all add: demo_kern_def demo_zombie_def demo_pcb_def pcb_zero_def)
  ultimately show ?thesis unfolding proc_list_def by blast
qed

lemma zombie_system: "system demo_zombie 0 [1, 2, 3] (\<lambda>_. [])"
  unfolding system_def
proof (intro conjI zombie_list)
  show "sys_files demo_zombie"
    by (simp add: sys_files_def demo_zombie_def demo_kern_def demo_pcb_def pcb_zero_def all_fds_def demo_files_def refs_ok_def file_zero_def)
  show "queues demo_zombie (\<lambda>_. [])"
    by (auto simp: queues_def waiting_def demo_zombie_def demo_kern_def demo_pcb_def pcb_zero_def less_Suc_eq numeral_eq_Suc)
qed (simp_all add: ready_def demo_zombie_def demo_kern_def demo_pcb_def)

lemma zombie_current: "current demo_zombie = 1" "length (procs demo_zombie) = 4" "ready demo_zombie 1" "ready demo_zombie (Suc 0)"
  "p_status (procs demo_zombie ! 3) = Exited" "p_pid (procs demo_zombie ! 3) = 3" "p_exit_value (procs demo_zombie ! 3) = 7"
  by (simp_all add: demo_zombie_def demo_kern_def demo_pcb_def ready_def)

lemma waitpid_reaps_witness:
  "\<exists>k'. waitpid 5 3 0 1 demo_zombie = Some (Returned 3 (Some 7), k') \<and> process_lookup 5 3 k' = Some None"
proof -
  have "waitpid 5 3 0 1 demo_zombie \<noteq> None" by code_simp
  then obtain w k' where v: "waitpid 5 3 0 (current demo_zombie) demo_zombie = Some (w, k')" by (auto simp: zombie_current)
  from waitpid_reaps[OF zombie_system _ _ _ _ _ _ v, of 3] v show ?thesis by (auto simp: zombie_current)
qed

text \<open>
  Polling for any child looks only at the first child in the list: while that one lives, the poll says that no child
  has exited, whatever the others did.  A blocking wait for any child that finds the first one exited returns -1, not
  the number of the child.
\<close>

theorem waitpid_any_first_child:
  assumes "proc_list k L" and "find (\<lambda>i. i \<noteq> caller \<and> p_parent (procs k ! i) = Some caller) L = Some c" and "length L < fuel"
  shows "(p_status (procs k ! c) \<noteq> Exited \<longrightarrow> waitpid fuel (- 1) WNOHANG caller k = Some (Returned 0 None, k))
    \<and> (p_status (procs k ! c) = Exited \<and> options \<noteq> WNOHANG \<longrightarrow>
        yields (\<lambda>(w, _). w = Returned (- 1) (Some (p_exit_value (procs k ! c)))) (waitpid fuel (- 1) options caller k))"
proof -
  have c: "c < length (procs k)" using proc_listD(2)[OF assms(1) find_in[OF assms(2)]] .
  show ?thesis
    using c process_lookup_child_eq[OF assms(1,3), of caller] assms(2)
    by (auto simp: waitpid_def waitpid_poll_def waitpid_wait_def intro!: yields_intros)
qed

lemma waitpid_any_first_child_witness:
  "p_status (procs demo_zombie ! 3) = Exited \<and> p_parent (procs demo_zombie ! 3) = Some 1
    \<and> waitpid 5 (- 1) WNOHANG 1 demo_zombie = Some (Returned 0 None, demo_zombie)"
  using waitpid_any_first_child[OF zombie_list, of 1 2 5 0]
  by (simp add: demo_zombie_def demo_kern_def demo_pcb_def pcb_zero_def)

text \<open>
  Waiting for a number that no process has goes through a null pointer, whatever the options.
\<close>

theorem waitpid_unknown_null:
  assumes "proc_list k L" and "\<forall>i \<in> set L. p_pid (procs k ! i) \<noteq> pid" and "0 \<le> pid" and "length L < fuel"
  shows "waitpid fuel pid options caller k = None"
proof -
  have "find (\<lambda>i. p_pid (procs k ! i) = pid) L = None" using assms(2) by (auto simp: find_None_iff)
  then show ?thesis using process_lookup_eq[OF assms(1,4), of pid] assms(3) by (simp add: waitpid_def)
qed

lemma waitpid_unknown_null_witness: "waitpid 5 9 WNOHANG 1 demo_kern = None"
  by (rule waitpid_unknown_null[OF demo_list]) (simp_all add: demo_kern_def demo_pcb_def)

text \<open>
  Of two processes that wait for the same one, the second, once awake, frees again what the first freed: the control block
  is no longer valid but still says that the process has exited, so its files are closed and its memory is freed a second time.
\<close>

theorem second_waiter_frees_again:
  assumes "proc_list k L" and "proc < length (procs k)" and "\<not> p_valid (procs k ! proc)" and "p_status (procs k ! proc) = Exited"
    and "length L < fuel"
  shows "waitpid_wait fuel pid proc k = do {
      fs \<leftarrow> close_files fuel (p_files (procs k ! proc)) (files k);
      m1 \<leftarrow> free_area (p_stack (procs k ! proc)) (p_stacksize (procs k ! proc)) (memory k);
      m2 \<leftarrow> free_area (p_text (procs k ! proc)) (p_textsize (procs k ! proc)) m1;
      Some (Returned pid (Some (p_exit_value (procs k ! proc))),
        k\<lparr>procs := (procs k)[proc := (procs k ! proc)\<lparr>p_valid := False\<rparr>], files := fs, memory := m2\<rparr>) }"
proof -
  note l = proc_listD[OF assms(1)]
  let ?k = "k\<lparr>procs := (procs k)[proc := (procs k ! proc)\<lparr>p_valid := False\<rparr>]\<rparr>"
  have n: "proc \<notin> set L" using l(4)[OF assms(2)] assms(3) by simp
  have "process_remove fuel proc ?k = Some (case L of [] \<Rightarrow> (- 1, ?k) | _ \<Rightarrow> (0, ?k))"
  proof (cases L)
    case Nil
    then show ?thesis using l(1) by (simp add: process_remove_def)
  next
    case (Cons f R)
    have "(\<lambda>j. p_next (procs ?k ! j)) = (\<lambda>j. p_next (procs k ! j))" using assms(2) by (auto simp: nth_list_update)
    then have "c_loop fuel (search_step p_next (\<lambda>i p. i = proc) (procs ?k)) (proc_first k) = Some (find (\<lambda>i. i = proc) L)"
      using l(1,2) by (intro search_eq) (use assms(5) in auto)
    moreover have "find (\<lambda>i. i = proc) L = None" using n by (auto simp: find_None_iff)
    moreover have "proc_first k = Some f" "f \<noteq> proc" using l(1) Cons n by auto
    ultimately show ?thesis using Cons by (simp add: process_remove_def)
  qed
  then show ?thesis using assms(2,4) by (simp add: waitpid_wait_def process_destroy_def split: list.splits)
qed

text \<open>The first waiter of two has destroyed the process 3, which shared its file with the process 1.\<close>

definition demo_stale :: kern where
  "demo_stale = demo_kern\<lparr>procs := (procs demo_kern)[3 := (demo_pcb 3 Exited)\<lparr>p_valid := False, p_files := Some 0 # replicate 7 None\<rparr>]\<rparr>"

lemma second_waiter_frees_again_witness:
  "\<exists>k'. waitpid_wait 5 3 3 demo_stale = Some (Returned 3 (Some 0), k')
    \<and> p_files (procs k' ! 1) ! 0 = Some 0 \<and> file_count (file_objects (files k') ! 0) = 0"
proof -
  have l: "proc_list demo_stale [0, 1]" unfolding demo_stale_def by (rule demo_list_with) simp
  have "waitpid_wait 5 3 3 demo_stale = do {
      fs \<leftarrow> close_files 5 (p_files (procs demo_stale ! 3)) (files demo_stale);
      m1 \<leftarrow> free_area (p_stack (procs demo_stale ! 3)) (p_stacksize (procs demo_stale ! 3)) (memory demo_stale);
      m2 \<leftarrow> free_area (p_text (procs demo_stale ! 3)) (p_textsize (procs demo_stale ! 3)) m1;
      Some (Returned 3 (Some (p_exit_value (procs demo_stale ! 3))),
        demo_stale\<lparr>procs := (procs demo_stale)[3 := (procs demo_stale ! 3)\<lparr>p_valid := False\<rparr>], files := fs, memory := m2\<rparr>) }"
    by (rule second_waiter_frees_again[OF l]) (simp_all add: demo_stale_def demo_kern_def demo_pcb_def)
  then show ?thesis
    by (simp add: demo_stale_def demo_kern_def demo_pcb_def pcb_zero_def demo_files_def demo_vfs_def file_object_free_def
        file_set_def inode_free_def ino_get_def ino_set_def file_zero_def free_area_def numeral_eq_Suc)
qed

end
