(* ===== verification/Fifo.thy ===== *)
theory Fifo
  imports VMW_Prelude
begin

text \<open>
  The contract of a bounded queue, for the producers and consumers of characters: what is put in comes out in the
  order it went in, and what does not fit is dropped.
\<close>

text \<open>A producer that puts in a sequence, and a consumer that takes up to \<open>n\<close>.\<close>

fun put_all :: "('c \<Rightarrow> 's \<Rightarrow> (bool \<times> 's) option) \<Rightarrow> 'c list \<Rightarrow> 's \<Rightarrow> 's option" where
  "put_all put [] s = Some s"
| "put_all put (c # cs) s = do { (_, s1) \<leftarrow> put c s; put_all put cs s1 }"

fun take_upto :: "('s \<Rightarrow> ('c option \<times> 's) option) \<Rightarrow> nat \<Rightarrow> 's \<Rightarrow> ('c list \<times> 's) option" where
  "take_upto get 0 s = Some ([], s)"
| "take_upto get (Suc n) s = do {
     (c, s1) \<leftarrow> get s;
     (case c of None \<Rightarrow> Some ([], s1) | Some x \<Rightarrow> do { (xs, s2) \<leftarrow> take_upto get n s1; Some (x # xs, s2) }) }"

locale fifo =
  fixes ok :: "'s \<Rightarrow> bool"
    and items :: "'s \<Rightarrow> 'c list"
    and room :: nat
    and put :: "'c \<Rightarrow> 's \<Rightarrow> (bool \<times> 's) option"
    and get :: "'s \<Rightarrow> ('c option \<times> 's) option"
  assumes bound: "ok s \<Longrightarrow> length (items s) \<le> room"
    and put_room: "ok s \<Longrightarrow> length (items s) < room \<Longrightarrow> \<exists>s'. put c s = Some (True, s') \<and> ok s' \<and> items s' = items s @ [c]"
    and put_full: "ok s \<Longrightarrow> length (items s) = room \<Longrightarrow> \<exists>s'. put c s = Some (False, s') \<and> ok s' \<and> items s' = items s"
    and get_first: "ok s \<Longrightarrow> items s = c # cs \<Longrightarrow> \<exists>s'. get s = Some (Some c, s') \<and> ok s' \<and> items s' = cs"
    and get_empty: "ok s \<Longrightarrow> items s = [] \<Longrightarrow> \<exists>s'. get s = Some (None, s') \<and> ok s' \<and> items s' = []"
begin

lemma put_all_items: "ok s \<Longrightarrow> \<exists>s'. put_all put cs s = Some s' \<and> ok s' \<and> items s' = take room (items s @ cs)"
proof (induction cs arbitrary: s)
  case Nil
  then show ?case using bound by simp
next
  case (Cons c cs)
  show ?case
  proof (cases "length (items s) < room")
    case True
    then obtain s1 where s1: "put c s = Some (True, s1)" "ok s1" "items s1 = items s @ [c]" using put_room Cons.prems by blast
    from Cons.IH[OF s1(2)] s1 show ?thesis by auto
  next
    case False
    then have f: "length (items s) = room" using bound[OF Cons.prems] by simp
    then obtain s1 where s1: "put c s = Some (False, s1)" "ok s1" "items s1 = items s" using put_full Cons.prems by blast
    from Cons.IH[OF s1(2)] s1 f show ?thesis by auto
  qed
qed

lemma take_upto_items:
  "ok s \<Longrightarrow> \<exists>s'. take_upto get n s = Some (take n (items s), s') \<and> ok s' \<and> items s' = drop n (items s)"
proof (induction n arbitrary: s)
  case (Suc n)
  show ?case
  proof (cases "items s")
    case Nil
    then show ?thesis using get_empty[OF Suc.prems] by auto
  next
    case (Cons c cs)
    then obtain s1 where s1: "get s = Some (Some c, s1)" "ok s1" "items s1 = cs" using get_first Suc.prems by blast
    from Suc.IH[OF s1(2)] s1 Cons show ?thesis by auto
  qed
qed simp

text \<open>Through the queue: what fits comes out, in order, after what was in it.\<close>

lemma through:
  assumes "ok s" "put_all put cs s = Some s1" "length (items s @ cs) \<le> room"
  shows "\<exists>s2. take_upto get (length (items s @ cs)) s1 = Some (items s @ cs, s2) \<and> ok s2 \<and> items s2 = []"
proof -
  have "ok s1" "items s1 = items s @ cs" using put_all_items[OF assms(1), of cs] assms(2,3) by auto
  then show ?thesis using take_upto_items[of s1 "length (items s @ cs)"] by auto
qed

end

end
