(* ===== verification/Console.thy ===== *)
theory Console
  imports Fb_Console Process_System Fifo
begin

text \<open>
  The console's input, \<open>drivers/console/console_io.c\<close>: the ring of characters the devices insert and processes read, the
  editing of lines in canonical mode, and the terminal settings.  The state also holds the kernel, whose wait queue
  the readers sleep in, and the output devices, which the echo goes to.  The register dump on control-B and the
  sound on control-G are not modelled.
\<close>

section \<open>State\<close>

abbreviation (input) "INPUT_BUFFER_SIZE \<equiv> 256 :: nat"
abbreviation (input) "CANON_BUFFER_SIZE \<equiv> 256 :: nat"
abbreviation (input) "NCCS \<equiv> 32 :: nat"
abbreviation (input) "VERASE \<equiv> 2 :: nat"
abbreviation (input) "VEOF \<equiv> 4 :: nat"

text \<open>\<open>IGNCR\<close>, \<open>ICRNL\<close> of \<open>c_iflag\<close>; \<open>ICANON\<close>, \<open>ECHO\<close>, \<open>ECHOCTL\<close> of \<open>c_lflag\<close>.\<close>

abbreviation (input) "IGNCR \<equiv> 0x80 :: u32"
abbreviation (input) "ICRNL \<equiv> 0x100 :: u32"
abbreviation (input) "ICANON \<equiv> 2 :: u32"
abbreviation (input) "ECHO \<equiv> 8 :: u32"
abbreviation (input) "ECHOCTL \<equiv> 0x200 :: u32"

record termios =
  c_iflag :: u32
  c_oflag :: u32
  c_cflag :: u32
  c_lflag :: u32
  c_line :: byte
  c_cc :: bytes
  c_ispeed :: u32
  c_ospeed :: u32

record tty =
  input_buffer :: bytes
  input_buffer_head :: nat
  input_buffer_tail :: nat
  canon_offset :: nat
  canon_buffer :: bytes
  current_termio :: termios
  default_termio :: termios
  scheduling_enabled :: bool
  outs :: conout
  kernel :: kern

section \<open>The input ring\<close>

definition wake_console :: "nat \<Rightarrow> tty \<Rightarrow> tty option" where
  "wake_console fuel t = do { (_, k) \<leftarrow> wait_queue_wake fuel Console_Queue (kernel t); Some (t\<lparr>kernel := k\<rparr>) }"

definition console_actual_insert_char :: "nat \<Rightarrow> int \<Rightarrow> bool \<Rightarrow> tty \<Rightarrow> (int \<times> tty) option" where
  "console_actual_insert_char fuel ch empty_read t =
     (if empty_read then do { t1 \<leftarrow> wake_console fuel t; Some (0, t1) }
      else do {
        let new_head = (if input_buffer_head t + 1 \<ge> INPUT_BUFFER_SIZE then 0 else input_buffer_head t + 1);
        if new_head = input_buffer_tail t then Some (- 1, t)
        else do {
          b \<leftarrow> wr (input_buffer t) (input_buffer_head t) (word_of_int ch);
          t1 \<leftarrow> wake_console fuel (t\<lparr>input_buffer := b, input_buffer_head := new_head\<rparr>);
          Some (0, t1) } })"

definition console_get_char :: "tty \<Rightarrow> (byte option \<times> tty) option" where
  "console_get_char t =
     (if input_buffer_head t = input_buffer_tail t then Some (None, t)
      else do {
        ch \<leftarrow> rd (input_buffer t) (input_buffer_tail t);
        let tail1 = input_buffer_tail t + 1;
        Some (Some ch, t\<lparr>input_buffer_tail := (if tail1 \<ge> INPUT_BUFFER_SIZE then 0 else tail1)\<rparr>) })"

section \<open>Lines\<close>

definition is_control_char :: "int \<Rightarrow> bool" where
  "is_control_char ch = (if ch \<ge> 32 then False else if ch = 10 then False else if ch = 9 then False
     else if ch = 0x11 \<or> ch = 0x13 then False else True)"

fun insert_all :: "nat \<Rightarrow> bytes \<Rightarrow> tty \<Rightarrow> tty option" where
  "insert_all fuel [] t = Some t"
| "insert_all fuel (ch # cs) t = do { (_, t1) \<leftarrow> console_actual_insert_char fuel (uint ch) False t; insert_all fuel cs t1 }"

definition echo :: "nat \<Rightarrow> bytes \<Rightarrow> tty \<Rightarrow> tty option" where
  "echo depth cs t = do { (_, o1) \<leftarrow> console_write depth cs (length cs) (outs t); Some (t\<lparr>outs := o1\<rparr>) }"

definition flag :: "u32 \<Rightarrow> u32 \<Rightarrow> bool" where
  "flag flags bits \<longleftrightarrow> flags AND bits \<noteq> 0"

text \<open>The end of \<open>console_canonical_read\<close>, at the label \<open>canon_no_add\<close>: a finished line goes to the ring.\<close>

definition canon_finish :: "nat \<Rightarrow> tty \<Rightarrow> tty option" where
  "canon_finish fuel t = do {
     cs \<leftarrow> slice (canon_buffer t) 0 (canon_offset t);
     t1 \<leftarrow> insert_all fuel cs t;
     t2 \<leftarrow> (if canon_offset t1 = 0 then do { (_, t2) \<leftarrow> console_actual_insert_char fuel 0 True t1; Some t2 } else Some t1);
     Some (t2\<lparr>canon_offset := 0\<rparr>) }"

definition console_canonical_read :: "nat \<Rightarrow> nat \<Rightarrow> int \<Rightarrow> tty \<Rightarrow> (int \<times> tty) option" where
  "console_canonical_read depth fuel ch0 t = do {
     let tio = current_termio t;
     let ch = (if flag (c_iflag tio) ICRNL \<and> ch0 = 13 then 10 else ch0);
     veof \<leftarrow> rd (c_cc tio) VEOF;
     verase \<leftarrow> rd (c_cc tio) VERASE;
     if flag (c_iflag tio) IGNCR \<and> ch = 13 then Some (0, t)
     else if ch = uint veof then do { t1 \<leftarrow> canon_finish fuel t; Some (0, t1) }
     else if ch = 8 \<or> ch = uint verase then
       if canon_offset t > 0 then do {
         let t1 = t\<lparr>canon_offset := canon_offset t - 1\<rparr>;
         t2 \<leftarrow> (if flag (c_lflag tio) ECHO then echo depth [8, 32, 8] t1 else Some t1);
         Some (0, t2) }
       else Some (0, t)
     else do {
       b \<leftarrow> wr (canon_buffer t) (canon_offset t) (word_of_int ch);
       let t1 = t\<lparr>canon_buffer := b\<rparr>;
       t2 \<leftarrow> (if flag (c_lflag tio) ECHO
              then echo depth (if flag (c_lflag tio) ECHOCTL \<and> is_control_char ch then [94, word_of_int (ch + 64)] else [word_of_int ch]) t1
              else Some t1);
       let t3 = t2\<lparr>canon_offset := canon_offset t2 + 1\<rparr>;
       if canon_offset t3 = CANON_BUFFER_SIZE \<or> ch = 10 then do { t4 \<leftarrow> canon_finish fuel t3; Some (0, t4) }
       else Some (0, t3) } }"

definition console_insert_char :: "nat \<Rightarrow> nat \<Rightarrow> int \<Rightarrow> tty \<Rightarrow> (int \<times> tty) option" where
  "console_insert_char depth fuel ch0 t =
     (if flag (c_lflag (current_termio t)) ICANON then console_canonical_read depth fuel ch0 t
      else if flag (c_iflag (current_termio t)) IGNCR \<and> ch0 = 13 then Some (0, t)
      else do {
        let ch = (if flag (c_iflag (current_termio t)) ICRNL \<and> ch0 = 13 then 10 else ch0);
        (r, t1) \<leftarrow> console_actual_insert_char fuel ch False t;
        Some (r, if ch = 26 then t1\<lparr>scheduling_enabled := \<not> scheduling_enabled t1\<rparr> else t1) })"

section \<open>Reading\<close>

text \<open>The bytes read; the loop of \<open>console_read\<close> after the wait.\<close>

fun console_take :: "nat \<Rightarrow> tty \<Rightarrow> (bytes \<times> tty) option" where
  "console_take 0 t = Some ([], t)"
| "console_take (Suc n) t = do {
     (ch, t1) \<leftarrow> console_get_char t;
     (case ch of None \<Rightarrow> Some ([], t1)
      | Some c \<Rightarrow> do { (cs, t2) \<leftarrow> console_take n t1; Some (c # cs, t2) }) }"

text \<open>A blocking read of an empty ring sleeps; the process goes on with \<open>console_take\<close> when it is woken.\<close>

datatype read_result = Read_Bytes bytes | Read_Sleeps nat

definition console_read :: "nat \<Rightarrow> nat \<Rightarrow> bool \<Rightarrow> tty \<Rightarrow> (read_result \<times> tty) option" where
  "console_read fuel nbytes non_blocking t =
     (if \<not> non_blocking \<and> input_buffer_head t = input_buffer_tail t then do {
        (_, k) \<leftarrow> wait_queue_add fuel Console_Queue (current (kernel t)) (kernel t);
        Some (Read_Sleeps nbytes, t\<lparr>kernel := k\<rparr>) }
      else do { (cs, t1) \<leftarrow> console_take nbytes t; Some (Read_Bytes cs, t1) })"

abbreviation (input) "O_NONBLOCK \<equiv> 0x800 :: u32"

definition console_read_dev :: "nat \<Rightarrow> u32 \<Rightarrow> nat \<Rightarrow> tty \<Rightarrow> (read_result \<times> tty) option" where
  "console_read_dev fuel flags nbytes t = console_read fuel nbytes (flag flags O_NONBLOCK) t"

definition console_write_dev :: "nat \<Rightarrow> bytes \<Rightarrow> nat \<Rightarrow> tty \<Rightarrow> (nat \<times> tty) option" where
  "console_write_dev depth buf nbytes t = do { (n, o1) \<leftarrow> console_write depth buf nbytes (outs t); Some (n, t\<lparr>outs := o1\<rparr>) }"

abbreviation (input) "TCGETS \<equiv> 0x5401 :: u32"
abbreviation (input) "TCSETS \<equiv> 0x5402 :: u32"

text \<open>The settings at the address of the third argument, before and after.\<close>

definition console_ioctl :: "u32 \<Rightarrow> termios \<Rightarrow> tty \<Rightarrow> int \<times> termios \<times> tty" where
  "console_ioctl cmd three t =
     (if cmd = TCGETS then (0, current_termio t, t)
      else if cmd = TCSETS then (0, three, t\<lparr>current_termio := three\<rparr>)
      else (- ENOTTY, three, t))"

definition termios_default :: termios where
  "termios_default = \<lparr>c_iflag = 0x4000 OR 0x400 OR 0x100, c_oflag = 1 OR 4, c_cflag = 0xf OR 0x30 OR 0x80,
     c_lflag = 0x8000 OR 0x200 OR 0x800 OR 0x20 OR 0x10 OR 8 OR 2 OR 1, c_line = 0,
     c_cc = [0x3, 0x1c, 0x7f, 0x15, 0x04, 0, 1, 0, 0x11, 0x13, 0x1a, 0, 0x12, 0x0f, 0x17, 0x16] @ replicate 16 0,
     c_ispeed = 0, c_ospeed = 0\<rparr>"

section \<open>The ring is a queue\<close>

definition ring_count :: "tty \<Rightarrow> nat" where
  "ring_count t = (input_buffer_head t + INPUT_BUFFER_SIZE - input_buffer_tail t) mod INPUT_BUFFER_SIZE"

definition ring_items :: "tty \<Rightarrow> bytes" where
  "ring_items t = map (\<lambda>j. input_buffer t ! ((input_buffer_tail t + j) mod INPUT_BUFFER_SIZE)) [0..<ring_count t]"

text \<open>\<open>ring_ok\<close>: the indices are inside the buffer, and the wait queue is a list.\<close>

definition ring_ok :: "nat \<Rightarrow> tty \<Rightarrow> bool" where
  "ring_ok fuel t \<longleftrightarrow> length (input_buffer t) = INPUT_BUFFER_SIZE \<and> input_buffer_head t < INPUT_BUFFER_SIZE
     \<and> input_buffer_tail t < INPUT_BUFFER_SIZE \<and> (\<exists>W. waiting (kernel t) Console_Queue W \<and> length W < fuel)"

text \<open>What an insertion leaves alone.\<close>

definition same_tty :: "tty \<Rightarrow> tty \<Rightarrow> bool" where
  "same_tty t t' \<longleftrightarrow> canon_offset t' = canon_offset t \<and> canon_buffer t' = canon_buffer t \<and> current_termio t' = current_termio t
     \<and> scheduling_enabled t' = scheduling_enabled t \<and> outs t' = outs t"

lemma same_tty_refl [simp]: "same_tty t t"
  by (simp add: same_tty_def)

lemma same_tty_trans: "same_tty t t' \<Longrightarrow> same_tty t' t'' \<Longrightarrow> same_tty t t''"
  by (simp add: same_tty_def)

lemma wake_console_ok:
  assumes "waiting (kernel t) Console_Queue W" "length W < fuel"
  shows "\<exists>k. wake_console fuel t = Some (t\<lparr>kernel := k\<rparr>) \<and> waiting k Console_Queue []
    \<and> (\<forall>i \<in> set W. ready k i)"
  using wait_queue_wake_eq[OF assms] assms(1)
  by (auto simp: wake_console_def waiting_def ready_def woken_nth)

lemma ring_count_less: "ring_count t < 256"
  by (simp add: ring_count_def)

lemma length_ring_items [simp]: "length (ring_items t) = ring_count t"
  by (simp add: ring_items_def)

lemma mod_next: "h < 256 \<Longrightarrow> (if 256 \<le> h + 1 then 0 else h + 1) = (h + 1) mod (256::nat)"
  by (cases "h = 255") auto

lemma insert_char_room:
  assumes "ring_ok fuel t" "ring_count t < 255"
  shows "\<exists>t'. console_actual_insert_char fuel ch False t = Some (0, t') \<and> ring_ok fuel t'
    \<and> ring_items t' = ring_items t @ [word_of_int ch] \<and> same_tty t t'"
proof -
  let ?h = "input_buffer_head t" and ?l = "input_buffer_tail t"
  obtain W where w: "waiting (kernel t) Console_Queue W" "length W < fuel" using assms(1) by (auto simp: ring_ok_def)
  have r: "?h < 256" "?l < 256" "length (input_buffer t) = 256" using assms(1) by (simp_all add: ring_ok_def)
  let ?h' = "(?h + 1) mod 256"
  have ne: "?h' \<noteq> ?l"
  proof
    assume "?h' = ?l"
    then have "ring_count t = 255" using r by (cases "?h = 255") (auto simp: ring_count_def mod_if)
    then show False using assms(2) by simp
  qed
  let ?b = "(input_buffer t)[?h := word_of_int ch]"
  let ?t = "t\<lparr>input_buffer := ?b, input_buffer_head := ?h'\<rparr>"
  obtain k where k: "wake_console fuel ?t = Some (?t\<lparr>kernel := k\<rparr>)" "waiting k Console_Queue []"
    using wake_console_ok[of ?t W fuel] w by auto
  have e: "console_actual_insert_char fuel ch False t = Some (0, ?t\<lparr>kernel := k\<rparr>)"
    using ne r k(1) mod_next[OF r(1)] by (simp add: console_actual_insert_char_def Let_def)
  have c: "ring_count (?t\<lparr>kernel := k\<rparr>) = Suc (ring_count t)"
    using assms(2) r by (auto simp: ring_count_def mod_if split: if_splits)
  have pos: "(?l + ring_count t) mod 256 = ?h" using r by (auto simp: ring_count_def mod_if)
  have old: "(?l + j) mod 256 \<noteq> ?h" if "j < ring_count t" for j
    using that r assms(2) by (auto simp: ring_count_def mod_if split: if_splits)
  have same: "?b ! ((?l + j) mod 256) = input_buffer t ! ((?l + j) mod 256)" if "j < ring_count t" for j
    using old[OF that] by simp
  have new: "?b ! ((?l + ring_count t) mod 256) = word_of_int ch" unfolding pos using r(1,3) by simp
  have "ring_items (?t\<lparr>kernel := k\<rparr>) = map (\<lambda>j. ?b ! ((?l + j) mod 256)) [0..<ring_count t] @ [?b ! ((?l + ring_count t) mod 256)]"
    unfolding ring_items_def c by simp
  then have "ring_items (?t\<lparr>kernel := k\<rparr>) = ring_items t @ [word_of_int ch]"
    unfolding new using same by (simp add: ring_items_def)
  moreover have "ring_ok fuel (?t\<lparr>kernel := k\<rparr>)"
  proof -
    have "\<exists>W. waiting k Console_Queue W \<and> length W < fuel" by (rule exI[of _ "[]"]) (use k(2) w(2) in simp)
    then show ?thesis using r by (simp add: ring_ok_def)
  qed
  ultimately show ?thesis using e by (auto simp: same_tty_def)
qed

lemma insert_char_full:
  assumes "ring_ok fuel t" "ring_count t = 255"
  shows "console_actual_insert_char fuel ch False t = Some (- 1, t)"
proof -
  have r: "input_buffer_head t < 256" "input_buffer_tail t < 256" using assms(1) by (simp_all add: ring_ok_def)
  then have "(input_buffer_head t + 1) mod 256 = input_buffer_tail t"
    using assms(2) by (auto simp: ring_count_def mod_if split: if_splits)
  then show ?thesis using mod_next[OF r(1)] by (simp add: console_actual_insert_char_def Let_def)
qed

lemma ring_empty: "ring_ok fuel t \<Longrightarrow> ring_count t = 0 \<longleftrightarrow> input_buffer_head t = input_buffer_tail t"
  by (auto simp: ring_ok_def ring_count_def mod_if split: if_splits)

lemma get_char_first:
  assumes "ring_ok fuel t" "ring_items t = c # cs"
  shows "\<exists>t'. console_get_char t = Some (Some c, t') \<and> ring_ok fuel t' \<and> ring_items t' = cs \<and> same_tty t t'"
proof -
  let ?h = "input_buffer_head t" and ?l = "input_buffer_tail t"
  have r: "?h < 256" "?l < 256" "length (input_buffer t) = 256" using assms(1) by (simp_all add: ring_ok_def)
  have n: "ring_count t = Suc (length cs)" using arg_cong[OF assms(2), of length] by simp
  then have ne: "?h \<noteq> ?l" using ring_empty[OF assms(1)] by auto
  let ?t = "t\<lparr>input_buffer_tail := (?l + 1) mod 256\<rparr>"
  have ct: "ring_count ?t = length cs" using n r by (auto simp: ring_count_def mod_if split: if_splits)
  have "ring_items t = input_buffer t ! ?l # map (\<lambda>j. input_buffer t ! ((?l + Suc j) mod 256)) [0..<length cs]"
    unfolding ring_items_def n using r(2) by (simp add: upt_conv_Cons map_Suc_upt[symmetric] del: upt_Suc)
  then have f: "c = input_buffer t ! ?l" "cs = map (\<lambda>j. input_buffer t ! ((?l + Suc j) mod 256)) [0..<length cs]"
    using assms(2) by simp_all
  have "ring_items ?t = cs"
    unfolding ring_items_def ct by (subst (2) f(2)) (simp add: mod_simps)
  moreover have "console_get_char t = Some (Some c, ?t)"
  proof -
    have "console_get_char t = Some (Some c, t\<lparr>input_buffer_tail := (if 256 \<le> ?l + 1 then 0 else ?l + 1)\<rparr>)"
      using ne r f(1) by (simp add: console_get_char_def Let_def)
    then show ?thesis unfolding mod_next[OF r(2)] .
  qed
  moreover have "ring_ok fuel ?t" using assms(1) by (simp add: ring_ok_def)
  ultimately show ?thesis by (auto simp: same_tty_def)
qed

definition tty_put :: "nat \<Rightarrow> byte \<Rightarrow> tty \<Rightarrow> (bool \<times> tty) option" where
  "tty_put fuel ch t = do { (r, t1) \<leftarrow> console_actual_insert_char fuel (uint ch) False t; Some (r = 0, t1) }"

interpretation ring: fifo "ring_ok fuel" ring_items 255 "tty_put fuel" console_get_char for fuel
proof unfold_locales
  fix t c assume ok: "ring_ok fuel t"
  show "length (ring_items t) \<le> 255" using ring_count_less[of t] by simp
  show "\<exists>t'. tty_put fuel c t = Some (True, t') \<and> ring_ok fuel t' \<and> ring_items t' = ring_items t @ [c]" if "length (ring_items t) < 255"
    using insert_char_room[OF ok, of "uint c"] that by (auto simp: tty_put_def)
  show "\<exists>t'. tty_put fuel c t = Some (False, t') \<and> ring_ok fuel t' \<and> ring_items t' = ring_items t" if "length (ring_items t) = 255"
    using insert_char_full[OF ok, of "uint c"] that ok by (simp add: tty_put_def)
  show "\<exists>t'. console_get_char t = Some (None, t') \<and> ring_ok fuel t' \<and> ring_items t' = []" if "ring_items t = []"
  proof -
    have "ring_count t = 0" using arg_cong[OF that, of length] by simp
    then show ?thesis using ring_empty[OF ok] ok that by (simp add: console_get_char_def)
  qed
  fix cs show "\<exists>t'. console_get_char t = Some (Some c, t') \<and> ring_ok fuel t' \<and> ring_items t' = cs" if "ring_items t = c # cs"
    using get_char_first[OF ok that] by blast
qed

lemma insert_all_put: "insert_all fuel cs t = put_all (tty_put fuel) cs t"
proof (induction cs arbitrary: t)
  case (Cons ch cs)
  then show ?case by (cases "console_actual_insert_char fuel (uint ch) False t") (auto simp: tty_put_def)
qed simp

lemma console_take_upto: "console_take n t = take_upto console_get_char n t"
proof (induction n arbitrary: t)
  case (Suc n)
  show ?case by (cases "console_get_char t") (auto simp: Suc.IH split: option.splits)
qed simp

lemma insert_char_same:
  assumes "ring_ok fuel t"
  shows "\<exists>r t'. console_actual_insert_char fuel ch False t = Some (r, t') \<and> ring_ok fuel t' \<and> same_tty t t'"
proof (cases "ring_count t < 255")
  case True
  then show ?thesis using insert_char_room[OF assms, of ch] by blast
next
  case False
  then have "ring_count t = 255" using ring_count_less[of t] by simp
  then show ?thesis using insert_char_full[OF assms, of ch] assms by simp
qed

lemma insert_all_same: "ring_ok fuel t \<Longrightarrow> insert_all fuel cs t = Some t' \<Longrightarrow> same_tty t t'"
proof (induction cs arbitrary: t)
  case (Cons ch cs)
  obtain r t1 where t1: "console_actual_insert_char fuel (uint ch) False t = Some (r, t1)" "ring_ok fuel t1" "same_tty t t1"
    using insert_char_same[OF Cons.prems(1)] by blast
  then show ?case using Cons.IH[of t1] Cons.prems(2) same_tty_trans[OF t1(3)] by simp
qed simp

section \<open>Line editing\<close>

text \<open>
  The abstract editor: the line so far, a character added, a character erased.
\<close>

definition edit :: "termios \<Rightarrow> byte \<Rightarrow> bytes \<Rightarrow> bytes" where
  "edit tio ch line = (if ch = 8 \<or> ch = c_cc tio ! VERASE then butlast line else line @ [ch])"

definition tty_line :: "tty \<Rightarrow> bytes" where
  "tty_line t = take (canon_offset t) (canon_buffer t)"

text \<open>
  \<open>line_ok\<close>: canonical mode with room in the line, an end-of-file character and an erase character of their own, and an output
  that is between two sequences, so that the echo works.
\<close>

definition echo_ok :: "tty \<Rightarrow> bool" where
  "echo_ok t \<longleftrightarrow> con_ok (con (outs t)) \<and> ansi_state (con (outs t)) = Ansi_Normal
     \<and> (console_locking_enabled (outs t) \<longrightarrow> \<not> console_print_mutex (outs t))"

definition line_ok :: "nat \<Rightarrow> tty \<Rightarrow> bool" where
  "line_ok fuel t \<longleftrightarrow> ring_ok fuel t \<and> echo_ok t \<and> length (canon_buffer t) = CANON_BUFFER_SIZE
     \<and> canon_offset t < CANON_BUFFER_SIZE \<and> length (c_cc (current_termio t)) = NCCS"

lemma echo_text:
  assumes "echo_ok t" "27 \<notin> set cs" "cs \<noteq> []"
  shows "\<exists>o1. echo depth cs t = Some (t\<lparr>outs := o1\<rparr>) \<and> echo_ok (t\<lparr>outs := o1\<rparr>)"
proof -
  have c: "coloured (ansi_state (con (outs t))) (which_number (con (outs t))) cs"
    using assms(1) coloured_plain[OF assms(2)] by (simp add: echo_ok_def)
  show ?thesis
    using console_write_ok[OF _ c assms(3), of depth] assms(1,2) by (auto simp: echo_ok_def echo_def)
qed

lemma canon_finish_line:
  assumes "ring_ok fuel t" "length (canon_buffer t) = 256" "canon_offset t \<le> 256" "canon_offset t \<noteq> 0"
  shows "\<exists>t'. canon_finish fuel t = Some t' \<and> ring_ok fuel t' \<and> ring_items t' = take 255 (ring_items t @ tty_line t)
    \<and> canon_offset t' = 0 \<and> canon_buffer t' = canon_buffer t \<and> current_termio t' = current_termio t \<and> outs t' = outs t"
proof -
  have sl: "slice (canon_buffer t) 0 (canon_offset t) = Some (tty_line t)" using assms(2,3) by (simp add: slice_def tty_line_def)
  obtain t1 where t1: "insert_all fuel (tty_line t) t = Some t1" "ring_ok fuel t1" "ring_items t1 = take 255 (ring_items t @ tty_line t)"
    using ring.put_all_items[OF assms(1), of "tty_line t"] unfolding insert_all_put by blast
  have s: "same_tty t t1" by (rule insert_all_same[OF assms(1) t1(1)])
  then have "canon_finish fuel t = Some (t1\<lparr>canon_offset := 0\<rparr>)"
    using sl t1(1) assms(4) by (simp add: canon_finish_def same_tty_def)
  moreover have "ring_items (t1\<lparr>canon_offset := 0\<rparr>) = ring_items t1" by (simp add: ring_items_def ring_count_def)
  moreover have "ring_ok fuel (t1\<lparr>canon_offset := 0\<rparr>)" using t1(2) by (simp add: ring_ok_def)
  ultimately show ?thesis using t1(3) s by (simp add: same_tty_def)
qed

text \<open>A character that stays in the line.\<close>

lemma canonical_edit:
  assumes "line_ok fuel t" "ch \<notin> {10, 13, 27}" "ch \<noteq> c_cc (current_termio t) ! VEOF" "canon_offset t < 255"
  shows "\<exists>t'. console_canonical_read depth fuel (uint ch) t = Some (0, t') \<and> line_ok fuel t'
    \<and> tty_line t' = edit (current_termio t) ch (tty_line t) \<and> ring_items t' = ring_items t
    \<and> current_termio t' = current_termio t \<and> canon_offset t' \<le> Suc (canon_offset t)"
proof -
  let ?tio = "current_termio t"
  have o: "ring_ok fuel t" "echo_ok t" "length (canon_buffer t) = 256" "canon_offset t < 256" "length (c_cc ?tio) = 32"
    using assms(1) by (simp_all add: line_ok_def)
  have u: "uint ch = uint w \<longleftrightarrow> ch = w" for w :: byte by (rule word_uint_eq_iff[symmetric])
  have n: "uint ch \<noteq> 10" "uint ch \<noteq> 13" "uint ch = 8 \<longleftrightarrow> ch = 8" "uint ch \<noteq> uint (c_cc ?tio ! 4)"
  proof -
    show "uint ch \<noteq> 10" using u[of 10] assms(2) by simp
    show "uint ch \<noteq> 13" using u[of 13] assms(2) by simp
    show "uint ch = 8 \<longleftrightarrow> ch = 8" using u[of 8] by simp
    show "uint ch \<noteq> uint (c_cc ?tio ! 4)" unfolding u by (rule assms(3))
  qed
  have cc: "rd (c_cc ?tio) 4 = Some (c_cc ?tio ! 4)" "rd (c_cc ?tio) 2 = Some (c_cc ?tio ! 2)" using o(5) by simp_all
  have keep: "ring_ok fuel (t\<lparr>canon_offset := i, canon_buffer := b, outs := out\<rparr>)"
    "ring_items (t\<lparr>canon_offset := i, canon_buffer := b, outs := out\<rparr>) = ring_items t" for i b out
    using o(1) by (simp_all add: ring_ok_def ring_items_def ring_count_def)
  show ?thesis
  proof (cases "ch = 8 \<or> ch = c_cc ?tio ! 2")
    case True
    then have e: "uint ch = 8 \<or> uint ch = uint (c_cc ?tio ! 2)" using n(3) u by blast
    show ?thesis
    proof (cases "canon_offset t > 0")
      case False
      then have "console_canonical_read depth fuel (uint ch) t = Some (0, t)"
        using cc n e by (simp add: console_canonical_read_def Let_def)
      then show ?thesis using assms(1) False True by (simp add: tty_line_def edit_def)
    next
      case pos: True
      let ?t1 = "t\<lparr>canon_offset := canon_offset t - 1\<rparr>"
      have "echo_ok ?t1" using o(2) by (simp add: echo_ok_def)
      from echo_text[OF this, of "[8, 32, 8]" depth]
      obtain out where out: "echo depth [8, 32, 8] ?t1 = Some (?t1\<lparr>outs := out\<rparr>)" "echo_ok (?t1\<lparr>outs := out\<rparr>)" by auto
      obtain out' where r: "console_canonical_read depth fuel (uint ch) t = Some (0, ?t1\<lparr>outs := out'\<rparr>)" "echo_ok (?t1\<lparr>outs := out'\<rparr>)"
      proof (cases "flag (c_lflag ?tio) ECHO")
        case True
        then show thesis using that[of out] out cc n e pos by (simp add: console_canonical_read_def Let_def)
      next
        case False
        then show thesis using that[of "outs t"] cc n e pos \<open>echo_ok ?t1\<close> by (simp add: console_canonical_read_def Let_def)
      qed
      have "tty_line (?t1\<lparr>outs := out'\<rparr>) = butlast (tty_line t)" using o(3,4) pos by (simp add: tty_line_def butlast_take)
      then show ?thesis using r True keep[where i = "canon_offset t - 1" and b = "canon_buffer t" and out = out'] o less_imp_diff_less[OF o(4), of 1]
        le_SucI[OF diff_le_self, of "canon_offset t" 1] by (simp add: line_ok_def edit_def)
    qed
  next
    case False
    then have e: "uint ch \<noteq> 8" "uint ch \<noteq> uint (c_cc ?tio ! 2)" using n(3) u by blast+
    let ?b = "(canon_buffer t)[canon_offset t := ch]"
    let ?t1 = "t\<lparr>canon_buffer := ?b\<rparr>"
    have ok1: "echo_ok ?t1" using o(2) by (simp add: echo_ok_def)
    have w: "wr (canon_buffer t) (canon_offset t) (word_of_int (uint ch)) = Some ?b" using o(3,4) by simp
    define cs :: bytes where "cs = (if flag (c_lflag ?tio) ECHOCTL \<and> is_control_char (uint ch) then [94, word_of_int (uint ch + 64)] else [word_of_int (uint ch)])"
    have "27 \<notin> set cs"
    proof -
      have "word_of_int (uint ch + 64) \<noteq> (27 :: byte)" if "is_control_char (uint ch)"
      proof -
        have "uint ch < 32" using that by (auto simp: is_control_char_def split: if_splits)
        moreover have nn: "0 \<le> uint ch" by simp
        ultimately have "uint (ch + 64) = uint ch + 64" by (simp add: uint_word_ariths mod_pos_pos_trivial)
        then have "uint (word_of_int (uint ch + 64) :: byte) = uint ch + 64" by simp
        moreover have "uint (27 :: byte) = 27" by simp
        ultimately have "uint (word_of_int (uint ch + 64) :: byte) \<noteq> uint (27 :: byte)" using nn by linarith
        then show ?thesis by (rule contrapos_nn) (rule arg_cong)
      qed
      then show ?thesis using assms(2) by (auto simp: cs_def)
    qed
    obtain out where out: "echo depth cs ?t1 = Some (?t1\<lparr>outs := out\<rparr>)" "echo_ok (?t1\<lparr>outs := out\<rparr>)"
    proof -
      have "cs \<noteq> []" by (simp add: cs_def)
      then show thesis using echo_text[OF ok1 \<open>27 \<notin> set cs\<close>, of depth] that by blast
    qed
    have lim: "Suc (canon_offset t) \<noteq> 256" using assms(4) by simp
    obtain out' where r: "console_canonical_read depth fuel (uint ch) t = Some (0, ?t1\<lparr>outs := out', canon_offset := Suc (canon_offset t)\<rparr>)"
      "echo_ok (?t1\<lparr>outs := out'\<rparr>)"
    proof (cases "flag (c_lflag ?tio) ECHO")
      case True
      then show thesis using that[of out] out cc n e w lim unfolding cs_def by (simp add: console_canonical_read_def Let_def)
    next
      case False
      then show thesis using that[of "outs t"] ok1 cc n e w lim by (simp add: console_canonical_read_def Let_def)
    qed
    let ?t2 = "?t1\<lparr>outs := out', canon_offset := Suc (canon_offset t)\<rparr>"
    have "tty_line ?t2 = tty_line t @ [ch]" using o(3,4) by (simp add: tty_line_def take_Suc_conv_app_nth)
    moreover have "echo_ok ?t2" using r(2) by (simp add: echo_ok_def)
    moreover have "ring_ok fuel ?t2" "ring_items ?t2 = ring_items t"
      using o(1) by (simp_all add: ring_ok_def ring_items_def ring_count_def)
    ultimately have "line_ok fuel ?t2 \<and> tty_line ?t2 = edit ?tio ch (tty_line t)" using o assms(4) False
      by (simp add: line_ok_def edit_def)
    then show ?thesis using r(1) \<open>ring_items ?t2 = ring_items t\<close> by simp
  qed
qed

text \<open>A newline ends the line.\<close>

lemma canonical_newline:
  assumes "line_ok fuel t" "c_cc (current_termio t) ! VEOF \<noteq> 10" "c_cc (current_termio t) ! VERASE \<noteq> 10"
  shows "\<exists>t'. console_canonical_read depth fuel 10 t = Some (0, t') \<and> line_ok fuel t'
    \<and> ring_items t' = take 255 (ring_items t @ tty_line t @ [10]) \<and> tty_line t' = [] \<and> current_termio t' = current_termio t"
proof -
  let ?tio = "current_termio t"
  have o: "ring_ok fuel t" "echo_ok t" "length (canon_buffer t) = 256" "canon_offset t < 256" "length (c_cc ?tio) = 32"
    using assms(1) by (simp_all add: line_ok_def)
  have n: "uint (c_cc ?tio ! 4) \<noteq> 10" "uint (c_cc ?tio ! 2) \<noteq> 10"
    using assms(2,3) word_uint_eq_iff[of _ "10 :: byte"] by auto
  have cc: "rd (c_cc ?tio) 4 = Some (c_cc ?tio ! 4)" "rd (c_cc ?tio) 2 = Some (c_cc ?tio ! 2)" using o(5) by simp_all
  let ?b = "(canon_buffer t)[canon_offset t := 10]"
  let ?t1 = "t\<lparr>canon_buffer := ?b\<rparr>"
  have w: "wr (canon_buffer t) (canon_offset t) 10 = Some ?b" using o(3,4) by simp
  have ok1: "echo_ok ?t1" using o(2) by (simp add: echo_ok_def)
  obtain out where out: "echo depth [10] ?t1 = Some (?t1\<lparr>outs := out\<rparr>)" "echo_ok (?t1\<lparr>outs := out\<rparr>)"
    using echo_text[OF ok1, of "[10]" depth] by auto
  obtain out' where r: "console_canonical_read depth fuel 10 t =
      do { t4 \<leftarrow> canon_finish fuel (?t1\<lparr>outs := out', canon_offset := Suc (canon_offset t)\<rparr>); Some (0, t4) }"
    "echo_ok (?t1\<lparr>outs := out'\<rparr>)"
  proof (cases "flag (c_lflag ?tio) ECHO")
    case True
    then show thesis using that[of out] out cc n w
      by (auto simp: console_canonical_read_def Let_def is_control_char_def)
  next
    case False
    then show thesis using that[of "outs t"] ok1 cc n w by (auto simp: console_canonical_read_def Let_def)
  qed
  let ?t2 = "?t1\<lparr>outs := out', canon_offset := Suc (canon_offset t)\<rparr>"
  have l: "tty_line ?t2 = tty_line t @ [10]" using o(3,4) by (simp add: tty_line_def take_Suc_conv_app_nth)
  have "ring_ok fuel ?t2" "ring_items ?t2 = ring_items t"
    using o(1) by (simp_all add: ring_ok_def ring_items_def ring_count_def)
  then obtain t' where t': "canon_finish fuel ?t2 = Some t'" "ring_ok fuel t'" "ring_items t' = take 255 (ring_items t @ tty_line t @ [10])"
    "canon_offset t' = 0" "canon_buffer t' = ?b" "current_termio t' = ?tio" "outs t' = out'"
    using canon_finish_line[of fuel ?t2] o(3,4) l by auto
  have "echo_ok t'" using r(2) t'(7) by (simp add: echo_ok_def)
  then have "line_ok fuel t' \<and> tty_line t' = []" using t' o by (simp add: line_ok_def tty_line_def)
  then show ?thesis using r(1) t'(1,3,6) by simp
qed

text \<open>A sequence of typed characters.\<close>

fun type_chars :: "nat \<Rightarrow> nat \<Rightarrow> bytes \<Rightarrow> tty \<Rightarrow> tty option" where
  "type_chars depth fuel [] t = Some t"
| "type_chars depth fuel (ch # cs) t = do { (_, t1) \<leftarrow> console_insert_char depth fuel (uint ch) t; type_chars depth fuel cs t1 }"

definition edited :: "termios \<Rightarrow> bytes \<Rightarrow> bytes" where
  "edited tio cs = fold (edit tio) cs []"

lemma type_chars_edit:
  assumes "line_ok fuel t" "flag (c_lflag (current_termio t)) ICANON"
    "\<forall>ch \<in> set cs. ch \<notin> {10, 13, 27} \<and> ch \<noteq> c_cc (current_termio t) ! VEOF" "canon_offset t + length cs \<le> 255"
  shows "\<exists>t'. type_chars depth fuel cs t = Some t' \<and> line_ok fuel t' \<and> tty_line t' = fold (edit (current_termio t)) cs (tty_line t)
    \<and> ring_items t' = ring_items t \<and> current_termio t' = current_termio t"
  using assms
proof (induction cs arbitrary: t)
  case (Cons ch cs)
  have c: "ch \<notin> {10, 13, 27}" "ch \<noteq> c_cc (current_termio t) ! VEOF" "canon_offset t < 255" using Cons.prems(3,4) by auto
  obtain t1 where t1: "console_canonical_read depth fuel (uint ch) t = Some (0, t1)" "line_ok fuel t1"
    "tty_line t1 = edit (current_termio t) ch (tty_line t)" "ring_items t1 = ring_items t"
    "current_termio t1 = current_termio t" "canon_offset t1 \<le> Suc (canon_offset t)"
    using canonical_edit[OF Cons.prems(1) c] by blast
  have ins: "console_insert_char depth fuel (uint ch) t = Some (0, t1)"
    using t1(1) Cons.prems(2) by (simp add: console_insert_char_def)
  have "\<exists>t'. type_chars depth fuel cs t1 = Some t' \<and> line_ok fuel t' \<and> tty_line t' = fold (edit (current_termio t1)) cs (tty_line t1)
    \<and> ring_items t' = ring_items t1 \<and> current_termio t' = current_termio t1"
    by (rule Cons.IH) (use t1 Cons.prems in auto)
  then show ?case using ins t1 by auto
qed simp

section \<open>The properties\<close>

definition demo_tty :: tty where
  "demo_tty = \<lparr>input_buffer = replicate 256 0, input_buffer_head = 250, input_buffer_tail = 250, canon_offset = 0,
     canon_buffer = replicate 256 0, current_termio = termios_default, default_termio = termios_default,
     scheduling_enabled = True, outs = demo_out, kernel = demo_kern\<rparr>"

lemma demo_line_ok: "line_ok 1 demo_tty"
proof -
  have "\<exists>W. waiting (kernel demo_tty) Console_Queue W \<and> length W < 1"
    by (rule exI[of _ "[]"]) (simp add: waiting_def demo_tty_def demo_kern_def)
  then show ?thesis using demo_con_ok
    by (simp add: line_ok_def ring_ok_def echo_ok_def demo_tty_def termios_default_def demo_con_fields)
qed

lemma demo_term: "current_termio demo_tty = termios_default" "c_cc termios_default ! 4 = 4" "c_cc termios_default ! 2 = 127"
  "flag (c_lflag termios_default) ICANON" "ring_items demo_tty = []" "tty_line demo_tty = []" "canon_offset demo_tty = 0"
  by (simp_all add: demo_tty_def termios_default_def flag_def ring_items_def ring_count_def tty_line_def)

text \<open>A read that does not sleep takes as many characters as it asks for and as there are.\<close>

lemma console_read_items:
  assumes "ring_ok fuel t" "non_blocking \<or> ring_items t \<noteq> []"
  shows "\<exists>t'. console_read fuel n non_blocking t = Some (Read_Bytes (take n (ring_items t)), t') \<and> ring_items t' = drop n (ring_items t)"
proof -
  obtain t' where "console_take n t = Some (take n (ring_items t), t')" "ring_items t' = drop n (ring_items t)"
    using ring.take_upto_items[OF assms(1), of n] by (auto simp: console_take_upto)
  moreover have "ring_items t \<noteq> [] \<Longrightarrow> input_buffer_head t \<noteq> input_buffer_tail t"
    using ring_empty[OF assms(1)] length_ring_items[of t] by (metis length_0_conv)
  ultimately show ?thesis using assms(2) by (auto simp: console_read_def)
qed



text \<open>
  A canonical line of 255 characters loses its newline: the line buffer holds 256 characters, the ring only 255.
\<close>

theorem full_line_loses_newline:
  assumes "line_ok fuel t" and "ring_items t = []" and "length (tty_line t) = 255"
    and "c_cc (current_termio t) ! VEOF \<noteq> 10" and "c_cc (current_termio t) ! VERASE \<noteq> 10"
  shows "\<exists>t'. console_canonical_read depth fuel 10 t = Some (0, t') \<and> ring_items t' = tty_line t"
  using canonical_newline[OF assms(1,4,5), of depth] assms(2,3) by auto

lemma full_line_loses_newline_witness:
  "\<exists>t'. console_canonical_read 0 1 10 (demo_tty\<lparr>canon_offset := 255, canon_buffer := replicate 256 65\<rparr>) = Some (0, t')
    \<and> ring_items t' = replicate 255 65"
proof -
  let ?t = "demo_tty\<lparr>canon_offset := 255, canon_buffer := replicate 256 65\<rparr>"
  have "line_ok 1 ?t" using demo_line_ok by (simp add: line_ok_def ring_ok_def echo_ok_def)
  moreover have "tty_line ?t = replicate 255 65" "ring_items ?t = []"
    by (simp_all add: tty_line_def ring_items_def ring_count_def demo_tty_def)
  ultimately show ?thesis using full_line_loses_newline[of 1 ?t 0] by (simp add: demo_term)
qed

lemma raw_insert:
  assumes "ring_ok fuel t" "\<not> flag (c_lflag (current_termio t)) ICANON" "ch \<noteq> 13" "ring_count t < 255"
  shows "\<exists>t'. console_insert_char depth fuel (uint ch) t = Some (0, t') \<and> ring_ok fuel t' \<and> ring_items t' = ring_items t @ [ch]
    \<and> current_termio t' = current_termio t"
proof -
  obtain t1 where t1: "console_actual_insert_char fuel (uint ch) False t = Some (0, t1)" "ring_ok fuel t1"
    "ring_items t1 = ring_items t @ [ch]" "same_tty t t1" using insert_char_room[OF assms(1,4), of "uint ch"] by auto
  have n: "uint ch \<noteq> 13" using word_uint_eq_iff[of ch "13 :: byte"] assms(3) by simp
  let ?t2 = "if uint ch = 26 then t1\<lparr>scheduling_enabled := \<not> scheduling_enabled t1\<rparr> else t1"
  have "console_insert_char depth fuel (uint ch) t = Some (0, ?t2)"
    using assms(2) n t1(1) by (simp add: console_insert_char_def Let_def)
  moreover have "ring_ok fuel ?t2" "ring_items ?t2 = ring_items t1" "current_termio ?t2 = current_termio t"
    using t1(2,4) by (simp_all add: ring_ok_def ring_items_def ring_count_def same_tty_def)
  ultimately show ?thesis using t1(3) by auto
qed

lemma raw_type:
  assumes "ring_ok fuel t" "\<not> flag (c_lflag (current_termio t)) ICANON" "13 \<notin> set cs" "ring_count t + length cs \<le> 255"
  shows "\<exists>t'. type_chars depth fuel cs t = Some t' \<and> ring_ok fuel t' \<and> ring_items t' = ring_items t @ cs"
  using assms
proof (induction cs arbitrary: t)
  case (Cons ch cs)
  have c: "ch \<noteq> 13" "ring_count t < 255" using Cons.prems(3,4) by auto
  obtain t1 where t1: "console_insert_char depth fuel (uint ch) t = Some (0, t1)" "ring_ok fuel t1"
    "ring_items t1 = ring_items t @ [ch]" "current_termio t1 = current_termio t" using raw_insert[OF Cons.prems(1,2) c] by blast
  have "ring_count t1 = Suc (ring_count t)" using arg_cong[OF t1(3), of length] by simp
  then show ?case using Cons.IH[of t1] t1 Cons.prems by auto
qed simp

text \<open>
  In raw mode what is typed is read in the order it was typed, after what was there before, as long as no more than 255 characters wait; a read
  takes as many as it asks for.
\<close>

theorem raw_input_in_order:
  assumes "ring_ok fuel t" and "\<not> flag (c_lflag (current_termio t)) ICANON" and "13 \<notin> set cs"
    and "length (ring_items t) + length cs \<le> 255"
  shows "\<exists>t1 t2. type_chars depth fuel cs t = Some t1
    \<and> console_read fuel n True t1 = Some (Read_Bytes (take n (ring_items t @ cs)), t2)
    \<and> ring_items t2 = drop n (ring_items t @ cs)"
proof -
  obtain t1 where t1: "type_chars depth fuel cs t = Some t1" "ring_ok fuel t1" "ring_items t1 = ring_items t @ cs"
    using raw_type[OF assms(1-3), of depth] assms(4) by auto
  then show ?thesis using console_read_items[OF t1(2), of True n] by auto
qed

lemma raw_input_in_order_witness:
  "\<exists>t1 t2. type_chars 0 1 [3, 27, 26, 65, 66, 67, 68] (demo_tty\<lparr>current_termio := termios_default\<lparr>c_lflag := 0\<rparr>\<rparr>) = Some t1
    \<and> console_read 1 5 True t1 = Some (Read_Bytes [3, 27, 26, 65, 66], t2) \<and> ring_items t2 = [67, 68]"
proof -
  let ?t = "demo_tty\<lparr>current_termio := termios_default\<lparr>c_lflag := 0\<rparr>\<rparr>"
  have "ring_ok 1 ?t" "ring_items ?t = []" using demo_line_ok demo_term(5)
    by (simp_all add: line_ok_def ring_ok_def ring_items_def ring_count_def)
  then show ?thesis using raw_input_in_order[of 1 ?t "[3, 27, 26, 65, 66, 67, 68]" 0 5] by (simp add: flag_def)
qed

text \<open>
  The end-of-file character on an empty line wakes every process that waits for input, and gives them nothing to read.
\<close>

theorem eof_wakes_readers:
  assumes "line_ok fuel t" and "flag (c_lflag (current_termio t)) ICANON" and "canon_offset t = 0"
    and "ch = c_cc (current_termio t) ! VEOF" and "ch \<noteq> 13" and "waiting (kernel t) Console_Queue W" and "length W < fuel"
  shows "\<exists>t'. console_insert_char depth fuel (uint ch) t = Some (0, t') \<and> ring_items t' = ring_items t
    \<and> (\<forall>i \<in> set W. ready (kernel t') i) \<and> wait_first (kernel t') Console_Queue = None"
proof -
  have cc: "rd (c_cc (current_termio t)) 4 = Some ch" "rd (c_cc (current_termio t)) 2 = Some (c_cc (current_termio t) ! 2)"
    using assms(1,4) by (simp_all add: line_ok_def)
  have n: "uint ch \<noteq> 13" using word_uint_eq_iff[of ch "13 :: byte"] assms(5) by simp
  obtain k where k: "wake_console fuel t = Some (t\<lparr>kernel := k\<rparr>)" "waiting k Console_Queue []" "\<forall>i \<in> set W. ready k i"
    using wake_console_ok[OF assms(6,7)] by blast
  have "canon_finish fuel t = Some (t\<lparr>kernel := k, canon_offset := 0\<rparr>)"
    using k(1) assms(3) by (simp add: canon_finish_def slice_def console_actual_insert_char_def)
  then have "console_canonical_read depth fuel (uint ch) t = Some (0, t\<lparr>kernel := k, canon_offset := 0\<rparr>)"
    using cc n by (simp add: console_canonical_read_def Let_def)
  then show ?thesis using assms(2) k(2,3) by (simp add: console_insert_char_def ring_items_def ring_count_def waiting_def)
qed

lemma eof_wakes_readers_witness:
  "\<exists>t'. console_insert_char 0 2 4 (demo_tty\<lparr>kernel := demo_kern\<lparr>procs := (procs demo_kern)[1 := demo_pcb 1 Sleeping],
       wait_first := (\<lambda>_. None)(Console_Queue := Some 1)\<rparr>\<rparr>) = Some (0, t') \<and> ready (kernel t') 1"
proof -
  let ?k = "demo_kern\<lparr>procs := (procs demo_kern)[1 := demo_pcb 1 Sleeping], wait_first := (\<lambda>_. None)(Console_Queue := Some 1)\<rparr>"
  have w: "waiting ?k Console_Queue [1]" by (simp add: waiting_def demo_kern_def demo_pcb_def pcb_zero_def)
  have "line_ok 2 (demo_tty\<lparr>kernel := ?k\<rparr>)"
  proof -
    have "\<exists>W. waiting ?k Console_Queue W \<and> length W < 2" using w by (intro exI[of _ "[1]"]) simp
    then show ?thesis using demo_line_ok by (simp add: line_ok_def ring_ok_def echo_ok_def)
  qed
  from eof_wakes_readers[OF this, of 4 "[1]" 0] w show ?thesis by (auto simp: demo_term)
qed

end
