(* ===== verification/Keyboard.thy ===== *)
theory Keyboard
  imports Console
begin

text \<open>
  The PS/2 keyboard, \<open>drivers/keyboard/ps2-keyboard.c\<close>: the interrupt handler, called at each falling edge of the keyboard's clock,
  collects the bits of a frame, decodes the scan code and inserts the character into the console.  The value of the data line
  is an argument.  The requests for the pins and the interrupt, and its acknowledgement, are not modelled.
\<close>

section \<open>Scan codes\<close>

abbreviation (input) "K_ALT \<equiv> 0x8d :: u32"
abbreviation (input) "K_SHFT \<equiv> 0x8e :: u32"
abbreviation (input) "K_CTRL \<equiv> 0x8f :: u32"

definition translate :: bytes where
  "translate = [
     0x80, 0x89, 0x80, 0x85, 0x83, 0x81, 0x82, 0x8c, 0x1b, 0x8a, 0x88, 0x86, 0x84, 0x09, 0x60, 0x80,
     0x80, 0x8d, 0x8e, 0x80, 0x8f, 0x71, 0x31, 0x80, 0x80, 0x80, 0x7a, 0x73, 0x61, 0x77, 0x32, 0x80,
     0x80, 0x63, 0x78, 0x64, 0x65, 0x34, 0x33, 0x80, 0x80, 0x20, 0x76, 0x66, 0x74, 0x72, 0x35, 0x80,
     0x80, 0x6e, 0x62, 0x68, 0x67, 0x79, 0x36, 0x80, 0x80, 0x8d, 0x6d, 0x6a, 0x75, 0x37, 0x38, 0x80,
     0x80, 0x2c, 0x6b, 0x69, 0x6f, 0x30, 0x39, 0x80, 0x80, 0x2e, 0x2f, 0x6c, 0x3b, 0x70, 0x2d, 0x80,
     0x80, 0x80, 0x27, 0x80, 0x5b, 0x3d, 0x80, 0x80, 0x90, 0x8e, 0x0d, 0x5d, 0x80, 0x5c, 0x80, 0x80,
     0x80, 0x80, 0x80, 0x80, 0x80, 0x80, 0x08, 0x80, 0x80, 0x31, 0x80, 0x34, 0x37, 0x80, 0x91, 0x80,
     0x30, 0x2e, 0x32, 0x35, 0x36, 0x38, 0x1b, 0x92, 0xab, 0x2b, 0x33, 0x2d, 0x2a, 0x39, 0x93, 0x80,
     0x80, 0x80, 0x80, 0x87, 0x94, 0x80, 0x80, 0x80, 0x95, 0x80, 0x80, 0x80, 0x80, 0x80, 0x80, 0x80,
     0x80, 0x8d, 0x80, 0x80, 0x8f, 0x80, 0x80, 0x80, 0x80, 0x80, 0x80, 0x80, 0x80, 0x80, 0x80, 0x80,
     0x80, 0x80, 0x80, 0x80, 0x80, 0x80, 0x80, 0x80, 0x80, 0x80, 0x80, 0x80, 0x80, 0x80, 0x80, 0x80,
     0x80, 0x80, 0x80, 0x80, 0x80, 0x80, 0x80, 0x80, 0x80, 0x80, 0x80, 0x80, 0x80, 0x80, 0x80, 0x80,
     0x80, 0x80, 0x80, 0x80, 0x80, 0x80, 0x80, 0x80, 0x80, 0x80, 0x2f, 0x80, 0x80, 0x80, 0x80, 0x80,
     0x80, 0x80, 0x80, 0x80, 0x80, 0x80, 0x80, 0x80, 0x80, 0x80, 0x0d, 0x80, 0x80, 0x80, 0x80, 0x80,
     0x80, 0x80, 0x80, 0x80, 0x80, 0x80, 0x80, 0x80, 0x80, 0x96, 0x80, 0xa0, 0x91, 0x80, 0x80, 0x80,
     0x97, 0x98, 0xa3, 0x80, 0xa1, 0xa2, 0x80, 0x80, 0x80, 0x80, 0xa4, 0x80, 0x99, 0xa5, 0x80, 0x80]"

record ps2 =
  shift_state :: bool
  alt_state :: bool
  ctrl_state :: bool
  keyup :: bool
  escape :: bool
  pause :: nat
  parity :: u32
  clock_bits :: nat
  message :: u32
  old_ticks :: u32

definition translate_key :: "nat \<Rightarrow> nat \<Rightarrow> nat \<Rightarrow> bool \<Rightarrow> ps2 \<times> tty \<Rightarrow> (ps2 \<times> tty) option" where
  "translate_key depth fuel key down = (\<lambda>(kb, t). do {
     code \<leftarrow> rd translate key;
     let ascii = (ucast code :: u32);
     if ascii = K_ALT then Some (kb\<lparr>alt_state := down\<rparr>, t)
     else if ascii = K_CTRL then Some (kb\<lparr>ctrl_state := down\<rparr>, t)
     else if ascii = K_SHFT then Some (kb\<lparr>shift_state := down\<rparr>, t)
     else if down then Some (kb, t)
     else do {
       let letter = (97 \<le> ascii \<and> ascii \<le> 122);
       let ascii1 = (if letter \<and> ctrl_state kb then ascii - 0x60 else ascii);
       let ascii2 = (if letter \<and> shift_state kb then ascii1 - 0x20 else ascii1);
       (_, t1) \<leftarrow> console_insert_char depth fuel (sint ascii2) t;
       Some (kb, t1) } })"

section \<open>Frames\<close>

text \<open>What the handler does with a byte it has received.\<close>

definition ps2_key :: "nat \<Rightarrow> nat \<Rightarrow> nat \<Rightarrow> ps2 \<times> tty \<Rightarrow> (ps2 \<times> tty) option" where
  "ps2_key depth fuel key = (\<lambda>(kb, t).
     if key = 0xf0 then Some (kb\<lparr>keyup := True\<rparr>, t)
     else if key = 0xe0 then Some (kb\<lparr>escape := True\<rparr>, t)
     else if key = 0xe1 then Some (kb\<lparr>pause := 2\<rparr>, t)
     else if pause kb = 2 then Some (kb\<lparr>pause := 1\<rparr>, t)
     else do {
       let (key1, kb1) = (if pause kb = 1 then (0x88, kb\<lparr>pause := 0\<rparr>) else (key, kb));
       let (key2, kb2) = (if escape kb1 then (or key1 0x80, kb1\<lparr>escape := False\<rparr>) else (key1, kb1));
       (kb3, t3) \<leftarrow> translate_key depth fuel key2 (\<not> keyup kb2) (kb2, t);
       Some (kb3\<lparr>keyup := False\<rparr>, t3) })"

definition ps2_shift :: "bool \<Rightarrow> u32 \<Rightarrow> u32" where
  "ps2_shift data m = drop_bit 1 (m OR push_bit 11 (of_bool data))"

text \<open>\<open>message&0x200>>8\<close> is \<open>message&(0x200>>8)\<close>.\<close>

definition parity_error :: "u32 \<Rightarrow> u32 \<Rightarrow> bool" where
  "parity_error m p \<longleftrightarrow> (((m AND drop_bit 8 0x200) AND 1) + (p AND 1)) AND 1 \<noteq> 0"

definition complain :: "nat \<Rightarrow> bool \<Rightarrow> bytes \<Rightarrow> va list \<Rightarrow> tty \<Rightarrow> tty option" where
  "complain depth c fmt ap t = (if c then do { o1 \<leftarrow> printk depth fmt ap (outs t); Some (t\<lparr>outs := o1\<rparr>) } else Some t)"

definition invalid_start :: bytes where
  "invalid_start = [73, 110, 118, 97, 108, 105, 100, 32, 115, 116, 97, 114, 116, 32, 98, 105, 116, 32, 37, 120, 10]"

definition invalid_stop :: bytes where
  "invalid_stop = [73, 110, 118, 97, 105, 100, 32, 115, 116, 111, 112, 32, 98, 105, 116, 32, 37, 120, 10]"

definition parity_message :: bytes where
  "parity_message = [80, 97, 114, 105, 116, 121, 32, 101, 114, 114, 111, 114, 32, 37, 120, 32, 37, 120, 10]"

text \<open>The counters at the start of the handler: a gap of more than two ticks starts a new frame.\<close>

definition ps2_clock :: "u32 \<Rightarrow> ps2 \<Rightarrow> ps2" where
  "ps2_clock now kb =
     (let kb1 = (if old_ticks kb = 0 then kb\<lparr>old_ticks := now\<rparr> else kb);
          kb2 = (if now - old_ticks kb1 > 2 then kb1\<lparr>clock_bits := 0, message := 0, parity := 0\<rparr> else kb1)
      in kb2\<lparr>old_ticks := now, clock_bits := clock_bits kb2 + 1\<rparr>)"

definition ps2_interrupt_handler :: "nat \<Rightarrow> nat \<Rightarrow> bool \<Rightarrow> ps2 \<times> tty \<Rightarrow> (ps2 \<times> tty) option" where
  "ps2_interrupt_handler depth fuel data = (\<lambda>(kb0, t). do {
     let kb1 = ps2_clock (tick_counter (kernel t)) kb0;
     let kb = kb1\<lparr>parity := parity kb1 + of_bool data, message := ps2_shift data (message kb1)\<rparr>;
     if clock_bits kb \<noteq> 11 then Some (kb, t)
     else do {
       t1 \<leftarrow> complain depth (message kb AND 1 \<noteq> 0) invalid_start [VLong (message kb)] t;
       t2 \<leftarrow> complain depth (message kb AND 0x400 = 0) invalid_stop [VLong (message kb)] t1;
       t3 \<leftarrow> complain depth (parity_error (message kb) (parity kb)) parity_message [VLong (message kb), VLong (parity kb)] t2;
       ps2_key depth fuel (unat (drop_bit 1 (message kb) AND 0xff))
         (kb\<lparr>clock_bits := 0, message := 0, parity := 0\<rparr>, t3) } })"

section \<open>Frames are decoded\<close>

fun ps2_bits :: "nat \<Rightarrow> nat \<Rightarrow> bool list \<Rightarrow> ps2 \<times> tty \<Rightarrow> (ps2 \<times> tty) option" where
  "ps2_bits depth fuel [] s = Some s"
| "ps2_bits depth fuel (d # ds) s = do { s1 \<leftarrow> ps2_interrupt_handler depth fuel d s; ps2_bits depth fuel ds s1 }"

lemma ps2_bits_append: "ps2_bits depth fuel (ds @ es) s = do { s1 \<leftarrow> ps2_bits depth fuel ds s; ps2_bits depth fuel es s1 }"
proof (induction ds arbitrary: s)
  case (Cons d ds)
  have "ps2_bits depth fuel (ds @ es) = (\<lambda>s. do { s1 \<leftarrow> ps2_bits depth fuel ds s; ps2_bits depth fuel es s1 })"
    by (rule ext) (rule Cons.IH)
  then show ?case by simp
qed simp

definition ones :: "bool list \<Rightarrow> nat" where
  "ones ds = length (filter id ds)"

definition data_bits :: "byte \<Rightarrow> bool list" where
  "data_bits b = map (bit b) [0..<8]"

text \<open>A start bit, the data bits, the lowest first, odd parity, and a stop bit.\<close>

definition frame :: "byte \<Rightarrow> bool list" where
  "frame b = [False] @ data_bits b @ [even (ones (data_bits b))] @ [True]"

definition received :: "bool list \<Rightarrow> u32" where
  "received ds = fold ps2_shift ds 0"

lemma bit_shift: "bit (ps2_shift d m) i \<longleftrightarrow> bit m (Suc i) \<or> i = 10 \<and> d"
  by (auto simp: ps2_shift_def bit_simps)

lemma bit_received: "length ds \<le> 11 \<Longrightarrow> bit (received ds) i \<longleftrightarrow> 11 \<le> i + length ds \<and> i < 11 \<and> ds ! (i + length ds - 11)"
proof (induction ds arbitrary: i rule: rev_induct)
  case (snoc d ds)
  have "received (ds @ [d]) = ps2_shift d (received ds)" by (simp add: received_def)
  moreover have "bit (received ds) (Suc i) \<longleftrightarrow> 11 \<le> Suc i + length ds \<and> Suc i < 11 \<and> ds ! (Suc i + length ds - 11)"
    using snoc by simp
  ultimately show ?case using snoc.prems by (auto simp: bit_shift nth_append)
qed (simp add: received_def)

lemma frame_nth: "length (frame b) = 11" "\<not> frame b ! 0" "i < 8 \<Longrightarrow> frame b ! Suc i = bit b i" "frame b ! 10"
  by (simp_all add: frame_def data_bits_def nth_append)

lemma odd_frame: "even (ones (frame b))"
  by (simp add: frame_def ones_def)

lemma received_frame:
  "\<not> bit (received (frame b)) 0" "bit (received (frame b)) 10" "drop_bit 1 (received (frame b)) AND 0xff = ucast b"
proof -
  have r: "bit (received (frame b)) i \<longleftrightarrow> i < 11 \<and> frame b ! i" for i
    using bit_received[of "frame b" i] by (simp add: frame_nth)
  show "\<not> bit (received (frame b)) 0" "bit (received (frame b)) 10" by (simp_all add: r frame_nth)
  have m: "(0xff :: u32) = mask 8" by (simp add: mask_eq_exp_minus_1)
  show "drop_bit 1 (received (frame b)) AND 0xff = ucast b"
    unfolding m
  proof (rule bit_word_eqI)
    fix i assume "i < LENGTH(32)"
    then show "bit (drop_bit 1 (received (frame b)) AND mask 8) i = bit (ucast b :: u32) i"
      using bit_imp_le_length[of b i] by (auto simp: bit_simps r frame_nth)
  qed
qed

lemma parity_error_iff: "parity_error m (of_nat n) \<longleftrightarrow> odd n"
proof -
  have "(m AND drop_bit 8 0x200) AND 1 = 0"
  proof -
    have "(m AND 2) AND 1 = m AND (2 AND 1)" by (simp only: and.assoc)
    then show ?thesis by simp
  qed
  then show ?thesis by (simp add: parity_error_def and_one_eq odd_iff_mod_2_eq_one[symmetric])
qed

text \<open>\<open>between kb\<close>: no frame is being received.\<close>

definition between :: "ps2 \<Rightarrow> bool" where
  "between kb \<longleftrightarrow> clock_bits kb = 0 \<and> message kb = 0 \<and> parity kb = 0"

definition collecting :: "u32 \<Rightarrow> bool list \<Rightarrow> ps2 \<Rightarrow> ps2" where
  "collecting now ds kb = kb\<lparr>old_ticks := now, clock_bits := length ds, message := received ds, parity := of_nat (ones ds)\<rparr>"

lemma clock_first: "between kb \<Longrightarrow> ps2_clock now kb = kb\<lparr>old_ticks := now, clock_bits := 1\<rparr>"
  by (cases kb) (simp add: ps2_clock_def between_def Let_def)

lemma clock_next: "ps2_clock now (collecting now ds kb) = (collecting now ds kb)\<lparr>clock_bits := Suc (length ds)\<rparr>"
  by (cases kb) (simp add: ps2_clock_def collecting_def Let_def)

lemma ones_snoc: "of_nat (ones (ds @ [d])) = (of_nat (ones ds) + of_bool d :: u32)"
  by (simp add: ones_def)

lemma received_snoc: "received (ds @ [d]) = ps2_shift d (received ds)"
  by (simp add: received_def)

lemma collect_bits:
  assumes "between kb" "ds \<noteq> []" "length ds \<le> 10"
  shows "ps2_bits depth fuel ds (kb, t) = Some (collecting (tick_counter (kernel t)) ds kb, t)"
  using assms(2,3)
proof (induction ds rule: rev_induct)
  case (snoc d ds)
  let ?now = "tick_counter (kernel t)"
  show ?case
  proof (cases "ds = []")
    case True
    have "ps2_interrupt_handler depth fuel d (kb, t) = Some (collecting ?now [d] kb, t)"
      using assms(1) clock_first[OF assms(1), of ?now]
      by (simp add: ps2_interrupt_handler_def between_def collecting_def received_def ones_def Let_def)
    then show ?thesis using True by simp
  next
    case False
    have "ps2_interrupt_handler depth fuel d (collecting ?now ds kb, t) = Some (collecting ?now (ds @ [d]) kb, t)"
      using snoc.prems(2)
      by (simp add: ps2_interrupt_handler_def clock_next Let_def) (simp add: collecting_def received_snoc ones_snoc)
    then show ?thesis using snoc False by (simp add: ps2_bits_append)
  qed
qed simp

text \<open>A frame as the keyboard sends it is the byte it carries; no complaint is printed.\<close>

lemma frame_received:
  assumes "between kb"
  shows "ps2_bits depth fuel (frame b) (kb, t) = ps2_key depth fuel (unat b) (kb\<lparr>old_ticks := tick_counter (kernel t)\<rparr>, t)"
proof -
  let ?now = "tick_counter (kernel t)"
  obtain D where D: "frame b = D @ [True]" "length D = 10"
    by (rule that[of "[False] @ data_bits b @ [even (ones (data_bits b))]"]) (simp_all add: frame_def data_bits_def)
  have c: "ps2_bits depth fuel D (kb, t) = Some (collecting ?now D kb, t)"
    by (rule collect_bits[OF assms]) (use D(2) in auto)
  have rcv: "ps2_shift True (received D) = received (frame b)" unfolding D(1) by (rule received_snoc[symmetric])
  have ons: "of_nat (ones D) + 1 = (of_nat (ones (frame b)) :: u32)" unfolding D(1) ones_snoc by simp
  have start: "received (frame b) AND 1 = 0" using received_frame(1)[of b] and_exp_eq_0_iff_not_bit[of "received (frame b)" 0] by simp
  have stop: "received (frame b) AND 0x400 \<noteq> 0" using received_frame(2)[of b] and_exp_eq_0_iff_not_bit[of "received (frame b)" 10] by simp
  have key: "unat (drop_bit 1 (received (frame b)) AND 0xff) = unat b" unfolding received_frame(3)
    by (simp add: unsigned_ucast_eq) (rule take_bit_nat_eq_self, use unat8_lt[of b] in simp)
  have par: "\<not> parity_error (received (frame b)) (of_nat (ones (frame b)))" using parity_error_iff odd_frame by blast
  let ?C = "collecting ?now D kb"
  let ?kb = "?C\<lparr>clock_bits := 11, parity := of_nat (ones (frame b)), message := received (frame b)\<rparr>"
  have reset: "?kb\<lparr>clock_bits := 0, message := 0, parity := 0\<rparr> = kb\<lparr>old_ticks := ?now\<rparr>"
    using assms by (cases kb) (simp add: collecting_def between_def)
  have st: "ps2_clock ?now ?C = ?C\<lparr>clock_bits := 11\<rparr>" using D(2) by (simp add: clock_next)
  have fields: "parity ?C = of_nat (ones D)" "message ?C = received D" by (simp_all add: collecting_def)
  have h: "ps2_interrupt_handler depth fuel True (?C, t) = do {
       t1 \<leftarrow> complain depth (message ?kb AND 1 \<noteq> 0) invalid_start [VLong (message ?kb)] t;
       t2 \<leftarrow> complain depth (message ?kb AND 0x400 = 0) invalid_stop [VLong (message ?kb)] t1;
       t3 \<leftarrow> complain depth (parity_error (message ?kb) (parity ?kb)) parity_message [VLong (message ?kb), VLong (parity ?kb)] t2;
       ps2_key depth fuel (unat (drop_bit 1 (message ?kb) AND 0xff)) (?kb\<lparr>clock_bits := 0, message := 0, parity := 0\<rparr>, t3) }"
    by (simp add: ps2_interrupt_handler_def st fields rcv ons Let_def)
  have "ps2_interrupt_handler depth fuel True (?C, t) = ps2_key depth fuel (unat b) (kb\<lparr>old_ticks := ?now\<rparr>, t)"
    unfolding h reset using start stop par key by (simp add: complain_def)
  then have "ps2_bits depth fuel [True] (?C, t) = ps2_key depth fuel (unat b) (kb\<lparr>old_ticks := ?now\<rparr>, t)"
    by (cases "ps2_key depth fuel (unat b) (kb\<lparr>old_ticks := ?now\<rparr>, t)") simp_all
  then show ?thesis unfolding D(1) ps2_bits_append c bind.bind_lunit .
qed

section \<open>Properties\<close>

definition idle_kb :: ps2 where
  "idle_kb = \<lparr>shift_state = False, alt_state = False, ctrl_state = False, keyup = False, escape = False, pause = 0,
     parity = 0, clock_bits = 0, message = 0, old_ticks = 0\<rparr>"

text \<open>
  C26: A frame as the keyboard sends it, a start bit, eight data bits with the lowest first, odd parity and a stop bit, is decoded to the byte it
  carries, whatever the timer shows, and the handler is ready for the next one.
\<close>

theorem frame_roundtrip:
  assumes "clock_bits kb = 0" and "message kb = 0" and "parity kb = 0"
  shows "ps2_bits depth fuel (frame b) (kb, t) = ps2_key depth fuel (unat b) (kb\<lparr>old_ticks := tick_counter (kernel t)\<rparr>, t)"
  using frame_received[of kb] assms by (simp add: between_def)

lemma frame_roundtrip_witness:
  "ps2_bits 0 1 [False, True, False, True, True, True, False, False, False, True, True] (idle_kb, demo_tty)
    = ps2_key 0 1 29 (idle_kb\<lparr>old_ticks := 5\<rparr>, demo_tty)"
proof -
  have f: "frame 29 = [False, True, False, True, True, True, False, False, False, True, True]" by code_simp
  show ?thesis using frame_roundtrip[of idle_kb 0 1 29 demo_tty] unfolding f
    by (simp add: idle_kb_def demo_tty_def demo_kern_def)
qed

definition key_char :: "ps2 \<Rightarrow> byte \<Rightarrow> int" where
  "key_char kb code = (if 97 \<le> code \<and> code \<le> 122
     then uint code - (if ctrl_state kb then 0x60 else 0) - (if shift_state kb then 0x20 else 0) else uint code)"

lemma sint_small: "- 128 \<le> k \<Longrightarrow> k < 256 \<Longrightarrow> sint (word_of_int k :: u32) = k"
  by (simp only: sint_uint uint_word_of_int_eq) (simp add: signed_take_bit_take_bit signed_take_bit_int_eq_self)

lemma key_char_word: "sint (let letter = 97 \<le> (ucast code :: u32) \<and> (ucast code :: u32) \<le> 122;
       ascii1 = (if letter \<and> ctrl_state kb then ucast code - 0x60 else (ucast code :: u32))
     in if letter \<and> shift_state kb then ascii1 - 0x20 else ascii1) = key_char kb code"
proof -
  define n where "n = uint code"
  have u: "0 \<le> n" "n < 256" unfolding n_def using uint_lt2p[of code] by simp_all
  have un: "uint (ucast code :: u32) = n" unfolding n_def by (simp add: uint_up_ucast is_up)
  have le: "(97 \<le> (ucast code :: u32)) = (97 \<le> n)" "((ucast code :: u32) \<le> 122) = (n \<le> 122)"
    "(97 \<le> code) = (97 \<le> n)" "(code \<le> 122) = (n \<le> 122)"
    unfolding word_le_def un by (simp_all add: n_def)
  have w: "(ucast code :: u32) = word_of_int n" using un by (metis word_of_int_uint)
  have "sint ((ucast code :: u32) - 0x60) = n - 0x60" "sint ((ucast code :: u32) - 0x20) = n - 0x20"
    "sint ((ucast code :: u32) - 0x60 - 0x20) = n - 0x60 - 0x20" "sint (ucast code :: u32) = n"
    using sint_small[of "n - 0x60"] sint_small[of "n - 0x20"] sint_small[of "n - 0x80"] sint_small[of n] u
    unfolding w by (simp_all add: wi_hom_sub[symmetric] of_int_diff)
  then show ?thesis unfolding key_char_def Let_def le n_def[symmetric] by auto
qed

lemma plain_code:
  assumes "c \<notin> {0xf0, 0xe0, 0xe1 :: byte}" "code \<notin> {0x8d, 0x8e, 0x8f :: byte}"
  shows "unat c \<noteq> 0xf0" "unat c \<noteq> 0xe0" "unat c \<noteq> 0xe1"
    "(ucast code :: u32) \<noteq> K_ALT" "(ucast code :: u32) \<noteq> K_CTRL" "(ucast code :: u32) \<noteq> K_SHFT"
proof -
  have e: "unat c = unat d \<longleftrightarrow> c = d" for d by (rule word_unat_eq_iff[symmetric])
  show "unat c \<noteq> 0xf0" "unat c \<noteq> 0xe0" "unat c \<noteq> 0xe1" using e[of "0xf0"] e[of "0xe0"] e[of "0xe1"] assms(1) by simp_all
  have u: "uint (ucast code :: u32) = uint code" by (simp add: uint_up_ucast is_up)
  have f: "(ucast code :: u32) = ucast d \<longleftrightarrow> code = d" for d :: byte
    unfolding word_uint_eq_iff[of "ucast code"] word_uint_eq_iff[of code] by (simp add: uint_up_ucast is_up)
  show "(ucast code :: u32) \<noteq> K_ALT" "(ucast code :: u32) \<noteq> K_CTRL" "(ucast code :: u32) \<noteq> K_SHFT"
    using f[of "0x8d"] f[of "0x8f"] f[of "0x8e"] assms(2) by simp_all
qed

lemma key_char_cong: "ctrl_state kb = ctrl_state kb' \<Longrightarrow> shift_state kb = shift_state kb' \<Longrightarrow> key_char kb = key_char kb'"
  by (rule ext) (simp add: key_char_def)

lemma key_pressed:
  assumes "\<not> keyup kb" "\<not> escape kb" "pause kb = 0" "c \<notin> {0xf0, 0xe0, 0xe1}"
    and "rd translate (unat (c :: byte)) = Some code" "code \<notin> {0x8d, 0x8e, 0x8f}"
  shows "ps2_key depth fuel (unat c) (kb, t) = Some (kb, t)"
  using assms(1-3,5) plain_code[OF assms(4,6)] by (cases kb) (simp add: ps2_key_def translate_key_def Let_def)

lemma key_released:
  assumes "keyup kb" "\<not> escape kb" "pause kb = 0" "c \<notin> {0xf0, 0xe0, 0xe1}"
    and "rd translate (unat (c :: byte)) = Some code" "code \<notin> {0x8d, 0x8e, 0x8f}"
  shows "ps2_key depth fuel (unat c) (kb, t) = do {
    (_, t1) \<leftarrow> console_insert_char depth fuel (key_char kb code) t; Some (kb\<lparr>keyup := False\<rparr>, t1) }"
  using assms(1-3,5) plain_code[OF assms(4,6)] key_char_word[of code kb, symmetric]
  by (cases "console_insert_char depth fuel (key_char kb code) t") (auto simp: ps2_key_def translate_key_def Let_def)

text \<open>
  Pressing and releasing a key inserts one character, when it is released: the letter, its capital with shift held, its control
  character with control held.  With both held the two shifts are added up, and what is inserted is a negative number.
\<close>

theorem keystroke:
  assumes "clock_bits kb = 0" and "message kb = 0" and "parity kb = 0" and "\<not> keyup kb" and "\<not> escape kb" and "pause kb = 0"
    and "c \<notin> {0xf0, 0xe0, 0xe1}" and "rd translate (unat (c :: byte)) = Some code" and "code \<notin> {0x8d, 0x8e, 0x8f}"
  shows "ps2_bits depth fuel (frame c @ frame 0xf0 @ frame c) (kb, t) = do {
    (_, t1) \<leftarrow> console_insert_char depth fuel (key_char kb code) t;
    Some (kb\<lparr>old_ticks := tick_counter (kernel t)\<rparr>, t1) }"
proof -
  let ?kb = "kb\<lparr>old_ticks := tick_counter (kernel t)\<rparr>"
  have b: "between kb'" if "kb' = kb \<or> kb' = ?kb \<or> kb' = ?kb\<lparr>keyup := True\<rparr>" for kb'
    using that assms(1-3) by (auto simp: between_def)
  have 1: "ps2_bits depth fuel (frame c) (kb, t) = Some (?kb, t)"
    unfolding frame_received[OF b[of kb, simplified]] using assms by (intro key_pressed) simp_all
  have 2: "ps2_bits depth fuel (frame 0xf0) (?kb, t) = Some (?kb\<lparr>keyup := True\<rparr>, t)"
    unfolding frame_received[OF b[of ?kb, simplified]] by (simp add: ps2_key_def)
  have 3: "ps2_bits depth fuel (frame c) (?kb\<lparr>keyup := True\<rparr>, t) = do {
      (_, t1) \<leftarrow> console_insert_char depth fuel (key_char kb code) t; Some (?kb, t1) }"
    unfolding frame_received[OF b[of "?kb\<lparr>keyup := True\<rparr>", simplified]]
    using key_released[of "?kb\<lparr>keyup := True\<rparr>" c code depth fuel t] assms
      key_char_cong[of "?kb\<lparr>keyup := True\<rparr>" kb] by (cases kb) simp
  show ?thesis unfolding ps2_bits_append 1 2 bind.bind_lunit by (rule 3)
qed

lemma keystroke_witness:
  "ps2_bits 0 1 (frame 0x1c @ frame 0xf0 @ frame 0x1c) (idle_kb\<lparr>shift_state := True, ctrl_state := True\<rparr>, demo_tty) = do {
    (_, t1) \<leftarrow> console_insert_char 0 1 (- 31) demo_tty;
    Some (idle_kb\<lparr>shift_state := True, ctrl_state := True, old_ticks := 5\<rparr>, t1) }"
proof -
  have c: "rd translate (unat (0x1c :: byte)) = Some 97" by (simp add: translate_def rd_def)
  have k: "key_char (idle_kb\<lparr>shift_state := True, ctrl_state := True\<rparr>) 97 = - 31" by (simp add: key_char_def)
  have "tick_counter (kernel demo_tty) = 5" by (simp add: demo_tty_def demo_kern_def)
  then show ?thesis using keystroke[of "idle_kb\<lparr>shift_state := True, ctrl_state := True\<rparr>" "0x1c" 97 0 1 demo_tty] c
    unfolding k by (simp add: idle_kb_def)
qed

end
