(* ===== verification/Timer.thy ===== *)
theory Timer
  imports Process_System
begin

text \<open>
  Time: the timer interrupt (\<open>drivers/timer/sp804_timer.c\<close>) with the queue of processes that sleep, the light it blinks
  (\<open>drivers/led/led.c\<close>), the clock (\<open>time/time.c\<close>) and \<open>nanosleep\<close> (\<open>syscalls/nanosleep.c\<close>).  The pin of the light is a part of the
  state; programming the timer and reserving the pin are not modelled.
\<close>

abbreviation (input) "TIMER_HZ \<equiv> 64 :: u32"

record clock =
  timer_next_wakeup :: u32
  blinking_enabled :: bool
  lit :: nat
  led_configured :: bool
  led_active_low :: bool
  led_pin :: bool

section \<open>The timer interrupt\<close>

definition act_led_on :: "clock \<Rightarrow> clock" where
  "act_led_on c = (if led_configured c then c\<lparr>led_pin := \<not> led_active_low c\<rparr> else c)"

definition act_led_off :: "clock \<Rightarrow> clock" where
  "act_led_off c = (if led_configured c then c\<lparr>led_pin := led_active_low c\<rparr> else c)"

definition blink :: "clock \<Rightarrow> clock" where
  "blink c =
     (if blinking_enabled c then
        let c1 = c\<lparr>lit := lit c + 1\<rparr>;
            c2 = (if lit c1 = 32 then act_led_off c1 else c1)
        in if lit c2 = 64 then (act_led_on c2)\<lparr>lit := 0\<rparr> else c2
      else c)"

definition timer_interrupt_handler :: "nat \<Rightarrow> clock \<times> kern \<Rightarrow> (clock \<times> kern) option" where
  "timer_interrupt_handler fuel = (\<lambda>(c, k). do {
     let k1 = k\<lparr>tick_counter := tick_counter k + 1\<rparr>;
     (c1, k2) \<leftarrow> (if timer_next_wakeup c \<noteq> 0 \<and> tick_counter k1 > timer_next_wakeup c then do {
                   (_, k2) \<leftarrow> wait_queue_wake fuel Timer_Queue k1;
                   Some (c\<lparr>timer_next_wakeup := 0\<rparr>, k2) }
                 else Some (c, k1));
     Some (blink c1, k2) })"

definition timer_sleep_until :: "nat \<Rightarrow> u32 \<Rightarrow> clock \<times> kern \<Rightarrow> (clock \<times> kern) option" where
  "timer_sleep_until fuel time = (\<lambda>(c, k). do {
     let c1 = (if timer_next_wakeup c = 0 then c\<lparr>timer_next_wakeup := time\<rparr>
               else if time < timer_next_wakeup c then c\<lparr>timer_next_wakeup := time\<rparr> else c);
     (_, k1) \<leftarrow> wait_queue_add fuel Timer_Queue (current k) k;
     Some (c1, k1) })"

section \<open>The clock\<close>

definition time_since_boot :: "kern \<Rightarrow> u32" where
  "time_since_boot k = tick_counter k div TIMER_HZ"

text \<open>Seconds and nanoseconds.\<close>

definition clock_gettime :: "kern \<Rightarrow> int \<times> (u32 \<times> u32)" where
  "clock_gettime k =
     (let counter = tick_counter k;
          seconds = counter div TIMER_HZ;
          remainder = counter - seconds * TIMER_HZ;
          us = (remainder * 1000000) div 64
      in (0, seconds, us * 1000))"

section \<open>nanosleep\<close>

definition nanosleep_end :: "u32 \<Rightarrow> u32 \<Rightarrow> kern \<Rightarrow> u32" where
  "nanosleep_end seconds ns k =
     (let ticks_to_sleep = ((ns div 1000000) * TIMER_HZ) div 1000 + seconds * 64
      in ticks_since_boot k + ticks_to_sleep)"

text \<open>
  One round of the loop: the call returns, or sleeps until a time.  A process that was woken goes on with the next round.
\<close>

datatype nap = Slept | Asleep u32

definition nanosleep_round :: "nat \<Rightarrow> u32 \<Rightarrow> clock \<times> kern \<Rightarrow> (nap \<times> clock \<times> kern) option" where
  "nanosleep_round fuel end_time = (\<lambda>(c, k).
     if ticks_since_boot k \<le> end_time then do { s \<leftarrow> timer_sleep_until fuel end_time (c, k); Some (Asleep end_time, s) }
     else Some (Slept, c, k))"

definition nanosleep :: "nat \<Rightarrow> u32 \<Rightarrow> u32 \<Rightarrow> clock \<times> kern \<Rightarrow> (nap \<times> clock \<times> kern) option" where
  "nanosleep fuel seconds ns = (\<lambda>(c, k). nanosleep_round fuel (nanosleep_end seconds ns k) (c, k))"

section \<open>Sequences of interrupts\<close>

fun timer_ticks :: "nat \<Rightarrow> nat \<Rightarrow> clock \<times> kern \<Rightarrow> (clock \<times> kern) option" where
  "timer_ticks fuel 0 s = Some s"
| "timer_ticks fuel (Suc n) s = do { s1 \<leftarrow> timer_interrupt_handler fuel s; timer_ticks fuel n s1 }"

lemma timer_ticks_snoc: "timer_ticks fuel (Suc n) s = do { s1 \<leftarrow> timer_ticks fuel n s; timer_interrupt_handler fuel s1 }"
proof (induction n arbitrary: s)
  case (Suc n)
  have "timer_ticks fuel (Suc (Suc n)) s = do { s1 \<leftarrow> timer_interrupt_handler fuel s; s2 \<leftarrow> timer_ticks fuel n s1; timer_interrupt_handler fuel s2 }"
    by (subst timer_ticks.simps(2)) (rule Option.bind_cong[OF refl Suc.IH])
  then show ?case by simp
next
  case 0
  show ?case by (cases "timer_interrupt_handler fuel s") simp_all
qed

definition later :: "nat \<Rightarrow> kern \<Rightarrow> kern" where
  "later n k = k\<lparr>tick_counter := tick_counter k + of_nat n\<rparr>"

lemma blink_wakeup [simp]: "timer_next_wakeup (blink c) = timer_next_wakeup c"
  by (simp add: blink_def Let_def act_led_on_def act_led_off_def)

lemma later_simps [simp]:
  "procs (later n k) = procs k" "wait_first (later n k) = wait_first k" "current (later n k) = current k"
  "tick_counter (later n k) = tick_counter k + of_nat n" "waiting (later n k) q W = waiting k q W"
  by (simp_all add: later_def waiting_def)

lemma later_later: "(later n k)\<lparr>tick_counter := tick_counter (later n k) + 1\<rparr> = later (Suc n) k"
  by (simp add: later_def add.assoc add.commute)

text \<open>Nothing but the counter and the light changes before the time.\<close>

lemma ticks_before:
  assumes "timer_next_wakeup c \<noteq> 0 \<Longrightarrow> unat (tick_counter k) + n \<le> unat (timer_next_wakeup c)"
  shows "timer_ticks fuel n (c, k) = Some ((blink ^^ n) c, later n k) \<and> timer_next_wakeup ((blink ^^ n) c) = timer_next_wakeup c"
  using assms
proof (induction n)
  case 0
  then show ?case by (simp add: later_def)
next
  case (Suc n)
  have IH: "timer_ticks fuel n (c, k) = Some ((blink ^^ n) c, later n k)" "timer_next_wakeup ((blink ^^ n) c) = timer_next_wakeup c"
    using Suc.IH Suc.prems by linarith+
  have "\<not> (timer_next_wakeup c \<noteq> 0 \<and> tick_counter (later (Suc n) k) > timer_next_wakeup c)"
  proof (cases "timer_next_wakeup c = 0")
    case False
    have "unat (tick_counter k) + Suc n < 2 ^ 32" using Suc.prems[OF False] unat32_lt[of "timer_next_wakeup c"] by simp
    then have "unat (tick_counter k + of_nat (Suc n)) = unat (tick_counter k) + Suc n"
      by (simp only: unat_word_ariths unat_of_nat) simp
    then show ?thesis using Suc.prems[OF False] by (simp add: word_less_nat_alt)
  qed simp
  then have "timer_interrupt_handler fuel ((blink ^^ n) c, later n k) = Some ((blink ^^ Suc n) c, later (Suc n) k)"
    using IH(2) by (simp only: timer_interrupt_handler_def later_later Let_def prod.case) auto
  then show ?case using IH by (simp add: timer_ticks_snoc del: timer_ticks.simps)
qed

text \<open>At the first tick after the time everybody is woken.\<close>

lemma tick_wakes:
  assumes "waiting k Timer_Queue W" "length W < fuel" "timer_next_wakeup c \<noteq> 0"
    and "tick_counter k = timer_next_wakeup c" "timer_next_wakeup c \<noteq> 0xffffffff"
  shows "timer_interrupt_handler fuel (c, k) =
    Some (blink (c\<lparr>timer_next_wakeup := 0\<rparr>), (woken W (later 1 k))\<lparr>wait_first := (wait_first k)(Timer_Queue := None)\<rparr>)"
proof -
  have "timer_next_wakeup c < timer_next_wakeup c + 1"
  proof -
    have "unat (timer_next_wakeup c) \<noteq> 0xffffffff" using assms(5) word_unat_eq_iff[of "timer_next_wakeup c" "0xffffffff"] by simp
    then have "unat (timer_next_wakeup c) + 1 < 2 ^ 32" using unat32_lt[of "timer_next_wakeup c"] by simp
    then show ?thesis unfolding word_less_nat_alt by (simp only: unat_word_ariths) simp
  qed
  moreover have "k\<lparr>tick_counter := tick_counter k + 1\<rparr> = later 1 k" by (simp add: later_def)
  moreover have "wait_queue_wake fuel Timer_Queue (later 1 k) =
      Some (0, (woken W (later 1 k))\<lparr>wait_first := (wait_first k)(Timer_Queue := None)\<rparr>)"
    using wait_queue_wake_eq[of "later 1 k" Timer_Queue W fuel] assms(1,2) by simp
  ultimately show ?thesis using assms(3,4) by (simp add: timer_interrupt_handler_def)
qed

text \<open>Sleeping takes no time.\<close>

lemma upd_ticks: "upd i f k = Some k' \<Longrightarrow> tick_counter k' = tick_counter k"
  by (auto simp: upd_def split: bind_splits)

lemma schedule_ticks: "schedule fuel k = Some k' \<Longrightarrow> tick_counter k' = tick_counter k"
  by (auto simp: schedule_def Let_def dest!: upd_ticks split: bind_splits if_splits)

lemma wait_queue_add_ticks: "wait_queue_add fuel q i k = Some (r, k') \<Longrightarrow> tick_counter k' = tick_counter k"
  by (auto simp: wait_queue_add_def dest!: upd_ticks schedule_ticks split: bind_splits option.splits)

lemma wait_queue_add_procs: "wait_queue_add fuel q i k = Some (r, k') \<Longrightarrow> length (procs k') = length (procs k)"
  by (auto simp: wait_queue_add_def upd_def schedule_def Let_def split: bind_splits option.splits if_splits)

lemma minus_one_u32: "(- 1 :: u32) = 0xffffffff"
  by simp

text \<open>All that ticks do to the sleepers.\<close>

lemma ticks_wake:
  assumes "waiting k Timer_Queue W" and "length W < fuel" and "timer_next_wakeup c \<noteq> 0" and "timer_next_wakeup c \<noteq> 0xffffffff"
    and "tick_counter k \<le> timer_next_wakeup c" and "n = unat (timer_next_wakeup c) - unat (tick_counter k)"
  shows "(\<forall>m \<le> n. \<exists>c'. timer_ticks fuel m (c, k) = Some (c', k\<lparr>tick_counter := tick_counter k + of_nat m\<rparr>))
    \<and> (\<exists>c' k'. timer_ticks fuel (Suc n) (c, k) = Some (c', k') \<and> tick_counter k' = timer_next_wakeup c + 1
        \<and> (\<forall>i \<in> set W. ready k' i) \<and> wait_first k' Timer_Queue = None \<and> timer_next_wakeup c' = 0)"
proof
  let ?w = "timer_next_wakeup c"
  have le: "unat (tick_counter k) \<le> unat ?w" using assms(5) by (simp add: word_le_nat_alt)
  show "\<forall>m \<le> n. \<exists>c'. timer_ticks fuel m (c, k) = Some (c', k\<lparr>tick_counter := tick_counter k + of_nat m\<rparr>)"
    using ticks_before[of c k _ fuel] le assms(6) by (auto simp: later_def)
  have "tick_counter k + of_nat n = ?w"
  proof -
    have "of_nat n = (?w - tick_counter k :: u32)" unfolding assms(6) using le by (simp add: of_nat_diff)
    then show ?thesis by simp
  qed
  moreover have b: "timer_ticks fuel n (c, k) = Some ((blink ^^ n) c, later n k)" "timer_next_wakeup ((blink ^^ n) c) = ?w"
    using ticks_before[of c k n fuel] le assms(6) by auto
  ultimately have "timer_ticks fuel (Suc n) (c, k) = Some (blink (((blink ^^ n) c)\<lparr>timer_next_wakeup := 0\<rparr>),
      (woken W (later 1 (later n k)))\<lparr>wait_first := (wait_first k)(Timer_Queue := None)\<rparr>)"
    using tick_wakes[of "later n k" W fuel "(blink ^^ n) c"] assms(1-4) by (simp add: timer_ticks_snoc del: timer_ticks.simps)
  moreover have "tick_counter (woken W (later 1 (later n k))) = ?w + 1"
    using \<open>tick_counter k + of_nat n = ?w\<close> by (simp add: woken_def)
  moreover have "ready (woken W (later 1 (later n k))) i" if "i \<in> set W" for i
    using that assms(1) by (auto simp: ready_def woken_nth waiting_def)
  ultimately show "\<exists>c' k'. timer_ticks fuel (Suc n) (c, k) = Some (c', k') \<and> tick_counter k' = ?w + 1
        \<and> (\<forall>i \<in> set W. ready k' i) \<and> wait_first k' Timer_Queue = None \<and> timer_next_wakeup c' = 0"
    by (auto simp: ready_def)
qed

section \<open>Properties\<close>


text \<open>The kernel of the instance with a sleeper: process 1 sleeps until tick 7.\<close>

definition demo_clock :: clock where
  "demo_clock = \<lparr>timer_next_wakeup = 0, blinking_enabled = True, lit = 0, led_configured = True, led_active_low = True, led_pin = False\<rparr>"

definition demo_sleeper :: kern where
  "demo_sleeper = demo_kern\<lparr>procs := (procs demo_kern)[1 := (procs demo_kern ! 1)\<lparr>p_status := Sleeping\<rparr>],
     wait_first := (\<lambda>_. None)(Timer_Queue := Some 1), current := 0\<rparr>"


lemma sleep_until_min:
  assumes "end_time \<noteq> 0" "timer_next_wakeup c \<noteq> 0 \<Longrightarrow> now \<le> timer_next_wakeup c" "now \<le> end_time"
    and "w = (if timer_next_wakeup c = 0 then end_time else min end_time (timer_next_wakeup c))"
  shows "w \<noteq> 0" "w \<le> end_time" "now \<le> w"
  using assms by (auto simp: min_def)

text \<open>
  C21: A process that calls \<open>nanosleep\<close> sleeps in the queue of the timer, the system stays in order, and the process is ready again at the
  latest at the first tick behind its time, whoever else sleeps; when it then runs after its time, the call returns.
\<close>

theorem nanosleep_wakes:
  assumes "system k idle T Wf" and "ready k (current k)" and "current k \<noteq> idle" and "length (procs k) < fuel"
    and "end_time = nanosleep_end seconds ns k" and "tick_counter k \<le> end_time" and "end_time \<noteq> 0" and "end_time \<noteq> 0xffffffff"
    and "timer_next_wakeup c \<noteq> 0 \<Longrightarrow> tick_counter k \<le> timer_next_wakeup c"
  shows "\<exists>c' k'. nanosleep fuel seconds ns (c, k) = Some (Asleep end_time, c', k') \<and> sys_ok fuel k' \<and> \<not> ready k' (current k)
    \<and> (\<exists>n c2 k2. n \<le> unat end_time - unat (tick_counter k) + 1 \<and> timer_ticks fuel n (c', k') = Some (c2, k2) \<and> ready k2 (current k))
    \<and> (\<forall>c2 k2. end_time < tick_counter k2 \<longrightarrow> nanosleep_round fuel end_time (c2, k2) = Some (Slept, c2, k2))"
proof -
  note d = systemD[OF assms(1)]
  let ?w = "if timer_next_wakeup c = 0 then end_time else min end_time (timer_next_wakeup c)"
  obtain k' where k': "wait_queue_add fuel Timer_Queue (current k) k = Some (0, k')"
    "system k' idle T (Wf(Timer_Queue := Wf Timer_Queue @ [current k]))" "sys_ok fuel k'" "p_status (procs k' ! current k) = Sleeping"
    using sleep_system[OF assms(1-4), of Timer_Queue] by blast
  have now: "tick_counter k' = tick_counter k" by (rule wait_queue_add_ticks[OF k'(1)])
  let ?c = "c\<lparr>timer_next_wakeup := ?w\<rparr>"
  have s: "nanosleep fuel seconds ns (c, k) = Some (Asleep end_time, ?c, k')"
    using assms(5,6) k'(1)
    by (cases c) (auto simp: nanosleep_def nanosleep_round_def timer_sleep_until_def ticks_since_boot_def min_def)
  note w = sleep_until_min[OF assms(7,9,6) refl[of ?w]]
  have m: "?w \<noteq> 0xffffffff"
  proof
    assume "?w = 0xffffffff"
    then have "(0xffffffff :: u32) \<le> end_time" using w(2) by simp
    moreover have "end_time \<le> 0xffffffff" using word_n1_ge[of end_time] by (simp only: minus_one_u32)
    ultimately show False using assms(8) by simp
  qed
  let ?n = "Suc (unat ?w - unat (tick_counter k))"
  have W: "waiting k' Timer_Queue (Wf Timer_Queue @ [current k])" using queuesD(1)[OF systemD(5)[OF k'(2)], of Timer_Queue] by simp
  have "length (Wf Timer_Queue @ [current k]) < fuel"
    using waiting_bound[OF W] wait_queue_add_procs[OF k'(1)] assms(4) by simp
  then have "\<exists>c2 k2. timer_ticks fuel ?n (?c, k') = Some (c2, k2) \<and> ready k2 (current k)"
    using ticks_wake[OF W, of fuel ?c "unat ?w - unat (tick_counter k)"] w(1,3) m now by (auto simp del: timer_ticks.simps)
  moreover have "?n \<le> unat end_time - unat (tick_counter k) + 1" using w(2) by (simp add: word_le_nat_alt)
  moreover have "\<not> ready k' (current k)" using k'(4) by (simp add: ready_def)
  moreover have "nanosleep_round fuel end_time (c2, k2) = Some (Slept, c2, k2)" if "end_time < tick_counter k2" for c2 k2
    using that by (auto simp: nanosleep_round_def ticks_since_boot_def)
  ultimately show ?thesis using s k'(3) by blast
qed

lemma nanosleep_wakes_witness:
  "\<exists>c' k'. nanosleep 5 0 500000000 (demo_clock, demo_kern) = Some (Asleep 37, c', k') \<and> sys_ok 5 k' \<and> \<not> ready k' 1"
proof -
  have t: "tick_counter demo_kern = 5" by (simp add: demo_kern_def)
  have e: "nanosleep_end 0 500000000 demo_kern = 37" by (simp add: nanosleep_end_def ticks_since_boot_def t)
  show ?thesis using nanosleep_wakes[OF demo_system, of 5 37 0 500000000 demo_clock] by (auto simp: demo_current t e demo_clock_def)
qed

lemma blink_light:
  assumes "blinking_enabled c" "led_configured c" "lit c < 64" "led_pin c \<noteq> led_active_low c \<longleftrightarrow> lit c < 32"
  shows "blinking_enabled (blink c)" "led_configured (blink c)" "lit (blink c) = Suc (lit c) mod 64"
    "led_pin (blink c) \<noteq> led_active_low (blink c) \<longleftrightarrow> lit (blink c) < 32"
  using assms by (auto simp: blink_def Let_def act_led_on_def act_led_off_def mod_if)

text \<open>
  While blinking is enabled the light changes every 32 ticks: it shines in the first half of each second of 64 ticks and is dark in the second, for
  either polarity of the pin, whatever else the timer does.
\<close>

theorem heartbeat:
  assumes "timer_ticks fuel n (c, k) = Some (c', k')" and "blinking_enabled c" and "led_configured c" and "lit c < 64"
    and "led_pin c \<noteq> led_active_low c \<longleftrightarrow> lit c < 32"
  shows "lit c' = (lit c + n) mod 64 \<and> (led_pin c' \<noteq> led_active_low c' \<longleftrightarrow> (lit c + n) mod 64 < 32)"
proof -
  have "blinking_enabled c' \<and> led_configured c' \<and> lit c' = (lit c + n) mod 64 \<and> (led_pin c' \<noteq> led_active_low c' \<longleftrightarrow> lit c' < 32)"
    using assms
  proof (induction n arbitrary: c k)
    case (Suc n)
    then obtain c1 k1 where 1: "timer_interrupt_handler fuel (c, k) = Some (c1, k1)" "timer_ticks fuel n (c1, k1) = Some (c', k')"
      by (auto split: bind_splits)
    then obtain c2 where c2: "c1 = blink c2" "c2 = c \<or> c2 = c\<lparr>timer_next_wakeup := 0\<rparr>"
      by (auto simp: timer_interrupt_handler_def Let_def split: bind_splits if_splits)
    then have p: "blinking_enabled c2" "led_configured c2" "lit c2 = lit c" "lit c2 < 64" "led_pin c2 \<noteq> led_active_low c2 \<longleftrightarrow> lit c2 < 32"
      using Suc.prems(2-5) by auto
    note b = blink_light[OF p(1,2,4,5)]
    show ?case using Suc.IH[OF 1(2)] b p(3) unfolding c2(1) by (simp add: mod_simps)
  qed simp
  then show ?thesis by simp
qed

lemma heartbeat_witness: "\<exists>c' k'. timer_ticks 5 40 (demo_clock, demo_kern) = Some (c', k') \<and> lit c' = 40 \<and> led_pin c' = led_active_low c'"
proof -
  have "timer_ticks 5 40 (demo_clock, demo_kern) = Some ((blink ^^ 40) demo_clock, later 40 demo_kern)"
    using ticks_before[of demo_clock demo_kern 40 5] by (simp add: demo_clock_def)
  then show ?thesis using heartbeat[of 5 40 demo_clock demo_kern] by (auto simp: demo_clock_def)
qed

text \<open>
  The clock shows the ticks since the start as seconds and as nanoseconds below a second, exactly and without overflow on the way.
\<close>

theorem clock_gettime_exact:
  "fst (clock_gettime k) = 0 \<and> unat (fst (snd (clock_gettime k))) = unat (tick_counter k) div 64
    \<and> unat (snd (snd (clock_gettime k))) = (unat (tick_counter k) mod 64) * 15625000
    \<and> (unat (tick_counter k) mod 64) * 15625000 < 10 ^ 9"
proof -
  define t where "t = unat (tick_counter k)"
  have tk: "tick_counter k = of_nat t" "t < 4294967296" unfolding t_def using unat32_lt[of "tick_counter k"] by simp_all
  have small: "unat (of_nat m :: u32) = m" if "m < 4294967296" for m using that by (simp add: unat_of_nat)
  have q: "(of_nat t :: u32) div 64 = of_nat (t div 64)"
    using tk(2) small[of t] small[of "t div 64"] by (simp add: word_unat_eq_iff unat_div)
  have "(of_nat t :: u32) = of_nat (t div 64) * 64 + of_nat (t mod 64)"
    by (metis div_mult_mod_eq of_nat_add of_nat_mult of_nat_numeral)
  then have r: "(of_nat t :: u32) - of_nat (t div 64) * 64 = of_nat (t mod 64)" by simp
  have b: "t mod 64 < 64" by simp
  have "(of_nat (t mod 64) * 1000000 :: u32) = of_nat (t mod 64 * 1000000)" by simp
  moreover have "unat (of_nat (t mod 64 * 1000000) :: u32) = t mod 64 * 1000000" by (rule small) (use b in simp)
  ultimately have u: "unat (of_nat (t mod 64) * 1000000 div 64 :: u32) = t mod 64 * 15625" by (simp add: unat_div)
  have "of_nat (t mod 64) * 1000000 div 64 * 1000 = (of_nat (t mod 64 * 15625000) :: u32)"
  proof -
    have "of_nat (t mod 64) * 1000000 div 64 = (of_nat (unat (of_nat (t mod 64) * 1000000 div 64 :: u32)) :: u32)"
      by (simp only: of_nat_unat ucast_id)
    then have "of_nat (t mod 64) * 1000000 div 64 = (of_nat (t mod 64 * 15625) :: u32)" unfolding u .
    then show ?thesis by simp
  qed
  moreover have "unat (of_nat (t mod 64 * 15625000) :: u32) = t mod 64 * 15625000" by (rule small) (use b in simp)
  ultimately have ns: "unat (of_nat (t mod 64) * 1000000 div 64 * 1000 :: u32) = t mod 64 * 15625000" by (simp only:)
  have c: "clock_gettime k = (0, of_nat (t div 64), of_nat (t mod 64) * 1000000 div 64 * 1000)"
    unfolding clock_gettime_def Let_def tk(1) q r ..
  have "unat (of_nat (t div 64) :: u32) = t div 64" by (rule small) (use tk(2) in simp)
  then show ?thesis unfolding c fst_conv snd_conv ns t_def[symmetric] using b by simp
qed

end
