(* ===== verification/Loader.thy ===== *)
theory Loader
  imports Process
begin

text \<open>
  Loading a program: the loader of bFLT executables with its relocation (\<open>processes/bflt_loader.c\<close>) and the part of \<open>execve\<close>
  (\<open>processes/exec.c\<close>) that lays out the arguments on the new stack.  Both work on the contents of RAM; an access that leaves the 32-bit
  address space is undefined.  What a short read leaves unset in a buffer on the stack is undefined, too.
\<close>

section \<open>Access to RAM\<close>

definition ram_get :: "nat \<Rightarrow> nat \<Rightarrow> mem_state \<Rightarrow> bytes option" where
  "ram_get a n m = (if a + n \<le> 2 ^ 32 then Some (map (\<lambda>i. ram m (a + i)) [0..<n]) else None)"

definition ram_put :: "nat \<Rightarrow> bytes \<Rightarrow> mem_state \<Rightarrow> mem_state option" where
  "ram_put a bs m =
     (if a + length bs \<le> 2 ^ 32 then Some (m\<lparr>ram := (\<lambda>x. if a \<le> x \<and> x < a + length bs then bs ! (x - a) else ram m x)\<rparr>)
      else None)"

definition word_bytes :: "u32 \<Rightarrow> bytes" where
  "word_bytes w = [ucast w, ucast (drop_bit 8 w), ucast (drop_bit 16 w), ucast (drop_bit 24 w)]"

definition ram_word :: "nat \<Rightarrow> mem_state \<Rightarrow> u32 option" where
  "ram_word a m = do { bs \<leftarrow> ram_get a 4 m; Some (le32 bs) }"

definition ram_strlen :: "nat \<Rightarrow> nat \<Rightarrow> mem_state \<Rightarrow> nat option" where
  "ram_strlen fuel a m = c_loop fuel (\<lambda>i. do { bs \<leftarrow> ram_get (a + i) 1 m; Some (if bs ! 0 = 0 then Inr i else Inl (i + 1)) }) 0"

section \<open>bFLT executables\<close>

record bflt =
  stack_size :: u32
  text_start :: u32
  data_start :: u32
  bss_start :: u32
  bss_end :: u32
  total_ondisk_size :: u32
  total_program_size :: u32

abbreviation (input) "BFLT_ENTRY \<equiv> 0x08 :: nat"
abbreviation (input) "BFLT_DATA_START \<equiv> 0x0c :: nat"
abbreviation (input) "BFLT_BSS_START \<equiv> 0x10 :: nat"
abbreviation (input) "BFLT_BSS_END \<equiv> 0x14 :: nat"
abbreviation (input) "BFLT_STACK_SIZE \<equiv> 0x18 :: nat"
abbreviation (input) "BFLT_RELOC_START \<equiv> 0x1c :: nat"
abbreviation (input) "BFLT_RELOC_COUNT \<equiv> 0x20 :: nat"

definition bflt_word :: "bytes \<Rightarrow> nat \<Rightarrow> u32 option" where
  "bflt_word header off = do { bs \<leftarrow> slice header off 4; Some (ntohl (le32 bs)) }"

definition bflt_load :: "nat \<Rightarrow> file_operations \<Rightarrow> inode \<Rightarrow> fs_state \<Rightarrow> (int + bflt) option" where
  "bflt_load fuel ops ino fs = do {
     (r, header, _) \<leftarrow> file_read fuel ops ino 64 0 fs;
     if r < 0 then Some (Inl r)
     else do {
       sz \<leftarrow> bflt_word header BFLT_STACK_SIZE;
       ts \<leftarrow> bflt_word header BFLT_ENTRY;
       ds \<leftarrow> bflt_word header BFLT_DATA_START;
       bs \<leftarrow> bflt_word header BFLT_BSS_START;
       be \<leftarrow> bflt_word header BFLT_BSS_END;
       Some (Inr \<lparr>stack_size = sz, text_start = ts, data_start = ds, bss_start = bs, bss_end = be,
                  total_ondisk_size = bs - ts, total_program_size = be - ts\<rparr>) } }"

text \<open>
  One relocation: \<open>old\<close> holds the four bytes of \<open>reloc_addr\<close>, of which the read sets as many as it delivers.
\<close>

definition reloc_step :: "nat \<Rightarrow> file_operations \<Rightarrow> inode \<Rightarrow> fs_state \<Rightarrow> u32 \<Rightarrow> u32 \<Rightarrow> u32 \<Rightarrow>
    u32 \<times> bytes \<times> mem_state \<Rightarrow> ((u32 \<times> bytes \<times> mem_state) + (int \<times> mem_state)) option" where
  "reloc_step fuel ops ino fs base reloc_start reloc_count = (\<lambda>(i, old, m).
     if \<not> i < reloc_count then Some (Inr (0, m))
     else do {
       (r, out, _) \<leftarrow> file_read fuel ops ino 4 (ucast (reloc_start + i * 4)) fs;
       if r < 0 then Some (Inr (- 1, m))
       else do {
         bs \<leftarrow> slice (out @ drop (length out) old) 0 4;
         let reloc_addr = ntohl (le32 bs);
         let a = unat (base + reloc_addr);
         old_val \<leftarrow> ram_word a m;
         m1 \<leftarrow> ram_put a (word_bytes (old_val + base)) m;
         Some (Inl (i + 1, word_bytes reloc_addr, m1)) } })"

definition bflt_reloc :: "nat \<Rightarrow> file_operations \<Rightarrow> inode \<Rightarrow> fs_state \<Rightarrow> u32 \<Rightarrow> mem_state \<Rightarrow> (int \<times> mem_state) option" where
  "bflt_reloc fuel ops ino fs base m = do {
     (r, header, _) \<leftarrow> file_read fuel ops ino 64 0 fs;
     if r < 0 then Some (r, m)
     else do {
       reloc_count \<leftarrow> bflt_word header BFLT_RELOC_COUNT;
       if reloc_count = 0 then Some (0, m)
       else do {
         reloc_start \<leftarrow> bflt_word header BFLT_RELOC_START;
         c_loop fuel (reloc_step fuel ops ino fs base reloc_start reloc_count) (0, [], m) } } }"

section \<open>The arguments of a program\<close>

text \<open>\<open>argc\<close>: the number of pointers before the null pointer.\<close>

definition count_args :: "nat \<Rightarrow> nat \<Rightarrow> mem_state \<Rightarrow> nat option" where
  "count_args fuel argv m =
     c_loop fuel (\<lambda>i. do { w \<leftarrow> ram_word (argv + 4 * i) m; Some (if w = 0 then Inr i else Inl (i + 1)) }) 0"

text \<open>
  The room for the arguments.  The length of the last string is taken of \<open>argv[argc]\<close>, the null pointer, so that it is the length of
  whatever is found at address 0.
\<close>

definition argv_length :: "nat \<Rightarrow> nat \<Rightarrow> nat \<Rightarrow> mem_state \<Rightarrow> int option" where
  "argv_length fuel argv argc m = do {
     last_arg \<leftarrow> ram_word (to_u32 (int argv + 4 * (int argc - 1))) m;
     first_arg \<leftarrow> ram_word argv m;
     end_arg \<leftarrow> ram_word (argv + 4 * argc) m;
     n \<leftarrow> ram_strlen fuel (unat end_arg) m;
     let len = to_i32 (4 * (int argc + 1) + to_i32 (uint last_arg - uint first_arg) + int n + 1);
     Some ((c_div len 8 + 1) * 8) }"

text \<open>Argument \<open>i\<close>: its pointer, the copy, and the place of the next one.\<close>

definition copy_arg :: "nat \<Rightarrow> nat \<Rightarrow> nat \<Rightarrow> nat \<Rightarrow> nat \<times> mem_state \<Rightarrow> (nat \<times> mem_state) option" where
  "copy_arg fuel argv loc i = (\<lambda>(ptr, m). do {
     m1 \<leftarrow> ram_put (loc + 4 * i) (word_bytes (of_nat ptr)) m;
     s \<leftarrow> ram_word (argv + 4 * i) m1;
     n \<leftarrow> ram_strlen fuel (unat s) m1;
     str \<leftarrow> ram_get (unat s) n m1;
     m2 \<leftarrow> ram_put ptr (str @ [0]) m1;
     s2 \<leftarrow> ram_word (argv + 4 * i) m2;
     n2 \<leftarrow> ram_strlen fuel (unat s2) m2;
     Some (ptr + n2 + 1, m2) })"

text \<open>The result: \<open>argc\<close> and \<open>argv_location\<close>.\<close>

definition exec_args :: "nat \<Rightarrow> nat \<Rightarrow> nat \<Rightarrow> mem_state \<Rightarrow> (nat \<times> nat \<times> mem_state) option" where
  "exec_args fuel argv stack_end m =
     (if argv = 0 then Some (0, stack_end, m)
      else do {
        argc \<leftarrow> count_args fuel argv m;
        len \<leftarrow> argv_length fuel argv argc m;
        let loc = to_u32 (int stack_end - len);
        let ptr = loc + 4 * (argc + 2);
        m1 \<leftarrow> ram_put ptr [0] m;
        (_, m2) \<leftarrow> c_for argc 0 (copy_arg fuel argv loc) (ptr, m1);
        Some (argc, loc, m2) })"

section \<open>What RAM holds\<close>

lemma ram_put_eq: "a + length bs \<le> 2 ^ 32 \<Longrightarrow> \<exists>m'. ram_put a bs m = Some m' \<and> m' = m\<lparr>ram := ram m'\<rparr>
    \<and> (\<forall>x. ram m' x = (if a \<le> x \<and> x < a + length bs then bs ! (x - a) else ram m x))"
  by (simp add: ram_put_def)

lemma ram_get_cong: "(\<And>x. a \<le> x \<Longrightarrow> x < a + n \<Longrightarrow> ram m' x = ram m x) \<Longrightarrow> ram_get a n m' = ram_get a n m"
  by (simp add: ram_get_def)

lemma ram_word_cong: "(\<And>x. a \<le> x \<Longrightarrow> x < a + 4 \<Longrightarrow> ram m' x = ram m x) \<Longrightarrow> ram_word a m' = ram_word a m"
  using ram_get_cong[of a 4 m' m] by (simp add: ram_word_def)

lemma ram_get_put: "ram_put a bs m = Some m' \<Longrightarrow> ram_get a (length bs) m' = Some bs"
  by (auto simp: ram_put_def ram_get_def intro!: nth_equalityI split: if_splits)

lemma length_word_bytes [simp]: "length (word_bytes w) = 4"
  by (simp add: word_bytes_def)

lemma le32_word_bytes [simp]: "le32 (word_bytes w) = w"
proof (rule bit_word_eqI)
  fix n assume n: "n < LENGTH(32)"
  have "n < 8 \<or> 8 \<le> n \<and> n < 16 \<or> 16 \<le> n \<and> n < 24 \<or> 24 \<le> n" by auto
  then show "bit (le32 (word_bytes w)) n = bit w n"
    using n by (auto simp: le32_def word_bytes_def bit_simps)
qed

text \<open>A word in network order: \<open>temp_int=htonl(w); memcpy(buffer,&temp_int,4)\<close>.\<close>

definition htonl_bytes :: "u32 \<Rightarrow> bytes" where
  "htonl_bytes w = word_bytes (ntohl w)"

lemma length_htonl_bytes [simp]: "length (htonl_bytes w) = 4"
  by (simp add: htonl_bytes_def)

lemma ntohl_bit:
  assumes "n < 8"
  shows "bit (ntohl w) n = bit w (n + 24)" "bit (ntohl w) (n + 8) = bit w (n + 16)"
    "bit (ntohl w) (n + 16) = bit w (n + 8)" "bit (ntohl w) (n + 24) = bit w n"
proof -
  have m: "(0xFF000000 :: u32) = push_bit 24 (mask 8)" "(0x00FF0000 :: u32) = push_bit 16 (mask 8)"
    "(0x0000FF00 :: u32) = push_bit 8 (mask 8)" "(0x000000FF :: u32) = mask 8" by (simp_all add: mask_eq_exp_minus_1)
  show "bit (ntohl w) n = bit w (n + 24)" "bit (ntohl w) (n + 8) = bit w (n + 16)"
    "bit (ntohl w) (n + 16) = bit w (n + 8)" "bit (ntohl w) (n + 24) = bit w n"
    unfolding ntohl_def m using assms by (simp_all add: bit_simps add.commute)
qed

lemma ntohl_ntohl [simp]: "ntohl (ntohl w) = w"
proof (rule bit_word_eqI)
  fix n assume "n < LENGTH(32)"
  then have "n < 32" by simp
  then have "n = n mod 8 \<or> n = n mod 8 + 8 \<or> n = n mod 8 + 16 \<or> n = n mod 8 + 24" by presburger
  then obtain k where k: "k < 8" "n = k \<or> n = k + 8 \<or> n = k + 16 \<or> n = k + 24" using that[of "n mod 8"] by simp
  show "bit (ntohl (ntohl w)) n = bit w n" using k(2) by (elim disjE) (simp_all only: ntohl_bit[OF k(1)])
qed

lemma htonl_read [simp]: "ntohl (le32 (htonl_bytes w)) = w"
  by (simp add: htonl_bytes_def)

lemma ram_word_put: "ram_put a (word_bytes w) m = Some m' \<Longrightarrow> ram_word a m' = Some w"
  using ram_get_put[of a "word_bytes w" m m'] by (simp add: ram_word_def)

definition str_in :: "nat \<Rightarrow> bytes \<Rightarrow> mem_state \<Rightarrow> bool" where
  "str_in a s m \<longleftrightarrow> 0 \<notin> set s \<and> ram_get a (Suc (length s)) m = Some (s @ [0])"

lemma str_in_nth:
  assumes "str_in a s m"
  shows "a + length s < 2 ^ 32" "i < length s \<Longrightarrow> ram m (a + i) = s ! i" "i < length s \<Longrightarrow> ram m (a + i) \<noteq> 0" "ram m (a + length s) = 0"
proof -
  have g: "a + length s < 2 ^ 32" "map (\<lambda>i. ram m (a + i)) [0..<Suc (length s)] = s @ [0]"
    using assms by (auto simp: str_in_def ram_get_def split: if_splits)
  have n: "ram m (a + i) = (s @ [0]) ! i" if "i < Suc (length s)" for i
  proof -
    have "ram m (a + i) = map (\<lambda>i. ram m (a + i)) [0..<Suc (length s)] ! i" using that by (simp del: upt_Suc)
    then show ?thesis unfolding g(2) .
  qed
  show "a + length s < 2 ^ 32" by (rule g(1))
  show e: "i < length s \<Longrightarrow> ram m (a + i) = s ! i" using n[of i] by (simp add: nth_append)
  show "i < length s \<Longrightarrow> ram m (a + i) \<noteq> 0" using e assms nth_mem[of i s] unfolding str_in_def by metis
  show "ram m (a + length s) = 0" using n[of "length s"] by simp
qed

lemma str_in_get: "str_in a s m \<Longrightarrow> ram_get a (length s) m = Some s"
  using str_in_nth[of a s m] by (auto simp: ram_get_def intro!: nth_equalityI)

lemma str_in_cong:
  "str_in a s m \<Longrightarrow> (\<And>x. a \<le> x \<Longrightarrow> x \<le> a + length s \<Longrightarrow> ram m' x = ram m x) \<Longrightarrow> str_in a s m'"
  using ram_get_cong[of a "Suc (length s)" m' m] by (simp add: str_in_def)

lemma strlen_loop:
  assumes "str_in a s m" "i \<le> length s" "length s - i < fuel"
  shows "c_loop fuel (\<lambda>i. do { bs \<leftarrow> ram_get (a + i) 1 m; Some (if bs ! 0 = 0 then Inr i else Inl (i + 1)) }) i = Some (length s)"
  using assms(2,3)
proof (induction fuel arbitrary: i)
  case (Suc fuel)
  note n = str_in_nth[OF assms(1)]
  have g: "ram_get (a + i) 1 m = Some [ram m (a + i)]" using n(1) Suc.prems(1) by (simp add: ram_get_def)
  show ?case
  proof (cases "i = length s")
    case True
    then show ?thesis using g n(4) by simp
  next
    case False
    then have "ram m (a + i) \<noteq> 0" using n(3)[of i] Suc.prems by simp
    then show ?thesis using g Suc.IH[of "i + 1"] Suc.prems False by simp
  qed
qed simp

lemma ram_strlen_eq: "str_in a s m \<Longrightarrow> length s < fuel \<Longrightarrow> ram_strlen fuel a m = Some (length s)"
  using strlen_loop[of a s m 0 fuel] by (simp add: ram_strlen_def)

lemma str_in_put:
  assumes "ram_put a (s @ [0]) m = Some m'" "0 \<notin> set s"
  shows "str_in a s m'"
  using ram_get_put[OF assms(1)] assms(2) by (simp add: str_in_def)

section \<open>The layout of the arguments\<close>

text \<open>The vector of pointers \<open>ps\<close> at \<open>argv\<close>, ended by a null pointer.\<close>

definition args_in :: "nat \<Rightarrow> u32 list \<Rightarrow> mem_state \<Rightarrow> bool" where
  "args_in argv ps m \<longleftrightarrow> 0 \<notin> set ps \<and> (\<forall>i < length ps. ram_word (argv + 4 * i) m = Some (ps ! i))
     \<and> ram_word (argv + 4 * length ps) m = Some 0"

text \<open>The room that \<open>i\<close> strings take.\<close>

definition room :: "bytes list \<Rightarrow> nat \<Rightarrow> nat" where
  "room ss i = sum_list (map (\<lambda>s. length s + 1) (take i ss))"

lemma room_0 [simp]: "room ss 0 = 0"
  by (simp add: room_def)

lemma room_Suc: "i < length ss \<Longrightarrow> room ss (Suc i) = room ss i + length (ss ! i) + 1"
  by (simp add: room_def take_Suc_conv_app_nth)

lemma room_mono: "i \<le> j \<Longrightarrow> room ss i \<le> room ss j"
proof (induction j)
  case (Suc j)
  have "room ss j \<le> room ss (Suc j)" by (cases "j < length ss") (simp_all add: room_Suc, simp add: room_def)
  then show ?case using Suc by (cases "i = Suc j") auto
qed simp

lemma count_args_eq:
  assumes "args_in argv ps m" "length ps < fuel"
  shows "count_args fuel argv m = Some (length ps)"
proof -
  have "c_loop n (\<lambda>i. do { w \<leftarrow> ram_word (argv + 4 * i) m; Some (if w = 0 then Inr i else Inl (i + 1)) }) i = Some (length ps)"
    if "i \<le> length ps" "length ps - i < n" for i n
    using that
  proof (induction n arbitrary: i)
    case (Suc n)
    show ?case
    proof (cases "i = length ps")
      case True
      then show ?thesis using assms(1) by (simp add: args_in_def)
    next
      case False
      then have "i < length ps" using Suc.prems by simp
      then have "ram_word (argv + 4 * i) m = Some (ps ! i)" "ps ! i \<noteq> 0"
        using assms(1) nth_mem[of i ps] unfolding args_in_def by metis+
      then show ?thesis using Suc.IH[of "i + 1"] Suc.prems False by simp
    qed
  qed simp
  from this[of 0 fuel] assms(2) show ?thesis by (simp add: count_args_def)
qed

text \<open>\<open>sources\<close>: the pointers and the strings, outside \<open>{lo..<hi}\<close>.\<close>

definition sources :: "nat \<Rightarrow> u32 list \<Rightarrow> bytes list \<Rightarrow> nat \<Rightarrow> nat \<Rightarrow> mem_state \<Rightarrow> bool" where
  "sources argv ps ss lo hi m \<longleftrightarrow> args_in argv ps m \<and> length ss = length ps
     \<and> (\<forall>x. argv \<le> x \<and> x < argv + 4 * length ps + 4 \<longrightarrow> x \<notin> {lo..<hi})
     \<and> (\<forall>i < length ps. str_in (unat (ps ! i)) (ss ! i) m
          \<and> (\<forall>x. unat (ps ! i) \<le> x \<and> x \<le> unat (ps ! i) + length (ss ! i) \<longrightarrow> x \<notin> {lo..<hi}))"

lemma sources_arg:
  assumes "sources argv ps ss lo hi m" "\<forall>x. x \<notin> {lo..<hi} \<longrightarrow> ram m' x = ram m x" "i < length ps"
  shows "ram_word (argv + 4 * i) m' = Some (ps ! i)" "str_in (unat (ps ! i)) (ss ! i) m'"
proof -
  have "ram_word (argv + 4 * i) m' = ram_word (argv + 4 * i) m"
    by (rule ram_word_cong) (use assms in \<open>auto simp: sources_def\<close>)
  then show "ram_word (argv + 4 * i) m' = Some (ps ! i)" using assms(1,3) by (simp add: sources_def args_in_def)
  show "str_in (unat (ps ! i)) (ss ! i) m'"
    by (rule str_in_cong[of _ _ m]) (use assms in \<open>auto simp: sources_def\<close>)
qed

text \<open>The arguments copied so far.\<close>

definition laid_out :: "nat \<Rightarrow> bytes list \<Rightarrow> nat \<Rightarrow> nat \<Rightarrow> mem_state \<Rightarrow> bool" where
  "laid_out loc ss n i m \<longleftrightarrow> (\<forall>j < i. ram_word (loc + 4 * j) m = Some (of_nat (loc + 4 * (n + 2) + room ss j))
     \<and> str_in (loc + 4 * (n + 2) + room ss j) (ss ! j) m)"

lemma laid_out_cong:
  assumes "laid_out loc ss n i m" "i \<le> n" "length ss = n"
    and "\<And>x. loc \<le> x \<Longrightarrow> x < loc + 4 * i \<Longrightarrow> ram m' x = ram m x"
    and "\<And>x. loc + 4 * (n + 2) \<le> x \<Longrightarrow> x < loc + 4 * (n + 2) + room ss i \<Longrightarrow> ram m' x = ram m x"
  shows "laid_out loc ss n i m'"
  unfolding laid_out_def
proof (intro allI impI conjI)
  fix j assume j: "j < i"
  let ?q = "loc + 4 * (n + 2) + room ss j"
  have o: "ram_word (loc + 4 * j) m = Some (of_nat ?q)" "str_in ?q (ss ! j) m" using assms(1) j by (simp_all add: laid_out_def)
  have "ram_word (loc + 4 * j) m' = ram_word (loc + 4 * j) m" by (rule ram_word_cong) (use assms(4) j in simp)
  then show "ram_word (loc + 4 * j) m' = Some (of_nat ?q)" using o(1) by simp
  have "room ss j + length (ss ! j) + 1 \<le> room ss i" using room_Suc[of j ss] room_mono[of "Suc j" i ss] j assms(2,3) by simp
  then show "str_in ?q (ss ! j) m'" by (intro str_in_cong[OF o(2)]) (use assms(5) in simp)
qed

lemma copy_arg_eq:
  assumes "sources argv ps ss loc hi m0" "hi = loc + 4 * (n + 2) + room ss n" "n = length ps" "hi \<le> 2 ^ 32" "i < n"
    and "length (ss ! i) < fuel" and "laid_out loc ss n i m" and "\<forall>x. x \<notin> {loc..<hi} \<longrightarrow> ram m x = ram m0 x"
    and "\<forall>x. loc + 4 * n \<le> x \<and> x < loc + 4 * (n + 2) \<longrightarrow> ram m x = ram m0 x" and "m = m0\<lparr>ram := ram m\<rparr>"
  shows "\<exists>m'. copy_arg fuel argv loc i (loc + 4 * (n + 2) + room ss i, m) = Some (loc + 4 * (n + 2) + room ss (Suc i), m')
    \<and> laid_out loc ss n (Suc i) m' \<and> (\<forall>x. x \<notin> {loc..<hi} \<longrightarrow> ram m' x = ram m0 x)
    \<and> (\<forall>x. loc + 4 * n \<le> x \<and> x < loc + 4 * (n + 2) \<longrightarrow> ram m' x = ram m0 x) \<and> m' = m0\<lparr>ram := ram m'\<rparr>"
proof -
  let ?q = "loc + 4 * (n + 2) + room ss i" and ?s = "ss ! i"
  have len: "length ss = n" using assms(1,3) by (simp add: sources_def)
  have r: "room ss (Suc i) = room ss i + length ?s + 1" "room ss (Suc i) \<le> room ss n"
    using room_Suc[of i ss] room_mono[of "Suc i" n ss] assms(5) len by simp_all
  have i: "i < length ps" using assms(3,5) by simp
  obtain m1 where m1: "ram_put (loc + 4 * i) (word_bytes (of_nat ?q)) m = Some m1" "m1 = m\<lparr>ram := ram m1\<rparr>"
    "\<And>x. ram m1 x = (if loc + 4 * i \<le> x \<and> x < loc + 4 * i + 4 then word_bytes (of_nat ?q) ! (x - (loc + 4 * i)) else ram m x)"
    using ram_put_eq[of "loc + 4 * i" "word_bytes (of_nat ?q)" m] assms(2,4,5) by auto
  have out1: "\<forall>x. x \<notin> {loc..<hi} \<longrightarrow> ram m1 x = ram m0 x" using m1(3) assms(2,5,8) by auto
  note a1 = sources_arg[OF assms(1) out1 i]
  obtain m2 where m2: "ram_put ?q (?s @ [0]) m1 = Some m2" "m2 = m1\<lparr>ram := ram m2\<rparr>"
    "\<And>x. ram m2 x = (if ?q \<le> x \<and> x < ?q + length (?s @ [0]) then (?s @ [0]) ! (x - ?q) else ram m1 x)"
    using ram_put_eq[of ?q "?s @ [0]" m1] assms(2,4) r by auto
  have out2: "\<forall>x. x \<notin> {loc..<hi} \<longrightarrow> ram m2 x = ram m0 x" using m2(3) out1 assms(2) r by auto
  note a2 = sources_arg[OF assms(1) out2 i]
  have "copy_arg fuel argv loc i (?q, m) = Some (?q + length ?s + 1, m2)"
    using m1(1) a1 a2 m2(1) str_in_get[OF a1(2)] ram_strlen_eq[OF a1(2) assms(6)] ram_strlen_eq[OF a2(2) assms(6)]
    by (simp add: copy_arg_def)
  moreover have "laid_out loc ss n (Suc i) m2"
  proof -
    have "laid_out loc ss n i m2"
      by (rule laid_out_cong[OF assms(7)]) (use m1(3) m2(3) assms(5) len in auto)
    moreover have "ram_word (loc + 4 * i) m2 = Some (of_nat ?q)"
    proof -
      have "ram_word (loc + 4 * i) m2 = ram_word (loc + 4 * i) m1" by (rule ram_word_cong) (use m2(3) assms(5) in auto)
      then show ?thesis using ram_word_put[OF m1(1)] by simp
    qed
    moreover have "0 \<notin> set ?s" using a1(2) by (simp add: str_in_def)
    then have "str_in ?q ?s m2" by (rule str_in_put[OF m2(1)])
    ultimately show ?thesis by (auto simp: laid_out_def less_Suc_eq)
  qed
  moreover have "\<forall>x. loc + 4 * n \<le> x \<and> x < loc + 4 * (n + 2) \<longrightarrow> ram m2 x = ram m0 x"
    using m1(3) m2(3) assms(5,9) by auto
  moreover have "m2 = m0\<lparr>ram := ram m2\<rparr>"
  proof -
    have "m2 = (m1\<lparr>ram := ram m2\<rparr>)" by (rule m2(2))
    also have "\<dots> = (m\<lparr>ram := ram m1\<rparr>)\<lparr>ram := ram m2\<rparr>" by (subst m1(2)) simp
    also have "\<dots> = m0\<lparr>ram := ram m2\<rparr>" by (subst assms(10)) simp
    finally show ?thesis .
  qed
  ultimately show ?thesis using out2 r(1) by auto
qed

lemma exec_args_layout:
  assumes "sources argv ps ss loc hi m" "hi = loc + 4 * (n + 2) + room ss n" "n = length ps" "hi \<le> 2 ^ 32" "argv \<noteq> 0" "0 < n"
    and "n < fuel" "\<forall>s \<in> set ss. length s < fuel" "argv_length fuel argv n m = Some len" "loc = to_u32 (int stack_end - len)"
  shows "\<exists>m'. exec_args fuel argv stack_end m = Some (n, loc, m') \<and> laid_out loc ss n n m'
    \<and> (\<forall>x. x \<notin> {loc..<hi} \<longrightarrow> ram m' x = ram m x) \<and> (\<forall>x. loc + 4 * n \<le> x \<and> x < loc + 4 * (n + 2) \<longrightarrow> ram m' x = ram m x)
    \<and> m' = m\<lparr>ram := ram m'\<rparr>"
proof -
  have len: "length ss = n" using assms(1,3) by (simp add: sources_def)
  let ?p = "loc + 4 * (n + 2)"
  have r1: "1 \<le> room ss n" using room_mono[of 1 n ss] room_Suc[of 0 ss] assms(6) len by simp
  obtain m1 where m1: "ram_put ?p [0] m = Some m1" "m1 = m\<lparr>ram := ram m1\<rparr>" "\<And>x. x \<noteq> ?p \<Longrightarrow> ram m1 x = ram m x"
    using ram_put_eq[of ?p "[0]" m] assms(2,4) r1 by fastforce
  let ?I = "\<lambda>i (ptr, m'). ptr = ?p + room ss i \<and> laid_out loc ss n i m' \<and> (\<forall>x. x \<notin> {loc..<hi} \<longrightarrow> ram m' x = ram m x)
    \<and> (\<forall>x. loc + 4 * n \<le> x \<and> x < loc + 4 * (n + 2) \<longrightarrow> ram m' x = ram m x) \<and> m' = m\<lparr>ram := ram m'\<rparr>"
  have "\<exists>s'. c_for n 0 (copy_arg fuel argv loc) (?p, m1) = Some s' \<and> ?I (0 + n) s'"
  proof (rule c_for_inv)
    show "?I 0 (?p, m1)" using m1(2,3) assms(2) r1 by (auto simp: laid_out_def)
    fix j s assume j: "j < 0 + n" and I: "?I j s"
    obtain m' where s: "s = (?p + room ss j, m')" using I by (cases s) auto
    have f: "length (ss ! j) < fuel" using assms(8) j len by simp
    show "\<exists>s'. copy_arg fuel argv loc j s = Some s' \<and> ?I (Suc j) s'"
      using copy_arg_eq[OF assms(1-4), of j fuel m'] j f I unfolding s by auto
  qed
  then obtain ptr m' where c: "c_for n 0 (copy_arg fuel argv loc) (?p, m1) = Some (ptr, m')" "?I n (ptr, m')" by auto
  have "args_in argv ps m" using assms(1) by (simp add: sources_def)
  then have "count_args fuel argv m = Some n" using count_args_eq[of argv ps m fuel] assms(3,7) by simp
  then have "exec_args fuel argv stack_end m = Some (n, loc, m')"
    using assms(5,9) m1(1) c(1) by (simp add: exec_args_def assms(10)[symmetric] Let_def)
  then show ?thesis using c(2) by auto
qed

lemma argv_length_eq:
  assumes "args_in argv ps m" "n = length ps" "0 < n" "uint (last ps) - uint (hd ps) = int (room ss (n - 1))"
    and "ram_strlen fuel 0 m = Some z" "4 * (n + 1) + room ss (n - 1) + z + 1 < 2 ^ 31"
  shows "argv_length fuel argv n m = Some (int (((4 * (n + 1) + room ss (n - 1) + z + 1) div 8 + 1) * 8))"
proof -
  have "ram_word (argv + 4 * n) m = Some 0" using assms(1,2) by (simp add: args_in_def)
  then have b: "argv + 4 * n + 4 \<le> 2 ^ 32" by (auto simp: ram_word_def ram_get_def split: if_splits)
  have "to_u32 (int argv + 4 * (int n - 1)) = argv + 4 * (n - 1)"
    using b assms(3) by (simp add: to_u32_def nat_eq_iff algebra_simps of_nat_diff)
  moreover have "ps \<noteq> []" using assms(2,3) by auto
  then have "ram_word (argv + 4 * (n - 1)) m = Some (last ps)" "ram_word argv m = Some (hd ps)"
    using assms(1,2) by (auto simp: args_in_def last_conv_nth hd_conv_nth dest: spec[of _ 0])
  moreover have "to_i32 (int (room ss (n - 1))) = int (room ss (n - 1))"
    "to_i32 (4 * (int n + 1) + int (room ss (n - 1)) + int z + 1) = int (4 * (n + 1) + room ss (n - 1) + z + 1)"
    using assms(6) by (auto intro!: to_i32_id[THEN trans])
  ultimately show ?thesis
    using \<open>ram_word (argv + 4 * n) m = Some 0\<close> assms(5)
    by (simp add: argv_length_def assms(4) Let_def c_div_nonneg zdiv_int)
qed

lemma sources_less:
  "sources argv ps ss lo hi m \<Longrightarrow> lo \<le> lo' \<Longrightarrow> hi' \<le> hi \<Longrightarrow> sources argv ps ss lo' hi' m"
proof -
  assume s: "sources argv ps ss lo hi m" and l: "lo \<le> lo'" "hi' \<le> hi"
  have "x \<notin> {lo..<hi} \<Longrightarrow> x \<notin> {lo'..<hi'}" for x using l by auto
  then show ?thesis using s unfolding sources_def by blast
qed

text \<open>Where the arguments lie: \<open>z\<close> is the length of what is found at address 0.\<close>

lemma exec_args_at:
  assumes "sources argv ps ss lo hi m" "n = length ps" "0 < n" "argv \<noteq> 0" "n < fuel" "\<forall>s \<in> set ss. length s < fuel"
    and "uint (last ps) - uint (hd ps) = int (room ss (n - 1))" "ram_strlen fuel 0 m = Some z"
    and "4 * (n + 1) + room ss (n - 1) + z + 1 < 2 ^ 31" "len = ((4 * (n + 1) + room ss (n - 1) + z + 1) div 8 + 1) * 8"
    and "lo + len \<le> stack_end" "loc = stack_end - len" "loc + 4 * (n + 2) + room ss n \<le> hi" "hi \<le> 2 ^ 32" "stack_end < 2 ^ 32"
  shows "\<exists>m'. exec_args fuel argv stack_end m = Some (n, loc, m') \<and> laid_out loc ss n n m'
    \<and> (\<forall>x. x \<notin> {loc..<loc + 4 * (n + 2) + room ss n} \<longrightarrow> ram m' x = ram m x)
    \<and> (\<forall>x. loc + 4 * n \<le> x \<and> x < loc + 4 * (n + 2) \<longrightarrow> ram m' x = ram m x) \<and> m' = m\<lparr>ram := ram m'\<rparr>"
proof (rule exec_args_layout)
  show "sources argv ps ss loc (loc + 4 * (n + 2) + room ss n) m"
    by (rule sources_less[OF assms(1)]) (use assms(11-13) in linarith)+
  show "argv_length fuel argv n m = Some (int len)"
    unfolding assms(10) by (rule argv_length_eq) (use assms(1-3,7-9) in \<open>simp_all add: sources_def\<close>)
  show "loc = to_u32 (int stack_end - int len)" using assms(11,12,15) by (simp add: nat_diff_distrib)
qed (use assms in simp_all)

section \<open>Relocation\<close>

lemma file_read_at:
  assumes "file_holds fuel ops ino fs c" "off \<le> length c" "n < 2 ^ 31"
  shows "\<exists>p. file_read fuel ops ino (of_nat n) (of_nat off) fs = Some (int (length (take n (drop off c))), take n (drop off c), p)"
proof (cases ops)
  case Dos33_File_Ops
  then show ?thesis using dos_read_at[of "(fuel, ino, fs)" c off n "take n (drop off c)"] assms
    by (simp add: file_holds_def dos_read_def)
next
  case Romfs_File_Ops
  then show ?thesis using rom_read_at[of "(fuel, ino, fs)" c off n "take n (drop off c)"] assms
    by (simp add: file_holds_def rom_read_def)
qed (use assms in \<open>simp add: file_holds_def\<close>)

lemma bflt_word_header: "off + 4 \<le> 64 \<Longrightarrow> 64 \<le> length c \<Longrightarrow> bflt_word (take 64 c) off = Some (rom_word c off)"
  by (simp add: bflt_word_def rom_word_def slice_eq drop_take min_absorb1)

text \<open>The places to relocate: \<open>cnt\<close> words in the file from \<open>rs\<close> on.\<close>

definition reloc_at :: "bytes \<Rightarrow> nat \<Rightarrow> nat \<Rightarrow> nat \<Rightarrow> nat" where
  "reloc_at c rs base i = base + unat (rom_word c (rs + 4 * i))"

definition relocs_ok :: "bytes \<Rightarrow> nat \<Rightarrow> nat \<Rightarrow> nat \<Rightarrow> bool" where
  "relocs_ok c rs base cnt \<longleftrightarrow> (\<forall>i < cnt. reloc_at c rs base i + 4 \<le> 2 ^ 32)
     \<and> (\<forall>i < cnt. \<forall>j < i. reloc_at c rs base i + 4 \<le> reloc_at c rs base j \<or> reloc_at c rs base j + 4 \<le> reloc_at c rs base i)"

text \<open>The first \<open>i\<close> of them are done.\<close>

definition relocated :: "bytes \<Rightarrow> nat \<Rightarrow> nat \<Rightarrow> nat \<Rightarrow> mem_state \<Rightarrow> mem_state \<Rightarrow> bool" where
  "relocated c rs base i m m' \<longleftrightarrow> m' = m\<lparr>ram := ram m'\<rparr>
     \<and> (\<forall>j < i. \<exists>w. ram_word (reloc_at c rs base j) m = Some w \<and> ram_word (reloc_at c rs base j) m' = Some (w + of_nat base))
     \<and> (\<forall>x. (\<forall>j < i. \<not> (reloc_at c rs base j \<le> x \<and> x < reloc_at c rs base j + 4)) \<longrightarrow> ram m' x = ram m x)"

lemma relocate_one:
  assumes "relocated c rs base i m m1" "relocs_ok c rs base (Suc i)" "a = reloc_at c rs base i"
  shows "\<exists>w m2. ram_word a m1 = Some w \<and> ram_put a (word_bytes (w + of_nat base)) m1 = Some m2 \<and> relocated c rs base (Suc i) m m2"
proof -
  let ?r = "reloc_at c rs base"
  have b: "a + 4 \<le> 2 ^ 32" using assms(2,3) by (simp add: relocs_ok_def)
  have sep: "?r j + 4 \<le> a \<or> a + 4 \<le> ?r j" if "j < i" for j using assms(2,3) that by (auto simp: relocs_ok_def)
  have m1: "m1 = m\<lparr>ram := ram m1\<rparr>"
    "\<And>x. (\<forall>j < i. \<not> (?r j \<le> x \<and> x < ?r j + 4)) \<Longrightarrow> ram m1 x = ram m x" using assms(1) by (simp_all add: relocated_def)
  have "ram_word a m1 = ram_word a m"
    by (rule ram_word_cong, rule m1(2)) (use sep in force)
  moreover obtain w where w: "ram_word a m = Some w" using b by (simp add: ram_word_def ram_get_def)
  moreover obtain m2 where m2: "ram_put a (word_bytes (w + of_nat base)) m1 = Some m2" "m2 = m1\<lparr>ram := ram m2\<rparr>"
    "\<And>x. ram m2 x = (if a \<le> x \<and> x < a + 4 then word_bytes (w + of_nat base) ! (x - a) else ram m1 x)"
    using ram_put_eq[of a "word_bytes (w + of_nat base)" m1] b by auto
  moreover have "relocated c rs base (Suc i) m m2"
    unfolding relocated_def
  proof (intro conjI allI impI)
    have "m2 = m1\<lparr>ram := ram m2\<rparr>" by (rule m2(2))
    also have "\<dots> = m\<lparr>ram := ram m2\<rparr>" by (subst m1(1)) simp
    finally show "m2 = m\<lparr>ram := ram m2\<rparr>" .
  next
    fix j assume j: "j < Suc i"
    show "\<exists>w. ram_word (?r j) m = Some w \<and> ram_word (?r j) m2 = Some (w + of_nat base)"
    proof (cases "j = i")
      case True
      then show ?thesis using w ram_word_put[OF m2(1)] assms(3) by simp
    next
      case False
      then have "ram_word (?r j) m2 = ram_word (?r j) m1" by (intro ram_word_cong) (use m2(3) sep[of j] j in force)
      then show ?thesis using assms(1) j False by (auto simp: relocated_def)
    qed
  next
    fix x assume "\<forall>j < Suc i. \<not> (?r j \<le> x \<and> x < ?r j + 4)"
    then show "ram m2 x = ram m x" using m1(2)[of x] m2(3)[of x] assms(3) by auto
  qed
  ultimately show ?thesis by auto
qed

lemma reloc_step_eq:
  assumes "file_holds fuel ops ino fs c" "rs + 4 * unat cnt \<le> length c" "length c < 2 ^ 32" "relocs_ok c rs base (unat cnt)"
    and "i < unat cnt" "relocated c rs base i m m1"
  shows "\<exists>old' m2. reloc_step fuel ops ino fs (of_nat base) (of_nat rs) cnt (of_nat i, old, m1) = Some (Inl (of_nat (Suc i), old', m2))
    \<and> relocated c rs base (Suc i) m m2"
proof -
  have n: "unat (of_nat i :: u32) = i" using assms(5) unat32_lt[of cnt] by (simp add: unat_of_nat)
  have h: "unat (of_nat rs + of_nat i * 4 :: u32) = rs + 4 * i"
    using assms(2,3,5) by (simp add: unat_word_ariths unat_of_nat)
  have "(ucast (of_nat rs + of_nat i * 4 :: u32) :: u64) = of_nat (unat (of_nat rs + of_nat i * 4 :: u32))"
    by (rule of_nat_unat[symmetric])
  then have "(ucast (of_nat rs + of_nat i * 4 :: u32) :: u64) = of_nat (rs + 4 * i)" unfolding h .
  then obtain p where r: "file_read fuel ops ino 4 (ucast (of_nat rs + of_nat i * 4 :: u32)) fs
      = Some (int (length (take 4 (drop (rs + 4 * i) c))), take 4 (drop (rs + 4 * i) c), p)"
    using file_read_at[OF assms(1), of "rs + 4 * i" 4] assms(2,5) by auto
  define d where "d = take 4 (drop (rs + 4 * i) c)"
  have l: "length d = 4" using assms(2,5) by (simp add: d_def)
  have ok: "relocs_ok c rs base (Suc i)" using assms(4,5) by (simp add: relocs_ok_def)
  obtain w m2 where s: "ram_word (reloc_at c rs base i) m1 = Some w"
    "ram_put (reloc_at c rs base i) (word_bytes (w + of_nat base)) m1 = Some m2" "relocated c rs base (Suc i) m m2"
    using relocate_one[OF assms(6) ok refl] by blast
  have "reloc_at c rs base i + 4 \<le> 2 ^ 32" using ok by (simp add: relocs_ok_def)
  then have a: "unat (of_nat base + ntohl (le32 d)) = reloc_at c rs base i"
    by (simp add: reloc_at_def rom_word_def unat_word_ariths unat_of_nat d_def)
  have sl: "slice (d @ drop (length d) old) 0 4 = Some d" using l slice_eq[of 0 4 "d @ drop (length d) old"] by simp
  have lt: "(of_nat i :: u32) < cnt" using assms(5) n by (simp add: word_less_nat_alt)
  have "reloc_step fuel ops ino fs (of_nat base) (of_nat rs) cnt (of_nat i, old, m1)
      = Some (Inl (of_nat i + 1, word_bytes (ntohl (le32 d)), m2))"
    unfolding reloc_step_def prod.case r[folded d_def] bind.bind_lunit sl Let_def a s(1,2) using lt by simp
  then show ?thesis using s(3) by (simp add: add.commute)
qed

text \<open>The whole table.\<close>

lemma reloc_loop:
  assumes "file_holds fuel ops ino fs c" "rs + 4 * unat cnt \<le> length c" "length c < 2 ^ 32" "relocs_ok c rs base (unat cnt)"
    and "unat cnt < n"
  shows "\<exists>m'. c_loop n (reloc_step fuel ops ino fs (of_nat base) (of_nat rs) cnt) (0, [], m) = Some (0, m')
    \<and> relocated c rs base (unat cnt) m m'"
proof -
  let ?body = "reloc_step fuel ops ino fs (of_nat base) (of_nat rs) cnt"
  let ?I = "\<lambda>(i :: u32, old :: bytes, m1). \<exists>j. i = of_nat j \<and> j \<le> unat cnt \<and> relocated c rs base j m m1"
  have "\<exists>r. c_loop n ?body (0, [], m) = Some r \<and> (fst r = 0 \<and> relocated c rs base (unat cnt) m (snd r))"
  proof (rule c_loop_total[where I = ?I and m = "\<lambda>(i :: u32, _ :: bytes, _ :: mem_state). unat cnt - unat i"])
    show "?I (0, [], m)" by (auto simp: relocated_def intro!: exI[of _ 0])
    show "(\<lambda>(i :: u32, _ :: bytes, _ :: mem_state). unat cnt - unat i) (0, [], m) < n" using assms(5) by simp
    fix s :: "u32 \<times> bytes \<times> mem_state" assume "?I s"
    then obtain j old m1 where s: "s = (of_nat j, old, m1)" "j \<le> unat cnt" "relocated c rs base j m m1" by auto
    have u: "k \<le> unat cnt \<Longrightarrow> unat (of_nat k :: u32) = k" for k using unat32_lt[of cnt] by (simp add: unat_of_nat)
    show "(\<exists>s'. ?body s = Some (Inl s') \<and> ?I s' \<and> (\<lambda>(i :: u32, _ :: bytes, _ :: mem_state). unat cnt - unat i) s' < (\<lambda>(i :: u32, _ :: bytes, _ :: mem_state). unat cnt - unat i) s)
      \<or> (\<exists>r. ?body s = Some (Inr r) \<and> fst r = 0 \<and> relocated c rs base (unat cnt) m (snd r))"
    proof (cases "j < unat cnt")
      case True
      then obtain old' m2 where "?body s = Some (Inl (of_nat (Suc j), old', m2))" "relocated c rs base (Suc j) m m2"
        using reloc_step_eq[OF assms(1-4) True s(3), of old] s(1) by blast
      moreover have "unat cnt - unat (of_nat (Suc j) :: u32) < unat cnt - unat (of_nat j :: u32)"
        using True u[of "Suc j"] u[of j] by (simp del: of_nat_Suc)
      moreover have "Suc j \<le> unat cnt" using True by simp
      ultimately show ?thesis unfolding s(1) by (intro disjI1) (auto simp del: of_nat_Suc)
    next
      case False
      then have "j = unat cnt" using s(2) by simp
      moreover have "\<not> (of_nat j :: u32) < cnt" using u[of j] False s(2) by (simp add: word_less_nat_alt)
      ultimately show ?thesis using s by (simp add: reloc_step_def)
    qed
  qed
  then show ?thesis by auto
qed

lemma bflt_reloc_eq:
  assumes "file_holds fuel ops ino fs c" and "64 \<le> length c" and "length c < 2 ^ 32"
    and "cnt = unat (rom_word c BFLT_RELOC_COUNT)" and "rs = unat (rom_word c BFLT_RELOC_START)" and "rs + 4 * cnt \<le> length c"
    and "relocs_ok c rs base cnt" and "cnt < fuel"
  shows "\<exists>m'. bflt_reloc fuel ops ino fs (of_nat base) m = Some (0, m') \<and> relocated c rs base cnt m m'"
proof -
  obtain p where r: "file_read fuel ops ino 64 0 fs = Some (64, take 64 c, p)"
    using file_read_at[OF assms(1), of 0 64] assms(2) by auto
  have w: "bflt_word (take 64 c) BFLT_RELOC_COUNT = Some (rom_word c BFLT_RELOC_COUNT)"
    "bflt_word (take 64 c) BFLT_RELOC_START = Some (of_nat rs)"
    using bflt_word_header[OF _ assms(2), of BFLT_RELOC_COUNT] bflt_word_header[OF _ assms(2), of BFLT_RELOC_START] assms(5) by simp_all
  obtain m' where m': "c_loop fuel (reloc_step fuel ops ino fs (of_nat base) (of_nat rs) (rom_word c BFLT_RELOC_COUNT)) (0, [], m) = Some (0, m')"
    "relocated c rs base cnt m m'"
    using reloc_loop[OF assms(1) _ assms(3), of rs "rom_word c BFLT_RELOC_COUNT" base fuel m] assms(4,6-8) by blast
  show ?thesis
  proof (cases "rom_word c BFLT_RELOC_COUNT = 0")
    case True
    then show ?thesis using r w assms(4) by (auto simp: bflt_reloc_def relocated_def)
  next
    case False
    then show ?thesis using r w m' by (auto simp: bflt_reloc_def)
  qed
qed

section \<open>Properties\<close>

text \<open>
  C22: A program finds on its new stack the vector of arguments its caller passed: the same number of strings with the same characters, a null
  pointer behind the pointers, and nothing outside the stack is changed.  This holds when the strings lie one behind the other and the last one
  is at least three characters shorter than what is found at address 0, because the room is computed with that length.
\<close>

theorem arguments_arrive:
  assumes "sources argv ps ss lo stack_end m" and "n = length ps" and "0 < n" and "argv \<noteq> 0" and "n < fuel"
    and "\<forall>s \<in> set ss. length s < fuel" and "uint (last ps) - uint (hd ps) = int (room ss (n - 1))"
    and "ram_strlen fuel 0 m = Some z" and "length (last ss) + 3 \<le> z" and "4 * (n + 1) + room ss (n - 1) + z + 9 < 2 ^ 31"
    and "lo + 4 * (n + 1) + room ss (n - 1) + z + 9 \<le> stack_end" and "stack_end < 2 ^ 32"
    and "\<forall>x. lo \<le> x \<and> x < stack_end \<longrightarrow> ram m x = 0"
  shows "\<exists>loc m' qs. exec_args fuel argv stack_end m = Some (n, loc, m') \<and> lo \<le> loc \<and> loc < stack_end
    \<and> args_in loc qs m' \<and> length qs = n \<and> (\<forall>i < n. str_in (unat (qs ! i)) (ss ! i) m')
    \<and> (\<forall>x. x \<notin> {lo..<stack_end} \<longrightarrow> ram m' x = ram m x)"
proof -
  have l: "length ss = n" using assms(1,2) by (simp add: sources_def)
  let ?S = "room ss (n - 1)"
  define len where "len = ((4 * (n + 1) + ?S + z + 1) div 8 + 1) * 8"
  define loc where "loc = stack_end - len"
  have "last ss = ss ! (n - 1)" using l assms(3) by (cases ss) (auto simp: last_conv_nth)
  then have rn: "room ss n = ?S + length (last ss) + 1" using room_Suc[of "n - 1" ss] l assms(3) by simp
  have len: "4 * (n + 1) + ?S + z + 2 \<le> len" "len \<le> 4 * (n + 1) + ?S + z + 9" unfolding len_def by simp_all
  have fit: "lo + len \<le> stack_end" "loc + 4 * (n + 2) + room ss n \<le> stack_end"
    using len assms(9,11) rn by (simp_all add: loc_def)
  obtain m' where m': "exec_args fuel argv stack_end m = Some (n, loc, m')" "laid_out loc ss n n m'"
    "\<forall>x. x \<notin> {loc..<loc + 4 * (n + 2) + room ss n} \<longrightarrow> ram m' x = ram m x"
    "\<forall>x. loc + 4 * n \<le> x \<and> x < loc + 4 * (n + 2) \<longrightarrow> ram m' x = ram m x"
    using exec_args_at[OF assms(1-8) _ len_def fit(1) loc_def fit(2) _ assms(12)] assms(10,12) by auto
  let ?q = "\<lambda>i. loc + 4 * (n + 2) + room ss i"
  define qs :: "u32 list" where "qs = map (\<lambda>i. of_nat (?q i)) [0..<n]"
  have q: "?q i < 2 ^ 32" if "i < n" for i
    using room_mono[of "Suc i" n ss] room_Suc[of i ss] that l fit(2) assms(12) by simp
  have u: "unat (qs ! i) = ?q i" if "i < n" for i using q[OF that] that by (simp add: qs_def unat_of_nat del: of_nat_add)
  have "\<forall>i < n. ram_word (loc + 4 * i) m' = Some (qs ! i) \<and> str_in (unat (qs ! i)) (ss ! i) m'"
    using m'(2) u by (simp add: laid_out_def) (simp add: qs_def)
  moreover have "ram_word (loc + 4 * n) m' = Some 0"
  proof -
    have "ram m' x = 0" if "loc + 4 * n \<le> x" "x < loc + 4 * n + 4" for x
    proof -
      have "lo \<le> loc" using fit(1) by (simp add: loc_def)
      then have "lo \<le> x \<and> x < stack_end" using that fit(2) le0[of "room ss n"] by simp
      moreover have "ram m' x = ram m x" using m'(4) that by simp
      ultimately show ?thesis using assms(13) by simp
    qed
    then have "map (\<lambda>i. ram m' (loc + 4 * n + i)) [0..<4] = map (\<lambda>i. 0) [0..<4]" by (intro map_cong refl) auto
    moreover have "map (\<lambda>i. 0) [0..<4] = [0, 0, 0, 0 :: byte]" by (simp add: upt_rec)
    ultimately have "ram_get (loc + 4 * n) 4 m' = Some [0, 0, 0, 0]" using fit(2) assms(12) by (simp add: ram_get_def)
    then show ?thesis by (simp add: ram_word_def le32_def)
  qed
  moreover have "0 \<notin> set qs"
  proof
    assume "0 \<in> set qs"
    then obtain i where "i < n" "qs ! i = 0" by (auto simp: qs_def in_set_conv_nth)
    then have "?q i = 0" using u[of i] by simp
    then show False by simp
  qed
  ultimately have "args_in loc qs m'" "length qs = n" "\<forall>i < n. str_in (unat (qs ! i)) (ss ! i) m'"
    by (simp_all add: args_in_def qs_def)
  moreover have "lo \<le> loc" "loc < stack_end" "\<forall>x. x \<notin> {lo..<stack_end} \<longrightarrow> ram m' x = ram m x"
    using fit m'(3) len by (auto simp: loc_def)
  ultimately show ?thesis using m'(1) by blast
qed

text \<open>One argument, \<open>ls\<close>, with 32 characters before the first zero byte at address 0.\<close>

definition demo_args :: "nat \<Rightarrow> bytes \<Rightarrow> mem_state" where
  "demo_args z s = \<lparr>memory_mutex = False, memory_total = 0, memory_map = [], max_chunk = 0,
     ram = (\<lambda>a. if a < z then 1 else if a = 1000 then 0xd0 else if a = 1001 then 7
                else if 2000 \<le> a \<and> a < 2000 + length s then s ! (a - 2000) else 0)\<rparr>"

lemma demo_args_ok:
  assumes "z < 1000" "0 \<notin> set s" "length s < 1000" "0 < lo" "2000 + length s < lo"
  shows "sources 1000 [2000] [s] lo hi (demo_args z s)" "ram_strlen (Suc z) 0 (demo_args z s) = Some z"
proof -
  have "map (\<lambda>i. ram (demo_args z s) (2000 + i)) [0..<Suc (length s)] = s @ [0]"
    using assms(1,3) by (intro nth_equalityI) (auto simp: demo_args_def nth_append less_Suc_eq simp del: upt_Suc)
  then have "str_in 2000 s (demo_args z s)" using assms(2,3) by (simp add: str_in_def ram_get_def del: upt_Suc)
  moreover have "ram_word 1000 (demo_args z s) = Some 2000" "ram_word 1004 (demo_args z s) = Some 0"
    using assms(1) by (simp_all add: ram_word_def ram_get_def demo_args_def upt_rec le32_def)
  ultimately show "sources 1000 [2000] [s] lo hi (demo_args z s)"
    using assms(5) by (auto simp: sources_def args_in_def)
  have "map (\<lambda>i. ram (demo_args z s) (0 + i)) [0..<Suc z] = replicate z 1 @ [0]"
    using assms(1,3) by (intro nth_equalityI) (auto simp: demo_args_def nth_append less_Suc_eq simp del: upt_Suc)
  then have "str_in 0 (replicate z 1) (demo_args z s)" using assms(1) by (simp add: str_in_def ram_get_def del: upt_Suc)
  from ram_strlen_eq[OF this] show "ram_strlen (Suc z) 0 (demo_args z s) = Some z" by simp
qed

lemma arguments_arrive_witness:
  "\<exists>loc m' qs. exec_args 33 1000 8192 (demo_args 32 [108, 115]) = Some (1, loc, m') \<and> args_in loc qs m' \<and> length qs = 1
    \<and> str_in (unat (qs ! 0)) [108, 115] m'"
proof -
  note d = demo_args_ok(1)[of 32 "[108, 115]" 4096 8192, simplified] demo_args_ok(2)[of 32 "[108, 115]" 4096, simplified]
  have "\<forall>x. 4096 \<le> x \<and> x < 8192 \<longrightarrow> ram (demo_args 32 [108, 115]) x = 0" by (simp add: demo_args_def)
  then show ?thesis using arguments_arrive[OF d(1), of 1 33 32] d(2) by (auto simp: room_def)
qed

text \<open>
  C29: An argument that is at least five characters longer than what is found at address 0 does not fit: the copy of the last string ends
  behind the end of the stack, in whatever memory follows.
\<close>

theorem long_argument_overflows:
  assumes "sources argv ps ss lo hi m" and "n = length ps" and "0 < n" and "argv \<noteq> 0" and "n < fuel"
    and "\<forall>s \<in> set ss. length s < fuel" and "uint (last ps) - uint (hd ps) = int (room ss (n - 1))"
    and "ram_strlen fuel 0 m = Some z" and "z + 5 \<le> length (last ss)" and "4 * (n + 1) + room ss (n - 1) + z + 9 < 2 ^ 31"
    and "lo + 4 * (n + 1) + room ss (n - 1) + z + 9 \<le> stack_end" and "stack_end + length (last ss) + 4 \<le> hi" and "hi \<le> 2 ^ 32"
  shows "\<exists>loc m' q. exec_args fuel argv stack_end m = Some (n, loc, m') \<and> ram_word (loc + 4 * (n - 1)) m' = Some (of_nat q)
    \<and> str_in q (last ss) m' \<and> stack_end \<le> q + length (last ss)"
proof -
  have l: "length ss = n" using assms(1,2) by (simp add: sources_def)
  let ?S = "room ss (n - 1)"
  define len where "len = ((4 * (n + 1) + ?S + z + 1) div 8 + 1) * 8"
  define loc where "loc = stack_end - len"
  have last: "last ss = ss ! (n - 1)" using l assms(3) by (cases ss) (auto simp: last_conv_nth)
  then have rn: "room ss n = ?S + length (last ss) + 1" using room_Suc[of "n - 1" ss] l assms(3) by simp
  have len: "4 * (n + 1) + ?S + z + 2 \<le> len" "len \<le> 4 * (n + 1) + ?S + z + 9" unfolding len_def by simp_all
  have fit: "lo + len \<le> stack_end" "loc + 4 * (n + 2) + room ss n \<le> hi"
    using len assms(9,11,12) rn by (simp_all add: loc_def)
  obtain m' where m': "exec_args fuel argv stack_end m = Some (n, loc, m')" "laid_out loc ss n n m'"
    using exec_args_at[OF assms(1-8) _ len_def fit(1) loc_def fit(2) assms(13)] assms(10,12,13) by auto
  have "stack_end \<le> loc + 4 * (n + 2) + ?S + length (last ss)" using len(2) fit(1) assms(9) by (simp add: loc_def)
  moreover have "ram_word (loc + 4 * (n - 1)) m' = Some (of_nat (loc + 4 * (n + 2) + ?S))"
    "str_in (loc + 4 * (n + 2) + ?S) (last ss) m'"
    using m'(2) assms(3) unfolding last laid_out_def by (meson diff_less zero_less_one)+
  ultimately show ?thesis using m'(1) by blast
qed

lemma long_argument_overflows_witness:
  "\<exists>loc m' q. exec_args 33 1000 8192 (demo_args 0 [104, 101, 108, 108, 111]) = Some (1, loc, m')
    \<and> str_in q [104, 101, 108, 108, 111] m' \<and> 8192 \<le> q + 5"
proof -
  note d = demo_args_ok(1)[of 0 "[104, 101, 108, 108, 111]" 4096 9000, simplified]
  have "ram_strlen 33 0 (demo_args 0 [104, 101, 108, 108, 111]) = Some 0"
    using ram_strlen_eq[of 0 "[]" _ 33] by (simp add: str_in_def ram_get_def demo_args_def)
  then show ?thesis using long_argument_overflows[OF d(1), of 1 33 0 8192] by (auto simp: room_def)
qed

text \<open>
  Relocation adds the address of the program to exactly the words its table names, as far as these lie inside the address space and do not
  overlap; every other byte of RAM stays.
\<close>

theorem relocation_correct:
  assumes "file_holds fuel ops ino fs c" and "64 \<le> length c" and "length c < 2 ^ 32"
    and "cnt = unat (rom_word c BFLT_RELOC_COUNT)" and "rs = unat (rom_word c BFLT_RELOC_START)" and "rs + 4 * cnt \<le> length c"
    and "relocs_ok c rs base cnt" and "cnt < fuel"
  shows "\<exists>m'. bflt_reloc fuel ops ino fs (of_nat base) m = Some (0, m')
    \<and> (\<forall>j < cnt. \<exists>w. ram_word (reloc_at c rs base j) m = Some w \<and> ram_word (reloc_at c rs base j) m' = Some (w + of_nat base))
    \<and> (\<forall>x. (\<forall>j < cnt. \<not> (reloc_at c rs base j \<le> x \<and> x < reloc_at c rs base j + 4)) \<longrightarrow> ram m' x = ram m x)"
  using bflt_reloc_eq[OF assms, of m] by (auto simp: relocated_def)

text \<open>An executable with one relocation, of the word at offset 4 of its text, on a read-only file system.\<close>

definition demo_bflt :: bytes where
  "demo_bflt = [98, 70, 76, 84, 0, 0, 0, 4, 0, 0, 0, 64, 0, 0, 0, 72, 0, 0, 0, 72, 0, 0, 0, 80, 0, 0, 16, 0, 0, 0, 0, 72, 0, 0, 0, 1,
     0, 0, 0, 0, 0, 0, 0, 0, 0, 0, 0, 0, 0, 0, 0, 0, 0, 0, 0, 0, 0, 0, 0, 0, 0, 0, 0, 0,
     1, 2, 3, 4, 16, 0, 0, 0, 0, 0, 0, 4]"

definition demo_bin :: bytes where
  "demo_bin = [0, 0, 0, 2, 0, 0, 0, 0, 0, 0, 0, 76, 0, 0, 0, 0, 97, 0, 0, 0, 0, 0, 0, 0, 0, 0, 0, 0, 0, 0, 0, 0] @ demo_bflt"

definition demo_bin_inode :: inode where
  "demo_bin_inode = inode_zero\<lparr>i_number := 0, i_sb := Some 0, i_mode := S_IFREG, i_size := 76\<rparr>"

lemma length_demo_bflt: "length demo_bflt = 76"
  by (simp add: demo_bflt_def)

lemma demo_bin_words: "length demo_bin = 108" "rom_word demo_bin 0 = 2" "rom_word demo_bin 4 = 0" "rom_word demo_bin 8 = 76"
  by (simp_all add: demo_bin_def length_demo_bflt) (simp_all add: rom_word_def le32_def ntohl_def)

lemma demo_bin_holds_at:
  assumes "0 < n" "rom_ok 0 fs demo_bin" "i_sb ino = Some 0" "i_number ino = 0"
  shows "file_holds n Romfs_File_Ops ino fs demo_bflt"
proof -
  have "take 16 (drop 16 demo_bin) = [97] @ replicate 15 0" by (simp add: demo_bin_def replicate_15)
  then have f: "rom_file demo_bin 0 [97] 76" by (simp add: rom_file_def rom_str_at_def chunks_def demo_bin_words)
  have d: "demo_bflt = take 76 (drop (rom_data 0 [97]) demo_bin)"
    by (simp add: rom_data_def chunks_def) (simp add: demo_bin_def length_demo_bflt)
  show ?thesis unfolding file_holds_def file_operations.case rom_holds_def prod.case
    by (intro exI conjI, rule assms(2)) (use f d assms in simp_all)
qed

lemma demo_bin_holds: "0 < n \<Longrightarrow> file_holds n Romfs_File_Ops demo_bin_inode (rom_fs demo_bin) demo_bflt"
  by (rule demo_bin_holds_at) (simp_all add: rom_fs_ok demo_bin_words demo_bin_inode_def)

lemma demo_bflt_words: "rom_word demo_bflt 32 = 1" "rom_word demo_bflt 28 = 72" "rom_word demo_bflt 72 = 4"
  by (simp_all add: rom_word_def demo_bflt_def le32_def ntohl_def)

lemma relocation_correct_witness:
  "\<exists>m'. bflt_reloc 2 Romfs_File_Ops demo_bin_inode (rom_fs demo_bin) 4096 (demo_args 0 []) = Some (0, m') \<and> ram_word 4100 m' = Some 4096"
proof -
  have a: "reloc_at demo_bflt 72 4096 0 = 4100" by (simp add: reloc_at_def demo_bflt_words)
  have w: "ram_word 4100 (demo_args 0 []) = Some 0"
    by (simp add: ram_word_def ram_get_def demo_args_def upt_rec le32_def)
  have "relocs_ok demo_bflt 72 4096 1" using a by (simp add: relocs_ok_def)
  then show ?thesis
    using relocation_correct[OF demo_bin_holds[of 2], of 1 72 4096 "demo_args 0 []"] a w
    by (auto simp: demo_bflt_words length_demo_bflt)
qed

end
