(* ===== verification/Memset.thy ===== *)
theory Memset
  imports Loader
begin

text \<open>
  Filling and copying memory by words: \<open>lib/memset.c\<close>, whose \<open>memset\<close> is written in inline assembly, and \<open>memcpy_4byte\<close> of \<open>lib/memcpy.c\<close>.
  The assembly is followed instruction by instruction: the address in \<open>ip\<close>, the pattern in \<open>r1\<close>, the count in \<open>r2\<close>; a condition on the flags of
  \<open>subs\<close> or \<open>cmp\<close> is a signed comparison.  All stores go through \<open>ram_put\<close>.
\<close>

section \<open>The routines\<close>

type_synonym cursor = "nat \<times> mem_state"

text \<open>A store under a condition that advances \<open>ip\<close>.\<close>

definition store_if :: "bool \<Rightarrow> bytes \<Rightarrow> cursor \<Rightarrow> cursor option" where
  "store_if c bs = (\<lambda>(ip, m). if c then do { m1 \<leftarrow> ram_put ip bs m; Some (ip + length bs, m1) } else Some (ip, m))"

text \<open>\<open>stm\<close> of \<open>k\<close> registers that all hold \<open>r1\<close>.\<close>

definition regs :: "nat \<Rightarrow> u32 \<Rightarrow> bytes" where
  "regs k r1 = concat (replicate k (word_bytes r1))"

definition asm_memset_lessthan4 :: "u32 \<Rightarrow> u32 \<Rightarrow> cursor \<Rightarrow> mem_state option" where
  "asm_memset_lessthan4 r1 r2 s = do {
     s1 \<leftarrow> store_if (r2 AND 2 \<noteq> 0) [ucast r1] s;
     s2 \<leftarrow> store_if (r2 AND 2 \<noteq> 0) [ucast r1] s1;
     s3 \<leftarrow> store_if (r2 AND 1 \<noteq> 0) [ucast r1] s2;
     Some (snd s3) }"

definition asm_memset_loop :: "u32 \<Rightarrow> u32 \<times> cursor \<Rightarrow> (u32 \<times> cursor + u32 \<times> cursor) option" where
  "asm_memset_loop r1 = (\<lambda>(r2, s). do {
     s1 \<leftarrow> store_if (64 \<le> sint r2) (regs 8 r1) s;
     s2 \<leftarrow> store_if (64 \<le> sint r2) (regs 8 r1) s1;
     Some (if 64 < sint r2 then Inl (r2 - 64, s2) else Inr (r2 - 64, s2)) })"

text \<open>Behind the loop: blocks of 32, 16, 8 and 4 bytes.\<close>

definition asm_memset_blocks :: "u32 \<Rightarrow> u32 \<times> cursor \<Rightarrow> mem_state option" where
  "asm_memset_blocks r1 = (\<lambda>(r2, s0).
     if r2 = 0 then Some (snd s0)
     else do {
       s1 \<leftarrow> store_if (r2 AND 32 \<noteq> 0) (regs 8 r1) s0;
       s2 \<leftarrow> store_if (r2 AND 16 \<noteq> 0) (regs 4 r1) s1;
       s3 \<leftarrow> store_if (r2 AND 8 \<noteq> 0) (regs 2 r1) s2;
       s4 \<leftarrow> store_if (r2 AND 4 \<noteq> 0) (regs 1 r1) s3;
       asm_memset_lessthan4 r1 r2 s4 })"

definition asm_memset_4bytealigned :: "nat \<Rightarrow> u32 \<Rightarrow> u32 \<Rightarrow> cursor \<Rightarrow> mem_state option" where
  "asm_memset_4bytealigned fuel r1 r2 s = do {
     let r1 = r1 OR push_bit 8 r1;
     let r1 = r1 OR push_bit 16 r1;
     t \<leftarrow> c_loop fuel (asm_memset_loop r1) (r2, s);
     asm_memset_blocks r1 t }"

definition memset :: "nat \<Rightarrow> u32 \<Rightarrow> u32 \<Rightarrow> u32 \<Rightarrow> mem_state \<Rightarrow> mem_state option" where
  "memset fuel r0 r1 r2 m = do {
     let r3 = r0 AND 3;
     let s0 = (unat r0, m);
     if r3 = 0 then asm_memset_4bytealigned fuel r1 r2 s0
     else if sint r2 < 4 then asm_memset_lessthan4 r1 (r2 - 4) s0
     else do {
       s1 \<leftarrow> store_if (r3 < 2) [ucast r1] s0;
       s2 \<leftarrow> store_if (r3 \<le> 2) [ucast r1] s1;
       s3 \<leftarrow> store_if True [ucast r1] s2;
       asm_memset_4bytealigned fuel r1 (r2 - 4 + r3) s3 } }"

definition memset_byte :: "nat \<Rightarrow> u32 \<Rightarrow> nat \<Rightarrow> mem_state \<Rightarrow> mem_state option" where
  "memset_byte s c n m = c_for n 0 (\<lambda>i. ram_put (s + i) [ucast c]) m"

definition memset_4byte :: "u32 \<Rightarrow> u32 \<Rightarrow> u32 \<Rightarrow> mem_state \<Rightarrow> mem_state option" where
  "memset_4byte s c n m = do {
     let p0 = c AND 0xff;
     let pattern = p0 OR push_bit 8 p0 OR push_bit 16 p0 OR push_bit 24 p0;
     let offset = unat (s mod 4);
     (b, count, m1) \<leftarrow> (if offset \<noteq> 0 then do {
         m1 \<leftarrow> c_for (4 - offset) 0 (\<lambda>i. ram_put (unat s + i) [ucast c]) m;
         Some (unat s + (4 - offset), n - 1, m1) }
       else Some (unat s, n, m));
     m2 \<leftarrow> c_for (unat (count div 4)) 0 (\<lambda>i. ram_put (b + 4 * i) (word_bytes pattern)) m1;
     c_for offset 0 (\<lambda>i. ram_put (unat (s + (n - of_nat offset) + of_nat i)) [ucast c]) m2 }"

text \<open>The trailing bytes are taken from, and go to, the start of the areas.\<close>

definition memcpy_4byte :: "nat \<Rightarrow> nat \<Rightarrow> nat \<Rightarrow> mem_state \<Rightarrow> mem_state option" where
  "memcpy_4byte dest src n m = do {
     let tail = n mod 4;
     m1 \<leftarrow> c_for ((n - tail) div 4) 0 (\<lambda>i m. do { w \<leftarrow> ram_word (src + 4 * i) m; ram_put (dest + 4 * i) (word_bytes w) m }) m;
     c_for tail 0 (\<lambda>i m. do { b \<leftarrow> ram_get (src + i) 1 m; ram_put (dest + i) b m }) m1 }"

section \<open>What a store does to a filled area\<close>

lemma ram_set_0 [simp]: "ram_set a b 0 m = m"
  by (cases m) (auto simp: ram_set_def fun_eq_iff)

lemma put_fill: "a + k + j \<le> 2 ^ 32 \<Longrightarrow> ram_put (a + k) (replicate j b) (ram_set a b k m) = Some (ram_set a b (k + j) m)"
  by (auto simp: ram_put_def ram_set_def fun_eq_iff)

lemma store_fill:
  assumes "bs = replicate j b" "c \<Longrightarrow> a + k + j \<le> 2 ^ 32"
  shows "store_if c bs (a + k, ram_set a b k m) = Some (a + (k + of_bool c * j), ram_set a b (k + of_bool c * j) m)"
  using put_fill[of a k j b m] assms by (cases c) (simp_all add: store_if_def)

text \<open>The pattern.\<close>

definition spread :: "u32 \<Rightarrow> u32" where
  "spread c = (let r = c OR push_bit 8 c in r OR push_bit 16 r)"

lemma word_bytes_spread:
  assumes "c < 256"
  shows "word_bytes (spread c) = replicate 4 (ucast c)"
proof -
  have c: "i < 8" if "bit c i" for i
  proof -
    have "unat c < 2 ^ 8" using assms by (simp add: word_less_nat_alt)
    then have "take_bit 8 (unat c) = unat c" by (simp add: take_bit_nat_eq_self)
    moreover have "bit (unat c) i" using that by (simp add: bit_unsigned_iff)
    ultimately show ?thesis by (metis bit_take_bit_iff)
  qed
  have "(ucast (drop_bit (8 * k) (spread c)) :: byte) = ucast c" if "k < 4" for k
  proof (rule bit_word_eqI)
    fix i assume i: "i < LENGTH(8)"
    have n: "bit (spread c) n = (bit c n \<or> 8 \<le> n \<and> bit c (n - 8) \<or> 16 \<le> n \<and> bit c (n - 16) \<or> 24 \<le> n \<and> bit c (n - 24))" if "n < 32" for n
      using that unfolding spread_def Let_def by (simp add: bit_or_iff bit_push_bit_iff)
    have ge: "\<not> bit c m" if "8 \<le> m" for m using c[of m] that by auto
    have "k = 0 \<or> k = 1 \<or> k = 2 \<or> k = 3" using that by auto
    then have "bit (spread c) (8 * k + i) = bit c i" using i n[of "8 * k + i"] by (elim disjE) (simp_all add: ge)
    then show "bit (ucast (drop_bit (8 * k) (spread c)) :: byte) i = bit (ucast c :: byte) i"
      using i by (simp add: bit_simps)
  qed
  from this[of 0] this[of 1] this[of 2] this[of 3] show ?thesis
    by (simp add: word_bytes_def numeral_eq_Suc)
qed

lemma regs_spread: "c < 256 \<Longrightarrow> regs k (spread c) = replicate (4 * k) (ucast c)"
  by (induction k) (simp_all add: regs_def word_bytes_spread replicate_add)

section \<open>The loop\<close>

lemma sint_of_nat: "n < 2 ^ 31 \<Longrightarrow> sint (of_nat n :: u32) = int n"
  by (simp add: signed_of_nat take_bit_int_eq_self signed_take_bit_int_eq_self)

text \<open>The loop leaves less than 64 bytes, whose number is in the low bits of \<open>r2\<close>.\<close>

lemma memset_loop_fills:
  assumes "c < 256" "n < 2 ^ 31" "a + k + n \<le> 2 ^ 32" "n div 64 < fuel"
  shows "\<exists>k' r. c_loop fuel (asm_memset_loop (spread c)) (of_nat n, a + k, ram_set a (ucast c) k m)
      = Some (of_nat r - of_bool (r \<noteq> 0 \<or> n = 0) * 64, a + k', ram_set a (ucast c) k' m) \<and> k' + r = k + n \<and> r < 64"
  using assms(2-)
proof (induction fuel arbitrary: n k)
  case (Suc fuel)
  let ?b = "ucast c :: byte"
  note s = sint_of_nat[OF Suc.prems(1)]
  have st: "store_if d (regs 8 (spread c)) (a + l, ram_set a ?b l m) = Some (a + (l + of_bool d * 32), ram_set a ?b (l + of_bool d * 32) m)"
    if "a + l + 32 \<le> 2 ^ 32" for d l by (rule store_fill) (use that assms(1) in \<open>simp_all add: regs_spread\<close>)
  show ?case
  proof (cases "64 \<le> n")
    case False
    have "asm_memset_loop (spread c) (of_nat n, a + k, ram_set a ?b k m) = Some (Inr (of_nat n - 64, a + k, ram_set a ?b k m))"
      using s False by (simp add: asm_memset_loop_def store_if_def)
    then show ?thesis using False by (intro exI[of _ k] exI[of _ n]) (cases "n = 0"; simp)
  next
    case True
    have w: "of_nat n - 64 = (of_nat (n - 64) :: u32)" using True by (simp add: of_nat_diff)
    have body: "asm_memset_loop (spread c) (of_nat n, a + k, ram_set a ?b k m)
      = Some (if 64 < n then Inl (of_nat (n - 64), a + (k + 64), ram_set a ?b (k + 64) m) else Inr (of_nat (n - 64), a + (k + 64), ram_set a ?b (k + 64) m))"
      using s True Suc.prems(2) st[of k True] st[of "k + 32" True] w by (simp add: asm_memset_loop_def add.commute[of 64 k])
    show ?thesis
    proof (cases "n = 64")
      case True
      then show ?thesis using body by (intro exI[of _ "k + 64"] exI[of _ 0]) simp
    next
      case False
      then have "\<exists>k' r. c_loop fuel (asm_memset_loop (spread c)) (of_nat (n - 64), a + (k + 64), ram_set a ?b (k + 64) m)
          = Some (of_nat r - of_bool (r \<noteq> 0 \<or> n - 64 = 0) * 64, a + k', ram_set a ?b k' m) \<and> k' + r = k + 64 + (n - 64) \<and> r < 64"
        by (intro Suc.IH) (use True Suc.prems in \<open>simp_all add: div_if[of n 64]\<close>)
      moreover have "n - 64 \<noteq> 0" "n \<noteq> 0" "64 < n" using True False by simp_all
      ultimately show ?thesis using body True by auto
    qed
  qed
qed simp

text \<open>The low bits of a count.\<close>

lemma low_bits:
  assumes "r < 64" "i < 6"
  shows "bit (of_nat r - of_bool d * 64 :: u32) i = bit r i"
proof -
  have e: "(of_nat r - of_bool d * 64 :: u32) = of_nat (of_bool d * (64 * 67108863) + r)" by (cases d) simp_all
  have "take_bit 6 (of_bool d * (64 * 67108863) + r) = take_bit 6 r" 
    using mod_mult_self4[of 64 67108863 r] by (cases d) (simp_all add: take_bit_eq_mod)
  then have "bit (of_bool d * (64 * 67108863) + r) i = bit r i" using assms(2) by (metis bit_take_bit_iff)
  moreover have "bit (of_nat x :: u32) i = bit x i" for x
  proof -
    have "bit (w :: u32) i = bit (unat w) i" for w by (simp add: bit_unsigned_iff)
    then have "bit (of_nat x :: u32) i = bit (unat (of_nat x :: u32)) i" .
    also have "unat (of_nat x :: u32) = take_bit 32 x" by (simp add: unsigned_of_nat)
    finally show ?thesis using assms(2) by (simp add: bit_take_bit_iff)
  qed
  ultimately show ?thesis unfolding e by blast
qed

lemma and_bit: "(w AND 2 ^ i \<noteq> 0) = bit (w :: u32) i"
  by (simp add: bit_iff_and_push_bit_not_eq_0 push_bit_of_1 flip: push_bit_of_1)

lemma bits_sum:
  assumes "r < 64"
  shows "r = of_bool (bit r 5) * 32 + of_bool (bit r 4) * 16 + of_bool (bit r 3) * 8 + of_bool (bit r 2) * 4
    + of_bool (bit r 1) * 2 + of_bool (bit r 0) * (1 :: nat)"
proof -
  have b: "r div 2 ^ i = 2 * (r div 2 ^ Suc i) + of_bool (bit r i)" for i
  proof -
    have "r div 2 ^ Suc i = r div 2 ^ i div 2" by (simp only: power_Suc mult.commute[of 2] div_mult2_eq)
    then show ?thesis by (simp add: bit_iff_odd flip: mod_2_eq_odd)
  qed
  have "r div 64 = 0" using assms by simp
  moreover have "r = 2 * (r div 2) + of_bool (bit r 0)" "r div 2 = 2 * (r div 4) + of_bool (bit r 1)"
    "r div 4 = 2 * (r div 8) + of_bool (bit r 2)" "r div 8 = 2 * (r div 16) + of_bool (bit r 3)"
    "r div 16 = 2 * (r div 32) + of_bool (bit r 4)" "r div 32 = 2 * (r div 64) + of_bool (bit r 5)"
    using b[of 0] b[of 1] b[of 2] b[of 3] b[of 4] b[of 5] by simp_all
  ultimately show ?thesis by linarith
qed

section \<open>The whole routine\<close>

lemma tail_fills:
  assumes "b = ucast r1" "a + k + of_bool (bit r2 1) * 2 + of_bool (bit r2 0) \<le> 2 ^ 32"
  shows "asm_memset_lessthan4 r1 r2 (a + k, ram_set a b k m)
    = Some (ram_set a b (k + of_bool (bit r2 1) * 2 + of_bool (bit r2 0)) m)"
proof -
  have st: "store_if c [b] (a + l, ram_set a b l m) = Some (a + (l + of_bool c * 1), ram_set a b (l + of_bool c * 1) m)"
    if "c \<Longrightarrow> a + l + 1 \<le> 2 ^ 32" for c l
    by (rule store_fill) (use that in simp_all)
  have t: "(r2 AND 2 \<noteq> 0) = bit r2 1" "(r2 AND 1 \<noteq> 0) = bit r2 0" using and_bit[of r2 1] and_bit[of r2 0] by simp_all
  show ?thesis unfolding asm_memset_lessthan4_def t
    using assms st[of "bit r2 1" k] st[of "bit r2 1" "k + of_bool (bit r2 1)"] st[of "bit r2 0" "k + of_bool (bit r2 1) * 2"]
    by (cases "bit r2 1"; cases "bit r2 0") simp_all
qed

lemma block_fills:
  assumes "c < 256" "bit r2 i" "8 * j = (2 :: nat) ^ Suc i" "a + k + 2 ^ i \<le> 2 ^ 32"
  shows "store_if True (regs j (spread c)) (a + k, ram_set a (ucast c) k m) = Some (a + (k + 2 ^ i), ram_set a (ucast c) (k + 2 ^ i) m)"
  using store_fill[of "regs j (spread c)" "2 ^ i" "ucast c" True a k m] assms by (simp add: regs_spread)

lemma blocks_fill:
  assumes "c < 256" "\<And>i. i < 6 \<Longrightarrow> bit r2 i = bit r i" "r < 64" "r2 = 0 \<Longrightarrow> r = 0" "a + l + r \<le> 2 ^ 32"
  shows "asm_memset_blocks (spread c) (r2, a + l, ram_set a (ucast c) l m) = Some (ram_set a (ucast c) (l + r) m)"
proof (cases "r2 = 0")
  case True
  then show ?thesis using assms(4) by (simp add: asm_memset_blocks_def)
next
  case False
  let ?b = "ucast c :: byte" and ?p = "spread c"
  let ?B = "\<lambda>i. of_bool (bit r i) * 2 ^ i :: nat"
  note sum = bits_sum[OF assms(3)]
  have blk: "store_if (bit r i) (regs j ?p) (a + q, ram_set a ?b q m) = Some (a + (q + ?B i), ram_set a ?b (q + ?B i) m)"
    if "8 * j = (2 :: nat) ^ Suc i" "q + ?B i \<le> l + r" for i j q
    by (rule store_fill) (use that assms(1,5) in \<open>simp_all add: regs_spread\<close>)
  have t: "(r2 AND 32 \<noteq> 0) = bit r 5" "(r2 AND 16 \<noteq> 0) = bit r 4" "(r2 AND 8 \<noteq> 0) = bit r 3" "(r2 AND 4 \<noteq> 0) = bit r 2"
    using and_bit[of r2 5] and_bit[of r2 4] and_bit[of r2 3] and_bit[of r2 2] assms(2) by simp_all
  have b: "?b = ucast ?p" using word_bytes_spread[OF assms(1)] by (simp add: word_bytes_def numeral_eq_Suc)
  have tail: "asm_memset_lessthan4 ?p r2 (a + q, ram_set a ?b q m) = Some (ram_set a ?b (l + r) m)"
    if "q = l + ?B 5 + ?B 4 + ?B 3 + ?B 2" for q
  proof -
    have "q + of_bool (bit r2 1) * 2 + of_bool (bit r2 0) = l + r" using that sum assms(2)[of 1] assms(2)[of 0] by simp
    then show ?thesis using tail_fills[OF b, of a q r2 m] assms(5) by (simp add: add.assoc)
  qed
  let ?s = "\<lambda>q. (a + q, ram_set a ?b q m)"
  have s: "store_if (bit r 5) (regs 8 ?p) (?s l) = Some (?s (l + ?B 5))"
    "store_if (bit r 4) (regs 4 ?p) (?s (l + ?B 5)) = Some (?s (l + ?B 5 + ?B 4))"
    "store_if (bit r 3) (regs 2 ?p) (?s (l + ?B 5 + ?B 4)) = Some (?s (l + ?B 5 + ?B 4 + ?B 3))"
    "store_if (bit r 2) (regs 1 ?p) (?s (l + ?B 5 + ?B 4 + ?B 3)) = Some (?s (l + ?B 5 + ?B 4 + ?B 3 + ?B 2))"
    by (rule blk; use sum in simp)+
  show ?thesis
    using False by (simp only: asm_memset_blocks_def prod.case if_False t s bind.bind_lunit tail[OF refl])
qed

lemma aligned_fills:
  assumes "c < 256" "n < 2 ^ 31" "a + k + n \<le> 2 ^ 32" "n div 64 < fuel"
  shows "asm_memset_4bytealigned fuel c (of_nat n) (a + k, ram_set a (ucast c) k m) = Some (ram_set a (ucast c) (k + n) m)"
proof -
  let ?b = "ucast c :: byte" and ?p = "spread c"
  obtain l r where l: "c_loop fuel (asm_memset_loop ?p) (of_nat n, a + k, ram_set a ?b k m)
      = Some (of_nat r - of_bool (r \<noteq> 0 \<or> n = 0) * 64, a + l, ram_set a ?b l m)" "l + r = k + n" "r < 64"
    using memset_loop_fills[OF assms, of m] by blast
  note low = low_bits[OF l(3), of _ "r \<noteq> 0 \<or> n = 0"]
  have "r = 0" if "of_nat r - of_bool (r \<noteq> 0 \<or> n = 0) * 64 = (0 :: u32)"
  proof -
    have "bit r i = False" if "i < 6" for i using low[OF that] \<open>of_nat r - _ = 0\<close> by simp
    then show ?thesis using bits_sum[OF l(3)] by simp
  qed
  then have "asm_memset_blocks ?p (of_nat r - of_bool (r \<noteq> 0 \<or> n = 0) * 64, a + l, ram_set a ?b l m) = Some (ram_set a ?b (l + r) m)"
    by (intro blocks_fill[OF assms(1) low l(3)]) (use assms(3) l(2) in simp_all)
  moreover have "asm_memset_4bytealigned fuel c (of_nat n) s = do {
      t \<leftarrow> c_loop fuel (asm_memset_loop ?p) (of_nat n, s); asm_memset_blocks ?p t }" for s
    by (simp only: asm_memset_4bytealigned_def spread_def Let_def)
  ultimately show ?thesis using l(1,2) by (simp only: bind.bind_lunit)
qed

lemma memset_fills:
  assumes "c < 256" "unat n < 2 ^ 31" "unat s + unat n \<le> 2 ^ 32" "unat n div 64 < fuel"
  shows "memset fuel s c n m = Some (ram_set (unat s) (ucast c) (unat n) m)"
proof -
  let ?a = "unat s" and ?b = "ucast c :: byte"
  define r3 where "r3 = s AND 3"
  have m0: "m = ram_set ?a ?b 0 m" by simp
  have sn: "sint n = int (unat n)" using sint_of_nat[OF assms(2)] by simp
  have r3: "unat r3 < 4" unfolding r3_def using word_and_le1[of s 3] by (simp add: word_le_nat_alt)
  consider "r3 = 0" | "r3 \<noteq> 0" "unat n < 4" | "r3 \<noteq> 0" "4 \<le> unat n" by linarith
  then show ?thesis
  proof cases
    case 1
    then show ?thesis using aligned_fills[of c "unat n" ?a 0 fuel m] assms by (simp add: memset_def r3_def)
  next
    case 2
    have "n = 0 \<or> n = 1 \<or> n = 2 \<or> n = 3" using 2(2) by (auto simp: word_unat_eq_iff)
    then have bits: "of_bool (bit (n - 4) 1) * 2 + of_bool (bit (n - 4) 0) = unat n" by (elim disjE) simp_all
    have "asm_memset_lessthan4 c (n - 4) (?a + 0, ram_set ?a ?b 0 m)
        = Some (ram_set ?a ?b (0 + of_bool (bit (n - 4) 1) * 2 + of_bool (bit (n - 4) 0)) m)"
      by (rule tail_fills) (use bits assms(3) in simp_all)
    moreover have "sint n < 4" using 2(2) sn by linarith
    ultimately show ?thesis using 2(1) bits by (simp add: memset_def r3_def Let_def)
  next
    case 3
    have r: "r3 = 1 \<or> r3 = 2 \<or> r3 = 3" using 3(1) r3 by (auto simp: word_unat_eq_iff)
    define k where "k = 4 - unat r3"
    have k: "1 \<le> k" "k \<le> 3" "k \<le> unat n" using r 3(2) by (auto simp: k_def)
    have st: "store_if d [?b] (?a + l, ram_set ?a ?b l m) = Some (?a + (l + of_bool d * 1), ram_set ?a ?b (l + of_bool d * 1) m)"
      if "l < 3" for d l by (rule store_fill) (use that assms(3) 3(2) in simp_all)
    have lead: "do { s1 \<leftarrow> store_if (r3 < 2) [?b] (?a, m); s2 \<leftarrow> store_if (r3 \<le> 2) [?b] s1; store_if True [?b] s2 } = Some (?a + k, ram_set ?a ?b k m)"
    proof -
      have kv: "r3 = 1 \<Longrightarrow> k = Suc (Suc (Suc 0))" "r3 = 2 \<Longrightarrow> k = Suc (Suc 0)" "r3 = 3 \<Longrightarrow> k = Suc 0" by (simp_all add: k_def)
      show ?thesis using r st[of 0 True] st[of 0 False] st[of "Suc 0" True] st[of "Suc 0" False] st[of "Suc (Suc 0)" True]
        by (elim disjE) (simp_all add: kv)
    qed
    have n: "n - 4 + r3 = of_nat (unat n - k)"
    proof -
      have "of_nat (unat n - k) = n - of_nat k" using k(3) by (simp add: of_nat_diff)
      also have "of_nat k = 4 - r3" using r by (auto simp: k_def)
      finally show ?thesis by simp
    qed
    have "memset fuel s c n m = do { s1 \<leftarrow> store_if (r3 < 2) [?b] (?a, m); s2 \<leftarrow> store_if (r3 \<le> 2) [?b] s1; s3 \<leftarrow> store_if True [?b] s2;
        asm_memset_4bytealigned fuel c (n - 4 + r3) s3 }"
    proof -
      have "\<not> sint n < 4" using 3(2) sn by linarith
      then show ?thesis using 3(1) by (simp add: memset_def r3_def Let_def)
    qed
    also have "\<dots> = do { s3 \<leftarrow> (do { s1 \<leftarrow> store_if (r3 < 2) [?b] (?a, m); s2 \<leftarrow> store_if (r3 \<le> 2) [?b] s1; store_if True [?b] s2 });
        asm_memset_4bytealigned fuel c (n - 4 + r3) s3 }" by simp
    also have "\<dots> = asm_memset_4bytealigned fuel c (of_nat (unat n - k)) (?a + k, ram_set ?a ?b k m)" unfolding lead n by simp
    also have "\<dots> = Some (ram_set ?a ?b (k + (unat n - k)) m)"
    proof (rule aligned_fills[OF assms(1)])
      show "(unat n - k) div 64 < fuel" using div_le_mono[of "unat n - k" "unat n" 64] assms(4) by simp
    qed (use assms(2,3) k(3) in simp_all)
    finally show ?thesis using k(3) by simp
  qed
qed

section \<open>The properties\<close>

text \<open>
  C32: The \<open>memset\<close> in assembly fills exactly the \<open>n\<close> bytes from \<open>s\<close> with the value, whatever the alignment, for a value of one byte and a size
  below 2 GB: it is the assignment to every byte that the allocator relies on to clear memory.
\<close>

theorem memset_correct:
  assumes "c < 256" and "unat n < 2 ^ 31" and "unat s + unat n \<le> 2 ^ 32" and "unat n div 64 < fuel"
  shows "memset fuel s c n m = Some (ram_set (unat s) (ucast c) (unat n) m)"
  by (rule memset_fills[OF assms])

lemma memset_correct_witness: "memset 3 0x8003 86 150 mem0 = Some (ram_set 0x8003 86 150 mem0)"
  using memset_correct[where c = 86 and n = 150 and s = "0x8003" and fuel = 3 and m = mem0] by simp

text \<open>The byte-wise version needs neither limit.\<close>

lemma memset_byte_fills:
  assumes "s + n \<le> 2 ^ 32" shows "memset_byte s c n m = Some (ram_set s (ucast c) n m)"
proof -
  have "\<exists>m'. c_for n 0 (\<lambda>i. ram_put (s + i) [ucast c]) m = Some m' \<and> m' = ram_set s (ucast c) (0 + n) m"
  proof (rule c_for_inv)
    fix i m' assume "i < 0 + n" "m' = ram_set s (ucast c) i m"
    then show "\<exists>m''. ram_put (s + i) [ucast c] m' = Some m'' \<and> m'' = ram_set s (ucast c) (Suc i) m"
      using put_fill[of s i 1 "ucast c" m] assms by simp
  qed simp
  then show ?thesis by (simp add: memset_byte_def)
qed

text \<open>\<open>memset_4byte\<close> fills a word too much when the area does not start at a word: the byte two places behind the end is changed.\<close>

lemma memset_4byte_overruns:
  assumes "s mod 4 = 1" "unat s + 16 \<le> 2 ^ 32"
  shows "\<exists>m'. memset_4byte s c 5 m = Some m' \<and> ram m' (unat s + 6) = ucast c"
proof -
  let ?p = "c AND 0xff"
  have "?p OR push_bit 8 ?p OR push_bit 16 ?p OR push_bit 24 ?p = spread ?p" by (rule bit_word_eqI) (auto simp: spread_def Let_def bit_simps)
  moreover have "?p \<le> 0xff" by (rule word_and_le1)
  then have "?p < 256" by (simp add: word_less_nat_alt word_le_nat_alt)
  moreover have b: "(ucast ?p :: byte) = ucast c" 
  proof -
    have "?p = c AND mask 8" by (simp add: mask_eq_exp_minus_1)
    then show ?thesis by (simp only:) (rule bit_word_eqI, auto simp: bit_simps)
  qed
  ultimately have w: "word_bytes (?p OR push_bit 8 ?p OR push_bit 16 ?p OR push_bit 24 ?p) = replicate 4 (ucast c)"
    using word_bytes_spread[of ?p] by simp
  have e: "unat (s + 4) = unat s + 4" using assms(2) by (simp add: unat_word_ariths)
  show ?thesis using assms w e by (simp add: memset_4byte_def Let_def numeral_3_eq_3 ram_put_def)
qed

end
