(* ===== verification/Mmu.thy ===== *)
theory Mmu
  imports Memory
begin

text \<open>
  The page tables (\<open>memory/arm1176-mmu.c\<close>, \<open>memory/armv7-mmu.c\<close>) and \<open>memory_hierarchy_init\<close> of \<open>memory/memory.c\<close>: a table of 4096 sections
  of 1 MB, identity-mapped, that keeps processes out of the kernel.  Writing the table to the coprocessor, and the caches, are
  instructions in assembly and not modelled; how the hardware reads an entry is the specification at the end of the definitions.
\<close>

section \<open>Setting the tables up\<close>

abbreviation (input) "NUM_PAGE_TABLE_ENTRIES \<equiv> 4096 :: nat"
abbreviation (input) "AP_SUPERVISOR_ONLY \<equiv> 1 :: u32"
abbreviation (input) "CACHE_DISABLED \<equiv> 0x12 :: u32"
abbreviation (input) "CACHE_WRITEBACK \<equiv> 0x1e :: u32"

text \<open>
  \<open>for (i = lo; i < hi; i++) page_table[i] = i << 20 | bits\<close>.  The \<open>int i\<close> reaches 4095, and \<open>i << 20\<close> does not fit an \<open>int\<close> from 2048 on;
  the compiler of the kernel, gcc, defines such a shift by the bits that remain, and so does the model.
\<close>

definition map_sections :: "nat \<Rightarrow> nat \<Rightarrow> u32 \<Rightarrow> u32 list \<Rightarrow> u32 list option" where
  "map_sections lo hi bits = c_for (hi - lo) lo (\<lambda>i page_table. wr page_table i (push_bit 20 (of_nat i) OR bits))"

definition setup_pagetable :: "u32 \<Rightarrow> u32 \<Rightarrow> u32 \<Rightarrow> u32 list \<Rightarrow> u32 list option" where
  "setup_pagetable mem_start mem_end kernel_end pt = do {
     pt1 \<leftarrow> map_sections 0 NUM_PAGE_TABLE_ENTRIES (push_bit 10 AP_SUPERVISOR_ONLY OR CACHE_DISABLED) pt;
     pt2 \<leftarrow> map_sections (unat (drop_bit 20 mem_start)) (unat (drop_bit 20 kernel_end)) (push_bit 10 AP_SUPERVISOR_ONLY OR CACHE_WRITEBACK) pt1;
     map_sections (unat (drop_bit 20 kernel_end)) (unat (drop_bit 20 mem_end)) (push_bit 10 3 OR CACHE_WRITEBACK) pt2 }"

abbreviation (input) "SECTION_KERNEL \<equiv> 0x9140e :: u32"
abbreviation (input) "SECTION_USER \<equiv> 0x90c0e :: u32"
abbreviation (input) "SECTION_1GB \<equiv> 0x90416 :: u32"
abbreviation (input) "SECTION_2GB \<equiv> 0x90416 :: u32"
abbreviation (input) "SECTION_DEFAULT \<equiv> 0x90c16 :: u32"

definition setup_pagetable_armv7 :: "u32 \<Rightarrow> u32 \<Rightarrow> u32 \<Rightarrow> u32 list \<Rightarrow> u32 list option" where
  "setup_pagetable_armv7 mem_start mem_end kernel_end pt = do {
     pt1 \<leftarrow> map_sections 0 NUM_PAGE_TABLE_ENTRIES SECTION_DEFAULT pt;
     pt2 \<leftarrow> map_sections (unat (drop_bit 20 mem_start)) (unat (drop_bit 20 kernel_end)) SECTION_KERNEL pt1;
     pt3 \<leftarrow> map_sections (unat (drop_bit 20 kernel_end)) (unat (drop_bit 20 mem_end)) SECTION_USER pt2;
     pt4 \<leftarrow> map_sections (unat (drop_bit 20 (0x40000000 :: u32))) (unat (drop_bit 20 (0x80000000 :: u32))) SECTION_1GB pt3;
     map_sections (unat (drop_bit 20 (0x80000000 :: u32))) (Suc (unat (drop_bit 20 (0xffffffff :: u32)))) SECTION_2GB pt4 }"

text \<open>The result of \<open>memory_init\<close> is not looked at.  \<open>smp\<close>: the models with several processors, whose stacks are reserved.\<close>

definition memory_hierarchy_init :: "bool \<Rightarrow> bool \<Rightarrow> u32 \<Rightarrow> nat \<Rightarrow> mem_state \<Rightarrow> u32 list \<Rightarrow> (mem_state \<times> u32 list) option" where
  "memory_hierarchy_init armv7 smp len memory_kernel m pt = do {
     (_, m1) \<leftarrow> memory_init (unat len) memory_kernel (m\<lparr>memory_total := unat len\<rparr>);
     pt1 \<leftarrow> (if armv7 then setup_pagetable_armv7 else setup_pagetable) 0 len (of_nat RESERVED_KERNEL) pt;
     m2 \<leftarrow> (if smp then c_for 12 0xff4 (\<lambda>i. memory_mark_used (int i)) m1 else Some m1);
     Some (m2, pt1) }"

section \<open>How the hardware reads the table\<close>

text \<open>
  The entry of a section: its base address in the bits 31 to 20, the access permission in the bits 11 and 10 (3: everybody), cached in the bits
  3 and 2, and 2 in the lowest two bits.
\<close>

definition section_entry :: "u32 list \<Rightarrow> u32 \<Rightarrow> u32" where
  "section_entry pt va = pt ! unat (drop_bit 20 va)"

definition translate_address :: "u32 list \<Rightarrow> u32 \<Rightarrow> u32 option" where
  "translate_address pt va = (if section_entry pt va AND 3 = 2 then Some ((section_entry pt va AND NOT (mask 20)) OR (va AND mask 20)) else None)"

definition user_access :: "u32 list \<Rightarrow> u32 \<Rightarrow> bool" where
  "user_access pt va \<longleftrightarrow> drop_bit 10 (section_entry pt va) AND 3 = 3"

definition cached :: "u32 list \<Rightarrow> u32 \<Rightarrow> bool" where
  "cached pt va \<longleftrightarrow> section_entry pt va AND 12 = 12"

section \<open>The tables\<close>

lemma map_sections_eq:
  assumes "hi \<le> length pt"
  shows "map_sections lo hi bits pt = Some (map (\<lambda>i. if lo \<le> i \<and> i < hi then push_bit 20 (of_nat i) OR bits else pt ! i) [0..<length pt])"
proof (cases "lo \<le> hi")
  case True
  let ?f = "\<lambda>j. map (\<lambda>i. if lo \<le> i \<and> i < j then push_bit 20 (of_nat i) OR bits else pt ! i) [0..<length pt]"
  have "\<exists>pt'. map_sections lo hi bits pt = Some pt' \<and> pt' = ?f (lo + (hi - lo))"
    unfolding map_sections_def
  proof (rule c_for_inv)
    show "pt = ?f lo" by (rule nth_equalityI) auto
    fix j s assume j: "lo \<le> j" "j < lo + (hi - lo)" "s = ?f j"
    then have "j < length s" using assms by simp
    then show "\<exists>s'. wr s j (push_bit 20 (of_nat j) OR bits) = Some s' \<and> s' = ?f (Suc j)"
      using j by (auto simp: wr_def nth_list_update intro!: nth_equalityI)
  qed
  then show ?thesis using True by simp
next
  case False
  then show ?thesis by (auto simp: map_sections_def intro!: nth_equalityI)
qed

text \<open>The entry of an address in a section that is mapped with the bits \<open>k\<close>.\<close>

lemma section_fields:
  assumes "section_entry pt va = push_bit 20 (drop_bit 20 va) OR k" "k < 2 ^ 20"
  shows "translate_address pt va = (if k AND 3 = 2 then Some va else None)" "user_access pt va \<longleftrightarrow> drop_bit 10 k AND 3 = 3"
    "cached pt va \<longleftrightarrow> k AND 12 = 12"
proof -
  have k: "n < 20" if "bit k n" for n
  proof -
    have "unat k < 2 ^ 20" using assms(2) by (simp add: word_less_nat_alt)
    then have "take_bit 20 (unat k) = unat k" by (simp add: take_bit_nat_eq_self)
    moreover have "bit (unat k) n" using that by (simp add: bit_unsigned_iff)
    ultimately show ?thesis by (metis bit_take_bit_iff)
  qed
  have low: "(push_bit 20 (drop_bit 20 va) OR k) AND mask 20 = k" by (rule bit_word_eqI) (auto simp: bit_simps dest: k)
  have le: "x AND w = (x AND mask 20) AND w" if "w AND mask 20 = w" for x w :: u32
    using that by (metis and.assoc and.commute)
  have m: "(3 :: u32) AND mask 20 = 3" "(12 :: u32) AND mask 20 = 12" "(0xc00 :: u32) AND mask 20 = 0xc00" by (simp_all add: mask_eq_exp_minus_1)
  have a: "section_entry pt va AND 3 = k AND 3" "section_entry pt va AND 12 = k AND 12" "section_entry pt va AND 0xc00 = k AND 0xc00"
    unfolding assms(1) by (subst le[OF m(1)] le[OF m(2)] le[OF m(3)], simp only: low)+
  have d: "drop_bit 10 w AND 3 = drop_bit 10 (w AND 0xc00)" for w :: u32
  proof -
    have "(0xc00 :: u32) = push_bit 10 3" by simp
    then show ?thesis by (simp add: drop_bit_and)
  qed
  have base: "(section_entry pt va AND NOT (mask 20)) OR (va AND mask 20) = va"
    unfolding assms(1) by (rule bit_word_eqI) (auto simp: bit_simps dest: k)
  show "translate_address pt va = (if k AND 3 = 2 then Some va else None)" unfolding translate_address_def a base by simp
  show "user_access pt va \<longleftrightarrow> drop_bit 10 k AND 3 = 3" unfolding user_access_def d a ..
  show "cached pt va \<longleftrightarrow> k AND 12 = 12" unfolding cached_def a ..
qed

lemma section_number: "unat (drop_bit 20 (w :: u32)) = unat w div 2 ^ 20"
  by (subst unat_drop_bit_eq) (simp add: drop_bit_eq_div)

lemma section_less: "unat (drop_bit 20 (va :: u32)) < 4096"
  unfolding section_number by (rule less_mult_imp_div_less) (use unat32_lt[of va] in simp)

lemma mapped_entry:
  assumes "map_sections lo hi bits pt = Some pt'" "hi \<le> 4096" "length pt = 4096"
  shows "length pt' = 4096" "section_entry pt' va = (if lo \<le> unat (drop_bit 20 va) \<and> unat (drop_bit 20 va) < hi
    then push_bit 20 (drop_bit 20 va) OR bits else section_entry pt va)"
proof -
  have pt': "pt' = map (\<lambda>i. if lo \<le> i \<and> i < hi then push_bit 20 (of_nat i) OR bits else pt ! i) [0..<4096]"
    using assms map_sections_eq[of hi pt lo bits] by simp
  show "length pt' = 4096" unfolding pt' by simp
  show "section_entry pt' va = (if lo \<le> unat (drop_bit 20 va) \<and> unat (drop_bit 20 va) < hi
    then push_bit 20 (drop_bit 20 va) OR bits else section_entry pt va)"
    unfolding section_entry_def pt' using section_less[of va] by simp
qed

definition section_bits :: "nat \<Rightarrow> nat \<Rightarrow> nat \<Rightarrow> u32" where
  "section_bits hi lo n = (if lo \<le> n \<and> n < hi then 0xc1e else if n < lo then 0x41e else 0x412)"

lemma setup_entries:
  assumes "length pt = 4096"
  shows "\<exists>pt'. setup_pagetable 0 mem_end (of_nat RESERVED_KERNEL) pt = Some pt' \<and>
    (\<forall>va. section_entry pt' va = push_bit 20 (drop_bit 20 va) OR section_bits (unat (drop_bit 20 mem_end)) 16 (unat (drop_bit 20 va)))"
proof -
  let ?e = "unat (drop_bit 20 mem_end)"
  obtain pt1 where 1: "map_sections 0 4096 0x412 pt = Some pt1" using map_sections_eq[of 4096 pt] assms by simp
  note m1 = mapped_entry[OF 1 _ assms]
  obtain pt2 where 2: "map_sections 0 16 0x41e pt1 = Some pt2" using map_sections_eq[of 16 pt1] m1(1) by simp
  note m2 = mapped_entry[OF 2 _ m1(1)]
  obtain pt3 where 3: "map_sections 16 ?e 0xc1e pt2 = Some pt3"
    using map_sections_eq[of ?e pt2] m2(1) section_less[of mem_end] by simp
  note m3 = mapped_entry[OF 3 _ m2(1)]
  have "setup_pagetable 0 mem_end (of_nat RESERVED_KERNEL) pt = Some pt3"
    using 1 2 3 by (simp add: setup_pagetable_def)
  moreover have "section_entry pt3 va = push_bit 20 (drop_bit 20 va) OR section_bits ?e 16 (unat (drop_bit 20 va))" for va
    using m1(2) m2(2) m3(2) section_less[of va] section_less[of mem_end] by (simp add: section_bits_def)
  ultimately show ?thesis by blast
qed

lemma setup_protects:
  assumes "length pt = 4096"
  shows "\<exists>pt'. setup_pagetable 0 mem_end (of_nat RESERVED_KERNEL) pt = Some pt' \<and> (\<forall>va. translate_address pt' va = Some va
      \<and> (user_access pt' va \<longleftrightarrow> 16 \<le> unat va div 2 ^ 20 \<and> unat va div 2 ^ 20 < unat mem_end div 2 ^ 20)
      \<and> (cached pt' va \<longleftrightarrow> unat va div 2 ^ 20 < 16 \<or> unat va div 2 ^ 20 < unat mem_end div 2 ^ 20))"
proof -
  obtain pt' where pt': "setup_pagetable 0 mem_end (of_nat RESERVED_KERNEL) pt = Some pt'"
    "\<And>va. section_entry pt' va = push_bit 20 (drop_bit 20 va) OR section_bits (unat (drop_bit 20 mem_end)) 16 (unat (drop_bit 20 va))"
    using setup_entries[OF assms] by blast
  note d = section_number
  have "section_bits x 16 y < 2 ^ 20" for x y by (simp add: section_bits_def)
  from section_fields[OF pt'(2) this] show ?thesis
    using pt'(1) by (intro exI[of _ pt'] conjI allI) (simp_all add: section_bits_def d)
qed

section \<open>The properties\<close>

text \<open>
  C10: The page table maps every address to itself, and a process can reach exactly the memory behind the first 16 MB, up to the end of the last
  whole megabyte: with memory in whole megabytes every block of the allocator is open to processes if it was allocated for them,
  and closed if it was allocated for the kernel.
\<close>

theorem blocks_protected:
  assumes "length pt = 4096" and "mem_wf m" and "max_chunk m = unat mem_end div 4096" and "unat mem_end mod 2 ^ 20 = 0"
    and "type < 2" and "memory_allocate sz type m = Some (p, m')"
  shows "\<exists>pt'. setup_pagetable 0 mem_end (of_nat RESERVED_KERNEL) pt = Some pt' \<and> (\<forall>va. translate_address pt' va = Some va)
    \<and> (\<forall>va. p \<le> unat va \<and> unat va < p + 4096 * alloc_size sz \<longrightarrow> (user_access pt' va \<longleftrightarrow> type = MEMORY_USER))"
proof -
  obtain pt' where pt': "setup_pagetable 0 mem_end (of_nat RESERVED_KERNEL) pt = Some pt'" "\<And>va. translate_address pt' va = Some va"
    "\<And>va. user_access pt' va \<longleftrightarrow> 16 \<le> unat va div 2 ^ 20 \<and> unat va div 2 ^ 20 < unat mem_end div 2 ^ 20"
    using setup_protects[OF assms(1), of mem_end] by blast
  obtain start "end" c where c: "alloc_area type m = Some (start, end)" "p = 4096 * c" "start \<le> c" "c + alloc_size sz < end"
    using memory_allocate_result[OF assms(2,5,6)] by (auto simp: free_run_def)
  have "user_access pt' va \<longleftrightarrow> type = MEMORY_USER" if va: "p \<le> unat va" "unat va < p + 4096 * alloc_size sz" for va
  proof (cases "type = MEMORY_USER")
    case True
    then have "4096 \<le> c" "c + alloc_size sz < unat mem_end div 4096" using c(1,3,4) assms(3) by (auto simp: alloc_area_def)
    then have "16 * 2 ^ 20 \<le> unat va" "unat va < unat mem_end" using va c(2) by simp_all
    moreover have "unat mem_end = unat mem_end div 2 ^ 20 * 2 ^ 20" using assms(4) div_mult_mod_eq[of "unat mem_end" "2 ^ 20"] by simp
    ultimately have "unat va div 2 ^ 20 < unat mem_end div 2 ^ 20" using less_mult_imp_div_less[of "unat va" "unat mem_end div 2 ^ 20" "2 ^ 20"] by simp
    then show ?thesis using True pt'(3) \<open>16 * 2 ^ 20 \<le> unat va\<close> by simp
  next
    case False
    then have "c + alloc_size sz < 4096" using c(1,4) assms(5) by (auto simp: alloc_area_def split: if_splits)
    then show ?thesis using False pt'(3) va c(2) by simp
  qed
  then show ?thesis using pt'(1,2) by blast
qed

lemma blocks_protected_witness:
  "\<exists>p m' pt'. memory_allocate 10000 MEMORY_USER mem0 = Some (p, m') \<and> setup_pagetable 0 0x10000000 (of_nat RESERVED_KERNEL) (replicate 4096 0) = Some pt'
    \<and> (\<forall>va. p \<le> unat va \<and> unat va < p + 12288 \<longrightarrow> user_access pt' va)"
proof -
  have "alloc_area MEMORY_USER mem0 = Some (4096, 65536)" "free_run mem0 (alloc_size 10000) 4096 65536 4096"
    by (simp_all add: alloc_area_def free_run_def alloc_size_def num_chunks_def mem0_def) (auto simp: used_chunks_def chunk_valid_def chunk_used_def)
  then obtain c m' where a: "memory_allocate 10000 MEMORY_USER mem0 = Some (4096 * c, m')"
    using memory_allocate_some[of mem0 MEMORY_USER 4096 65536 10000 4096] by auto
  have "\<exists>pt'. setup_pagetable 0 0x10000000 (of_nat RESERVED_KERNEL) (replicate 4096 0) = Some pt' \<and> (\<forall>va. translate_address pt' va = Some va)
    \<and> (\<forall>va. 4096 * c \<le> unat va \<and> unat va < 4096 * c + 4096 * alloc_size 10000 \<longrightarrow> (user_access pt' va \<longleftrightarrow> MEMORY_USER = MEMORY_USER))"
    by (rule blocks_protected[OF _ mem0_wf _ _ _ a]) (simp_all add: mem0_def)
  then show ?thesis using a by (auto simp: alloc_size_def num_chunks_def)
qed

text \<open>
  The table of the ARMv7 build is not what its comment says (``Cache disabled, supervisor access only''): between the end of memory and 1 GB, where
  the Raspberry Pi 2 and 3 have their devices, every process can read and write.
\<close>

lemma armv7_devices_open:
  assumes "length pt = 4096" "0x1000000 \<le> mem_end" "mem_end \<le> 0x3f000000" "0x3f000000 \<le> va" "va < 0x40000000"
  shows "\<exists>pt'. setup_pagetable_armv7 0 mem_end (of_nat RESERVED_KERNEL) pt = Some pt' \<and> user_access pt' va \<and> translate_address pt' va = Some va"
proof -
  let ?e = "unat (drop_bit 20 mem_end)" and ?n = "unat (drop_bit 20 va)"
  note d = section_number
  have "unat mem_end div 2 ^ 20 \<le> 1008" using div_le_mono[of "unat mem_end" "0x3f000000" "2 ^ 20"] assms(3) by (simp add: word_le_nat_alt)
  moreover have "1008 \<le> unat va div 2 ^ 20" using div_le_mono[of "0x3f000000" "unat va" "2 ^ 20"] assms(4) by (simp add: word_le_nat_alt)
  moreover have "unat va div 2 ^ 20 < 1024" using less_mult_imp_div_less[of "unat va" 1024 "2 ^ 20"] assms(5) by (simp add: word_less_nat_alt)
  ultimately have n: "?e \<le> 1008" "1008 \<le> ?n" "?n < 1024" by (simp_all only: d)
  obtain pt1 where 1: "map_sections 0 4096 SECTION_DEFAULT pt = Some pt1" using map_sections_eq[of 4096 pt] assms(1) by simp
  note m1 = mapped_entry[OF 1 _ assms(1)]
  obtain pt2 where 2: "map_sections 0 16 SECTION_KERNEL pt1 = Some pt2" using map_sections_eq[of 16 pt1] m1(1) by simp
  note m2 = mapped_entry[OF 2 _ m1(1)]
  obtain pt3 where 3: "map_sections 16 ?e SECTION_USER pt2 = Some pt3" using map_sections_eq[of ?e pt2] m2(1) section_less[of mem_end] by simp
  note m3 = mapped_entry[OF 3 _ m2(1)]
  obtain pt4 where 4: "map_sections 1024 2048 SECTION_1GB pt3 = Some pt4" using map_sections_eq[of 2048 pt3] m3(1) n by simp
  note m4 = mapped_entry[OF 4 _ m3(1)]
  obtain pt5 where 5: "map_sections 2048 4096 SECTION_2GB pt4 = Some pt5" using map_sections_eq[of 4096 pt4] m4(1) n by simp
  note m5 = mapped_entry[OF 5 _ m4(1)]
  have "setup_pagetable_armv7 0 mem_end (of_nat RESERVED_KERNEL) pt = Some pt5" using 1 2 3 4 5 by (simp add: setup_pagetable_armv7_def)
  moreover have "section_entry pt5 va = push_bit 20 (drop_bit 20 va) OR SECTION_DEFAULT"
    using m1(2) m2(2) m3(2) m4(2) m5(2) n section_less[of mem_end] by simp
  from section_fields[OF this] have "user_access pt5 va \<and> translate_address pt5 va = Some va" by simp
  ultimately show ?thesis by blast
qed

end
