(* ===== verification/Mkromfs.thy ===== *)
theory Mkromfs
  imports Loader
begin

text \<open>
  \<open>fstools/mkromfs.c\<close>, the tool that writes the image \<open>kernel/fs/romfs/romfs.c\<close> reads: the output file with its position, the checksums, and
  the images it makes, as the lookup of the kernel sees them.  The host is little-endian and the output file can be written.
\<close>

section \<open>The output file\<close>

type_synonym out_file = "bytes \<times> nat"

definition fwrite :: "bytes \<Rightarrow> out_file \<Rightarrow> out_file" where
  "fwrite bs = (\<lambda>(d, p). (take p d @ replicate (p - length d) 0 @ bs @ drop (p + length bs) d, p + length bs))"

definition fseek :: "nat \<Rightarrow> out_file \<Rightarrow> out_file" where
  "fseek p = (\<lambda>(d, _). (d, p))"

text \<open>Addition to an \<open>int\<close>, undefined when it overflows.\<close>

definition int_add :: "nat \<Rightarrow> nat \<Rightarrow> nat option" where
  "int_add a b = (if a + b < 2 ^ 31 then Some (a + b) else None)"

text \<open>The position is restored at the end.  A short read would leave an old value in \<open>temp_int\<close>.\<close>

definition affs_checksum :: "nat \<Rightarrow> nat \<Rightarrow> nat \<Rightarrow> out_file \<Rightarrow> u32 option" where
  "affs_checksum lo hi limit = (\<lambda>(d, _). do {
     let n = hi - lo;
     let n = (if limit \<noteq> 0 \<and> limit < n then limit else n) div 4;
     checksum \<leftarrow> c_for n 0 (\<lambda>i checksum. do { b \<leftarrow> slice d (lo + 4 * i) 4; Some (checksum + ntohl (le32 b)) }) 0;
     Some ((0xffffffff - checksum) + 1) })"

section \<open>The parts of the image\<close>

abbreviation (input) "REGULAR_FILE \<equiv> 2 :: u32"
abbreviation (input) "DIRECTORY \<equiv> 1 :: u32"
abbreviation (input) "EXECUTABLE \<equiv> 8 :: u32"

definition pad16 :: "nat \<Rightarrow> bytes" where
  "pad16 n = replicate (16 - n mod 16) 0"

text \<open>\<open>buffer\<close> is not initialised; its last 8 bytes go to the places of the size and the checksum.\<close>

definition write_header :: "bytes \<Rightarrow> out_file \<Rightarrow> out_file" where
  "write_header buffer f = fwrite ([86, 77, 87, 111, 115] @ replicate 11 0) (fwrite (romfs_magic @ drop 8 buffer) f)"

text \<open>The two entries of the root directory, at 0x20 and 0x40.\<close>

definition write_dot :: "out_file \<Rightarrow> out_file option" where
  "write_dot f = do {
     let f1 = fwrite (htonl_bytes (0x40 OR DIRECTORY OR EXECUTABLE) @ htonl_bytes 0x20 @ htonl_bytes 0 @ htonl_bytes 0) f;
     let f2 = fwrite ([46] @ replicate 15 0) f1;
     checksum \<leftarrow> affs_checksum 0x20 0x40 0 f2;
     Some (fseek 0x40 (fwrite (htonl_bytes checksum) (fseek (snd f2 - 20) f2))) }"

definition write_dotdot :: "out_file \<Rightarrow> out_file option" where
  "write_dotdot f = do {
     let f1 = fwrite (htonl_bytes 0x60 @ htonl_bytes 0x20 @ htonl_bytes 0 @ htonl_bytes 0) f;
     let f2 = fwrite ([46, 46] @ replicate 14 0) f1;
     checksum \<leftarrow> affs_checksum 0x40 0x60 0 f2;
     Some (fseek 0x60 (fwrite (htonl_bytes checksum) (fseek (snd f2 - 20) f2))) }"

text \<open>
  A file: room for the header, the name and the contents, then the header.  \<open>contents\<close> gives what a file holds, or \<open>None\<close> when it
  cannot be opened.  The result is the size of the image so far, or \<open>None\<close> for the exit with an error.
\<close>

definition add_file :: "(bytes \<Rightarrow> bytes option) \<Rightarrow> bytes \<Rightarrow> nat \<times> out_file \<Rightarrow> (nat option \<times> out_file) option" where
  "add_file contents name = (\<lambda>(sz, f). do {
     let last_offset = snd f;
     let f1 = fwrite (replicate 16 0) f;
     sz1 \<leftarrow> int_add sz 16;
     let f2 = fwrite (pad16 (length name)) (fold (\<lambda>c. fwrite [c]) name f1);
     let blargh_offset = snd f2;
     sz2 \<leftarrow> int_add sz1 (length name + length (pad16 (length name)));
     (case contents name of None \<Rightarrow> Some (None, f2)
      | Some bs \<Rightarrow> do {
          file_size \<leftarrow> int_add 0 (length bs);
          let f3 = fwrite (pad16 file_size) (fold (\<lambda>c. fwrite [c]) bs f2);
          sz3 \<leftarrow> int_add sz2 (file_size + length (pad16 file_size));
          let next_offset = snd f3;
          let f4 = fwrite (htonl_bytes (of_nat file_size)) (fwrite (htonl_bytes 0) (fwrite (htonl_bytes REGULAR_FILE) (fseek last_offset f3)));
          checksum \<leftarrow> affs_checksum last_offset blargh_offset 0 f4;
          Some (Some sz3, fseek next_offset (fwrite (htonl_bytes checksum) f4)) }) })"

fun add_files :: "(bytes \<Rightarrow> bytes option) \<Rightarrow> bytes list \<Rightarrow> nat \<times> out_file \<Rightarrow> (nat option \<times> out_file) option" where
  "add_files contents [] (sz, f) = Some (Some sz, f)"
| "add_files contents (name # names) (sz, f) = do {
     (r, f1) \<leftarrow> add_file contents name (sz, f);
     (case r of None \<Rightarrow> Some (None, f1) | Some sz1 \<Rightarrow> add_files contents names (sz1, f1)) }"

definition mkromfs :: "bytes \<Rightarrow> (bytes \<Rightarrow> bytes option) \<Rightarrow> bytes list \<Rightarrow> (int \<times> bytes) option" where
  "mkromfs buffer contents names = do {
     f1 \<leftarrow> write_dot (write_header buffer ([], 0));
     f2 \<leftarrow> write_dotdot f1;
     (r, f3) \<leftarrow> add_files contents names (0x60, f2);
     (case r of None \<Rightarrow> Some (- 1, fst f3)
      | Some sz \<Rightarrow> do {
          let f4 = fwrite (htonl_bytes (of_nat sz)) (fseek 8 f3);
          checksum \<leftarrow> affs_checksum 0 512 sz f4;
          let f5 = fwrite (htonl_bytes checksum) (fseek 12 f4);
          let f6 = (if sz < 1024 then fwrite [0] (fseek 1023 f5) else f5);
          Some (0, fst f6) }) }"

section \<open>Writing and summing\<close>

lemma fwrite_end: "fwrite bs (d, length d) = (d @ bs, length (d @ bs))"
  by (simp add: fwrite_def)

lemma fwrite_chars: "fold (\<lambda>c. fwrite [c]) bs (d, length d) = (d @ bs, length (d @ bs))"
proof (induction bs arbitrary: d)
  case (Cons a bs)
  show ?case using Cons.IH[of "d @ [a]"] by (simp add: fwrite_end)
qed simp

lemma fwrite_over: "p = length xs \<Longrightarrow> length ys = length bs \<Longrightarrow> fwrite bs (xs @ ys @ zs, p) = (xs @ bs @ zs, p + length bs)"
  by (simp add: fwrite_def)

text \<open>The sum of the words of a list of bytes.\<close>

fun words_sum :: "bytes \<Rightarrow> u32" where
  "words_sum (a # b # c # d # r) = ntohl (le32 [a, b, c, d]) + words_sum r"
| "words_sum _ = 0"

lemma words_sum_4: "length xs = 4 \<Longrightarrow> words_sum (xs @ ys) = ntohl (le32 xs) + words_sum ys"
  by (auto simp: length_Suc_conv numeral_eq_Suc)

lemma words_sum_append: "length xs mod 4 = 0 \<Longrightarrow> words_sum (xs @ ys) = words_sum xs + words_sum ys"
  by (induction xs rule: words_sum.induct) auto

lemma words_sum_htonl: "words_sum (htonl_bytes w @ ys) = w + words_sum ys" "words_sum (htonl_bytes w) = w"
  using words_sum_4[of "htonl_bytes w" ys] words_sum_4[of "htonl_bytes w" "[]"] by simp_all

lemma affs_checksum_eq:
  assumes "n = (if limit \<noteq> 0 \<and> limit < hi - lo then limit else hi - lo)" "n mod 4 = 0" "lo + n \<le> length d"
  shows "affs_checksum lo hi limit (d, p) = Some (- words_sum (take n (drop lo d)))"
proof -
  define k where "k = n div 4"
  have n: "n = 4 * k" using assms(2) by (auto simp: k_def)
  have "\<exists>s. c_for k 0 (\<lambda>i checksum. do { b \<leftarrow> slice d (lo + 4 * i) 4; Some (checksum + ntohl (le32 b)) }) 0 = Some s
      \<and> s = words_sum (take (4 * (0 + k)) (drop lo d))"
  proof (rule c_for_inv)
    fix i s assume i: "i < 0 + k" "s = words_sum (take (4 * i) (drop lo d))"
    have le: "lo + 4 * i + 4 \<le> length d" using i(1) assms(3) n by simp
    have "take (4 * Suc i) (drop lo d) = take (4 * i) (drop lo d) @ take 4 (drop (lo + 4 * i) d)"
      using take_add[of "4 * i" 4 "drop lo d"] by (simp add: add.commute add.left_commute)
    moreover have "words_sum (take 4 (drop (lo + 4 * i) d)) = ntohl (le32 (take 4 (drop (lo + 4 * i) d)))"
      using words_sum_4[of "take 4 (drop (lo + 4 * i) d)" "[]"] le by simp
    moreover have "length (take (4 * i) (drop lo d)) mod 4 = 0" using le by simp
    ultimately show "\<exists>s'. do { b \<leftarrow> slice d (lo + 4 * i) 4; Some (s + ntohl (le32 b)) } = Some s' \<and> s' = words_sum (take (4 * Suc i) (drop lo d))"
      using i(2) le by (simp only: slice_eq bind.bind_lunit words_sum_append) simp
  qed simp
  moreover have "(if limit \<noteq> 0 \<and> limit < hi - lo then limit else hi - lo) div 4 = k" using assms(1) n by simp
  ultimately show ?thesis unfolding affs_checksum_def by (simp add: n Let_def)
qed

section \<open>The image\<close>

definition file_head :: "nat \<Rightarrow> bytes" where
  "file_head n = htonl_bytes REGULAR_FILE @ htonl_bytes 0 @ htonl_bytes (of_nat n)"

definition file_entry :: "bytes \<Rightarrow> bytes \<Rightarrow> bytes" where
  "file_entry name bs = file_head (length bs) @ htonl_bytes (- words_sum (file_head (length bs) @ name @ pad16 (length name)))
     @ (name @ pad16 (length name)) @ (bs @ pad16 (length bs))"

lemma length_pad16: "(n + length (pad16 n)) mod 16 = 0" "length (n0 @ pad16 (length n0)) = chunks (length n0)"
proof -
  have "n + (16 - n mod 16) = chunks n" for n unfolding chunks_def by presburger
  then show "(n + length (pad16 n)) mod 16 = 0" "length (n0 @ pad16 (length n0)) = chunks (length n0)"
    by (simp_all add: pad16_def chunks_def)
qed

lemma chunks_mod [simp]: "chunks n mod 16 = 0" "chunks n mod 4 = 0" "16 dvd chunks n" "(16 + chunks n) mod 4 = 0"
proof -
  have "chunks n = 16 * (n div 16 + 1)" by (simp add: chunks_def)
  then show "chunks n mod 16 = 0" "chunks n mod 4 = 0" "16 dvd chunks n" "(16 + chunks n) mod 4 = 0" by (metis mod_mult_self1_is_0, presburger, simp, presburger)
qed

lemma length_file_entry: "length (file_entry name bs) = 16 + chunks (length name) + chunks (length bs)"
  using length_pad16(2)[of name] length_pad16(2)[of bs] by (simp add: file_entry_def file_head_def)

lemma add_file_eq:
  assumes "contents name = Some bs" "length d + length (file_entry name bs) < 2 ^ 31"
  shows "add_file contents name (length d, d, length d)
    = Some (Some (length (d @ file_entry name bs)), d @ file_entry name bs, length (d @ file_entry name bs))"
proof -
  let ?n = "name @ pad16 (length name)" and ?b = "bs @ pad16 (length bs)" and ?h = "file_head (length bs)"
  let ?d = "d @ replicate 16 0"
  note len = length_pad16(2)[of name] length_pad16(2)[of bs] length_file_entry[of name bs]
  have f2: "fwrite (pad16 (length name)) (fold (\<lambda>c. fwrite [c]) name (fwrite (replicate 16 0) (d, length d))) = (?d @ ?n, length (?d @ ?n))"
    by (simp only: fwrite_end fwrite_chars append_assoc)
  have f3: "fwrite (pad16 (length bs)) (fold (\<lambda>c. fwrite [c]) bs (?d @ ?n, length (?d @ ?n))) = (?d @ ?n @ ?b, length (?d @ ?n @ ?b))"
    by (simp only: fwrite_end fwrite_chars append_assoc)
  have r: "replicate 16 0 = replicate 4 0 @ replicate 4 0 @ replicate 4 0 @ replicate 4 (0 :: byte)" by (simp flip: replicate_add)
  have w: "fwrite (htonl_bytes w) (xs @ replicate 4 0 @ zs, length xs) = ((xs @ htonl_bytes w) @ zs, length (xs @ htonl_bytes w))" for w xs zs
    using fwrite_over[of "length xs" xs "replicate 4 0" "htonl_bytes w" zs] by simp
  have f4: "fwrite (htonl_bytes (of_nat (length bs))) (fwrite (htonl_bytes 0) (fwrite (htonl_bytes REGULAR_FILE) (fseek (length d) (?d @ ?n @ ?b, q))))
      = ((d @ ?h) @ replicate 4 0 @ ?n @ ?b, length (d @ ?h))" for q
    using w[of REGULAR_FILE d "replicate 4 0 @ replicate 4 0 @ replicate 4 0 @ ?n @ ?b"]
      w[of 0 "d @ htonl_bytes REGULAR_FILE" "replicate 4 0 @ replicate 4 0 @ ?n @ ?b"]
      w[of "of_nat (length bs)" "d @ htonl_bytes REGULAR_FILE @ htonl_bytes 0" "replicate 4 0 @ ?n @ ?b"]
    by (simp add: fseek_def r file_head_def)
  have m: "take (length (?d @ ?n) - length d) (drop (length d) ((d @ ?h) @ replicate 4 0 @ ?n @ ?b)) = ?h @ replicate 4 0 @ ?n"
    by (simp add: file_head_def)
  have "affs_checksum (length d) (length (?d @ ?n)) 0 ((d @ ?h) @ replicate 4 0 @ ?n @ ?b, length (d @ ?h))
      = Some (- words_sum (?h @ replicate 4 0 @ ?n))"
    by (subst affs_checksum_eq[OF refl]) (use len(1) m in \<open>simp_all add: file_head_def\<close>)
  also have "words_sum (?h @ replicate 4 0 @ ?n) = words_sum (?h @ ?n)"
    using words_sum_4[of "replicate 4 0" ?n] by (simp add: words_sum_htonl file_head_def le32_def ntohl_def)
  finally have cs: "affs_checksum (length d) (length (?d @ ?n)) 0 ((d @ ?h) @ replicate 4 0 @ ?n @ ?b, length (d @ ?h)) = Some (- words_sum (?h @ ?n))" .
  let ?l = "length d + 16 + (length name + length (pad16 (length name)))"
  have i: "int_add (length d) 16 = Some (length d + 16)" "int_add (length d + 16) (length name + length (pad16 (length name))) = Some ?l"
    "int_add 0 (length bs) = Some (length bs)" "int_add ?l (length bs + length (pad16 (length bs))) = Some (?l + (length bs + length (pad16 (length bs))))"
    using assms(2) len by (simp_all add: int_add_def)
  have e: "add_file contents name (length d, d, length d) = Some (Some (?l + (length bs + length (pad16 (length bs)))),
      fseek (length (?d @ ?n @ ?b)) (fwrite (htonl_bytes (- words_sum (?h @ ?n))) ((d @ ?h) @ replicate 4 0 @ ?n @ ?b, length (d @ ?h))))"
    by (simp only: add_file_def prod.case snd_conv Let_def f2 assms(1) i bind.bind_lunit option.case f3 f4 cs add_0)
  have l: "?l + (length bs + length (pad16 (length bs))) = length (d @ file_entry name bs)" "length (?d @ ?n @ ?b) = length (d @ file_entry name bs)"
    using len by simp_all
  have "(d @ ?h) @ htonl_bytes w @ ?n @ ?b = d @ ?h @ htonl_bytes w @ ?n @ ?b" for w by simp
  then show ?thesis unfolding e w l fseek_def prod.case by (simp only: file_entry_def append_assoc)
qed

lemma add_files_eq:
  assumes "\<And>n. n \<in> set names \<Longrightarrow> contents n \<noteq> None" "d' = d @ concat (map (\<lambda>n. file_entry n (the (contents n))) names)"
    and "length d' < 2 ^ 31"
  shows "add_files contents names (length d, d, length d) = Some (Some (length d'), d', length d')"
  using assms
proof (induction names arbitrary: d)
  case (Cons n names)
  obtain bs where bs: "contents n = Some bs" using Cons.prems(1)[of n] by auto
  let ?d = "d @ file_entry n bs"
  have a: "add_file contents n (length d, d, length d) = Some (Some (length ?d), ?d, length ?d)"
    by (rule add_file_eq[where bs = bs]) (use Cons.prems(2,3) bs in simp_all)
  have "add_files contents names (length ?d, ?d, length ?d) = Some (Some (length d'), d', length d')"
    by (rule Cons.IH) (use Cons.prems bs in simp_all)
  then show ?case unfolding add_files.simps a by simp
qed simp

text \<open>The headers of \<open>.\<close> and \<open>..\<close>, and the whole image; its size is a multiple of 16.\<close>

definition dot_entry :: "u32 \<Rightarrow> bytes \<Rightarrow> bytes" where
  "dot_entry nxt nm = (let h = htonl_bytes nxt @ htonl_bytes 0x20 @ htonl_bytes 0; n = nm @ replicate (16 - length nm) 0 in
     h @ htonl_bytes (- words_sum (h @ n)) @ n)"

definition rom_body :: "bytes \<Rightarrow> (bytes \<Rightarrow> bytes option) \<Rightarrow> bytes list \<Rightarrow> bytes" where
  "rom_body buffer contents names = romfs_magic @ drop 8 buffer @ [86, 77, 87, 111, 115] @ replicate 11 0 @ dot_entry 0x49 [46] @ dot_entry 0x60 [46, 46]
     @ concat (map (\<lambda>n. file_entry n (the (contents n))) names)"

lemma length_dot_entry: "length nm \<le> 16 \<Longrightarrow> length (dot_entry nxt nm) = 32"
  by (simp add: dot_entry_def Let_def)

lemma write_dot_eq:
  assumes "length d = 0x20"
  shows "write_dot (d, length d) = Some (d @ dot_entry 0x49 [46], 0x40)"
proof -
  let ?h = "htonl_bytes 0x49 @ htonl_bytes 0x20 @ htonl_bytes 0" and ?n = "[46] @ replicate 15 (0 :: byte)"
  let ?d = "d @ ?h @ htonl_bytes 0 @ ?n"
  have f2: "fwrite ?n (fwrite (?h @ htonl_bytes 0) (d, length d)) = (?d, length ?d)" by (simp only: fwrite_end append_assoc)
  have "affs_checksum 0x20 0x40 0 (?d, length ?d) = Some (- words_sum (?h @ htonl_bytes 0 @ ?n))"
    by (subst affs_checksum_eq[OF refl]) (use assms in simp_all)
  moreover have "words_sum (?h @ htonl_bytes 0 @ ?n) = words_sum (?h @ ?n)" by (simp add: words_sum_htonl)
  moreover have "fwrite (htonl_bytes w) (fseek (length ?d - 20) (?d, length ?d)) = (d @ ?h @ htonl_bytes w @ ?n, length (d @ ?h @ htonl_bytes w))" for w
    using fwrite_over[of "length ?d - 20" "d @ ?h" "htonl_bytes 0" "htonl_bytes w" ?n] by (simp add: fseek_def)
  ultimately show ?thesis
    unfolding write_dot_def using f2 by (simp add: Let_def fseek_def dot_entry_def)
qed

lemma write_dotdot_eq:
  assumes "length d = 0x40"
  shows "write_dotdot (d, length d) = Some (d @ dot_entry 0x60 [46, 46], 0x60)"
proof -
  let ?h = "htonl_bytes 0x60 @ htonl_bytes 0x20 @ htonl_bytes 0" and ?n = "[46, 46] @ replicate 14 (0 :: byte)"
  let ?d = "d @ ?h @ htonl_bytes 0 @ ?n"
  have f2: "fwrite ?n (fwrite (?h @ htonl_bytes 0) (d, length d)) = (?d, length ?d)" by (simp only: fwrite_end append_assoc)
  have "affs_checksum 0x40 0x60 0 (?d, length ?d) = Some (- words_sum (?h @ htonl_bytes 0 @ ?n))"
    by (subst affs_checksum_eq[OF refl]) (use assms in simp_all)
  moreover have "words_sum (?h @ htonl_bytes 0 @ ?n) = words_sum (?h @ ?n)" by (simp add: words_sum_htonl)
  moreover have "fwrite (htonl_bytes w) (fseek (length ?d - 20) (?d, length ?d)) = (d @ ?h @ htonl_bytes w @ ?n, length (d @ ?h @ htonl_bytes w))" for w
    using fwrite_over[of "length ?d - 20" "d @ ?h" "htonl_bytes 0" "htonl_bytes w" ?n] by (simp add: fseek_def)
  ultimately show ?thesis
    unfolding write_dotdot_def using f2 by (simp add: Let_def fseek_def dot_entry_def)
qed

text \<open>The image: the size and the checksum are written over bytes 8 to 15, and a small image is filled up to 1024 bytes.\<close>

definition rom_sized :: "bytes \<Rightarrow> bytes" where
  "rom_sized d = take 8 d @ htonl_bytes (of_nat (length d)) @ drop 12 d"

definition rom_image :: "bytes \<Rightarrow> bytes" where
  "rom_image d = take 8 d @ htonl_bytes (of_nat (length d)) @ htonl_bytes (- words_sum (take (min 512 (length d)) (rom_sized d))) @ drop 16 d
     @ replicate (1024 - length d) 0"

definition image_size :: "(bytes \<Rightarrow> bytes option) \<Rightarrow> bytes list \<Rightarrow> nat" where
  "image_size contents names = 96 + (\<Sum>n \<leftarrow> names. 16 + chunks (length n) + chunks (length (the (contents n))))"

lemma image_size_mod: "image_size contents names mod 16 = 0"
proof -
  have "16 dvd (\<Sum>n \<leftarrow> names. 16 + chunks (length n) + chunks (length (the (contents n))))" by (induction names) simp_all
  then show ?thesis unfolding image_size_def by simp
qed

lemma length_rom_body: "length buffer = 16 \<Longrightarrow> length (rom_body buffer contents names) = image_size contents names"
  by (simp add: rom_body_def romfs_magic_def length_dot_entry image_size_def length_concat comp_def length_file_entry)

lemma mkromfs_eq:
  assumes "length buffer = 16" "\<And>n. n \<in> set names \<Longrightarrow> contents n \<noteq> None" "image_size contents names < 2 ^ 31"
  shows "mkromfs buffer contents names = Some (0, rom_image (rom_body buffer contents names))"
proof -
  let ?d = "rom_body buffer contents names"
  define d0 where "d0 = romfs_magic @ drop 8 buffer @ [86, 77, 87, 111, 115] @ replicate 11 0"
  define d1 where "d1 = d0 @ dot_entry 0x49 [46]"
  define d2 where "d2 = d1 @ dot_entry 0x60 [46, 46]"
  have l: "length d0 = 0x20" "length d1 = 0x40" "length d2 = 0x60"
    using assms(1) by (simp_all add: d0_def d1_def d2_def romfs_magic_def length_dot_entry)
  have h: "write_header buffer ([], 0) = (d0, length d0)"
    using fwrite_end[of "romfs_magic @ drop 8 buffer" "[]"] fwrite_end[of _ "romfs_magic @ drop 8 buffer"] by (simp add: write_header_def d0_def)
  have dots: "write_dot (d0, length d0) = Some (d1, length d1)" "write_dotdot (d1, length d1) = Some (d2, 0x60)"
    using write_dot_eq[OF l(1)] write_dotdot_eq[OF l(2)] l by (simp_all add: d1_def d2_def)
  have b: "?d = d2 @ concat (map (\<lambda>n. file_entry n (the (contents n))) names)" by (simp add: rom_body_def d0_def d1_def d2_def)
  have len: "length ?d = image_size contents names" using length_rom_body[OF assms(1)] .
  have files: "add_files contents names (0x60, d2, 0x60) = Some (Some (length ?d), ?d, length ?d)"
    using add_files_eq[OF assms(2) b] assms(3) l(3) len by simp
  have ge: "96 \<le> length ?d" unfolding b using l(3) by simp
  have m4: "length ?d mod 4 = 0" using image_size_mod[of contents names] len by presburger
  have split: "?d = take 8 ?d @ take 4 (drop 8 ?d) @ take 4 (drop 12 ?d) @ drop 16 ?d"
    using append_take_drop_id[of 8 ?d] append_take_drop_id[of 4 "drop 8 ?d"] append_take_drop_id[of 4 "drop 12 ?d"] by simp
  have sized: "fwrite (htonl_bytes (of_nat (length ?d))) (fseek 8 (?d, q)) = (rom_sized ?d, 12)" for q
    using fwrite_def ge by (simp add: fwrite_def fseek_def rom_sized_def)
  have ls: "length (rom_sized ?d) = length ?d" using ge by (simp add: rom_sized_def)
  let ?cs = "- words_sum (take (min 512 (length ?d)) (rom_sized ?d))"
  have cs: "affs_checksum 0 512 (length ?d) (rom_sized ?d, 12) = Some ?cs"
  proof (rule affs_checksum_eq[of "min 512 (length ?d)" "length ?d" 512 0 "rom_sized ?d" 12, unfolded drop_0])
    have "(512 :: nat) mod 4 = 0" by simp
    then show "min 512 (length ?d) mod 4 = 0" using m4 by (simp add: min_def)
  qed (use ge ls in auto)
  let ?e = "take 8 ?d @ htonl_bytes (of_nat (length ?d)) @ htonl_bytes ?cs @ drop 16 ?d"
  have summed: "fwrite (htonl_bytes ?cs) (fseek 12 (rom_sized ?d, q)) = (?e, 16)" for q
    using ge by (simp add: fwrite_def fseek_def rom_sized_def)
  have le: "length ?e = length ?d" using ge by simp
  have tail: "fst (if length ?d < 1024 then fwrite [0] (fseek 1023 (?e, 16)) else (?e, 16)) = rom_image ?d"
  proof (cases "length ?d < 1024")
    case True
    then have "replicate (1023 - length ?d) 0 @ [0] = replicate (1024 - length ?d) (0 :: byte)"
      using replicate_append_same[of "1023 - length ?d" "0 :: byte"] Suc_diff_le[of "length ?d" 1023] by simp
    then show ?thesis using True le by (simp add: fwrite_def fseek_def rom_image_def)
  qed (simp add: rom_image_def)
  show ?thesis
    unfolding mkromfs_def h dots bind.bind_lunit files prod.case option.case fst_conv Let_def sized cs summed tail ..
qed

section \<open>What the kernel finds\<close>

lemma rom_word_at: "length xs = p \<Longrightarrow> rom_word (xs @ htonl_bytes w @ ys) p = w"
  by (simp add: rom_word_def)

lemma rom_str_at_append:
  assumes "length xs = p" "0 \<notin> set nm" "k = chunks (length nm) - length nm"
  shows "rom_str_at (xs @ nm @ replicate k 0 @ ys) p nm"
proof -
  have "length nm < chunks (length nm)" unfolding chunks_def by presburger
  then show ?thesis using assms by (simp add: rom_str_at_def)
qed

lemma dot_entry_at:
  assumes "length xs = p" "0 \<notin> set nm" "length nm < 16"
  shows "rom_word (xs @ dot_entry w nm @ ys) p = w" "rom_word (xs @ dot_entry w nm @ ys) (p + 4) = 0x20" "rom_str_at (xs @ dot_entry w nm @ ys) (p + 16) nm"
proof -
  let ?n = "nm @ replicate (16 - length nm) 0"
  obtain cs where e: "dot_entry w nm = htonl_bytes w @ htonl_bytes 0x20 @ htonl_bytes 0 @ htonl_bytes cs @ ?n" by (auto simp: dot_entry_def Let_def)
  show "rom_word (xs @ dot_entry w nm @ ys) p = w" using rom_word_at[OF assms(1)] by (simp add: e)
  show "rom_word (xs @ dot_entry w nm @ ys) (p + 4) = 0x20"
    using rom_word_at[of "xs @ htonl_bytes w" "p + 4" "0x20" "htonl_bytes 0 @ htonl_bytes cs @ ?n @ ys"] assms(1) by (simp add: e)
  show "rom_str_at (xs @ dot_entry w nm @ ys) (p + 16) nm"
    using rom_str_at_append[of "xs @ htonl_bytes w @ htonl_bytes 0x20 @ htonl_bytes 0 @ htonl_bytes cs" "p + 16" nm "16 - length nm" ys] assms
    by (simp add: e chunks_small)
qed

lemma file_entry_at:
  assumes "length xs = p" "0 \<notin> set nm" "length bs < 2 ^ 31"
  shows "rom_word (xs @ file_entry nm bs @ ys) p = 2" "rom_file (xs @ file_entry nm bs @ ys) p nm (length bs)"
    "take (length bs) (drop (rom_data p nm) (xs @ file_entry nm bs @ ys)) = bs"
proof -
  obtain cs where e: "file_entry nm bs = htonl_bytes 2 @ htonl_bytes 0 @ htonl_bytes (of_nat (length bs)) @ htonl_bytes cs @ (nm @ pad16 (length nm)) @ (bs @ pad16 (length bs))"
    by (auto simp: file_entry_def file_head_def)
  have pad: "pad16 (length nm) = replicate (chunks (length nm) - length nm) 0"
    using length_pad16(2)[of nm] by (simp add: pad16_def)
  show "rom_word (xs @ file_entry nm bs @ ys) p = 2" using rom_word_at[OF assms(1)] by (simp add: e)
  have "rom_word (xs @ file_entry nm bs @ ys) (p + 8) = of_nat (length bs)"
    using rom_word_at[of "xs @ htonl_bytes 2 @ htonl_bytes 0" "p + 8" "of_nat (length bs)"
      "htonl_bytes cs @ (nm @ pad16 (length nm)) @ (bs @ pad16 (length bs)) @ ys"] assms(1) by (simp add: e)
  moreover have "rom_str_at (xs @ file_entry nm bs @ ys) (p + 16) nm"
    using rom_str_at_append[of "xs @ htonl_bytes 2 @ htonl_bytes 0 @ htonl_bytes (of_nat (length bs)) @ htonl_bytes cs" "p + 16" nm _ "bs @ pad16 (length bs) @ ys"]
      assms(1,2) by (simp add: e pad)
  ultimately show "rom_file (xs @ file_entry nm bs @ ys) p nm (length bs)"
    using assms(1) length_pad16(2)[of nm] by (simp add: rom_file_def e)
  have "rom_data p nm = length (xs @ htonl_bytes 2 @ htonl_bytes 0 @ htonl_bytes (of_nat (length bs)) @ htonl_bytes cs @ nm @ pad16 (length nm))"
    using assms(1) length_pad16(2)[of nm] by (simp add: rom_data_def)
  then show "take (length bs) (drop (rom_data p nm) (xs @ file_entry nm bs @ ys)) = bs" by (simp add: e)
qed

lemma rom_image_parts:
  assumes "length buffer = 16" "contents name = Some bs"
  shows "\<exists>xs zs. rom_image (rom_body buffer contents (name # others)) = xs @ dot_entry 0x49 [46] @ dot_entry 0x60 [46, 46] @ file_entry name bs @ zs
    \<and> length xs = 32"
proof -
  let ?d = "rom_body buffer contents (name # others)" and ?v = "[86, 77, 87, 111, 115] @ replicate 11 (0 :: byte)"
  obtain h where h: "length h = 8" "rom_image ?d = take 8 ?d @ h @ drop 16 ?d @ replicate (1024 - length ?d) 0"
    using that[of "htonl_bytes (of_nat (length ?d)) @ htonl_bytes (- words_sum (take (min 512 (length ?d)) (rom_sized ?d)))"]
    by (simp add: rom_image_def)
  have "drop 16 ?d = ?v @ dot_entry 0x49 [46] @ dot_entry 0x60 [46, 46] @ file_entry name bs @ concat (map (\<lambda>n. file_entry n (the (contents n))) others)"
    using assms by (simp add: rom_body_def romfs_magic_def)
  then have "rom_image ?d = (take 8 ?d @ h @ ?v) @ dot_entry 0x49 [46] @ dot_entry 0x60 [46, 46] @ file_entry name bs
      @ concat (map (\<lambda>n. file_entry n (the (contents n))) others) @ replicate (1024 - length ?d) 0"
    using h(2) by simp
  moreover have "length (take 8 ?d @ h @ ?v) = 32" using h(1) by (simp add: rom_body_def romfs_magic_def)
  ultimately show ?thesis by blast
qed

lemma length_rom_image: "96 \<le> length d \<Longrightarrow> length d < 2 ^ 31 \<Longrightarrow> length (rom_image d) < 2 ^ 31"
  by (simp add: rom_image_def)

text \<open>The root directory of the image: \<open>.\<close>, the link \<open>..\<close> and the first file, at the end of the list.\<close>

lemma rom_image_dir:
  assumes "length buffer = 16" "contents name = Some bs" "0 \<notin> set name" "length name < 256" "length bs < 2 ^ 31"
    and "d = rom_image (rom_body buffer contents (name # others))"
  shows "rom_word d 0x20 AND 7 = 1" "rom_dir d (unat (rom_word d (0x20 + 4))) [(0x20, [46]), (0x40, [46, 46]), (0x60, name)]"
    "rom_link d 0 0x20 0x20" "rom_link d 1 0x40 0x20" "rom_link d 0 0x60 0x60" "rom_file d 0x60 name (length bs)"
    "take (length bs) (drop (rom_data 0x60 name) d) = bs" "0x60 + 32 \<le> length d"
proof -
  obtain xs zs where d: "d = xs @ dot_entry 0x49 [46] @ dot_entry 0x60 [46, 46] @ file_entry name bs @ zs" and l: "length xs = 32"
    using rom_image_parts[of buffer contents name bs others] assms(1,2,6) by blast
  have l2: "length (xs @ dot_entry 0x49 [46]) = 0x40" "length (xs @ dot_entry 0x49 [46] @ dot_entry 0x60 [46, 46]) = 0x60"
    using l by (simp_all add: length_dot_entry)
  note a = dot_entry_at[of xs "0x20" "[46]" "0x49" "dot_entry 0x60 [46, 46] @ file_entry name bs @ zs", folded d]
    dot_entry_at[OF l2(1), of "[46, 46]" "0x60" "file_entry name bs @ zs", unfolded append_assoc, folded d]
    file_entry_at[OF l2(2) assms(3,5), of zs, unfolded append_assoc, folded d]
  note a = a[simplified l, simplified]
  have le: "128 \<le> length d" using l by (simp add: d length_dot_entry length_file_entry chunks_def)
  have n: "rom_next d 32 = 64" "rom_next d 64 = 96" "rom_next d 96 = 0" by (simp_all add: rom_next_def a)
  have st: "rom_str_at d 112 name" using a by (simp add: rom_file_def)
  show "rom_word d 0x20 AND 7 = 1" by (simp add: a)
  show "rom_dir d (unat (rom_word d (0x20 + 4))) [(0x20, [46]), (0x40, [46, 46]), (0x60, name)]"
    using a n st assms(4) by simp
  show k: "rom_link d 0 0x20 0x20" "rom_link d 0 0x60 0x60" by (rule rom_link.here; use le a in simp)+
  show "rom_link d 1 0x40 0x20" unfolding One_nat_def by (rule rom_link.hop) (use le a k in simp_all)
  show "rom_file d 0x60 name (length bs)" "take (length bs) (drop (rom_data 0x60 name) d) = bs" "0x60 + 32 \<le> length d" using a le by simp_all
qed

lemma mkromfs_lookup:
  assumes "length buffer = 16" "contents name = Some bs" "0 \<notin> set name" "length name < 256" "length bs < 2 ^ 31"
    and "d = rom_image (rom_body buffer contents (name # others))" "rom_ok s fs d"
    and "i_sb dir = Some s" "i_number dir = 0x20" "16 \<le> fuel" "length nm < 256" "0 \<notin> set nm"
  shows "romfs_lookup_inode_dir fuel dir nm fs = Some (if nm = [46] \<or> nm = [46, 46] then (0, dir) else if nm = name then (0, dir\<lparr>i_number := 0x60\<rparr>) else (- 1, dir))"
proof -
  note r = rom_image_dir[where buffer = buffer and contents = contents and others = others, OF assms(1,2,3,4,5,6)]
  define tgt :: "nat \<Rightarrow> nat" where "tgt q = (if q = 0x60 then 0x60 else 0x20)" for q
  have "\<exists>k<fuel. rom_link d k q (tgt q)" if "(q, nm) \<in> set [(0x20, [46]), (0x40, [46, 46]), (0x60, name)]" for q
  proof -
    have "q = 0x20 \<or> q = 0x40 \<or> q = 0x60" using that by auto
    then have "rom_link d 0 q (tgt q) \<or> rom_link d 1 q (tgt q)" using r(3,4,5) by (elim disjE) (simp_all add: tgt_def)
    moreover have "0 < fuel" "1 < fuel" using assms(10) by simp_all
    ultimately show ?thesis by blast
  qed
  then have "romfs_lookup_inode_dir fuel dir nm fs = Some (case List.find (\<lambda>(q, n). n = nm) [(0x20, [46]), (0x40, [46, 46]), (0x60, name)] of
      None \<Rightarrow> (- 1, dir) | Some (q, _) \<Rightarrow> (0, dir\<lparr>i_number := of_nat (tgt q)\<rparr>))"
    by (intro romfs_lookup_dir_eq[OF assms(7,8) _ _ r(1,2)]) (use assms(9-12) r(8) in simp_all)
  moreover have "dir\<lparr>i_number := 0x20\<rparr> = dir" using assms(9) by (cases dir) simp
  ultimately show ?thesis by (auto simp: tgt_def)
qed

lemma image_size_ge: "contents name = Some bs \<Longrightarrow> image_size contents (name # others) < 2 ^ 31 \<Longrightarrow> length bs < 2 ^ 31"
proof -
  assume "contents name = Some bs" "image_size contents (name # others) < 2 ^ 31"
  moreover have "length bs \<le> chunks (length bs)" unfolding chunks_def by presburger
  ultimately show "length bs < 2 ^ 31" by (simp add: image_size_def)
qed

section \<open>The properties\<close>

text \<open>
  C11: An image made by \<open>mkromfs\<close> is one the kernel can read: when every file named can be opened and the image stays below 2 GB, the lookup in
  the root directory finds the first file under its name, and reading it returns the bytes of the file.
\<close>

theorem mkromfs_roundtrip:
  assumes "length buffer = 16" and "\<And>n. n \<in> set (name # others) \<Longrightarrow> contents n \<noteq> None" and "image_size contents (name # others) < 2 ^ 31"
    and "contents name = Some bs" and "0 \<notin> set name" and "length name < 256" and "name \<noteq> [46]" and "name \<noteq> [46, 46]"
    and "16 \<le> fuel" and "i_sb dir = Some s" and "i_number dir = 0x20"
  shows "\<exists>image. mkromfs buffer contents (name # others) = Some (0, image) \<and> length image < 2 ^ 31
    \<and> (\<forall>fs. rom_ok s fs image \<longrightarrow> romfs_lookup_inode_dir fuel dir name fs = Some (0, dir\<lparr>i_number := 0x60\<rparr>)
        \<and> romfs_read_file fuel (dir\<lparr>i_number := 0x60\<rparr>) (of_nat (length bs)) 0 fs = Some (int (length bs), bs, of_nat (length bs)))"
proof -
  define d where "d = rom_image (rom_body buffer contents (name # others))"
  have bs: "length bs < 2 ^ 31" by (rule image_size_ge[where contents = contents and name = name and others = others]) (use assms(3,4) in simp_all)
  note r = rom_image_dir[where buffer = buffer and contents = contents and others = others, OF assms(1,4,5,6) bs d_def]
  have "length d < 2 ^ 31" unfolding d_def
    by (rule length_rom_image) (use assms(3) in \<open>simp_all add: length_rom_body assms(1) image_size_def\<close>)
  moreover have f: "length name div 16 < fuel" using assms(6,9) by linarith
  have "romfs_read_file fuel (dir\<lparr>i_number := 0x60\<rparr>) (of_nat (length bs)) 0 fs = Some (int (length bs), bs, of_nat (length bs))"
    if "rom_ok s fs d" for fs
    using romfs_read_correct_eq[OF that, of "dir\<lparr>i_number := 0x60\<rparr>" "0x60" name "length bs" fuel 0 "length bs"] r(6,7) bs f assms(10) by (simp add: Let_def)
  ultimately show ?thesis
    using mkromfs_eq[OF assms(1-3)] mkromfs_lookup[where buffer = buffer and contents = contents and others = others, OF assms(1,4,5,6) bs d_def _ assms(10,11,9,6,5)] assms(7,8)
    by (intro exI[of _ d]) (simp add: d_def)
qed

lemma mkromfs_roundtrip_witness:
  "\<exists>image. mkromfs (replicate 16 7) (\<lambda>_. Some [1, 2, 3]) [[97], [98]] = Some (0, image)
    \<and> romfs_lookup_inode_dir 16 (inode_zero\<lparr>i_sb := Some 0, i_number := 32\<rparr>) [97] (rom_fs image) = Some (0, inode_zero\<lparr>i_sb := Some 0, i_number := 96\<rparr>)
    \<and> romfs_read_file 16 (inode_zero\<lparr>i_sb := Some 0, i_number := 96\<rparr>) 3 0 (rom_fs image) = Some (3, [1, 2, 3], 3)"
proof -
  obtain image where i: "mkromfs (replicate 16 7) (\<lambda>_. Some [1, 2, 3]) [[97], [98]] = Some (0, image)" "length image < 2 ^ 31"
    "\<forall>fs. rom_ok 0 fs image \<longrightarrow> romfs_lookup_inode_dir 16 (inode_zero\<lparr>i_sb := Some 0, i_number := 32\<rparr>) [97] fs
        = Some (0, (inode_zero\<lparr>i_sb := Some 0, i_number := 32\<rparr>)\<lparr>i_number := 0x60\<rparr>)
      \<and> romfs_read_file 16 ((inode_zero\<lparr>i_sb := Some 0, i_number := 32\<rparr>)\<lparr>i_number := 0x60\<rparr>) (of_nat (length [1, 2, 3 :: byte])) 0 fs
        = Some (int (length [1, 2, 3 :: byte]), [1, 2, 3], of_nat (length [1, 2, 3 :: byte]))"
    using mkromfs_roundtrip[of "replicate 16 7" "[97]" "[[98]]" "\<lambda>_. Some [1, 2, 3]" "[1, 2, 3]" 16 "inode_zero\<lparr>i_sb := Some 0, i_number := 32\<rparr>" 0]
    by (auto simp: image_size_def chunks_def)
  then show ?thesis using rom_fs_ok[of image] by (intro exI[of _ image]) simp
qed

text \<open>
  C36: Only the first file of an image can be found.  The header of a file that \<open>mkromfs\<close> writes does not say where the next one is, so the list of
  the directory ends there: the lookup of every other file fails, although its contents are on the image.
\<close>

theorem mkromfs_loses_files:
  assumes "length buffer = 16" and "\<And>n. n \<in> set (name # others) \<Longrightarrow> contents n \<noteq> None" and "image_size contents (name # others) < 2 ^ 31"
    and "0 \<notin> set name" and "length name < 256" and "nm \<notin> {name, [46], [46, 46]}" and "0 \<notin> set nm" and "length nm < 256"
    and "16 \<le> fuel" and "i_sb dir = Some s" and "i_number dir = 0x20"
  shows "\<exists>image. mkromfs buffer contents (name # others) = Some (0, image) \<and> length image < 2 ^ 31
    \<and> (\<forall>fs. rom_ok s fs image \<longrightarrow> romfs_lookup_inode_dir fuel dir nm fs = Some (- 1, dir))"
proof -
  define d where "d = rom_image (rom_body buffer contents (name # others))"
  obtain bs where b: "contents name = Some bs" using assms(2)[of name] by auto
  have bs: "length bs < 2 ^ 31" by (rule image_size_ge[where contents = contents and name = name and others = others]) (use assms(3) b in simp_all)
  have "length d < 2 ^ 31" unfolding d_def
    by (rule length_rom_image) (use assms(3) in \<open>simp_all add: length_rom_body assms(1) image_size_def\<close>)
  then show ?thesis
    using mkromfs_eq[OF assms(1-3)] mkromfs_lookup[where buffer = buffer and contents = contents and others = others, OF assms(1) b assms(4,5) bs d_def _ assms(10,11,9,8,7)] assms(6)
    by (intro exI[of _ d]) (simp add: d_def)
qed

lemma mkromfs_loses_files_witness:
  "\<exists>image. mkromfs (replicate 16 7) (\<lambda>_. Some [1, 2, 3]) [[97], [98]] = Some (0, image)
    \<and> romfs_lookup_inode_dir 16 (inode_zero\<lparr>i_sb := Some 0, i_number := 32\<rparr>) [98] (rom_fs image) = Some (- 1, inode_zero\<lparr>i_sb := Some 0, i_number := 32\<rparr>)"
proof -
  obtain image where i: "mkromfs (replicate 16 7) (\<lambda>_. Some [1, 2, 3]) [[97], [98]] = Some (0, image)" "length image < 2 ^ 31"
    "\<forall>fs. rom_ok 0 fs image \<longrightarrow> romfs_lookup_inode_dir 16 (inode_zero\<lparr>i_sb := Some 0, i_number := 32\<rparr>) [98] fs
        = Some (- 1, inode_zero\<lparr>i_sb := Some 0, i_number := 32\<rparr>)"
    using mkromfs_loses_files[of "replicate 16 7" "[97]" "[[98]]" "\<lambda>_. Some [1, 2, 3]" "[98]" 16 "inode_zero\<lparr>i_sb := Some 0, i_number := 32\<rparr>" 0]
    by (auto simp: image_size_def chunks_def)
  then show ?thesis using rom_fs_ok[of image] by (intro exI[of _ image]) simp
qed

text \<open>
  The checksum of an image is right only if the stack happened to hold zeros: its words sum up to what stood in the last four
  bytes of \<open>buffer\<close>, negated.  Those of the files are right.
\<close>

lemma mkromfs_checksum:
  assumes "length buffer = 16" "n = min 512 (image_size contents names)"
  shows "words_sum (take n (rom_image (rom_body buffer contents names))) = - ntohl (le32 (drop 12 buffer))"
proof -
  let ?d = "rom_body buffer contents names"
  have l: "length ?d = image_size contents names" using length_rom_body[OF assms(1)] .
  have ge: "96 \<le> length ?d" unfolding l by (simp add: image_size_def)
  then have n: "16 \<le> n" "n \<le> length ?d" using assms(2) l by auto
  let ?a = "take 8 ?d @ htonl_bytes (of_nat (length ?d))" and ?r = "take (n - 16) (drop 16 ?d)"
  have s: "words_sum (take n (rom_sized ?d)) = words_sum ?a + ntohl (le32 (drop 12 buffer)) + words_sum ?r"
  proof -
    have b: "take 4 (drop 12 ?d) = drop 12 buffer" using assms(1) by (simp add: rom_body_def romfs_magic_def)
    have "take (4 + (n - 16)) (drop 12 ?d) = take 4 (drop 12 ?d) @ ?r" unfolding take_add by simp
    moreover have "4 + (n - 16) = n - 12" using n by simp
    ultimately have "take n (rom_sized ?d) = ?a @ take 4 (drop 12 ?d) @ ?r" using n ge by (simp add: rom_sized_def)
    moreover have "length ?a mod 4 = 0" using ge by simp
    ultimately show ?thesis using words_sum_append[of ?a] words_sum_4[of "drop 12 buffer" ?r] assms(1) by (simp add: b)
  qed
  have "take n (rom_image ?d) = ?a @ htonl_bytes (- words_sum (take n (rom_sized ?d))) @ ?r"
    using n ge assms(2) l by (simp add: rom_image_def)
  moreover have "length ?a mod 4 = 0" using ge by simp
  ultimately show ?thesis using words_sum_append[of ?a] s by (simp add: words_sum_htonl)
qed

lemma file_entry_checksum: "words_sum (take (16 + chunks (length name)) (file_entry name bs)) = 0"
  using length_pad16(2)[of name] by (simp add: file_entry_def file_head_def words_sum_htonl)

end
