(* ===== verification/Device_Tree.thy ===== *)
theory Device_Tree
  imports Loader
begin

text \<open>
  \<open>boot/device_tree.c\<close>: the flattened device tree the boot loader leaves in memory, the search for a property in it and the values read from it.
  The memory from \<open>device_tree.address\<close> on is \<open>dt_blob\<close>; an index into the structure block counts words and wraps as a pointer does.  A read of a word
  behind it is undefined; a string that runs into its end stops there, as if a NUL followed.
  \<open>fdt_verbose\<close> is 0.
\<close>

section \<open>The header\<close>

record device_tree =
  dt_blob :: bytes
  dt_valid :: bool
  dt_magic :: u32
  dt_totalsize :: u32
  dt_off_struct :: u32
  dt_off_strs :: u32
  dt_off_rsvmap :: u32
  dt_version :: u32
  dt_last_comp_ver :: u32
  dt_boot_cpu_id :: u32
  dt_size_strs :: u32

abbreviation (input) "FDT_BEGIN_NODE \<equiv> 1 :: u32"
abbreviation (input) "FDT_END_NODE \<equiv> 2 :: u32"
abbreviation (input) "FDT_PROP \<equiv> 3 :: u32"
abbreviation (input) "FDT_NOP \<equiv> 4 :: u32"
abbreviation (input) "FDT_END \<equiv> 9 :: u32"
abbreviation (input) "DT_STRING_MAXSIZE \<equiv> 128 :: nat"

definition big_to_little :: "u32 \<Rightarrow> u32" where
  "big_to_little big = drop_bit 24 (big AND 0xff000000) OR drop_bit 8 (big AND 0x00ff0000) OR
     push_bit 8 (big AND 0x0000ff00) OR push_bit 24 (big AND 0x000000ff)"

definition big_to_little64 :: "u64 \<Rightarrow> u64" where
  "big_to_little64 big = drop_bit 48 (big AND 0xff00000000000000) OR drop_bit 32 (big AND 0x00ff000000000000) OR
     drop_bit 16 (big AND 0x0000ff0000000000) OR drop_bit 8 (big AND 0x000000ff00000000) OR
     push_bit 8 (big AND 0x00000000ff000000) OR push_bit 16 (big AND 0x0000000000ff0000) OR
     push_bit 32 (big AND 0x000000000000ff00) OR push_bit 48 (big AND 0x00000000000000ff)"

definition devicetree_setup :: "bytes \<Rightarrow> device_tree \<Rightarrow> (int \<times> device_tree) option" where
  "devicetree_setup blob dt = do {
     let w = (\<lambda>k. do { b \<leftarrow> slice blob (4 * k) 4; Some (big_to_little (le32 b)) });
     magic \<leftarrow> w 0;
     let dt = dt\<lparr>dt_valid := False, dt_magic := magic\<rparr>;
     if magic \<noteq> 0xd00dfeed then Some (- ENODEV, dt)
     else do {
       w1 \<leftarrow> w 1; w2 \<leftarrow> w 2; w3 \<leftarrow> w 3; w4 \<leftarrow> w 4; w5 \<leftarrow> w 5; w6 \<leftarrow> w 6;
       let dt = dt\<lparr>dt_valid := True, dt_blob := blob, dt_totalsize := w1, dt_off_struct := w2, dt_off_strs := w3, dt_off_rsvmap := w4,
         dt_version := w5, dt_last_comp_ver := w6\<rparr>;
       dt \<leftarrow> (if 2 \<le> w5 then do { w7 \<leftarrow> w 7; Some (dt\<lparr>dt_boot_cpu_id := w7\<rparr>) } else Some dt);
       dt \<leftarrow> (if 3 \<le> w5 then do { w8 \<leftarrow> w 8; Some (dt\<lparr>dt_size_strs := w8\<rparr>) } else Some dt);
       Some (0, dt) } }"

section \<open>Searching\<close>

text \<open>\<open>&tree[i]\<close> as an offset into the blob, \<open>tree[i]\<close>, and \<open>big_to_little(tree[i])\<close>.\<close>

definition dt_at :: "device_tree \<Rightarrow> u32 \<Rightarrow> nat" where
  "dt_at dt i = unat (dt_off_struct dt + 4 * i)"

definition dt_raw :: "device_tree \<Rightarrow> u32 \<Rightarrow> u32 option" where
  "dt_raw dt i = do { b \<leftarrow> slice (dt_blob dt) (dt_at dt i) 4; Some (le32 b) }"

definition dt_word :: "device_tree \<Rightarrow> u32 \<Rightarrow> u32 option" where
  "dt_word dt i = do { w \<leftarrow> dt_raw dt i; Some (big_to_little w) }"

definition dt_copy_string :: "device_tree \<Rightarrow> u32 \<Rightarrow> bytes \<Rightarrow> nat \<Rightarrow> bytes option" where
  "dt_copy_string dt off s len = do { (_, s') \<leftarrow> strlcpy s (drop (unat (dt_off_strs dt + off)) (dt_blob dt)) len; Some s' }"

text \<open>The words of a value, read one after the other; only their number matters.\<close>

definition skip_value :: "device_tree \<Rightarrow> u32 \<Rightarrow> u32 \<Rightarrow> u32 option" where
  "skip_value dt len = c_for (unat ((len + 3) div 4)) 0 (\<lambda>_ i. do { _ \<leftarrow> dt_raw dt i; Some (i + 1) })"

definition dt_parse_prop :: "device_tree \<Rightarrow> u32 \<Rightarrow> bytes \<Rightarrow> bytes option \<Rightarrow> bytes \<Rightarrow> (u32 \<times> u32) option" where
  "dt_parse_prop dt start_i current_node_name node prop = do {
     len \<leftarrow> dt_word dt start_i;
     off \<leftarrow> dt_word dt (start_i + 1);
     string \<leftarrow> dt_copy_string dt off (replicate DT_STRING_MAXSIZE 0) DT_STRING_MAXSIZE;
     if (case node of None \<Rightarrow> True | Some nd \<Rightarrow> strncmp nd current_node_name DT_STRING_MAXSIZE = 0) \<and> strncmp string prop DT_STRING_MAXSIZE = 0
     then Some (start_i, start_i + 1)
     else do {
       _ \<leftarrow> skip_value dt len (start_i + 2);
       i \<leftarrow> skip_value dt len (start_i + 2);
       Some (0, i) } }"

definition skip_name_step :: "device_tree \<Rightarrow> u32 \<Rightarrow> (u32 + u32) option" where
  "skip_name_step dt i = do { w \<leftarrow> dt_word dt i; Some (if w AND 0xff = 0 then Inr (i + 1) else Inl (i + 1)) }"

definition node_step :: "(u32 \<Rightarrow> (u32 \<times> u32) option) \<Rightarrow> device_tree \<Rightarrow> bytes \<Rightarrow> bytes option \<Rightarrow> bytes \<Rightarrow> u32 \<Rightarrow> (u32 + u32 \<times> u32) option" where
  "node_step parse dt node_name node prop i = do {
     w \<leftarrow> dt_word dt i;
     if w = FDT_NOP then Some (Inl (i + 1))
     else if w = FDT_PROP then do {
       (r, i') \<leftarrow> dt_parse_prop dt (i + 1) node_name node prop;
       Some (if r > 0 then Inr (r, i') else Inl i') }
     else if w = FDT_BEGIN_NODE then do {
       (r, i') \<leftarrow> parse i;
       Some (if r > 0 then Inr (r, i') else Inl i') }
     else if w = FDT_END_NODE then Some (Inr (0, i + 1))
     else Some (Inl (i + 1)) }"

text \<open>The result and the index behind the node.  The fuel bounds the depth and the loops.\<close>

fun dt_parse_node :: "nat \<Rightarrow> device_tree \<Rightarrow> bytes option \<Rightarrow> bytes \<Rightarrow> u32 \<Rightarrow> (u32 \<times> u32) option" where
  "dt_parse_node 0 dt node prop i = None"
| "dt_parse_node (Suc fuel) dt node prop i = do {
     w \<leftarrow> dt_word dt i;
     if w \<noteq> FDT_BEGIN_NODE then Some (- 1, i + 1)
     else do {
       (_, node_name) \<leftarrow> strlcpy (replicate DT_STRING_MAXSIZE 0) (drop (dt_at dt (i + 1)) (dt_blob dt)) DT_STRING_MAXSIZE;
       i' \<leftarrow> c_loop fuel (skip_name_step dt) (i + 1);
       c_loop fuel (node_step (dt_parse_node fuel dt node prop) dt node_name node prop) i' } }"

definition find_step :: "nat \<Rightarrow> device_tree \<Rightarrow> bytes option \<Rightarrow> bytes \<Rightarrow> u32 \<Rightarrow> (u32 + int) option" where
  "find_step fuel dt node prop i = do {
     (r, i') \<leftarrow> dt_parse_node fuel dt node prop i;
     if r > 0 then Some (Inr (sint r))
     else do {
       w \<leftarrow> dt_word dt i';
       Some (if w = FDT_END then Inr (- ENOENT)
             else if dt_totalsize dt < dt_off_struct dt + i' * 4 then Inr (- ENOENT)
             else Inl i') } }"

definition devicetree_find_node_prop :: "nat \<Rightarrow> device_tree \<Rightarrow> bytes option \<Rightarrow> bytes \<Rightarrow> int option" where
  "devicetree_find_node_prop fuel dt node prop =
     (if \<not> dt_valid dt then Some (- ENODEV) else c_loop fuel (find_step fuel dt node prop) 0)"

section \<open>Values\<close>

text \<open>\<open>None\<close> as the value: the caller's variable is left as it was.\<close>

definition devicetree_prop_int :: "device_tree \<Rightarrow> u32 \<Rightarrow> (int \<times> u32 option) option" where
  "devicetree_prop_int dt i =
     (if \<not> dt_valid dt then Some (- ENODEV, None)
      else do { _ \<leftarrow> dt_word dt i; _ \<leftarrow> dt_word dt (i + 1); v \<leftarrow> dt_word dt (i + 2); Some (0, Some v) })"

definition devicetree_prop_int64 :: "device_tree \<Rightarrow> u32 \<Rightarrow> (int \<times> u64 option) option" where
  "devicetree_prop_int64 dt i =
     (if \<not> dt_valid dt then Some (- ENODEV, None)
      else do {
        _ \<leftarrow> dt_word dt i; _ \<leftarrow> dt_word dt (i + 1);
        v1 \<leftarrow> dt_word dt (i + 2); v2 \<leftarrow> dt_word dt (i + 3);
        Some (0, Some (push_bit 32 (ucast v1) OR ucast v2)) })"

text \<open>The length of the buffer is not looked at.\<close>

definition devicetree_prop_string :: "device_tree \<Rightarrow> u32 \<Rightarrow> bytes \<Rightarrow> (int \<times> bytes) option" where
  "devicetree_prop_string dt i string =
     (if \<not> dt_valid dt then Some (- ENODEV, string)
      else do {
        len \<leftarrow> dt_word dt i; _ \<leftarrow> dt_word dt (i + 1);
        s \<leftarrow> c_for (unat len) 0 (\<lambda>j s. do { b \<leftarrow> rd (dt_blob dt) (dt_at dt (i + 2) + j); wr s j b }) string;
        Some (0, s) })"

text \<open>\<open>result<0\<close> is never true, since \<open>result\<close> is unsigned.\<close>

definition devicetree_find_string :: "nat \<Rightarrow> device_tree \<Rightarrow> bytes option \<Rightarrow> bytes \<Rightarrow> bytes \<Rightarrow> (u32 \<times> bytes) option" where
  "devicetree_find_string fuel dt node prop string = do {
     r \<leftarrow> devicetree_find_node_prop fuel dt node prop;
     (_, s) \<leftarrow> devicetree_prop_string dt (of_int r) string;
     Some (0, s) }"

definition devicetree_find_int :: "nat \<Rightarrow> device_tree \<Rightarrow> bytes option \<Rightarrow> bytes \<Rightarrow> (u32 \<times> u32 option) option" where
  "devicetree_find_int fuel dt node prop = do {
     r \<leftarrow> devicetree_find_node_prop fuel dt node prop;
     (_, v) \<leftarrow> devicetree_prop_int dt (of_int r);
     Some (0, v) }"

definition devicetree_find_int64 :: "nat \<Rightarrow> device_tree \<Rightarrow> bytes option \<Rightarrow> bytes \<Rightarrow> (u32 \<times> u64 option) option" where
  "devicetree_find_int64 fuel dt node prop = do {
     r \<leftarrow> devicetree_find_node_prop fuel dt node prop;
     (_, v) \<leftarrow> devicetree_prop_int64 dt (of_int r);
     Some (0, v) }"

section \<open>The size of memory\<close>

definition dt_raw64 :: "device_tree \<Rightarrow> u32 \<Rightarrow> u64 option" where
  "dt_raw64 dt i = do { b \<leftarrow> slice (dt_blob dt) (dt_at dt i) 8; Some (ucast (le32 (take 4 b)) OR push_bit 32 (ucast (le32 (drop 4 b)))) }"

definition cells_value :: "device_tree \<Rightarrow> u32 \<Rightarrow> u32 \<Rightarrow> (u64 \<times> u32) option" where
  "cells_value dt cells i =
     (if cells = 1 then do { w \<leftarrow> dt_raw dt i; Some (ucast (big_to_little w), i + 1) }
      else if cells = 2 then do { w \<leftarrow> dt_raw64 dt i; Some (big_to_little64 w, i + 2) }
      else Some (0, i))"

text \<open>The results are the length and the address.  \<open>None\<close> where a cell size that was not found is printed.\<close>

definition devicetree_get_memory_old :: "nat \<Rightarrow> device_tree \<Rightarrow> (u64 \<times> u64) option" where
  "devicetree_get_memory_old fuel dt = do {
     (_, a) \<leftarrow> devicetree_find_int fuel dt None (map (of_nat \<circ> of_char) ''#address-cells'');
     address_cells \<leftarrow> a;
     (_, s) \<leftarrow> devicetree_find_int fuel dt None (map (of_nat \<circ> of_char) ''#size-cells'');
     size_cells \<leftarrow> s;
     r \<leftarrow> devicetree_find_node_prop fuel dt (Some (map (of_nat \<circ> of_char) ''memory'')) (map (of_nat \<circ> of_char) ''reg'');
     let i = of_int r;
     _ \<leftarrow> dt_word dt i;
     _ \<leftarrow> dt_word dt (i + 1);
     (address, i') \<leftarrow> cells_value dt address_cells (i + 2);
     (length, _) \<leftarrow> cells_value dt size_cells i';
     Some (length, address) }"

definition devicetree_get_memory_new :: "nat \<Rightarrow> device_tree \<Rightarrow> (u64 \<times> u64) option" where
  "devicetree_get_memory_new fuel dt = do {
     r \<leftarrow> devicetree_find_node_prop fuel dt (Some (map (of_nat \<circ> of_char) ''memory@0'')) (map (of_nat \<circ> of_char) ''reg'');
     let i = of_int r;
     val_len \<leftarrow> dt_word dt i;
     _ \<leftarrow> dt_word dt (i + 1);
     if val_len = 8 then do { a \<leftarrow> dt_word dt (i + 2); l \<leftarrow> dt_word dt (i + 3); Some (ucast l, ucast a) }
     else if val_len = 12 then do {
       a \<leftarrow> dt_raw64 dt (i + 2); l \<leftarrow> dt_raw dt (i + 4); Some (big_to_little64 (ucast l), big_to_little64 a) }
     else if val_len = 24 then do {
       a \<leftarrow> dt_raw64 dt (i + 2); l \<leftarrow> dt_word dt (i + 4);
       _ \<leftarrow> dt_raw64 dt (i + 5); _ \<leftarrow> dt_word dt (i + 7);
       Some (ucast l, big_to_little64 a) }
     else do {
       _ \<leftarrow> c_for (unat (val_len div 4)) 0 (\<lambda>_ i. do { _ \<leftarrow> dt_word dt i; Some (i + 1) }) (i + 2);
       Some (0, 0) } }"

definition devicetree_get_memory :: "nat \<Rightarrow> device_tree \<Rightarrow> u64 option" where
  "devicetree_get_memory fuel dt = do {
     (l0, _) \<leftarrow> devicetree_get_memory_old fuel dt;
     (l1, _) \<leftarrow> (if l0 < 1024 then devicetree_get_memory_new fuel dt else Some (l0, 0));
     Some (if l1 < 1024 then 256 * 1024 * 1024 else l1) }"

text \<open>The reserved ranges that are printed, as pairs of address and size, up to two zero words.\<close>

definition devicetree_find_reserved :: "nat \<Rightarrow> device_tree \<Rightarrow> (int \<times> (u64 \<times> u64) list) option" where
  "devicetree_find_reserved fuel dt =
     (if \<not> dt_valid dt then Some (- ENODEV, [])
      else do {
        let q = (\<lambda>k. do { b \<leftarrow> slice (dt_blob dt) (unat (dt_off_rsvmap dt) + 8 * k) 8;
                 Some (ucast (le32 (take 4 b)) OR push_bit 32 (ucast (le32 (drop 4 b))) :: u64) });
        out \<leftarrow> c_loop fuel (\<lambda>(i, out). do {
          a \<leftarrow> q i; s \<leftarrow> q (i + 1);
          Some (if a = 0 \<and> s = 0 then Inr out else Inl (i + 2, out @ [(big_to_little64 a, big_to_little64 s)])) }) (0, []);
        Some (0, out) })"

section \<open>Words of the structure block\<close>

lemma big_to_little_eq: "big_to_little w = ntohl w"
proof -
  have m: "(0xFF000000 :: u32) = push_bit 24 (mask 8)" "(0x00FF0000 :: u32) = push_bit 16 (mask 8)"
    "(0x0000FF00 :: u32) = push_bit 8 (mask 8)" "(0x000000FF :: u32) = mask 8" by (simp_all add: mask_eq_exp_minus_1)
  show ?thesis unfolding big_to_little_def ntohl_def m by (rule bit_word_eqI) (auto simp: bit_simps)
qed

text \<open>\<open>holds dt k bs\<close>: the bytes \<open>bs\<close> are at word \<open>k\<close> of the structure block.\<close>

definition holds :: "device_tree \<Rightarrow> nat \<Rightarrow> bytes \<Rightarrow> bool" where
  "holds dt k bs \<longleftrightarrow> length (dt_blob dt) < 2 ^ 31 \<and> (\<exists>r. drop (unat (dt_off_struct dt) + 4 * k) (dt_blob dt) = bs @ r)
     \<and> unat (dt_off_struct dt) + 4 * k + length bs \<le> length (dt_blob dt)"

lemma holds_append:
  assumes "holds dt k (xs @ ys)" "length xs = 4 * n"
  shows "holds dt (k + n) ys"
proof -
  obtain r where r: "drop (unat (dt_off_struct dt) + 4 * k) (dt_blob dt) = xs @ ys @ r" using assms(1) by (auto simp: holds_def)
  have "drop (unat (dt_off_struct dt) + 4 * (k + n)) (dt_blob dt) = drop (4 * n) (drop (unat (dt_off_struct dt) + 4 * k) (dt_blob dt))"
    by (simp add: add.commute add.left_commute)
  then show ?thesis using assms by (simp add: holds_def r)
qed

lemma holds_prefix: "holds dt k (xs @ ys) \<Longrightarrow> holds dt k xs"
  by (auto simp: holds_def)

lemma dt_at_holds: "holds dt k bs \<Longrightarrow> dt_at dt (of_nat k) = unat (dt_off_struct dt) + 4 * k"
  unfolding dt_at_def holds_def by (subst unat_plus_small) (auto simp: unat_word_ariths unat_of_nat)

lemma holds_raw:
  assumes "holds dt k (bs @ ys)" "length bs = 4"
  shows "dt_raw dt (of_nat k) = Some (le32 bs)"
  using dt_at_holds[OF assms(1)] assms by (auto simp: dt_raw_def slice_eq holds_def)

lemma holds_word:
  assumes "holds dt k (htonl_bytes w @ ys)"
  shows "dt_word dt (of_nat k) = Some w" "holds dt (Suc k) ys"
  using holds_raw[OF assms] holds_append[OF assms, of 1] by (simp_all add: dt_word_def big_to_little_eq)

lemma Suc_of_nat: "of_nat k + 1 = (of_nat (Suc k) :: u32)"
  by simp

section \<open>Flattened trees\<close>

text \<open>The contents of a node, in order: a padding word, a property with the offset of its name and its value, a node with its name and contents.\<close>

datatype dtree = Done | Nop dtree | Prop u32 bytes dtree | Node bytes dtree dtree

definition pad_name :: "bytes \<Rightarrow> bytes" where
  "pad_name nm = nm @ replicate (4 - length nm mod 4) 0"

definition pad_value :: "bytes \<Rightarrow> bytes" where
  "pad_value v = v @ replicate ((4 - length v mod 4) mod 4) 0"

fun flat :: "dtree \<Rightarrow> bytes" where
  "flat Done = []"
| "flat (Nop t) = htonl_bytes FDT_NOP @ flat t"
| "flat (Prop off v t) = htonl_bytes FDT_PROP @ (htonl_bytes (of_nat (length v)) @ htonl_bytes off @ pad_value v) @ flat t"
| "flat (Node nm c t) = htonl_bytes FDT_BEGIN_NODE @ pad_name nm @ flat c @ htonl_bytes FDT_END_NODE @ flat t"

fun names_ok :: "dtree \<Rightarrow> bool" where
  "names_ok Done = True"
| "names_ok (Nop t) = names_ok t"
| "names_ok (Prop off v t) = names_ok t"
| "names_ok (Node nm c t) \<longleftrightarrow> 0 \<notin> set nm \<and> length nm < 128 \<and> names_ok c \<and> names_ok t"

text \<open>The first property whose name satisfies \<open>P\<close>, in a node called \<open>node\<close> if one is asked for; \<open>cur\<close> is the name of the node around.\<close>

fun first_prop :: "bytes option \<Rightarrow> (u32 \<Rightarrow> bool) \<Rightarrow> bytes \<Rightarrow> dtree \<Rightarrow> (u32 \<times> bytes) option" where
  "first_prop node P cur Done = None"
| "first_prop node P cur (Nop t) = first_prop node P cur t"
| "first_prop node P cur (Prop off v t) =
     (if (node = None \<or> node = Some cur) \<and> P off then Some (off, v) else first_prop node P cur t)"
| "first_prop node P cur (Node nm c t) =
     (case first_prop node P nm c of None \<Rightarrow> first_prop node P cur t | Some x \<Rightarrow> Some x)"

lemma length_pad_name: "length (pad_name nm) = 4 * (length nm div 4 + 1)"
  unfolding pad_name_def by simp presburger

lemma length_pad_value: "length (pad_value v) = 4 * ((length v + 3) div 4)"
proof -
  obtain q r where l: "length v = 4 * q + r" "r < 4" by (metis mod_less_divisor mult_div_mod_eq zero_less_numeral)
  then have "r = 0 \<or> r = 1 \<or> r = 2 \<or> r = 3" by linarith
  moreover have "length v mod 4 = r" "(length v + 3) div 4 = q + (r + 3) div 4" using l by simp_all
  ultimately show ?thesis unfolding pad_value_def length_append length_replicate using l(1) by (elim disjE) simp_all
qed

lemma length_flat: "4 dvd length (flat t)"
proof (induction t)
  case (Node nm c t)
  have "length (flat (Node nm c t)) = 4 + 4 * (length nm div 4 + 1) + length (flat c) + 4 + length (flat t)" by (simp add: length_pad_name)
  then show ?case using Node.IH by (simp add: dvd_add del: flat.simps)
next
  case (Prop off v t)
  have "length (flat (Prop off v t)) = 12 + 4 * ((length v + 3) div 4) + length (flat t)" by (simp add: length_pad_value)
  then show ?case using Prop.IH by (simp del: flat.simps)
qed simp_all

section \<open>Parsing\<close>

lemma last_byte: "ntohl (le32 [a, b, c, d]) AND 0xff = 0 \<longleftrightarrow> d = 0"
proof -
  have e: "ntohl (le32 [a, b, c, d]) AND 0xff = ucast d"
  proof (rule bit_word_eqI)
    fix n assume n: "n < LENGTH(32)"
    have m: "(0xff :: u32) = mask 8" by (simp add: mask_eq_exp_minus_1)
    show "bit (ntohl (le32 [a, b, c, d]) AND 0xff) n = bit (ucast d :: u32) n"
    proof (cases "n < 8")
      case True
      then show ?thesis unfolding m bit_and_iff ntohl_bit(1)[OF True] by (auto simp: le32_def bit_simps dest: bit_imp_le_length)
    qed (auto simp: m bit_simps dest: bit_imp_le_length)
  qed
  have "n < 8 \<and> n < 32" if "bit d n" for n using bit_imp_le_length[OF that] by simp
  then show ?thesis unfolding e by (auto simp: bit_eq_iff bit_simps)
qed

lemma skip_name_eq:
  assumes "holds dt k (pad_name nm @ ys)" "0 \<notin> set nm" "length nm div 4 < n"
  shows "c_loop n (skip_name_step dt) (of_nat k) = Some (of_nat (k + length nm div 4 + 1))"
  using assms
proof (induction n arbitrary: k nm)
  case (Suc n)
  show ?case
  proof (cases "length nm < 4")
    case True
    have "length (pad_name nm) = 4" "pad_name nm ! 3 = 0" using True by (auto simp: pad_name_def nth_append)
    then obtain a b c where e: "pad_name nm = [a, b, c, 0]" by (auto simp: length_Suc_conv numeral_eq_Suc)
    have "dt_raw dt (of_nat k) = Some (le32 [a, b, c, 0])" using holds_raw[OF Suc.prems(1)] e by simp
    then show ?thesis using True last_byte[of a b c 0] by (simp add: skip_name_step_def dt_word_def big_to_little_eq)
  next
    case False
    define x where "x = take 4 nm"
    have x: "length x = 4" "nm = x @ drop 4 nm" using False by (simp_all add: x_def)
    then obtain a b c d where e: "x = [a, b, c, d]" by (auto simp: length_Suc_conv numeral_eq_Suc)
    have d: "d \<noteq> 0" using Suc.prems(2) x(2) e by (metis list.set_intros in_set_conv_decomp append_Cons append_Nil append_assoc)
    have p: "pad_name nm @ ys = x @ pad_name (drop 4 nm) @ ys"
      using x(2) False by (simp add: pad_name_def mod_if[of "length nm" 4])
    have h: "holds dt (k + 1) (pad_name (drop 4 nm) @ ys)" using holds_append[of dt k x _ 1] Suc.prems(1) x(1) p by simp
    have w: "dt_raw dt (of_nat k) = Some (le32 [a, b, c, d])" using holds_raw[of dt k x] Suc.prems(1) x(1) p e by simp
    have "c_loop n (skip_name_step dt) (of_nat (k + 1)) = Some (of_nat (k + 1 + length (drop 4 nm) div 4 + 1))"
      by (rule Suc.IH[OF h]) (use Suc.prems(2,3) False in \<open>auto simp: div_if[of "length nm" 4] dest: in_set_dropD\<close>)
    moreover have "length nm div 4 = Suc (length (drop 4 nm) div 4)" using False by (simp add: div_if[of "length nm" 4])
    moreover have "skip_name_step dt (of_nat k) = Some (Inl (of_nat (k + 1)))"
      using w d last_byte[of a b c d] by (simp add: skip_name_step_def dt_word_def big_to_little_eq)
    ultimately show ?thesis by simp
  qed
qed simp

text \<open>The name of a property as the code compares it.\<close>

definition prop_name :: "device_tree \<Rightarrow> u32 \<Rightarrow> bytes" where
  "prop_name dt off = take 127 (cstr (drop (unat (dt_off_strs dt + off)) (dt_blob dt)))"

lemma copied_name:
  assumes "length buf = 128"
  shows "\<exists>n s. strlcpy buf src 128 = Some (n, s) \<and> cstr s = take 127 (cstr src)"
proof -
  have z: "0 \<notin> set (take 127 (cstr src))" using cstr_no_nul[of src] by (meson in_set_takeD)
  have l: "length (take 127 (cstr src)) < 128" by simp
  then show ?thesis using assms
    by (simp add: strlcpy_def strlcpy_out_eq splice_def cstr_append_nul[OF z])
qed

lemma name_test:
  assumes "0 \<notin> set prop" "length prop < 128" "cstr s = take 127 nm"
  shows "strncmp s prop 128 = 0 \<longleftrightarrow> take 127 nm = prop" "strncmp prop s 128 = 0 \<longleftrightarrow> prop = take 127 nm"
  using assms by (auto simp: strncmp_eq_0_iff cstr_id)

lemma skip_value_eq:
  assumes "holds dt k (pad_value v @ ys)"
  shows "skip_value dt (of_nat (length v)) (of_nat k) = Some (of_nat (k + (length v + 3) div 4))"
proof -
  let ?n = "(length v + 3) div 4"
  have "length v < 2 ^ 31" using assms by (auto simp: holds_def pad_value_def)
  then have n: "unat ((of_nat (length v) + 3 :: u32) div 4) = ?n"
    by (simp add: unat_div unat_word_ariths unat_of_nat)
  have "\<exists>i. c_for ?n 0 (\<lambda>_ i. do { _ \<leftarrow> dt_raw dt i; Some (i + 1) }) (of_nat k) = Some i \<and> i = of_nat (k + (0 + ?n))"
  proof (rule c_for_inv)
    fix j i assume j: "j < 0 + ?n" "i = (of_nat (k + j) :: u32)"
    define d where "d = drop (4 * j) (pad_value v)"
    have e: "pad_value v @ ys = take (4 * j) (pad_value v) @ (take 4 d @ drop 4 d @ ys)"
      unfolding d_def by (metis append_assoc append_take_drop_id)
    have "holds dt (k + j) (take 4 d @ drop 4 d @ ys)"
      by (rule holds_append[OF assms[unfolded e]]) (use j(1) length_pad_value[of v] in simp)
    from holds_raw[OF this] have "dt_raw dt (of_nat (k + j)) = Some (le32 (take 4 d))"
      using j(1) length_pad_value[of v] by (simp add: d_def)
    then show "\<exists>i'. do { _ \<leftarrow> dt_raw dt i; Some (i + 1) } = Some i' \<and> i' = of_nat (k + Suc j)" using j(2) by simp
  qed simp
  then show ?thesis by (simp add: skip_value_def n)
qed

lemma parse_prop_eq:
  assumes "holds dt k (htonl_bytes (of_nat (length v)) @ htonl_bytes off @ pad_value v @ ys)"
    and "0 \<notin> set prop" "length prop < 128" "cstr nb = cur" "length cur < 128" "\<And>nd. node = Some nd \<Longrightarrow> 0 \<notin> set nd \<and> length nd < 128"
  shows "dt_parse_prop dt (of_nat k) nb node prop =
    (if (node = None \<or> node = Some cur) \<and> prop_name dt off = prop then Some (of_nat k, of_nat (Suc k))
     else Some (0, of_nat (k + 2 + (length v + 3) div 4)))"
proof -
  note w1 = holds_word[OF assms(1)]
  note w2 = holds_word[OF w1(2)]
  obtain n s where s: "strlcpy (replicate 128 0) (drop (unat (dt_off_strs dt + off)) (dt_blob dt)) 128 = Some (n, s)" "cstr s = prop_name dt off"
    using copied_name[of "replicate 128 0"] by (fastforce simp: prop_name_def)
  have t: "strncmp s prop 128 = 0 \<longleftrightarrow> prop_name dt off = prop"
    using name_test(1)[OF assms(2,3), of s] s(2) by (simp add: prop_name_def)
  have c: "(case node of None \<Rightarrow> True | Some nd \<Rightarrow> strncmp nd nb 128 = 0) \<longleftrightarrow> node = None \<or> node = Some cur"
    using assms(4-6) by (auto simp: strncmp_eq_0_iff cstr_id split: option.split)
  have k: "dt_word dt (of_nat k + 1) = Some off" using w2(1) by (simp add: add.commute)
  have v: "skip_value dt (of_nat (length v)) (of_nat k + 2) = Some (of_nat (k + 2 + (length v + 3) div 4))"
    using skip_value_eq[OF w2(2)] by (simp add: add.commute)
  show ?thesis unfolding dt_parse_prop_def dt_copy_string_def w1(1) k bind.bind_lunit s(1) prod.case c t
    by (simp add: v del: of_nat_add)
qed

text \<open>The parser on a node: it stops at the first property asked for, or goes on behind the node.\<close>

definition parsed :: "device_tree \<Rightarrow> (u32 \<times> bytes) option \<Rightarrow> nat \<Rightarrow> (u32 \<times> u32) option \<Rightarrow> bool" where
  "parsed dt x k r \<longleftrightarrow> (case x of None \<Rightarrow> r = Some (0, of_nat k)
     | Some (off, v) \<Rightarrow> \<exists>j i ys. r = Some (of_nat j, i) \<and> 0 < j \<and> holds dt j (htonl_bytes (of_nat (length v)) @ htonl_bytes off @ pad_value v @ ys))"

lemma holds_index: "holds dt j bs \<Longrightarrow> j < 2 ^ 29"
  by (auto simp: holds_def)

lemma index_pos: "holds dt j bs \<Longrightarrow> 0 < j \<Longrightarrow> (0 :: u32) < of_nat j"
  using holds_index[of dt j bs] by (simp add: word_less_nat_alt unat_of_nat)

lemma parse_node_loop:
  assumes "holds dt k (htonl_bytes FDT_BEGIN_NODE @ pad_name nm @ ys)" "0 \<notin> set nm" "length nm < 128" "length nm div 4 < fuel"
  shows "\<exists>b. cstr b = nm \<and> dt_parse_node (Suc fuel) dt node prop (of_nat k)
    = c_loop fuel (node_step (dt_parse_node fuel dt node prop) dt b node prop) (of_nat (Suc k + (length nm div 4 + 1)))"
proof -
  note w = holds_word[OF assms(1)]
  have s: "of_nat k + 1 = (of_nat (Suc k) :: u32)" by simp
  let ?src = "drop (dt_at dt (of_nat (Suc k))) (dt_blob dt)"
  obtain r where r: "?src = (pad_name nm @ ys) @ r" using w(2) dt_at_holds[OF w(2)] unfolding holds_def by (auto simp del: of_nat_Suc)
  have "0 < 4 - length nm mod 4" by simp
  then obtain x where "4 - length nm mod 4 = Suc x" by (metis gr0_implies_Suc)
  then have "cstr ((pad_name nm @ ys) @ r) = nm" using cstr_append_nul[OF assms(2)] by (simp add: pad_name_def)
  then obtain q b where b: "strlcpy (replicate 128 0) ?src 128 = Some (q, b)" "cstr b = nm"
    using copied_name[of "replicate 128 0" ?src] r assms(3) by auto
  have skip: "c_loop fuel (skip_name_step dt) (of_nat (Suc k)) = Some (of_nat (Suc k + (length nm div 4 + 1)))"
    using skip_name_eq[OF w(2) assms(2,4)] by (simp add: add.assoc)
  have "dt_parse_node (Suc fuel) dt node prop (of_nat k)
      = c_loop fuel (node_step (dt_parse_node fuel dt node prop) dt b node prop) (of_nat (Suc k + (length nm div 4 + 1)))"
    unfolding dt_parse_node.simps w(1) bind.bind_lunit s b(1) prod.case skip by simp
  then show ?thesis using b(2) by blast
qed

lemma node_loop:
  assumes "holds dt k (flat t @ htonl_bytes FDT_END_NODE @ ys)" "names_ok t" "length (flat t) < n" "length (flat t) \<le> f" "0 < k"
    and "cstr nb = cur" "length cur < 128"
    and "0 \<notin> set prop" "length prop < 128" "\<And>nd. node = Some nd \<Longrightarrow> 0 \<notin> set nd \<and> length nd < 128"
  shows "parsed dt (first_prop node (\<lambda>off. prop_name dt off = prop) cur t) (k + length (flat t) div 4 + 1)
    (c_loop n (node_step (dt_parse_node f dt node prop) dt nb node prop) (of_nat k))"
  using assms(1-7)
proof (induction t arbitrary: k n f nb cur ys)
  case Done
  then obtain n' where n: "n = Suc n'" by (cases n) auto
  show ?case using holds_word(1)[of dt k FDT_END_NODE] Done.prems(1) by (simp add: n node_step_def parsed_def)
next
  case (Nop t)
  then obtain n' where n: "n = Suc n'" "length (flat t) < n'" by (cases n) auto
  have h: "holds dt k (htonl_bytes FDT_NOP @ flat t @ htonl_bytes FDT_END_NODE @ ys)" using Nop.prems(1) by simp
  note w = holds_word[OF h]
  have "parsed dt (first_prop node (\<lambda>off. prop_name dt off = prop) cur t) (Suc k + length (flat t) div 4 + 1)
      (c_loop n' (node_step (dt_parse_node f dt node prop) dt nb node prop) (of_nat (Suc k)))"
    by (rule Nop.IH[OF w(2)]) (use Nop.prems n in simp_all)
  moreover have "node_step (dt_parse_node f dt node prop) dt nb node prop (of_nat k) = Some (Inl (of_nat (Suc k)))"
    unfolding node_step_def w(1) by (simp add: add.commute)
  ultimately show ?case unfolding n(1) c_loop.simps using length_flat[of t] by simp
next
  case (Prop off v t)
  then obtain n' where n: "n = Suc n'" "length (flat t) < n'" by (cases n) auto
  let ?k = "Suc k + 2 + (length v + 3) div 4" and ?y = "flat t @ htonl_bytes FDT_END_NODE @ ys"
  have h: "holds dt k (htonl_bytes FDT_PROP @ htonl_bytes (of_nat (length v)) @ htonl_bytes off @ pad_value v @ ?y)" using Prop.prems(1) by simp
  note w = holds_word[OF h]
  have h2: "holds dt ?k ?y" using holds_append[OF holds_word(2)[OF holds_word(2)[OF w(2)]], OF length_pad_value] by simp
  have IH: "parsed dt (first_prop node (\<lambda>off. prop_name dt off = prop) cur t) (?k + length (flat t) div 4 + 1)
      (c_loop n' (node_step (dt_parse_node f dt node prop) dt nb node prop) (of_nat ?k))"
    by (rule Prop.IH[OF h2]) (use Prop.prems n in simp_all)
  have p: "dt_parse_prop dt (of_nat k + 1) nb node prop = (if (node = None \<or> node = Some cur) \<and> prop_name dt off = prop
      then Some (of_nat (Suc k), of_nat (Suc (Suc k))) else Some (0, of_nat ?k))"
    using parse_prop_eq[OF w(2) assms(8,9) Prop.prems(6,7) assms(10)] by (simp add: add.commute del: of_nat_add of_nat_Suc) (simp add: add.commute)
  have l: "k + length (flat (Prop off v t)) div 4 + 1 = ?k + length (flat t) div 4 + 1" using length_flat[of t] by (simp add: length_pad_value)
  show ?case
  proof (cases "(node = None \<or> node = Some cur) \<and> prop_name dt off = prop")
    case True
    have "node_step (dt_parse_node f dt node prop) dt nb node prop (of_nat k) = Some (Inr (of_nat (Suc k), of_nat (Suc (Suc k))))"
      unfolding node_step_def w(1) bind.bind_lunit p using True index_pos[OF w(2)] by (simp del: of_nat_Suc)
    then show ?thesis using True w(2) unfolding n parsed_def c_loop.simps by (auto intro!: exI[of _ "Suc k"] simp del: of_nat_Suc)
  next
    case False
    have "node_step (dt_parse_node f dt node prop) dt nb node prop (of_nat k) = Some (Inl (of_nat ?k))"
      unfolding node_step_def w(1) bind.bind_lunit p if_not_P[OF False] by simp
    moreover have "first_prop node (\<lambda>off. prop_name dt off = prop) cur (Prop off v t) = first_prop node (\<lambda>off. prop_name dt off = prop) cur t"
      using False by auto
    ultimately show ?thesis using IH unfolding l n(1) c_loop.simps by simp
  qed
next
  case (Node nm c t)
  then obtain n' where n: "n = Suc n'" "length (flat t) < n'" by (cases n) auto
  obtain f' where f: "f = Suc f'" using Node.prems(4) by (cases f) auto
  have len: "length (flat (Node nm c t)) = 8 + 4 * (length nm div 4 + 1) + length (flat c) + length (flat t)" by (simp add: length_pad_name)
  let ?y = "flat t @ htonl_bytes FDT_END_NODE @ ys" and ?k = "Suc k + (length nm div 4 + 1)"
  let ?z = "flat c @ htonl_bytes FDT_END_NODE @ ?y"
  let ?m = "?k + length (flat c) div 4 + 1"
  have h: "holds dt k (htonl_bytes FDT_BEGIN_NODE @ pad_name nm @ ?z)" using Node.prems(1) by simp
  note w = holds_word[OF h]
  have h2: "holds dt ?k ?z" using holds_append[OF w(2) length_pad_name] .
  have nm: "0 \<notin> set nm" "length nm < 128" "names_ok c" "names_ok t" using Node.prems(2) by simp_all
  have h3: "holds dt ?m ?y"
  proof -
    have "length (flat c @ htonl_bytes FDT_END_NODE) = 4 * (length (flat c) div 4 + 1)" using length_flat[of c] by auto
    from holds_append[OF _ this, of dt ?k ?y] h2 show ?thesis by (simp add: add.assoc)
  qed
  obtain b where b: "cstr b = nm" "dt_parse_node f dt node prop (of_nat k) = c_loop f' (node_step (dt_parse_node f' dt node prop) dt b node prop) (of_nat ?k)"
    using parse_node_loop[OF h nm(1,2), of f'] Node.prems(4) len f by auto
  note parse = b(2)
  have inner: "parsed dt (first_prop node (\<lambda>off. prop_name dt off = prop) nm c) ?m (c_loop f' (node_step (dt_parse_node f' dt node prop) dt b node prop) (of_nat ?k))"
    by (rule Node.IH(1)[OF h2 nm(3) _ _ _ b(1) nm(2)]) (use Node.prems(4) len f in simp_all)
  have IH: "parsed dt (first_prop node (\<lambda>off. prop_name dt off = prop) cur t) (?m + length (flat t) div 4 + 1)
      (c_loop n' (node_step (dt_parse_node f dt node prop) dt nb node prop) (of_nat ?m))"
    by (rule Node.IH(2)[OF h3 nm(4)]) (use Node.prems(4-7) len n in simp_all)
  have l: "k + length (flat (Node nm c t)) div 4 + 1 = ?m + length (flat t) div 4 + 1" unfolding len using length_flat[of t] length_flat[of c] by auto
  have st: "node_step (dt_parse_node f dt node prop) dt nb node prop (of_nat k) =
      (case dt_parse_node f dt node prop (of_nat k) of None \<Rightarrow> None | Some (r, i') \<Rightarrow> Some (if r > 0 then Inr (r, i') else Inl i'))"
    unfolding node_step_def w(1) by (simp split: option.split)
  show ?case
  proof (cases "first_prop node (\<lambda>off. prop_name dt off = prop) nm c")
    case None
    then have "dt_parse_node f dt node prop (of_nat k) = Some (0, of_nat ?m)" using inner unfolding parse parsed_def by simp
    then have "node_step (dt_parse_node f dt node prop) dt nb node prop (of_nat k) = Some (Inl (of_nat ?m))" unfolding st by simp
    then show ?thesis using None IH unfolding l n(1) c_loop.simps by simp
  next
    case (Some x)
    obtain off v where x: "x = (off, v)" by (cases x)
    then obtain j i zs where j: "dt_parse_node f dt node prop (of_nat k) = Some (of_nat j, i)" "0 < j"
      "holds dt j (htonl_bytes (of_nat (length v)) @ htonl_bytes off @ pad_value v @ zs)"
      using inner Some unfolding parse parsed_def by auto
    then have "node_step (dt_parse_node f dt node prop) dt nb node prop (of_nat k) = Some (Inr (of_nat j, i))" unfolding st using index_pos[OF j(3,2)] by simp
    then show ?thesis using Some x j(2,3) unfolding n(1) c_loop.simps parsed_def by auto
  qed
qed

section \<open>Finding a property\<close>

text \<open>The structure block holds the tree whose root is called \<open>nm\<close>, with contents \<open>t\<close>.\<close>

definition tree_at :: "device_tree \<Rightarrow> bytes \<Rightarrow> dtree \<Rightarrow> bool" where
  "tree_at dt nm t \<longleftrightarrow> dt_valid dt \<and> names_ok (Node nm t Done) \<and> holds dt 0 (flat (Node nm t Done) @ htonl_bytes FDT_END)"

definition string_ok :: "bytes \<Rightarrow> bool" where
  "string_ok s \<longleftrightarrow> 0 \<notin> set s \<and> length s < 128"

abbreviation (input) "the_prop dt node prop nm t \<equiv> first_prop node (\<lambda>off. prop_name dt off = prop) nm t"

lemma find_node_prop_eq:
  assumes "tree_at dt nm t" "string_ok prop" "\<And>nd. node = Some nd \<Longrightarrow> string_ok nd" "length (flat (Node nm t Done)) < fuel"
  shows "case the_prop dt node prop nm t of None \<Rightarrow> devicetree_find_node_prop fuel dt node prop = Some (- ENOENT)
    | Some (off, v) \<Rightarrow> \<exists>j ys. devicetree_find_node_prop fuel dt node prop = Some (int j) \<and> holds dt j (htonl_bytes (of_nat (length v)) @ htonl_bytes off @ pad_value v @ ys)"
proof -
  obtain f where f: "fuel = Suc f" using assms(4) by (cases fuel) auto
  have nm: "0 \<notin> set nm" "length nm < 128" "names_ok t" "dt_valid dt" using assms(1) by (simp_all add: tree_at_def)
  have len: "length (flat (Node nm t Done)) = 8 + 4 * (length nm div 4 + 1) + length (flat t)" by (simp add: length_pad_name)
  let ?y = "flat t @ htonl_bytes FDT_END_NODE @ htonl_bytes FDT_END" and ?k = "Suc 0 + (length nm div 4 + 1)"
  have h: "holds dt 0 (htonl_bytes FDT_BEGIN_NODE @ pad_name nm @ ?y)" using assms(1) by (simp add: tree_at_def)
  have h2: "holds dt ?k ?y" using holds_append[OF holds_word(2)[OF h] length_pad_name] .
  have so: "0 \<notin> set prop" "length prop < 128" "\<And>nd. node = Some nd \<Longrightarrow> 0 \<notin> set nd \<and> length nd < 128"
    using assms(2,3) by (auto simp: string_ok_def)
  obtain b where b: "cstr b = nm" "dt_parse_node fuel dt node prop (of_nat 0) = c_loop f (node_step (dt_parse_node f dt node prop) dt b node prop) (of_nat ?k)"
    using parse_node_loop[OF h nm(1,2), of f] assms(4) len f by auto
  have p: "parsed dt (the_prop dt node prop nm t) (?k + length (flat t) div 4 + 1) (dt_parse_node fuel dt node prop 0)"
    using node_loop[OF h2 nm(3) _ _ _ b(1) nm(2) so, of f f] b(2) assms(4) len f by simp
  have c: "devicetree_find_node_prop fuel dt node prop = (case find_step fuel dt node prop 0 of None \<Rightarrow> None | Some (Inl i) \<Rightarrow> c_loop f (find_step fuel dt node prop) i
      | Some (Inr r) \<Rightarrow> Some r)"
    using nm(4) by (simp add: devicetree_find_node_prop_def f split: option.split sum.split)
  show ?thesis
  proof (cases "the_prop dt node prop nm t")
    case None
    have "length (flat t @ htonl_bytes FDT_END_NODE) = 4 * (length (flat t) div 4 + 1)" using length_flat[of t] by auto
    from holds_append[OF _ this, of dt ?k "htonl_bytes FDT_END"] h2 have "holds dt (?k + length (flat t) div 4 + 1) (htonl_bytes FDT_END @ [])"
      by (simp add: add.assoc)
    from holds_word(1)[OF this] have "find_step fuel dt node prop 0 = Some (Inr (- ENOENT))"
      using p None by (simp add: find_step_def parsed_def)
    then show ?thesis using None c by simp
  next
    case (Some x)
    obtain off v where x: "x = (off, v)" by (cases x)
    then obtain j i zs where j: "dt_parse_node fuel dt node prop 0 = Some (of_nat j, i)" "0 < j"
      "holds dt j (htonl_bytes (of_nat (length v)) @ htonl_bytes off @ pad_value v @ zs)"
      using p Some by (auto simp: parsed_def)
    have "sint (of_nat j :: u32) = int j" using holds_index[OF j(3)] by (simp add: signed_of_nat signed_take_bit_int_eq_self)
    then have "find_step fuel dt node prop 0 = Some (Inr (int j))" using j(1) index_pos[OF j(3,2)] by (simp add: find_step_def)
    then show ?thesis using Some x c j(3) by auto
  qed
qed

text \<open>The two words in front of the tree, which a search that fails is answered with.\<close>

lemma front_words:
  assumes "tree_at dt nm t" "8 \<le> dt_off_struct dt"
  shows "\<exists>x. dt_word dt (- 2) = Some x" "\<exists>y. dt_word dt (- 1) = Some y"
proof -
  have at: "dt_at dt (- 2) = unat (dt_off_struct dt) - 8" "dt_at dt (- 1) = unat (dt_off_struct dt) - 4"
    using assms(2) by (simp_all add: dt_at_def word_le_nat_alt unat_sub_if')
  have le: "unat (dt_off_struct dt) \<le> length (dt_blob dt)" using assms(1) by (simp add: tree_at_def holds_def)
  have "8 \<le> unat (dt_off_struct dt)" using assms(2) by (simp add: word_le_nat_alt)
  then show "\<exists>x. dt_word dt (- 2) = Some x" "\<exists>y. dt_word dt (- 1) = Some y"
    using le by (simp_all add: dt_word_def dt_raw_def at slice_eq)
qed

lemma find_int_eq:
  assumes "tree_at dt nm t" "string_ok prop" "\<And>nd. node = Some nd \<Longrightarrow> string_ok nd" "length (flat (Node nm t Done)) < fuel"
  shows "the_prop dt node prop nm t = Some (off, htonl_bytes w) \<Longrightarrow> devicetree_find_int fuel dt node prop = Some (0, Some w)"
    "the_prop dt node prop nm t = None \<Longrightarrow> 8 \<le> dt_off_struct dt \<Longrightarrow> devicetree_find_int fuel dt node prop = Some (0, Some FDT_BEGIN_NODE)"
proof -
  note find = find_node_prop_eq[where node = node, OF assms]
  have v: "dt_valid dt" using assms(1) by (simp add: tree_at_def)
  {
    assume "the_prop dt node prop nm t = Some (off, htonl_bytes w)"
    then obtain j ys where j: "devicetree_find_node_prop fuel dt node prop = Some (int j)"
      "holds dt j (htonl_bytes 4 @ htonl_bytes off @ htonl_bytes w @ ys)"
      using find by (auto simp: pad_value_def)
    note w1 = holds_word[OF j(2)]
    note w2 = holds_word[OF w1(2)]
    note w3 = holds_word[OF w2(2)]
    have "devicetree_prop_int dt (of_nat j) = Some (0, Some w)"
      using v w1(1) w2(1) w3(1) by (simp add: devicetree_prop_int_def add.commute)
    then show "devicetree_find_int fuel dt node prop = Some (0, Some w)" using j(1) by (simp add: devicetree_find_int_def)
  }
  {
    assume a: "the_prop dt node prop nm t = None" "8 \<le> dt_off_struct dt"
    have h: "holds dt 0 (htonl_bytes FDT_BEGIN_NODE @ pad_name nm @ flat t @ htonl_bytes FDT_END_NODE @ htonl_bytes FDT_END)"
      using assms(1) by (simp add: tree_at_def)
    obtain x y where "dt_word dt (- 2) = Some x" "dt_word dt (- 1) = Some y" using front_words[OF assms(1) a(2)] by blast
    then have "devicetree_prop_int dt (- 2) = Some (0, Some FDT_BEGIN_NODE)"
      using v holds_word(1)[OF h] by (simp add: devicetree_prop_int_def)
    then show "devicetree_find_int fuel dt node prop = Some (0, Some FDT_BEGIN_NODE)" using find a(1) by (simp add: devicetree_find_int_def)
  }
qed

lemma find_string_eq:
  assumes "tree_at dt nm t" "string_ok prop" "\<And>nd. node = Some nd \<Longrightarrow> string_ok nd" "length (flat (Node nm t Done)) < fuel"
    and "the_prop dt node prop nm t = Some (off, v)"
  shows "devicetree_find_string fuel dt node prop buf = (if length v \<le> length buf then Some (0, v @ drop (length v) buf) else None)"
proof -
  obtain j ys where j: "devicetree_find_node_prop fuel dt node prop = Some (int j)"
    "holds dt j (htonl_bytes (of_nat (length v)) @ htonl_bytes off @ pad_value v @ ys)"
    using find_node_prop_eq[where node = node, OF assms(1-4)] assms(5) by auto
  note w1 = holds_word[OF j(2)]
  note w2 = holds_word[OF w1(2)]
  have lv: "length v < 2 ^ 32" using w2(2) by (auto simp: holds_def pad_value_def)
  define p where "p = dt_at dt (of_nat j + 2)"
  obtain r where r: "drop p (dt_blob dt) = v @ r" "p + length v \<le> length (dt_blob dt)"
    using w2(2) dt_at_holds[OF w2(2)] by (auto simp: holds_def pad_value_def p_def add.commute)
  have nth: "rd (dt_blob dt) (p + i) = Some (v ! i)" if "i < length v" for i
  proof -
    have "dt_blob dt ! (p + i) = drop p (dt_blob dt) ! i" using that r(2) by simp
    then show ?thesis using that r by (simp add: nth_append)
  qed
  let ?f = "\<lambda>j s. do { b \<leftarrow> rd (dt_blob dt) (p + j); wr s j b }"
  have copy: "c_for n i ?f s = (if i + n \<le> length s then Some (take i s @ take n (drop i v) @ drop (i + n) s) else None)"
    if "i \<le> length s" "i + n \<le> length v" for n i s
    using that
  proof (induction n arbitrary: i s)
    case (Suc n)
    show ?case
    proof (cases "i < length s")
      case True
      have "take (Suc i) (s[i := v ! i]) @ take n (drop (Suc i) v) = take i s @ take (Suc n) (drop i v)"
        using True Suc.prems by (simp add: take_Suc_conv_app_nth Cons_nth_drop_Suc[symmetric] take_update_cancel)
      then have a: "take (Suc i) (s[i := v ! i]) @ take n (drop (Suc i) v) @ d = take i s @ take (Suc n) (drop i v) @ d" for d
        by (metis append_assoc)
      have "c_for (Suc n) i ?f s = c_for n (Suc i) ?f (s[i := v ! i])" using nth[of i] True Suc.prems by simp
      also have "\<dots> = (if Suc i + n \<le> length s then Some (take (Suc i) (s[i := v ! i]) @ take n (drop (Suc i) v) @ drop (Suc i + n) (s[i := v ! i])) else None)"
        using Suc.IH[of "Suc i" "s[i := v ! i]"] True Suc.prems by simp
      finally show ?thesis unfolding a by simp
    qed (use Suc.prems nth[of i] in \<open>simp add: wr_def\<close>)
  qed simp
  have "devicetree_prop_string dt (of_nat j) buf = (if length v \<le> length buf then Some (0, v @ drop (length v) buf) else None)"
  proof -
    have k: "dt_word dt (of_nat j + 1) = Some off" using w2(1) by (simp add: add.commute)
    have u: "unat (of_nat (length v) :: u32) = length v" using lv by (simp add: unat_of_nat)
    have "dt_valid dt" using assms(1) by (simp add: tree_at_def)
    then show ?thesis
      unfolding devicetree_prop_string_def w1(1) k bind.bind_lunit p_def[symmetric] u copy[of 0 buf "length v", simplified] by simp
  qed
  then show ?thesis using j(1) by (simp add: devicetree_find_string_def)
qed

text \<open>
  The trees from which the size of memory is read: addresses and sizes are one word long, and a node called \<open>memory\<close> has a \<open>reg\<close> of one range,
  an address and a size of at least 1024 bytes; or there is no such node, but one called \<open>memory@0\<close>, and the tree, whose root has no name, stands behind
  two words at least, as the header sees to.
\<close>

definition gives_memory :: "device_tree \<Rightarrow> bytes \<Rightarrow> dtree \<Rightarrow> u32 \<Rightarrow> bool" where
  "gives_memory dt nm t l \<longleftrightarrow> 1024 \<le> l
     \<and> map_option snd (the_prop dt None (map (of_nat \<circ> of_char) ''#address-cells'') nm t) = Some (htonl_bytes 1)
     \<and> map_option snd (the_prop dt None (map (of_nat \<circ> of_char) ''#size-cells'') nm t) = Some (htonl_bytes 1)
     \<and> (case the_prop dt (Some (map (of_nat \<circ> of_char) ''memory'')) (map (of_nat \<circ> of_char) ''reg'') nm t of
          Some (_, v) \<Rightarrow> length v = 8 \<and> drop 4 v = htonl_bytes l
        | None \<Rightarrow> nm = [] \<and> 8 \<le> dt_off_struct dt
            \<and> (case the_prop dt (Some (map (of_nat \<circ> of_char) ''memory@0'')) (map (of_nat \<circ> of_char) ''reg'') nm t of
                 Some (_, v) \<Rightarrow> length v = 8 \<and> drop 4 v = htonl_bytes l
               | None \<Rightarrow> False))"

lemma map_snd_Some: "map_option snd x = Some c \<longleftrightarrow> (\<exists>o'. x = Some (o', c))"
  by (cases x) auto

text \<open>A range of one word for the address and one for the size.\<close>

lemma range_words:
  assumes "tree_at dt nm t" "string_ok nd" "length (flat (Node nm t Done)) < fuel"
    and "the_prop dt (Some nd) (map (of_nat \<circ> of_char) ''reg'') nm t = Some (o3, v)" "length v = 8" "drop 4 v = htonl_bytes l"
  shows "\<exists>j a. devicetree_find_node_prop fuel dt (Some nd) (map (of_nat \<circ> of_char) ''reg'') = Some (int j)
    \<and> dt_word dt (of_nat j) = Some 8 \<and> dt_word dt (of_nat j + 1) = Some o3
    \<and> dt_word dt (of_nat j + 2) = Some a \<and> dt_word dt (of_nat j + 3) = Some l"
proof -
  have v: "pad_value v = take 4 v @ htonl_bytes l" using append_take_drop_id[of 4 v] assms(5,6) by (simp add: pad_value_def)
  have "string_ok (map (of_nat \<circ> of_char) ''reg'')" by (simp add: string_ok_def)
  from find_node_prop_eq[OF assms(1) this _ assms(3), where node = "Some nd"]
  obtain j ys where "devicetree_find_node_prop fuel dt (Some nd) (map (of_nat \<circ> of_char) ''reg'') = Some (int j)"
    "holds dt j (htonl_bytes (of_nat (length v)) @ htonl_bytes o3 @ pad_value v @ ys)"
    unfolding assms(4) option.case prod.case using assms(2) by blast
  then have j: "devicetree_find_node_prop fuel dt (Some nd) (map (of_nat \<circ> of_char) ''reg'') = Some (int j)"
    "holds dt j (htonl_bytes 8 @ htonl_bytes o3 @ take 4 v @ htonl_bytes l @ ys)" by (simp_all add: v assms(5))
  note w1 = holds_word[OF j(2)]
  note w2 = holds_word[OF w1(2)]
  have t4: "length (take 4 v) = 4" using assms(5) by simp
  have "dt_raw dt (of_nat (Suc (Suc j))) = Some (le32 (take 4 v))" by (rule holds_raw[OF w2(2) t4])
  moreover have "dt_word dt (of_nat (Suc (Suc j) + 1)) = Some l" using holds_word(1)[OF holds_append[OF w2(2), of 1]] t4 by simp
  ultimately show ?thesis using j(1) w1(1) w2(1) by (auto simp: dt_word_def add.commute)
qed

lemma memory_eq:
  assumes "tree_at dt nm t" "length (flat (Node nm t Done)) < fuel" "gives_memory dt nm t l"
  shows "devicetree_get_memory fuel dt = Some (ucast l)"
proof -
  let ?reg = "map (of_nat \<circ> of_char) ''reg'' :: bytes" and ?mem = "map (of_nat \<circ> of_char) ''memory'' :: bytes"
  note g = assms(3)[unfolded gives_memory_def]
  obtain o1 o2 where o: "the_prop dt None (map (of_nat \<circ> of_char) ''#address-cells'') nm t = Some (o1, htonl_bytes 1)"
    "the_prop dt None (map (of_nat \<circ> of_char) ''#size-cells'') nm t = Some (o2, htonl_bytes 1)"
    using g[THEN conjunct2] unfolding map_snd_Some by blast
  have c: "devicetree_find_int fuel dt None (map (of_nat \<circ> of_char) ''#address-cells'') = Some (0, Some 1)"
    "devicetree_find_int fuel dt None (map (of_nat \<circ> of_char) ''#size-cells'') = Some (0, Some 1)"
    by (rule find_int_eq(1)[OF assms(1) _ _ assms(2) o(1)] find_int_eq(1)[OF assms(1) _ _ assms(2) o(2)]; simp add: string_ok_def)+
  have big: "\<not> (ucast l :: u64) < 1024"
    using g[THEN conjunct1] unat32_lt[of l] by (simp add: word_less_nat_alt word_le_nat_alt unsigned_ucast_eq take_bit_nat_eq_self)
  note mem = g[THEN conjunct2, THEN conjunct2, THEN conjunct2]
  have str: "string_ok ?reg" "string_ok ?mem" "string_ok (map (of_nat \<circ> of_char) ''memory@0'')" by (simp_all add: string_ok_def)
  show ?thesis
  proof (cases "the_prop dt (Some ?mem) ?reg nm t")
    case (Some x)
    obtain o3 v where x: "x = (o3, v)" by force
    note some = Some[unfolded x]
    have v: "length v = 8" "drop 4 v = htonl_bytes l" using mem unfolding some option.case prod.case by blast+
    obtain j a where j: "devicetree_find_node_prop fuel dt (Some ?mem) ?reg = Some (int j)" "dt_word dt (of_nat j) = Some 8"
      "dt_word dt (of_nat j + 1) = Some o3" "dt_word dt (of_nat j + 2) = Some a" "dt_word dt (of_nat j + 3) = Some l"
      using range_words[OF assms(1) str(2) assms(2) some v] by blast
    have "devicetree_get_memory_old fuel dt = Some (ucast l, ucast a)"
      unfolding devicetree_get_memory_old_def c j(1) using j(2-5)
      by (auto simp: cells_value_def dt_word_def bind_eq_Some_conv add.commute[of "3 :: u32"])
    then show ?thesis using big by (simp add: devicetree_get_memory_def)
  next
    case None
    note mem = mem[unfolded None option.case]
    then obtain x where x: "the_prop dt (Some (map (of_nat \<circ> of_char) ''memory@0'')) ?reg nm t = Some x"
      by (cases "the_prop dt (Some (map (of_nat \<circ> of_char) ''memory@0'')) ?reg nm t") (simp_all only: option.case simp_thms)
    obtain o3 v where "x = (o3, v)" by force
    note x = x[unfolded this]
    have nm: "nm = []" "8 \<le> dt_off_struct dt" and v: "length v = 8" "drop 4 v = htonl_bytes l"
      using mem unfolding x option.case prod.case by blast+
    have miss: "devicetree_find_node_prop fuel dt (Some ?mem) ?reg = Some (- ENOENT)"
      using find_node_prop_eq[OF assms(1) str(1) _ assms(2), where node = "Some ?mem"] str(2) unfolding None option.case by blast
    obtain x y where xy: "dt_word dt (- 2) = Some x" "dt_word dt (- 1) = Some y" using front_words[OF assms(1) nm(2)] by blast
    have h: "holds dt 0 (htonl_bytes FDT_BEGIN_NODE @ htonl_bytes 0 @ flat t @ htonl_bytes FDT_END_NODE @ htonl_bytes FDT_END)"
    proof -
      have "pad_name [] = htonl_bytes 0" by code_simp
      then show ?thesis using assms(1) nm(1) by (simp add: tree_at_def)
    qed
    have "dt_word dt 0 = Some FDT_BEGIN_NODE" "dt_word dt 1 = Some 0"
      using holds_word[OF h] holds_word(1)[OF holds_word(2)[OF h]] by simp_all
    then have "devicetree_get_memory_old fuel dt = Some (0, 1)"
      unfolding devicetree_get_memory_old_def c miss using xy by (auto simp: cells_value_def dt_word_def bind_eq_Some_conv)
    moreover obtain j a where j: "devicetree_find_node_prop fuel dt (Some (map (of_nat \<circ> of_char) ''memory@0'')) ?reg = Some (int j)"
      "dt_word dt (of_nat j) = Some 8" "dt_word dt (of_nat j + 1) = Some o3" "dt_word dt (of_nat j + 2) = Some a" "dt_word dt (of_nat j + 3) = Some l"
      using range_words[OF assms(1) str(3) assms(2) x v] by blast
    ultimately show ?thesis using big unfolding devicetree_get_memory_def devicetree_get_memory_new_def by simp
  qed
qed

section \<open>The properties\<close>

text \<open>
  C12: In a well-formed tree the search for a property, in the node of a given name or anywhere, finds the first one with that name in the order of
  the tree, at any depth, and the number it holds is returned.
\<close>

theorem devicetree_finds_int:
  assumes "tree_at dt nm t" and "string_ok prop" and "\<And>nd. node = Some nd \<Longrightarrow> string_ok nd" and "length (flat (Node nm t Done)) < fuel"
    and "first_prop node (\<lambda>off. prop_name dt off = prop) nm t = Some (off, htonl_bytes w)"
  shows "devicetree_find_int fuel dt node prop = Some (0, Some w)"
  using assms by (rule find_int_eq(1))

text \<open>A tree with the property \<open>r\<close> in the node \<open>s\<close>, behind the same property in its root and a padding word.\<close>

definition demo_blob :: bytes where
  "demo_blob = replicate 8 0 @ flat (Node [] (Prop 0 (htonl_bytes 5) (Nop (Node [115] (Prop 0 (htonl_bytes 0xa02082) Done) Done))) Done) @ htonl_bytes FDT_END @ [114, 0, 120, 0]"

definition demo_tree :: device_tree where
  "demo_tree = \<lparr>dt_blob = demo_blob, dt_valid = True, dt_magic = 0xd00dfeed, dt_totalsize = 76, dt_off_struct = 8, dt_off_strs = 72, dt_off_rsvmap = 0,
     dt_version = 1, dt_last_comp_ver = 1, dt_boot_cpu_id = 0, dt_size_strs = 4\<rparr>"

abbreviation (input) "demo_contents \<equiv> Prop 0 (htonl_bytes 5) (Nop (Node [115] (Prop 0 (htonl_bytes 0xa02082) Done) Done))"

lemma demo_tree_at: "tree_at demo_tree [] demo_contents"
  by (simp add: tree_at_def demo_tree_def demo_blob_def holds_def pad_name_def pad_value_def)

lemma demo_names: "prop_name demo_tree 0 = [114]" "prop_name demo_tree 2 = [120]"
  by (simp_all add: prop_name_def demo_tree_def demo_blob_def pad_name_def pad_value_def cstr_Cons)

lemma devicetree_finds_int_witness: "devicetree_find_int 100 demo_tree (Some [115]) [114] = Some (0, Some 0xa02082)"
  by (rule devicetree_finds_int[OF demo_tree_at]) (simp_all add: string_ok_def pad_name_def pad_value_def demo_names)

text \<open>
  C35: A property that is not in the tree is reported as found, with the value 1: the negative result of the search is unsigned and passes for an
  index, and the number is read two words in front of the tree, where its third word is the first word of the root node.
\<close>

theorem devicetree_missing_int:
  assumes "tree_at dt nm t" and "string_ok prop" and "\<And>nd. node = Some nd \<Longrightarrow> string_ok nd" and "length (flat (Node nm t Done)) < fuel"
    and "first_prop node (\<lambda>off. prop_name dt off = prop) nm t = None" and "8 \<le> dt_off_struct dt"
  shows "devicetree_find_int fuel dt node prop = Some (0, Some 1)"
  using assms by (rule find_int_eq(2))

lemma devicetree_missing_int_witness: "devicetree_find_int 100 demo_tree (Some [115]) [120] = Some (0, Some 1)"
  by (rule devicetree_missing_int[OF demo_tree_at])
    (simp_all add: string_ok_def pad_name_def pad_value_def demo_names, simp add: demo_tree_def)

text \<open>
  The 64-bit conversion does not reverse the bytes.  Of a size in a \<open>reg\<close> of three words, which \<open>devicetree_get_memory_new\<close> reads with it, the lower
  32 bits are always 0, and those are all that \<open>hardware_get_memory\<close> keeps.
\<close>

lemma big_to_little64_loses: "(ucast (big_to_little64 (ucast (w :: u32))) :: u32) = 0"
proof (rule bit_word_eqI)
  fix n assume "n < LENGTH(32)"
  have m: "(0xff00000000000000 :: u64) = push_bit 56 (mask 8)" "(0x00ff000000000000 :: u64) = push_bit 48 (mask 8)"
    "(0x0000ff0000000000 :: u64) = push_bit 40 (mask 8)" "(0x000000ff00000000 :: u64) = push_bit 32 (mask 8)"
    "(0x00000000ff000000 :: u64) = push_bit 24 (mask 8)" "(0x0000000000ff0000 :: u64) = push_bit 16 (mask 8)"
    "(0x000000000000ff00 :: u64) = push_bit 8 (mask 8)" by (simp_all add: mask_eq_exp_minus_1)
  show "bit (ucast (big_to_little64 (ucast w)) :: u32) n = bit (0 :: u32) n"
    unfolding big_to_little64_def m using \<open>n < LENGTH(32)\<close> by (auto simp: bit_simps dest: bit_imp_le_length)
qed

lemma big_to_little64_shifts: "big_to_little64 0x0100000000000000 = 0x100"
  by (simp add: big_to_little64_def)

end
