(* ===== verification/Boot.thy ===== *)
theory Boot
  imports Device_Tree
begin

text \<open>
  \<open>boot/atags.c\<close> and \<open>boot/hardware_detect.c\<close>: the list of tags older boot loaders leave, with numbers on the command line, and the choice
  between it and the device tree; the model of the board, its memory and the addresses that depend on the model.
\<close>

section \<open>Tags\<close>

record atag_info =
  ai_revision :: u32
  ai_ramsize :: u32
  ai_hardware_type :: u32
  ai_framebuffer_x :: u32
  ai_framebuffer_y :: u32

abbreviation (input) "ATAG_NONE \<equiv> 0 :: u32"
abbreviation (input) "ATAG_CORE \<equiv> 0x54410001 :: u32"
abbreviation (input) "ATAG_MEM \<equiv> 0x54410002 :: u32"
abbreviation (input) "ATAG_VIDEOTEXT \<equiv> 0x54410003 :: u32"
abbreviation (input) "ATAG_RAMDISK \<equiv> 0x54410004 :: u32"
abbreviation (input) "ATAG_INITRD2 \<equiv> 0x54420005 :: u32"
abbreviation (input) "ATAG_SERIAL \<equiv> 0x54410006 :: u32"
abbreviation (input) "ATAG_REVISION \<equiv> 0x54410007 :: u32"
abbreviation (input) "ATAG_VIDEOLFB \<equiv> 0x54410008 :: u32"
abbreviation (input) "ATAG_CMDLINE \<equiv> 0x54410009 :: u32"

text \<open>\<open>cmdline\<close> is the memory from the command line on; a read behind it is undefined.\<close>

definition parse_digits_step :: "bytes \<Rightarrow> nat \<Rightarrow> u32 \<Rightarrow> nat \<times> u32 \<Rightarrow> (nat \<times> u32 + u32) option" where
  "parse_digits_step cmdline key_len base = (\<lambda>(i, result).
     if strlen cmdline < i + key_len then Some (Inr result)
     else do {
       c \<leftarrow> rd cmdline i;
       let digit = ucast c;
       if digit = 32 \<or> digit = 0 then Some (Inr result)
       else Some (Inl (i + 1, result * base + (if digit \<le> 57 then digit - 48 else digit - 97 + 10))) })"

definition parse_cmdline_step :: "bytes \<Rightarrow> bytes \<Rightarrow> nat \<Rightarrow> (nat + u32) option" where
  "parse_cmdline_step cmdline key i = do {
     c \<leftarrow> rd cmdline i;
     if c = 0 then Some (Inr 0)
     else if strlen cmdline < i + strlen key then Some (Inr 0)
     else if strncmp key (drop i cmdline) (strlen key) = 0 then do {
       let i = i + strlen key + 1;
       c0 \<leftarrow> rd cmdline i;
       hex \<leftarrow> (if c0 = 48 then do { c1 \<leftarrow> rd cmdline (i + 1); Some (c1 = 120) } else Some False);
       r \<leftarrow> c_loop (Suc (length cmdline)) (parse_digits_step cmdline (strlen key) (if hex then 16 else 10)) (if hex then i + 2 else i, 0);
       Some (Inr r) }
     else Some (Inl (i + 1)) }"

definition parse_cmdline_int :: "bytes \<Rightarrow> bytes \<Rightarrow> u32 option" where
  "parse_cmdline_int cmdline key = c_loop (Suc (length cmdline)) (parse_cmdline_step cmdline key) 0"

text \<open>The words of the list; \<open>k\<close> is the number of the first word of a tag.\<close>

definition atag_word :: "bytes \<Rightarrow> nat \<Rightarrow> u32 option" where
  "atag_word blob k = do { b \<leftarrow> slice blob (4 * k) 4; Some (le32 b) }"

definition atags_step :: "bytes \<Rightarrow> nat \<times> atag_info \<Rightarrow> (nat \<times> atag_info + atag_info) option" where
  "atags_step blob = (\<lambda>(k, info). do {
     sz \<leftarrow> atag_word blob k;
     tag \<leftarrow> atag_word blob (k + 1);
     let next = k + unat sz;
     if tag \<in> {ATAG_CORE, ATAG_VIDEOTEXT, ATAG_RAMDISK, ATAG_INITRD2, ATAG_SERIAL, ATAG_REVISION, ATAG_VIDEOLFB} then Some (Inl (next, info))
     else if tag = ATAG_MEM then do {
       total_ram \<leftarrow> atag_word blob (k + 2);
       _ \<leftarrow> atag_word blob (k + 3);
       Some (Inl (next, info\<lparr>ai_ramsize := total_ram\<rparr>)) }
     else if tag = ATAG_CMDLINE then do {
       let cmdline = drop (4 * (k + 2)) blob;
       x \<leftarrow> parse_cmdline_int cmdline (map (of_nat \<circ> of_char) ''fbwidth'');
       y \<leftarrow> parse_cmdline_int cmdline (map (of_nat \<circ> of_char) ''fbheight'');
       r \<leftarrow> parse_cmdline_int cmdline (map (of_nat \<circ> of_char) ''rev'');
       Some (Inl (next, info\<lparr>ai_framebuffer_x := x, ai_framebuffer_y := y, ai_revision := r\<rparr>)) }
     else if tag = ATAG_NONE then Some (Inr info)
     else Some (Inl (k, info)) })"

definition atag_info_zero :: atag_info where
  "atag_info_zero = \<lparr>ai_revision = 0, ai_ramsize = 0, ai_hardware_type = 0, ai_framebuffer_x = 0, ai_framebuffer_y = 0\<rparr>"

definition atags_detect :: "nat \<Rightarrow> bytes \<Rightarrow> atag_info option" where
  "atags_detect fuel blob = c_loop fuel (atags_step blob) (0, atag_info_zero)"

definition atags_get_memory :: "atag_info \<Rightarrow> u32" where
  "atags_get_memory info = ai_ramsize info"

definition atags_get_revision :: "atag_info \<Rightarrow> u32" where
  "atags_get_revision info = ai_revision info"

section \<open>The board\<close>

datatype rpi_model = RPI_MODEL_UNKNOWN | RPI_MODEL_A | RPI_MODEL_B | RPI_MODEL_APLUS | RPI_MODEL_BPLUS | RPI_COMPUTE_MODULE1
  | RPI_MODEL_2B | RPI_MODEL_ZERO | RPI_MODEL_3B | RPI_MODEL_3BPLUS | RPI_MODEL_2B_V1_2 | RPI_COMPUTE_MODULE3 | RPI_MODEL_ZERO_W
  | RPI_MODEL_ZERO_2W | RPI_MODEL_3APLUS | RPI_MODEL_4B

definition hardware_convert_type :: "u32 \<Rightarrow> rpi_model" where
  "hardware_convert_type r =
     (if r \<in> {0x2, 0x3, 0x4, 0x5, 0x6, 0xd, 0xe, 0xf} then RPI_MODEL_B
      else if r \<in> {0x7, 0x8, 0x9} then RPI_MODEL_A
      else if r \<in> {0x10, 0x13, 0x900032} then RPI_MODEL_BPLUS
      else if r \<in> {0x11, 0x14} then RPI_COMPUTE_MODULE1
      else if r = 0xa020a0 then RPI_COMPUTE_MODULE3
      else if r \<in> {0x12, 0x15, 0x900021} then RPI_MODEL_APLUS
      else if r \<in> {0x900092, 0x900093, 0x920093} then RPI_MODEL_ZERO
      else if r = 0x9000c1 then RPI_MODEL_ZERO_W
      else if r = 0x902120 then RPI_MODEL_ZERO_2W
      else if r \<in> {0xa01040, 0xa01041, 0xa21041} then RPI_MODEL_2B
      else if r = 0xa22042 then RPI_MODEL_2B_V1_2
      else if r \<in> {0xa02082, 0xa22082, 0xa32082} then RPI_MODEL_3B
      else if r = 0xa020d3 then RPI_MODEL_3BPLUS
      else if r = 0x9020e0 then RPI_MODEL_3APLUS
      else if r \<in> {0xa03111, 0xb03111, 0xb03112, 0xb03114, 0xb03115, 0xc03111, 0xc03112, 0xc03114, 0xc03115, 0xd03114, 0xd03115} then RPI_MODEL_4B
      else RPI_MODEL_UNKNOWN)"

record hardware =
  hw_tree :: device_tree
  hw_atags :: atag_info
  hw_device_tree_found :: bool
  hw_atags_found :: bool
  hw_revision :: u32
  hw_type :: rpi_model
  hw_io_base :: u32
  hw_act_led_gpio :: u32

definition hardware_detect :: "nat \<Rightarrow> bytes \<Rightarrow> hardware \<Rightarrow> (u32 \<times> hardware) option" where
  "hardware_detect fuel info_ptr h = do {
     (result, dt) \<leftarrow> devicetree_setup info_ptr (hw_tree h);
     let h = h\<lparr>hw_tree := dt\<rparr>;
     if result = 0 then do {
       (_, v) \<leftarrow> devicetree_find_int fuel dt (Some (map (of_nat \<circ> of_char) ''system'')) (map (of_nat \<circ> of_char) ''linux,revision'');
       let r = (case v of None \<Rightarrow> hw_revision h | Some r \<Rightarrow> r);
       Some (0, h\<lparr>hw_device_tree_found := True, hw_revision := r, hw_type := hardware_convert_type r\<rparr>) }
     else do {
       info \<leftarrow> atags_detect fuel info_ptr;
       Some (0, h\<lparr>hw_atags := info, hw_atags_found := True, hw_type := hardware_convert_type (atags_get_revision info)\<rparr>) } }"

definition hardware_get_type :: "hardware \<Rightarrow> rpi_model" where
  "hardware_get_type h = hw_type h"

text \<open>The start and the length of memory.\<close>

definition hardware_get_memory :: "nat \<Rightarrow> hardware \<Rightarrow> (u32 \<times> u32) option" where
  "hardware_get_memory fuel h =
     (if hw_device_tree_found h then do { l \<leftarrow> devicetree_get_memory fuel (hw_tree h); Some (0, ucast l) }
      else if hw_atags_found h then Some (0, atags_get_memory (hw_atags h))
      else Some (0, 256 * 1024 * 1024))"

text \<open>A model that is not named under \<open>act_led_gpio\<close> leaves it as it was.\<close>

definition hardware_setup_vars :: "hardware \<Rightarrow> hardware" where
  "hardware_setup_vars h = (case hw_type h of
      RPI_MODEL_A \<Rightarrow> h\<lparr>hw_io_base := 0x20000000, hw_act_led_gpio := 16\<rparr>
    | RPI_MODEL_APLUS \<Rightarrow> h\<lparr>hw_io_base := 0x20000000, hw_act_led_gpio := 16\<rparr>
    | RPI_MODEL_B \<Rightarrow> h\<lparr>hw_io_base := 0x20000000\<rparr>
    | RPI_MODEL_BPLUS \<Rightarrow> h\<lparr>hw_io_base := 0x20000000, hw_act_led_gpio := 47\<rparr>
    | RPI_MODEL_2B \<Rightarrow> h\<lparr>hw_io_base := 0x3f000000\<rparr>
    | RPI_MODEL_2B_V1_2 \<Rightarrow> h\<lparr>hw_io_base := 0x3f000000\<rparr>
    | RPI_MODEL_3B \<Rightarrow> h\<lparr>hw_io_base := 0x3f000000\<rparr>
    | RPI_MODEL_3BPLUS \<Rightarrow> h\<lparr>hw_io_base := 0x3f000000, hw_act_led_gpio := 29\<rparr>
    | RPI_MODEL_3APLUS \<Rightarrow> h\<lparr>hw_io_base := 0x3f000000, hw_act_led_gpio := 29\<rparr>
    | RPI_MODEL_ZERO \<Rightarrow> h\<lparr>hw_io_base := 0x20000000\<rparr>
    | RPI_MODEL_ZERO_W \<Rightarrow> h\<lparr>hw_io_base := 0x20000000\<rparr>
    | RPI_MODEL_ZERO_2W \<Rightarrow> h\<lparr>hw_io_base := 0x3f000000\<rparr>
    | RPI_COMPUTE_MODULE1 \<Rightarrow> h\<lparr>hw_io_base := 0x20000000\<rparr>
    | RPI_COMPUTE_MODULE3 \<Rightarrow> h\<lparr>hw_io_base := 0x3f000000\<rparr>
    | RPI_MODEL_4B \<Rightarrow> h\<lparr>hw_io_base := 0xfe000000, hw_act_led_gpio := 42\<rparr>
    | RPI_MODEL_UNKNOWN \<Rightarrow> h\<lparr>hw_io_base := 0xfe000000\<rparr>)"

section \<open>Numbers on the command line\<close>

definition is_digit :: "byte \<Rightarrow> bool" where
  "is_digit c \<longleftrightarrow> 48 \<le> c \<and> c \<le> 57"

fun decimal :: "bytes \<Rightarrow> u32 \<Rightarrow> u32" where
  "decimal [] r = r"
| "decimal (c # cs) r = decimal cs (r * 10 + (ucast c - 48))"

lemma is_digit_ucast:
  assumes "is_digit c"
  shows "(ucast c :: u32) \<noteq> 32" "(ucast c :: u32) \<noteq> 0" "(ucast c :: u32) \<le> 57" "c \<noteq> 0" "c \<noteq> 120"
proof -
  have "unat c < 2 ^ LENGTH(8)" by (rule unsigned_less)
  then have "unat (ucast c :: u32) = unat c" by (simp add: unsigned_ucast_eq take_bit_nat_eq_self)
  then show "(ucast c :: u32) \<noteq> 32" "(ucast c :: u32) \<noteq> 0" "(ucast c :: u32) \<le> 57" "c \<noteq> 0" "c \<noteq> 120"
    using assms by (auto simp: is_digit_def word_le_nat_alt word_unat_eq_iff)
qed

text \<open>A line that stops at the first NUL of the memory behind it, with the digits at \<open>p\<close>.\<close>

lemma digits_loop:
  assumes "cmd = line @ 0 # behind" "0 \<notin> set line" "line = xs @ ds @ rest" "\<forall>c \<in> set ds. is_digit c" "rest = [] \<or> hd rest = 32"
    and "length ds < n"
  shows "c_loop n (parse_digits_step cmd kl 10) (length xs, r) = Some (decimal (take (length ds + length rest + 1 - kl) ds) r)"
  using assms(3,4,6)
proof (induction ds arbitrary: xs n r)
  case Nil
  then obtain n' where n: "n = Suc n'" by (cases n) auto
  have len: "strlen cmd = length line" using assms(1,2) by (simp add: strlen_cstr cstr_append_nul)
  have "rd cmd (length xs) = Some (if rest = [] then 0 else 32)"
    using assms(1,5) Nil by (cases rest) (simp_all add: rd_def nth_append)
  then show ?case using n by (simp add: parse_digits_step_def)
next
  case (Cons c ds)
  then obtain n' where n: "n = Suc n'" "length ds < n'" by (cases n) auto
  have "strlen cmd = length line" using assms(1,2) by (simp add: strlen_cstr cstr_append_nul)
  then have len: "strlen cmd = length xs + Suc (length ds) + length rest" using Cons.prems(1) by simp
  have d: "is_digit c" using Cons.prems(2) by simp
  have "rd cmd (length xs) = Some c" using assms(1) Cons.prems(1) by (simp add: rd_def nth_append)
  then have step: "parse_digits_step cmd kl 10 (length xs, r) = Some (if strlen cmd < length xs + kl then Inr r else Inl (length xs + 1, r * 10 + (ucast c - 48)))"
    using is_digit_ucast[OF d] by (simp add: parse_digits_step_def Let_def)
  show ?case
  proof (cases "strlen cmd < length xs + kl")
    case True
    then have "length (c # ds) + length rest + 1 - kl = 0" using len by simp
    then show ?thesis using True step by (simp only: n c_loop.simps) simp
  next
    case False
    then have "length (c # ds) + length rest + 1 - kl = Suc (length ds + length rest + 1 - kl)" using len by simp
    moreover have "c_loop n' (parse_digits_step cmd kl 10) (length (xs @ [c]), r * 10 + (ucast c - 48))
        = Some (decimal (take (length ds + length rest + 1 - kl) ds) (r * 10 + (ucast c - 48)))"
      by (rule Cons.IH) (use Cons.prems n in simp_all)
    ultimately show ?thesis using False step by (simp only: n c_loop.simps) simp
  qed
qed

lemma find_key:
  assumes "cmd = line @ 0 # behind" "0 \<notin> set line" "line = pre @ key @ ys" "key \<noteq> []"
    and "\<And>i. i < length pre \<Longrightarrow> \<not> prefix key (drop i line)" "i \<le> length pre"
  shows "parse_cmdline_step cmd key i = (if i < length pre then Some (Inl (i + 1)) else do {
      let j = i + length key + 1;
      c0 \<leftarrow> rd cmd j;
      hex \<leftarrow> (if c0 = 48 then do { c1 \<leftarrow> rd cmd (j + 1); Some (c1 = 120) } else Some False);
      r \<leftarrow> c_loop (Suc (length cmd)) (parse_digits_step cmd (length key) (if hex then 16 else 10)) (if hex then j + 2 else j, 0);
      Some (Inr r) })"
proof -
  have k: "0 \<notin> set key" using assms(2,3) by auto
  then have len: "strlen cmd = length line" "strlen key = length key" "cstr key = key"
    using assms(1,2) by (simp_all add: strlen_cstr cstr_append_nul cstr_id)
  have "i < length line" using assms(3,4,6) by (cases key) auto
  then have c: "rd cmd i = Some (line ! i)" "line ! i \<noteq> 0" using assms(1,2) by (auto simp: rd_def nth_append in_set_conv_nth)
  have "drop i cmd = drop i line @ 0 # behind" using \<open>i < length line\<close> assms(1) by simp
  moreover have "0 \<notin> set (drop i line)" using assms(2) by (meson in_set_dropD)
  ultimately have t: "strncmp key (drop i cmd) (length key) = 0 \<longleftrightarrow> prefix key (drop i line)"
    using strncmp_strlen_prefix[of key "drop i cmd"] by (simp add: len cstr_append_nul)
  have le: "\<not> strlen cmd < i + length key" using len assms(3,6) by simp
  have "prefix key (drop i line) \<longleftrightarrow> i = length pre" if "\<not> i < length pre"
    using that assms(3,6) by simp
  then show ?thesis using assms(5)[of i] c le t assms(6) len(2)
    by (cases "i < length pre") (simp_all add: parse_cmdline_step_def)
qed

lemma parse_cmdline_eq:
  assumes "cmd = line @ 0 # behind" "0 \<notin> set line" "line = pre @ key @ [61] @ ds @ rest" "key \<noteq> []"
    and "\<And>i. i < length pre \<Longrightarrow> \<not> prefix key (drop i line)"
    and "\<forall>c \<in> set ds. is_digit c" "rest = [] \<or> hd rest = 32"
  shows "parse_cmdline_int cmd key = Some (decimal (take (length ds + length rest + 1 - length key) ds) 0)"
proof -
  let ?r = "decimal (take (length ds + length rest + 1 - length key) ds) 0"
  let ?j = "length pre + length key + 1"
  have l: "length line = ?j + length ds + length rest" using assms(3) by simp
  have nth: "rd cmd (?j + m) = Some ((ds @ rest @ 0 # behind) ! m)" if "m \<le> length ds + length rest" for m
  proof -
    have "cmd = (pre @ key @ [61]) @ (ds @ rest @ 0 # behind)" "length (pre @ key @ [61]) = ?j" using assms(1,3) by simp_all
    then have "cmd ! (?j + m) = (ds @ rest @ 0 # behind) ! m" by (metis nth_append_length_plus)
    moreover have "?j + m < length cmd" using that assms(1,3) by simp
    ultimately show ?thesis by simp
  qed
  have "hd (rest @ 0 # behind) = 32 \<or> hd (rest @ 0 # behind) = 0" using assms(7) by (cases rest) simp_all
  have nohex: "c0 = 48 \<Longrightarrow> rd cmd (?j + 1) \<noteq> None \<and> rd cmd (?j + 1) \<noteq> Some 120" if "rd cmd ?j = Some c0" for c0
  proof -
    assume "c0 = 48"
    have "c0 = (ds @ rest @ 0 # behind) ! 0" using that nth[of 0] by simp
    then obtain d ds' where ds: "ds = d # ds'" using \<open>c0 = 48\<close> assms(7) by (cases ds; cases rest) auto
    then have "rd cmd (?j + 1) = Some ((ds' @ rest @ 0 # behind) ! 0)" using nth[of 1] by simp
    moreover have "(ds' @ rest @ 0 # behind) ! 0 \<noteq> 120"
    proof (cases ds')
      case (Cons e es)
      then show ?thesis using is_digit_ucast(5)[of e] assms(6) ds by simp
    qed (use assms(7) in \<open>cases rest; auto\<close>)
    ultimately show ?thesis by simp
  qed
  have digits: "c_loop (Suc (length cmd)) (parse_digits_step cmd (length key) 10) (?j, 0) = Some ?r"
    using digits_loop[OF assms(1,2), of "pre @ key @ [61]" ds rest "Suc (length cmd)" "length key" 0] assms(1,3,6,7) by simp
  have fk: "parse_cmdline_step cmd key i = (if i < length pre then Some (Inl (i + 1)) else do {
      let j = i + length key + 1;
      c0 \<leftarrow> rd cmd j;
      hex \<leftarrow> (if c0 = 48 then do { c1 \<leftarrow> rd cmd (j + 1); Some (c1 = 120) } else Some False);
      r \<leftarrow> c_loop (Suc (length cmd)) (parse_digits_step cmd (length key) (if hex then 16 else 10)) (if hex then j + 2 else j, 0);
      Some (Inr r) })" if "i \<le> length pre" for i
    by (rule find_key[OF assms(1-5) that])
  have c0: "rd cmd ?j = Some ((ds @ rest @ 0 # behind) ! 0)" using nth[of 0] by simp
  have hex: "(if (ds @ rest @ 0 # behind) ! 0 = 48 then do { c1 \<leftarrow> rd cmd (?j + 1); Some (c1 = 120) } else Some False) = Some False"
    using nohex[OF c0] by (cases "rd cmd (?j + 1)") auto
  have last: "parse_cmdline_step cmd key (length pre) = Some (Inr ?r)"
    unfolding fk[OF order_refl] by (simp only: less_irrefl if_False Let_def c0 bind.bind_lunit hex digits)
  have run: "c_loop n (parse_cmdline_step cmd key) i = Some ?r" if "i \<le> length pre" "length pre < n + i" for n i
    using that
  proof (induction n arbitrary: i)
    case (Suc n)
    show ?case
    proof (cases "i = length pre")
      case False
      then have "i < length pre" using Suc.prems(1) by simp
      then have "parse_cmdline_step cmd key i = Some (Inl (i + 1))"
        unfolding fk[OF Suc.prems(1)] by simp
      then show ?thesis using Suc.IH[of "i + 1"] \<open>i < length pre\<close> Suc.prems(2) by simp
    qed (simp add: last)
  qed simp
  have "length pre < Suc (length cmd) + 0" using assms(1) l by simp
  from run[OF _ this] show ?thesis by (simp only: parse_cmdline_int_def)
qed

section \<open>Lists of tags\<close>

text \<open>A tag with the words behind its header; \<open>known\<close> are the ones that only take their place.\<close>

type_synonym tag = "u32 \<times> u32 list"

definition tag_bytes :: "tag \<Rightarrow> bytes" where
  "tag_bytes t = word_bytes (of_nat (length (snd t) + 2)) @ word_bytes (fst t) @ concat (map word_bytes (snd t))"

definition known_tag :: "u32 \<Rightarrow> bool" where
  "known_tag c \<longleftrightarrow> c \<in> {ATAG_CORE, ATAG_VIDEOTEXT, ATAG_RAMDISK, ATAG_INITRD2, ATAG_SERIAL, ATAG_REVISION, ATAG_VIDEOLFB}"

definition tag_ok :: "tag \<Rightarrow> bool" where
  "tag_ok t \<longleftrightarrow> length (snd t) + 2 < 2 ^ 32 \<and> (known_tag (fst t) \<or> fst t = ATAG_MEM \<and> 2 \<le> length (snd t))"

fun ram_of :: "tag list \<Rightarrow> u32 \<Rightarrow> u32" where
  "ram_of [] r = r"
| "ram_of (t # tgs) r = ram_of tgs (if fst t = ATAG_MEM then hd (snd t) else r)"

lemma length_tag_bytes: "length (tag_bytes t) = 4 * (length (snd t) + 2)"
proof -
  have "length (concat (map word_bytes ws)) = 4 * length ws" for ws by (induction ws) simp_all
  then show ?thesis by (simp add: tag_bytes_def)
qed

lemma atag_word_at: "length xs = 4 * k \<Longrightarrow> atag_word (xs @ word_bytes w @ ys) k = Some w"
  by (simp add: atag_word_def slice_eq)

text \<open>The tags are passed one by one.\<close>

lemma atags_pass:
  assumes "length xs = 4 * k" "tag_ok t"
  shows "atags_step (xs @ tag_bytes t @ ys) (k, info) = Some (Inl (k + (length (snd t) + 2), if fst t = ATAG_MEM then info\<lparr>ai_ramsize := hd (snd t)\<rparr> else info))"
proof -
  let ?b = "xs @ tag_bytes t @ ys" and ?n = "length (snd t) + 2"
  have n: "unat (of_nat ?n :: u32) = ?n" using assms(2) by (subst unat_of_nat) (simp add: tag_ok_def)
  have sz: "atag_word ?b k = Some (of_nat ?n)" using atag_word_at[OF assms(1)] by (simp add: tag_bytes_def)
  have code: "atag_word ?b (Suc k) = Some (fst t)"
    using atag_word_at[of "xs @ word_bytes (of_nat ?n)" "Suc k" "fst t"] assms(1) by (simp add: tag_bytes_def)
  consider "known_tag (fst t)" | "fst t = ATAG_MEM" "2 \<le> length (snd t)" using assms(2) by (auto simp: tag_ok_def)
  then show ?thesis
  proof cases
    case 1
    then show ?thesis using n by (auto simp: atags_step_def sz code known_tag_def simp del: of_nat_add)
  next
    case 2
    then obtain a b ws where w: "snd t = a # b # ws" by (cases "snd t"; cases "tl (snd t)") auto
    have "atag_word ?b (k + 2) = Some a" "atag_word ?b (k + 3) = Some b"
      using atag_word_at[of "xs @ word_bytes (of_nat ?n) @ word_bytes (fst t)" "k + 2" a]
        atag_word_at[of "xs @ word_bytes (of_nat ?n) @ word_bytes (fst t) @ word_bytes a" "k + 3" b] assms(1) w by (simp_all add: tag_bytes_def)
    then show ?thesis using 2 n w by (simp add: atags_step_def sz code del: of_nat_add)
  qed
qed

lemma atags_list:
  assumes "length xs = 4 * k" "\<forall>t \<in> set tgs. tag_ok t"
  shows "c_loop (length tgs + n) (atags_step (xs @ concat (map tag_bytes tgs) @ ys)) (k, info)
    = c_loop n (atags_step (xs @ concat (map tag_bytes tgs) @ ys)) (length (xs @ concat (map tag_bytes tgs)) div 4, info\<lparr>ai_ramsize := ram_of tgs (ai_ramsize info)\<rparr>)"
  using assms
proof (induction tgs arbitrary: xs k info)
  case (Cons t tgs)
  let ?i = "if fst t = ATAG_MEM then info\<lparr>ai_ramsize := hd (snd t)\<rparr> else info"
  have "length (xs @ tag_bytes t) = 4 * (k + (length (snd t) + 2))" using Cons.prems(1) by (simp add: length_tag_bytes)
  from Cons.IH[OF this, of ?i] Cons.prems(2)
  have "c_loop (length tgs + n) (atags_step (xs @ concat (map tag_bytes (t # tgs)) @ ys)) (k + (length (snd t) + 2), ?i)
      = c_loop n (atags_step (xs @ concat (map tag_bytes (t # tgs)) @ ys)) (length (xs @ concat (map tag_bytes (t # tgs))) div 4, ?i\<lparr>ai_ramsize := ram_of tgs (ai_ramsize ?i)\<rparr>)"
    by simp
  moreover have "?i\<lparr>ai_ramsize := ram_of tgs (ai_ramsize ?i)\<rparr> = info\<lparr>ai_ramsize := ram_of (t # tgs) (ai_ramsize info)\<rparr>" by simp
  ultimately show ?case
    using atags_pass[OF Cons.prems(1), of t "concat (map tag_bytes tgs) @ ys" info] Cons.prems(2) by simp
qed simp

text \<open>A list that ends properly gives the size of the last tag for memory; one with a tag the code does not know never ends.\<close>

lemma atags_detect_ends:
  assumes "\<forall>t \<in> set tgs. tag_ok t" "length tgs < fuel"
  shows "atags_detect fuel (concat (map tag_bytes tgs) @ tag_bytes (ATAG_NONE, []) @ ys) = Some (atag_info_zero\<lparr>ai_ramsize := ram_of tgs 0\<rparr>)"
proof -
  let ?b = "concat (map tag_bytes tgs) @ tag_bytes (ATAG_NONE, []) @ ys"
  define k where "k = length (concat (map tag_bytes tgs)) div 4"
  have "4 dvd length (concat (map tag_bytes us))" for us by (induction us) (simp_all add: length_tag_bytes)
  then have k: "length (concat (map tag_bytes tgs)) = 4 * k" by (simp add: k_def)
  obtain n where n: "fuel = length tgs + Suc n" by (metis assms(2) less_imp_Suc_add add_Suc_right)
  have "atag_word ?b k = Some 2" "atag_word ?b (k + 1) = Some ATAG_NONE"
    using atag_word_at[OF k, of 2] atag_word_at[of "concat (map tag_bytes tgs) @ word_bytes 2" "k + 1" ATAG_NONE] k by (simp_all add: tag_bytes_def)
  then have "atags_step ?b (k, info) = Some (Inr info)" for info by (simp add: atags_step_def)
  then show ?thesis
    using atags_list[of "[]" 0 tgs "Suc n" "tag_bytes (ATAG_NONE, []) @ ys" atag_info_zero] assms(1)
    by (simp add: atags_detect_def n k_def[symmetric] atag_info_zero_def)
qed

lemma atags_detect_hangs:
  assumes "\<forall>t \<in> set tgs. tag_ok t" "\<not> known_tag c" "c \<notin> {ATAG_MEM, ATAG_CMDLINE, ATAG_NONE}"
  shows "atags_detect fuel (concat (map tag_bytes tgs) @ tag_bytes (c, ws) @ ys) = None"
proof -
  let ?b = "concat (map tag_bytes tgs) @ tag_bytes (c, ws) @ ys"
  define k where "k = length (concat (map tag_bytes tgs)) div 4"
  have "4 dvd length (concat (map tag_bytes us))" for us by (induction us) (simp_all add: length_tag_bytes)
  then have k: "length (concat (map tag_bytes tgs)) = 4 * k" by (simp add: k_def)
  have "atag_word ?b k = Some (of_nat (length ws + 2))" "atag_word ?b (k + 1) = Some c"
    using atag_word_at[OF k, of "of_nat (length ws + 2)"] atag_word_at[of "concat (map tag_bytes tgs) @ word_bytes (of_nat (length ws + 2))" "k + 1" c] k
    by (simp_all add: tag_bytes_def)
  then have "atags_step ?b (k, info) = Some (Inl (k, info))" for info using assms(2,3) by (simp add: atags_step_def known_tag_def)
  then have "c_loop n (atags_step ?b) (k, info) = None" for n info by (intro c_loop_diverges[where I = "\<lambda>s. s = (k, info)"]) simp_all
  then have "c_loop (length tgs + fuel) (atags_step ?b) (0, atag_info_zero) = None"
    using atags_list[of "[]" 0 tgs fuel "tag_bytes (c, ws) @ ys" atag_info_zero] assms(1) by (simp add: k_def[symmetric])
  then show ?thesis unfolding atags_detect_def using c_loop_mono[of fuel _ _ _ "length tgs + fuel"]
    by (metis le_add2 not_None_eq option.distinct(1))
qed

section \<open>The properties\<close>

text \<open>
  C37: A number on the command line, in digits up to a space or the end, loses its last digits when it stands near the end of the line: as many
  digits are read as there are characters from the first digit on, less the length of the key, and one more.  With as much text behind it as the key is
  long, the whole number is read.
\<close>

theorem command_line_number:
  assumes "cmd = line @ 0 # behind" and "0 \<notin> set line" and "line = pre @ key @ [61] @ ds @ rest" and "key \<noteq> []"
    and "\<And>i. i < length pre \<Longrightarrow> \<not> prefix key (drop i line)"
    and "\<forall>c \<in> set ds. is_digit c" and "rest = [] \<or> hd rest = 32"
  shows "parse_cmdline_int cmd key = Some (decimal (take (length ds + length rest + 1 - length key) ds) 0)"
  by (rule parse_cmdline_eq[OF assms])

text \<open>Of \<open>a rev=123\<close> only the 1 is read.\<close>

lemma command_line_number_witness: "parse_cmdline_int [97, 32, 114, 101, 118, 61, 49, 50, 51, 0] [114, 101, 118] = Some 1"
proof -
  have e: "\<not> prefix [114, 101, 118] (drop i [97, 32, 114, 101, 118, 61, 49, 50, 51 :: byte])" if "i < length [97, 32 :: byte]" for i
  proof -
    have "i = 0 \<or> i = 1" using that by auto
    then show ?thesis by (elim disjE) simp_all
  qed
  have "parse_cmdline_int [97, 32, 114, 101, 118, 61, 49, 50, 51, 0] [114, 101, 118]
      = Some (decimal (take (length [49, 50, 51 :: byte] + length ([] :: bytes) + 1 - length [114, 101, 118 :: byte]) [49, 50, 51]) 0)"
  proof (rule command_line_number[where line = "[97, 32, 114, 101, 118, 61, 49, 50, 51]" and pre = "[97, 32]" and behind = "[]"])
    fix i :: nat assume "i < length [97, 32 :: byte]"
    then show "\<not> prefix [114, 101, 118] (drop i [97, 32, 114, 101, 118, 61, 49, 50, 51 :: byte])" by (rule e)
  qed (simp_all add: is_digit_def)
  then show ?thesis by simp
qed

abbreviation (input) "dt_string s \<equiv> map (of_nat \<circ> of_char) s"

text \<open>
  C13: On a board whose boot loader leaves a device tree with the revision of the board, as \<open>linux,revision\<close> in a node \<open>system\<close>, and with its memory in
  one of the forms that are read (\<open>gives_memory\<close>), the kernel finds the model and uses that memory.  The forms: addresses and sizes of one word, and one
  range of at least 1024 bytes in the \<open>reg\<close> of a node \<open>memory\<close>, or of a node \<open>memory@0\<close> where there is no such node and the root has no name.  From other
  documented forms, such as a \<open>reg\<close> of three words, the code reads a wrong size (\<open>big_to_little64_loses\<close>).
\<close>

theorem hardware_found:
  assumes "devicetree_setup info_ptr (hw_tree h) = Some (0, dt)" and "tree_at dt nm t" and "length (flat (Node nm t Done)) < fuel"
    and "first_prop (Some (dt_string ''system'')) (\<lambda>off. prop_name dt off = dt_string ''linux,revision'') nm t = Some (o0, htonl_bytes revision)"
    and "gives_memory dt nm t l"
  shows "\<exists>h'. hardware_detect fuel info_ptr h = Some (0, h') \<and> hardware_get_type h' = hardware_convert_type revision
    \<and> hardware_get_memory fuel h' = Some (0, l)"
proof -
  have "devicetree_find_int fuel dt (Some (dt_string ''system'')) (dt_string ''linux,revision'') = Some (0, Some revision)"
    by (rule find_int_eq(1)[OF assms(2) _ _ assms(3,4)]) (auto simp: string_ok_def)
  moreover have "devicetree_get_memory fuel dt = Some (ucast l)" by (rule memory_eq[OF assms(2,3,5)])
  moreover have "(ucast (ucast l :: u64) :: u32) = l" by (rule bit_word_eqI) (simp add: bit_simps)
  ultimately show ?thesis unfolding hardware_detect_def assms(1) hardware_get_memory_def hardware_get_type_def by simp
qed

text \<open>The tree of a Raspberry Pi 3B with 1 GB less 64 MB, with its memory in the node \<open>nm\<close>; \<open>s\<close> is the place of its strings.\<close>

abbreviation (input) "pi_contents nm \<equiv>
  Prop 0 (htonl_bytes 1) (Prop 15 (htonl_bytes 1) (Node nm (Prop 27 (htonl_bytes 0 @ htonl_bytes 0x3c000000) Done)
    (Node (dt_string ''system'') (Prop 31 (htonl_bytes 0xa02082) Done) Done)))"

definition pi_strings :: bytes where
  "pi_strings = dt_string ''#address-cells'' @ 0 # dt_string ''#size-cells'' @ 0 # dt_string ''reg'' @ 0 # dt_string ''linux,revision'' @ [0]"

definition pi_blob :: "bytes \<Rightarrow> u32 \<Rightarrow> bytes" where
  "pi_blob nm s = htonl_bytes 0xd00dfeed @ htonl_bytes (s + 46) @ htonl_bytes 40 @ htonl_bytes s @ htonl_bytes 40 @ htonl_bytes 17 @ htonl_bytes 16 @ htonl_bytes 0
     @ htonl_bytes 46 @ htonl_bytes 0 @ flat (Node [] (pi_contents nm) Done) @ htonl_bytes FDT_END @ pi_strings"

definition pi_zero :: hardware where
  "pi_zero = \<lparr>hw_tree = demo_tree, hw_atags = atag_info_zero, hw_device_tree_found = False, hw_atags_found = False, hw_revision = 0,
     hw_type = RPI_MODEL_3B, hw_io_base = 0, hw_act_led_gpio = 0\<rparr>"

definition pi_tree :: "bytes \<Rightarrow> u32 \<Rightarrow> device_tree" where
  "pi_tree nm s = \<lparr>dt_blob = pi_blob nm s, dt_valid = True, dt_magic = 0xd00dfeed, dt_totalsize = s + 46, dt_off_struct = 40, dt_off_strs = s,
     dt_off_rsvmap = 40, dt_version = 17, dt_last_comp_ver = 16, dt_boot_cpu_id = 0, dt_size_strs = 46\<rparr>"

lemma pi_setup: "devicetree_setup (pi_blob nm s) (hw_tree pi_zero) = Some (0, pi_tree nm s)"
  by (simp add: devicetree_setup_def pi_blob_def pi_zero_def pi_tree_def demo_tree_def slice_eq big_to_little_eq Let_def)

lemma pi_tree_at: "tree_at (pi_tree (dt_string ''memory'') 156) [] (pi_contents (dt_string ''memory''))"
  "tree_at (pi_tree (dt_string ''memory@0'') 160) [] (pi_contents (dt_string ''memory@0''))"
  by (simp_all add: tree_at_def pi_tree_def pi_blob_def holds_def pad_name_def pad_value_def pi_strings_def)

lemma pi_names:
  assumes "dt = pi_tree (dt_string ''memory'') 156 \<or> dt = pi_tree (dt_string ''memory@0'') 160"
  shows "prop_name dt 0 = dt_string ''#address-cells''" "prop_name dt 15 = dt_string ''#size-cells''"
    "prop_name dt 27 = dt_string ''reg''" "prop_name dt 31 = dt_string ''linux,revision''"
  using assms by (elim disjE; simp add: prop_name_def pi_tree_def pi_blob_def pad_name_def pad_value_def pi_strings_def cstr_Cons)+

lemma hardware_found_witness:
  "(\<exists>h'. hardware_detect 200 (pi_blob (dt_string ''memory'') 156) pi_zero = Some (0, h') \<and> hardware_get_type h' = RPI_MODEL_3B
      \<and> hardware_get_memory 200 h' = Some (0, 0x3c000000))
    \<and> (\<exists>h'. hardware_detect 200 (pi_blob (dt_string ''memory@0'') 160) pi_zero = Some (0, h') \<and> hardware_get_type h' = RPI_MODEL_3B
      \<and> hardware_get_memory 200 h' = Some (0, 0x3c000000))"
proof -
  define a where "a = pi_tree (dt_string ''memory'') 156"
  define b where "b = pi_tree (dt_string ''memory@0'') 160"
  have names: "prop_name dt 0 = dt_string ''#address-cells''" "prop_name dt 15 = dt_string ''#size-cells''"
    "prop_name dt 27 = dt_string ''reg''" "prop_name dt 31 = dt_string ''linux,revision''" if "dt = a \<or> dt = b" for dt
    using pi_names that unfolding a_def b_def by blast+
  note at = pi_tree_at[folded a_def b_def]
  have s: "devicetree_setup (pi_blob (dt_string ''memory'') 156) (hw_tree pi_zero) = Some (0, a)"
    "devicetree_setup (pi_blob (dt_string ''memory@0'') 160) (hw_tree pi_zero) = Some (0, b)"
    unfolding a_def b_def by (rule pi_setup)+
  have "dt_off_struct b = 40" by (simp add: b_def pi_tree_def)
  then have g: "gives_memory a [] (pi_contents (dt_string ''memory'')) 0x3c000000" "gives_memory b [] (pi_contents (dt_string ''memory@0'')) 0x3c000000"
    by (simp_all add: gives_memory_def names)
  have "hardware_convert_type 0xa02082 = RPI_MODEL_3B" by (simp add: hardware_convert_type_def)
  moreover have "\<exists>h'. hardware_detect 200 (pi_blob (dt_string ''memory'') 156) pi_zero = Some (0, h')
      \<and> hardware_get_type h' = hardware_convert_type 0xa02082 \<and> hardware_get_memory 200 h' = Some (0, 0x3c000000)"
    by (rule hardware_found[OF s(1) at(1) _ _ g(1)]) (simp_all add: names pad_name_def pad_value_def)
  moreover have "\<exists>h'. hardware_detect 200 (pi_blob (dt_string ''memory@0'') 160) pi_zero = Some (0, h')
      \<and> hardware_get_type h' = hardware_convert_type 0xa02082 \<and> hardware_get_memory 200 h' = Some (0, 0x3c000000)"
    by (rule hardware_found[OF s(2) at(2) _ _ g(2)]) (simp_all add: names pad_name_def pad_value_def)
  ultimately show ?thesis by simp
qed

end
