(* ===== verification/Exec.thy ===== *)
theory Exec
  imports Process_System Loader
begin

text \<open>
  Running programs: \<open>execve\<close> (\<open>processes/exec.c\<close>), which replaces the program of the calling process by one from a file, and the
  creation of the first two processes (\<open>processes/idle_task.c\<close>, \<open>processes/userspace.c\<close>).  The name of the file is the string as the
  caller passed it, \<open>argv\<close> an address.  Debugging output and the flush of the instruction cache are not modelled.
\<close>

abbreviation (input) "DEFAULT_USER_STACK_SIZE \<equiv> 8192 :: u32"

section \<open>execve\<close>

text \<open>The comparison with \<open>bFLT\<close>, character by character; the characters a short read does not deliver are undefined.\<close>

definition is_bflt :: "bytes \<Rightarrow> bool option" where
  "is_bflt magic = do {
     a \<leftarrow> rd magic 0;
     if a \<noteq> 0x62 then Some False
     else do {
       b \<leftarrow> rd magic 1;
       if b \<noteq> 0x46 then Some False
       else do {
         c \<leftarrow> rd magic 2;
         if c \<noteq> 0x4c then Some False
         else do { d \<leftarrow> rd magic 3; Some (d = 0x54) } } } }"

text \<open>The stack and the room of the program, or none of them.\<close>

definition alloc_program :: "u32 \<Rightarrow> u32 \<Rightarrow> mem_state \<Rightarrow> ((nat \<times> nat) option \<times> mem_state) option" where
  "alloc_program stack_sz program_sz m = do {
     (stack_page, m1) \<leftarrow> memory_allocate (unat stack_sz) MEMORY_USER m;
     (binary_start, m2) \<leftarrow> memory_allocate (unat program_sz) MEMORY_USER m1;
     if binary_start = 0 \<or> stack_page = 0 then do {
       m3 \<leftarrow> free_area binary_start (unat program_sz) m2;
       m4 \<leftarrow> free_area stack_page (unat stack_sz) m3;
       Some (None, m4) }
     else Some (Some (stack_page, binary_start), m2) }"

record loaded =
  l_stack :: nat
  l_stack_size :: u32
  l_binary :: nat
  l_program_size :: u32

text \<open>The result of \<open>bflt_load\<close> is not looked at: when it fails the sizes are undefined.\<close>

definition load_bflt :: "nat \<Rightarrow> file_operations \<Rightarrow> inode \<Rightarrow> fs_state \<Rightarrow> kern \<Rightarrow> (loaded option \<times> kern) option" where
  "load_bflt fuel ops ino fs k = do {
     r \<leftarrow> bflt_load fuel ops ino fs;
     (case r of Inl _ \<Rightarrow> None
      | Inr h \<Rightarrow> do {
          k1 \<leftarrow> upd (current k) (\<lambda>p. p\<lparr>p_datasize := unat (bss_start h - data_start h), p_bsssize := unat (bss_end h - bss_start h)\<rparr>) k;
          (a, m) \<leftarrow> alloc_program (stack_size h) (total_program_size h) (memory k1);
          (case a of None \<Rightarrow> Some (None, k1\<lparr>memory := m\<rparr>)
           | Some (stack_page, binary_start) \<Rightarrow> do {
               (_, image, _) \<leftarrow> file_read fuel ops ino (total_ondisk_size h) (ucast (text_start h)) fs;
               m1 \<leftarrow> ram_put binary_start image m;
               (_, m2) \<leftarrow> bflt_reloc fuel ops ino fs (of_nat binary_start) m1;
               Some (Some \<lparr>l_stack = stack_page, l_stack_size = stack_size h, l_binary = binary_start,
                           l_program_size = total_program_size h\<rparr>, k1\<lparr>memory := m2\<rparr>) }) }) }"

definition load_raw :: "nat \<Rightarrow> file_operations \<Rightarrow> inode \<Rightarrow> fs_state \<Rightarrow> kern \<Rightarrow> (loaded option \<times> kern) option" where
  "load_raw fuel ops ino fs k = do {
     let sz = of_nat (i_size ino);
     (a, m) \<leftarrow> alloc_program DEFAULT_USER_STACK_SIZE sz (memory k);
     (case a of None \<Rightarrow> Some (None, k\<lparr>memory := m\<rparr>)
      | Some (stack_page, binary_start) \<Rightarrow> do {
          (_, image, _) \<leftarrow> file_read fuel ops ino sz 0 fs;
          m1 \<leftarrow> ram_put binary_start image m;
          Some (Some \<lparr>l_stack = stack_page, l_stack_size = DEFAULT_USER_STACK_SIZE, l_binary = binary_start, l_program_size = sz\<rparr>,
                k\<lparr>memory := m1\<rparr>) }) }"

definition set_image :: "loaded \<Rightarrow> nat \<Rightarrow> nat \<Rightarrow> pcb \<Rightarrow> pcb" where
  "set_image l argc argv_location p =
     p\<lparr>p_regs := (p_regs p)[13 := of_nat argv_location, 0 := of_nat argc, 1 := of_nat argv_location],
       p_stack := l_stack l, p_stacksize := unat (l_stack_size l),
       p_pc := of_nat (l_binary l), p_text := l_binary l, p_textsize := unat (l_program_size l)\<rparr>"

text \<open>From the program in memory on, and from the open file on.\<close>

definition exec_start :: "nat \<Rightarrow> bytes \<Rightarrow> nat \<Rightarrow> loaded \<Rightarrow> kern \<Rightarrow> (int \<times> kern) option" where
  "exec_start fuel filename argv l k = do {
     p \<leftarrow> rd (procs k) (current k);
     (_, name) \<leftarrow> strlcpy (p_name p) filename 32;
     k1 \<leftarrow> upd (current k) (p_name_update (\<lambda>_. name)) k;
     (argc, argv_location, m) \<leftarrow> exec_args fuel argv (l_stack l + unat (l_stack_size l)) (memory k1);
     k2 \<leftarrow> upd (current k) (set_image l argc argv_location) (k1\<lparr>memory := m\<rparr>);
     Some (int argc, k2) }"

definition exec_file :: "nat \<Rightarrow> bytes \<Rightarrow> nat \<Rightarrow> nat \<Rightarrow> kfiles \<Rightarrow> kern \<Rightarrow> (int \<times> kern) option" where
  "exec_file fuel filename argv j fs k = do {
     (f, _, ino) \<leftarrow> file_get j fs;
     (_, magic, _) \<leftarrow> file_read fuel (file_ops f) ino 16 0 (k_fs fs);
     b \<leftarrow> is_bflt magic;
     (l, k1) \<leftarrow> (if b then load_bflt else load_raw) fuel (file_ops f) ino (k_fs fs) k;
     (case l of None \<Rightarrow> Some (- ENOMEM, k1)
      | Some l \<Rightarrow> do {
          (_, fs1) \<leftarrow> file_object_free fuel j fs;
          k2 \<leftarrow> store_files fs1 k1;
          exec_start fuel filename argv l k2 }) }"

definition execve :: "nat \<Rightarrow> bytes \<Rightarrow> nat \<Rightarrow> kern \<Rightarrow> (int \<times> kern) option" where
  "execve fuel filename argv k = do {
     fs \<leftarrow> file_view k;
     (r, fs1) \<leftarrow> open_file_object fuel filename O_RDONLY fs;
     k1 \<leftarrow> store_files fs1 k;
     (case r of Inl e \<Rightarrow> Some (e, k1)
      | Inr j \<Rightarrow> exec_file fuel filename argv j fs1 k1) }"

section \<open>The first processes\<close>

text \<open>The idle task, whose code is in the kernel at the address \<open>idle_task\<close>.  A full process table is not looked for.\<close>

definition create_idle_task :: "nat \<Rightarrow> nat \<Rightarrow> kern \<Rightarrow> kern option" where
  "create_idle_task fuel idle_task k = do {
     (c, k1) \<leftarrow> process_create fuel k;
     i \<leftarrow> c;
     k2 \<leftarrow> upd i (\<lambda>p. p\<lparr>p_text := idle_task, p_textsize := 4, p_pc := of_nat idle_task, p_running := True, p_user_time := 0,
              p_start_time := ticks_since_boot k1, p_last_scheduled := ticks_since_boot k1\<rparr>) k1;
     (stk, m) \<leftarrow> memory_allocate 4096 MEMORY_USER (memory k2);
     p \<leftarrow> rd (procs k2) i;
     name \<leftarrow> strncpy (p_name p) [105, 100, 108, 101, 0] 5;
     upd i (\<lambda>p. p\<lparr>p_stack := stk, p_stacksize := 4096, p_regs := (p_regs p)[13 := of_nat (stk + 4096)], p_spsr := 0x1f,
              p_name := name, p_status := Ready\<rparr>) (k2\<lparr>memory := m\<rparr>) }"

text \<open>Descriptor \<open>n\<close> of process \<open>i\<close>.\<close>

definition open_special :: "nat \<Rightarrow> nat \<Rightarrow> kern \<Rightarrow> kern option" where
  "open_special i n k = do {
     (j, fs) \<leftarrow> file_special n (files k);
     upd i (\<lambda>p. p\<lparr>p_files := (p_files p)[n := Some j]\<rparr>) (k\<lparr>files := fs\<rparr>) }"

text \<open>\<open>Inl\<close>: the error \<open>execve\<close> has returned; \<open>Inr\<close>: the state the first program starts in.\<close>

definition start_userspace :: "nat \<Rightarrow> bytes \<Rightarrow> kern \<Rightarrow> ((int \<times> kern) + kern) option" where
  "start_userspace fuel init_filename k = do {
     (c, k1) \<leftarrow> process_create fuel k;
     i \<leftarrow> c;
     k2 \<leftarrow> upd i (p_parent_update (\<lambda>_. Some i)) (k1\<lparr>current := i\<rparr>);
     p \<leftarrow> rd (procs k2) i;
     cwd \<leftarrow> strncpy (p_cwd p) [47, 0] MAX_PATH_LEN;
     k3 \<leftarrow> upd i (p_cwd_update (\<lambda>_. cwd)) k2;
     k4 \<leftarrow> open_special i 0 k3;
     k5 \<leftarrow> open_special i 1 k4;
     k6 \<leftarrow> open_special i 2 k5;
     (result, k7) \<leftarrow> execve fuel init_filename 0 k6;
     if result < 0 then Some (Inl (result, k7))
     else do { k8 \<leftarrow> upd i (p_status_update (\<lambda>_. Ready)) k7; Some (Inr k8) } }"

section \<open>What execve leaves alone\<close>

text \<open>Everything the process list, the wait queues and the descriptors rest on.\<close>

definition same_skeleton :: "kern \<Rightarrow> kern \<Rightarrow> bool" where
  "same_skeleton k k' \<longleftrightarrow> length (procs k') = length (procs k)
     \<and> (\<forall>i < length (procs k). p_next (procs k' ! i) = p_next (procs k ! i) \<and> p_prev (procs k' ! i) = p_prev (procs k ! i)
          \<and> p_valid (procs k' ! i) = p_valid (procs k ! i) \<and> p_pid (procs k' ! i) = p_pid (procs k ! i)
          \<and> p_files (procs k' ! i) = p_files (procs k ! i) \<and> p_parent (procs k' ! i) = p_parent (procs k ! i)
          \<and> p_status (procs k' ! i) = p_status (procs k ! i) \<and> p_wait_next (procs k' ! i) = p_wait_next (procs k ! i))
     \<and> proc_first k' = proc_first k \<and> avail_pid k' = avail_pid k \<and> current k' = current k
     \<and> wait_first k' = wait_first k \<and> tick_counter k' = tick_counter k"

abbreviation counts :: "kern \<Rightarrow> nat list" where
  "counts k \<equiv> map file_count (file_objects (files k))"

lemma same_skeleton_refl [simp]: "same_skeleton k k"
  by (simp add: same_skeleton_def)

lemma same_skeleton_trans: "same_skeleton k k' \<Longrightarrow> same_skeleton k' k'' \<Longrightarrow> same_skeleton k k''"
  by (simp add: same_skeleton_def)

lemma same_skeleton_memory [simp]: "same_skeleton k (k'\<lparr>memory := m\<rparr>) = same_skeleton k k'"
  by (simp add: same_skeleton_def)

lemma same_skeleton_memory' [simp]: "same_skeleton (k\<lparr>memory := m\<rparr>) k' = same_skeleton k k'"
  by (simp add: same_skeleton_def)

lemma upd_skeleton:
  assumes "\<And>p. p_next (f p) = p_next p" "\<And>p. p_prev (f p) = p_prev p" "\<And>p. p_valid (f p) = p_valid p" "\<And>p. p_pid (f p) = p_pid p"
    "\<And>p. p_files (f p) = p_files p" "\<And>p. p_parent (f p) = p_parent p" "\<And>p. p_status (f p) = p_status p"
    "\<And>p. p_wait_next (f p) = p_wait_next p"
  shows "yields (\<lambda>k'. same_skeleton k k' \<and> files k' = files k \<and> memory k' = memory k) (upd i f k)"
  unfolding upd_def by (intro yields_intros) (auto simp: same_skeleton_def rd_Some_iff nth_list_update assms)

lemma skeleton_system:
  assumes "system k idle T Wf" "same_skeleton k k'" "list_all2 (\<le>) (counts k) (counts k')"
  shows "system k' idle T Wf"
proof -
  note d = systemD[OF assms(1)] note qd = queuesD[OF d(5)]
  have f: "length (procs k') = length (procs k)" "proc_first k' = proc_first k" "avail_pid k' = avail_pid k" "current k' = current k"
    "wait_first k' = wait_first k" using assms(2) by (simp_all add: same_skeleton_def)
  have p: "p_next (procs k' ! i) = p_next (procs k ! i)" "p_prev (procs k' ! i) = p_prev (procs k ! i)"
    "p_valid (procs k' ! i) = p_valid (procs k ! i)" "p_pid (procs k' ! i) = p_pid (procs k ! i)"
    "p_files (procs k' ! i) = p_files (procs k ! i)" "p_status (procs k' ! i) = p_status (procs k ! i)"
    "p_wait_next (procs k' ! i) = p_wait_next (procs k ! i)" if "i < length (procs k)" for i
    using assms(2) that by (simp_all add: same_skeleton_def)
  have "proc_list k' (idle # T)" by (rule proc_list_fields[THEN iffD1, OF f(1-3) _ d(1)]) (use p in simp)
  moreover have "queues k' Wf" by (rule queuesI[OF d(5) f(1)]) (use f(5) p qd(2,4) in auto)
  moreover have "all_fds (procs k') = all_fds (procs k)" by (rule mset_all_fds_cong) (use f(1) p(3,5) in auto)
  have "sys_files k'" unfolding sys_files_def \<open>all_fds (procs k') = all_fds (procs k)\<close>
  proof
    show "\<forall>q \<in> set (procs k'). p_valid q \<longrightarrow> length (p_files q) = 8"
      using d(4) f(1) p(3,5) by (auto simp: sys_files_def all_set_conv_all_nth)
    show "refs_ok (all_fds (procs k)) (counts k')"
      using d(4) assms(3) by (auto simp: sys_files_def refs_ok_def list_all2_conv_all_nth intro: order_trans)
  qed
  ultimately show ?thesis using d(2,3,6,7) f(4) p(6) by (simp add: system_def ready_def)
qed

lemma skeleton_sys_ok:
  assumes "sys_ok fuel k" "same_skeleton k k'" "list_all2 (\<le>) (counts k) (counts k')"
  shows "sys_ok fuel k'"
proof -
  obtain idle T Wf where s: "system k idle T Wf" "ready k (current k)" "length (procs k) < fuel" using assms(1) by (auto simp: sys_ok_def)
  then show ?thesis using skeleton_system[OF s(1) assms(2,3)] systemD(6)[OF s(1)] assms(2)
    by (auto simp: sys_ok_def same_skeleton_def ready_def)
qed

lemma load_bflt_skeleton: "yields (\<lambda>(l, k'). same_skeleton k k' \<and> files k' = files k) (load_bflt fuel ops ino fs k)"
  unfolding load_bflt_def
  by (intro yields_bindI yields_intros yields_bind[OF upd_skeleton]) auto

lemma load_raw_skeleton: "yields (\<lambda>(l, k'). same_skeleton k k' \<and> files k' = files k) (load_raw fuel ops ino fs k)"
  unfolding load_raw_def Let_def by (intro yields_intros) auto

lemma exec_start_skeleton: "yields (\<lambda>(r, k'). same_skeleton k k' \<and> files k' = files k) (exec_start fuel filename argv l k)"
  unfolding exec_start_def
proof (intro yields_bindI yields_prod)
  fix name k1 argc loc m k2
  assume u: "upd (current k) (p_name_update (\<lambda>_. name)) k = Some k1"
    and u2: "upd (current k) (set_image l argc loc) (k1\<lparr>memory := m\<rparr>) = Some k2"
  have "same_skeleton k k1 \<and> files k1 = files k" using yieldsD[OF upd_skeleton u] by simp
  moreover have "same_skeleton k1 k2 \<and> files k2 = files k1" using yieldsD[OF upd_skeleton u2] by (simp add: set_image_def)
  ultimately show "yields (\<lambda>(r, k'). same_skeleton k k' \<and> files k' = files k) (Some (int argc, k2))"
    using same_skeleton_trans by auto
qed

lemma store_files_skeleton:
  assumes "k_fds fs = p_files (procs k ! current k)"
  shows "yields (\<lambda>k'. same_skeleton k k' \<and> files k' = fs) (store_files fs k)"
  unfolding store_files_def upd_def
  by (intro yields_intros) (auto simp: same_skeleton_def rd_Some_iff nth_list_update assms)

lemma exec_file_skeleton:
  assumes "k_fds fs = p_files (procs k ! current k)" "j < length cs" "map file_count (file_objects fs) = cs[j := cs ! j + 1]"
    and "files k = fs" "current k < length (procs k)"
  shows "yields (\<lambda>(r, k'). same_skeleton k k' \<and> list_all2 (\<le>) cs (counts k')) (exec_file fuel filename argv j fs k)"
  unfolding exec_file_def
proof (intro yields_bindI yields_prod, clarify)
  fix f :: file_object and ino :: inode and b l k1
  assume "(if b then load_bflt else load_raw) fuel (file_ops f) ino (k_fs fs) k = Some (l, k1)"
  then have k1: "same_skeleton k k1 \<and> files k1 = fs"
    using yieldsD[OF load_bflt_skeleton, of fuel "file_ops f" ino "k_fs fs" k "(l, k1)"]
      yieldsD[OF load_raw_skeleton, of fuel "file_ops f" ino "k_fs fs" k "(l, k1)"] assms(4) by (cases b) simp_all
  show "yields (\<lambda>(r, k'). same_skeleton k k' \<and> list_all2 (\<le>) cs (counts k'))
    (case l of None \<Rightarrow> Some (- ENOMEM, k1)
     | Some l \<Rightarrow> do { (_, fs1) \<leftarrow> file_object_free fuel j fs; k2 \<leftarrow> store_files fs1 k1; exec_start fuel filename argv l k2 })"
  proof (cases l)
    case None
    have "list_all2 (\<le>) cs (cs[j := cs ! j + 1])" by (auto simp: list_all2_conv_all_nth nth_list_update[OF assms(2)])
    then show ?thesis using k1 assms(3) None by simp
  next
    case (Some l')
    have store: "yields (\<lambda>(r, k'). same_skeleton k k' \<and> list_all2 (\<le>) cs (counts k'))
      (do { k2 \<leftarrow> store_files fs1 k1; exec_start fuel filename argv l' k2 })"
      if fs1: "k_fds fs1 = k_fds fs" "map file_count (file_objects fs1) = cs" for fs1
    proof (rule yields_bind[OF store_files_skeleton])
      show "k_fds fs1 = p_files (procs k1 ! current k1)" using fs1(1) assms(1,5) k1 by (simp add: same_skeleton_def)
      fix k2 assume k2: "same_skeleton k1 k2 \<and> files k2 = fs1"
      have skel: "same_skeleton k k2" using same_skeleton_trans[of k k1 k2] k1 k2 by blast
      show "yields (\<lambda>(r, k'). same_skeleton k k' \<and> list_all2 (\<le>) cs (counts k')) (exec_start fuel filename argv l' k2)"
        by (rule yields_mono[OF exec_start_skeleton])
          (use skel fs1(2) k2 same_skeleton_trans[of k k2] in \<open>auto simp: list_all2_refl\<close>)
    qed
    have "length (file_objects fs) = length cs" using assms(3) by (metis length_map length_list_update)
    then have "file_count (file_objects fs ! j) = map file_count (file_objects fs) ! j" using assms(2) by simp
    then have "(map file_count (file_objects fs))[j := file_count (file_objects fs ! j) - 1] = cs"
      unfolding assms(3) using assms(2) by simp
    then show ?thesis unfolding Some option.case
      by (intro yields_bind[OF file_object_free_eq]) (use store in auto)
  qed
qed

lemma execve_skeleton:
  assumes "current k < length (procs k)"
  shows "yields (\<lambda>(r, k'). same_skeleton k k' \<and> list_all2 (\<le>) (counts k) (counts k')) (execve fuel filename argv k)"
proof -
  let ?v = "(files k)\<lparr>k_fds := p_files (procs k ! current k), k_cwd := p_cwd (procs k ! current k)\<rparr>"
  have v: "file_view k = Some ?v" using assms by (simp add: file_view_def rd_def)
  show ?thesis
    unfolding execve_def v bind.bind_lunit
  proof (rule yields_bind[OF open_file_object_opened], clarify)
    fix r fs1 assume o: "opened ?v (r, fs1)"
    then have fds: "k_fds fs1 = p_files (procs k ! current k)" by (simp add: opened_def)
    show "yields (\<lambda>(r, k'). same_skeleton k k' \<and> list_all2 (\<le>) (counts k) (counts k')) (do {
       k1 \<leftarrow> store_files fs1 k;
       (case r of Inl e \<Rightarrow> Some (e, k1) | Inr j \<Rightarrow> exec_file fuel filename argv j fs1 k1) })"
    proof (rule yields_bind[OF store_files_skeleton[OF fds]])
      fix k1 assume k1: "same_skeleton k k1 \<and> files k1 = fs1"
      then have c: "current k1 < length (procs k1)" "p_files (procs k1 ! current k1) = p_files (procs k ! current k)"
        using assms by (simp_all add: same_skeleton_def)
      show "yields (\<lambda>(r, k'). same_skeleton k k' \<and> list_all2 (\<le>) (counts k) (counts k'))
       (case r of Inl e \<Rightarrow> Some (e, k1) | Inr j \<Rightarrow> exec_file fuel filename argv j fs1 k1)"
      proof (cases r)
        case (Inl e)
        then show ?thesis using o k1 by (simp add: opened_def list_all2_refl)
      next
        case (Inr j)
        then have "j < length (counts k)" "map file_count (file_objects fs1) = (counts k)[j := counts k ! j + 1]"
          using o by (simp_all add: opened_def)
        then have "yields (\<lambda>(r, k'). same_skeleton k1 k' \<and> list_all2 (\<le>) (counts k) (counts k')) (exec_file fuel filename argv j fs1 k1)"
          using fds c k1 by (intro exec_file_skeleton) simp_all
        then show ?thesis unfolding Inr sum.case
          by (rule yields_mono) (use k1 same_skeleton_trans in auto)
      qed
    qed
  qed
qed

lemma execve_system:
  assumes "system k idle T Wf" "execve fuel filename argv k = Some (r, k')"
  shows "system k' idle T Wf" "same_skeleton k k'"
  using yieldsD[OF execve_skeleton assms(2)] systemD(6)[OF assms(1)] skeleton_system[OF assms(1)] by auto

lemma execve_ok:
  assumes "sys_ok fuel k" "execve fuel' filename argv k = Some (r, k')"
  shows "sys_ok fuel k'"
proof -
  have "current k < length (procs k)" using assms(1) systemD(6) by (auto simp: sys_ok_def)
  then show ?thesis using yieldsD[OF execve_skeleton assms(2)] skeleton_sys_ok[OF assms(1)] by simp
qed

section \<open>Starting up\<close>

text \<open>The table of processes while it is set up: nobody waits.\<close>

definition boot_inv :: "kern \<Rightarrow> nat list \<Rightarrow> bool" where
  "boot_inv k L \<longleftrightarrow> proc_list k L \<and> wait_first k = (\<lambda>_. None) \<and> (\<forall>i < length (procs k). p_wait_next (procs k ! i) = None)"

lemma upd_result: "upd i f k = Some k' \<Longrightarrow> i < length (procs k) \<and> k' = k\<lparr>procs := (procs k)[i := f (procs k ! i)]\<rparr>"
  by (auto simp: upd_def rd_Some_iff split: bind_splits)

lemma boot_inv_change:
  assumes "boot_inv k L" "length (procs k') = length (procs k)" "proc_first k' = proc_first k" "avail_pid k' = avail_pid k"
    and "wait_first k' = wait_first k" "\<And>i. i < length (procs k) \<Longrightarrow> p_next (procs k' ! i) = p_next (procs k ! i)
      \<and> p_prev (procs k' ! i) = p_prev (procs k ! i) \<and> p_valid (procs k' ! i) = p_valid (procs k ! i)
      \<and> p_pid (procs k' ! i) = p_pid (procs k ! i) \<and> p_wait_next (procs k' ! i) = p_wait_next (procs k ! i)"
  shows "boot_inv k' L"
proof -
  have "proc_list k' L" using proc_list_fields[OF assms(2-4), of L] assms(1,6) by (simp add: boot_inv_def)
  then show ?thesis using assms(1,2,5,6) by (simp add: boot_inv_def)
qed

lemma boot_inv_create:
  assumes "boot_inv k L" "process_create fuel k = Some (Some i, k')" "length (procs k) < fuel"
  shows "boot_inv k' (L @ [i])" "i < length (procs k)" "\<not> p_valid (procs k ! i)" "length (procs k') = length (procs k)" "files k' = files k"
    "p_files (procs k' ! i) = replicate 8 None" "current k' = current k"
    "\<And>j. j < length (procs k) \<Longrightarrow> j \<noteq> i \<Longrightarrow> p_files (procs k' ! j) = p_files (procs k ! j) \<and> p_status (procs k' ! j) = p_status (procs k ! j)"
proof -
  have l: "length L < fuel" using length_list_bound[of k L] assms(1,3) by (simp add: boot_inv_def)
  have ix: "index_of (\<lambda>p. \<not> p_valid p) (procs k) = Some i" "avail_pid k < 2 ^ 31 - 1"
    using assms(2) by (auto simp: process_create_def Let_def split: option.splits bind_splits if_splits)
  then show i: "i < length (procs k)" "\<not> p_valid (procs k ! i)" by (simp_all add: index_of_Some_iff)
  obtain k'' where k'': "process_create fuel k = Some (Some i, k'')" "proc_list k'' (L @ [i])" "same_pcb (fresh_pcb k) (procs k'' ! i)"
    "same_procs {i} k k''" "k'' = k\<lparr>avail_pid := avail_pid k + 1, procs := procs k'', proc_first := proc_first k''\<rparr>"
    using process_create_refines_eq[OF _ ix(1) l ix(2)] assms(1) by (auto simp: boot_inv_def)
  have e: "k'' = k'" using k''(1) assms(2) by simp
  note c = k''(2-5)[unfolded e]
  show "length (procs k') = length (procs k)" using c(3) by (simp add: same_procs_def)
  show "files k' = files k" "current k' = current k" by (subst c(4), simp)+
  have w: "wait_first k' = wait_first k" by (subst c(4)) simp
  note f = same_pcb_fields[OF c(2)]
  show "p_files (procs k' ! i) = replicate 8 None" using f by (simp add: fresh_pcb_def pcb_zero_def)
  have o: "same_pcb (procs k ! j) (procs k' ! j)" if "j < length (procs k)" "j \<noteq> i" for j
    using c(3) that by (simp add: same_procs_def)
  show "p_files (procs k' ! j) = p_files (procs k ! j) \<and> p_status (procs k' ! j) = p_status (procs k ! j)" if "j < length (procs k)" "j \<noteq> i" for j
    using same_pcb_fields[OF o[OF that]] by simp
  have "p_wait_next (procs k' ! j) = None" if "j < length (procs k)" for j
  proof (cases "j = i")
    case True
    then show ?thesis using f by (simp add: fresh_pcb_def pcb_zero_def)
  next
    case False
    then show ?thesis using same_pcb_fields[OF o[OF that]] assms(1) that by (simp add: boot_inv_def)
  qed
  then show "boot_inv k' (L @ [i])" using c(1) w assms(1) \<open>length (procs k') = length (procs k)\<close> by (simp add: boot_inv_def)
qed

lemma create_idle_task_boot:
  assumes "boot_inv k []" "create_idle_task fuel a k = Some k1" "length (procs k) < fuel"
  shows "\<exists>i. boot_inv k1 [i] \<and> ready k1 i \<and> i < length (procs k1) \<and> p_files (procs k1 ! i) = replicate 8 None
    \<and> length (procs k1) = length (procs k)"
proof -
  obtain i kc k2 stk m name where s: "process_create fuel k = Some (Some i, kc)"
    "upd i (\<lambda>p. p\<lparr>p_text := a, p_textsize := 4, p_pc := of_nat a, p_running := True, p_user_time := 0,
              p_start_time := ticks_since_boot kc, p_last_scheduled := ticks_since_boot kc\<rparr>) kc = Some k2"
    "upd i (\<lambda>p. p\<lparr>p_stack := stk, p_stacksize := 4096, p_regs := (p_regs p)[13 := of_nat (stk + 4096)], p_spsr := 0x1f,
              p_name := name, p_status := Ready\<rparr>) (k2\<lparr>memory := m\<rparr>) = Some k1"
    using assms(2) by (auto simp: create_idle_task_def split: bind_splits)
  note c = boot_inv_create[OF assms(1) s(1) assms(3)]
  note u = upd_result[OF s(2)] upd_result[OF s(3)]
  have "boot_inv k1 [i]" by (rule boot_inv_change[of kc]) (use c u in \<open>auto simp: nth_list_update\<close>)
  then show ?thesis using c(2,4,6) u by (auto simp: ready_def)
qed

text \<open>The standard descriptors.\<close>

lemma open_special_boot:
  assumes "boot_inv k L" "open_special i n k = Some k'"
  shows "boot_inv k' L" "n < length (file_objects (files k))" "counts k' = (counts k)[n := 1]" "i < length (procs k)"
    "procs k' = (procs k)[i := (procs k ! i)\<lparr>p_files := (p_files (procs k ! i))[n := Some n]\<rparr>]" "current k' = current k"
proof -
  obtain j fs where s: "file_special n (files k) = Some (j, fs)" "upd i (\<lambda>p. p\<lparr>p_files := (p_files p)[n := Some j]\<rparr>) (k\<lparr>files := fs\<rparr>) = Some k'"
    using assms(2) by (auto simp: open_special_def split: bind_splits)
  have f: "j = n \<and> n < length (file_objects (files k)) \<and> map file_count (file_objects fs) = (counts k)[n := 1]"
    using s(1) by (auto simp: file_special_def file_set_def map_update rd_Some_iff Let_def split: prod.splits option.splits bind_splits)
  note u = upd_result[OF s(2)]
  show "n < length (file_objects (files k))" "counts k' = (counts k)[n := 1]" "i < length (procs k)" "current k' = current k"
    "procs k' = (procs k)[i := (procs k ! i)\<lparr>p_files := (p_files (procs k ! i))[n := Some n]\<rparr>]" using f u by simp_all
  show "boot_inv k' L" by (rule boot_inv_change[OF assms(1)]) (use u in \<open>auto simp: nth_list_update\<close>)
qed

lemma std_files_sys:
  assumes "proc_list k [i, j]" "i < length (procs k)" "j < length (procs k)" "p_files (procs k ! i) = replicate 8 None"
    and "p_files (procs k ! j) = [Some 0, Some 1, Some 2, None, None, None, None, None]"
    and "2 < length (counts k) \<and> counts k ! 0 = 1 \<and> counts k ! 1 = 1 \<and> counts k ! 2 = 1"
  shows "sys_files k"
  unfolding sys_files_def
proof
  have v: "p_valid (procs k ! n) \<longleftrightarrow> n = i \<or> n = j" if "n < length (procs k)" for n using proc_listD(4)[OF assms(1) that] by auto
  then show "\<forall>p \<in> set (procs k). p_valid p \<longrightarrow> length (p_files p) = 8" using assms(4,5) by (auto simp: all_set_conv_all_nth)
  have "set (other_fds j (procs k)) \<subseteq> {None}"
  proof
    fix x assume "x \<in> set (other_fds j (procs k))"
    then obtain p where p: "p \<in> set (take j (procs k)) \<or> p \<in> set (drop (Suc j) (procs k))" "p_valid p" "x \<in> set (p_files p)"
      by (auto simp: other_fds_def all_fds_def)
    from p(1) have "\<exists>n < length (procs k). n \<noteq> j \<and> p = procs k ! n"
    proof
      assume "p \<in> set (take j (procs k))"
      then obtain m where "m < j" "p = procs k ! m" by (auto simp: in_set_conv_nth)
      then show ?thesis using assms(3) by (intro exI[of _ m]) simp
    next
      assume "p \<in> set (drop (Suc j) (procs k))"
      then obtain m where "m < length (procs k) - Suc j" "p = procs k ! (Suc j + m)" by (auto simp: in_set_conv_nth)
      then show ?thesis by (intro exI[of _ "Suc j + m"]) simp
    qed
    then obtain n where n: "n < length (procs k)" "n \<noteq> j" "p_valid (procs k ! n)" "x \<in> set (p_files (procs k ! n))"
      using p(2,3) by blast
    then have "n = i" using v by blast
    then show "x \<in> {None}" using n(4) assms(4) by simp
  qed
  then have "count_list (other_fds j (procs k)) (Some m) = 0" "Some m \<notin> set (other_fds j (procs k))" for m
    by (auto simp: count_list_0_iff)
  then have "refs_ok (p_files (procs k ! j) @ other_fds j (procs k)) (counts k)"
    unfolding assms(5) refs_ok_def using assms(6) by (auto simp: nth_list_update less_Suc_eq)
  then show "refs_ok (all_fds (procs k)) (counts k)"
    using refs_ok_mset[OF all_fds_split[OF assms(3)]] v[OF assms(3)] by simp
qed

section \<open>What a program finds\<close>

text \<open>Bytes the allocation may not touch.\<close>

definition in_use :: "mem_state \<Rightarrow> nat \<Rightarrow> bool" where
  "in_use m x \<longleftrightarrow> x div 4096 \<in> used_chunks m"

text \<open>Fresh memory: \<open>n\<close> bytes from \<open>p\<close> on, in whole chunks of which none was in use.\<close>

definition fresh :: "mem_state \<Rightarrow> nat \<Rightarrow> nat \<Rightarrow> bool" where
  "fresh m p n \<longleftrightarrow> 4096 \<le> p \<and> p + n \<le> 2 ^ 30 \<and> (\<forall>x. p \<le> x \<and> x < p + n \<longrightarrow> \<not> in_use m x)"

lemma allocate_fresh:
  fixes n :: u32
  assumes "mem_wf m" "memory_allocate (unat n) MEMORY_USER m = Some (p, m')"
  shows "fresh m p (unat n)" "mem_wf m'" "\<And>x. p \<le> x \<Longrightarrow> x < p + unat n \<Longrightarrow> in_use m' x \<and> ram m' x = 0"
    "\<And>x. in_use m x \<Longrightarrow> in_use m' x \<and> ram m' x = ram m x"
proof -
  have "max_chunk m \<le> 262144" using assms(1) by (simp add: mem_wf_def)
  moreover obtain start "end" c where "alloc_area MEMORY_USER m = Some (start, end)" "p = 4096 * c"
    "free_run m (alloc_size (unat n)) start end c" "allocated m c (alloc_size (unat n)) m'"
    using memory_allocate_result[OF assms(1) _ assms(2)] by auto
  ultimately have c: "p = 4096 * c" "4096 \<le> c" "c + alloc_size (unat n) < 262144"
    "{c..<c + alloc_size (unat n)} \<inter> used_chunks m = {}" "allocated m c (alloc_size (unat n)) m'"
    by (simp_all add: alloc_area_def free_run_def)
  have len: "unat n \<le> 4096 * alloc_size (unat n)"
    using num_chunks_covers[of "unat n"] unat32_lt[of n] by (cases "unat n = 0") (simp_all add: alloc_size_def)
  have dv: "c \<le> x div 4096 \<and> x div 4096 < c + alloc_size (unat n)" if "p \<le> x" "x < p + unat n" for x
  proof
    show "c \<le> x div 4096" using that(1) c(1) by (simp add: less_eq_div_iff_mult_less_eq mult.commute)
    have "x < (c + alloc_size (unat n)) * 4096" using that(2) c(1) len by (simp add: algebra_simps)
    then show "x div 4096 < c + alloc_size (unat n)" by (rule less_mult_imp_div_less)
  qed
  have a: "mem_wf m'" "used_chunks m' = used_chunks m \<union> {c..<c + alloc_size (unat n)}"
    "ram m' = (\<lambda>a. if 4096 * c \<le> a \<and> a < 4096 * (c + alloc_size (unat n)) then 0 else ram m a)"
    using c(5) by (simp_all add: allocated_def)
  show "fresh m p (unat n)"
    using dv c len by (fastforce simp: fresh_def in_use_def)
  show "mem_wf m'" by (rule a(1))
  show "in_use m' x \<and> ram m' x = 0" if "p \<le> x" "x < p + unat n" for x
    using dv[OF that] that c(1) len unfolding in_use_def a(2,3) by simp
  show "in_use m' x \<and> ram m' x = ram m x" if "in_use m x" for x
  proof -
    have "\<not> (c \<le> x div 4096 \<and> x div 4096 < c + alloc_size (unat n))" using that c(4) by (auto simp: in_use_def)
    then have "\<not> (4096 * c \<le> x \<and> x < 4096 * (c + alloc_size (unat n)))"
      by (auto simp: less_eq_div_iff_mult_less_eq mult.commute div_less_iff_less_mult)
    then show ?thesis using that unfolding in_use_def a(2,3) by auto
  qed
qed

text \<open>The two blocks of a program.\<close>

definition blocks :: "mem_state \<Rightarrow> nat \<Rightarrow> nat \<Rightarrow> nat \<Rightarrow> nat \<Rightarrow> bool" where
  "blocks m stk sn bin bn \<longleftrightarrow> fresh m stk sn \<and> fresh m bin bn
     \<and> (\<forall>x. \<not> (stk \<le> x \<and> x < stk + sn \<and> bin \<le> x \<and> x < bin + bn))"

lemma alloc_program_result:
  assumes "mem_wf m" "alloc_program sn bn m = Some (r, m')"
  shows "\<exists>stk bin. r = Some (stk, bin) \<and> blocks m stk (unat sn) bin (unat bn) \<and> mem_wf m'
    \<and> (\<forall>x. (stk \<le> x \<and> x < stk + unat sn) \<or> (bin \<le> x \<and> x < bin + unat bn) \<longrightarrow> ram m' x = 0)
    \<and> (\<forall>x. in_use m x \<longrightarrow> ram m' x = ram m x)"
proof -
  obtain stk m1 bin m2 where a: "memory_allocate (unat sn) MEMORY_USER m = Some (stk, m1)"
    "memory_allocate (unat bn) MEMORY_USER m1 = Some (bin, m2)"
    using assms(2) by (auto simp: alloc_program_def split: bind_splits)
  note s = allocate_fresh[OF assms(1) a(1)]
  note b = allocate_fresh[OF s(2) a(2)]
  have "bin \<noteq> 0 \<and> stk \<noteq> 0" using s(1) b(1) by (auto simp: fresh_def)
  then have e: "r = Some (stk, bin)" "m' = m2" using assms(2) a by (simp_all add: alloc_program_def)
  have "fresh m bin (unat bn)" using b(1) s(4) by (auto simp: fresh_def)
  moreover have "\<not> (stk \<le> x \<and> x < stk + unat sn \<and> bin \<le> x \<and> x < bin + unat bn)" for x
    using b(1) s(3) by (auto simp: fresh_def)
  ultimately have bl: "blocks m stk (unat sn) bin (unat bn)" using s(1) unfolding blocks_def by blast
  have z: "ram m2 x = 0" if "(stk \<le> x \<and> x < stk + unat sn) \<or> (bin \<le> x \<and> x < bin + unat bn)" for x
    using that b(3)[of x] s(3)[of x] b(4)[of x] by metis
  have k: "ram m2 x = ram m x" if "in_use m x" for x using b(4)[of x] s(4)[OF that] by simp
  show ?thesis unfolding e using bl b(2) z k by blast
qed

text \<open>A well-formed executable: text, data and the table of relocations lie in the file, in order, and the relocations in the program.\<close>

definition bflt_osize :: "bytes \<Rightarrow> u32" where
  "bflt_osize c = rom_word c BFLT_BSS_START - rom_word c BFLT_ENTRY"

definition bflt_psize :: "bytes \<Rightarrow> u32" where
  "bflt_psize c = rom_word c BFLT_BSS_END - rom_word c BFLT_ENTRY"

definition bflt_rs :: "bytes \<Rightarrow> nat" where
  "bflt_rs c = unat (rom_word c BFLT_RELOC_START)"

definition bflt_cnt :: "bytes \<Rightarrow> nat" where
  "bflt_cnt c = unat (rom_word c BFLT_RELOC_COUNT)"

definition reloc_off :: "bytes \<Rightarrow> nat \<Rightarrow> nat" where
  "reloc_off c j = unat (rom_word c (bflt_rs c + 4 * j))"

definition bflt_file :: "bytes \<Rightarrow> bool" where
  "bflt_file c \<longleftrightarrow> 64 \<le> length c \<and> length c < 2 ^ 31 \<and> take 4 c = [0x62, 0x46, 0x4c, 0x54]
     \<and> rom_word c BFLT_ENTRY \<le> rom_word c BFLT_BSS_START \<and> rom_word c BFLT_BSS_START \<le> rom_word c BFLT_BSS_END
     \<and> unat (rom_word c BFLT_BSS_START) \<le> length c \<and> bflt_rs c + 4 * bflt_cnt c \<le> length c
     \<and> (\<forall>j < bflt_cnt c. reloc_off c j + 4 \<le> unat (bflt_psize c))
     \<and> (\<forall>i < bflt_cnt c. \<forall>j < i. reloc_off c i + 4 \<le> reloc_off c j \<or> reloc_off c j + 4 \<le> reloc_off c i)"

text \<open>Byte \<open>x\<close> of the program: text and data from the file, then zeros.\<close>

definition image_byte :: "bytes \<Rightarrow> nat \<Rightarrow> byte" where
  "image_byte c x = (if x < unat (bflt_osize c) then c ! (unat (rom_word c BFLT_ENTRY) + x) else 0)"

definition image_at :: "bytes \<Rightarrow> nat \<Rightarrow> mem_state \<Rightarrow> bool" where
  "image_at c base m \<longleftrightarrow>
     (\<forall>x < unat (bflt_psize c). (\<forall>j < bflt_cnt c. \<not> (reloc_off c j \<le> x \<and> x < reloc_off c j + 4)) \<longrightarrow> ram m (base + x) = image_byte c x)
     \<and> (\<forall>j < bflt_cnt c. ram_word (base + reloc_off c j) m
          = Some (le32 (map (\<lambda>i. image_byte c (reloc_off c j + i)) [0..<4]) + of_nat base))"

definition program_at :: "bytes \<Rightarrow> loaded \<Rightarrow> mem_state \<Rightarrow> mem_state \<Rightarrow> bool" where
  "program_at c l m m' \<longleftrightarrow> l_stack_size l = rom_word c BFLT_STACK_SIZE \<and> l_program_size l = bflt_psize c
     \<and> blocks m (l_stack l) (unat (l_stack_size l)) (l_binary l) (unat (l_program_size l))
     \<and> image_at c (l_binary l) m'
     \<and> (\<forall>x < unat (l_stack_size l). ram m' (l_stack l + x) = 0)
     \<and> (\<forall>x. in_use m x \<longrightarrow> ram m' x = ram m x)"

lemma unat_osize: "bflt_file c \<Longrightarrow> unat (bflt_osize c) = unat (rom_word c BFLT_BSS_START) - unat (rom_word c BFLT_ENTRY)"
  unfolding bflt_osize_def by (rule unat_sub) (simp add: bflt_file_def)

lemma osize_psize: "bflt_file c \<Longrightarrow> unat (bflt_osize c) \<le> unat (bflt_psize c)"
proof -
  assume b: "bflt_file c"
  then have "rom_word c BFLT_ENTRY \<le> rom_word c BFLT_BSS_END" by (auto simp: bflt_file_def)
  then have "unat (bflt_psize c) = unat (rom_word c BFLT_BSS_END) - unat (rom_word c BFLT_ENTRY)"
    unfolding bflt_psize_def by (rule unat_sub)
  then show ?thesis using b unat_osize[OF b] by (auto simp: bflt_file_def word_le_nat_alt)
qed

lemma bflt_file_relocs:
  assumes "bflt_file c" "base + unat (bflt_psize c) \<le> 2 ^ 30"
  shows "relocs_ok c (bflt_rs c) base (bflt_cnt c)"
proof -
  have e: "reloc_at c (bflt_rs c) base j = base + reloc_off c j" for j by (simp add: reloc_at_def reloc_off_def)
  have "base + reloc_off c j + 4 \<le> 2 ^ 32" if "j < bflt_cnt c" for j
  proof -
    have "reloc_off c j + 4 \<le> unat (bflt_psize c)" using assms(1) that by (simp add: bflt_file_def)
    then show ?thesis using assms(2) by simp
  qed
  moreover have "base + reloc_off c i + 4 \<le> base + reloc_off c j \<or> base + reloc_off c j + 4 \<le> base + reloc_off c i"
    if "i < bflt_cnt c" "j < i" for i j
    using assms(1) that by (auto simp: bflt_file_def)
  ultimately show ?thesis unfolding relocs_ok_def e by blast
qed

lemma bflt_load_header:
  assumes "file_holds fuel ops ino fs c" "bflt_file c"
  shows "bflt_load fuel ops ino fs = Some (Inr \<lparr>stack_size = rom_word c BFLT_STACK_SIZE, text_start = rom_word c BFLT_ENTRY,
     data_start = rom_word c BFLT_DATA_START, bss_start = rom_word c BFLT_BSS_START, bss_end = rom_word c BFLT_BSS_END,
     total_ondisk_size = bflt_osize c, total_program_size = bflt_psize c\<rparr>)"
proof -
  have l: "64 \<le> length c" using assms(2) by (simp add: bflt_file_def)
  obtain p where "file_read fuel ops ino 64 0 fs = Some (64, take 64 c, p)"
    using file_read_at[OF assms(1), of 0 64] l by auto
  then show ?thesis using bflt_word_header[OF _ l] by (simp add: bflt_load_def bflt_osize_def bflt_psize_def)
qed

text \<open>The text and data in memory, before relocation.\<close>

lemma raw_image:
  assumes "file_holds fuel ops ino fs c" "bflt_file c" "base + unat (bflt_psize c) \<le> 2 ^ 30"
    and "\<forall>x. base \<le> x \<and> x < base + unat (bflt_psize c) \<longrightarrow> ram m x = 0"
  shows "\<exists>r image p m1. file_read fuel ops ino (bflt_osize c) (ucast (rom_word c BFLT_ENTRY)) fs = Some (r, image, p)
    \<and> ram_put base image m = Some m1 \<and> (\<forall>x < unat (bflt_psize c). ram m1 (base + x) = image_byte c x)
    \<and> (\<forall>x. \<not> (base \<le> x \<and> x < base + unat (bflt_psize c)) \<longrightarrow> ram m1 x = ram m x) \<and> m1 = m\<lparr>ram := ram m1\<rparr>"
proof -
  let ?o = "unat (bflt_osize c)" and ?t = "unat (rom_word c BFLT_ENTRY)"
  have o: "?o = unat (rom_word c BFLT_BSS_START) - ?t" "?o \<le> unat (bflt_psize c)" using unat_osize osize_psize assms(2) by auto
  have l: "?t \<le> length c" "?t + ?o \<le> length c" "?o < 2 ^ 31"
    using assms(2) o(1) by (auto simp: bflt_file_def word_le_nat_alt)
  have len: "length (take ?o (drop ?t c)) = ?o" using l by simp
  obtain p where "file_read fuel ops ino (of_nat ?o) (of_nat ?t) fs = Some (int (length (take ?o (drop ?t c))), take ?o (drop ?t c), p)"
    using file_read_at[OF assms(1) l(1,3)] by blast
  then have r: "file_read fuel ops ino (bflt_osize c) (ucast (rom_word c BFLT_ENTRY)) fs = Some (int ?o, take ?o (drop ?t c), p)"
    by (simp only: of_nat_unat ucast_id len)
  obtain m1 where m1: "ram_put base (take ?o (drop ?t c)) m = Some m1" "m1 = m\<lparr>ram := ram m1\<rparr>"
    "\<And>x. ram m1 x = (if base \<le> x \<and> x < base + ?o then take ?o (drop ?t c) ! (x - base) else ram m x)"
    using ram_put_eq[of base "take ?o (drop ?t c)" m] len assms(3) o(2) by auto
  have img: "\<forall>x < unat (bflt_psize c). ram m1 (base + x) = image_byte c x"
    using m1(3)[of "base + x" for x] assms(4) l(2) by (auto simp: image_byte_def)
  have out: "\<forall>x. \<not> (base \<le> x \<and> x < base + unat (bflt_psize c)) \<longrightarrow> ram m1 x = ram m x"
    using m1(3) o(2) by auto
  show ?thesis by (intro exI conjI, rule r, rule m1(1), rule img, rule out, rule m1(2))
qed

lemma load_bflt_program:
  assumes "file_holds fuel ops ino fs c" "bflt_file c" "bflt_cnt c < fuel" "current k < length (procs k)" "mem_wf (memory k)"
    and "alloc_program (rom_word c BFLT_STACK_SIZE) (bflt_psize c) (memory k) \<noteq> None"
  shows "\<exists>l k1. load_bflt fuel ops ino fs k = Some (Some l, k1) \<and> program_at c l (memory k) (memory k1)
    \<and> p_name (procs k1 ! current k) = p_name (procs k ! current k) \<and> p_regs (procs k1 ! current k) = p_regs (procs k ! current k)"
proof -
  let ?sn = "rom_word c BFLT_STACK_SIZE" and ?bn = "bflt_psize c"
  obtain k0 where k0: "upd (current k) (\<lambda>p. p\<lparr>p_datasize := unat (rom_word c BFLT_BSS_START - rom_word c BFLT_DATA_START),
      p_bsssize := unat (rom_word c BFLT_BSS_END - rom_word c BFLT_BSS_START)\<rparr>) k = Some k0" "memory k0 = memory k"
    "p_name (procs k0 ! current k) = p_name (procs k ! current k)" "p_regs (procs k0 ! current k) = p_regs (procs k ! current k)"
    using assms(4) by (simp add: upd_def rd_def)
  obtain stk bin m where m: "alloc_program ?sn ?bn (memory k) = Some (Some (stk, bin), m)"
    "blocks (memory k) stk (unat ?sn) bin (unat ?bn)"
    "\<And>x. (stk \<le> x \<and> x < stk + unat ?sn) \<or> (bin \<le> x \<and> x < bin + unat ?bn) \<Longrightarrow> ram m x = 0"
    "\<And>x. in_use (memory k) x \<Longrightarrow> ram m x = ram (memory k) x"
    using assms(6) alloc_program_result[OF assms(5)] by fastforce
  have b: "bin + unat ?bn \<le> 2 ^ 30" using m(2) by (simp add: blocks_def fresh_def)
  obtain r image p m1 where m1: "file_read fuel ops ino (bflt_osize c) (ucast (rom_word c BFLT_ENTRY)) fs = Some (r, image, p)"
    "ram_put bin image m = Some m1" "\<forall>x < unat ?bn. ram m1 (bin + x) = image_byte c x"
    "\<forall>x. \<not> (bin \<le> x \<and> x < bin + unat ?bn) \<longrightarrow> ram m1 x = ram m x"
    using raw_image[OF assms(1,2) b, of m] m(3) by blast
  have h: "64 \<le> length c" "length c < 2 ^ 32" "bflt_rs c + 4 * bflt_cnt c \<le> length c"
    using assms(2) by (simp_all add: bflt_file_def)
  obtain m2 where m2: "bflt_reloc fuel ops ino fs (of_nat bin) m1 = Some (0, m2)" "relocated c (bflt_rs c) bin (bflt_cnt c) m1 m2"
    using bflt_reloc_eq[OF assms(1) h(1,2) bflt_cnt_def bflt_rs_def h(3) bflt_file_relocs[OF assms(2) b] assms(3)] by blast
  have at: "reloc_at c (bflt_rs c) bin j = bin + reloc_off c j" for j by (simp add: reloc_at_def reloc_off_def)
  have in_program: "reloc_off c j + 4 \<le> unat ?bn" if "j < bflt_cnt c" for j using assms(2) that by (simp add: bflt_file_def)
  have other: "ram m2 x = ram m1 x" if "\<forall>j < bflt_cnt c. \<not> (bin + reloc_off c j \<le> x \<and> x < bin + reloc_off c j + 4)" for x
    using m2(2) that by (simp add: relocated_def at)
  have outside: "ram m2 x = ram m x" if "\<not> (bin \<le> x \<and> x < bin + unat ?bn)" for x
  proof -
    have "ram m2 x = ram m1 x" by (rule other) (use that in_program in fastforce)
    then show ?thesis using m1(4) that by simp
  qed
  have image: "image_at c bin m2"
    unfolding image_at_def
  proof (intro conjI allI impI)
    fix x assume x: "x < unat ?bn" "\<forall>j < bflt_cnt c. \<not> (reloc_off c j \<le> x \<and> x < reloc_off c j + 4)"
    have "ram m2 (bin + x) = ram m1 (bin + x)" by (rule other) (use x(2) in auto)
    then show "ram m2 (bin + x) = image_byte c x" using m1(3) x(1) by simp
  next
    fix j assume j: "j < bflt_cnt c"
    obtain w where w: "ram_word (bin + reloc_off c j) m1 = Some w" "ram_word (bin + reloc_off c j) m2 = Some (w + of_nat bin)"
      using m2(2) j by (auto simp: relocated_def at)
    from w(1) have "w = le32 (map (\<lambda>i. ram m1 (bin + reloc_off c j + i)) [0..<4])"
      by (auto simp: ram_word_def ram_get_def split: if_splits)
    also have "map (\<lambda>i. ram m1 (bin + reloc_off c j + i)) [0..<4] = map (\<lambda>i. image_byte c (reloc_off c j + i)) [0..<4]"
      by (rule map_cong) (use m1(3) in_program[OF j] in \<open>auto simp: add.assoc\<close>)
    finally show "ram_word (bin + reloc_off c j) m2 = Some (le32 (map (\<lambda>i. image_byte c (reloc_off c j + i)) [0..<4]) + of_nat bin)"
      using w(2) by (simp only:)
  qed
  have stack: "ram m2 (stk + x) = 0" if "x < unat ?sn" for x
  proof -
    have "\<not> (bin \<le> stk + x \<and> stk + x < bin + unat ?bn)" using m(2) that unfolding blocks_def by (metis le_add1 nat_add_left_cancel_less)
    then show ?thesis using outside m(3)[of "stk + x"] that by simp
  qed
  have kept: "ram m2 x = ram (memory k) x" if "in_use (memory k) x" for x
  proof -
    have "\<not> (bin \<le> x \<and> x < bin + unat ?bn)" using m(2) that by (auto simp: blocks_def fresh_def)
    then show ?thesis using outside m(4)[OF that] by simp
  qed
  let ?l = "\<lparr>l_stack = stk, l_stack_size = ?sn, l_binary = bin, l_program_size = ?bn\<rparr>"
  have "load_bflt fuel ops ino fs k = Some (Some ?l, k0\<lparr>memory := m2\<rparr>)"
    using k0 m(1) m1(1,2) m2(1) by (simp add: load_bflt_def bflt_load_header[OF assms(1,2)])
  moreover have "program_at c ?l (memory k) m2" using m(2) image stack kept by (simp add: program_at_def)
  ultimately show ?thesis using k0(3,4) by auto
qed

text \<open>The last part of the call.\<close>

lemma exec_start_result:
  assumes "current k < length (procs k)" "length (p_name (procs k ! current k)) = 32" "length (p_regs (procs k ! current k)) = 15"
    and "exec_args fuel argv (l_stack l + unat (l_stack_size l)) (memory k) = Some (argc, loc, m)"
  shows "\<exists>k'. exec_start fuel filename argv l k = Some (int argc, k') \<and> memory k' = m
    \<and> p_pc (procs k' ! current k) = of_nat (l_binary l) \<and> p_regs (procs k' ! current k) ! 0 = of_nat argc
    \<and> p_regs (procs k' ! current k) ! 1 = of_nat loc \<and> p_regs (procs k' ! current k) ! 13 = of_nat loc
    \<and> take 31 (cstr filename) = cstr (p_name (procs k' ! current k))"
proof -
  let ?p = "procs k ! current k"
  have len: "length (strlcpy_out filename 31) \<le> 32" by (simp add: strlcpy_out_eq)
  obtain n where n: "strlcpy (p_name ?p) filename 32 = Some (n, strlcpy_out filename 31 @ drop (length (strlcpy_out filename 31)) (p_name ?p))"
    using len assms(2) by (simp add: strlcpy_def splice_eq Let_def)
  have "0 \<notin> set (take 31 (cstr filename))" using cstr_no_nul in_set_takeD by metis
  then have name: "cstr (strlcpy_out filename 31 @ xs) = take 31 (cstr filename)" for xs
    by (simp add: strlcpy_out_eq cstr_append_nul)
  show ?thesis
    using assms n name by (simp add: exec_start_def upd_def rd_def set_image_def)
qed

text \<open>The whole of the call, for a file that is opened and holds an executable.\<close>

lemma execve_result:
  assumes "file_view k = Some fs" "open_file_object fuel filename O_RDONLY fs = Some (Inr j, fs1)"
    and "file_get j fs1 = Some (f, i, ino)" "file_object_free fuel j fs1 = Some (r, fs2)"
    and "file_holds fuel (file_ops f) ino (k_fs fs1) c" "bflt_file c" "bflt_cnt c < fuel" "mem_wf (memory k)"
    and "alloc_program (rom_word c BFLT_STACK_SIZE) (bflt_psize c) (memory k) \<noteq> None"
    and "current k < length (procs k)" "length (p_name (procs k ! current k)) = 32" "length (p_regs (procs k ! current k)) = 15"
  shows "\<exists>l m1. program_at c l (memory k) m1 \<and> (\<forall>argc loc m'.
      exec_args fuel argv (l_stack l + unat (l_stack_size l)) m1 = Some (argc, loc, m') \<longrightarrow>
      (\<exists>k'. execve fuel filename argv k = Some (int argc, k') \<and> memory k' = m'
        \<and> p_pc (procs k' ! current k) = of_nat (l_binary l) \<and> p_regs (procs k' ! current k) ! 0 = of_nat argc
        \<and> p_regs (procs k' ! current k) ! 1 = of_nat loc \<and> p_regs (procs k' ! current k) ! 13 = of_nat loc
        \<and> cstr (p_name (procs k' ! current k)) = take 31 (cstr filename)))"
proof -
  obtain k1 where k1: "store_files fs1 k = Some k1" "memory k1 = memory k" "procs k1 = (procs k)[current k := (procs k ! current k)
      \<lparr>p_files := k_fds fs1, p_cwd := k_cwd fs1\<rparr>]" "current k1 = current k"
    using assms(10) by (simp add: store_files_def upd_def rd_def)
  have c: "64 \<le> length c" "take 4 c = [0x62, 0x46, 0x4c, 0x54]" using assms(6) by (simp_all add: bflt_file_def)
  obtain p where magic: "file_read fuel (file_ops f) ino 16 0 (k_fs fs1) = Some (16, take 16 c, p)"
    using file_read_at[OF assms(5), of 0 16] c(1) by auto
  have "c ! i = [0x62, 0x46, 0x4c, 0x54] ! i" if "i < 4" for i using nth_take[OF that, of c] c(2) by simp
  from this[of 0] this[of 1] this[of 2] this[of 3] have b: "is_bflt (take 16 c) = Some True"
    using c(1) by (simp add: is_bflt_def rd_def)
  obtain l k2 where l: "load_bflt fuel (file_ops f) ino (k_fs fs1) k1 = Some (Some l, k2)" "program_at c l (memory k1) (memory k2)"
    "length (p_name (procs k2 ! current k)) = 32" "length (p_regs (procs k2 ! current k)) = 15"
    using load_bflt_program[OF assms(5-7), of k1] assms(8-12) k1 by auto
  have "same_skeleton k1 k2 \<and> files k2 = files k1" using yieldsD[OF load_bflt_skeleton l(1)] by simp
  then have k2: "current k2 = current k" "current k < length (procs k2)" using assms(10) k1(3,4) by (simp_all add: same_skeleton_def)
  obtain k3 where k3: "store_files fs2 k2 = Some k3" "memory k3 = memory k2" "current k3 = current k" "current k < length (procs k3)"
    "length (p_name (procs k3 ! current k)) = 32" "length (p_regs (procs k3 ! current k)) = 15"
    using k2 l(3,4) by (simp add: store_files_def upd_def rd_def)
  have e: "execve fuel filename argv k = exec_start fuel filename argv l k3"
    using assms(1-4) k1(1) magic b l(1) k3(1) by (simp add: execve_def exec_file_def)
  show ?thesis
    using exec_start_result[of k3 fuel argv l _ _ _ filename] l(2) k1(2) k3 e
    by (intro exI[of _ l] exI[of _ "memory k2"] conjI allI impI) fastforce+
qed

section \<open>An instance\<close>

text \<open>A volume whose root is the executable, which \<open>/\<close> opens.\<close>

definition exec_mounted :: fs_state where
  "exec_mounted = (rom_fs demo_bin)\<lparr>superblock_table :=
     [superblock_zero\<lparr>sb_valid := True, sb_mountpoint := [47, 0], sb_block := Some 0, sb_ops := Romfs_Sb_Ops\<rparr>]\<rparr>"

lemma exec_mounted_ok: "rom_ok 0 exec_mounted demo_bin"
  by (simp add: rom_ok_def exec_mounted_def rom_fs_def sb_get_def block_dev_zero_def demo_bin_words)

definition exec_inode :: "inode \<Rightarrow> inode" where
  "exec_inode ino = ino\<lparr>i_number := 0, i_sb := Some 0, i_mode := 0x81b6, i_size := 76, i_atime := 256246800,
     i_mtime := 256246800, i_ctime := 256246800, i_uid := 0, i_gid := 0, i_rdev := 0, i_hard_links := 1\<rparr>"

lemma exec_root_lookup:
  "sb_lookup_inode 16 (ino\<lparr>i_number := 0, i_sb := Some 0\<rparr>) [] exec_mounted = Some (0, exec_inode ino)"
proof -
  have w: "romfs_word 0 0 exec_mounted = Some 2" "romfs_word 0 4 exec_mounted = Some 0" "romfs_word 0 8 exec_mounted = Some 76"
    using rom_word_eq[OF exec_mounted_ok, of 0] rom_word_eq[OF exec_mounted_ok, of 4] rom_word_eq[OF exec_mounted_ok, of 8]
    by (simp_all add: demo_bin_words)
  have o: "inode_ops (ino\<lparr>i_number := 0, i_sb := Some 0\<rparr>) exec_mounted = Some Romfs_Sb_Ops"
    by (simp add: inode_ops_def sb_get_def exec_mounted_def)
  show ?thesis
    by (simp add: sb_lookup_inode_def o romfs_lookup_inode_def str_at_def romfs_read_inode_def read_inode_step_def w
        romfs_type_def exec_inode_def)
qed

definition exec_vfs :: "inode list \<Rightarrow> vfs" where
  "exec_vfs inos = \<lparr>v_fs = exec_mounted, v_inodes = inos\<rparr>"

lemma exec_lookup:
  assumes "index_of (\<lambda>ino. i_count ino = 0) inos = Some t" "\<And>ino. ino \<in> set inos \<Longrightarrow> i_sb ino = None"
  shows "inode_lookup_and_alloc 16 cwd [47] (exec_vfs inos)
    = Some (Inr (t, 0), exec_vfs (inos[t := exec_inode ((inos ! t)\<lparr>i_count := 1\<rparr>)]))"
proof -
  let ?i = "exec_inode ((inos ! t)\<lparr>i_count := 1\<rparr>)"
  obtain sb where sb: "sb_get 0 exec_mounted = Some sb" "sb_root_dir sb = 0" "sb_mountpoint sb = [47, 0]"
    by (simp add: sb_get_def exec_mounted_def superblock_zero_def)
  have "index_of is_root (superblock_table exec_mounted) = Some 0"
    by (simp add: exec_mounted_def is_root_iff cstr_Cons superblock_zero_def)
  then have l: "superblock_lookup full exec_mounted = Some 0" for full
    by (rule superblock_lookup_root) (auto simp: exec_mounted_def on_mount_iff superblock_zero_def less_Suc_eq)
  have "skip_mountpoint [47] (sb_mountpoint sb) = Some []"
    by (simp add: sb skip_mountpoint_def strlen_cstr cstr_Cons)
  moreover have "sb_lookup_inode 16 ((inos ! t)\<lparr>i_count := 1, i_number := sb_root_dir sb, i_sb := Some 0\<rparr>) [] exec_mounted = Some (0, ?i)"
    using exec_root_lookup[of "(inos ! t)\<lparr>i_count := 1\<rparr>"] by (simp add: sb)
  ultimately have "inode_lookup_and_alloc 16 cwd [47] (exec_vfs inos) = lookup_share 16 t ?i 0 (exec_vfs (inos[t := ?i]))"
    using inode_lookup_stages[of "exec_vfs inos" t cwd "[47]" "[47]" 0 sb "[]" 16] assms(1) demo_root_path l sb(1)
    by (simp add: exec_vfs_def ino_set_def)
  moreover have t: "t < length inos" "i_count (inos ! t) = 0" using assms(1) by (simp_all add: index_of_Some_iff)
  have "i_sb (inos ! j) = None" if "j < length inos" for j using assms(2) nth_mem[OF that] by blast
  then have "inode_find_existing (Some 0) 0 (exec_vfs (inos[t := ?i])) = Some t"
    using t by (auto simp: inode_find_existing_def index_of_Some_iff exec_vfs_def exec_inode_def)
  ultimately show ?thesis
    using t by (simp add: lookup_share_def exec_vfs_def ino_get_def inode_free_def ino_set_def exec_inode_def)
      (rule arg_cong[where f = "list_update inos t"], cases "inos ! t", simp)
qed

lemma exec_open:
  assumes "index_of (\<lambda>ino. i_count ino = 0) inos = Some t" "\<And>ino. ino \<in> set inos \<Longrightarrow> i_sb ino = None"
    and "k_vfs fs = exec_vfs inos" "index_of (\<lambda>f. file_count f = 0) (file_objects fs) = Some j"
  shows "\<exists>fs1 f ino r fs2. open_file_object 16 [47] O_RDONLY fs = Some (Inr j, fs1) \<and> file_get j fs1 = Some (f, t, ino)
    \<and> file_object_free 16 j fs1 = Some (r, fs2) \<and> file_holds 16 (file_ops f) ino (k_fs fs1) demo_bflt"
proof -
  let ?i = "exec_inode ((inos ! t)\<lparr>i_count := 1\<rparr>)"
  let ?f = "(file_objects fs ! j)\<lparr>file_count := 1, file_inode := Some t, file_offset := 0, file_flags := O_RDONLY, file_ops := Romfs_File_Ops\<rparr>"
  let ?fs1 = "fs\<lparr>k_vfs := exec_vfs (inos[t := ?i]), file_objects := (file_objects fs)[j := ?f]\<rparr>"
  have t: "t < length inos" "j < length (file_objects fs)" using assms(1,4) by (simp_all add: index_of_Some_iff)
  have o: "inode_ops ?i exec_mounted = Some Romfs_Sb_Ops" by (simp add: inode_ops_def sb_get_def exec_mounted_def exec_inode_def)
  have "open_file_object 16 [47] O_RDONLY fs = Some (Inr j, ?fs1)"
    using exec_lookup[OF assms(1,2)] assms(3,4) t o
    by (simp add: open_file_object_def open_inode_def file_object_allocate_def file_set_def ino_get_def ino_set_def k_fs_def exec_vfs_def
        sb_fileops_def rd_def)
  moreover have "file_get j ?fs1 = Some (?f, t, ?i)" using t by (simp add: file_get_def ino_get_def exec_vfs_def rd_def)
  moreover have "file_object_free 16 j ?fs1 \<noteq> None"
    using t by (simp add: file_object_free_def ino_get_def exec_vfs_def inode_free_def rd_def exec_inode_def)
  moreover have "file_holds 16 (file_ops ?f) ?i (k_fs ?fs1) demo_bflt"
    using demo_bin_holds_at[OF _ exec_mounted_ok] by (simp add: k_fs_def exec_vfs_def exec_inode_def)
  ultimately show ?thesis by (metis not_None_eq surj_pair)
qed

lemma demo_bflt_file: "bflt_file demo_bflt" "bflt_cnt demo_bflt = 1" "bflt_psize demo_bflt = 16" "rom_word demo_bflt BFLT_STACK_SIZE = 4096"
proof -
  have w: "rom_word demo_bflt 8 = 64" "rom_word demo_bflt 12 = 72" "rom_word demo_bflt 16 = 72" "rom_word demo_bflt 20 = 80" "rom_word demo_bflt 24 = 4096"
    by (simp_all add: rom_word_def demo_bflt_def le32_def ntohl_def)
  show c: "bflt_cnt demo_bflt = 1" "bflt_psize demo_bflt = 16" "rom_word demo_bflt BFLT_STACK_SIZE = 4096"
    by (simp_all add: bflt_cnt_def bflt_psize_def demo_bflt_words w)
  show "bflt_file demo_bflt"
    unfolding bflt_file_def c
    by (simp add: w length_demo_bflt bflt_rs_def reloc_off_def demo_bflt_words) (simp add: demo_bflt_def)
qed

lemma demo_alloc_at:
  assumes "mem_wf m" "max_chunk m = 65536" "used_chunks m \<subseteq> {4096}"
  shows "alloc_program 4096 16 m \<noteq> None"
proof -
  have size: "alloc_size 4096 = 1" "alloc_size 16 = 1" "alloc_area MEMORY_USER m = Some (4096, 65536)"
    by (simp_all add: alloc_size_def num_chunks_def alloc_area_def assms(2))
  have "free_run m (alloc_size 4096) 4096 65536 5000" using assms(3) by (auto simp: free_run_def size)
  from memory_allocate_some[OF assms(1) size(3) this] obtain c m1 where
    m1: "memory_allocate 4096 MEMORY_USER m = Some (4096 * c, m1)" "4096 \<le> c" "allocated m c 1 m1"
    by (auto simp: free_run_def size)
  have a: "mem_wf m1" "alloc_area MEMORY_USER m1 = Some (4096, 65536)" "used_chunks m1 = used_chunks m \<union> {c}"
    using m1(3) assms(2) by (simp_all add: allocated_def alloc_area_def)
  have "free_run m1 (alloc_size 16) 4096 65536 (if c = 5000 then 5001 else 5000)" using assms(3) a(3) by (auto simp: free_run_def size)
  from memory_allocate_some[OF a(1,2) this] obtain d m2 where
    "memory_allocate 16 MEMORY_USER m1 = Some (4096 * d, m2)" "4096 \<le> d" by (auto simp: free_run_def)
  then show ?thesis using m1(1,2) by (simp add: alloc_program_def free_area_def)
qed

lemma demo_alloc: "alloc_program 4096 16 mem0 \<noteq> None"
  by (rule demo_alloc_at) (simp_all, simp add: mem0_def)

section \<open>Properties\<close>

text \<open>
  C3: A well-formed executable is loaded as its header says, when memory suffices: stack and program get memory that was free before, the program
  finds its text and data and zeros behind them, with its address added at each relocation, the stack is zero, and no byte that was in use
  changes.  It then starts at the address of the program with the number of arguments, their vector and the stack pointer in its registers, under the
  first 31 characters of the name.
\<close>

theorem execve_runs_program:
  assumes "file_view k = Some fs" "open_file_object fuel filename O_RDONLY fs = Some (Inr j, fs1)"
    and "file_get j fs1 = Some (f, i, ino)" "file_object_free fuel j fs1 = Some (r, fs2)"
    and "file_holds fuel (file_ops f) ino (k_fs fs1) c" "bflt_file c" "bflt_cnt c < fuel" "mem_wf (memory k)"
    and "alloc_program (rom_word c BFLT_STACK_SIZE) (bflt_psize c) (memory k) \<noteq> None"
    and "current k < length (procs k)" "length (p_name (procs k ! current k)) = 32" "length (p_regs (procs k ! current k)) = 15"
  shows "\<exists>l m1. program_at c l (memory k) m1 \<and> (\<forall>argc loc m'.
      exec_args fuel argv (l_stack l + unat (l_stack_size l)) m1 = Some (argc, loc, m') \<longrightarrow>
      (\<exists>k'. execve fuel filename argv k = Some (int argc, k') \<and> memory k' = m'
        \<and> p_pc (procs k' ! current k) = of_nat (l_binary l) \<and> p_regs (procs k' ! current k) ! 0 = of_nat argc
        \<and> p_regs (procs k' ! current k) ! 1 = of_nat loc \<and> p_regs (procs k' ! current k) ! 13 = of_nat loc
        \<and> cstr (p_name (procs k' ! current k)) = take 31 (cstr filename)))"
  using assms by (rule execve_result)

definition demo_exec_kern :: kern where
  "demo_exec_kern = demo_kern\<lparr>memory := mem0,
     files := \<lparr>k_vfs = exec_vfs [inode_zero, inode_zero], file_objects = [file_zero], k_fds = [], k_cwd = []\<rparr>\<rparr>"

lemma execve_runs_program_witness:
  "\<exists>(l :: loaded) k'. execve 16 [47] 0 demo_exec_kern = Some (0, k') \<and> p_pc (procs k' ! 1) = of_nat (l_binary l)
    \<and> p_regs (procs k' ! 1) ! 13 = of_nat (l_stack l + 4096) \<and> ram_word (l_binary l + 4) (memory k') = Some (16 + of_nat (l_binary l))"
proof -
  let ?k = demo_exec_kern
  let ?fs = "(files ?k)\<lparr>k_fds := p_files (procs ?k ! 1), k_cwd := p_cwd (procs ?k ! 1)\<rparr>"
  have v: "file_view ?k = Some ?fs" by (simp add: file_view_def rd_def demo_exec_kern_def demo_current)
  have w: "rom_word demo_bflt 8 = 64" "rom_word demo_bflt 16 = 72" "rom_word demo_bflt 28 = 72"
    by (simp_all add: rom_word_def demo_bflt_def le32_def ntohl_def)
  have i: "index_of (\<lambda>ino. i_count ino = 0) [inode_zero, inode_zero] = Some 0" "\<And>ino. ino \<in> set [inode_zero, inode_zero] \<Longrightarrow> i_sb ino = None"
    by (auto simp: inode_zero_def)
  have f: "k_vfs ?fs = exec_vfs [inode_zero, inode_zero]" "index_of (\<lambda>f. file_count f = 0) (file_objects ?fs) = Some 0"
    by (simp_all add: demo_exec_kern_def file_zero_def)
  obtain fs1 fo ino r fs2 where o: "open_file_object 16 [47] O_RDONLY ?fs = Some (Inr 0, fs1)" "file_get 0 fs1 = Some (fo, 0, ino)"
    "file_object_free 16 0 fs1 = Some (r, fs2)" "file_holds 16 (file_ops fo) ino (k_fs fs1) demo_bflt"
    using exec_open[OF i f] by blast
  have k: "current ?k = 1" "length (procs ?k) = 4" "memory ?k = mem0" "length (p_name (procs ?k ! 1)) = 32" "length (p_regs (procs ?k ! 1)) = 15"
    by (simp_all add: demo_exec_kern_def demo_kern_def demo_pcb_def pcb_zero_def)
  have "\<exists>l m1. program_at demo_bflt l mem0 m1 \<and> (\<forall>argc loc m'.
      exec_args 16 0 (l_stack l + unat (l_stack_size l)) m1 = Some (argc, loc, m') \<longrightarrow>
      (\<exists>k'. execve 16 [47] 0 ?k = Some (int argc, k') \<and> memory k' = m'
        \<and> p_pc (procs k' ! 1) = of_nat (l_binary l) \<and> p_regs (procs k' ! 1) ! 0 = of_nat argc
        \<and> p_regs (procs k' ! 1) ! 1 = of_nat loc \<and> p_regs (procs k' ! 1) ! 13 = of_nat loc
        \<and> cstr (p_name (procs k' ! 1)) = take 31 (cstr [47])))"
    using execve_runs_program[OF v o(1,2,3,4) demo_bflt_file(1), of 0] demo_bflt_file(2-4) demo_alloc k by simp
  then obtain l m1 where l: "program_at demo_bflt l mem0 m1" "\<forall>argc loc m'.
      exec_args 16 0 (l_stack l + unat (l_stack_size l)) m1 = Some (argc, loc, m') \<longrightarrow>
      (\<exists>k'. execve 16 [47] 0 ?k = Some (int argc, k') \<and> memory k' = m'
        \<and> p_pc (procs k' ! 1) = of_nat (l_binary l) \<and> p_regs (procs k' ! 1) ! 0 = of_nat argc
        \<and> p_regs (procs k' ! 1) ! 1 = of_nat loc \<and> p_regs (procs k' ! 1) ! 13 = of_nat loc
        \<and> cstr (p_name (procs k' ! 1)) = take 31 (cstr [47]))"
    by (elim exE conjE)
  have "image_at demo_bflt (l_binary l) m1" "l_stack_size l = 4096" using l(1) demo_bflt_file(4) by (simp_all add: program_at_def)
  then have "ram_word (l_binary l + 4) m1 = Some (16 + of_nat (l_binary l))"
    by (simp add: image_at_def demo_bflt_file reloc_off_def bflt_rs_def demo_bflt_words image_byte_def bflt_osize_def w upt_rec)
      (simp add: demo_bflt_def le32_def)
  moreover have "exec_args 16 0 (l_stack l + 4096) m1 = Some (0, l_stack l + 4096, m1)" by (simp add: exec_args_def)
  ultimately show ?thesis using l(2)[rule_format, of 0 "l_stack l + 4096" m1] \<open>l_stack_size l = 4096\<close>
    by - (rule exI[of _ l], auto)
qed

text \<open>
  C16: Starting up establishes the order that every later step keeps: from empty tables, when the idle task is created and the first program
  starts, the list holds the idle task and the first process, both ready and waiting for nothing, and the process has the three standard
  descriptors, each with a file object of its own.
\<close>

theorem boot_establishes_order:
  assumes "proc_first k = None" and "wait_first k = (\<lambda>_. None)" and "\<forall>p \<in> set (procs k). \<not> p_valid p \<and> p_wait_next p = None"
    and "length (procs k) < fuel" and "create_idle_task fuel a k = Some k1" and "start_userspace fuel name k1 = Some (Inr k')"
  shows "\<exists>i j. system k' i [j] (\<lambda>_. []) \<and> sys_ok fuel k' \<and> current k' = j \<and> ready k' j
    \<and> p_files (procs k' ! j) = [Some 0, Some 1, Some 2, None, None, None, None, None]"
proof -
  have "boot_inv k []" using assms(1-3) by (auto simp: boot_inv_def proc_list_def all_set_conv_all_nth)
  from create_idle_task_boot[OF this assms(5,4)] obtain i where i: "boot_inv k1 [i]" "ready k1 i" "i < length (procs k1)"
    "p_files (procs k1 ! i) = replicate 8 None" "length (procs k1) < fuel" using assms(4) by auto
  obtain j kc k2 cwd k3 k4 k5 k6 r k7 where s: "process_create fuel k1 = Some (Some j, kc)"
    "upd j (p_parent_update (\<lambda>_. Some j)) (kc\<lparr>current := j\<rparr>) = Some k2" "upd j (p_cwd_update (\<lambda>_. cwd)) k2 = Some k3"
    "open_special j 0 k3 = Some k4" "open_special j 1 k4 = Some k5" "open_special j 2 k5 = Some k6"
    "execve fuel name 0 k6 = Some (r, k7)" "upd j (p_status_update (\<lambda>_. Ready)) k7 = Some k'"
    using assms(6) by (auto simp: start_userspace_def split: bind_splits if_splits)
  note c = boot_inv_create[OF i(1) s(1) i(5)]
  note u = upd_result[OF s(2)] upd_result[OF s(3)]
  have ij: "i \<noteq> j" using c(1) by (auto simp: boot_inv_def dest: proc_listD(3))
  have b3: "boot_inv k3 [i, j]" by (rule boot_inv_change[of kc]) (use c u in \<open>auto simp: nth_list_update\<close>)
  note o1 = open_special_boot[OF b3 s(4)] note o2 = open_special_boot[OF o1(1) s(5)] note o3 = open_special_boot[OF o2(1) s(6)]
  have l6: "i < length (procs k6)" "j < length (procs k6)" "length (procs k6) < fuel" "current k6 = j"
    using o1 o2 o3 u c(4) i(3,5) by simp_all
  have f6: "p_files (procs k6 ! i) = replicate 8 None" "p_status (procs k6 ! i) = Ready"
    "p_files (procs k6 ! j) = [Some 0, Some 1, Some 2, None, None, None, None, None]"
    using o1(4,5) o2(4,5) o3(4,5) u c(4,6) c(8)[of i] i(2-4) ij
    by (simp_all add: ready_def nth_list_update) (simp add: eval_nat_numeral)
  have n6: "counts k6 = (counts k3)[0 := 1, 1 := 1, 2 := 1]" using o1(3) o2(3) o3(3) by (simp only:)
  have "length (counts k5) = length (counts k3)" by (simp only: o1(3) o2(3) length_list_update)
  then have l3: "2 < length (counts k3)" "0 < length (counts k3)" "1 < length (counts k3)" using o3(2) by (simp_all only: length_map)
  have pl: "proc_list k6 [i, j]" "wait_first k6 = (\<lambda>_. None)" "\<forall>n < length (procs k6). p_wait_next (procs k6 ! n) = None"
    using o3(1) by (simp_all add: boot_inv_def)
  have sf: "sys_files k6" by (rule std_files_sys[OF pl(1) l6(1,2) f6(1,3)]) (use l3 in \<open>simp add: n6 nth_list_update del: length_map\<close>)
  have "queues k6 (\<lambda>_. [])" using pl(2,3) by (simp add: queues_def waiting_def)
  then have sys6: "system k6 i [j] (\<lambda>_. [])" using pl(1) sf f6(2) l6(4) by (simp add: system_def ready_def)
  note e = execve_system[OF sys6 s(7)] note u8 = upd_result[OF s(8)] note d = systemD[OF e(1)]
  have f7: "length (procs k7) = length (procs k6)" "current k7 = j" "p_files (procs k7 ! j) = p_files (procs k6 ! j)"
    using e(2) l6 by (simp_all add: same_skeleton_def)
  have core: "same_core k7 k'" using u8 by (auto simp: same_core_def nth_list_update)
  have "queues k' (\<lambda>_. [])" by (rule queuesI[OF d(5)]) (use u8 queuesD(4)[OF d(5)] in \<open>auto simp: nth_list_update\<close>)
  moreover have "ready k' i" "ready k' j" using d(3) u8 by (auto simp: ready_def nth_list_update)
  ultimately have "system k' i [j] (\<lambda>_. [])" using system_core[OF e(1) core] u8 by simp
  moreover have "length (procs k') < fuel" "current k' = j" "p_files (procs k' ! j) = p_files (procs k6 ! j)"
    using u8 f7 l6(3) by auto
  ultimately show ?thesis using \<open>ready k' j\<close> f6(3) unfolding sys_ok_def by metis
qed

text \<open>A kernel before its first process.\<close>

definition demo_boot :: kern where
  "demo_boot = \<lparr>procs = [pcb_zero, pcb_zero, pcb_zero], proc_first = None, avail_pid = 0, current = 0, tick_counter = 0,
     wait_first = \<lambda>_. None, files = \<lparr>k_vfs = exec_vfs [inode_zero, inode_zero, inode_zero, inode_zero],
       file_objects = [file_zero, file_zero, file_zero, file_zero], k_fds = [], k_cwd = []\<rparr>, memory = mem0\<rparr>"

lemma demo_boot_idle:
  "\<exists>k1. create_idle_task 16 32768 demo_boot = Some k1 \<and> allocated mem0 4096 1 (memory k1) \<and> procs k1 = [procs k1 ! 0, pcb_zero, pcb_zero]
    \<and> proc_first k1 = Some 0 \<and> avail_pid k1 = 1 \<and> files k1 = files demo_boot \<and> p_valid (procs k1 ! 0) \<and> p_next (procs k1 ! 0) = None"
proof -
  have c: "max_chunk mem0 = 65536" by (simp add: mem0_def)
  obtain m1 where m1: "memory_allocate 4096 MEMORY_USER mem0 = Some (16777216, m1)" "allocated mem0 4096 1 m1"
    using memory_allocate_least[of mem0 MEMORY_USER 4096 65536 4096]
    by (auto simp: alloc_area_def alloc_size_def num_chunks_def free_run_def c)
  have z: "\<not> p_valid pcb_zero" "length (p_name pcb_zero) = 32" by (simp_all add: pcb_zero_def)
  let ?k0 = "demo_boot\<lparr>procs := [fresh_pcb demo_boot, pcb_zero, pcb_zero], proc_first := Some 0, avail_pid := 1\<rparr>"
  have f: "(fresh_pcb demo_boot)\<lparr>p_next := None, p_prev := None\<rparr> = fresh_pcb demo_boot" by (simp add: fresh_pcb_def pcb_zero_def)
  have "index_of (\<lambda>p. \<not> p_valid p) (procs demo_boot) = Some 0" using z by (simp add: demo_boot_def)
  then have "process_create 16 demo_boot = Some (Some 0, ?k0)"
    using f by (simp add: process_create_def ticks_since_boot_def fresh_pcb_def)
      (simp add: process_insert_def upd_def rd_def demo_boot_def)
  moreover have "memory ?k0 = mem0" "length (p_name (fresh_pcb demo_boot)) = 32" by (simp_all add: demo_boot_def fresh_pcb_def pcb_zero_def)
  ultimately show ?thesis using m1 by (simp add: create_idle_task_def upd_def rd_def strncpy_def splice_def)
      (simp add: fresh_pcb_def pcb_zero_def demo_boot_def)
qed

lemma demo_boot_files:
  "\<exists>f1 f2 f3 inos. file_special 0 (files demo_boot) = Some (0, f1) \<and> file_special 1 f1 = Some (1, f2) \<and> file_special 2 f2 = Some (2, f3)
    \<and> k_vfs f3 = exec_vfs inos \<and> index_of (\<lambda>ino. i_count ino = 0) inos = Some 3 \<and> (\<forall>ino \<in> set inos. i_sb ino = None)
    \<and> index_of (\<lambda>f. file_count f = 0) (file_objects f3) = Some 3"
  by (simp add: demo_boot_def file_special_def inode_allocate_def exec_vfs_def ino_set_def ino_get_def rd_def file_set_def)
    (simp add: inode_zero_def file_zero_def exec_vfs_def)

lemma demo_boot_start:
  assumes "procs k1 = [p, pcb_zero, pcb_zero]" "p_valid p" "p_next p = None" "proc_first k1 = Some 0" "avail_pid k1 = 1"
    "files k1 = files demo_boot" "allocated mem0 4096 1 (memory k1)"
  shows "\<exists>k'. start_userspace 16 [47] k1 = Some (Inr k')"
proof -
  obtain f1 f2 f3 inos where f: "file_special 0 (files demo_boot) = Some (0, f1)" "file_special 1 f1 = Some (1, f2)" "file_special 2 f2 = Some (2, f3)"
    "k_vfs f3 = exec_vfs inos" "index_of (\<lambda>ino. i_count ino = 0) inos = Some 3" "\<forall>ino \<in> set inos. i_sb ino = None"
    "index_of (\<lambda>f. file_count f = 0) (file_objects f3) = Some 3" using demo_boot_files by blast
  have z: "\<not> p_valid pcb_zero" by (simp add: pcb_zero_def)
  let ?q = "(fresh_pcb k1)\<lparr>p_prev := Some 0\<rparr>"
  let ?kc = "k1\<lparr>procs := [p\<lparr>p_next := Some 1\<rparr>, ?q, pcb_zero], avail_pid := 2\<rparr>"
  have q: "?q = (fresh_pcb k1)\<lparr>p_next := None, p_prev := Some 0\<rparr>" by (simp add: fresh_pcb_def pcb_zero_def)
  have l: "c_loop 16 (tail_step p_next [p, fresh_pcb k1, pcb_zero]) 0 = Some 0"
    using assms(3) c_loop.simps(2)[of 15] by (simp add: tail_step_def rd_def)
  have "index_of (\<lambda>p. \<not> p_valid p) (procs k1) = Some 1" using assms(1,2) z by simp
  moreover have "process_insert 16 1 (k1\<lparr>procs := [p, fresh_pcb k1, pcb_zero], avail_pid := 2\<rparr>) = Some (0, ?kc)"
    using assms(4) l q by (simp add: process_insert_def upd_def rd_def)
  ultimately have c: "process_create 16 k1 = Some (Some 1, ?kc)"
    using assms(1,5) by (simp add: process_create_def ticks_since_boot_def fresh_pcb_def Let_def)
  let ?p6 = "?q\<lparr>p_parent := Some 1, p_cwd := strncpy_out [47, 0] 1024, p_files := [Some 0, Some 1, Some 2, None, None, None, None, None]\<rparr>"
  let ?k6 = "?kc\<lparr>current := 1, files := f3, procs := [p\<lparr>p_next := Some 1\<rparr>, ?p6, pcb_zero]\<rparr>"
  have n: "length (p_name ?p6) = 32" "length (p_regs ?p6) = 15"
    "strncpy (p_cwd (fresh_pcb k1)) [47, 0] 1024 = Some (strncpy_out [47, 0] 1024)"
    "p_files (fresh_pcb k1) = [None, None, None, None, None, None, None, None]"
    by (simp_all add: fresh_pcb_def pcb_zero_def strncpy_def splice_def) (simp add: eval_nat_numeral)
  have start: "start_userspace 16 [47] k1 = do { (r, k7) \<leftarrow> execve 16 [47] 0 ?k6;
    if r < 0 then Some (Inl (r, k7)) else do { k8 \<leftarrow> upd 1 (p_status_update (\<lambda>_. Ready)) k7; Some (Inr k8) } }"
    unfolding start_userspace_def c bind.bind_lunit prod.case
    by (simp add: upd_def rd_def n open_special_def f(1,2) f(2,3)[unfolded One_nat_def] assms(6) cong: if_cong)
  let ?fs = "f3\<lparr>k_fds := p_files ?p6, k_cwd := p_cwd ?p6\<rparr>"
  have k6: "file_view ?k6 = Some ?fs" "current ?k6 = 1" "procs ?k6 ! 1 = ?p6" "length (procs ?k6) = 3" "memory ?k6 = memory k1"
    by (simp_all add: file_view_def rd_def)
  have "k_vfs ?fs = exec_vfs inos" "index_of (\<lambda>f. file_count f = 0) (file_objects ?fs) = Some 3" using f by simp_all
  then obtain fs1 fo ino r fs2 where o: "open_file_object 16 [47] O_RDONLY ?fs = Some (Inr 3, fs1)" "file_get 3 fs1 = Some (fo, 3, ino)"
    "file_object_free 16 3 fs1 = Some (r, fs2)" "file_holds 16 (file_ops fo) ino (k_fs fs1) demo_bflt"
    using exec_open[OF f(5), of ?fs 3] f(6) by blast
  have a: "mem_wf (memory k1)" "max_chunk (memory k1) = 65536" "used_chunks (memory k1) \<subseteq> {4096}"
    using assms(7) by (auto simp: allocated_def) (simp add: mem0_def)
  have "\<exists>l m1. program_at demo_bflt l (memory ?k6) m1 \<and> (\<forall>argc loc m'.
      exec_args 16 0 (l_stack l + unat (l_stack_size l)) m1 = Some (argc, loc, m') \<longrightarrow>
      (\<exists>k'. execve 16 [47] 0 ?k6 = Some (int argc, k') \<and> memory k' = m'
        \<and> p_pc (procs k' ! current ?k6) = of_nat (l_binary l) \<and> p_regs (procs k' ! current ?k6) ! 0 = of_nat argc
        \<and> p_regs (procs k' ! current ?k6) ! 1 = of_nat loc \<and> p_regs (procs k' ! current ?k6) ! 13 = of_nat loc
        \<and> cstr (p_name (procs k' ! current ?k6)) = take 31 (cstr [47])))"
    by (rule execve_result[OF k6(1) o(1-4) demo_bflt_file(1)])
      (use demo_bflt_file demo_alloc_at[OF a] a(1) n k6 in simp_all)
  then obtain k7 where k7: "execve 16 [47] 0 ?k6 = Some (0, k7)"
    by (force simp: exec_args_def)
  then have "same_skeleton ?k6 k7" using yieldsD[OF execve_skeleton k7] by simp
  then have "1 < length (procs k7)" by (simp add: same_skeleton_def)
  then show ?thesis unfolding start k7 by (simp add: upd_def rd_def)
qed

lemma boot_establishes_order_witness:
  "\<exists>k1 k' j. create_idle_task 16 32768 demo_boot = Some k1 \<and> start_userspace 16 [47] k1 = Some (Inr k') \<and> sys_ok 16 k' \<and> ready k' j
    \<and> p_files (procs k' ! j) = [Some 0, Some 1, Some 2, None, None, None, None, None]"
proof -
  obtain k1 where k1: "create_idle_task 16 32768 demo_boot = Some k1" "allocated mem0 4096 1 (memory k1)"
    "procs k1 = [procs k1 ! 0, pcb_zero, pcb_zero]" "proc_first k1 = Some 0" "avail_pid k1 = 1" "files k1 = files demo_boot"
    "p_valid (procs k1 ! 0)" "p_next (procs k1 ! 0) = None" using demo_boot_idle by blast
  obtain k' where k': "start_userspace 16 [47] k1 = Some (Inr k')" using demo_boot_start[OF k1(3,7,8,4,5,6,2)] by blast
  have d: "proc_first demo_boot = None" "wait_first demo_boot = (\<lambda>_. None)" "length (procs demo_boot) < 16"
    "\<forall>p \<in> set (procs demo_boot). \<not> p_valid p \<and> p_wait_next p = None" by (simp_all add: demo_boot_def pcb_zero_def)
  show ?thesis using boot_establishes_order[OF d(1,2,4,3) k1(1) k'] k1(1) k' by blast
qed

end
