(* ===== verification/Syscalls.thy ===== *)
theory Syscalls
  imports Exec Timer Keyboard
begin

text \<open>
  System calls (\<open>syscalls/syscalls.c\<close>, \<open>sysinfo.c\<close>, \<open>uname.c\<close>, \<open>getcpu.c\<close>, \<open>times.c\<close>): the dispatch of \<open>swi_handler_c\<close> to the components,
  with the arguments in registers and in the memory of the caller, on the state of the whole machine.  Addresses the caller names are not
  checked by the kernel; the model takes them to lie outside the data of the kernel, which is not part of \<open>ram\<close>.

  The result of a call is the value its caller finds in \<open>r0\<close> when it runs again.  A call that waits says what it waits for, and going
  on is an operation of its own.  The calls that only reach the hardware (the sensor, the random numbers, sound, the other cores, the I2C
  bus, the watchdog) are the argument \<open>hw\<close>: registers to a result, and to the words stored in the memory of the caller.
\<close>

record machine =
  m_tty :: tty
  m_clock :: clock
  m_kb :: ps2

datatype sysret = Result u32 | Gone | Wait_Child nat int u32 | Wait_Input u32 nat | Wait_Timer u32

definition m_kern :: "machine \<Rightarrow> kern" where
  "m_kern m = kernel (m_tty m)"

definition set_kern :: "kern \<Rightarrow> machine \<Rightarrow> machine" where
  "set_kern k m = m\<lparr>m_tty := (m_tty m)\<lparr>kernel := k\<rparr>\<rparr>"

section \<open>The memory of the caller\<close>

definition user_put :: "u32 \<Rightarrow> bytes \<Rightarrow> machine \<Rightarrow> machine option" where
  "user_put a bs m = do { mem \<leftarrow> ram_put (unat a) bs (memory (m_kern m)); Some (set_kern ((m_kern m)\<lparr>memory := mem\<rparr>) m) }"

text \<open>A string with its NUL; the bytes of a buffer as far as memory goes.\<close>

definition user_str :: "nat \<Rightarrow> u32 \<Rightarrow> machine \<Rightarrow> bytes option" where
  "user_str fuel a m = do {
     n \<leftarrow> ram_strlen fuel (unat a) (memory (m_kern m));
     ram_get (unat a) (n + 1) (memory (m_kern m)) }"

definition user_bytes :: "u32 \<Rightarrow> nat \<Rightarrow> machine \<Rightarrow> bytes" where
  "user_bytes a n m = map (ram (memory (m_kern m))) [unat a ..< min (unat a + n) (2 ^ 32)]"

definition ret_int :: "int \<Rightarrow> sysret" where
  "ret_int r = Result (of_int r)"

section \<open>Calls on files\<close>

text \<open>A call of the component on behalf of the caller.\<close>

definition on_files :: "(kfiles \<Rightarrow> ('a \<times> kfiles) option) \<Rightarrow> machine \<Rightarrow> ('a \<times> machine) option" where
  "on_files f m = do {
     fs \<leftarrow> file_view (m_kern m);
     (x, fs1) \<leftarrow> f fs;
     k \<leftarrow> store_files fs1 (m_kern m);
     Some (x, set_kern k m) }"

definition on_path :: "(bytes \<Rightarrow> vfs \<Rightarrow> ('a \<times> vfs) option) \<Rightarrow> machine \<Rightarrow> ('a \<times> machine) option" where
  "on_path f = on_files (\<lambda>fs. do { (x, v) \<leftarrow> f (k_cwd fs) (k_vfs fs); Some (x, fs\<lparr>k_vfs := v\<rparr>) })"

definition ret_files :: "(kfiles \<Rightarrow> (int \<times> kfiles) option) \<Rightarrow> machine \<Rightarrow> (sysret \<times> machine) option" where
  "ret_files f m = do { (r, m1) \<leftarrow> on_files f m; Some (ret_int r, m1) }"

definition ret_path :: "(bytes \<Rightarrow> vfs \<Rightarrow> (int \<times> vfs) option) \<Rightarrow> machine \<Rightarrow> (sysret \<times> machine) option" where
  "ret_path f m = do { (r, m1) \<leftarrow> on_path f m; Some (ret_int r, m1) }"

text \<open>The operations of a character device; only the console has any.\<close>

definition is_console :: "char_table \<Rightarrow> nat \<Rightarrow> bool option" where
  "is_console ct dev = do { d \<leftarrow> rd (char_devs ct) dev; if cd_major d = CONSOLE_MAJOR then Some True else None }"

definition finish_read :: "u32 \<Rightarrow> read_result \<Rightarrow> machine \<Rightarrow> (sysret \<times> machine) option" where
  "finish_read buf r m =
     (case r of Read_Bytes bs \<Rightarrow> do { m1 \<leftarrow> user_put buf bs m; Some (ret_int (int (length bs)), m1) }
      | Read_Sleeps n \<Rightarrow> Some (Wait_Input buf n, m))"

definition sys_read :: "nat \<Rightarrow> char_table \<Rightarrow> u32 \<Rightarrow> u32 \<Rightarrow> u32 \<Rightarrow> machine \<Rightarrow> (sysret \<times> machine) option" where
  "sys_read fuel ct fd buf n m = do {
     (x, m1) \<leftarrow> on_files (read_syscall fuel ct (unat fd) n) m;
     (case x of
        Done (r, bs) \<Rightarrow> do { m2 \<leftarrow> user_put buf bs m1; Some (ret_int r, m2) }
      | To_Char dev j \<Rightarrow> do {
          _ \<leftarrow> is_console ct dev;
          f \<leftarrow> rd (file_objects (files (m_kern m1))) j;
          (r, t) \<leftarrow> console_read_dev fuel (file_flags f) (unat n) (m_tty m1);
          finish_read buf r (m1\<lparr>m_tty := t\<rparr>) }) }"

definition sys_write :: "nat \<Rightarrow> nat \<Rightarrow> char_table \<Rightarrow> u32 \<Rightarrow> u32 \<Rightarrow> u32 \<Rightarrow> machine \<Rightarrow> (sysret \<times> machine) option" where
  "sys_write depth fuel ct fd buf n m = do {
     let bs = user_bytes buf (unat n) m;
     (x, m1) \<leftarrow> on_files (write_syscall fuel ct (unat fd) bs n) m;
     (case x of
        Done r \<Rightarrow> Some (ret_int r, m1)
      | To_Char dev _ \<Rightarrow> do {
          _ \<leftarrow> is_console ct dev;
          (r, t) \<leftarrow> console_write_dev depth bs (unat n) (m_tty m1);
          Some (ret_int (int r), m1\<lparr>m_tty := t\<rparr>) }) }"

text \<open>\<open>struct termios\<close> in memory: four words, the line discipline, 32 characters, three bytes of padding, two words.\<close>

definition termios_bytes :: "termios \<Rightarrow> bytes" where
  "termios_bytes t = word_bytes (c_iflag t) @ word_bytes (c_oflag t) @ word_bytes (c_cflag t) @ word_bytes (c_lflag t)
     @ [c_line t] @ c_cc t @ [0, 0, 0] @ word_bytes (c_ispeed t) @ word_bytes (c_ospeed t)"

definition termios_of :: "bytes \<Rightarrow> termios" where
  "termios_of b = \<lparr>c_iflag = le32 (take 4 b), c_oflag = le32 (take 4 (drop 4 b)), c_cflag = le32 (take 4 (drop 8 b)),
     c_lflag = le32 (take 4 (drop 12 b)), c_line = b ! 16, c_cc = take 32 (drop 17 b),
     c_ispeed = le32 (take 4 (drop 52 b)), c_ospeed = le32 (take 4 (drop 56 b))\<rparr>"

definition sys_ioctl :: "char_table \<Rightarrow> u32 \<Rightarrow> u32 \<Rightarrow> u32 \<Rightarrow> u32 \<Rightarrow> machine \<Rightarrow> (sysret \<times> machine) option" where
  "sys_ioctl ct fd cmd three four m = do {
     fs \<leftarrow> file_view (m_kern m);
     x \<leftarrow> ioctl_syscall ct (unat fd) (unat cmd) (unat three) (unat four) fs;
     (case x of
        Done r \<Rightarrow> Some (ret_int r, m)
      | To_Char dev _ \<Rightarrow> do {
          _ \<leftarrow> is_console ct dev;
          if cmd = TCGETS \<or> cmd = TCSETS then do {
            b \<leftarrow> ram_get (unat three) 60 (memory (m_kern m));
            let (r, settings, t) = console_ioctl cmd (termios_of b) (m_tty m);
            let m1 = m\<lparr>m_tty := t\<rparr>;
            m2 \<leftarrow> (if cmd = TCGETS then user_put three (termios_bytes settings) m1 else Some m1);
            Some (ret_int r, m2) }
          else Some (ret_int (- ENOTTY), m) }) }"

text \<open>Structures the calls fill in.\<close>

definition stat_head :: "vmwos_stat \<Rightarrow> bytes" where
  "stat_head s = concat (map word_bytes [of_nat (st_dev s), st_ino s, st_mode s, of_int (st_nlink s), of_int (st_uid s), of_int (st_gid s),
     of_nat (st_rdev s)])"

definition long_bytes :: "nat \<Rightarrow> bytes" where
  "long_bytes n = word_bytes (of_nat n) @ word_bytes (of_nat (n div 2 ^ 32))"

definition stat_tail :: "vmwos_stat \<Rightarrow> bytes" where
  "stat_tail s = long_bytes (st_size s) @ word_bytes (of_nat (st_blksize s)) @ word_bytes (of_nat (st_blocks s))
     @ long_bytes (st_atime s) @ long_bytes (st_mtime s) @ long_bytes (st_ctime s)"

definition sys_stat :: "nat \<Rightarrow> u32 \<Rightarrow> u32 \<Rightarrow> machine \<Rightarrow> (sysret \<times> machine) option" where
  "sys_stat fuel path buf m = do {
     p \<leftarrow> user_str fuel path m;
     ((r, s), m1) \<leftarrow> on_path (\<lambda>cwd v. do { (r, s, v1) \<leftarrow> stat_syscall fuel cwd p v; Some ((r, s), v1) }) m;
     m2 \<leftarrow> (case s of None \<Rightarrow> Some m1
           | Some s \<Rightarrow> do { m2 \<leftarrow> user_put buf (stat_head s) m1; user_put (buf + 32) (stat_tail s) m2 });
     Some (ret_int r, m2) }"

definition statfs_bytes :: "statfs \<Rightarrow> bytes" where
  "statfs_bytes s = concat (map (\<lambda>n. word_bytes (of_nat n)) [f_type s, f_bsize s, f_blocks s, f_bfree s, f_bavail s, f_files s,
     f_ffree s, f_fsid s, f_namelen s, f_frsize s, f_flags s])"

definition sys_statfs :: "nat \<Rightarrow> u32 \<Rightarrow> u32 \<Rightarrow> machine \<Rightarrow> (sysret \<times> machine) option" where
  "sys_statfs fuel path buf m = do {
     p \<leftarrow> user_str fuel path m;
     ((r, s), m1) \<leftarrow> on_path (\<lambda>cwd v. do { (r, s, v1) \<leftarrow> statfs_syscall fuel cwd p v; Some ((r, s), v1) }) m;
     m2 \<leftarrow> (case s of None \<Rightarrow> Some m1 | Some s \<Rightarrow> user_put buf (statfs_bytes s) m1);
     Some (ret_int r, m2) }"

fun put_dirents :: "u32 \<Rightarrow> dirent list \<Rightarrow> machine \<Rightarrow> machine option" where
  "put_dirents a [] m = Some m"
| "put_dirents a ((ino, len, name) # ds) m = do {
     m1 \<leftarrow> user_put a (word_bytes ino @ word_bytes (of_nat len) @ word_bytes (of_nat len) @ name @ [0]) m;
     put_dirents (a + of_nat len) ds m1 }"

definition sys_getdents :: "nat \<Rightarrow> u32 \<Rightarrow> u32 \<Rightarrow> u32 \<Rightarrow> machine \<Rightarrow> (sysret \<times> machine) option" where
  "sys_getdents fuel fd buf n m = do {
     ((r, ds), m1) \<leftarrow> on_files (\<lambda>fs. do { (r, ds, fs1) \<leftarrow> getdents_syscall fuel (unat fd) (unat n) fs; Some ((r, ds), fs1) }) m;
     m2 \<leftarrow> put_dirents buf ds m1;
     Some (ret_int r, m2) }"

text \<open>\<open>result64\<close> is unsigned, so that \<open>result64>=0\<close> always holds: an error is stored as a position.\<close>

definition sys_llseek :: "u32 \<Rightarrow> u32 \<Rightarrow> u32 \<Rightarrow> u32 \<Rightarrow> u32 \<Rightarrow> machine \<Rightarrow> (sysret \<times> machine) option" where
  "sys_llseek fd high low res whence m = do {
     (r, m1) \<leftarrow> on_files (llseek_syscall (unat fd) (push_bit 32 (ucast high) OR ucast low) (sint whence)) m;
     let result64 = (case r of Inl e \<Rightarrow> of_int e | Inr p \<Rightarrow> p);
     m2 \<leftarrow> user_put res (word_bytes (ucast result64) @ word_bytes (ucast (drop_bit 32 result64))) m1;
     Some (Result 0, m2) }"

definition sys_fcntl :: "u32 \<Rightarrow> u32 \<Rightarrow> u32 \<Rightarrow> machine \<Rightarrow> (sysret \<times> machine) option" where
  "sys_fcntl fd cmd third m = do {
     (r, m1) \<leftarrow> on_files (fcntl_syscall (unat fd) (sint cmd) third) m;
     Some (case r of Inl e \<Rightarrow> ret_int e | Inr fl \<Rightarrow> Result fl, m1) }"

definition sys_getcwd :: "u32 \<Rightarrow> u32 \<Rightarrow> machine \<Rightarrow> (sysret \<times> machine) option" where
  "sys_getcwd buf sz m = do {
     fs \<leftarrow> file_view (m_kern m);
     bs \<leftarrow> getcwd_syscall (user_bytes buf (unat sz) m) (unat sz) fs;
     m1 \<leftarrow> user_put buf bs m;
     Some (Result buf, m1) }"

section \<open>Calls on processes\<close>

definition store_status :: "u32 \<Rightarrow> int option \<Rightarrow> machine \<Rightarrow> machine option" where
  "store_status wstatus st m =
     (case st of None \<Rightarrow> Some m
      | Some e \<Rightarrow> if wstatus = 0 then Some m else user_put wstatus (word_bytes (of_int e)) m)"

definition finish_wait :: "u32 \<Rightarrow> int \<Rightarrow> wait_result \<Rightarrow> machine \<Rightarrow> (sysret \<times> machine) option" where
  "finish_wait wstatus pid w m =
     (case w of
        Returned r st \<Rightarrow> do { m1 \<leftarrow> store_status wstatus st m; Some (ret_int r, m1) }
      | Blocked proc \<Rightarrow> Some (Wait_Child proc pid wstatus, m))"

definition sys_waitpid :: "nat \<Rightarrow> u32 \<Rightarrow> u32 \<Rightarrow> u32 \<Rightarrow> machine \<Rightarrow> (sysret \<times> machine) option" where
  "sys_waitpid fuel pid wstatus options m = do {
     (w, k) \<leftarrow> waitpid fuel (sint pid) (sint options) (current (m_kern m)) (m_kern m);
     finish_wait wstatus (sint pid) w (set_kern k m) }"

definition sys_exit :: "nat \<Rightarrow> u32 \<Rightarrow> machine \<Rightarrow> (sysret \<times> machine) option" where
  "sys_exit fuel status m = do { k \<leftarrow> exit_process fuel (sint status) (m_kern m); Some (Gone, set_kern k m) }"

definition sys_vfork :: "nat \<Rightarrow> machine \<Rightarrow> (sysret \<times> machine) option" where
  "sys_vfork fuel m = do { (r, k) \<leftarrow> vfork fuel (m_kern m); Some (ret_int r, set_kern k m) }"

text \<open>Whatever \<open>execve\<close> returns, the parent of the caller becomes ready.\<close>

definition sys_execve :: "nat \<Rightarrow> u32 \<Rightarrow> u32 \<Rightarrow> machine \<Rightarrow> (sysret \<times> machine) option" where
  "sys_execve fuel path argv m = do {
     p \<leftarrow> user_str fuel path m;
     (r, k1) \<leftarrow> execve fuel p (unat argv) (m_kern m);
     c \<leftarrow> rd (procs k1) (current k1);
     parent \<leftarrow> p_parent c;
     k2 \<leftarrow> upd parent (p_status_update (\<lambda>_. Ready)) k1;
     k3 \<leftarrow> schedule fuel k2;
     Some (ret_int r, set_kern k3 m) }"

definition sys_nanosleep :: "nat \<Rightarrow> u32 \<Rightarrow> machine \<Rightarrow> (sysret \<times> machine) option" where
  "sys_nanosleep fuel req m = do {
     seconds \<leftarrow> ram_word (unat req) (memory (m_kern m));
     ns \<leftarrow> ram_word (unat req + 4) (memory (m_kern m));
     (n, c, k) \<leftarrow> nanosleep fuel seconds ns (m_clock m, m_kern m);
     Some (case n of Slept \<Rightarrow> Result 0 | Asleep t \<Rightarrow> Wait_Timer t, (set_kern k m)\<lparr>m_clock := c\<rparr>) }"

definition sys_malloc :: "u32 \<Rightarrow> machine \<Rightarrow> (sysret \<times> machine) option" where
  "sys_malloc sz m = do {
     (p, mem) \<leftarrow> memory_allocate (unat sz) MEMORY_USER (memory (m_kern m));
     Some (Result (of_nat p), set_kern ((m_kern m)\<lparr>memory := mem\<rparr>) m) }"

section \<open>Calls that ask\<close>

definition times :: "u32 \<Rightarrow> machine \<Rightarrow> (sysret \<times> machine) option" where
  "times buf m = do {
     c \<leftarrow> rd (procs (m_kern m)) (current (m_kern m));
     m1 \<leftarrow> user_put buf (concat (map word_bytes [p_user_time c, p_kernel_time c, 0, 0])) m;
     Some (Result 0, m1) }"

definition sysinfo :: "nat \<Rightarrow> u32 \<Rightarrow> machine \<Rightarrow> (sysret \<times> machine) option" where
  "sysinfo fuel buf m = do {
     let k = m_kern m;
     free \<leftarrow> memory_total_free (memory k);
     (total, ready_count) \<leftarrow> process_get_totals fuel k;
     f \<leftarrow> proc_first k;
     idle \<leftarrow> rd (procs k) f;
     m1 \<leftarrow> user_put buf (concat (map word_bytes [ticks_since_boot k div TIMER_HZ, 0, 0, 0, of_nat (memory_get_total (memory k)), of_int free,
             0, 0, 0, 0, of_nat total, 0, 0, 0, of_nat ready_count, p_user_time idle div TIMER_HZ])) m;
     Some (Result 0, m1) }"

text \<open>The names; the date is put in when the kernel is built.\<close>

definition uname :: "bytes \<Rightarrow> u32 \<Rightarrow> machine \<Rightarrow> (sysret \<times> machine) option" where
  "uname compile_date buf m = do {
     m1 \<leftarrow> user_put buf (strlcpy_out [118, 109, 119, 79, 83] 64) m;
     m2 \<leftarrow> user_put (buf + 65) (strlcpy_out [112, 105] 64) m1;
     m3 \<leftarrow> user_put (buf + 130) (strlcpy_out [48, 46, 50, 49] 64) m2;
     m4 \<leftarrow> user_put (buf + 195) (strlcpy_out compile_date 64) m3;
     m5 \<leftarrow> user_put (buf + 260) (strlcpy_out [97, 114, 109, 118, 54] 64) m4;
     m6 \<leftarrow> user_put (buf + 325) (strlcpy_out [110, 111, 110, 101] 64) m5;
     Some (Result 0, m6) }"

text \<open>On a kernel for one processor \<open>cpu\<close> is not stored; \<open>node\<close> is, whenever \<open>cpu\<close> is not null.\<close>

definition getcpu :: "u32 \<Rightarrow> u32 \<Rightarrow> u32 \<Rightarrow> machine \<Rightarrow> (sysret \<times> machine) option" where
  "getcpu cpu node tcache m = do {
     m1 \<leftarrow> (if cpu \<noteq> 0 then user_put node (word_bytes 0) m else Some m);
     m2 \<leftarrow> (if node \<noteq> 0 then user_put node (word_bytes 0) m1 else Some m1);
     Some (ret_int (if tcache \<noteq> 0 then - EINVAL else 0), m2) }"

definition sys_dmesg :: "u32 \<Rightarrow> u32 \<Rightarrow> machine \<Rightarrow> (sysret \<times> machine) option" where
  "sys_dmesg cmd buf m = do {
     (r, bs) \<leftarrow> dmesg_syscall (sint cmd) (kernel_log (outs (m_tty m)));
     m1 \<leftarrow> user_put buf bs m;
     Some (ret_int r, m1) }"

definition sys_clock_gettime :: "u32 \<Rightarrow> machine \<Rightarrow> (sysret \<times> machine) option" where
  "sys_clock_gettime buf m = do {
     let (r, seconds, ns) = clock_gettime (m_kern m);
     m1 \<leftarrow> user_put buf (word_bytes seconds @ word_bytes ns) m;
     Some (ret_int r, m1) }"

section \<open>Calls on the display\<close>

definition set_outs :: "conout \<Rightarrow> machine \<Rightarrow> machine" where
  "set_outs o1 m = m\<lparr>m_tty := (m_tty m)\<lparr>outs := o1\<rparr>\<rparr>"

definition disabling_blink :: bytes where
  "disabling_blink = [68, 73, 83, 65, 66, 76, 73, 78, 71, 32, 66, 76, 73, 78, 75, 10]"

definition enabling_blink :: bytes where
  "enabling_blink = [69, 78, 65, 66, 76, 73, 78, 71, 95, 66, 76, 73, 78, 75, 10]"

definition unknown_syscall :: bytes where
  "unknown_syscall = [85, 110, 107, 110, 111, 119, 110, 32, 115, 121, 115, 99, 97, 108, 108, 32, 37, 100, 10]"

definition sys_blink :: "nat \<Rightarrow> u32 \<Rightarrow> machine \<Rightarrow> (sysret \<times> machine) option" where
  "sys_blink depth on m = do {
     o1 \<leftarrow> printk depth (if on = 0 then disabling_blink else enabling_blink) [] (outs (m_tty m));
     Some (ret_int (- ENOSYS), (set_outs o1 m)\<lparr>m_clock := (m_clock m)\<lparr>blinking_enabled := (on \<noteq> 0)\<rparr>\<rparr>) }"

definition on_frame_buffer :: "(fb \<Rightarrow> fb option) \<Rightarrow> machine \<Rightarrow> (sysret \<times> machine) option" where
  "on_frame_buffer f m = do {
     let o0 = outs (m_tty m);
     b \<leftarrow> f (fbuf (con o0));
     Some (Result 0, set_outs (o0\<lparr>con := (con o0)\<lparr>fbuf := b\<rparr>\<rparr>) m) }"

definition sys_setfont :: "nat \<Rightarrow> bytes \<Rightarrow> machine \<Rightarrow> (sysret \<times> machine) option" where
  "sys_setfont depth font m = do {
     o1 \<leftarrow> framebuffer_console_setfont depth font (outs (m_tty m));
     Some (ret_int (- ENOSYS), set_outs o1 m) }"

definition sys_unknown :: "nat \<Rightarrow> u32 \<Rightarrow> machine \<Rightarrow> (sysret \<times> machine) option" where
  "sys_unknown depth r7 m = do {
     o1 \<leftarrow> printk depth unknown_syscall [VLong r7] (outs (m_tty m));
     Some (ret_int (- ENOSYS), set_outs o1 m) }"

text \<open>A call that only reaches the hardware.\<close>

type_synonym hardware = "u32 \<Rightarrow> u32 \<Rightarrow> u32 \<Rightarrow> u32 \<Rightarrow> u32 \<times> (u32 \<times> bytes) option"

definition sys_hardware :: "hardware \<Rightarrow> u32 \<Rightarrow> u32 \<Rightarrow> u32 \<Rightarrow> u32 \<Rightarrow> machine \<Rightarrow> (sysret \<times> machine) option" where
  "sys_hardware hw r7 r0 r1 r2 m =
     (case hw r7 r0 r1 r2 of
        (r, None) \<Rightarrow> Some (Result r, m)
      | (r, Some (a, bs)) \<Rightarrow> do { m1 \<leftarrow> user_put a bs m; Some (Result r, m1) })"

section \<open>The dispatch\<close>

text \<open>What the kernel is built with: the drivers, the character devices, the font and the date.\<close>

record build =
  b_hw :: hardware
  b_chars :: char_table
  b_font :: bytes
  b_date :: bytes

definition ret_now :: "u32 \<Rightarrow> machine \<Rightarrow> (sysret \<times> machine) option" where
  "ret_now r m = Some (Result r, m)"

definition with_str :: "nat \<Rightarrow> u32 \<Rightarrow> (bytes \<Rightarrow> machine \<Rightarrow> 'a option) \<Rightarrow> machine \<Rightarrow> 'a option" where
  "with_str fuel a f m = do { p \<leftarrow> user_str fuel a m; f p m }"

definition long_arg :: "u32 \<Rightarrow> u32 \<Rightarrow> nat" where
  "long_arg high low = unat (push_bit 32 (ucast high) OR ucast low :: u64)"

definition file_calls :: "nat \<Rightarrow> nat \<Rightarrow> build \<Rightarrow> u32 \<Rightarrow> u32 \<Rightarrow> u32 \<Rightarrow> u32 \<Rightarrow> u32 \<Rightarrow> u32 \<Rightarrow> (machine \<Rightarrow> (sysret \<times> machine) option) option" where
  "file_calls depth fuel b r0 r1 r2 r3 r4 r7 =
     (if r7 = 3 then Some (sys_read fuel (b_chars b) r0 r1 r2)
      else if r7 = 4 then Some (sys_write depth fuel (b_chars b) r0 r1 r2)
      else if r7 = 5 then Some (with_str fuel r0 (\<lambda>p. ret_files (open_syscall fuel p r1)))
      else if r7 = 6 then Some (ret_files (close_syscall fuel (unat r0)))
      else if r7 = 10 then Some (with_str fuel r0 (\<lambda>p. ret_path (\<lambda>cwd. unlink_syscall fuel cwd p)))
      else if r7 = 12 then Some (with_str fuel r0 (\<lambda>p. ret_files (chdir_syscall fuel p)))
      else if r7 = 15 then Some (with_str fuel r0 (\<lambda>p. ret_path (\<lambda>cwd. chmod_syscall fuel cwd p r1)))
      else if r7 = 54 then Some (sys_ioctl (b_chars b) r0 r1 r2 r3)
      else if r7 = 55 then Some (sys_fcntl r0 r1 r2)
      else if r7 = 63 then Some (ret_files (dup2_syscall fuel (unat r0) (unat r1)))
      else if r7 = 99 then Some (sys_statfs fuel r0 r1)
      else if r7 = 106 then Some (sys_stat fuel r0 r1)
      else if r7 = 140 then Some (sys_llseek r0 r1 r2 r3 r4)
      else if r7 = 141 then Some (sys_getdents fuel r0 r1 r2)
      else if r7 = 183 then Some (sys_getcwd r0 r1)
      else if r7 = 193 then Some (with_str fuel r0 (\<lambda>p. ret_path (\<lambda>cwd. truncate64_syscall fuel cwd p (long_arg r3 r2))))
      else if r7 = 194 then Some (ret_files (ftruncate64_syscall fuel (unat r0) (long_arg r3 r2)))
      else None)"

definition process_calls :: "nat \<Rightarrow> u32 \<Rightarrow> u32 \<Rightarrow> u32 \<Rightarrow> u32 \<Rightarrow> (machine \<Rightarrow> (sysret \<times> machine) option) option" where
  "process_calls fuel r0 r1 r2 r7 =
     (if r7 = 1 then Some (sys_exit fuel r0)
      else if r7 = 7 then Some (sys_waitpid fuel r0 r1 r2)
      else if r7 = 11 then Some (sys_execve fuel r0 r1)
      else if r7 = 162 then Some (sys_nanosleep fuel r0)
      else if r7 = 190 then Some (sys_vfork fuel)
      else if r7 = 8201 then Some (sys_malloc r0)
      else None)"

definition other_calls :: "nat \<Rightarrow> nat \<Rightarrow> build \<Rightarrow> u32 \<Rightarrow> u32 \<Rightarrow> u32 \<Rightarrow> u32 \<Rightarrow> u32 \<Rightarrow> machine \<Rightarrow> (sysret \<times> machine) option" where
  "other_calls depth fuel b r0 r1 r2 r3 r7 =
     (if r7 = 13 then (\<lambda>m. ret_now (time_since_boot (m_kern m)) m)
      else if r7 = 20 then (\<lambda>m. do { c \<leftarrow> rd (procs (m_kern m)) (current (m_kern m)); ret_now (of_int (p_pid c)) m })
      else if r7 = 43 then times r0
      else if r7 = 90 \<or> r7 = 91 then ret_now (of_int (- ENOSYS))
      else if r7 = 103 then sys_dmesg r0 r1
      else if r7 = 116 then sysinfo fuel r0
      else if r7 = 122 then uname (b_date b) r0
      else if r7 = 263 then sys_clock_gettime r1
      else if r7 = 345 then getcpu r0 r1 r2
      else if r7 = 8192 then sys_blink depth r0
      else if r7 = 8193 then sys_setfont depth (b_font b)
      else if r7 = 8194 then on_frame_buffer (framebuffer_gradient r0)
      else if r7 = 8200 then (\<lambda>m. on_frame_buffer (framebuffer_load (user_bytes r3 (nat (phys_x (fbuf (con (outs (m_tty m))))
             * phys_y (fbuf (con (outs (m_tty m)))) * 3)) m)) m)
      else if r7 \<in> {88, 8198, 8199, 8202, 8203, 8204} then sys_hardware (b_hw b) r7 r0 r1 r2
      else sys_unknown depth r7)"

definition swi_handler_c :: "nat \<Rightarrow> nat \<Rightarrow> build \<Rightarrow> u32 \<Rightarrow> u32 \<Rightarrow> u32 \<Rightarrow> u32 \<Rightarrow> u32 \<Rightarrow> u32 \<Rightarrow> machine \<Rightarrow> (sysret \<times> machine) option" where
  "swi_handler_c depth fuel b r0 r1 r2 r3 r4 r7 m =
     (case file_calls depth fuel b r0 r1 r2 r3 r4 r7 of
        Some f \<Rightarrow> f m
      | None \<Rightarrow> (case process_calls fuel r0 r1 r2 r7 of
          Some f \<Rightarrow> f m
        | None \<Rightarrow> other_calls depth fuel b r0 r1 r2 r3 r7 m))"

section \<open>Going on\<close>

definition resume_child :: "nat \<Rightarrow> nat \<Rightarrow> int \<Rightarrow> u32 \<Rightarrow> machine \<Rightarrow> (sysret \<times> machine) option" where
  "resume_child fuel proc pid wstatus m = do {
     (w, k) \<leftarrow> waitpid_wait fuel pid proc (m_kern m);
     finish_wait wstatus pid w (set_kern k m) }"

definition resume_input :: "u32 \<Rightarrow> nat \<Rightarrow> machine \<Rightarrow> (sysret \<times> machine) option" where
  "resume_input buf n m = do {
     (bs, t) \<leftarrow> console_take n (m_tty m);
     finish_read buf (Read_Bytes bs) (m\<lparr>m_tty := t\<rparr>) }"

definition resume_timer :: "nat \<Rightarrow> u32 \<Rightarrow> machine \<Rightarrow> (sysret \<times> machine) option" where
  "resume_timer fuel t m = do {
     (n, c, k) \<leftarrow> nanosleep_round fuel t (m_clock m, m_kern m);
     Some (case n of Slept \<Rightarrow> Result 0 | Asleep t \<Rightarrow> Wait_Timer t, (set_kern k m)\<lparr>m_clock := c\<rparr>) }"

end
