(* ===== verification/Interrupts.thy ===== *)
theory Interrupts
  imports Syscalls
begin

text \<open>
  Interrupts and faults (\<open>interrupts/interrupts.c\<close>, \<open>drivers/serial/serial.c\<close>, \<open>pl011_uart.c\<close>): which handlers run for the
  pending bits, and the timer last, as it may switch to another process.  The registers of the hardware are arguments: what is pending,
  the characters the serial port has received, the data line of the keyboard.  The interrupts between cores of the ARMv7 build are not modelled.
\<close>

section \<open>Messages\<close>

definition unknown_happened :: bytes where
  "unknown_happened =
     [85, 110, 107, 110, 111, 119, 110, 32, 105, 110, 116, 101, 114, 114, 117, 112, 116, 32, 104, 97, 112, 112, 101, 110,
     101, 100, 32, 37, 120, 32, 37, 120, 32, 37, 120, 33, 10]"

definition unknown_basic :: bytes where
  "unknown_basic =
     [85, 110, 107, 110, 111, 119, 110, 32, 98, 97, 115, 105, 99, 95, 112, 101, 110, 100, 105, 110, 103, 32, 105, 110, 116,
     101, 114, 114, 117, 112, 116, 32, 37, 120, 10]"

definition unknown_pending1 :: bytes where
  "unknown_pending1 =
     [85, 110, 107, 110, 111, 119, 110, 32, 112, 101, 110, 100, 105, 110, 103, 49, 32, 105, 110, 116, 101, 114, 114, 117,
     112, 116, 32, 37, 120, 10]"

definition unknown_pending2 :: bytes where
  "unknown_pending2 =
     [85, 110, 107, 110, 111, 119, 110, 32, 112, 101, 110, 100, 105, 110, 103, 50, 32, 105, 110, 116, 101, 114, 114, 117,
     112, 116, 32, 37, 120, 10]"

definition unknown_interrupt :: bytes where
  "unknown_interrupt =
     [85, 110, 107, 110, 111, 119, 110, 32, 105, 110, 116, 101, 114, 114, 117, 112, 116, 33, 10]"

definition process_line :: bytes where
  "process_line =
     [80, 114, 111, 99, 101, 115, 115, 58, 32, 37, 100, 32, 40, 116, 101, 120, 116, 32, 37, 112, 43, 37, 120, 44, 32, 115,
     116, 97, 99, 107, 32, 37, 112, 43, 37, 120, 41, 10]"

definition register_line :: bytes where
  "register_line =
     [114, 37, 48, 50, 100, 58, 32, 37, 48, 56, 120, 9, 114, 37, 48, 50, 100, 58, 32, 37, 48, 56, 120]"

definition memory_abort :: bytes where
  "memory_abort =
     [77, 69, 77, 79, 82, 89, 32, 65, 66, 79, 82, 84, 32, 97, 116, 32, 80, 67, 61, 37, 120, 32, 40, 37, 120, 41, 10]"

definition alignment_fault :: bytes where
  "alignment_fault =
     [9, 65, 108, 105, 103, 110, 109, 101, 110, 116, 32, 102, 97, 117, 108, 116, 10]"

definition debug_event :: bytes where
  "debug_event =
     [9, 68, 101, 98, 117, 103, 32, 101, 118, 101, 110, 116, 10]"

definition permission_fault :: bytes where
  "permission_fault =
     [9, 80, 101, 114, 109, 105, 115, 115, 105, 111, 110, 32, 102, 97, 117, 108, 116, 32, 37, 115, 32, 37, 120, 10]"

definition prefetch_abort :: bytes where
  "prefetch_abort =
     [80, 82, 69, 70, 69, 84, 67, 72, 32, 65, 66, 79, 82, 84, 32, 97, 116, 32, 80, 67, 61, 37, 120, 10]"

definition permission_access :: bytes where
  "permission_access =
     [9, 80, 101, 114, 109, 105, 115, 115, 105, 111, 110, 32, 102, 97, 117, 108, 116, 32, 97, 99, 99, 101, 115, 115, 105,
     110, 103, 32, 37, 120, 10]"

definition undefined_instruction :: bytes where
  "undefined_instruction =
     [85, 78, 68, 69, 70, 73, 78, 69, 68, 32, 73, 78, 83, 84, 82, 85, 67, 84, 73, 79, 78, 44, 32, 80, 67, 61, 37, 120, 44,
     32, 105, 110, 115, 110, 61, 37, 120, 10]"

definition say :: "nat \<Rightarrow> bytes \<Rightarrow> va list \<Rightarrow> machine \<Rightarrow> machine option" where
  "say depth fmt ap m = do { o1 \<leftarrow> printk depth fmt ap (outs (m_tty m)); Some (set_outs o1 m) }"

definition say_if :: "bool \<Rightarrow> nat \<Rightarrow> bytes \<Rightarrow> va list \<Rightarrow> machine \<Rightarrow> machine option" where
  "say_if c depth fmt ap m = (if c then say depth fmt ap m else Some m)"

section \<open>The devices\<close>

text \<open>The characters come out of the receive buffer until it is empty.\<close>

fun uart_interrupt_handler :: "nat \<Rightarrow> nat \<Rightarrow> bytes \<Rightarrow> tty \<Rightarrow> tty option" where
  "uart_interrupt_handler depth fuel [] t = Some t"
| "uart_interrupt_handler depth fuel (ascii # cs) t = do {
     (_, t1) \<leftarrow> console_insert_char depth fuel (uint ascii) t;
     uart_interrupt_handler depth fuel cs t1 }"

definition serial_interrupt_handler :: "nat \<Rightarrow> nat \<Rightarrow> bytes \<Rightarrow> machine \<Rightarrow> machine option" where
  "serial_interrupt_handler depth fuel cs m = do { t \<leftarrow> uart_interrupt_handler depth fuel cs (m_tty m); Some (m\<lparr>m_tty := t\<rparr>) }"

definition keyboard_interrupt :: "nat \<Rightarrow> nat \<Rightarrow> bool \<Rightarrow> machine \<Rightarrow> machine option" where
  "keyboard_interrupt depth fuel data m = do {
     (kb, t) \<leftarrow> ps2_interrupt_handler depth fuel data (m_kb m, m_tty m);
     Some (m\<lparr>m_kb := kb, m_tty := t\<rparr>) }"

definition timer_interrupt :: "nat \<Rightarrow> machine \<Rightarrow> machine option" where
  "timer_interrupt fuel m = do {
     (c, k) \<leftarrow> timer_interrupt_handler fuel (m_clock m, m_kern m);
     let m1 = (set_kern k m)\<lparr>m_clock := c\<rparr>;
     if scheduling_enabled (m_tty m1) then do { k1 \<leftarrow> schedule fuel k; Some (set_kern k1 m1) } else Some m1 }"

section \<open>The interrupt handler\<close>

record pending =
  pi4 :: bool
  basic_pending :: u32
  pending0 :: u32
  pending1 :: u32
  pending2 :: u32
  received_chars :: bytes
  data_line :: bool

abbreviation (input) "IRQ_BASIC_PENDING_TIMER \<equiv> 1 :: u32"
abbreviation (input) "IRQ_BASIC_PENDING_IRQ57 \<equiv> 0x80000 :: u32"
abbreviation (input) "IRQ_PENDING2_IRQ49 \<equiv> 0x20000 :: u32"
abbreviation (input) "IRQ_PENDING1_IRQ49 \<equiv> 0x20000 :: u32"
abbreviation (input) "IRQ_PENDING1_IRQ57 \<equiv> 0x2000000 :: u32"
abbreviation (input) "IRQ_PENDING2_TIMER_IRQ \<equiv> 1 :: u32"

definition run_if :: "bool \<Rightarrow> (machine \<Rightarrow> machine option) \<Rightarrow> machine \<Rightarrow> machine option" where
  "run_if c f m = (if c then f m else Some m)"

text \<open>Whether something was handled, and whether the timer is pending.\<close>

definition pi4_sources :: "nat \<Rightarrow> nat \<Rightarrow> pending \<Rightarrow> machine \<Rightarrow> ((bool \<times> bool) \<times> machine) option" where
  "pi4_sources depth fuel p m = do {
     let uart = flag (pending1 p) IRQ_PENDING1_IRQ57;
     let timer = flag (pending2 p) IRQ_PENDING2_TIMER_IRQ;
     let kbd = flag (pending2 p) IRQ_PENDING1_IRQ49;
     m1 \<leftarrow> run_if uart (serial_interrupt_handler depth fuel (received_chars p)) m;
     m2 \<leftarrow> run_if kbd (keyboard_interrupt depth fuel (data_line p)) m1;
     Some ((uart \<or> timer \<or> kbd, timer), m2) }"

definition pi_sources :: "nat \<Rightarrow> nat \<Rightarrow> pending \<Rightarrow> machine \<Rightarrow> ((bool \<times> bool) \<times> machine) option" where
  "pi_sources depth fuel p m = do {
     let uart = flag (basic_pending p) IRQ_BASIC_PENDING_IRQ57;
     let timer = flag (basic_pending p) IRQ_BASIC_PENDING_TIMER;
     let kbd = flag (pending2 p) IRQ_PENDING2_IRQ49;
     m1 \<leftarrow> run_if uart (serial_interrupt_handler depth fuel (received_chars p)) m;
     m2 \<leftarrow> say_if (basic_pending p \<noteq> 0 \<and> \<not> (uart \<or> timer)) depth unknown_basic [VLong (basic_pending p)] m1;
     m3 \<leftarrow> say_if (pending1 p \<noteq> 0 \<and> \<not> (uart \<or> timer)) depth unknown_pending1 [VLong (pending1 p)] m2;
     m4 \<leftarrow> run_if kbd (keyboard_interrupt depth fuel (data_line p)) m3;
     m5 \<leftarrow> say_if (pending2 p \<noteq> 0 \<and> \<not> (uart \<or> timer \<or> kbd)) depth unknown_pending2 [VLong (pending2 p)] m4;
     Some ((uart \<or> timer \<or> kbd, timer), m5) }"

definition interrupt_handler_c :: "nat \<Rightarrow> nat \<Rightarrow> pending \<Rightarrow> machine \<Rightarrow> machine option" where
  "interrupt_handler_c depth fuel p m = do {
     ((handled, was_timer), m1) \<leftarrow> (if pi4 p then pi4_sources else pi_sources) depth fuel p m;
     if pi4 p \<and> \<not> handled then say depth unknown_happened [VLong (pending0 p), VLong (pending1 p), VLong (pending2 p)] m1
     else do {
       m2 \<leftarrow> say_if (\<not> handled) depth unknown_interrupt [] m1;
       run_if was_timer (timer_interrupt fuel) m2 } }"

section \<open>Faults\<close>

fun dump_rows :: "nat \<Rightarrow> u32 list \<Rightarrow> nat list \<Rightarrow> machine \<Rightarrow> machine option" where
  "dump_rows depth regs [] m = Some m"
| "dump_rows depth regs (i # is) m = do {
     a \<leftarrow> rd regs i;
     b \<leftarrow> rd regs (i + 8);
     m1 \<leftarrow> say depth register_line [VLong (of_nat i), VLong a, VLong (of_nat (i + 8)), VLong b] m;
     m2 \<leftarrow> say depth [10] [] m1;
     dump_rows depth regs is m2 }"

definition user_reg_dump :: "nat \<Rightarrow> u32 list \<Rightarrow> machine \<Rightarrow> machine option" where
  "user_reg_dump depth regs m = do {
     c \<leftarrow> rd (procs (m_kern m)) (current (m_kern m));
     m1 \<leftarrow> say depth process_line [VLong (of_int (p_pid c)), VLong (of_nat (p_text c)), VLong (of_nat (p_textsize c)),
            VLong (of_nat (p_stack c)), VLong (of_nat (p_stacksize c))] m;
     dump_rows depth regs [0 ..< 8] m1 }"

text \<open>A process that faults ends with the status -1.  \<open>fsr\<close> and \<open>far\<close> are the fault registers.\<close>

definition fault_exit :: "nat \<Rightarrow> machine \<Rightarrow> machine option" where
  "fault_exit fuel m = do { k \<leftarrow> exit_process fuel (- 1) (m_kern m); Some (set_kern k m) }"

definition data_abort_handler_c :: "nat \<Rightarrow> nat \<Rightarrow> u32 \<Rightarrow> u32 \<Rightarrow> u32 list \<Rightarrow> machine \<Rightarrow> machine option" where
  "data_abort_handler_c depth fuel fsr far regs m = do {
     lr \<leftarrow> rd regs 15;
     code \<leftarrow> ram_word (unat (lr - 4)) (memory (m_kern m));
     m1 \<leftarrow> say depth memory_abort [VLong (lr - 4), VLong code] m;
     let fs = fsr AND 0xf;
     m2 \<leftarrow> say_if (fs = 1) depth alignment_fault [] m1;
     m3 \<leftarrow> say_if (fs = 2) depth debug_event [] m2;
     m4 \<leftarrow> say_if (fs AND 0xd = 0xd) depth permission_fault
            [VStr (if flag fsr 0x800 then [119, 114, 105, 116, 105, 110, 103, 0] else [114, 101, 97, 100, 105, 110, 103, 0]), VLong far] m3;
     m5 \<leftarrow> user_reg_dump depth regs m4;
     fault_exit fuel m5 }"

definition prefetch_abort_handler :: "nat \<Rightarrow> nat \<Rightarrow> u32 \<Rightarrow> u32 \<Rightarrow> u32 \<Rightarrow> machine \<Rightarrow> machine option" where
  "prefetch_abort_handler depth fuel fsr far lr m = do {
     m1 \<leftarrow> say depth prefetch_abort [VLong (lr - 4)] m;
     let fs = fsr AND 0xf;
     m2 \<leftarrow> say_if (fs = 2) depth debug_event [] m1;
     m3 \<leftarrow> say_if (fs AND 0xd = 0xd) depth permission_access [VLong far] m2;
     fault_exit fuel m3 }"

text \<open>An undefined instruction is reported and passed over.\<close>

definition undef_handler :: "nat \<Rightarrow> u32 \<Rightarrow> machine \<Rightarrow> machine option" where
  "undef_handler depth lr m = do {
     insn \<leftarrow> ram_word (unat (lr - 4)) (memory (m_kern m));
     say depth undefined_instruction [VLong (lr - 4), VLong insn] m }"

end
