(* ===== verification/System_Calls.thy ===== *)
theory System_Calls
  imports Interrupts
begin

text \<open>
  The system calls keep the system in order: whichever calls the processes make, and however they are interleaved with the timer, with
  characters that arrive and with calls that go on after waiting, the invariant of the processes, the wait queues and the descriptors holds.
\<close>

section \<open>State that the invariant does not depend on\<close>

definition in_order :: "nat \<Rightarrow> machine \<Rightarrow> bool" where
  "in_order fuel m = sys_ok fuel (m_kern m)"

definition after :: "nat \<Rightarrow> 'a \<times> machine \<Rightarrow> bool" where
  "after fuel x = in_order fuel (snd x)"

lemma after_pair [simp]: "after fuel (r, m) = in_order fuel m"
  by (simp add: after_def)

lemma sys_ok_memory [simp]: "sys_ok fuel (k\<lparr>memory := x\<rparr>) = sys_ok fuel k"
proof
  show "sys_ok fuel (k\<lparr>memory := x\<rparr>)" if "sys_ok fuel k"
    by (rule skeleton_sys_ok[OF that]) (simp_all add: list_all2_refl)
  show "sys_ok fuel k" if "sys_ok fuel (k\<lparr>memory := x\<rparr>)"
    by (rule skeleton_sys_ok[OF that]) (simp_all add: list_all2_refl)
qed

lemma m_kern_simps [simp]: "m_kern (set_kern k m) = k" "m_kern (m\<lparr>m_clock := c\<rparr>) = m_kern m" "m_kern (m\<lparr>m_tty := t\<rparr>) = kernel t" "m_kern (m\<lparr>m_kb := kb\<rparr>) = m_kern m"
  "m_kern (set_outs o1 m) = m_kern m" "kernel (m_tty m) = m_kern m"
  by (simp_all add: m_kern_def set_kern_def set_outs_def)

lemma in_order_simps [simp]: "in_order fuel (set_kern k m) = sys_ok fuel k" "in_order fuel (m\<lparr>m_clock := c\<rparr>) = in_order fuel m"
  "in_order fuel (m\<lparr>m_tty := t\<rparr>) = sys_ok fuel (kernel t)" "in_order fuel (set_outs o1 m) = in_order fuel m" "in_order fuel (m\<lparr>m_kb := kb\<rparr>) = in_order fuel m"
  by (simp_all add: in_order_def)

lemma user_put_order [yields_intros]: "in_order fuel m \<Longrightarrow> yields (in_order fuel) (user_put a bs m)"
  unfolding user_put_def by (intro yields_intros) (simp add: in_order_def)

lemma put_dirents_order: "in_order fuel m \<Longrightarrow> yields (in_order fuel) (put_dirents a ds m)"
proof (induction a ds m rule: put_dirents.induct)
  case (2 a ino len name ds m)
  show ?case unfolding put_dirents.simps
    by (rule yields_bindI) (use 2(1) yieldsD[OF user_put_order[OF 2(2)]] in blast)
qed simp

section \<open>File calls\<close>

text \<open>A call that keeps the descriptors, given that those of the caller are in order.\<close>

definition keeps_fds :: "kern \<Rightarrow> (kfiles \<Rightarrow> ('a \<times> kfiles) option) \<Rightarrow> bool" where
  "keeps_fds k f \<longleftrightarrow> (\<forall>fs x fs' others. file_view k = Some fs \<longrightarrow> f fs = Some (x, fs') \<longrightarrow> fds_with others fs \<longrightarrow> fds_with others fs')"

lemma keeps_same: "(\<And>fs. yields (\<lambda>(x, fs'). same_files fs fs') (f fs)) \<Longrightarrow> keeps_fds k f"
  using fds_ok_same yieldsD by (fastforce simp: keeps_fds_def)

lemma keeps_yields: "(\<And>fs others. file_view k = Some fs \<Longrightarrow> fds_with others fs \<Longrightarrow> yields (\<lambda>(x, fs'). fds_with others fs') (f fs)) \<Longrightarrow> keeps_fds k f"
  using yieldsD by (fastforce simp: keeps_fds_def)

lemma on_files_order:
  assumes "in_order fuel m" "keeps_fds (m_kern m) f"
  shows "yields (after fuel) (on_files f m)"
proof -
  obtain idle T Wf where s: "system (m_kern m) idle T Wf" "ready (m_kern m) (current (m_kern m))" "length (procs (m_kern m)) < fuel"
    using assms(1) by (auto simp: in_order_def sys_ok_def)
  note d = systemD[OF s(1)]
  obtain fs where v: "file_view (m_kern m) = Some fs" "fds_with (other_fds (current (m_kern m)) (procs (m_kern m))) fs"
    using file_view_sys[OF d(4,6,9)] by blast
  have "sys_ok fuel k" if "f fs = Some (x, fs1)" "store_files fs1 (m_kern m) = Some k" for x fs1 k
  proof -
    have "fds_with (other_fds (current (m_kern m)) (procs (m_kern m))) fs1" using assms(2) v that(1) by (simp add: keeps_fds_def)
    from yieldsD[OF files_system[OF s(1,2) this s(3)] that(2)] show ?thesis .
  qed
  then show ?thesis unfolding on_files_def v(1) bind.bind_lunit by (intro yields_intros) auto
qed

lemma on_path_order: "in_order fuel m \<Longrightarrow> yields (after fuel) (on_path f m)"
  unfolding on_path_def by (rule on_files_order) (auto intro!: keeps_same yields_intros simp: same_files_def)

lemma ret_files_order: "in_order fuel m \<Longrightarrow> keeps_fds (m_kern m) f \<Longrightarrow> yields (after fuel) (ret_files f m)"
  unfolding ret_files_def by (rule yields_bind[OF on_files_order]) auto

lemma ret_path_order: "in_order fuel m \<Longrightarrow> yields (after fuel) (ret_path f m)"
  unfolding ret_path_def by (rule yields_bind[OF on_path_order]) auto

lemma with_str_order: "(\<And>p. yields (after fuel) (f p m)) \<Longrightarrow> yields (after fuel) (with_str fuel' a f m)"
  unfolding with_str_def by (intro yields_intros)

section \<open>The console\<close>

lemma console_take_kernel: "console_take n t = Some (bs, t') \<Longrightarrow> kernel t' = kernel t"
  by (induction n arbitrary: t bs t') (auto simp: console_get_char_def split: bind_splits if_splits option.splits)

lemma caller:
  assumes "sys_ok fuel k" "proc_first k \<noteq> Some (current k)"
  obtains idle T Wf where "system k idle T Wf" "ready k (current k)" "current k \<noteq> idle" "length (procs k) < fuel"
  using sys_okD[OF assms(1)] assms(2) by metis

lemma console_read_order:
  assumes "sys_ok fuel (kernel t)" "proc_first (kernel t) \<noteq> Some (current (kernel t))"
  shows "yields (\<lambda>(r, t'). sys_ok fuel (kernel t')) (console_read_dev fuel flags n t)"
proof -
  obtain idle T Wf where s: "system (kernel t) idle T Wf" "ready (kernel t) (current (kernel t))" "current (kernel t) \<noteq> idle"
    "length (procs (kernel t)) < fuel" by (rule caller[OF assms])
  show ?thesis unfolding console_read_dev_def console_read_def
    by (intro yields_intros) (use sleep_system[OF s, of Console_Queue] console_take_kernel assms(1) in auto)
qed

lemma finish_read_order: "in_order fuel m \<Longrightarrow> yields (after fuel) (finish_read buf r m)"
  unfolding finish_read_def by (cases r) (auto intro!: yields_bind[OF user_put_order])

section \<open>The calls on files\<close>

text \<open>The process that calls: not the idle task.\<close>

definition calls :: "machine \<Rightarrow> bool" where
  "calls m \<longleftrightarrow> proc_first (m_kern m) \<noteq> Some (current (m_kern m))"

lemma store_files_current: "store_files fs k = Some k' \<Longrightarrow> current k' = current k \<and> proc_first k' = proc_first k"
  by (auto simp: store_files_def dest!: upd_result)

lemma on_files_calls: "yields (\<lambda>(x, m'). calls m' = calls m) (on_files f m)"
  unfolding on_files_def by (intro yields_intros) (auto simp: calls_def dest!: store_files_current)

lemma sys_read_order:
  assumes "in_order fuel m" "calls m"
  shows "yields (after fuel) (sys_read fuel ct fd buf n m)"
  unfolding sys_read_def
proof (rule yields_bindI, clarify)
  fix x m1 assume o: "on_files (read_syscall fuel ct (unat fd) n) m = Some (x, m1)"
  have m1: "in_order fuel m1" "calls m1"
    using yieldsD[OF on_files_order[OF assms(1) keeps_same[OF read_same]] o] yieldsD[OF on_files_calls o] assms(2) by simp_all
  show "yields (after fuel) (case x of
        Done (r, bs) \<Rightarrow> do { m2 \<leftarrow> user_put buf bs m1; Some (ret_int r, m2) }
      | To_Char dev j \<Rightarrow> do {
          _ \<leftarrow> is_console ct dev;
          f \<leftarrow> rd (file_objects (files (m_kern m1))) j;
          (r, t) \<leftarrow> console_read_dev fuel (file_flags f) (unat n) (m_tty m1);
          finish_read buf r (m1\<lparr>m_tty := t\<rparr>) })"
  proof (cases x)
    case (Done y)
    then show ?thesis using m1(1) by (cases y) (auto intro!: yields_bind[OF user_put_order])
  next
    case (To_Char dev j)
    have "sys_ok fuel (kernel t)" if "console_read_dev fuel fl k (m_tty m1) = Some (r, t)" for fl k r t
      using yieldsD[OF console_read_order that] m1 by (simp add: in_order_def calls_def)
    then show ?thesis unfolding To_Char outcome.case
      by (intro yields_bindI yields_prod finish_read_order) auto
  qed
qed

lemma console_write_kernel: "console_write_dev depth bs n t = Some (r, t') \<Longrightarrow> kernel t' = kernel t"
  by (auto simp: console_write_dev_def split: bind_splits)

lemma sys_write_order:
  assumes "in_order fuel m"
  shows "yields (after fuel) (sys_write depth fuel ct fd buf n m)"
  unfolding sys_write_def Let_def
proof (rule yields_bind[OF on_files_order[OF assms keeps_same[OF write_same]]], clarify)
  fix x :: "int outcome" and m1 assume "after fuel (x, m1)"
  then have m1: "sys_ok fuel (m_kern m1)" by (simp add: in_order_def)
  show "yields (after fuel) (case x of
        Done r \<Rightarrow> Some (ret_int r, m1)
      | To_Char dev _ \<Rightarrow> do {
          _ \<leftarrow> is_console ct dev;
          (r, t) \<leftarrow> console_write_dev depth (user_bytes buf (unat n) m) (unat n) (m_tty m1);
          Some (ret_int (int r), m1\<lparr>m_tty := t\<rparr>) })"
    by (cases x) (use m1 in \<open>auto intro!: yields_intros simp: in_order_def dest!: console_write_kernel\<close>)
qed

lemma console_ioctl_kernel: "console_ioctl cmd three t = (r, s, t') \<Longrightarrow> kernel t' = kernel t"
  by (auto simp: console_ioctl_def split: if_splits)

lemma sys_ioctl_order:
  assumes "in_order fuel m"
  shows "yields (after fuel) (sys_ioctl ct fd cmd three four m)"
  unfolding sys_ioctl_def Let_def
proof (intro yields_bindI)
  fix fs x assume "ioctl_syscall ct (unat fd) (unat cmd) (unat three) (unat four) fs = Some x"
  have "yields (after fuel) (case console_ioctl cmd b (m_tty m) of (r, settings, t) \<Rightarrow>
      do { m2 \<leftarrow> (if cmd = TCGETS then user_put three (termios_bytes settings) (m\<lparr>m_tty := t\<rparr>) else Some (m\<lparr>m_tty := t\<rparr>)); Some (ret_int r, m2) })" for b
  proof (intro yields_prod)
    fix r s' s t assume "console_ioctl cmd b (m_tty m) = (r, s')" "s' = (s, t)"
    then have "kernel t = m_kern m" using console_ioctl_kernel[of cmd b "m_tty m" r s t] by simp
    then have "in_order fuel (m\<lparr>m_tty := t\<rparr>)" using assms by (simp add: in_order_def)
    then show "yields (after fuel) (do { m2 \<leftarrow> (if cmd = TCGETS then user_put three (termios_bytes s) (m\<lparr>m_tty := t\<rparr>) else Some (m\<lparr>m_tty := t\<rparr>));
        Some (ret_int r, m2) })"
      by (cases "cmd = TCGETS") (auto intro!: yields_bind[OF user_put_order])
  qed
  then show "yields (after fuel) (case x of
        Done r \<Rightarrow> Some (ret_int r, m)
      | To_Char dev _ \<Rightarrow> do {
          _ \<leftarrow> is_console ct dev;
          if cmd = TCGETS \<or> cmd = TCSETS then do {
            b \<leftarrow> ram_get (unat three) 60 (memory (m_kern m));
            case console_ioctl cmd (termios_of b) (m_tty m) of (r, settings, t) \<Rightarrow> do {
              m2 \<leftarrow> (if cmd = TCGETS then user_put three (termios_bytes settings) (m\<lparr>m_tty := t\<rparr>) else Some (m\<lparr>m_tty := t\<rparr>));
              Some (ret_int r, m2) } }
          else Some (ret_int (- ENOTTY), m) })"
    using assms by (cases x) (auto intro!: yields_bindI)
qed

lemma user_put_twice_order:
  assumes "in_order fuel m" shows "yields (in_order fuel) (do { m1 \<leftarrow> user_put a bs m; user_put a' bs' m1 })"
  by (rule yields_bind[OF user_put_order[OF assms] user_put_order])

lemma stored_order: "yields (in_order fuel) x \<Longrightarrow> yields (after fuel) (do { m2 \<leftarrow> x; Some (r, m2) })"
  by (rule yields_bind) simp_all

lemma sys_stat_order: "in_order fuel m \<Longrightarrow> yields (after fuel) (sys_stat fuel' path buf m)"
  unfolding sys_stat_def
proof (rule yields_bindI, rule yields_bind[OF on_path_order], assumption, clarify)
  fix r and s :: "vmwos_stat option" and m1 assume "after fuel ((r :: int, s), m1)"
  then show "yields (after fuel) (do {
     m2 \<leftarrow> (case s of None \<Rightarrow> Some m1 | Some s \<Rightarrow> do { m2 \<leftarrow> user_put buf (stat_head s) m1; user_put (buf + 32) (stat_tail s) m2 });
     Some (ret_int r, m2) })"
    by (intro stored_order) (cases s, auto intro!: user_put_twice_order)
qed

lemma sys_statfs_order: "in_order fuel m \<Longrightarrow> yields (after fuel) (sys_statfs fuel' path buf m)"
  unfolding sys_statfs_def
proof (rule yields_bindI, rule yields_bind[OF on_path_order], assumption, clarify)
  fix r and s :: "statfs option" and m1 assume "after fuel ((r :: int, s), m1)"
  then show "yields (after fuel) (do {
     m2 \<leftarrow> (case s of None \<Rightarrow> Some m1 | Some s \<Rightarrow> user_put buf (statfs_bytes s) m1); Some (ret_int r, m2) })"
    by (intro stored_order) (cases s, auto intro!: user_put_order)
qed

lemma getdents_keeps: "keeps_fds k (\<lambda>fs. do { (r, ds, fs1) \<leftarrow> getdents_syscall fuel' fd n fs; Some ((r, ds), fs1) })"
  by (rule keeps_same, rule yields_bind[OF getdents_same]) auto

lemma sys_getdents_order: "in_order fuel m \<Longrightarrow> yields (after fuel) (sys_getdents fuel' fd buf n m)"
  unfolding sys_getdents_def
proof (rule yields_bind[OF on_files_order[OF _ getdents_keeps]], assumption, clarify)
  fix r and ds :: "dirent list" and m1 assume "after fuel ((r :: int, ds), m1)"
  then show "yields (after fuel) (do { m2 \<leftarrow> put_dirents buf ds m1; Some (ret_int r, m2) })"
    by (intro stored_order put_dirents_order) simp
qed

lemma sys_llseek_order: "in_order fuel m \<Longrightarrow> yields (after fuel) (sys_llseek fd high low res whence m)"
  unfolding sys_llseek_def Let_def
  by (rule yields_bind[OF on_files_order[OF _ keeps_same[OF llseek_same]]])
    (auto intro!: yields_bind[OF user_put_order])

lemma sys_fcntl_order: "in_order fuel m \<Longrightarrow> yields (after fuel) (sys_fcntl fd cmd third m)"
  unfolding sys_fcntl_def
  by (rule yields_bind[OF on_files_order[OF _ keeps_same[OF fcntl_same]]]) auto

lemma sys_getcwd_order: "in_order fuel m \<Longrightarrow> yields (after fuel) (sys_getcwd buf n m)"
  unfolding sys_getcwd_def by (intro yields_bindI) (auto dest!: yieldsD[OF user_put_order, rotated])

lemma files_calls_order:
  assumes "in_order fuel m"
  shows "yields (after fuel) (ret_files (open_syscall fuel' p fl) m)" "yields (after fuel) (ret_files (close_syscall fuel' fd) m)"
    "yields (after fuel) (ret_files (chdir_syscall fuel' p) m)" "yields (after fuel) (ret_files (ftruncate64_syscall fuel' fd n) m)"
  by (rule ret_files_order[OF assms], rule keeps_yields, erule open_fds)
    (rule ret_files_order[OF assms], rule keeps_yields, erule close_fds,
      (rule ret_files_order[OF assms keeps_same], rule chdir_same ftruncate_same)+)

section \<open>The calls on processes\<close>

lemma store_status_order: "in_order fuel m \<Longrightarrow> yields (in_order fuel) (store_status wstatus st m)"
  unfolding store_status_def by (auto intro!: user_put_order split: option.splits)

lemma finish_wait_order: "in_order fuel m \<Longrightarrow> yields (after fuel) (finish_wait wstatus pid w m)"
  unfolding finish_wait_def by (cases w) (auto intro!: stored_order store_status_order)

lemma sys_waitpid_order:
  assumes "in_order fuel m" "calls m"
  shows "yields (after fuel) (sys_waitpid fuel pid wstatus options m)"
proof -
  obtain idle T Wf where s: "system (m_kern m) idle T Wf" "ready (m_kern m) (current (m_kern m))" "current (m_kern m) \<noteq> idle"
    "length (procs (m_kern m)) < fuel" by (rule caller) (use assms in \<open>simp_all add: in_order_def calls_def\<close>)
  show ?thesis unfolding sys_waitpid_def
  proof (rule yields_bind[OF waitpid_system[OF s]], clarify)
    fix w k assume "sys_ok fuel k"
    then show "yields (after fuel) (finish_wait wstatus (sint pid) w (set_kern k m))" by (rule finish_wait_order[OF in_order_simps(1)[THEN iffD2]])
  qed
qed

lemma sys_exit_order:
  assumes "in_order fuel m" "calls m"
  shows "yields (after fuel) (sys_exit fuel status m)"
proof -
  obtain idle T Wf where s: "system (m_kern m) idle T Wf" "ready (m_kern m) (current (m_kern m))" "current (m_kern m) \<noteq> idle"
    "length (procs (m_kern m)) < fuel" by (rule caller) (use assms in \<open>simp_all add: in_order_def calls_def\<close>)
  then show ?thesis unfolding sys_exit_def using exit_system[OF s, of "sint status"] by auto
qed

lemma sys_vfork_order:
  assumes "in_order fuel m" "calls m"
  shows "yields (after fuel) (sys_vfork fuel m)"
proof -
  obtain idle T Wf where s: "system (m_kern m) idle T Wf" "ready (m_kern m) (current (m_kern m))" "current (m_kern m) \<noteq> idle"
    "length (procs (m_kern m)) < fuel" by (rule caller) (use assms in \<open>simp_all add: in_order_def calls_def\<close>)
  show ?thesis unfolding sys_vfork_def by (rule yields_bind[OF vfork_system[OF s]]) auto
qed

lemma nanosleep_round_order:
  assumes "sys_ok fuel k" "proc_first k \<noteq> Some (current k)"
  shows "yields (\<lambda>(n, c', k'). sys_ok fuel k') (nanosleep_round fuel t (c, k))"
proof -
  obtain idle T Wf where s: "system k idle T Wf" "ready k (current k)" "current k \<noteq> idle" "length (procs k) < fuel"
    by (rule caller[OF assms])
  show ?thesis using sleep_system[OF s, of Timer_Queue] assms(1) by (auto simp: nanosleep_round_def timer_sleep_until_def)
qed

lemma sys_nanosleep_order:
  assumes "in_order fuel m" "calls m"
  shows "yields (after fuel) (sys_nanosleep fuel req m)"
  unfolding sys_nanosleep_def nanosleep_def prod.case
  by (rule yields_bindI, rule yields_bindI, rule yields_bind[OF nanosleep_round_order])
    (use assms in \<open>auto simp: in_order_def calls_def split: nap.splits\<close>)

text \<open>A process outside the queues becomes ready.\<close>

lemma made_ready:
  assumes "system k idle T Wf" "\<And>q. i \<notin> set (Wf q)" "upd i (p_status_update (\<lambda>_. Ready)) k = Some k'"
  shows "system k' idle T Wf"
proof -
  note d = systemD[OF assms(1)] and qd = queuesD[OF systemD(5)[OF assms(1)]]
  from upd_result[OF assms(3)] have i: "i < length (procs k)"
    and k': "k' = k\<lparr>procs := (procs k)[i := p_status_update (\<lambda>_. Ready) (procs k ! i)]\<rparr>" by simp_all
  have nth: "procs k' ! j = (if j = i then p_status_update (\<lambda>_. Ready) (procs k ! i) else procs k ! j)" if "j < length (procs k)" for j
    using that i k' by (simp add: nth_list_update)
  have "same_core k k'" using i by (auto simp: k' same_core_def nth_list_update)
  moreover have "queues k' Wf"
  proof (rule queuesI[OF d(5)])
    fix q j assume j: "j \<in> set (Wf q)"
    then have "j \<noteq> i" using assms(2) by blast
    then show "p_wait_next (procs k' ! j) = p_wait_next (procs k ! j) \<and> p_valid (procs k' ! j) \<and> p_status (procs k' ! j) = Sleeping"
      using nth qd(2)[OF j] by simp
  qed (use qd(4) i in \<open>auto simp: k' nth_list_update\<close>)
  ultimately show ?thesis
    by (intro system_core[OF assms(1)]) (use nth[OF d(7)] d(3) in \<open>auto simp: k' ready_def\<close>)
qed

lemma sys_malloc_order: "in_order fuel m \<Longrightarrow> yields (after fuel) (sys_malloc n m)"
  unfolding sys_malloc_def by (intro yields_intros) (simp add: in_order_def)

text \<open>The parent that \<open>execve\<close> makes ready: it waits in no queue.  A parent asleep in \<open>vfork\<close> does not.\<close>

definition parent_unqueued :: "kern \<Rightarrow> bool" where
  "parent_unqueued k \<longleftrightarrow> (\<forall>i q W. p_parent (procs k ! current k) = Some i \<longrightarrow> waiting k q W \<longrightarrow> i \<notin> set W)"

lemma sys_execve_order:
  assumes "in_order fuel m" "parent_unqueued (m_kern m)"
  shows "yields (after fuel) (sys_execve fuel path argv m)"
  unfolding sys_execve_def
proof (intro yields_bindI yields_prod, clarify)
  fix p r k1 c parent k2 k3
  assume e: "execve fuel p (unat argv) (m_kern m) = Some (r, k1)" and c: "rd (procs k1) (current k1) = Some c" "p_parent c = Some parent"
    and k2: "upd parent (p_status_update (\<lambda>_. Ready)) k1 = Some k2" and k3: "schedule fuel k2 = Some k3"
  obtain idle T Wf where s: "system (m_kern m) idle T Wf" "length (procs (m_kern m)) < fuel"
    using assms(1) by (auto simp: in_order_def sys_ok_def)
  note x = execve_system[OF s(1) e] note d = systemD[OF s(1)]
  have "p_parent (procs (m_kern m) ! current (m_kern m)) = Some parent"
    using c x(2) d(6) by (auto simp: same_skeleton_def rd_Some_iff)
  then have "parent \<notin> set (Wf q)" for q using assms(2) queuesD(1)[OF d(5)] by (auto simp: parent_unqueued_def)
  from made_ready[OF x(1) this k2] have "system k2 idle T Wf" .
  moreover have "length (procs k2) < fuel" using s(2) x(2) upd_result[OF k2] by (auto simp: same_skeleton_def)
  ultimately show "yields (after fuel) (Some (ret_int r, set_kern k3 m))" using schedule_system k3 by fastforce
qed

section \<open>The other calls\<close>

lemma sys_hardware_order: "in_order fuel m \<Longrightarrow> yields (after fuel) (sys_hardware hw r7 r0 r1 r2 m)"
  unfolding sys_hardware_def by (cases "hw r7 r0 r1 r2") (auto intro!: stored_order user_put_order split: option.splits)

lemma uname_order: "in_order fuel m \<Longrightarrow> yields (after fuel) (uname date buf m)"
  unfolding uname_def by (intro yields_bind[OF user_put_order] yields_SomeI) simp_all

lemma getcpu_order:
  assumes "in_order fuel m" shows "yields (after fuel) (getcpu cpu node tcache m)"
  unfolding getcpu_def
  by (rule yields_bind[where Q = "in_order fuel"])
    (use assms in \<open>auto intro!: stored_order user_put_order\<close>)

lemma display_order:
  assumes "in_order fuel m"
  shows "yields (after fuel) (sys_blink depth on m)" "yields (after fuel) (on_frame_buffer f m)"
    "yields (after fuel) (sys_setfont depth font m)" "yields (after fuel) (sys_unknown depth r7 m)"
  unfolding sys_blink_def on_frame_buffer_def sys_setfont_def sys_unknown_def Let_def
  by (intro yields_intros; use assms in simp)+

lemma asking_order:
  assumes "in_order fuel m"
  shows "yields (after fuel) (times buf m)" "yields (after fuel) (sysinfo fuel' buf m)" "yields (after fuel) (sys_dmesg cmd buf m)"
    "yields (after fuel) (sys_clock_gettime buf m)" "yields (after fuel) (ret_now r m)"
  unfolding times_def sysinfo_def sys_dmesg_def sys_clock_gettime_def ret_now_def Let_def
  by (intro yields_bindI yields_prod yields_SomeI; use assms yieldsD[OF user_put_order[OF assms]] in simp)+

lemma other_calls_order:
  assumes "in_order fuel m"
  shows "yields (after fuel) (other_calls depth fuel b r0 r1 r2 r3 r7 m)"
  unfolding other_calls_def
  using asking_order[OF assms] display_order[OF assms] sys_hardware_order[OF assms] uname_order[OF assms] getcpu_order[OF assms]
  by (auto simp: ret_now_def intro!: yields_bindI)

section \<open>The dispatch\<close>

text \<open>
  What happens to the machine next: a system call with its registers, a call that goes on after waiting for a child, for input or for time, an interrupt
  or a fault.
\<close>

datatype machine_event =
    Sys_Call u32 u32 u32 u32 u32 u32
  | Child_Waited nat int u32
  | Input_Waited u32 nat
  | Time_Waited u32
  | Interrupt_Taken pending
  | Data_Abort u32 u32 "u32 list"
  | Prefetch_Abort u32 u32 u32
  | Undefined_Instruction u32

text \<open>
  The care the code relies on and does not look for: \<open>dup2\<close> onto an open descriptor is given an open one, and another one or one that others use too;
  \<open>execve\<close> is called while the parent waits in no queue; who goes on after waiting for a child finds it valid, that is not yet reaped by another that
  waited, or not exited.
\<close>

definition careful :: "machine_event \<Rightarrow> machine \<Rightarrow> bool" where
  "careful e m = (case e of
       Sys_Call r0 r1 r2 r3 r4 r7 \<Rightarrow>
         (if r7 = 63 then (case file_view (m_kern m) of None \<Rightarrow> True | Some fs \<Rightarrow> dup2_careful (unat r0) (unat r1) fs)
          else if r7 = 11 then parent_unqueued (m_kern m)
          else True)
     | Child_Waited proc pid wstatus \<Rightarrow> p_valid (procs (m_kern m) ! proc) \<or> p_status (procs (m_kern m) ! proc) \<noteq> Exited
     | _ \<Rightarrow> True)"

lemma dup2_order:
  assumes "in_order fuel m" "careful (Sys_Call r0 r1 r2 r3 r4 63) m"
  shows "yields (after fuel) (ret_files (dup2_syscall fuel' (unat r0) (unat r1)) m)"
proof (rule ret_files_order[OF assms(1)], rule keeps_yields, rule dup2_careful_fds, assumption)
  fix fs others assume "file_view (m_kern m) = Some fs"
  then show "dup2_careful (unat r0) (unat r1) fs" using assms(2) by (simp add: careful_def)
qed

lemma if_SomeE: "(if c then Some x else y) = Some f \<Longrightarrow> (c \<Longrightarrow> x = f \<Longrightarrow> P) \<Longrightarrow> (\<not> c \<Longrightarrow> y = Some f \<Longrightarrow> P) \<Longrightarrow> P"
  by (simp split: if_splits)

lemma file_calls_order:
  assumes "in_order fuel m" "calls m" "careful (Sys_Call r0 r1 r2 r3 r4 r7) m" "file_calls depth fuel b r0 r1 r2 r3 r4 r7 = Some f"
  shows "yields (after fuel) (f m)"
proof -
  have dup2: "r7 = 63 \<Longrightarrow> yields (after fuel) (ret_files (dup2_syscall fuel (unat r0) (unat r1)) m)"
    using dup2_order[OF assms(1)] assms(3) by simp
  note calls = sys_read_order[OF assms(1,2)] sys_write_order[OF assms(1)] sys_ioctl_order[OF assms(1)] sys_stat_order[OF assms(1)]
    sys_statfs_order[OF assms(1)] sys_getdents_order[OF assms(1)] sys_llseek_order[OF assms(1)] sys_fcntl_order[OF assms(1)]
    sys_getcwd_order[OF assms(1)] files_calls_order[OF assms(1)] ret_path_order[OF assms(1)]
  show ?thesis using assms(4) unfolding file_calls_def
    by (elim if_SomeE) (use calls dup2 in \<open>auto intro!: with_str_order\<close>)
qed

lemma process_calls_order:
  assumes "in_order fuel m" "calls m" "careful (Sys_Call r0 r1 r2 r3 r4 r7) m" "process_calls fuel r0 r1 r2 r7 = Some f"
  shows "yields (after fuel) (f m)"
proof -
  have "r7 = 11 \<Longrightarrow> parent_unqueued (m_kern m)" using assms(3) by (simp add: careful_def)
  then show ?thesis
    using assms(4) sys_exit_order[OF assms(1,2)] sys_waitpid_order[OF assms(1,2)] sys_execve_order[OF assms(1)]
      sys_nanosleep_order[OF assms(1,2)] sys_vfork_order[OF assms(1,2)] sys_malloc_order[OF assms(1)]
    by (auto simp: process_calls_def split: if_splits)
qed

lemma swi_order:
  assumes "in_order fuel m" "calls m" "careful (Sys_Call r0 r1 r2 r3 r4 r7) m"
  shows "yields (after fuel) (swi_handler_c depth fuel b r0 r1 r2 r3 r4 r7 m)"
  unfolding swi_handler_c_def
  by (intro yields_option)
    (use file_calls_order[OF assms] process_calls_order[OF assms] other_calls_order[OF assms(1)] in blast)+

section \<open>Interrupts\<close>

text \<open>Printing changes the outputs only.\<close>

lemma say_order: "in_order fuel m \<Longrightarrow> yields (in_order fuel) (say depth fmt ap m)"
  unfolding say_def by (intro yields_intros) simp

lemma say_if_order: "in_order fuel m \<Longrightarrow> yields (in_order fuel) (say_if c depth fmt ap m)"
  unfolding say_if_def by (auto intro!: say_order)

text \<open>A character on its way to the readers of the console.\<close>

definition tty_order :: "nat \<Rightarrow> tty \<Rightarrow> bool" where
  "tty_order fuel t = sys_ok fuel (kernel t)"

lemma tty_order_simps [simp]: "tty_order fuel (t\<lparr>outs := o1\<rparr>) = tty_order fuel t" "tty_order fuel (t\<lparr>canon_offset := n\<rparr>) = tty_order fuel t"
  "tty_order fuel (t\<lparr>canon_buffer := bs\<rparr>) = tty_order fuel t" "tty_order fuel (t\<lparr>scheduling_enabled := e\<rparr>) = tty_order fuel t"
  "tty_order fuel (t\<lparr>input_buffer := bs\<rparr>) = tty_order fuel t" "tty_order fuel (t\<lparr>input_buffer_head := n\<rparr>) = tty_order fuel t"
  by (simp_all add: tty_order_def)

lemma wake_console_order:
  assumes "tty_order fuel t" shows "yields (tty_order fuel) (wake_console fuel t)"
  unfolding wake_console_def
proof (intro yields_bindI yields_prod, clarify)
  fix r k assume "wait_queue_wake fuel Console_Queue (kernel t) = Some (r, k)"
  from wake_ok[OF _ this] assms show "yields (tty_order fuel) (Some (t\<lparr>kernel := k\<rparr>))" by (simp add: tty_order_def)
qed

lemma insert_char_order: "tty_order fuel t \<Longrightarrow> yields (\<lambda>(r, t'). tty_order fuel t') (console_actual_insert_char fuel ch e t)"
  unfolding console_actual_insert_char_def Let_def
  by (intro yields_if yields_SomeI yields_bindI yields_intros) (auto dest!: yieldsD[OF wake_console_order, rotated])

lemma insert_all_order: "tty_order fuel t \<Longrightarrow> yields (tty_order fuel) (insert_all fuel cs t)"
proof (induction cs arbitrary: t)
  case (Cons c cs)
  show ?case unfolding insert_all.simps by (rule yields_bind[OF insert_char_order[OF Cons.prems]]) (auto intro: Cons.IH)
qed simp

lemma canon_finish_order:
  assumes "tty_order fuel t" shows "yields (tty_order fuel) (canon_finish fuel t)"
  unfolding canon_finish_def
proof (rule yields_bindI, rule yields_bind[OF insert_all_order[OF assms]])
  fix t1 assume "tty_order fuel t1"
  then show "yields (tty_order fuel) (do {
    t2 \<leftarrow> (if canon_offset t1 = 0 then do { (_, t2) \<leftarrow> console_actual_insert_char fuel 0 True t1; Some t2 } else Some t1);
    Some (t2\<lparr>canon_offset := 0\<rparr>) })"
    by (intro yields_bind[where Q = "tty_order fuel"]) (auto intro!: yields_bind[OF insert_char_order])
qed

lemma echo_order: "tty_order fuel t \<Longrightarrow> yields (tty_order fuel) (echo depth cs t)"
  unfolding echo_def by (intro yields_intros) simp

lemma canonical_order:
  assumes "tty_order fuel t" shows "yields (\<lambda>(r, t'). tty_order fuel t') (console_canonical_read depth fuel ch t)"
  unfolding console_canonical_read_def Let_def
  by (intro yields_intros)
    (use assms in \<open>auto split: if_splits dest!: yieldsD[OF canon_finish_order, rotated] yieldsD[OF echo_order, rotated]\<close>)

lemma console_insert_order: "tty_order fuel t \<Longrightarrow> yields (\<lambda>(r, t'). tty_order fuel t') (console_insert_char depth fuel ch t)"
  unfolding console_insert_char_def Let_def
  by (intro yields_if canonical_order yields_SomeI yields_bind[OF insert_char_order]) auto

lemma in_order_tty: "in_order fuel m = tty_order fuel (m_tty m)"
  by (simp add: in_order_def tty_order_def)

lemma uart_order: "tty_order fuel t \<Longrightarrow> yields (tty_order fuel) (uart_interrupt_handler depth fuel cs t)"
proof (induction cs arbitrary: t)
  case (Cons c cs)
  show ?case unfolding uart_interrupt_handler.simps by (rule yields_bind[OF console_insert_order[OF Cons.prems]]) (auto intro: Cons.IH)
qed simp

lemma translate_key_order: "tty_order fuel t \<Longrightarrow> yields (\<lambda>(kb', t'). tty_order fuel t') (translate_key depth fuel key down (kb, t))"
  unfolding translate_key_def Let_def prod.case
  by (intro yields_bindI yields_if yields_SomeI yields_prod) (auto dest!: yieldsD[OF console_insert_order, rotated])

lemma ps2_key_order: "tty_order fuel t \<Longrightarrow> yields (\<lambda>(kb', t'). tty_order fuel t') (ps2_key depth fuel key (kb, t))"
  unfolding ps2_key_def Let_def prod.case
  by (intro yields_intros) (auto dest!: yieldsD[OF translate_key_order, rotated])

lemma complain_order: "tty_order fuel t \<Longrightarrow> yields (tty_order fuel) (complain depth c fmt ap t)"
  unfolding complain_def by (intro yields_intros) simp_all

lemma ps2_order: "tty_order fuel t \<Longrightarrow> yields (\<lambda>(kb', t'). tty_order fuel t') (ps2_interrupt_handler depth fuel data (kb, t))"
  unfolding ps2_interrupt_handler_def Let_def prod.case
  by (intro yields_if yields_SomeI yields_bind[OF complain_order] ps2_key_order) simp_all

lemma device_order:
  assumes "in_order fuel m"
  shows "yields (in_order fuel) (serial_interrupt_handler depth fuel cs m)" "yields (in_order fuel) (keyboard_interrupt depth fuel data m)"
proof -
  have t: "tty_order fuel (m_tty m)" using assms by (simp add: in_order_tty)
  show "yields (in_order fuel) (serial_interrupt_handler depth fuel cs m)"
    unfolding serial_interrupt_handler_def by (rule yields_bind[OF uart_order[OF t]]) (simp add: in_order_tty)
  show "yields (in_order fuel) (keyboard_interrupt depth fuel data m)"
    unfolding keyboard_interrupt_def by (rule yields_bind[OF ps2_order[OF t]]) (auto simp: in_order_tty)
qed

lemma timer_handler_order:
  assumes "sys_ok fuel k" shows "yields (\<lambda>(c', k'). sys_ok fuel k') (timer_interrupt_handler fuel (c, k))"
proof -
  let ?k = "k\<lparr>tick_counter := tick_counter k + 1\<rparr>"
  have "sys_ok fuel k'" if "wait_queue_wake fuel Timer_Queue ?k = Some (r, k')" for r k'
    using wake_ok[OF sys_ok_tick[OF assms] that] .
  then show ?thesis unfolding timer_interrupt_handler_def Let_def prod.case
    by (intro yields_bindI yields_prod yields_SomeI) (auto simp: sys_ok_tick[OF assms] split: if_splits bind_splits)
qed

lemma timer_order:
  assumes "in_order fuel m" shows "yields (in_order fuel) (timer_interrupt fuel m)"
  unfolding timer_interrupt_def Let_def
proof (rule yields_bind[OF timer_handler_order[OF assms[unfolded in_order_def]]], clarify)
  fix c k assume k: "sys_ok fuel k"
  have "sys_ok fuel k1" if "schedule fuel k = Some k1" for k1 using schedule_ok[OF k that] .
  then show "yields (in_order fuel) (if scheduling_enabled (m_tty ((set_kern k m)\<lparr>m_clock := c\<rparr>))
     then do { k1 \<leftarrow> schedule fuel k; Some (set_kern k1 ((set_kern k m)\<lparr>m_clock := c\<rparr>)) } else Some ((set_kern k m)\<lparr>m_clock := c\<rparr>))"
    using k by (intro yields_intros) simp_all
qed

lemma run_if_order: "in_order fuel m \<Longrightarrow> yields (in_order fuel) (f m) \<Longrightarrow> yields (in_order fuel) (run_if c f m)"
  by (simp add: run_if_def)

lemma sources_order:
  assumes "in_order fuel m"
  shows "yields (\<lambda>(h, m'). in_order fuel m') (pi4_sources depth fuel p m)" "yields (\<lambda>(h, m'). in_order fuel m') (pi_sources depth fuel p m)"
proof -
  have uart: "yields (in_order fuel) (run_if c (serial_interrupt_handler depth fuel cs) m)" for c cs
    by (rule run_if_order[OF assms]) (rule device_order(1)[OF assms])
  have kbd: "yields (in_order fuel) (run_if c (keyboard_interrupt depth fuel data) m)" if "in_order fuel m" for c data m
    by (rule run_if_order[OF that]) (rule device_order(2)[OF that])
  show "yields (\<lambda>(h, m'). in_order fuel m') (pi4_sources depth fuel p m)"
    unfolding pi4_sources_def Let_def by (rule yields_bind[OF uart], rule yields_bind[OF kbd], assumption, simp)
  show "yields (\<lambda>(h, m'). in_order fuel m') (pi_sources depth fuel p m)"
    unfolding pi_sources_def Let_def
    by (rule yields_bind[OF uart], rule yields_bind[OF say_if_order], assumption, rule yields_bind[OF say_if_order], assumption,
        rule yields_bind[OF kbd], assumption, rule yields_bind[OF say_if_order], assumption, simp)
qed

lemma interrupt_order:
  assumes "in_order fuel m" shows "yields (in_order fuel) (interrupt_handler_c depth fuel p m)"
  unfolding interrupt_handler_c_def
proof (rule yields_bind[where Q = "\<lambda>(h, m'). in_order fuel m'"], use sources_order[OF assms] in simp, clarify)
  fix h t m1 assume m1: "in_order fuel m1"
  show "yields (in_order fuel) (if pi4 p \<and> \<not> h then say depth unknown_happened [VLong (pending0 p), VLong (pending1 p), VLong (pending2 p)] m1
     else do { m2 \<leftarrow> say_if (\<not> h) depth unknown_interrupt [] m1; run_if t (timer_interrupt fuel) m2 })"
    by (intro yields_if say_order[OF m1] yields_bind[OF say_if_order[OF m1]] run_if_order timer_order)
qed

lemma dump_rows_order: "in_order fuel m \<Longrightarrow> yields (in_order fuel) (dump_rows depth regs is m)"
proof (induction "is" arbitrary: m)
  case (Cons i "is")
  show ?case unfolding dump_rows.simps
    by (rule yields_bindI, rule yields_bindI, rule yields_bind[OF say_order[OF Cons.prems]], rule yields_bind[OF say_order]) (auto intro: Cons.IH)
qed simp

text \<open>A step of the process running that keeps the caller's place.\<close>

lemma say_calls: "say depth fmt ap m = Some m' \<Longrightarrow> calls m' = calls m"
  by (auto simp: say_def calls_def split: bind_splits)

lemma say_if_calls: "say_if c depth fmt ap m = Some m' \<Longrightarrow> calls m' = calls m"
  by (auto simp: say_if_def dest: say_calls split: if_splits)

lemma dump_rows_calls: "dump_rows depth regs is m = Some m' \<Longrightarrow> calls m' = calls m"
  by (induction "is" arbitrary: m) (auto dest!: say_calls split: bind_splits)

lemma fault_exit_order: "in_order fuel m \<Longrightarrow> calls m \<Longrightarrow> yields (in_order fuel) (fault_exit fuel m)"
  unfolding fault_exit_def in_order_def calls_def
  by (intro yields_bindI) (auto dest: exit_ok)

lemma both: "yields P x \<Longrightarrow> yields Q x \<Longrightarrow> yields (\<lambda>y. P y \<and> Q y) x"
  by (simp add: yields_def)

lemma fault_order:
  assumes "in_order fuel m" "calls m"
  shows "yields (in_order fuel) (data_abort_handler_c depth fuel fsr far regs m)"
    "yields (in_order fuel) (prefetch_abort_handler depth fuel fsr far lr m)"
proof -
  let ?P = "\<lambda>m. in_order fuel m \<and> calls m"
  have s: "yields ?P (say depth fmt ap m)" "yields ?P (say_if c depth fmt ap m)" "yields ?P (dump_rows depth regs is m)" if "?P m" for m c fmt ap "is"
  proof -
    have m: "in_order fuel m" "calls m" using that by simp_all
    show "yields ?P (say depth fmt ap m)" "yields ?P (say_if c depth fmt ap m)" "yields ?P (dump_rows depth regs is m)"
      using m(2) by (intro both say_order[OF m(1)] say_if_order[OF m(1)] dump_rows_order[OF m(1)];
        auto intro!: yieldsI dest: say_calls say_if_calls dump_rows_calls)+
  qed
  have d: "yields ?P (user_reg_dump depth regs m)" if "?P m" for m
    unfolding user_reg_dump_def by (rule yields_bindI, rule yields_bind[OF s(1)[OF that]], rule s(3))
  have e: "yields (in_order fuel) (fault_exit fuel m)" if "?P m" for m using that fault_exit_order by blast
  have m: "?P m" using assms by simp
  show "yields (in_order fuel) (data_abort_handler_c depth fuel fsr far regs m)"
    unfolding data_abort_handler_c_def Let_def
    by (rule yields_bindI, rule yields_bindI, rule yields_bind[OF s(1)[OF m]], rule yields_bind[OF s(2)], assumption,
        rule yields_bind[OF s(2)], assumption, rule yields_bind[OF s(2)], assumption, rule yields_bind[OF d], assumption, rule e)
  show "yields (in_order fuel) (prefetch_abort_handler depth fuel fsr far lr m)"
    unfolding prefetch_abort_handler_def Let_def
    by (rule yields_bind[OF s(1)[OF m]], rule yields_bind[OF s(2)], assumption, rule yields_bind[OF s(2)], assumption, rule e)
qed

lemma undef_order: "in_order fuel m \<Longrightarrow> yields (in_order fuel) (undef_handler depth lr m)"
  unfolding undef_handler_def by (rule yields_bindI, rule say_order)

section \<open>Going on\<close>

lemma resume_child_order:
  assumes "in_order fuel m" "calls m" "careful (Child_Waited proc pid wstatus) m"
  shows "yields (after fuel) (resume_child fuel proc pid wstatus m)"
  unfolding resume_child_def
proof (intro yields_bindI yields_prod, clarify)
  fix w k assume "waitpid_wait fuel pid proc (m_kern m) = Some (w, k)"
  from wait_ok[OF _ _ this] have "sys_ok fuel k" using assms by (simp add: in_order_def calls_def careful_def)
  then show "yields (after fuel) (finish_wait wstatus pid w (set_kern k m))" by (intro finish_wait_order) simp
qed

lemma resume_input_order: "in_order fuel m \<Longrightarrow> yields (after fuel) (resume_input buf n m)"
  unfolding resume_input_def
  by (intro yields_bindI yields_prod finish_read_order) (auto simp: in_order_def dest!: console_take_kernel)

lemma resume_timer_order:
  assumes "in_order fuel m" "calls m" shows "yields (after fuel) (resume_timer fuel t m)"
  unfolding resume_timer_def
  by (rule yields_bind[OF nanosleep_round_order]) (use assms in \<open>auto simp: in_order_def calls_def\<close>)

section \<open>The steps of the machine\<close>

text \<open>
  A step is what the code does at an event, where that is defined: a call that reads through a null pointer, such as \<open>waitpid\<close> for a number no process
  has, is no step.  The idle task gives up the processor and waits for interrupts: it makes no calls and meets no faults.
\<close>

inductive machine_step :: "nat \<Rightarrow> nat \<Rightarrow> build \<Rightarrow> machine_event \<Rightarrow> machine \<Rightarrow> machine \<Rightarrow> bool" for depth fuel b where
  step_call: "calls m \<Longrightarrow> swi_handler_c depth fuel b r0 r1 r2 r3 r4 r7 m = Some (r, m') \<Longrightarrow>
    machine_step depth fuel b (Sys_Call r0 r1 r2 r3 r4 r7) m m'"
| step_child: "calls m \<Longrightarrow> resume_child fuel proc pid wstatus m = Some (r, m') \<Longrightarrow>
    machine_step depth fuel b (Child_Waited proc pid wstatus) m m'"
| step_input: "resume_input buf n m = Some (r, m') \<Longrightarrow> machine_step depth fuel b (Input_Waited buf n) m m'"
| step_time: "calls m \<Longrightarrow> resume_timer fuel t m = Some (r, m') \<Longrightarrow> machine_step depth fuel b (Time_Waited t) m m'"
| step_interrupt: "interrupt_handler_c depth fuel p m = Some m' \<Longrightarrow> machine_step depth fuel b (Interrupt_Taken p) m m'"
| step_abort: "calls m \<Longrightarrow> data_abort_handler_c depth fuel fsr far regs m = Some m' \<Longrightarrow>
    machine_step depth fuel b (Data_Abort fsr far regs) m m'"
| step_prefetch: "calls m \<Longrightarrow> prefetch_abort_handler depth fuel fsr far lr m = Some m' \<Longrightarrow>
    machine_step depth fuel b (Prefetch_Abort fsr far lr) m m'"
| step_undef: "undef_handler depth lr m = Some m' \<Longrightarrow> machine_step depth fuel b (Undefined_Instruction lr) m m'"

inductive_cases call_stepE: "machine_step depth fuel b (Sys_Call r0 r1 r2 r3 r4 r7) m m'"

text \<open>The states reached by events that are handled with care.\<close>

inductive careful_run :: "nat \<Rightarrow> nat \<Rightarrow> build \<Rightarrow> machine \<Rightarrow> machine \<Rightarrow> bool" for depth fuel b where
  run_stop: "careful_run depth fuel b m m"
| run_step: "careful_run depth fuel b m m1 \<Longrightarrow> careful e m1 \<Longrightarrow> machine_step depth fuel b e m1 m2 \<Longrightarrow> careful_run depth fuel b m m2"

lemma machine_step_order:
  assumes "machine_step depth fuel b e m m'" "careful e m" "in_order fuel m"
  shows "in_order fuel m'"
  using assms(1)
proof cases
  case (step_call r0 r1 r2 r3 r4 r7 r)
  with assms(2) have "careful (Sys_Call r0 r1 r2 r3 r4 r7) m" by simp
  from yieldsD[OF swi_order[OF assms(3) _ this]] step_call show ?thesis by fastforce
next
  case (step_child proc pid wstatus r)
  with assms(2) have "careful (Child_Waited proc pid wstatus) m" by simp
  from yieldsD[OF resume_child_order[OF assms(3) _ this]] step_child show ?thesis by fastforce
next
  case (step_input buf n r)
  with yieldsD[OF resume_input_order[OF assms(3)]] show ?thesis by fastforce
next
  case (step_time t r)
  with yieldsD[OF resume_timer_order[OF assms(3)]] show ?thesis by fastforce
next
  case (step_interrupt p)
  with yieldsD[OF interrupt_order[OF assms(3)]] show ?thesis by blast
next
  case (step_abort fsr far regs)
  with yieldsD[OF fault_order(1)[OF assms(3)]] show ?thesis by blast
next
  case (step_prefetch fsr far lr)
  with yieldsD[OF fault_order(2)[OF assms(3)]] show ?thesis by blast
next
  case (step_undef lr)
  with yieldsD[OF undef_order[OF assms(3)]] show ?thesis by blast
qed

lemma careful_run_order: "careful_run depth fuel b m m' \<Longrightarrow> in_order fuel m \<Longrightarrow> in_order fuel m'"
  by (induction rule: careful_run.induct) (auto intro: machine_step_order)

section \<open>The properties\<close>

text \<open>
  C1: Whatever system calls the processes make, and however they are interleaved with interrupts, faults and calls that go on after waiting,
  the process list holds exactly the valid processes, a valid ready process runs, every queue holds sleeping processes, and each descriptor of
  each valid process refers to a file object in use, as long as three things that the code does not test are seen to (\<open>careful\<close>):
  \<open>dup2\<close> onto an open descriptor is given an open descriptor, and another one or one whose file object others use; \<open>execve\<close> is called while the
  parent waits in no queue; and a child that has exited is not waited for by two, of which the second would reap it again.  Without the first or
  the second the order is lost (\<open>careless_call_breaks_order\<close>), without the third the files of the child are closed twice (\<open>second_waiter_frees_again\<close>).
\<close>

theorem machine_safe:
  assumes "careful_run depth fuel b m m'" and "sys_ok fuel (m_kern m)"
  shows "sys_ok fuel (m_kern m') \<and> ready (m_kern m') (current (m_kern m')) \<and> p_valid (procs (m_kern m') ! current (m_kern m'))
    \<and> (\<exists>L Wf. proc_list (m_kern m') L \<and> queues (m_kern m') Wf)
    \<and> (\<forall>p j. p \<in> set (procs (m_kern m')) \<and> p_valid p \<and> Some j \<in> set (p_files p) \<longrightarrow>
        j < length (file_objects (files (m_kern m'))) \<and> file_count (file_objects (files (m_kern m')) ! j) \<noteq> 0)"
proof -
  have ok: "sys_ok fuel (m_kern m')" using careful_run_order[OF assms(1)] assms(2) by (simp add: in_order_def)
  then obtain idle T Wf where s: "system (m_kern m') idle T Wf" "ready (m_kern m') (current (m_kern m'))" by (auto simp: sys_ok_def)
  note d = systemD[OF s(1)]
  show ?thesis using ok s(2) d sys_files_valid[OF d(4)] by blast
qed

definition demo_machine :: machine where
  "demo_machine = \<lparr>m_tty = demo_tty, m_clock = demo_clock, m_kb = idle_kb\<rparr>"

definition demo_build :: build where
  "demo_build = \<lparr>b_hw = \<lambda>_ _ _ _. (0, None), b_chars = \<lparr>char_devs = [], num_char_devs = 0\<rparr>, b_font = [], b_date = [0]\<rparr>"

lemma demo_machine_kern [simp]: "m_kern demo_machine = demo_kern"
  by (simp add: m_kern_def demo_machine_def demo_tty_def)

lemma demo_machine_calls: "calls demo_machine"
  by (simp add: calls_def demo_current)

lemma machine_safe_witness:
  "\<exists>m'. swi_handler_c 1 5 demo_build 0 0 0 0 0 190 demo_machine = Some (Result 2, m') \<and> sys_ok 5 (m_kern m')"
proof -
  have "vfork 5 demo_kern \<noteq> None" by code_simp
  then obtain r k' where v: "vfork 5 demo_kern = Some (r, k')" by auto
  moreover have "r = 2" using vfork_system[OF demo_system, of 5] v by (simp add: demo_current)
  ultimately have c: "swi_handler_c 1 5 demo_build 0 0 0 0 0 190 demo_machine = Some (Result 2, set_kern k' demo_machine)"
    by (simp add: swi_handler_c_def file_calls_def process_calls_def sys_vfork_def ret_int_def)
  have "machine_step 1 5 demo_build (Sys_Call 0 0 0 0 0 190) demo_machine (set_kern k' demo_machine)"
    by (rule step_call[OF demo_machine_calls c])
  moreover have "careful (Sys_Call 0 0 0 0 0 190) demo_machine" by (simp add: careful_def)
  ultimately have "careful_run 1 5 demo_build demo_machine (set_kern k' demo_machine)" by (blast intro: run_stop run_step)
  from machine_safe[OF this] have "sys_ok 5 (m_kern (set_kern k' demo_machine))" using demo_ok by simp
  then show ?thesis using c by blast
qed

text \<open>A queue whose first process and links stay is the same queue.\<close>

lemma waiting_unique: "waiting k q W \<Longrightarrow> waiting k q V \<Longrightarrow> W = V"
  unfolding waiting_def using seg_unique by blast

lemma waiting_frame:
  assumes "waiting k q W" "length (procs k') = length (procs k)" "wait_first k' = wait_first k"
    and "\<And>i. i < length (procs k) \<Longrightarrow> p_wait_next (procs k' ! i) = p_wait_next (procs k ! i)"
  shows "waiting k' q W"
  using assms seg_cong[of W "\<lambda>i. p_wait_next (procs k' ! i)" "\<lambda>i. p_wait_next (procs k ! i)"] by (simp add: waiting_def)

lemma schedule_frame:
  assumes "schedule fuel k = Some k'"
  shows "length (procs k') = length (procs k) \<and> wait_first k' = wait_first k
    \<and> (\<forall>i < length (procs k). p_wait_next (procs k' ! i) = p_wait_next (procs k ! i) \<and> p_status (procs k' ! i) = p_status (procs k ! i))"
proof -
  have u: "length (procs k2) = length (procs k1) \<and> wait_first k2 = wait_first k1
      \<and> (\<forall>i < length (procs k1). p_wait_next (procs k2 ! i) = p_wait_next (procs k1 ! i) \<and> p_status (procs k2 ! i) = p_status (procs k1 ! i))"
    if "upd j f k1 = Some k2" "\<And>p. p_wait_next (f p) = p_wait_next p" "\<And>p. p_status (f p) = p_status p" for j f k1 k2
    using upd_result[OF that(1)] that(2,3) by (auto simp: nth_list_update)
  show ?thesis using assms unfolding schedule_def Let_def
    by (auto split: if_splits bind_splits dest!: u)
qed

text \<open>\<open>execve\<close> makes the parent ready; a parent that waits in a queue stays in it.\<close>

lemma queued_parent_breaks:
  assumes "sys_ok fuel (m_kern m)" "\<not> parent_unqueued (m_kern m)" "sys_execve fuel path argv m = Some (r, m')"
  shows "\<not> sys_ok fuel (m_kern m')"
proof
  assume ok: "sys_ok fuel (m_kern m')"
  let ?k = "m_kern m"
  obtain i q W where w: "p_parent (procs ?k ! current ?k) = Some i" "waiting ?k q W" "i \<in> set W"
    using assms(2) by (auto simp: parent_unqueued_def)
  obtain p r' k1 c j k2 k3 where e: "execve fuel p (unat argv) ?k = Some (r', k1)" "rd (procs k1) (current k1) = Some c" "p_parent c = Some j"
    "upd j (p_status_update (\<lambda>_. Ready)) k1 = Some k2" "schedule fuel k2 = Some k3" "m' = set_kern k3 m"
    using assms(3) by (auto simp: sys_execve_def bind_eq_Some_conv)
  obtain idle T Wf where s: "system ?k idle T Wf" using assms(1) by (auto simp: sys_ok_def)
  note sk = execve_system(2)[OF s e(1), unfolded same_skeleton_def] and d = systemD[OF s]
  have j: "j = i" using e(2,3) w(1) sk d(6) by (auto simp: rd_Some_iff)
  note u = upd_result[OF e(4)] and f = schedule_frame[OF e(5)]
  have i: "i < length (procs ?k)" using w(2,3) by (simp add: waiting_def)
  have "waiting k1 q W" by (rule waiting_frame[OF w(2)]) (use sk in auto)
  then have "waiting k2 q W" by (rule waiting_frame) (use u in \<open>auto simp: nth_list_update\<close>)
  then have 3: "waiting k3 q W" by (rule waiting_frame) (use f in auto)
  have "p_status (procs k3 ! i) = Ready" using f u i sk j by auto
  moreover obtain Vf where "queues k3 Vf" using ok e(6) by (auto simp: sys_ok_def dest: systemD(5))
  then have "i \<in> set (Vf q)" "waiting k3 q (Vf q)" using waiting_unique[OF 3] queuesD(1) w(3) by auto
  then have "p_status (procs k3 ! i) = Sleeping" using queuesD(2)[OF \<open>queues k3 Vf\<close>] by blast
  ultimately show False by simp
qed

text \<open>The count of every file object is the number of descriptors of valid processes that refer to it.\<close>

definition exact_counts :: "kern \<Rightarrow> bool" where
  "exact_counts k \<longleftrightarrow> (\<forall>j < length (file_objects (files k)).
     file_count (file_objects (files k) ! j) = count_list (all_fds (procs k)) (Some j))"

lemma careless_dup2_breaks:
  assumes "sys_ok fuel (m_kern m)" "exact_counts (m_kern m)" "file_view (m_kern m) = Some fs" "\<not> dup2_careful oldfd newfd fs"
    and "ret_files (dup2_syscall fuel' oldfd newfd) m = Some (r, m')"
  shows "\<not> sys_ok fuel (m_kern m')"
proof
  assume ok: "sys_ok fuel (m_kern m')"
  let ?k = "m_kern m"
  obtain idle T Wf where s: "system ?k idle T Wf" using assms(1) by (auto simp: sys_ok_def)
  note d = systemD[OF s]
  have fw: "fds_with (other_fds (current ?k) (procs ?k)) fs" using file_view_sys[OF d(4,6,9)] assms(3) by auto
  obtain r' fs' k' where f: "dup2_syscall fuel' oldfd newfd fs = Some (r', fs')" "store_files fs' ?k = Some k'" "m' = set_kern k' m"
    using assms(3,5) by (auto simp: ret_files_def on_files_def bind_eq_Some_conv)
  obtain j where j: "Some j \<in> set (k_fds fs)" "j < length (file_objects fs)" "k_fds fs' = k_fds fs"
    "map file_count (file_objects fs') = (map file_count (file_objects fs))[j := file_count (file_objects fs ! j) - 1]"
    using dup2_careless[OF fw assms(4) f(1)] by blast
  have v: "k_fds fs = p_files (procs ?k ! current ?k)" "file_objects fs = file_objects (files ?k)"
    using assms(3) d(6) by (auto simp: file_view_def rd_Some_iff split: bind_splits)
  have k': "files k' = fs'" "map p_files (procs k') = map p_files (procs ?k)" "map p_valid (procs k') = map p_valid (procs ?k)"
    using f(2) d(6) j(3) v(1) by (auto simp: store_files_def upd_def rd_Some_iff map_update list_update_same_conv)
  have "all_fds ps = concat (map snd (filter fst (zip (map p_valid ps) (map p_files ps))))" for ps
    by (induction ps) (simp_all add: all_fds_def)
  then have a: "all_fds (procs k') = all_fds (procs ?k)" using k'(2,3) by simp
  have mem: "Some j \<in> set (all_fds (procs ?k))" using j(1) v(1) d(6,9) by (auto simp: all_fds_def intro!: exI[of _ "procs ?k ! current ?k"])
  then have "count_list (all_fds (procs ?k)) (Some j) \<noteq> 0" by (simp add: count_list_0_iff)
  moreover have "count_list (all_fds (procs ?k)) (Some j) = file_count (file_objects fs ! j)"
    using assms(2) j(2) by (simp add: exact_counts_def v(2))
  moreover have "sys_files k'" using ok f(3) by (auto simp: sys_ok_def dest: systemD(4))
  then have "count_list (all_fds (procs k')) (Some j) \<le> map file_count (file_objects fs') ! j"
    using mem unfolding sys_files_def refs_ok_def a k'(1) by auto
  ultimately show False unfolding a j(4) using j(2) by simp
qed



text \<open>The timer interrupt, whether it wakes the sleepers or not.\<close>

lemma timer_handler_system:
  assumes "system k idle T Wf" "length (procs k) < fuel" "proc_list k L"
  shows "\<exists>c' k' Wf'. timer_interrupt_handler fuel (c, k) = Some (c', k') \<and> system k' idle T Wf' \<and> proc_list k' L \<and> current k' = current k
    \<and> length (procs k') = length (procs k) \<and> tick_counter k' = tick_counter k + 1 \<and> (\<forall>i < length (procs k). ready k i \<longrightarrow> ready k' i)"
proof -
  note d = systemD[OF assms(1)]
  let ?k = "k\<lparr>tick_counter := tick_counter k + 1\<rparr>"
  have "queues ?k Wf" by (rule queuesI[OF d(5)]) (use queuesD[OF d(5)] in auto)
  then have s: "system ?k idle T Wf" by (intro system_core[OF assms(1)]) (use d(3) in \<open>simp_all add: same_core_def ready_def\<close>)
  have l: "proc_list ?k L" by (rule same_core_list[OF _ assms(3)]) (simp add: same_core_def)
  obtain k2 where w: "wait_queue_wake fuel Timer_Queue ?k = Some (0, k2)" "system k2 idle T (Wf(Timer_Queue := []))" "same_core ?k k2"
    "current k2 = current k" "\<forall>i < length (procs k). p_status (procs k2 ! i) = (if i \<in> set (Wf Timer_Queue) then Ready else p_status (procs k ! i))"
    using wake_system[OF s, of fuel Timer_Queue] assms(2) by auto
  have W: "waiting ?k Timer_Queue (Wf Timer_Queue)" using queuesD(1)[OF systemD(5)[OF s]] .
  have "tick_counter k2 = tick_counter k + 1"
    using wait_queue_wake_eq[OF W, of fuel] waiting_bound[OF W] w(1) assms(2) by (auto simp: woken_def)
  moreover have "proc_list k2 L" by (rule same_core_list[OF w(3) l])
  moreover have "length (procs k2) = length (procs k)" using w(3) by (simp add: same_core_def)
  ultimately show ?thesis
    using s l w(1,2,4,5) by (cases "timer_next_wakeup c \<noteq> 0 \<and> tick_counter k + 1 > timer_next_wakeup c")
      (fastforce simp: timer_interrupt_handler_def ready_def)+
qed

text \<open>
  C15: A timer interrupt preempts the process running: if some process other than the idle task is ready, the next one behind it in the order of
  the list runs, itself last; a process that was ready stays ready, and the clock goes on by one tick.
\<close>

theorem timer_preempts:
  assumes "system (m_kern m) idle T Wf" and "length (procs (m_kern m)) < fuel" and "proc_list (m_kern m) (idle # A @ current (m_kern m) # B)"
    and "\<not> pi4 p" and "basic_pending p = IRQ_BASIC_PENDING_TIMER" and "pending1 p = 0" and "pending2 p = 0" and "scheduling_enabled (m_tty m)"
  shows "\<exists>m'. interrupt_handler_c depth fuel p m = Some m' \<and> tick_counter (m_kern m') = tick_counter (m_kern m) + 1
    \<and> current (m_kern m') = (case find (ready (m_kern m')) (B @ A @ [current (m_kern m)]) of None \<Rightarrow> idle | Some i \<Rightarrow> i)
    \<and> (\<forall>i < length (procs (m_kern m)). ready (m_kern m) i \<longrightarrow> ready (m_kern m') i)"
proof -
  let ?c = "current (m_kern m)"
  obtain c' k' Wf' where h: "timer_interrupt_handler fuel (m_clock m, m_kern m) = Some (c', k')" "system k' idle T Wf'"
    "proc_list k' (idle # A @ ?c # B)" "current k' = ?c" "length (procs k') = length (procs (m_kern m))"
    "tick_counter k' = tick_counter (m_kern m) + 1" "\<forall>i < length (procs (m_kern m)). ready (m_kern m) i \<longrightarrow> ready k' i"
    using timer_handler_system[OF assms(1,2,3)] by blast
  let ?i = "first_ready k' idle (B @ A @ [?c])"
  have "length (A @ B) < fuel" using length_list_bound[OF h(3)] assms(2) h(5) by simp
  then have sch: "schedule fuel k' = Some (switch_to ?i k')" using schedule_eq[OF h(3)] h(4) by simp
  have i: "?i < length (procs k')"
    using find_in[of "ready k'" "B @ A @ [?c]"] proc_listD(2)[OF h(3)] by (auto simp: first_ready_def split: option.splits)
  have t: "same_table k' (switch_to ?i k')" by (rule switch_same[OF systemD(6)[OF h(2)] i])
  have r: "ready (switch_to ?i k') j = ready k' j" if "j < length (procs k')" for j by (rule same_table_ready[OF t that])
  have "find (ready (switch_to ?i k')) (B @ A @ [?c]) = find (ready k') (B @ A @ [?c])"
    by (rule find_cong) (use r proc_listD(2)[OF h(3)] in auto)
  moreover have "tick_counter (switch_to ?i k') = tick_counter k'" by (simp add: switch_to_def Let_def)
  moreover have "interrupt_handler_c depth fuel p m = Some (set_kern (switch_to ?i k') ((set_kern k' m)\<lparr>m_clock := c'\<rparr>))"
    using assms(4-8) h(1) sch
    by (simp add: interrupt_handler_c_def pi_sources_def say_if_def run_if_def timer_interrupt_def flag_def set_kern_def)
  ultimately show ?thesis using h(5-7) r by (simp add: first_ready_def)
qed

lemma timer_preempts_witness:
  "\<exists>m'. interrupt_handler_c 0 5 \<lparr>pi4 = False, basic_pending = 1, pending0 = 0, pending1 = 0, pending2 = 0, received_chars = [], data_line = False\<rparr>
     demo_machine = Some m' \<and> tick_counter (m_kern m') = 6 \<and> current (m_kern m') = 1"
proof -
  let ?p = "\<lparr>pi4 = False, basic_pending = 1, pending0 = 0, pending1 = 0, pending2 = 0, received_chars = [], data_line = False\<rparr>"
  have t: "tick_counter demo_kern = 5" "scheduling_enabled (m_tty demo_machine)" by (simp_all add: demo_kern_def demo_machine_def demo_tty_def)
  have d: "system (m_kern demo_machine) 0 [1] (\<lambda>_. [])" "proc_list (m_kern demo_machine) (0 # [] @ current (m_kern demo_machine) # [])"
    using demo_system demo_list by (simp_all add: demo_current)
  show ?thesis using timer_preempts[OF d(1) _ d(2), of 5 ?p 0] t by (auto simp: demo_current split: if_splits option.splits)
qed

text \<open>
  C38: \<open>llseek\<close> never reports an error: on a descriptor that is not open it returns 0 and stores the error number, extended to 64 bits,
  as the new position.
\<close>

theorem llseek_error_is_a_position:
  assumes "file_view (m_kern m) = Some fs" and "map_fd_to_file (unat fd) fs = Some (Inl e)"
    and "swi_handler_c depth fuel b fd high low res whence 140 m = Some (r, m')"
  shows "r = Result 0 \<and> ram_get (unat res) 8 (memory (m_kern m'))
    = Some (word_bytes (ucast (of_int e :: u64)) @ word_bytes (ucast (drop_bit 32 (of_int e :: u64))))"
proof -
  let ?bs = "word_bytes (ucast (of_int e :: u64)) @ word_bytes (ucast (drop_bit 32 (of_int e :: u64)))"
  have "\<exists>m1. user_put res ?bs m1 = Some m' \<and> r = Result 0"
    using assms by (auto simp: swi_handler_c_def file_calls_def sys_llseek_def on_files_def llseek_syscall_def Let_def split: bind_splits)
  then obtain m1 where "user_put res ?bs m1 = Some m'" "r = Result 0" by blast
  moreover have "length ?bs = 8" by simp
  ultimately show ?thesis using ram_get_put[of "unat res" ?bs] by (auto simp: user_put_def split: bind_splits)
qed

lemma demo_view: "file_view demo_kern = Some ((files demo_kern)\<lparr>k_fds := p_files (procs demo_kern ! 1), k_cwd := p_cwd (procs demo_kern ! 1)\<rparr>)"
  by (simp add: file_view_def demo_kern_def rd_def)

lemma no_file_7:
  "map_fd_to_file 7 ((files demo_kern)\<lparr>k_fds := p_files (procs demo_kern ! 1), k_cwd := p_cwd (procs demo_kern ! 1)\<rparr>) = Some (Inl (- ENFILE))"
  by (simp add: map_fd_to_file_def demo_kern_def demo_pcb_def pcb_zero_def rd_def)

lemma llseek_error_is_a_position_witness:
  "\<exists>m'. swi_handler_c 0 5 demo_build 7 0 0 0x8000 0 140 demo_machine = Some (Result 0, m')
     \<and> ram_get 0x8000 8 (memory (m_kern m')) = Some [233, 255, 255, 255, 255, 255, 255, 255]"
proof -
  let ?fs = "(files demo_kern)\<lparr>k_fds := p_files (procs demo_kern ! 1), k_cwd := p_cwd (procs demo_kern ! 1)\<rparr>"
  have v: "file_view (m_kern demo_machine) = Some ?fs" "map_fd_to_file (unat (7 :: u32)) ?fs = Some (Inl (- ENFILE))"
    using demo_view no_file_7 by simp_all
  have "swi_handler_c 0 5 demo_build 7 0 0 0x8000 0 140 demo_machine \<noteq> None"
    using demo_view no_file_7
    by (simp add: swi_handler_c_def file_calls_def sys_llseek_def on_files_def llseek_syscall_def store_files_def demo_current Let_def
        user_put_def ram_put_def)
  then obtain r m' where m': "swi_handler_c 0 5 demo_build 7 0 0 0x8000 0 140 demo_machine = Some (r, m')" by auto
  from llseek_error_is_a_position[OF v m'] show ?thesis using m' by (simp add: word_bytes_def)
qed

end
